(* ===== verification/Prelude.thy ===== *)
theory Prelude
  imports Complex_Main "HOL-Library.Sublist" "HOL-Library.Multiset"
    "HOL-Library.Char_ord" "HOL-Library.List_Lexorder"
begin

text \<open>
  Shared ground of the development: the Python string operations the package
  uses, the values a dynamically typed Python parameter may hold, decimal
  rendering, and the generic list lemmas.

  Text is a list of ASCII characters. On such text \<open>casefold\<close> and \<open>lower\<close> are
  the ASCII lower-casing below, and white space is the set \<open>str.isspace\<close> and
  the regular expression class \<open>\s\<close> accept. Python floats are exact rationals
  (\<^typ>\<open>rat\<close>), Python integers are \<^typ>\<open>int\<close> or, where the code keeps them
  non-negative, \<^typ>\<open>nat\<close>.
\<close>

named_theorems text_simps \<open>rewriting of the string operations\<close>
named_theorems norm_simps \<open>facts about normalised comparison values\<close>

section \<open>Values and results\<close>

type_synonym seconds = rat

text \<open>What a parameter annotated \<open>Any\<close> may be: \<open>None\<close>, a string, an integer,
  a sequence, or a value of another type, of which only the type name matters.\<close>

datatype pyval = PNone | PStr string | PInt int | PSeq "pyval list" | POther string

fun opt_val :: "string option \<Rightarrow> pyval" where
  "opt_val None = PNone"
| "opt_val (Some s) = PStr s"

text \<open>Python truth of an optional string: neither \<open>None\<close> nor empty.\<close>

fun truthy :: "string option \<Rightarrow> bool" where
  "truthy None = False"
| "truthy (Some s) = (s \<noteq> [])"

section \<open>Characters\<close>

definition is_space :: "char \<Rightarrow> bool" where
  "is_space c \<longleftrightarrow> (9 \<le> (of_char c :: nat) \<and> (of_char c :: nat) \<le> 13) \<or>
     (28 \<le> (of_char c :: nat) \<and> (of_char c :: nat) \<le> 32)"

definition is_digit :: "char \<Rightarrow> bool" where
  "is_digit c \<longleftrightarrow> 48 \<le> (of_char c :: nat) \<and> (of_char c :: nat) \<le> 57"

definition is_alpha :: "char \<Rightarrow> bool" where
  "is_alpha c \<longleftrightarrow> (65 \<le> (of_char c :: nat) \<and> (of_char c :: nat) \<le> 90) \<or>
     (97 \<le> (of_char c :: nat) \<and> (of_char c :: nat) \<le> 122)"

abbreviation is_alnum :: "char \<Rightarrow> bool" where
  "is_alnum c \<equiv> is_alpha c \<or> is_digit c"

definition lower_char :: "char \<Rightarrow> char" where
  "lower_char c = (if 65 \<le> (of_char c :: nat) \<and> (of_char c :: nat) \<le> 90
     then char_of ((of_char c :: nat) + 32) else c)"

abbreviation casefold :: "string \<Rightarrow> string" where
  "casefold s \<equiv> map lower_char s"

lemma space_is_space [simp]: "is_space CHR '' ''"
  by (simp add: is_space_def)

lemma dash_not_digit [simp]: "\<not> is_digit CHR ''-''"
  by (simp add: is_digit_def)

lemma dash_not_space [simp]: "\<not> is_space CHR ''-''"
  by (simp add: is_space_def)

lemma lower_char_idem [simp]: "lower_char (lower_char c) = lower_char c"
  by (simp add: lower_char_def)

lemma of_char_lower:
  "(of_char (lower_char c) :: nat) =
     (if 65 \<le> (of_char c :: nat) \<and> (of_char c :: nat) \<le> 90 then of_char c + 32 else of_char c)"
  by (simp add: lower_char_def)

lemma is_space_lower [simp]: "is_space (lower_char c) = is_space c"
  by (auto simp: is_space_def of_char_lower)

lemma digit_not_space: "is_digit c \<Longrightarrow> \<not> is_space c"
  by (auto simp: is_space_def is_digit_def)

section \<open>String operations\<close>

definition lstrip :: "string \<Rightarrow> string" where
  "lstrip s = dropWhile is_space s"

definition rstrip :: "string \<Rightarrow> string" where
  "rstrip s = rev (dropWhile is_space (rev s))"

definition strip :: "string \<Rightarrow> string" where
  "strip s = rstrip (lstrip s)"

text \<open>\<open>s.strip(chars)\<close> and \<open>s.rstrip(chars)\<close>.\<close>

definition rstrip_chars :: "string \<Rightarrow> string \<Rightarrow> string" where
  "rstrip_chars cs s = rev (dropWhile (\<lambda>c. c \<in> set cs) (rev s))"

definition strip_chars :: "string \<Rightarrow> string \<Rightarrow> string" where
  "strip_chars cs s = rstrip_chars cs (dropWhile (\<lambda>c. c \<in> set cs) s)"

fun join :: "string \<Rightarrow> string list \<Rightarrow> string" where
  "join sep [] = []"
| "join sep [x] = x"
| "join sep (x # y # zs) = x @ sep @ join sep (y # zs)"

text \<open>\<open>s.split()\<close>: the maximal runs of characters that are not white space.\<close>

fun extend_word :: "char \<Rightarrow> string list \<Rightarrow> string list" where
  "extend_word c [] = [[c]]"
| "extend_word c (w # ws) = (c # w) # ws"

fun split_ws :: "string \<Rightarrow> string list" where
  "split_ws [] = []"
| "split_ws (c # cs) =
     (if is_space c then split_ws cs
      else if cs \<noteq> [] \<and> \<not> is_space (hd cs)
      then extend_word c (split_ws cs)
      else [c] # split_ws cs)"

text \<open>\<open>re.compile(r"\s+").sub(" ", s)\<close>: every run of white space is one space.\<close>

fun collapse_ws :: "string \<Rightarrow> string" where
  "collapse_ws [] = []"
| "collapse_ws (c # cs) =
     (if is_space c
      then (if cs \<noteq> [] \<and> is_space (hd cs) then collapse_ws cs else CHR '' '' # collapse_ws cs)
      else c # collapse_ws cs)"

text \<open>\<open>s.rsplit(sep, 1)[-1]\<close> for a one-character separator: what follows the
  last one, the whole string when there is none.\<close>

definition after_last :: "char \<Rightarrow> string \<Rightarrow> string" where
  "after_last d s = rev (takeWhile (\<lambda>c. c \<noteq> d) (rev s))"

text \<open>\<open>s.rsplit(sep, 1)[0]\<close>: what precedes the last separator.\<close>

definition before_last :: "char \<Rightarrow> string \<Rightarrow> string" where
  "before_last d s = (if d \<in> set s
     then rev (tl (dropWhile (\<lambda>c. c \<noteq> d) (rev s))) else s)"

definition replace_char :: "char \<Rightarrow> char \<Rightarrow> string \<Rightarrow> string" where
  "replace_char a b s = map (\<lambda>c. if c = a then b else c) s"

text \<open>\<open>s.find(sub)\<close>: the least index at which \<open>sub\<close> occurs, \<open>None\<close> for -1.\<close>

fun find_sub :: "string \<Rightarrow> string \<Rightarrow> nat option" where
  "find_sub sub [] = (if sub = [] then Some 0 else None)"
| "find_sub sub (c # cs) =
     (if prefix sub (c # cs) then Some 0 else map_option Suc (find_sub sub cs))"

text \<open>\<open>str.splitlines\<close> on ASCII text: the boundaries are LF, CR, CR LF, VT, FF,
  FS, GS and RS; a final boundary starts no further line.\<close>

definition is_eol :: "char \<Rightarrow> bool" where
  "is_eol c \<longleftrightarrow> (10 \<le> (of_char c :: nat) \<and> (of_char c :: nat) \<le> 13) \<or>
     (28 \<le> (of_char c :: nat) \<and> (of_char c :: nat) \<le> 30)"

fun split_lines_from :: "string \<Rightarrow> string \<Rightarrow> string list" where
  "split_lines_from acc [] = (if acc = [] then [] else [rev acc])"
| "split_lines_from acc [c] = (if is_eol c then [rev acc] else [rev (c # acc)])"
| "split_lines_from acc (c # d # cs) =
     (if c = CHR 0x0D \<and> d = CHR 0x0A then rev acc # split_lines_from [] cs
      else if is_eol c then rev acc # split_lines_from [] (d # cs)
      else split_lines_from (c # acc) (d # cs))"

definition splitlines :: "string \<Rightarrow> string list" where
  "splitlines s = split_lines_from [] s"

section \<open>Decimal rendering\<close>

definition digit_char :: "nat \<Rightarrow> char" where
  "digit_char n = char_of (48 + n)"

fun str_of_nat :: "nat \<Rightarrow> string" where
  "str_of_nat n = (if n < 10 then [digit_char n]
     else str_of_nat (n div 10) @ [digit_char (n mod 10)])"

declare str_of_nat.simps [simp del]

definition str_of_int :: "int \<Rightarrow> string" where
  "str_of_int k = (if k < 0 then CHR ''-'' # str_of_nat (nat (- k)) else str_of_nat (nat k))"

text \<open>\<open>f"{n:04d}"\<close> for a non-negative \<open>n\<close>.\<close>

definition pad4 :: "nat \<Rightarrow> string" where
  "pad4 n = replicate (4 - length (str_of_nat n)) CHR ''0'' @ str_of_nat n"

definition digit_val :: "char \<Rightarrow> nat" where
  "digit_val c = of_char c - 48"

definition nat_of_str :: "string \<Rightarrow> nat" where
  "nat_of_str s = foldl (\<lambda>a c. 10 * a + digit_val c) 0 s"

section \<open>Facts about white space\<close>

lemma extend_word_ne [simp]: "extend_word c ws \<noteq> []"
  by (cases ws) auto

lemma extend_word_append [simp]:
  "ws \<noteq> [] \<Longrightarrow> extend_word c (ws @ vs) = extend_word c ws @ vs"
  by (cases ws) auto

lemma map_extend_word [simp]:
  "map casefold (extend_word c ws) = extend_word (lower_char c) (map casefold ws)"
  by (cases ws) auto

lemma split_ws_Nil_iff: "split_ws s = [] \<longleftrightarrow> (\<forall>c \<in> set s. is_space c)"
  by (induction s) auto

lemma split_ws_hd_ne: "s \<noteq> [] \<Longrightarrow> \<not> is_space (hd s) \<Longrightarrow> split_ws s \<noteq> []"
  by (cases s) (auto simp: split_ws_Nil_iff)

lemma split_ws_words: "w \<in> set (split_ws s) \<Longrightarrow> w \<noteq> [] \<and> (\<forall>c \<in> set w. \<not> is_space c)"
proof (induction s arbitrary: w)
  case (Cons c s)
  show ?case
  proof (cases "is_space c \<or> \<not> (s \<noteq> [] \<and> \<not> is_space (hd s))")
    case True
    with Cons show ?thesis by (auto split: if_splits)
  next
    case False
    with False Cons show ?thesis by (cases "split_ws s") fastforce+
  qed
qed simp

lemma split_ws_word_end:
  "w \<noteq> [] \<Longrightarrow> \<forall>c \<in> set w. \<not> is_space c \<Longrightarrow> split_ws w = [w]"
  by (induction w rule: induct_list012) auto

lemma split_ws_word:
  "w \<noteq> [] \<Longrightarrow> \<forall>c \<in> set w. \<not> is_space c \<Longrightarrow> split_ws (w @ CHR '' '' # s) = w # split_ws s"
  by (induction w rule: induct_list012) auto

lemma split_ws_join:
  assumes "\<forall>w \<in> set ws. w \<noteq> [] \<and> (\<forall>c \<in> set w. \<not> is_space c)"
  shows "split_ws (join '' '' ws) = ws"
  using assms
proof (induction ws rule: induct_list012)
  case (2 x)
  then show ?case by (simp add: split_ws_word_end)
next
  case (3 x y zs)
  then show ?case by (simp add: split_ws_word)
qed simp

lemma split_ws_map_lower [simp]: "split_ws (casefold s) = map casefold (split_ws s)"
proof (induction s)
  case (Cons c s)
  show ?case
  proof (cases "s \<noteq> [] \<and> \<not> is_space (hd s)")
    case True
    with True Cons show ?thesis by (simp add: hd_map)
  next
    case False
    with Cons show ?thesis by (auto simp: hd_map)
  qed
qed simp

lemma map_lower_join: "casefold (join '' '' ws) = join '' '' (map casefold ws)"
  by (induction ws rule: induct_list012) (simp_all add: lower_char_def)

text \<open>The lead and the trail a collapsed string keeps around its words.\<close>

definition ws_lead :: "string \<Rightarrow> string" where
  "ws_lead s = (if s \<noteq> [] \<and> is_space (hd s) then '' '' else [])"

definition ws_trail :: "string \<Rightarrow> string" where
  "ws_trail s = (if split_ws s \<noteq> [] \<and> is_space (last s) then '' '' else [])"

lemma collapse_ws_words: "collapse_ws s = ws_lead s @ join '' '' (split_ws s) @ ws_trail s"
proof (induction s)
  case (Cons c s)
  consider (space) "is_space c" | (last) "\<not> is_space c" "s = []"
    | (before_space) "\<not> is_space c" "s \<noteq> []" "is_space (hd s)"
    | (inside) "\<not> is_space c" "s \<noteq> []" "\<not> is_space (hd s)" by blast
  then show ?case
  proof cases
    case space
    with Cons show ?thesis by (auto simp: ws_lead_def ws_trail_def)
  next
    case last
    then show ?thesis by (simp add: ws_lead_def ws_trail_def)
  next
    case before_space
    have "split_ws s = [] \<Longrightarrow> is_space (last s)"
      using before_space by (auto simp: split_ws_Nil_iff)
    with before_space Cons show ?thesis
      by (cases "split_ws s") (auto simp: ws_lead_def ws_trail_def)
  next
    case inside
    then have "split_ws s \<noteq> []" by (simp add: split_ws_hd_ne)
    then obtain w ws where "split_ws s = w # ws" by (cases "split_ws s") auto
    with inside Cons show ?thesis
      by (cases ws) (auto simp: ws_lead_def ws_trail_def)
  qed
qed (simp add: ws_lead_def ws_trail_def)

text \<open>Words joined by one space begin and end with a character that is not
  white space, so stripping leaves them alone.\<close>

definition tight :: "string \<Rightarrow> bool" where
  "tight s \<longleftrightarrow> s = [] \<or> (\<not> is_space (hd s) \<and> \<not> is_space (last s))"

lemma lstrip_hd: "s \<noteq> [] \<Longrightarrow> \<not> is_space (hd s) \<Longrightarrow> lstrip s = s"
  by (cases s) (auto simp: lstrip_def)

lemma rstrip_last: "s \<noteq> [] \<Longrightarrow> \<not> is_space (last s) \<Longrightarrow> rstrip s = s"
  by (cases s rule: rev_cases) (auto simp: rstrip_def)

lemma tight_strip: "tight s \<Longrightarrow> strip s = s"
  by (cases "s = []") (simp_all add: tight_def strip_def lstrip_hd rstrip_last,
      simp add: lstrip_def rstrip_def)

lemma join_hd_last:
  assumes "ws \<noteq> []" "\<forall>w \<in> set ws. w \<noteq> [] \<and> (\<forall>c \<in> set w. \<not> is_space c)"
  shows "join '' '' ws \<noteq> [] \<and> \<not> is_space (hd (join '' '' ws)) \<and> \<not> is_space (last (join '' '' ws))"
  using assms
proof (induction ws rule: induct_list012)
  case (3 x y zs)
  then show ?case by (auto simp: hd_append)
qed auto

lemma tight_join:
  "\<forall>w \<in> set ws. w \<noteq> [] \<and> (\<forall>c \<in> set w. \<not> is_space c) \<Longrightarrow> tight (join '' '' ws)"
  using join_hd_last by (cases ws) (auto simp: tight_def)

lemma strip_pad:
  assumes "tight s" "\<forall>c \<in> set a. is_space c" "\<forall>c \<in> set b. is_space c"
  shows "strip (a @ s @ b) = s"
proof (cases s)
  case Nil
  with assms show ?thesis
    by (auto simp: strip_def lstrip_def rstrip_def dest: set_dropWhileD)
next
  case (Cons c t)
  with assms have "lstrip (a @ s @ b) = s @ b"
    by (simp add: lstrip_def dropWhile_append2 tight_def)
  moreover have "rstrip (s @ b) = s"
  proof -
    have "dropWhile is_space (rev b @ rev s) = dropWhile is_space (rev s)"
      using assms(3) by (intro dropWhile_append2) auto
    then have "rstrip (s @ b) = rstrip s" by (simp add: rstrip_def)
    also have "\<dots> = s" using assms(1) Cons by (intro rstrip_last) (auto simp: tight_def)
    finally show ?thesis .
  qed
  ultimately show ?thesis by (simp add: strip_def)
qed

theorem strip_collapse_ws: "strip (collapse_ws s) = join '' '' (split_ws s)"
  unfolding collapse_ws_words
  by (rule strip_pad) (auto simp: tight_join split_ws_words ws_lead_def ws_trail_def)

lemma strip_eq_append: "\<exists>a b. s = a @ strip s @ b \<and> (\<forall>c \<in> set a. is_space c) \<and> (\<forall>c \<in> set b. is_space c)"
proof -
  let ?t = "lstrip s"
  have "s = takeWhile is_space s @ ?t" by (simp add: lstrip_def)
  moreover have "?t = strip s @ rev (takeWhile is_space (rev ?t))"
    unfolding strip_def rstrip_def
    by (metis rev_append rev_rev_ident takeWhile_dropWhile_id)
  ultimately show ?thesis
    by (metis append_assoc set_rev set_takeWhileD)
qed

lemma tight_strip_result: "tight (strip s)"
proof -
  let ?t = "dropWhile is_space s"
  let ?r = "dropWhile is_space (rev ?t)"
  have r: "?r \<noteq> [] \<Longrightarrow> \<not> is_space (hd ?r)" by (rule hd_dropWhile)
  have "?r \<noteq> [] \<Longrightarrow> \<not> is_space (last ?r)"
  proof -
    assume ne: "?r \<noteq> []"
    then have "?t \<noteq> []" by (cases ?t) simp_all
    then have "\<not> is_space (last (rev ?t))" by (simp add: last_rev hd_dropWhile)
    moreover have "last (rev ?t) = last ?r"
      using ne by (metis last_appendR takeWhile_dropWhile_id)
    ultimately show ?thesis by simp
  qed
  with r show ?thesis
    by (auto simp: tight_def strip_def lstrip_def rstrip_def hd_rev last_rev)
qed

lemma strip_idem [simp]: "strip (strip s) = strip s"
  by (simp add: tight_strip tight_strip_result)

lemma strip_no_space: "\<forall>c \<in> set s. \<not> is_space c \<Longrightarrow> strip s = s"
  by (rule tight_strip) (auto simp: tight_def)

lemma split_ws_append_space: "split_ws (a @ CHR '' '' # b) = split_ws a @ split_ws b"
proof (induction a)
  case (Cons c a)
  show ?case
  proof (cases "a \<noteq> [] \<and> \<not> is_space (hd a)")
    case True
    then have "split_ws a \<noteq> []" by (simp add: split_ws_hd_ne)
    with True Cons show ?thesis by (simp add: hd_append)
  next
    case False
    with Cons show ?thesis by (cases a) auto
  qed
qed simp

lemma join_append:
  "join sep (xs @ ys) =
     (if xs = [] then join sep ys else if ys = [] then join sep xs
      else join sep xs @ sep @ join sep ys)"
proof (induction xs rule: induct_list012)
  case (2 x)
  then show ?case by (cases ys) auto
qed auto

lemma suffix_join: "suffix (join sep ys) (join sep (xs @ ys))"
  by (cases "ys = []") (auto simp: join_append suffix_def)

lemma sublist_join: "sublist (join sep ys) (join sep (xs @ ys @ zs))"
proof -
  have "\<exists>a b. join sep (xs @ ys @ zs) = a @ join sep ys @ b" if "ys \<noteq> []"
    using that by (auto simp: join_append) (metis append.assoc append_Nil append_Nil2)+
  then show ?thesis by (cases "ys = []") (auto simp: sublist_def)
qed

section \<open>Facts about decimal rendering\<close>

lemma digit_char_is_digit: "n < 10 \<Longrightarrow> is_digit (digit_char n)"
  by (simp add: digit_char_def is_digit_def)

lemma digit_val_char [simp]: "n < 10 \<Longrightarrow> digit_val (digit_char n) = n"
  by (simp add: digit_val_def digit_char_def)

lemma str_of_nat_digits: "\<forall>c \<in> set (str_of_nat n). is_digit c"
  by (induction n rule: str_of_nat.induct)
    (subst str_of_nat.simps, auto simp: digit_char_is_digit)

lemma str_of_nat_ne [simp]: "str_of_nat n \<noteq> []"
  by (subst str_of_nat.simps) simp

lemma nat_of_str_snoc [simp]: "nat_of_str (s @ [c]) = 10 * nat_of_str s + digit_val c"
  by (simp add: nat_of_str_def)

lemma nat_of_str_of_nat [simp]: "nat_of_str (str_of_nat n) = n"
proof (induction n rule: str_of_nat.induct)
  case (1 n)
  then show ?case
    by (subst str_of_nat.simps) (simp add: nat_of_str_def)
qed

lemma nat_of_str_zeros [simp]: "nat_of_str (replicate k CHR ''0'' @ s) = nat_of_str s"
  by (induction k) (simp_all add: nat_of_str_def digit_val_def)

lemma nat_of_pad4 [simp]: "nat_of_str (pad4 n) = n"
  by (simp add: pad4_def)

lemma pad4_digits: "\<forall>c \<in> set (pad4 n). is_digit c"
  using str_of_nat_digits by (auto simp: pad4_def is_digit_def)

lemma pad4_length: "4 \<le> length (pad4 n)"
  by (simp add: pad4_def)

lemma str_of_nat_inj [simp]: "str_of_nat m = str_of_nat n \<longleftrightarrow> m = n"
  by (metis nat_of_str_of_nat)

lemma pad4_inj [simp]: "pad4 m = pad4 n \<longleftrightarrow> m = n"
  by (metis nat_of_pad4)

section \<open>Dictionaries that count, and lists without repetition\<close>

text \<open>The distinct elements in the order of their first occurrence, which is the
  order a Python \<open>dict\<close> iterates its keys in, and the counts beside them.\<close>

definition nub :: "'a list \<Rightarrow> 'a list" where
  "nub xs = rev (remdups (rev xs))"

definition tally :: "'a list \<Rightarrow> ('a \<times> nat) list" where
  "tally xs = map (\<lambda>x. (x, count_list xs x)) (nub xs)"

lemma set_nub [simp]: "set (nub xs) = set xs"
  by (simp add: nub_def)

lemma distinct_nub [simp]: "distinct (nub xs)"
  by (simp add: nub_def)

lemma sum_tally: "sum_list (map snd (tally xs)) = length xs"
proof -
  have "sum_list (map snd (tally xs)) = (\<Sum>x \<in> set xs. count_list xs x)"
    by (simp add: tally_def comp_def sum_list_distinct_conv_sum_set)
  then show ?thesis by (simp add: sum_count_set)
qed

lemma length_filter_compl: "length (filter P xs) + length (filter (\<lambda>x. \<not> P x) xs) = length xs"
  by (rule sum_length_filter_compl)

end
