(* ===== verification/Payload.thy ===== *)
theory Payload
  imports Prelude "HOL-Library.AList"
begin

text \<open>
  Model of \<open>testinghq/blast/payload.py\<close>: one generated message with its ground
  truth, and the copy-with-changes operation that keeps the header block and the
  raw fields in step with the fields they derive from. A Python \<open>dict\<close> is an
  association list in insertion order; assignment is \<^const>\<open>AList.update\<close>.
  Bytes are character lists.
\<close>

type_synonym bytes = "char list"
type_synonym 'v dict = "(string \<times> 'v) list"

record envelope =
  env_to :: "string list"
  env_from_addr :: string

record attachment =
  at_filename :: string
  at_content_type :: string
  at_content :: bytes

record ground_truth =
  gt_from_addr :: string
  gt_subject :: string
  gt_body_core :: string

record email =
  em_to :: string
  em_from_addr :: string
  em_subject :: string
  em_text :: string
  em_html :: string
  em_envelope :: envelope
  em_ground_truth :: ground_truth
  em_headers :: "string dict"
  em_charsets :: "string dict"
  em_attachments :: "attachment list"
  em_raw_fields :: "bytes dict"
  em_extra_form_fields :: "(string \<times> bytes) list"

section \<open>Headers\<close>

text \<open>\<open>find_header\<close>: the first key equal to the name up to case.\<close>

fun find_header :: "string dict \<Rightarrow> string \<Rightarrow> string option" where
  "find_header [] name = None"
| "find_header ((k, v) # hs) name =
     (if casefold k = casefold name then Some k else find_header hs name)"

definition set_header :: "string dict \<Rightarrow> string \<Rightarrow> string \<Rightarrow> string dict" where
  "set_header hs name value =
     AList.update (case find_header hs name of Some k \<Rightarrow> k | None \<Rightarrow> name) value hs"

section \<open>Copies with changes\<close>

text \<open>The keyword arguments of \<open>with_changes\<close>; \<open>None\<close> is an argument not passed.
  An ASCII header value is its own RFC 2047 encoding.\<close>

record changes =
  ch_to :: "string option"
  ch_from_addr :: "string option"
  ch_subject :: "string option"
  ch_text :: "string option"
  ch_html :: "string option"
  ch_envelope :: "envelope option"
  ch_ground_truth :: "ground_truth option"
  ch_headers :: "string dict option"
  ch_charsets :: "string dict option"
  ch_attachments :: "attachment list option"
  ch_raw_fields :: "bytes dict option"
  ch_extra_form_fields :: "(string \<times> bytes) list option"

definition no_changes :: changes where
  "no_changes = \<lparr>ch_to = None, ch_from_addr = None, ch_subject = None, ch_text = None,
     ch_html = None, ch_envelope = None, ch_ground_truth = None, ch_headers = None,
     ch_charsets = None, ch_attachments = None, ch_raw_fields = None,
     ch_extra_form_fields = None\<rparr>"

definition sync_header :: "string \<Rightarrow> string option \<Rightarrow> string dict \<Rightarrow> string dict" where
  "sync_header name change hs =
     (case change of None \<Rightarrow> hs | Some v \<Rightarrow> set_header hs name v)"

text \<open>The keys of \<open>changes\<close> under their wire names (\<open>_WIRE_NAMES\<close>), after the
  synchronised headers were added to it.\<close>

definition changed_wire_names :: "changes \<Rightarrow> string list" where
  "changed_wire_names c =
     (if ch_to c \<noteq> None then [''to''] else []) @
     (if ch_from_addr c \<noteq> None then [''from''] else []) @
     (if ch_subject c \<noteq> None then [''subject''] else []) @
     (if ch_text c \<noteq> None then [''text''] else []) @
     (if ch_html c \<noteq> None then [''html''] else []) @
     (if ch_envelope c \<noteq> None then [''envelope''] else []) @
     (if ch_ground_truth c \<noteq> None then [''ground_truth''] else []) @
     (if ch_headers c \<noteq> None \<or> ch_to c \<noteq> None \<or> ch_from_addr c \<noteq> None \<or> ch_subject c \<noteq> None
      then [''headers''] else []) @
     (if ch_charsets c \<noteq> None then [''charsets''] else []) @
     (if ch_attachments c \<noteq> None then [''attachments''] else []) @
     (if ch_extra_form_fields c \<noteq> None then [''extra_form_fields''] else [])"

definition replaced :: "'a option \<Rightarrow> 'a \<Rightarrow> 'a" where
  "replaced change old = (case change of None \<Rightarrow> old | Some new \<Rightarrow> new)"

definition with_changes :: "changes \<Rightarrow> email \<Rightarrow> email" where
  "with_changes c e =
     (let hs = (case ch_headers c of
            Some given \<Rightarrow> given
          | None \<Rightarrow> sync_header ''From'' (ch_from_addr c)
              (sync_header ''To'' (ch_to c)
                (sync_header ''Subject'' (ch_subject c) (em_headers e))));
          raw = (case ch_raw_fields c of
            Some given \<Rightarrow> given
          | None \<Rightarrow> filter (\<lambda>kv. fst kv \<notin> set (changed_wire_names c)) (em_raw_fields e))
      in \<lparr>em_to = replaced (ch_to c) (em_to e),
          em_from_addr = replaced (ch_from_addr c) (em_from_addr e),
          em_subject = replaced (ch_subject c) (em_subject e),
          em_text = replaced (ch_text c) (em_text e),
          em_html = replaced (ch_html c) (em_html e),
          em_envelope = replaced (ch_envelope c) (em_envelope e),
          em_ground_truth = replaced (ch_ground_truth c) (em_ground_truth e),
          em_headers = hs,
          em_charsets = replaced (ch_charsets c) (em_charsets e),
          em_attachments = replaced (ch_attachments c) (em_attachments e),
          em_raw_fields = raw,
          em_extra_form_fields = replaced (ch_extra_form_fields c) (em_extra_form_fields e)\<rparr>)"

section \<open>Facts\<close>

lemma replaced_simps [simp]: "replaced None x = x" "replaced (Some y) x = y"
  by (simp_all add: replaced_def)

lemma find_header_Some:
  "find_header hs name = Some k \<Longrightarrow> k \<in> fst ` set hs \<and> casefold k = casefold name"
  by (induction hs) (auto split: if_splits)

lemma find_header_None_iff:
  "find_header hs name = None \<longleftrightarrow> (\<forall>k \<in> fst ` set hs. casefold k \<noteq> casefold name)"
proof (induction hs)
  case (Cons h hs)
  then show ?case by (cases h) simp
qed simp

text \<open>The value a case-insensitive reader of the header block sees.\<close>

definition header_value :: "string dict \<Rightarrow> string \<Rightarrow> string option" where
  "header_value hs name = Option.bind (find_header hs name) (map_of hs)"

lemma find_header_update:
  "find_header (AList.update k v hs) name =
     (if k \<in> fst ` set hs \<or> find_header hs name \<noteq> None then find_header hs name
      else if casefold k = casefold name then Some k else None)"
  by (induction hs) (auto split: if_splits)

lemma header_value_set_header: "header_value (set_header hs name v) name = Some v"
proof (cases "find_header hs name")
  case None
  then have "name \<notin> fst ` set hs" by (auto simp: find_header_None_iff)
  with None show ?thesis
    by (simp add: header_value_def set_header_def find_header_update update_conv)
next
  case (Some k)
  then show ?thesis
    by (simp add: header_value_def set_header_def find_header_update update_conv)
qed

lemma header_value_set_other:
  assumes "casefold name \<noteq> casefold other"
  shows "header_value (set_header hs name v) other = header_value hs other"
proof -
  define k where "k = (case find_header hs name of Some k \<Rightarrow> k | None \<Rightarrow> name)"
  have fold: "casefold k = casefold name"
    by (auto simp: k_def dest: find_header_Some split: option.splits)
  have find: "find_header (AList.update k v hs) other = find_header hs other"
    using assms fold by (auto simp: find_header_update)
  show ?thesis
  proof (cases "find_header hs other")
    case None
    with find show ?thesis by (simp add: header_value_def set_header_def k_def)
  next
    case (Some o')
    then have "o' \<noteq> k" using assms fold by (auto dest: find_header_Some)
    with find Some show ?thesis
      by (simp add: header_value_def set_header_def update_conv flip: k_def)
  qed
qed

text \<open>A generated message, for the witnesses.\<close>

definition sample_email :: email where
  "sample_email = \<lparr>em_to = ''in@example.com'', em_from_addr = ''Ann <ann@example.com>'',
     em_subject = ''Printer broken'', em_text = ''It jams'', em_html = ''<p>It jams</p>'',
     em_envelope = \<lparr>env_to = [''in@example.com''], env_from_addr = ''ann@example.com''\<rparr>,
     em_ground_truth = \<lparr>gt_from_addr = ''ann@example.com'', gt_subject = ''Printer broken'',
       gt_body_core = ''It jams''\<rparr>,
     em_headers = [(''Subject'', ''Printer broken''), (''Message-ID'', ''<1@example.com>'')],
     em_charsets = [], em_attachments = [], em_raw_fields = [], em_extra_form_fields = []\<rparr>"

lemma header_value_sync:
  "header_value (sync_header n ch hs) n = (case ch of Some v \<Rightarrow> Some v | None \<Rightarrow> header_value hs n)"
  "casefold n \<noteq> casefold m \<Longrightarrow> header_value (sync_header n ch hs) m = header_value hs m"
  by (simp_all add: sync_header_def header_value_set_header header_value_set_other
      split: option.splits)

section \<open>Property\<close>

text \<open>A changed field changes its header. A copy whose header block was not given keeps
  it in step: a case-insensitive reader finds the changed subject, sender or recipient under
  its header, every other header as it was, and a changed subject leaves no raw override of
  the subject or of the header block behind that would put the old value on the wire.\<close>

theorem with_changes_in_step:
  assumes "ch_headers c = None"
  shows "header_value (em_headers (with_changes c e)) ''Subject'' =
           (case ch_subject c of Some v \<Rightarrow> Some v | None \<Rightarrow> header_value (em_headers e) ''Subject'') \<and>
         header_value (em_headers (with_changes c e)) ''From'' =
           (case ch_from_addr c of Some v \<Rightarrow> Some v | None \<Rightarrow> header_value (em_headers e) ''From'') \<and>
         header_value (em_headers (with_changes c e)) ''To'' =
           (case ch_to c of Some v \<Rightarrow> Some v | None \<Rightarrow> header_value (em_headers e) ''To'') \<and>
         (casefold h \<notin> {''subject'', ''from'', ''to''} \<longrightarrow>
           header_value (em_headers (with_changes c e)) h = header_value (em_headers e) h) \<and>
         (ch_raw_fields c = None \<longrightarrow> ch_subject c \<noteq> None \<longrightarrow>
           map_of (em_raw_fields (with_changes c e)) ''headers'' = None \<and>
           map_of (em_raw_fields (with_changes c e)) ''subject'' = None)"
proof -
  have hs: "em_headers (with_changes c e) = sync_header ''From'' (ch_from_addr c)
      (sync_header ''To'' (ch_to c) (sync_header ''Subject'' (ch_subject c) (em_headers e)))"
    using assms by (simp add: with_changes_def)
  have fold: "casefold ''From'' = ''from''" "casefold ''To'' = ''to''"
      "casefold ''Subject'' = ''subject''"
    by code_simp+
  have raw: "map_of (em_raw_fields (with_changes c e)) k = None"
    if "ch_raw_fields c = None" "ch_subject c \<noteq> None" "k = ''headers'' \<or> k = ''subject''" for k
    using that by (auto simp: with_changes_def changed_wire_names_def map_of_eq_None_iff)
  have ne: "casefold ''From'' \<noteq> casefold ''Subject''" "casefold ''To'' \<noteq> casefold ''Subject''"
      "casefold ''From'' \<noteq> casefold ''To''" "casefold ''To'' \<noteq> casefold ''From''"
      "casefold ''Subject'' \<noteq> casefold ''From''" "casefold ''Subject'' \<noteq> casefold ''To''"
    unfolding fold by simp_all
  note sync = header_value_sync(1) ne [THEN header_value_sync(2)]
  have other: "header_value (em_headers (with_changes c e)) h = header_value (em_headers e) h"
    if h: "casefold h \<notin> {''subject'', ''from'', ''to''}"
  proof -
    have "casefold ''From'' \<noteq> casefold h" "casefold ''To'' \<noteq> casefold h"
        "casefold ''Subject'' \<noteq> casefold h"
      using h unfolding fold by auto
    from this [THEN header_value_sync(2)] show ?thesis by (simp only: hs)
  qed
  show ?thesis
    using raw other by (simp only: hs sync) blast
qed

theorem with_changes_in_step_witness:
  "header_value (em_headers (with_changes (no_changes\<lparr>ch_subject := Some ''New''\<rparr>) sample_email))
     ''Subject'' = Some ''New''"
  using with_changes_in_step [of "no_changes\<lparr>ch_subject := Some ''New''\<rparr>" sample_email]
  by (simp add: no_changes_def)

end
