(* ===== verification/Blast_Report.thy ===== *)
theory Blast_Report
  imports Payload
begin

text \<open>
  Model of \<open>testinghq/core/report.py\<close>: the outcome of one blast record, the flag it raises,
  the summary of a run, the artifact with its verdict, and the record a sent payload gets,
  graded by a matcher. A record read from an artifact may lack its response or its
  assertion; \<open>d.get(k) or {}\<close> is the empty response. The digest of a payload and the search
  of the \<open>--fail-on-body\<close> pattern are parameters. Printing (\<open>format_summary\<close>) is not modelled.
\<close>

section \<open>Labels\<close>

definition CLEAN :: string where "CLEAN = ''clean''"
definition MESSY_BUT_VALID :: string where "MESSY_BUT_VALID = ''messy-but-valid''"
definition MULTILINGUAL_GIBBERISH :: string where
  "MULTILINGUAL_GIBBERISH = ''multilingual-gibberish''"
definition STRUCTURALLY_MALFORMED :: string where
  "STRUCTURALLY_MALFORMED = ''structurally-malformed''"
definition DEGENERATE :: string where "DEGENERATE = ''degenerate''"

lemmas category_names = CLEAN_def MESSY_BUT_VALID_def MULTILINGUAL_GIBBERISH_def
  STRUCTURALLY_MALFORMED_def DEGENERATE_def

definition CATEGORIES :: "string list" where
  "CATEGORIES = [CLEAN, MESSY_BUT_VALID, MULTILINGUAL_GIBBERISH, STRUCTURALLY_MALFORMED, DEGENERATE]"

definition CORRUPT_CATEGORY_LABELS :: "string dict" where
  "CORRUPT_CATEGORY_LABELS =
     [(''clean'', CLEAN), (''messy_but_valid'', MESSY_BUT_VALID),
      (''multilingual_gibberish'', MULTILINGUAL_GIBBERISH),
      (''structurally_malformed'', STRUCTURALLY_MALFORMED), (''degenerate'', DEGENERATE)]"

definition category_label :: "string \<Rightarrow> string" where
  "category_label name =
     (case map_of CORRUPT_CATEGORY_LABELS name of Some l \<Rightarrow> l | None \<Rightarrow> name)"

datatype record_outcome =
  CleanFailed | DegenerateFailed | ServerError | NoResponse | BodyFailed | AssertionFailed | AllOk

definition FLAGGED_OUTCOMES :: "record_outcome list" where
  "FLAGGED_OUTCOMES = [CleanFailed, DegenerateFailed, ServerError, NoResponse, BodyFailed]"

definition STATUS_CLASSES :: "string list" where
  "STATUS_CLASSES = [''1xx'', ''2xx'', ''3xx'', ''4xx'', ''5xx'', ''other'', ''no_response'']"

definition TRANSPORT_ERROR_KINDS :: "string list" where
  "TRANSPORT_ERROR_KINDS = [''refused'', ''dns'', ''timeout'', ''tls'', ''other'']"

definition ERROR_REASONS :: "string dict" where
  "ERROR_REASONS = [(''refused'', ''connection refused''), (''dns'', ''DNS lookup failed''),
     (''tls'', ''TLS handshake failed'')]"

definition DNS_MARKERS :: "string list" where
  "DNS_MARKERS = [''name or service not known'', ''nodename nor servname'', ''getaddrinfo'',
     ''name resolution'', ''no address associated'', ''[errno -2]'', ''[errno -3]'',
     ''[errno -5]'', ''[errno 11001]'', ''[errno 8]'']"

section \<open>Records\<close>

record response =
  rs_status :: "int option"
  rs_latency_ms :: rat
  rs_body_snippet :: string
  rs_error :: "string option"
  rs_error_kind :: "string option"
  rs_body_failure :: "bool option"

definition empty_response :: response where
  "empty_response = \<lparr>rs_status = None, rs_latency_ms = 0, rs_body_snippet = [], rs_error = None,
     rs_error_kind = None, rs_body_failure = None\<rparr>"

record match_result =
  ma_passed :: bool
  ma_mismatches :: "string list"

record intended =
  in_from :: string
  in_subject :: string
  in_body_core :: string
  in_attachments :: nat

record run_record =
  rd_id :: string
  rd_category :: string
  rd_payload_sha256 :: string
  rd_intended :: intended
  rd_response :: "response option"
  rd_assertion :: "match_result option"
  rd_case :: "string option"

text \<open>\<open>record.get("response") or {}\<close>.\<close>

definition response_of :: "run_record \<Rightarrow> response" where
  "response_of r = (case rd_response r of Some p \<Rightarrow> p | None \<Rightarrow> empty_response)"

section \<open>One record\<close>

definition transport_error_kind :: "string option \<Rightarrow> string" where
  "transport_error_kind error =
     (let s = casefold (case error of Some e \<Rightarrow> e | None \<Rightarrow> [])
      in if sublist ''timed out'' s \<or> sublist ''timeout'' s then ''timeout''
         else if sublist ''refused'' s then ''refused''
         else if list_ex (\<lambda>marker. sublist marker s) DNS_MARKERS then ''dns''
         else if sublist ''ssl'' s \<or> sublist ''tls'' s \<or> sublist ''certificate'' s then ''tls''
         else ''other'')"

definition error_kind :: "response \<Rightarrow> string" where
  "error_kind p =
     (case rs_error_kind p of
        Some kind \<Rightarrow> if kind \<in> set TRANSPORT_ERROR_KINDS then kind
          else if truthy (rs_error p) then transport_error_kind (rs_error p) else ''timeout''
      | None \<Rightarrow> if truthy (rs_error p) then transport_error_kind (rs_error p) else ''timeout'')"

definition no_response_reason :: "response \<Rightarrow> string" where
  "no_response_reason p =
     (let kind = error_kind p
      in if kind = ''timeout'' then ''timed out''
         else ''got no response: '' @
           (case map_of ERROR_REASONS kind of
              Some reason \<Rightarrow> reason
            | None \<Rightarrow> (case rs_error p of
                Some e \<Rightarrow> if e \<noteq> [] then e else ''no response''
              | None \<Rightarrow> ''no response'')))"

definition status_class_name :: "int option \<Rightarrow> string" where
  "status_class_name status =
     (case status of
        None \<Rightarrow> ''no_response''
      | Some s \<Rightarrow> if 100 \<le> s \<and> s < 600 then str_of_int (s div 100) @ ''xx'' else ''other'')"

definition is_2xx :: "int option \<Rightarrow> bool" where
  "is_2xx status = (case status of None \<Rightarrow> False | Some s \<Rightarrow> 200 \<le> s \<and> s < 300)"

definition is_5xx :: "int option \<Rightarrow> bool" where
  "is_5xx status = (case status of None \<Rightarrow> False | Some s \<Rightarrow> 500 \<le> s \<and> s < 600)"

definition classify_record :: "run_record \<Rightarrow> record_outcome" where
  "classify_record r =
     (let status = rs_status (response_of r)
      in if rd_category r = CLEAN \<and> \<not> is_2xx status then CleanFailed
         else if status = None \<or> is_5xx status then
           (if rd_category r = DEGENERATE then DegenerateFailed
            else if status = None then NoResponse else ServerError)
         else if is_2xx status \<and> rs_body_failure (response_of r) = Some True then BodyFailed
         else if map_option ma_passed (rd_assertion r) = Some False then AssertionFailed
         else AllOk)"

definition flag_for_record :: "run_record \<Rightarrow> string option" where
  "flag_for_record r =
     (let outcome = classify_record r; p = response_of r; cat = rd_category r; rid = rd_id r
      in if outcome \<notin> set FLAGGED_OUTCOMES then None
         else if outcome = CleanFailed then
           (case rs_status p of
              None \<Rightarrow> Some (''clean payload '' @ rid @ '' did not 2xx: '' @ no_response_reason p)
            | Some s \<Rightarrow> Some (''clean payload '' @ rid @ '' did not 2xx''))
         else (case rs_status p of
              None \<Rightarrow> if outcome = BodyFailed
                then Some (cat @ '' '' @ rid @ '' returned None with a failure body'')
                else Some (cat @ '' '' @ rid @ '' '' @ no_response_reason p)
            | Some s \<Rightarrow> if outcome = BodyFailed
                then Some (cat @ '' '' @ rid @ '' returned '' @ str_of_int s @ '' with a failure body'')
                else Some (cat @ '' '' @ rid @ '' returned '' @ str_of_int s)))"

section \<open>The summary and the artifact\<close>

text \<open>\<open>d[k] += 1\<close>: \<open>None\<close> is the \<open>KeyError\<close>.\<close>

definition bump :: "string \<Rightarrow> nat dict \<Rightarrow> nat dict option" where
  "bump k d = (case map_of d k of None \<Rightarrow> None | Some n \<Rightarrow> Some (AList.update k (n + 1) d))"

definition zero_counts :: "string list \<Rightarrow> nat dict" where
  "zero_counts ks = map (\<lambda>k. (k, 0)) ks"

definition empty_status_classes :: "nat dict" where
  "empty_status_classes = zero_counts STATUS_CLASSES"

record run_summary =
  su_by_status_class :: "nat dict"
  su_transport_errors :: "nat dict"
  su_by_category :: "nat dict"
  su_flags :: "string list"

definition empty_summary :: run_summary where
  "empty_summary = \<lparr>su_by_status_class = empty_status_classes,
     su_transport_errors = zero_counts TRANSPORT_ERROR_KINDS,
     su_by_category = zero_counts CATEGORIES, su_flags = []\<rparr>"

definition count_category :: "run_record \<Rightarrow> nat dict \<Rightarrow> nat dict" where
  "count_category r d = (case bump (rd_category r) d of Some d' \<Rightarrow> d' | None \<Rightarrow> d)"

text \<open>One turn of the loop of \<open>compute_summary\<close>.\<close>

definition summarize_record :: "run_record \<Rightarrow> run_summary \<Rightarrow> run_summary option" where
  "summarize_record r s =
     (let p = response_of r in
      case bump (status_class_name (rs_status p)) (su_by_status_class s) of
        None \<Rightarrow> None
      | Some classes \<Rightarrow>
          (case (if rs_status p = None then bump (error_kind p) (su_transport_errors s)
                 else Some (su_transport_errors s)) of
             None \<Rightarrow> None
           | Some errors \<Rightarrow> Some \<lparr>su_by_status_class = classes, su_transport_errors = errors,
               su_by_category = count_category r (su_by_category s),
               su_flags = su_flags s @ (case flag_for_record r of
                 None \<Rightarrow> [] | Some f \<Rightarrow> if f \<noteq> [] then [f] else [])\<rparr>))"

fun summarize_from :: "run_record list \<Rightarrow> run_summary \<Rightarrow> run_summary option" where
  "summarize_from [] s = Some s"
| "summarize_from (r # rs) s =
     (case summarize_record r s of None \<Rightarrow> None | Some s' \<Rightarrow> summarize_from rs s')"

definition compute_summary :: "run_record list \<Rightarrow> run_summary option" where
  "compute_summary rs = summarize_from rs empty_summary"

record 'c artifact =
  ar_schema_version :: nat
  ar_tool :: string
  ar_seed :: int
  ar_config :: 'c
  ar_summary :: run_summary
  ar_records :: "run_record list"
  ar_aborted :: bool

definition SCHEMA_VERSION :: nat where "SCHEMA_VERSION = 1"
definition TOOL :: string where "TOOL = ''blast''"

definition build_artifact :: "int \<Rightarrow> 'c \<Rightarrow> run_record list \<Rightarrow> bool \<Rightarrow> 'c artifact option" where
  "build_artifact seed config records aborted =
     map_option (\<lambda>summary. \<lparr>ar_schema_version = SCHEMA_VERSION, ar_tool = TOOL, ar_seed = seed,
         ar_config = config, ar_summary = summary, ar_records = records, ar_aborted = aborted\<rparr>)
       (compute_summary records)"

definition build_dry_run_artifact :: "int \<Rightarrow> 'c \<Rightarrow> run_record list \<Rightarrow> 'c artifact" where
  "build_dry_run_artifact seed config records =
     \<lparr>ar_schema_version = SCHEMA_VERSION, ar_tool = TOOL, ar_seed = seed, ar_config = config,
      ar_summary = empty_summary\<lparr>su_by_category := fold count_category records (zero_counts CATEGORIES)\<rparr>,
      ar_records = records, ar_aborted = False\<rparr>"

datatype run_verdict = CleanRun | FlaggedRun | AbortedRun

definition run_verdict_of :: "'c artifact \<Rightarrow> run_verdict" where
  "run_verdict_of a =
     (if ar_aborted a then AbortedRun
      else if su_flags (ar_summary a) \<noteq> [] then FlaggedRun else CleanRun)"

section \<open>Grading a sent payload\<close>

type_synonym 'b matcher = "run_record \<Rightarrow> response \<Rightarrow> 'b option \<Rightarrow> match_result"

definition status_only_match :: "'b matcher" where
  "status_only_match r p rb =
     (case rs_status p of
        None \<Rightarrow> (let reason = no_response_reason p
          in \<lparr>ma_passed = False, ma_mismatches =
               [if reason = ''timed out'' then ''response timed out'' else ''response '' @ reason]\<rparr>)
      | Some s \<Rightarrow> if is_5xx (Some s)
          then \<lparr>ma_passed = False, ma_mismatches = [''response returned '' @ str_of_int s]\<rparr>
          else \<lparr>ma_passed = True, ma_mismatches = []\<rparr>)"

text \<open>The transport's result as the \<open>response\<close> block; the pattern is the search it makes.\<close>

definition response_from_transport ::
  "int option \<Rightarrow> rat \<Rightarrow> string \<Rightarrow> string option \<Rightarrow> (string \<Rightarrow> bool) option \<Rightarrow> response" where
  "response_from_transport status latency snippet transport_error fail_on_body =
     (let error = (if status = None then transport_error else None)
      in \<lparr>rs_status = status, rs_latency_ms = latency, rs_body_snippet = snippet,
          rs_error = error,
          rs_error_kind = (if status = None then Some (transport_error_kind error) else None),
          rs_body_failure =
            map_option (\<lambda>search. is_2xx status \<and> search snippet) fail_on_body\<rparr>)"

text \<open>\<open>build_record\<close>: the record before it is graded, the grade of the matcher, and the flag
  that replaces the grade of a flagged outcome.\<close>

definition draft_record ::
  "(email \<Rightarrow> string) \<Rightarrow> email \<Rightarrow> string \<Rightarrow> int \<Rightarrow> nat \<Rightarrow> response \<Rightarrow> string option \<Rightarrow> run_record"
where
  "draft_record digest e category seed k p case_name =
     \<lparr>rd_id = category @ ''-'' @ str_of_int seed @ ''-'' @ pad4 k,
      rd_category = category, rd_payload_sha256 = digest e,
      rd_intended = \<lparr>in_from = gt_from_addr (em_ground_truth e),
        in_subject = gt_subject (em_ground_truth e),
        in_body_core = gt_body_core (em_ground_truth e),
        in_attachments = length (em_attachments e)\<rparr>,
      rd_response = Some p,
      rd_assertion = Some \<lparr>ma_passed = True, ma_mismatches = []\<rparr>,
      rd_case = case_name\<rparr>"

definition put_flag :: "run_record \<Rightarrow> run_record" where
  "put_flag r =
     (if classify_record r \<in> set FLAGGED_OUTCOMES
      then r\<lparr>rd_assertion := Some \<lparr>ma_passed = False, ma_mismatches =
        (case flag_for_record r of Some f \<Rightarrow> if f \<noteq> [] then [f] else [] | None \<Rightarrow> [])\<rparr>\<rparr>
      else r)"

definition build_record ::
  "(email \<Rightarrow> string) \<Rightarrow> email \<Rightarrow> string \<Rightarrow> int \<Rightarrow> nat \<Rightarrow> response \<Rightarrow> 'b matcher option \<Rightarrow>
     'b option \<Rightarrow> string option \<Rightarrow> run_record"
where
  "build_record digest e category seed k p matcher rb case_name =
     (let active = (case matcher of Some m \<Rightarrow> m | None \<Rightarrow> status_only_match);
          drafted = draft_record digest e category seed k p case_name
      in put_flag (drafted\<lparr>rd_assertion := Some (active drafted p rb)\<rparr>))"

section \<open>Facts\<close>

lemma hundreds: "100 \<le> (s :: int) \<Longrightarrow> s < 600 \<Longrightarrow> s div 100 \<in> {1, 2, 3, 4, 5}"
  by (simp add: insert_iff) presburger

lemma small_decimals: "str_of_int 1 = ''1''" "str_of_int 2 = ''2''" "str_of_int 3 = ''3''"
    "str_of_int 4 = ''4''" "str_of_int 5 = ''5''"
  by code_simp+

lemma status_class_name_known [simp]: "status_class_name status \<in> set STATUS_CLASSES"
proof -
  have "str_of_int (s div 100) @ ''xx'' \<in> set STATUS_CLASSES" if "100 \<le> s" "s < 600" for s
    using hundreds [OF that] by (elim insertE) (auto simp: small_decimals STATUS_CLASSES_def)
  moreover have "''other'' \<in> set STATUS_CLASSES" "''no_response'' \<in> set STATUS_CLASSES"
    by (simp_all add: STATUS_CLASSES_def)
  ultimately show ?thesis by (simp add: status_class_name_def split: option.splits)
qed

lemma transport_error_kind_known [simp]: "transport_error_kind e \<in> set TRANSPORT_ERROR_KINDS"
  by (simp add: transport_error_kind_def TRANSPORT_ERROR_KINDS_def Let_def)

lemma error_kind_known [simp]: "error_kind p \<in> set TRANSPORT_ERROR_KINDS"
  by (auto simp: error_kind_def TRANSPORT_ERROR_KINDS_def [symmetric] split: option.splits)
    (simp_all add: TRANSPORT_ERROR_KINDS_def)

lemma distinct_labels [simp]:
  "distinct STATUS_CLASSES" "distinct TRANSPORT_ERROR_KINDS" "distinct CATEGORIES"
  by (simp_all add: STATUS_CLASSES_def TRANSPORT_ERROR_KINDS_def CATEGORIES_def category_names)

text \<open>The counts of a list of labels, in the order of the known labels.\<close>

definition counts :: "string list \<Rightarrow> string list \<Rightarrow> nat dict" where
  "counts ks xs = map (\<lambda>k. (k, count_list xs k)) ks"

lemma zero_counts_counts: "zero_counts ks = counts ks []"
  by (simp add: zero_counts_def counts_def)

lemma map_of_counts: "map_of (counts ks xs) k = (if k \<in> set ks then Some (count_list xs k) else None)"
  by (induction ks) (auto simp: counts_def)

lemma update_counts:
  "distinct ks \<Longrightarrow> k \<in> set ks \<Longrightarrow>
     AList.update k (Suc (count_list xs k)) (counts ks xs) = counts ks (xs @ [k])"
proof (induction ks)
  case (Cons j ks)
  have other: "map (\<lambda>i. (i, count_list (xs @ [k]) i)) ks = map (\<lambda>i. (i, count_list xs i)) ks"
    if "k \<notin> set ks" using that by (intro map_cong) auto
  show ?case
    using Cons other by (cases "j = k") (auto simp: counts_def)
qed simp

lemma bump_counts:
  "distinct ks \<Longrightarrow> bump k (counts ks xs) = (if k \<in> set ks then Some (counts ks (xs @ [k])) else None)"
  by (simp add: bump_def map_of_counts update_counts)

lemma counts_stray: "k \<notin> set ks \<Longrightarrow> counts ks (xs @ [k]) = counts ks xs"
  by (auto simp: counts_def)

lemma count_category_counts:
  "count_category r (counts CATEGORIES xs) = counts CATEGORIES (xs @ [rd_category r])"
  by (simp add: count_category_def bump_counts counts_stray)

lemma sum_counts:
  assumes "set xs \<subseteq> set ks" "distinct ks"
  shows "sum_list (map snd (counts ks xs)) = length xs"
proof -
  have "sum_list (map snd (counts ks xs)) = (\<Sum>k \<in> set ks. count_list xs k)"
    using assms(2) by (simp add: counts_def comp_def sum_list_distinct_conv_sum_set)
  also have "\<dots> = (\<Sum>k \<in> set xs. count_list xs k)"
    using assms(1) by (intro sum.mono_neutral_right) (auto simp: count_list_0_iff)
  finally show ?thesis by (simp add: sum_count_set)
qed

lemma flag_ne: "flag_for_record r = Some f \<Longrightarrow> f \<noteq> []"
  by (auto simp: flag_for_record_def Let_def split: if_splits option.splits)

lemma flag_None_iff: "flag_for_record r = None \<longleftrightarrow> classify_record r \<notin> set FLAGGED_OUTCOMES"
  by (auto simp: flag_for_record_def Let_def split: if_splits option.splits)

text \<open>The labels a run's records are counted under.\<close>

definition silent :: "run_record list \<Rightarrow> run_record list" where
  "silent rs = filter (\<lambda>r. rs_status (response_of r) = None) rs"

definition summary_of :: "run_record list \<Rightarrow> run_summary" where
  "summary_of rs = \<lparr>
     su_by_status_class =
       counts STATUS_CLASSES (map (\<lambda>r. status_class_name (rs_status (response_of r))) rs),
     su_transport_errors =
       counts TRANSPORT_ERROR_KINDS (map (\<lambda>r. error_kind (response_of r)) (silent rs)),
     su_by_category = counts CATEGORIES (map rd_category rs),
     su_flags = concat (map (\<lambda>r. case flag_for_record r of None \<Rightarrow> [] | Some f \<Rightarrow> [f]) rs)\<rparr>"

lemma summarize_record_step: "summarize_record r (summary_of rs) = Some (summary_of (rs @ [r]))"
  using flag_ne [of r]
  by (simp add: summarize_record_def summary_of_def Let_def bump_counts count_category_counts
      silent_def split: option.splits)

lemma summarize_from_eq: "summarize_from rs (summary_of pre) = Some (summary_of (pre @ rs))"
  by (induction rs arbitrary: pre) (simp_all add: summarize_record_step)

lemma empty_summary_of: "empty_summary = summary_of []"
  by (simp add: empty_summary_def summary_of_def silent_def empty_status_classes_def
      zero_counts_counts)

lemma compute_summary_eq: "compute_summary rs = Some (summary_of rs)"
  by (simp add: compute_summary_def empty_summary_of summarize_from_eq)

lemma flagged_iff:
  "classify_record r \<in> set FLAGGED_OUTCOMES \<longleftrightarrow>
     (case rs_status (response_of r) of
        None \<Rightarrow> True
      | Some s \<Rightarrow> (500 \<le> s \<and> s < 600) \<or> (rd_category r = CLEAN \<and> \<not> (200 \<le> s \<and> s < 300)) \<or>
          (200 \<le> s \<and> s < 300 \<and> rs_body_failure (response_of r) = Some True))"
  by (auto simp: classify_record_def FLAGGED_OUTCOMES_def Let_def is_2xx_def is_5xx_def
      split: option.splits)

lemma no_response_class [simp]: "status_class_name status = ''no_response'' \<longleftrightarrow> status = None"
proof (cases status)
  case (Some s)
  have "str_of_int (s div 100) @ ''xx'' \<noteq> ''no_response''" if "100 \<le> s" "s < 600"
    using hundreds [OF that] by (elim insertE) (auto simp: small_decimals)
  with Some show ?thesis by (simp add: status_class_name_def)
qed (simp add: status_class_name_def)

lemma count_list_map: "count_list (map f xs) y = length (filter (\<lambda>x. f x = y) xs)"
  by (induction xs) auto

lemma assertion_keeps_flag:
  assumes "classify_record r \<in> set FLAGGED_OUTCOMES"
  shows "classify_record (r\<lparr>rd_assertion := a\<rparr>) = classify_record r"
    and "flag_for_record (r\<lparr>rd_assertion := a\<rparr>) = flag_for_record r"
proof -
  show same: "classify_record (r\<lparr>rd_assertion := a\<rparr>) = classify_record r"
    using assms unfolding classify_record_def
    by (auto simp: response_of_def FLAGGED_OUTCOMES_def Let_def split: if_splits)
  show "flag_for_record (r\<lparr>rd_assertion := a\<rparr>) = flag_for_record r"
    unfolding flag_for_record_def same by (simp add: response_of_def)
qed

lemma assertion_unflagged:
  assumes "classify_record r \<notin> set FLAGGED_OUTCOMES"
  shows "classify_record r =
    (if map_option ma_passed (rd_assertion r) = Some False then AssertionFailed else AllOk)"
  using assms unfolding classify_record_def
  by (auto simp: FLAGGED_OUTCOMES_def Let_def split: if_splits)

lemma put_flag_flagged:
  "classify_record r \<in> set FLAGGED_OUTCOMES \<Longrightarrow>
     classify_record (put_flag r) = classify_record r \<and>
     (\<exists>f. flag_for_record (put_flag r) = Some f \<and>
       rd_assertion (put_flag r) = Some \<lparr>ma_passed = False, ma_mismatches = [f]\<rparr>)"
  using flag_None_iff [of r] flag_ne [of r]
  by (cases "flag_for_record r") (auto simp: put_flag_def assertion_keeps_flag)

lemma put_flag_unflagged: "classify_record r \<notin> set FLAGGED_OUTCOMES \<Longrightarrow> put_flag r = r"
  by (simp add: put_flag_def)

lemma status_only_unflagged:
  assumes "classify_record r \<notin> set FLAGGED_OUTCOMES" "rd_response r = Some p"
  shows "ma_passed (status_only_match d p rb)"
  using assms unfolding flagged_iff
  by (auto simp: status_only_match_def is_5xx_def response_of_def split: option.splits)

section \<open>Properties\<close>

text \<open>The summary loses no record. Computing a summary never raises: every status has a
  class and every reason a kind. Each record is counted in exactly one response class, the
  transport errors are the records without a response, each known category has its number of
  records, and there is one flag for each record with a flagged outcome.\<close>

theorem summary_counts_every_record:
  "\<exists>s. compute_summary rs = Some s \<and>
     map fst (su_by_status_class s) = STATUS_CLASSES \<and>
     sum_list (map snd (su_by_status_class s)) = length rs \<and>
     map_of (su_by_status_class s) ''no_response'' =
       Some (sum_list (map snd (su_transport_errors s))) \<and>
     map_of (su_by_category s) c =
       (if c \<in> set CATEGORIES then Some (length (filter (\<lambda>r. rd_category r = c) rs)) else None) \<and>
     length (su_flags s) = length (filter (\<lambda>r. classify_record r \<in> set FLAGGED_OUTCOMES) rs)"
proof (intro exI conjI)
  let ?s = "summary_of rs"
  show "compute_summary rs = Some ?s" by (rule compute_summary_eq)
  show "map fst (su_by_status_class ?s) = STATUS_CLASSES"
    by (simp add: summary_of_def counts_def comp_def)
  show "sum_list (map snd (su_by_status_class ?s)) = length rs"
    by (simp add: summary_of_def sum_counts image_subset_iff)
  have "sum_list (map snd (su_transport_errors ?s)) = length (silent rs)"
    by (simp add: summary_of_def sum_counts image_subset_iff)
  moreover have "''no_response'' \<in> set STATUS_CLASSES" by (simp add: STATUS_CLASSES_def)
  ultimately show "map_of (su_by_status_class ?s) ''no_response'' =
      Some (sum_list (map snd (su_transport_errors ?s)))"
    by (simp add: summary_of_def map_of_counts count_list_map silent_def)
  show "map_of (su_by_category ?s) c =
      (if c \<in> set CATEGORIES then Some (length (filter (\<lambda>r. rd_category r = c) rs)) else None)"
    by (simp add: summary_of_def map_of_counts count_list_map)
  show "length (su_flags ?s) = length (filter (\<lambda>r. classify_record r \<in> set FLAGGED_OUTCOMES) rs)"
    unfolding summary_of_def
    by (induction rs) (auto simp: flag_None_iff [symmetric] split: option.splits)
qed

text \<open>When a run is CLEAN. The artifact of a run says CLEAN exactly when the run was not
  aborted and every record got a response that is no 5xx, is a 2xx where the payload was
  clean, and is no 2xx whose body matched the failure pattern.\<close>

theorem clean_verdict_iff:
  "map_option run_verdict_of (build_artifact seed config rs aborted) = Some CleanRun \<longleftrightarrow>
     \<not> aborted \<and> (\<forall>r \<in> set rs. \<exists>s. rs_status (response_of r) = Some s \<and>
       \<not> (500 \<le> s \<and> s < 600) \<and> (rd_category r = CLEAN \<longrightarrow> 200 \<le> s \<and> s < 300) \<and>
       \<not> (200 \<le> s \<and> s < 300 \<and> rs_body_failure (response_of r) = Some True))"
proof -
  have unflagged: "flag_for_record r = None \<longleftrightarrow> (\<exists>s. rs_status (response_of r) = Some s \<and>
       \<not> (500 \<le> s \<and> s < 600) \<and> (rd_category r = CLEAN \<longrightarrow> 200 \<le> s \<and> s < 300) \<and>
       \<not> (200 \<le> s \<and> s < 300 \<and> rs_body_failure (response_of r) = Some True))" for r
    unfolding flag_None_iff flagged_iff by (auto split: option.splits)
  have "su_flags (summary_of rs) = [] \<longleftrightarrow> (\<forall>r \<in> set rs. flag_for_record r = None)"
    unfolding summary_of_def by (auto split: option.splits)
  moreover have "map_option run_verdict_of (build_artifact seed config rs aborted) = Some CleanRun \<longleftrightarrow>
      \<not> aborted \<and> su_flags (summary_of rs) = []"
    by (simp add: build_artifact_def compute_summary_eq run_verdict_of_def)
  ultimately show ?thesis by (simp only: unflagged)
qed

theorem clean_verdict_iff_witness:
  "map_option run_verdict_of (build_artifact 7 () [build_record (\<lambda>_. ''d'') sample_email CLEAN 7 0
     (response_from_transport (Some 204) 3 [] None None) (None :: unit matcher option) None None]
     False) = Some CleanRun"
proof -
  let ?r = "build_record (\<lambda>_. ''d'') sample_email CLEAN 7 0
     (response_from_transport (Some 204) 3 [] None None) (None :: unit matcher option) None None"
  have "rs_status (response_of ?r) = Some 204" "rs_body_failure (response_of ?r) = None"
    by code_simp+
  then show ?thesis using clean_verdict_iff [of 7 "()" "[?r]" False] by simp
qed

text \<open>A record is graded by its outcome first. Whatever the matcher said, a built record
  passes exactly when its outcome is OK, a flagged outcome carries its flag as the only
  mismatch, and without a matcher a record never fails on its assertion alone.\<close>

theorem built_record_grade:
  assumes r: "r = build_record digest e category seed k p m rb case_name"
  shows "(map_option ma_passed (rd_assertion r) = Some True \<longleftrightarrow> classify_record r = AllOk) \<and>
    (classify_record r \<in> set FLAGGED_OUTCOMES \<longrightarrow>
       map_option ma_mismatches (rd_assertion r) = map_option (\<lambda>f. [f]) (flag_for_record r)) \<and>
    (m = None \<longrightarrow> classify_record r \<noteq> AssertionFailed)"
proof -
  define drafted where "drafted = draft_record digest e category seed k p case_name"
  define r1 where "r1 = drafted\<lparr>rd_assertion :=
    Some ((case m of Some m' \<Rightarrow> m' | None \<Rightarrow> status_only_match) drafted p rb)\<rparr>"
  have rp: "r = put_flag r1" "rd_response r1 = Some p"
    by (simp_all add: r r1_def drafted_def build_record_def draft_record_def Let_def)
  show ?thesis
  proof (cases "classify_record r1 \<in> set FLAGGED_OUTCOMES")
    case True
    moreover from this have "classify_record r1 \<noteq> AllOk \<and> classify_record r1 \<noteq> AssertionFailed"
      by (auto simp: FLAGGED_OUTCOMES_def)
    ultimately show ?thesis using put_flag_flagged [OF True] by (auto simp: rp)
  next
    case False
    have passed: "m = None \<Longrightarrow> map_option ma_passed (rd_assertion r1) = Some True"
      using status_only_unflagged [OF False rp(2)] by (simp add: r1_def)
    obtain a where "rd_assertion r1 = Some a" by (simp add: r1_def)
    with passed False assertion_unflagged [OF False] show ?thesis
      by (cases m) (auto simp: rp(1) put_flag_unflagged)
  qed
qed

theorem built_record_grade_witness:
  "map_option ma_passed (rd_assertion (build_record (\<lambda>_. ''d'') sample_email DEGENERATE 7 0
     (response_from_transport None 3 [] (Some ''Connection refused'') None)
     (None :: unit matcher option) None None)) \<noteq> Some True"
proof -
  let ?r = "build_record (\<lambda>_. ''d'') sample_email DEGENERATE 7 0
     (response_from_transport None 3 [] (Some ''Connection refused'') None)
     (None :: unit matcher option) None None"
  have "classify_record ?r = DegenerateFailed" by code_simp
  then show ?thesis
    using built_record_grade [where r = ?r and m = "None :: unit matcher option", OF refl] by simp
qed

end
