(* ===== verification/Readback.thy ===== *)
theory Readback
  imports Prelude
begin

text \<open>
  Model of \<open>testinghq/pipeline/readback.py\<close>: the probes a tool asks with, the
  records a system answers with and their validation, the adapter seam
  (\<open>FetchResult\<close>, \<open>FunctionAdapter\<close>, \<open>MultiAdapter\<close>, \<open>can_enumerate\<close>) and the
  normalisation rules the checks compare by.
\<close>

section \<open>Probes and readbacks\<close>

definition READBACK_FIELDS :: "string list" where
  "READBACK_FIELDS = [''ticket_id'', ''from_addr'', ''subject'', ''body'', ''attachment_names'',
     ''route'', ''message_id'', ''in_reply_to'', ''references'', ''tag'', ''category'', ''priority'']"

definition CHECKABLE_FIELDS :: "string list" where
  "CHECKABLE_FIELDS = [''from_addr'', ''subject'', ''body'', ''attachment_names'', ''route'',
     ''in_reply_to'', ''references'', ''category'', ''priority'']"

record probe =
  pr_record_id :: string
  pr_tag :: string
  pr_payload_sha256 :: string
  pr_from_addr :: string
  pr_subject :: string
  pr_recipient :: string
  pr_message_id :: string
  pr_attachment_names :: "string list"

record readback =
  rb_exists :: bool
  rb_ticket_id :: "string option"
  rb_from_addr :: "string option"
  rb_subject :: "string option"
  rb_body :: "string option"
  rb_attachment_names :: "string list"
  rb_route :: "string option"
  rb_message_id :: "string option"
  rb_in_reply_to :: "string option"
  rb_references :: "string list"
  rb_tag :: "string option"
  rb_category :: "string option"
  rb_priority :: "string option"
  rb_fields :: "string list"
  rb_field_notes :: "(string \<times> string) list"

text \<open>\<open>ReadbackError\<close>, one constructor per place that raises it.\<close>

datatype readback_error =
    UnknownFields "string list"
  | MissingTicketId
  | NotAReadback string
  | BadAdapterResult string
  | CannotEnumerate
  | BadNames string
  | BadMessageIds string
  | AdapterFailure string

text \<open>\<open>Readback.__post_init__\<close>: what the constructor refuses.\<close>

definition check_readback :: "readback \<Rightarrow> readback_error + readback" where
  "check_readback r =
     (let unknown = filter (\<lambda>n. n \<notin> set READBACK_FIELDS) (rb_fields r) @
        filter (\<lambda>n. n \<notin> set READBACK_FIELDS) (map fst (rb_field_notes r))
      in if unknown \<noteq> [] then Inl (UnknownFields unknown)
         else if rb_exists r \<and> \<not> truthy (rb_ticket_id r) then Inl MissingTicketId
         else Inr r)"

text \<open>\<open>value_of\<close>: the attribute a field name denotes; a name that is no
  attribute raises.\<close>

definition value_of :: "readback \<Rightarrow> string \<Rightarrow> pyval option" where
  "value_of r name = map_of
     [(''ticket_id'', opt_val (rb_ticket_id r)),
      (''from_addr'', opt_val (rb_from_addr r)),
      (''subject'', opt_val (rb_subject r)),
      (''body'', opt_val (rb_body r)),
      (''attachment_names'', PSeq (map PStr (rb_attachment_names r))),
      (''route'', opt_val (rb_route r)),
      (''message_id'', opt_val (rb_message_id r)),
      (''in_reply_to'', opt_val (rb_in_reply_to r)),
      (''references'', PSeq (map PStr (rb_references r))),
      (''tag'', opt_val (rb_tag r)),
      (''category'', opt_val (rb_category r)),
      (''priority'', opt_val (rb_priority r))] name"

definition note_for :: "readback \<Rightarrow> string \<Rightarrow> string option" where
  "note_for r name = map_of (rb_field_notes r) name"

definition has :: "readback \<Rightarrow> string \<Rightarrow> bool" where
  "has r name =
     (if rb_fields r \<noteq> [] then name \<in> set (rb_fields r)
      else if name = ''attachment_names'' \<or> name = ''references'' then True
      else (case value_of r name of None \<Rightarrow> False | Some v \<Rightarrow> v \<noteq> PNone))"

text \<open>The part of \<open>to_json\<close> a reader of the artifact relies on: every field with
  its value, and which of them the readback carried.\<close>

definition readback_fields_json :: "readback \<Rightarrow> string list" where
  "readback_fields_json r =
     (if rb_fields r \<noteq> [] then sort (rb_fields r) else sort (filter (has r) CHECKABLE_FIELDS))"

definition readback_to_json ::
  "readback \<Rightarrow> bool \<times> (string \<times> pyval option) list \<times> string list \<times> (string \<times> string) list" where
  "readback_to_json r =
     (rb_exists r, map (\<lambda>n. (n, value_of r n)) READBACK_FIELDS, readback_fields_json r,
      rb_field_notes r)"

section \<open>The adapter seam\<close>

text \<open>\<open>FetchResult\<close>: the records found, whether pagination was cut short, and the
  HTTP status of the first request.\<close>

record fetch_result =
  fr_items :: "readback list"
  fr_partial :: bool
  fr_status :: "int option"

definition plain_result :: "readback list \<Rightarrow> fetch_result" where
  "plain_result rs = \<lparr>fr_items = rs, fr_partial = False, fr_status = None\<rparr>"

text \<open>What a callable wrapped by \<open>FunctionAdapter\<close> may return.\<close>

datatype fn_result =
    FnNone
  | FnOne readback
  | FnSeq "(string + readback) list"
  | FnFetch fetch_result
  | FnOther string

fun first_bad_item :: "(string + readback) list \<Rightarrow> string option" where
  "first_bad_item [] = None"
| "first_bad_item (Inl t # xs) = Some t"
| "first_bad_item (Inr r # xs) = first_bad_item xs"

definition function_adapter_fetch ::
  "(probe \<Rightarrow> fn_result) \<Rightarrow> probe \<Rightarrow> readback_error + fetch_result" where
  "function_adapter_fetch f p =
     (case f p of
        FnNone \<Rightarrow> Inr (plain_result [])
      | FnOne r \<Rightarrow> Inr (plain_result [r])
      | FnSeq xs \<Rightarrow> (case first_bad_item xs of
          Some t \<Rightarrow> Inl (NotAReadback t)
        | None \<Rightarrow> Inr (plain_result (map projr xs)))
      | FnFetch fr \<Rightarrow> Inr fr
      | FnOther t \<Rightarrow> Inl (BadAdapterResult t))"

text \<open>An adapter as \<open>MultiAdapter\<close> and the tools see it. \<open>ad_can_enumerate\<close> is the
  declared boolean attribute, \<open>None\<close> when there is none; \<open>ad_list_all\<close> is \<open>None\<close>
  when the adapter defines no \<open>list_all\<close>.\<close>

record adapter =
  ad_fetch :: "probe \<Rightarrow> readback_error + fetch_result"
  ad_list_all :: "(readback_error + fetch_result) option"
  ad_can_enumerate :: "bool option"

definition can_enumerate :: "adapter \<Rightarrow> bool" where
  "can_enumerate a =
     (case ad_can_enumerate a of Some b \<Rightarrow> b | None \<Rightarrow> ad_list_all a \<noteq> None)"

text \<open>\<open>MultiAdapter\<close>: the delegates' answers one after the other, the status of
  the composite left unset.\<close>

fun multi_fetch :: "adapter list \<Rightarrow> probe \<Rightarrow> fetch_result \<Rightarrow> readback_error + fetch_result" where
  "multi_fetch [] p acc = Inr acc"
| "multi_fetch (a # as) p acc =
     (case ad_fetch a p of
        Inl e \<Rightarrow> Inl e
      | Inr r \<Rightarrow> multi_fetch as p
          (acc\<lparr>fr_items := fr_items acc @ fr_items r, fr_partial := fr_partial acc \<or> fr_partial r\<rparr>))"

fun multi_list_all :: "adapter list \<Rightarrow> fetch_result \<Rightarrow> readback_error + fetch_result" where
  "multi_list_all [] acc = Inr acc"
| "multi_list_all (a # as) acc =
     (case ad_list_all a of
        None \<Rightarrow> Inl CannotEnumerate
      | Some (Inl e) \<Rightarrow> Inl e
      | Some (Inr r) \<Rightarrow> multi_list_all as
          (acc\<lparr>fr_items := fr_items acc @ fr_items r, fr_partial := fr_partial acc \<or> fr_partial r\<rparr>))"

definition multi_adapter :: "adapter list \<Rightarrow> adapter" where
  "multi_adapter as = \<lparr>
     ad_fetch = (\<lambda>p. multi_fetch as p (plain_result [])),
     ad_list_all = Some (multi_list_all as (plain_result [])),
     ad_can_enumerate = Some (list_all can_enumerate as)\<rparr>"

section \<open>Normalisation\<close>

text \<open>Two routines of the standard library are parameters of the model, because
  their behaviour is a table or a grammar the package does not contain:
  \<open>email.utils.getaddresses\<close> on one header value (the addresses of the pairs it
  returns) and \<open>html.unescape\<close>.\<close>

record pylib =
  lib_getaddresses :: "string \<Rightarrow> string list"
  lib_unescape :: "string \<Rightarrow> string"

text \<open>\<open>unicodedata.normalize("NFKC", s)\<close> is the identity on ASCII text.\<close>

definition nfkc :: "string \<Rightarrow> string" where
  "nfkc s = s"

fun type_name :: "pyval \<Rightarrow> string" where
  "type_name PNone = ''NoneType''"
| "type_name (PStr s) = ''str''"
| "type_name (PInt n) = ''int''"
| "type_name (PSeq vs) = ''list''"
| "type_name (POther t) = t"

fun normalize_address :: "pylib \<Rightarrow> pyval \<Rightarrow> string" where
  "normalize_address L (PStr s) =
     (case filter (\<lambda>a. a \<noteq> []) (lib_getaddresses L s) of
        [] \<Rightarrow> []
      | a # _ \<Rightarrow> casefold (strip_chars ''<>'' (strip a)))"
| "normalize_address L v = []"

fun normalize_text :: "pyval \<Rightarrow> string" where
  "normalize_text (PStr s) = casefold (strip (collapse_ws (nfkc s)))"
| "normalize_text v = []"

fun normalize_route :: "pyval \<Rightarrow> string" where
  "normalize_route (PStr s) = casefold (strip (collapse_ws s))"
| "normalize_route v = []"

text \<open>The strings of a sequence, or the type name of the first item that is none.\<close>

fun str_items :: "pyval list \<Rightarrow> string + string list" where
  "str_items [] = Inr []"
| "str_items (PStr s # vs) = (case str_items vs of Inl t \<Rightarrow> Inl t | Inr ss \<Rightarrow> Inr (s # ss))"
| "str_items (v # vs) = Inl (type_name v)"

definition base_name :: "string \<Rightarrow> string" where
  "base_name s = after_last CHR ''/'' (replace_char CHR 0x5C CHR ''/'' s)"

definition sorted_set :: "string list \<Rightarrow> string list" where
  "sorted_set xs = sort (remdups xs)"

definition attachment_keys :: "string list \<Rightarrow> string list" where
  "attachment_keys ss = sorted_set
     (map (\<lambda>s. casefold (strip s)) (filter (\<lambda>s. s \<noteq> []) (map base_name ss)))"

fun normalize_attachment_names :: "pyval \<Rightarrow> readback_error + string list" where
  "normalize_attachment_names PNone = Inr []"
| "normalize_attachment_names (PStr s) = Inr (attachment_keys [s])"
| "normalize_attachment_names (PSeq vs) =
     (case str_items vs of Inl t \<Rightarrow> Inl (BadNames t) | Inr ss \<Rightarrow> Inr (attachment_keys ss))"
| "normalize_attachment_names (PInt n) = Inl (BadNames ''int'')"
| "normalize_attachment_names (POther t) = Inl (BadNames t)"

definition message_id_tokens :: "string list \<Rightarrow> string list" where
  "message_id_tokens ss = sorted_set (filter (\<lambda>c. c \<noteq> [])
     (map (\<lambda>part. strip (strip_chars ''<>'' (strip part))) (concat (map split_ws ss))))"

fun normalize_message_ids :: "pyval \<Rightarrow> readback_error + string list" where
  "normalize_message_ids PNone = Inr []"
| "normalize_message_ids (PStr s) = Inr (message_id_tokens (split_ws s))"
| "normalize_message_ids (PSeq vs) =
     (case str_items vs of
        Inl t \<Rightarrow> Inl (BadMessageIds t) | Inr ss \<Rightarrow> Inr (message_id_tokens ss))"
| "normalize_message_ids (PInt n) = Inl (BadMessageIds ''int'')"
| "normalize_message_ids (POther t) = Inl (BadMessageIds t)"

section \<open>The contract of a normaliser\<close>

text \<open>
  A normaliser reduces a stored value to a comparison key and keeps the key of a
  key: a system that stores only the normal form is not reported as having
  changed the value. The checks compare keys, so what they need is that agreeing
  is an equivalence and that a stored normal form agrees with its original.
\<close>

locale normaliser =
  fixes norm :: "pyval \<Rightarrow> 'e + 'k"
    and embed :: "'k \<Rightarrow> pyval"
    and ok :: "'k \<Rightarrow> bool"
  assumes norm_embed: "norm v = Inr k \<Longrightarrow> ok k \<Longrightarrow> norm (embed k) = Inr k"
begin

definition agree :: "pyval \<Rightarrow> pyval \<Rightarrow> bool" where
  "agree v w \<longleftrightarrow> (\<exists>k. norm v = Inr k \<and> norm w = Inr k)"

lemma agree_sym: "agree v w \<Longrightarrow> agree w v"
  by (auto simp: agree_def)

lemma agree_trans: "agree u v \<Longrightarrow> agree v w \<Longrightarrow> agree u w"
  by (auto simp: agree_def)

lemma agree_refl: "norm v = Inr k \<Longrightarrow> agree v v"
  by (simp add: agree_def)

lemma agree_stored_key: "norm v = Inr k \<Longrightarrow> ok k \<Longrightarrow> agree v (embed k)"
  by (simp add: agree_def norm_embed)

lemma embed_agree_iff:
  "norm v = Inr k \<Longrightarrow> ok k \<Longrightarrow> norm w = Inr l \<Longrightarrow> agree (embed k) w \<longleftrightarrow> k = l"
  by (auto simp: agree_def norm_embed)

end

lemma normalize_text_words:
  "normalize_text (PStr s) = join '' '' (map casefold (split_ws s))"
  by (simp add: nfkc_def strip_collapse_ws map_lower_join)

lemma normalize_route_words:
  "normalize_route (PStr s) = join '' '' (map casefold (split_ws s))"
  by (simp add: strip_collapse_ws map_lower_join)

lemma folded_words:
  "w \<in> set (map casefold (split_ws s)) \<Longrightarrow> w \<noteq> [] \<and> (\<forall>c \<in> set w. \<not> is_space c)"
  using split_ws_words by fastforce

lemma join_folded_again:
  "join '' '' (map casefold (split_ws (join '' '' (map casefold (split_ws s))))) =
     join '' '' (map casefold (split_ws s))"
  using folded_words by (subst split_ws_join) (auto simp: comp_def)

lemma normalize_text_again: "normalize_text (PStr (normalize_text v)) = normalize_text v"
proof (cases v)
  case (PStr s)
  then show ?thesis
    by (simp only: normalize_text_words join_folded_again)
qed (simp_all add: nfkc_def strip_def lstrip_def rstrip_def)

lemma normalize_route_again: "normalize_route (PStr (normalize_route v)) = normalize_route v"
proof (cases v)
  case (PStr s)
  then show ?thesis
    by (simp only: normalize_route_words join_folded_again)
qed (simp_all add: strip_def lstrip_def rstrip_def)

declare normalize_text.simps(1) [simp del] normalize_route.simps(1) [simp del]

text \<open>Sorted sets: a canonical list of the elements.\<close>

lemma set_sorted_set [simp]: "set (sorted_set xs) = set xs"
  by (simp add: sorted_set_def)

lemma sorted_set_eq_iff: "sorted_set xs = sorted_set ys \<longleftrightarrow> set xs = set ys"
  by (metis distinct_remdups distinct_sort set_sorted_set sorted_distinct_set_unique
      sorted_set_def sorted_sort)

lemma sorted_set_again: "set xs = set ys \<Longrightarrow> sorted_set xs = sorted_set ys"
  by (simp add: sorted_set_eq_iff)

lemma str_items_PStr [simp]: "str_items (map PStr ss) = Inr ss"
  by (induction ss) auto

lemma after_last_no_sep: "d \<notin> set s \<Longrightarrow> after_last d s = s"
  by (auto simp: after_last_def takeWhile_eq_all_conv rev_swap)

lemma after_last_sepfree: "d \<notin> set (after_last d s)"
  by (auto simp: after_last_def dest: set_takeWhileD)

lemma base_name_clean: "CHR ''/'' \<notin> set (base_name s) \<and> CHR 0x5C \<notin> set (base_name s)"
proof -
  have "set (after_last d s) \<subseteq> set s" for d and s :: string
    by (auto simp: after_last_def dest: set_takeWhileD)
  then show ?thesis
    using after_last_sepfree by (fastforce simp: base_name_def replace_char_def split: if_splits)
qed

lemma base_name_id: "CHR ''/'' \<notin> set s \<Longrightarrow> CHR 0x5C \<notin> set s \<Longrightarrow> base_name s = s"
  unfolding base_name_def replace_char_def
  by (subst after_last_no_sep) (auto intro: map_idI)

lemma set_dropWhile_subset: "set (dropWhile P xs) \<subseteq> set xs"
  by (auto dest: set_dropWhileD)

lemma set_strip: "set (strip s) \<subseteq> set s"
  unfolding strip_def lstrip_def rstrip_def set_rev
  using set_dropWhile_subset [of is_space] by (metis order_trans set_rev)

lemma lower_char_eq_iff:
  "\<not> is_alpha d \<Longrightarrow> lower_char c = d \<longleftrightarrow> c = d"
proof -
  assume d: "\<not> is_alpha d"
  have "lower_char c = d \<longleftrightarrow> (of_char (lower_char c) :: nat) = of_char d" by simp
  also have "\<dots> \<longleftrightarrow> (of_char c :: nat) = of_char d"
    using d by (auto simp: of_char_lower is_alpha_def)
  finally show ?thesis by simp
qed

definition attachment_key :: "string \<Rightarrow> string" where
  "attachment_key s = casefold (strip s)"

lemma base_name_key: "base_name (casefold (strip (base_name s))) = casefold (strip (base_name s))"
  using base_name_clean [of s] set_strip [of "base_name s"]
  by (intro base_name_id) (auto simp: lower_char_eq_iff is_alpha_def subset_iff image_iff
      eq_commute [of "CHR ''/''"] eq_commute [of "CHR 0x5C"])

lemma key_again: "casefold (strip (casefold (strip s))) = casefold (strip s)"
proof -
  have "tight (casefold (strip s))"
    using tight_strip_result [of s] by (auto simp: tight_def hd_map last_map)
  then show ?thesis by (simp add: tight_strip)
qed

lemma attachment_keys_again:
  assumes "[] \<notin> set (attachment_keys ss)"
  shows "attachment_keys (attachment_keys ss) = attachment_keys ss"
proof -
  let ?ks = "attachment_keys ss"
  have fixed: "base_name k = k \<and> casefold (strip k) = k" if "k \<in> set ?ks" for k
    using that by (auto simp: attachment_keys_def base_name_key key_again)
  have "map base_name ?ks = ?ks" using fixed by (intro map_idI) auto
  moreover have "filter (\<lambda>s. s \<noteq> []) ?ks = ?ks"
    using assms by (auto simp: filter_id_conv)
  moreover have "map (\<lambda>s. casefold (strip s)) ?ks = ?ks"
    using fixed by (intro map_idI) auto
  ultimately have "attachment_keys ?ks = sorted_set ?ks" by (simp add: attachment_keys_def)
  also have "\<dots> = ?ks" unfolding attachment_keys_def by (rule sorted_set_again) simp
  finally show ?thesis .
qed

lemma strip_chars_hd_last:
  "strip_chars cs s = [] \<or>
     (hd (strip_chars cs s) \<notin> set cs \<and> last (strip_chars cs s) \<notin> set cs)"
proof -
  let ?t = "dropWhile (\<lambda>c. c \<in> set cs) s"
  let ?r = "dropWhile (\<lambda>c. c \<in> set cs) (rev ?t)"
  show ?thesis
  proof (cases "?r = []")
    case False
    then have "?t \<noteq> []" by (cases ?t) simp_all
    then have "last (rev ?t) \<notin> set cs"
      using hd_dropWhile [of "\<lambda>c. c \<in> set cs" s] by (simp add: last_rev)
    moreover have "last (rev ?t) = last ?r"
      using False by (metis last_appendR takeWhile_dropWhile_id)
    moreover have "hd ?r \<notin> set cs" using hd_dropWhile [OF False] by simp
    ultimately show ?thesis
      using False by (simp add: strip_chars_def rstrip_chars_def hd_rev last_rev)
  next
    case True
    then have "strip_chars cs s = []"
      unfolding strip_chars_def rstrip_chars_def by (simp only: rev.simps)
    then show ?thesis ..
  qed
qed

lemma strip_chars_fixed:
  assumes "s = [] \<or> (hd s \<notin> set cs \<and> last s \<notin> set cs)"
  shows "strip_chars cs s = s"
proof (cases "s = []")
  case False
  with assms have "dropWhile (\<lambda>c. c \<in> set cs) s = s" by (cases s) auto
  moreover have "dropWhile (\<lambda>c. c \<in> set cs) (rev s) = rev s"
    using False assms by (cases s rule: rev_cases) auto
  ultimately show ?thesis by (simp add: strip_chars_def rstrip_chars_def)
qed (simp add: strip_chars_def rstrip_chars_def)

lemma set_strip_chars: "set (strip_chars cs s) \<subseteq> set s"
  unfolding strip_chars_def rstrip_chars_def set_rev
  using set_dropWhile_subset [of "\<lambda>c. c \<in> set cs"] by (metis order_trans set_rev)

lemma message_id_token_props:
  assumes "k \<in> set (message_id_tokens ss)"
  shows "k \<noteq> []" and "\<forall>c \<in> set k. \<not> is_space c" and "strip_chars ''<>'' k = k"
proof -
  obtain w u where u: "u \<in> set (split_ws w)"
    and k: "k = strip (strip_chars ''<>'' (strip u))" and ne: "k \<noteq> []"
    using assms by (auto simp: message_id_tokens_def)
  have clean: "\<forall>c \<in> set u. \<not> is_space c" using split_ws_words [OF u] by simp
  then have su: "strip u = u" by (rule strip_no_space)
  have clean': "\<forall>c \<in> set (strip_chars ''<>'' u). \<not> is_space c"
    using clean set_strip_chars [of "''<>''" u] by auto
  then have k': "k = strip_chars ''<>'' u" using k su by (simp add: strip_no_space)
  show "k \<noteq> []" by (rule ne)
  show "\<forall>c \<in> set k. \<not> is_space c" using clean' k' by simp
  show "strip_chars ''<>'' k = k"
    using strip_chars_hd_last [of "''<>''" u] k' by (intro strip_chars_fixed) simp
qed

lemma set_message_id_tokens:
  "set (message_id_tokens ss) = set (filter (\<lambda>c. c \<noteq> [])
     (map (\<lambda>part. strip (strip_chars ''<>'' (strip part))) (concat (map split_ws ss))))"
  unfolding message_id_tokens_def set_sorted_set ..

lemma message_id_tokens_again:
  "message_id_tokens (message_id_tokens ss) = message_id_tokens ss"
proof -
  let ?ks = "message_id_tokens ss"
  note props = message_id_token_props
  have words: "concat (map split_ws ?ks) = ?ks"
  proof -
    have "map split_ws ?ks = map (\<lambda>k. [k]) ?ks"
      using props by (intro map_cong) (auto simp: split_ws_word_end)
    then show ?thesis by (simp only: concat_map_singleton map_ident)
  qed
  have "map (\<lambda>part. strip (strip_chars ''<>'' (strip part))) ?ks = ?ks"
    using props by (intro map_idI) (simp add: strip_no_space)
  moreover have "filter (\<lambda>c. c \<noteq> []) ?ks = ?ks"
    using props by (auto simp: filter_id_conv)
  ultimately have "message_id_tokens ?ks = sorted_set ?ks"
    unfolding message_id_tokens_def [of "message_id_tokens ss"] words by (simp only:)
  also have "\<dots> = ?ks"
    unfolding message_id_tokens_def by (rule sorted_set_again) simp
  finally show ?thesis .
qed

lemma keys_of_none: "[] = attachment_keys []" "[] = message_id_tokens []"
  by (simp_all add: attachment_keys_def message_id_tokens_def sorted_set_def)

lemma normalize_attachment_names_Inr:
  "normalize_attachment_names v = Inr k \<Longrightarrow> \<exists>ss. k = attachment_keys ss"
  by (cases v) (auto intro: keys_of_none split: sum.splits)

lemma normalize_message_ids_Inr:
  "normalize_message_ids v = Inr k \<Longrightarrow> \<exists>ss. k = message_id_tokens ss"
  by (cases v) (auto intro: keys_of_none split: sum.splits)

interpretation text_norm: normaliser
    "\<lambda>v. Inr (normalize_text v) :: unit + string" PStr "\<lambda>_. True"
  by unfold_locales (auto simp: normalize_text_again)

interpretation route_norm: normaliser
    "\<lambda>v. Inr (normalize_route v) :: unit + string" PStr "\<lambda>_. True"
  by unfold_locales (auto simp: normalize_route_again)

interpretation names_norm: normaliser normalize_attachment_names
    "\<lambda>ks. PSeq (map PStr ks)" "\<lambda>ks. [] \<notin> set ks"
  by unfold_locales (auto dest!: normalize_attachment_names_Inr simp: attachment_keys_again)

interpretation ids_norm: normaliser normalize_message_ids
    "\<lambda>ks. PSeq (map PStr ks)" "\<lambda>_. True"
  by unfold_locales (auto dest!: normalize_message_ids_Inr simp: message_id_tokens_again)

section \<open>Properties\<close>

lemma words_of_text: "split_ws (normalize_text (PStr s)) = map casefold (split_ws s)"
  using folded_words by (simp add: normalize_text_words split_ws_join)

text \<open>Texts are compared word by word. Two texts have one comparison value exactly when
  they are the same words in the same order, up to case: no difference but white space and
  case is ignored, and none of those is reported.\<close>

theorem normalized_texts_agree_iff:
  "normalize_text (PStr a) = normalize_text (PStr b) \<longleftrightarrow>
     map casefold (split_ws a) = map casefold (split_ws b)"
  by (metis normalize_text_words words_of_text)

text \<open>A stored normal form is no mismatch. A system that stores only the comparison
  value of attachment names, message ids, a text or a route has that very value when it is
  read back. For attachment names this needs that no name was white space only.\<close>

theorem stored_keys_agree:
  assumes "normalize_attachment_names v = Inr names" "[] \<notin> set names"
    and "normalize_message_ids w = Inr ids"
  shows "normalize_attachment_names (PSeq (map PStr names)) = Inr names \<and>
    normalize_message_ids (PSeq (map PStr ids)) = Inr ids \<and>
    normalize_text (PStr (normalize_text u)) = normalize_text u \<and>
    normalize_route (PStr (normalize_route u)) = normalize_route u"
  using names_norm.norm_embed [OF assms(1,2)] ids_norm.norm_embed [OF assms(3)]
    text_norm.norm_embed [of u] route_norm.norm_embed [of u] by simp

theorem stored_keys_agree_witness:
  "normalize_attachment_names (PSeq (map PStr [''b.pdf''])) = Inr [''b.pdf'']"
proof -
  have "normalize_attachment_names (PStr ''dir/B.pdf '') = Inr [''b.pdf'']"
    and "normalize_message_ids (PStr ''<1@x>'') = Inr [''1@x'']"
    by code_simp+
  moreover have "[] \<notin> set [''b.pdf'']" by simp
  ultimately show ?thesis using stored_keys_agree [of _ "[''b.pdf'']" _ "[''1@x'']"] by blast
qed
lemma multi_fetch_eq:
  "multi_fetch as p acc = Inr r \<longleftrightarrow>
     (\<exists>rs. map (\<lambda>a. ad_fetch a p) as = map Inr rs \<and>
       r = acc\<lparr>fr_items := fr_items acc @ concat (map fr_items rs),
              fr_partial := fr_partial acc \<or> list_ex fr_partial rs\<rparr>)"
proof (induction as arbitrary: acc)
  case (Cons a as)
  show ?case
  proof (cases "ad_fetch a p")
    case (Inr x)
    show ?thesis
      by (auto simp: Inr Cons.IH Cons_eq_map_conv disj_assoc)
  qed (auto simp: Cons_eq_map_conv)
qed auto

lemma multi_list_all_eq:
  "multi_list_all as acc = Inr r \<longleftrightarrow>
     (\<exists>rs. map ad_list_all as = map (\<lambda>r. Some (Inr r)) rs \<and>
       r = acc\<lparr>fr_items := fr_items acc @ concat (map fr_items rs),
              fr_partial := fr_partial acc \<or> list_ex fr_partial rs\<rparr>)"
proof (induction as arbitrary: acc)
  case (Cons a as)
  consider (none) "ad_list_all a = None" | (err) e where "ad_list_all a = Some (Inl e)"
    | (ok) x where "ad_list_all a = Some (Inr x)"
    by (cases "ad_list_all a") (auto, metis sum.exhaust)
  then show ?case
  proof cases
    case ok
    then show ?thesis by (auto simp: Cons.IH Cons_eq_map_conv disj_assoc)
  qed (auto simp: Cons_eq_map_conv)
qed auto

text \<open>A composite is all of its parts. The composite adapter answers a probe, or an
  enumeration, exactly when every one of its delegates does, with the records of all in
  order; it is partial when one of them is, it never carries an HTTP status, and it can
  enumerate exactly when all of them can.\<close>

theorem composite_is_all_of_its_parts:
  "(ad_fetch (multi_adapter as) p = Inr r \<longleftrightarrow>
     (\<exists>rs. map (\<lambda>a. ad_fetch a p) as = map Inr rs \<and>
       r = \<lparr>fr_items = concat (map fr_items rs), fr_partial = list_ex fr_partial rs,
            fr_status = None\<rparr>)) \<and>
   (ad_list_all (multi_adapter as) = Some (Inr r) \<longleftrightarrow>
     (\<exists>rs. map ad_list_all as = map (\<lambda>r. Some (Inr r)) rs \<and>
       r = \<lparr>fr_items = concat (map fr_items rs), fr_partial = list_ex fr_partial rs,
            fr_status = None\<rparr>)) \<and>
   (can_enumerate (multi_adapter as) \<longleftrightarrow> list_all can_enumerate as)"
  by (simp add: multi_adapter_def multi_fetch_eq multi_list_all_eq plain_result_def
      can_enumerate_def)

end
