(* ===== verification/Messages.thy ===== *)
theory Messages
  imports Readback Payload
begin

text \<open>
  Model of \<open>testinghq/pipeline/messages.py\<close>: minting a tag, reading one back,
  stamping a payload with it, and the probe a stamped payload is looked up by.
  The two regular expressions of the module are the parsers \<open>tag_tail\<close> and
  \<open>split_tag\<close>; \<open>find_tag\<close> follows the code's line scan and marker scan.
\<close>

section \<open>Tags\<close>

definition TAG_HEADER :: string where "TAG_HEADER = ''X-TestingHQ-Tag''"
definition TAG_DOMAIN_SUFFIX :: string where "TAG_DOMAIN_SUFFIX = ''hq.example.test''"
definition DEFAULT_TAG_PREFIX :: string where "DEFAULT_TAG_PREFIX = ''hq''"
definition MARKER_OPEN :: string where "MARKER_OPEN = ''[testinghq:''"
definition MARKER_CLOSE :: char where "MARKER_CLOSE = CHR '']''"

datatype tag_error = EmptyTag | EmptyPrefix | NegativeIndex int

definition tag_marker :: "string \<Rightarrow> tag_error + string" where
  "tag_marker tag = (if tag = [] then Inl EmptyTag else Inr (MARKER_OPEN @ tag @ [MARKER_CLOSE]))"

text \<open>\<open>run_tag_prefix\<close>, its clock reading and its random token given.\<close>

definition run_tag_prefix :: "string \<Rightarrow> string \<Rightarrow> string" where
  "run_tag_prefix stamp token = DEFAULT_TAG_PREFIX @ ''-'' @ stamp @ ''-'' @ token"

definition make_tag :: "string \<Rightarrow> int \<Rightarrow> int \<Rightarrow> tag_error + string" where
  "make_tag p seed index =
     (if p = [] then Inl EmptyPrefix
      else if index < 0 then Inl (NegativeIndex index)
      else Inr (p @ ''-'' @ str_of_int seed @ ''-'' @ pad4 (nat index)))"

text \<open>The tail \<open>-?\d+-\d{4,}\<close> of a tag: its seed and its index.\<close>

definition tag_tail :: "string \<Rightarrow> (int \<times> nat) option" where
  "tag_tail t =
     (let neg = (t \<noteq> [] \<and> hd t = CHR ''-'');
          u = (if neg then tl t else t);
          ds = takeWhile is_digit u;
          r = dropWhile is_digit u
      in if ds \<noteq> [] \<and> r \<noteq> [] \<and> hd r = CHR ''-'' \<and> 4 \<le> length (tl r) \<and> list_all is_digit (tl r)
         then Some ((if neg then - int (nat_of_str ds) else int (nat_of_str ds)), nat_of_str (tl r))
         else None)"

text \<open>Where a tag divides: the position of a dash with a tail behind it.\<close>

definition tag_split_at :: "string \<Rightarrow> nat \<Rightarrow> bool" where
  "tag_split_at t k \<longleftrightarrow> t ! k = CHR ''-'' \<and> tag_tail (drop (Suc k) t) \<noteq> None"

text \<open>\<open>^(?P<prefix>.+?)-(?P<seed>-?\d+)-(?P<index>\d{4,})$\<close>: the shortest prefix.\<close>

definition split_tag :: "string option \<Rightarrow> (string \<times> int \<times> nat) option" where
  "split_tag tag =
     (case tag of
        None \<Rightarrow> None
      | Some s \<Rightarrow>
          if s = [] then None
          else (let t = strip s in
            case find (\<lambda>k. CHR 0x0A \<notin> set (take k t) \<and> tag_split_at t k) [1..<length t] of
              None \<Rightarrow> None
            | Some k \<Rightarrow> map_option (\<lambda>(s, i). (take k t, s, i)) (tag_tail (drop (Suc k) t))))"

text \<open>What one line of a header block says about the tag: nothing, or the value
  of the tag header, which ends the search even when it is empty.\<close>

definition tag_line :: "string \<Rightarrow> string option option" where
  "tag_line line =
     (let name = takeWhile (\<lambda>c. c \<noteq> CHR '':'') line;
          rest = dropWhile (\<lambda>c. c \<noteq> CHR '':'') line
      in if rest = [] then None
         else if casefold (strip name) \<noteq> casefold TAG_HEADER then None
         else (let candidate = strip (tl rest)
           in Some (if candidate \<noteq> [] then Some candidate else None)))"

fun tag_of_lines :: "string list \<Rightarrow> string option option" where
  "tag_of_lines [] = None"
| "tag_of_lines (l # ls) = (case tag_line l of None \<Rightarrow> tag_of_lines ls | Some r \<Rightarrow> Some r)"

text \<open>The scan for \<open>[testinghq:...]\<close>: an empty marker is passed over, an
  unclosed one ends the search.\<close>

fun marker_scan :: "string \<Rightarrow> string option" where
  "marker_scan [] = None"
| "marker_scan (c # cs) =
     (if prefix MARKER_OPEN (c # cs) then
        (let body = drop (length MARKER_OPEN) (c # cs);
             candidate = takeWhile (\<lambda>d. d \<noteq> MARKER_CLOSE) body
         in if MARKER_CLOSE \<notin> set body then None
            else if candidate \<noteq> [] then Some candidate else marker_scan cs)
      else marker_scan cs)"

definition find_tag :: "string option \<Rightarrow> string option" where
  "find_tag text =
     (case text of
        None \<Rightarrow> None
      | Some s \<Rightarrow>
          if s = [] then None
          else (case tag_of_lines (splitlines s) of
              Some r \<Rightarrow> r
            | None \<Rightarrow> marker_scan s))"

text \<open>\<open>harvest_tag\<close>: the first tag any candidate yields.\<close>

fun harvest_tag :: "string option list \<Rightarrow> string option" where
  "harvest_tag [] = None"
| "harvest_tag (c # cs) = (case find_tag c of Some t \<Rightarrow> Some t | None \<Rightarrow> harvest_tag cs)"

section \<open>Stamping\<close>

definition build_chain_message_id :: "string \<Rightarrow> string" where
  "build_chain_message_id tag = tag @ ''@'' @ TAG_DOMAIN_SUFFIX"

record pinned =
  pin_message_id :: "string option"
  pin_in_reply_to :: "string option"
  pin_references :: "string option"
  pin_subject :: "string option"

definition no_pins :: pinned where
  "no_pins = \<lparr>pin_message_id = None, pin_in_reply_to = None, pin_references = None,
     pin_subject = None\<rparr>"

definition put_header :: "string \<Rightarrow> string option \<Rightarrow> string dict \<Rightarrow> string dict" where
  "put_header k v hs = (case v of None \<Rightarrow> hs | Some s \<Rightarrow> AList.update k s hs)"

definition stamped_headers :: "string dict \<Rightarrow> string \<Rightarrow> pinned \<Rightarrow> string dict" where
  "stamped_headers hs tag pin =
     put_header ''Subject'' (pin_subject pin)
       (put_header ''References'' (pin_references pin)
         (put_header ''In-Reply-To'' (pin_in_reply_to pin)
           (AList.update ''Message-ID''
             (case pin_message_id pin of Some m \<Rightarrow> m
              | None \<Rightarrow> ''<'' @ build_chain_message_id tag @ ''>'')
             (AList.update TAG_HEADER tag hs))))"

text \<open>\<open>stamp\<close>: \<open>tag_marker\<close> refuses an empty tag. The subject goes into a second
  copy, after the one that replaces the headers (\<open>_with_changes\<close>).\<close>

definition stamp :: "email \<Rightarrow> string \<Rightarrow> pinned \<Rightarrow> tag_error + email" where
  "stamp e tag pin =
     (case tag_marker tag of
        Inl err \<Rightarrow> Inl err
      | Inr marker \<Rightarrow>
          (let once = with_changes (no_changes\<lparr>
                ch_headers := Some (stamped_headers (em_headers e) tag pin),
                ch_text := Some (em_text e @ [CHR 0x0A] @ marker @ [CHR 0x0A]),
                ch_html := Some (em_html e @ ''<p>'' @ marker @ ''</p>''),
                ch_ground_truth := map_option
                  (\<lambda>s. (em_ground_truth e)\<lparr>gt_subject := s\<rparr>) (pin_subject pin)\<rparr>) e
           in Inr (case pin_subject pin of
                None \<Rightarrow> once
              | Some s \<Rightarrow> with_changes (no_changes\<lparr>ch_subject := Some s\<rparr>) once)))"

definition message_id_of :: "email \<Rightarrow> string" where
  "message_id_of e =
     (case map_of (em_headers e) ''Message-ID'' of
        Some v \<Rightarrow> if strip v \<noteq> [] then strip (strip_chars ''<>'' (strip v))
          else (case find_tag (Some (em_text e)) of Some t \<Rightarrow> t | None \<Rightarrow> [])
      | None \<Rightarrow> (case find_tag (Some (em_text e)) of Some t \<Rightarrow> t | None \<Rightarrow> []))"

definition probe_for :: "email \<Rightarrow> string \<Rightarrow> string \<Rightarrow> string \<Rightarrow> probe" where
  "probe_for e tag record_id sha = \<lparr>
     pr_record_id = record_id, pr_tag = tag, pr_payload_sha256 = sha,
     pr_from_addr = gt_from_addr (em_ground_truth e),
     pr_subject = gt_subject (em_ground_truth e),
     pr_recipient = (case env_to (em_envelope e) of [] \<Rightarrow> [] | r # _ \<Rightarrow> r),
     pr_message_id = message_id_of e,
     pr_attachment_names = map at_filename (em_attachments e)\<rparr>"

text \<open>\<open>stamp_corpus\<close>: payload, tag and record id, numbered from the given index.\<close>

fun stamp_corpus_from ::
  "nat \<Rightarrow> email list \<Rightarrow> int \<Rightarrow> string \<Rightarrow> tag_error + (email \<times> string \<times> string) list" where
  "stamp_corpus_from i [] seed p = Inr []"
| "stamp_corpus_from i (e # es) seed p =
     (case make_tag p seed (int i) of
        Inl err \<Rightarrow> Inl err
      | Inr tag \<Rightarrow>
          (case stamp e tag no_pins of
             Inl err \<Rightarrow> Inl err
           | Inr e' \<Rightarrow>
               (case stamp_corpus_from (Suc i) es seed p of
                  Inl err \<Rightarrow> Inl err
                | Inr rest \<Rightarrow> Inr
                    ((e', tag, ''clean-'' @ str_of_int seed @ ''-'' @ pad4 i) # rest))))"

definition stamp_corpus ::
  "email list \<Rightarrow> int \<Rightarrow> string \<Rightarrow> tag_error + (email \<times> string \<times> string) list" where
  "stamp_corpus es seed p = stamp_corpus_from 0 es seed p"

definition thread_header_text :: "email \<Rightarrow> string" where
  "thread_header_text e =
     concat (map (\<lambda>(n, v). n @ '': '' @ v @ [CHR 0x0D, CHR 0x0A]) (em_headers e))"

section \<open>Facts about tags\<close>

text \<open>A decimal tail, as text: an optional sign, digits, a dash, digits.\<close>

definition tail_text :: "bool \<Rightarrow> string \<Rightarrow> string \<Rightarrow> string" where
  "tail_text neg ds xs = (if neg then ''-'' else []) @ ds @ ''-'' @ xs"

definition tail_parts :: "string \<Rightarrow> string \<Rightarrow> bool" where
  "tail_parts ds xs \<longleftrightarrow> ds \<noteq> [] \<and> list_all is_digit ds \<and> 4 \<le> length xs \<and> list_all is_digit xs"

lemma digits_takeWhile:
  "list_all is_digit ds \<Longrightarrow> takeWhile is_digit (ds @ CHR ''-'' # xs) = ds \<and>
     dropWhile is_digit (ds @ CHR ''-'' # xs) = CHR ''-'' # xs"
  by (induction ds) auto

lemma tag_tail_text:
  assumes "tail_parts ds xs"
  shows "tag_tail (tail_text neg ds xs) =
     Some (if neg then - int (nat_of_str ds) else int (nat_of_str ds), nat_of_str xs)"
proof -
  have "hd (ds @ CHR ''-'' # xs) \<noteq> CHR ''-''"
    using assms by (cases ds) (auto simp: tail_parts_def is_digit_def)
  then show ?thesis
    using assms digits_takeWhile [of ds xs]
    by (auto simp: tail_parts_def tag_tail_def tail_text_def Let_def)
qed

lemma tag_tail_Some:
  assumes "tag_tail t = Some r"
  shows "\<exists>neg ds xs. t = tail_text neg ds xs \<and> tail_parts ds xs"
proof -
  define neg where "neg = (t \<noteq> [] \<and> hd t = CHR ''-'')"
  define u where "u = (if neg then tl t else t)"
  let ?ds = "takeWhile is_digit u" and ?r = "dropWhile is_digit u"
  have c: "?ds \<noteq> [] \<and> ?r \<noteq> [] \<and> hd ?r = CHR ''-'' \<and> 4 \<le> length (tl ?r) \<and> list_all is_digit (tl ?r)"
    using assms by (auto simp: tag_tail_def Let_def u_def neg_def split: if_splits)
  then have "?r = ''-'' @ tl ?r" by (cases ?r) auto
  then have "u = ?ds @ ''-'' @ tl ?r" by (metis takeWhile_dropWhile_id)
  moreover have "t = (if neg then ''-'' else []) @ u"
    by (cases t) (auto simp: u_def neg_def)
  ultimately have "t = tail_text neg ?ds (tl ?r)" by (simp add: tail_text_def)
  moreover have "tail_parts ?ds (tl ?r)"
    using c by (auto simp: tail_parts_def list_all_iff dest: set_takeWhileD)
  ultimately show ?thesis by blast
qed

lemma digits_before_dash:
  assumes "a @ CHR ''-'' # xs = b @ CHR ''-'' # ys" "list_all is_digit xs" "list_all is_digit ys"
  shows "a = b \<and> xs = ys"
proof -
  have dash: "CHR ''-'' \<notin> set xs" "CHR ''-'' \<notin> set ys"
    using assms(2,3) dash_not_digit by (auto simp: list_all_iff)
  have "takeWhile (\<lambda>c. c \<noteq> CHR ''-'') (rev (a @ CHR ''-'' # xs)) = rev xs"
    "takeWhile (\<lambda>c. c \<noteq> CHR ''-'') (rev (b @ CHR ''-'' # ys)) = rev ys"
    using dash by (auto simp: takeWhile_append2 takeWhile_tail)
  then have "xs = ys" using assms(1) by simp
  with assms(1) show ?thesis by simp
qed

text \<open>Two ways to divide one text before a tail differ by the sign at most.\<close>

lemma tail_division_unique:
  assumes eq: "p @ ''-'' @ tail_text n ds xs = q @ ''-'' @ tail_text m es ys"
    and parts: "tail_parts ds xs" "tail_parts es ys"
  shows "ds = es \<and> xs = ys \<and>
     ((n = m \<and> p = q) \<or> (m \<and> \<not> n \<and> p = q @ ''-'') \<or> (n \<and> \<not> m \<and> q = p @ ''-''))"
proof -
  have "(p @ ''-'' @ (if n then ''-'' else []) @ ds) @ CHR ''-'' # xs =
      (q @ ''-'' @ (if m then ''-'' else []) @ es) @ CHR ''-'' # ys"
    using eq by (simp add: tail_text_def)
  then have 1: "p @ ''-'' @ (if n then ''-'' else []) @ ds = q @ ''-'' @ (if m then ''-'' else []) @ es"
    and xs: "xs = ys"
    using digits_before_dash parts by (blast dest: iffD1 [OF tail_parts_def])+
  have "\<exists>p'. p @ ''-'' @ (if n then ''-'' else []) @ ds = p' @ CHR ''-'' # ds \<and>
      p' = p @ (if n then ''-'' else [])" by auto
  moreover have "\<exists>q'. q @ ''-'' @ (if m then ''-'' else []) @ es = q' @ CHR ''-'' # es \<and>
      q' = q @ (if m then ''-'' else [])" by auto
  ultimately have "p @ (if n then ''-'' else []) = q @ (if m then ''-'' else []) \<and> ds = es"
    using 1 digits_before_dash parts by (metis tail_parts_def)
  with xs show ?thesis by (cases n; cases m) auto
qed

lemma make_tag_Inr:
  "make_tag p s i = Inr t \<longleftrightarrow> p \<noteq> [] \<and> 0 \<le> i \<and>
     t = p @ ''-'' @ tail_text (s < 0) (str_of_nat (nat \<bar>s\<bar>)) (pad4 (nat i))"
  by (auto simp: make_tag_def tail_text_def str_of_int_def)

lemma made_tail_parts: "tail_parts (str_of_nat n) (pad4 i)"
  using str_of_nat_digits pad4_digits pad4_length by (simp add: tail_parts_def list_all_iff)

lemma tag_tail_made:
  "tag_tail (tail_text (s < 0) (str_of_nat (nat \<bar>s\<bar>)) (pad4 i)) = Some (s, i)"
  by (simp add: tag_tail_text made_tail_parts)

lemma tag_split_at_made:
  assumes "t = p @ ''-'' @ tail_text n ds xs" "tail_parts ds xs" "k < length t"
  shows "tag_split_at t k \<longleftrightarrow> k = length p \<or> (n \<and> k = Suc (length p)) \<or>
     (\<not> n \<and> Suc k = length p \<and> last p = CHR ''-'')"
proof
  assume split: "tag_split_at t k"
  then obtain m es ys where tail: "drop (Suc k) t = tail_text m es ys" "tail_parts es ys"
    by (auto simp: tag_split_at_def dest: tag_tail_Some)
  have "t ! k = CHR ''-''" using split by (simp add: tag_split_at_def)
  then have "t = take k t @ ''-'' @ drop (Suc k) t"
    by (metis append_Cons append_Nil id_take_nth_drop assms(3))
  then have "p @ ''-'' @ tail_text n ds xs = take k t @ ''-'' @ tail_text m es ys"
    using assms(1) tail(1) by metis
  from tail_division_unique [OF this assms(2) tail(2)] assms(3)
  show "k = length p \<or> (n \<and> k = Suc (length p)) \<or>
     (\<not> n \<and> Suc k = length p \<and> last p = CHR ''-'')"
    by (auto dest: arg_cong [where f = length])
next
  assume "k = length p \<or> (n \<and> k = Suc (length p)) \<or>
     (\<not> n \<and> Suc k = length p \<and> last p = CHR ''-'')"
  then consider "k = length p" | "n" "k = Suc (length p)"
    | "\<not> n" "Suc k = length p" "last p = CHR ''-''" by blast
  then show "tag_split_at t k"
  proof cases
    case 1
    with assms show ?thesis by (simp add: tag_split_at_def tag_tail_text)
  next
    case 2
    have "t = (p @ ''-'') @ ''-'' @ tail_text False ds xs"
      using assms(1) 2 by (simp add: tail_text_def)
    with 2 assms(2) show ?thesis
      by (simp add: tag_split_at_def tag_tail_text nth_append)
  next
    case 3
    then have p: "p = butlast p @ ''-''" by (metis append_butlast_last_id length_0_conv nat.distinct(1))
    have "t = butlast p @ ''-'' @ tail_text True ds xs"
      using assms(1) 3 by (subst (asm) p) (simp add: tail_text_def)
    moreover have "k = length (butlast p)" using 3 by simp
    ultimately show ?thesis
      using assms(2) by (simp add: tag_split_at_def tag_tail_text nth_append del: length_butlast)
  qed
qed

lemma find_first:
  assumes "P k" "m \<le> k" "k < n" "\<And>j. m \<le> j \<Longrightarrow> j < k \<Longrightarrow> \<not> P j"
  shows "find P [m..<n] = Some k"
  using assms unfolding find_Some_iff
  by (intro exI [of _ "k - m"]) (auto simp: nth_upt)

lemma tight_tag:
  assumes "p \<noteq> []" "\<forall>c \<in> set p. \<not> is_space c" "tail_parts ds xs"
  shows "strip (p @ ''-'' @ tail_text n ds xs) = p @ ''-'' @ tail_text n ds xs"
  using assms by (intro strip_no_space)
    (auto simp: tail_text_def tail_parts_def list_all_iff dest: digit_not_space)

text \<open>When two tags collide. Two mints give one tag only for the same index, and then
  either prefix and seed agree, or the seeds are opposite and the prefixes differ by one
  trailing dash. So tags are unique by prefix and seed except in that one case.\<close>

theorem make_tag_collides_iff:
  assumes "make_tag p s i = Inr t"
  shows "make_tag q s' j = Inr t \<longleftrightarrow> q \<noteq> [] \<and> j = i \<and>
     ((q = p \<and> s' = s) \<or> (s' = - s \<and> ((0 < s \<and> p = q @ ''-'') \<or> (s < 0 \<and> q = p @ ''-''))))"
    (is "_ \<longleftrightarrow> ?r")
proof
  let ?tt = "\<lambda>s i. tail_text (s < 0) (str_of_nat (nat \<bar>s\<bar>)) (pad4 (nat i))"
  have t: "t = p @ ''-'' @ ?tt s i" "0 \<le> i" using assms by (simp_all add: make_tag_Inr)
  assume "make_tag q s' j = Inr t"
  then have q: "q \<noteq> []" "0 \<le> j" "t = q @ ''-'' @ ?tt s' j" by (simp_all add: make_tag_Inr)
  then have "p @ ''-'' @ ?tt s i = q @ ''-'' @ ?tt s' j" using t by metis
  from tail_division_unique [OF this made_tail_parts made_tail_parts] q t
  show ?r by (auto simp: abs_if split: if_splits)
next
  assume ?r
  with assms show "make_tag q s' j = Inr t"
    by (auto simp: make_tag_Inr tail_text_def)
qed

theorem make_tag_collides_iff_witness:
  "make_tag ''hq-'' 3 0 = Inr ''hq--3-0000'' \<and> make_tag ''hq'' (-3) 0 = Inr ''hq--3-0000''"
proof -
  have h: "make_tag ''hq-'' 3 0 = Inr ''hq--3-0000''" by code_simp
  with make_tag_collides_iff [OF h, of "''hq''" "-3" 0] show ?thesis by simp
qed

text \<open>A tag reads back. For a prefix without white space that does not end in a dash,
  or a negative seed, reading a minted tag gives back its prefix, seed and index, and
  surrounding white space makes no difference.\<close>

theorem split_tag_of_make_tag:
  assumes mint: "make_tag p s i = Inr t" and p: "\<forall>c \<in> set p. \<not> is_space c"
    and dash: "last p \<noteq> CHR ''-'' \<or> s < 0"
    and pad: "\<forall>c \<in> set u. is_space c" "\<forall>c \<in> set v. is_space c"
  shows "split_tag (Some (u @ t @ v)) = Some (p, s, nat i)"
proof -
  let ?tt = "tail_text (s < 0) (str_of_nat (nat \<bar>s\<bar>)) (pad4 (nat i))"
  have t: "t = p @ ''-'' @ ?tt" and ne: "p \<noteq> []" using mint by (simp_all add: make_tag_Inr)
  have "strip t = t" unfolding t using ne p made_tail_parts by (rule tight_tag)
  then have "tight t" by (metis tight_strip_result)
  then have strip: "strip (u @ t @ v) = t" using pad by (rule strip_pad)
  have nl: "is_space CHR 0x0A" by (simp add: is_space_def)
  have "find (\<lambda>k. CHR 0x0A \<notin> set (take k t) \<and> tag_split_at t k) [1..<length t] = Some (length p)"
  proof (rule find_first)
    show "CHR 0x0A \<notin> set (take (length p) t) \<and> tag_split_at t (length p)"
      using p nl tag_split_at_made [OF t made_tail_parts] by (auto simp: t)
    show "\<not> (CHR 0x0A \<notin> set (take k t) \<and> tag_split_at t k)" if "k < length p" for k
      using that dash tag_split_at_made [OF t made_tail_parts, of k] by (auto simp: t)
  qed (use ne in \<open>auto simp: t Suc_le_eq\<close>)
  moreover have "u @ t @ v \<noteq> []" using t by simp
  moreover have "drop (Suc (length p)) t = ?tt" "take (length p) t = p" by (simp_all add: t)
  ultimately show ?thesis
    by (simp add: split_tag_def Let_def strip tag_tail_made)
qed

theorem split_tag_of_make_tag_witness:
  "split_tag (Some '' hq-2610142218-d0f4-7-0012 '') = Some (''hq-2610142218-d0f4'', 7, 12)"
proof -
  have "make_tag ''hq-2610142218-d0f4'' 7 12 = Inr ''hq-2610142218-d0f4-7-0012''" by code_simp
  from split_tag_of_make_tag [OF this, of "'' ''" "'' ''"] show ?thesis
    by (simp add: is_space_def)
qed

section \<open>Facts about stamping\<close>

lemma lf_is_eol [simp]: "is_eol CHR 0x0A"
  by (simp add: is_eol_def)

lemma cr_is_eol [simp]: "is_eol CHR 0x0D"
  by (simp add: is_eol_def)

text \<open>The lines of a text that has a line feed in it: the lines before it, perhaps an
  empty one more, and the lines after it.\<close>

lemma split_lines_at_lf:
  "\<exists>ls. split_lines_from acc (a @ CHR 0x0A # b) = ls @ split_lines_from [] b \<and>
     set ls \<subseteq> insert [] (set (split_lines_from acc a))"
proof (induction acc a rule: split_lines_from.induct)
  case (1 acc)
  show ?case by (cases b) auto
next
  case (2 acc c)
  show ?case
  proof (cases "c = CHR 0x0D")
    case True
    then show ?thesis by (intro exI [of _ "[rev acc]"]) (simp add: is_eol_def)
  next
    case False
    then show ?thesis
      by (cases b) (auto intro: exI [of _ "[rev acc, []]"] exI [of _ "[rev (c # acc)]"])
  qed
next
  case (3 acc c d cs)
  show ?case
  proof (cases "c = CHR 0x0D \<and> d = CHR 0x0A")
    case True
    with 3(1) obtain ls where "split_lines_from [] (cs @ CHR 0x0A # b) = ls @ split_lines_from [] b"
      "set ls \<subseteq> insert [] (set (split_lines_from [] cs))" by blast
    with True show ?thesis by (intro exI [of _ "rev acc # ls"]) auto
  next
    case no: False
    show ?thesis
    proof (cases "is_eol c")
      case True
      with no 3(2) obtain ls where
        "split_lines_from [] ((d # cs) @ CHR 0x0A # b) = ls @ split_lines_from [] b"
        "set ls \<subseteq> insert [] (set (split_lines_from [] (d # cs)))" by blast
      with no True show ?thesis by (intro exI [of _ "rev acc # ls"]) auto
    next
      case False
      with no 3(3) obtain ls where
        "split_lines_from (c # acc) ((d # cs) @ CHR 0x0A # b) = ls @ split_lines_from [] b"
        "set ls \<subseteq> insert [] (set (split_lines_from (c # acc) (d # cs)))" by blast
      with no False show ?thesis by (intro exI [of _ ls]) auto
    qed
  qed
qed

lemma split_lines_plain:
  "\<forall>c \<in> set m. \<not> is_eol c \<Longrightarrow> m \<noteq> [] \<or> acc \<noteq> [] \<Longrightarrow>
     split_lines_from acc (m @ [CHR 0x0A]) = [rev acc @ m]"
  by (induction acc m rule: split_lines_from.induct) auto

lemma tag_of_lines_None_iff: "tag_of_lines ls = None \<longleftrightarrow> (\<forall>l \<in> set ls. tag_line l = None)"
  by (induction ls) (auto split: option.splits)

lemma tag_line_Nil [simp]: "tag_line [] = None"
  by (simp add: tag_line_def)

lemma tag_line_marker: "tag_line (MARKER_OPEN @ x) = None"
  by (simp add: tag_line_def MARKER_OPEN_def TAG_HEADER_def Let_def strip_def lstrip_def
      rstrip_def is_space_def lower_char_def)

lemma marker_scan_skip:
  assumes "\<not> sublist MARKER_OPEN a"
  shows "marker_scan (a @ CHR 0x0A # b) = marker_scan b"
  using assms
proof (induction a)
  case Nil
  then show ?case by (simp add: MARKER_OPEN_def)
next
  case (Cons c a)
  have "\<not> prefix MARKER_OPEN ((c # a) @ CHR 0x0A # b)"
  proof
    assume p: "prefix MARKER_OPEN ((c # a) @ CHR 0x0A # b)"
    have no: "\<not> prefix MARKER_OPEN (c # a)"
      using Cons.prems by (meson prefix_imp_sublist)
    from no obtain zs where zs: "MARKER_OPEN = (c # a) @ zs" "prefix zs (CHR 0x0A # b)"
      using p by (simp only: prefix_append) blast
    then have "zs \<noteq> []" using no by auto
    with zs(2) have "CHR 0x0A \<in> set zs" by (cases zs) auto
    then have "CHR 0x0A \<in> set MARKER_OPEN" by (subst zs(1)) simp
    then show False by (simp add: MARKER_OPEN_def)
  qed
  moreover have "\<not> sublist MARKER_OPEN a"
    using Cons.prems by (auto simp: sublist_Cons_right)
  ultimately show ?case using Cons.IH by simp
qed

lemma marker_scan_hit:
  assumes "tag \<noteq> []" "MARKER_CLOSE \<notin> set tag"
  shows "marker_scan (MARKER_OPEN @ tag @ MARKER_CLOSE # rest) = Some tag"
proof -
  obtain c cs where m: "MARKER_OPEN @ tag @ MARKER_CLOSE # rest = c # cs"
    by (cases "MARKER_OPEN @ tag @ MARKER_CLOSE # rest") (auto simp: MARKER_OPEN_def)
  have "takeWhile (\<lambda>d. d \<noteq> MARKER_CLOSE) (tag @ MARKER_CLOSE # rest) = tag"
    using assms(2) by (auto simp: takeWhile_append2 takeWhile_tail)
  moreover have "drop (length MARKER_OPEN) (c # cs) = tag @ MARKER_CLOSE # rest"
    by (simp flip: m)
  moreover have "prefix MARKER_OPEN (c # cs)" by (simp flip: m)
  ultimately show ?thesis using assms(1) unfolding m by (simp add: Let_def)
qed

lemma stamp_Inr:
  "stamp e tag pin = Inr e' \<Longrightarrow> tag \<noteq> [] \<and>
     em_text e' = em_text e @ CHR 0x0A # MARKER_OPEN @ tag @ MARKER_CLOSE # [CHR 0x0A] \<and>
     em_attachments e' = em_attachments e \<and> em_envelope e' = em_envelope e"
  by (auto simp: stamp_def tag_marker_def with_changes_def no_changes_def Let_def
      split: if_splits option.splits)

text \<open>A stamped message is findable, and its subject is not touched. The tag put into
  a message is read back from its text by \<open>find_tag\<close>, provided the message did not
  already carry a tag header line or a marker and the tag has no bracket and no line
  break; unless a subject is pinned, subject and ground truth are what they were; and
  the header block carries the tag and the Message-ID derived from it.\<close>

theorem stamped_tag_is_found:
  assumes st: "stamp e tag pin = Inr e'"
    and lines: "\<forall>l \<in> set (splitlines (em_text e)). tag_line l = None"
    and marker: "\<not> sublist MARKER_OPEN (em_text e)"
    and tag: "MARKER_CLOSE \<notin> set tag" "\<forall>c \<in> set tag. \<not> is_eol c"
  shows "find_tag (Some (em_text e')) = Some tag \<and>
    (pin_subject pin = None \<longrightarrow>
       em_subject e' = em_subject e \<and> em_ground_truth e' = em_ground_truth e) \<and>
    (pin = no_pins \<longrightarrow> map_of (em_headers e') TAG_HEADER = Some tag \<and>
       map_of (em_headers e') ''Message-ID'' = Some (''<'' @ build_chain_message_id tag @ ''>''))"
proof (intro conjI impI)
  let ?m = "MARKER_OPEN @ tag @ [MARKER_CLOSE]"
  have ne: "tag \<noteq> []" and body: "em_text e' = em_text e @ CHR 0x0A # ?m @ [CHR 0x0A]"
    using stamp_Inr [OF st] by simp_all
  obtain ls where ls: "splitlines (em_text e') = ls @ split_lines_from [] (?m @ [CHR 0x0A])"
    "set ls \<subseteq> insert [] (set (splitlines (em_text e)))"
    using split_lines_at_lf [of "[]" "em_text e" "?m @ [CHR 0x0A]"]
    by (auto simp: body splitlines_def)
  have "split_lines_from [] (?m @ [CHR 0x0A]) = [?m]"
    using tag(2) split_lines_plain [of ?m "[]"]
    by (auto simp: MARKER_OPEN_def MARKER_CLOSE_def is_eol_def)
  with ls have "tag_of_lines (splitlines (em_text e')) = None"
    using lines tag_line_marker by (auto simp: tag_of_lines_None_iff)
  moreover have "marker_scan (em_text e') = Some tag"
    using marker_scan_skip [OF marker] marker_scan_hit [OF ne tag(1)] by (simp add: body)
  ultimately show "find_tag (Some (em_text e')) = Some tag"
    by (simp add: find_tag_def body)
qed (insert st, auto simp: stamp_def tag_marker_def with_changes_def no_changes_def no_pins_def
  stamped_headers_def put_header_def update_conv TAG_HEADER_def Let_def split: if_splits)

theorem stamped_tag_is_found_witness:
  "\<exists>e'. stamp sample_email ''hq-0-0000'' no_pins = Inr e' \<and>
     find_tag (Some (em_text e')) = Some ''hq-0-0000''"
proof -
  obtain e' where st: "stamp sample_email ''hq-0-0000'' no_pins = Inr e'"
    by (simp add: stamp_def tag_marker_def no_pins_def Let_def)
  have "\<forall>l \<in> set (splitlines (em_text sample_email)). tag_line l = None" by code_simp
  moreover have "\<not> sublist MARKER_OPEN (em_text sample_email)"
    by (simp add: MARKER_OPEN_def sample_email_def sublist_Cons_right)
  moreover have "MARKER_CLOSE \<notin> set ''hq-0-0000''" by (simp add: MARKER_CLOSE_def)
  moreover have "\<forall>c \<in> set ''hq-0-0000''. \<not> is_eol c" by code_simp
  ultimately show ?thesis using stamped_tag_is_found [OF st] st by blast
qed

lemma stamp_corpus_from_tags:
  "stamp_corpus_from k es seed p = Inr items \<Longrightarrow> length items = length es \<and>
     (\<forall>n < length es. make_tag p seed (int (k + n)) = Inr (fst (snd (items ! n))) \<and>
        stamp (es ! n) (fst (snd (items ! n))) no_pins = Inr (fst (items ! n)))"
proof (induction k es seed p arbitrary: items rule: stamp_corpus_from.induct)
  case (2 i e es seed p)
  then obtain tag e' rest where *: "make_tag p seed (int i) = Inr tag"
    "stamp e tag no_pins = Inr e'" "stamp_corpus_from (Suc i) es seed p = Inr rest"
    "items = (e', tag, ''clean-'' @ str_of_int seed @ ''-'' @ pad4 i) # rest"
    by (auto split: sum.splits)
  note IH = "2.IH" [OF *(1) *(2) *(3)]
  show ?case
  proof (intro conjI allI impI)
    show "length items = length (e # es)" using IH * by simp
  next
    fix n assume "n < length (e # es)"
    then show "make_tag p seed (int (i + n)) = Inr (fst (snd (items ! n)))"
      and "stamp ((e # es) ! n) (fst (snd (items ! n))) no_pins = Inr (fst (items ! n))"
      using IH * by (cases n; simp)+
  qed
qed simp

lemma stamp_corpus_tags:
  assumes "stamp_corpus es seed p = Inr items"
  shows "length items = length es \<and> distinct (map (\<lambda>(e, tag, rid). tag) items) \<and>
    (\<forall>n < length es. make_tag p seed (int n) = Inr (fst (snd (items ! n))) \<and>
       stamp (es ! n) (fst (snd (items ! n))) no_pins = Inr (fst (items ! n)))"
proof -
  note facts = stamp_corpus_from_tags [OF assms [unfolded stamp_corpus_def], simplified]
  have "fst (snd (items ! n)) \<noteq> fst (snd (items ! m))"
    if "n < length es" "m < length es" "n \<noteq> m" for n m
  proof
    assume same: "fst (snd (items ! n)) = fst (snd (items ! m))"
    have "make_tag p seed (int n) = Inr (fst (snd (items ! n)))"
      "make_tag p seed (int m) = Inr (fst (snd (items ! m)))"
      using facts that by auto
    with same have "make_tag p seed (int n) = make_tag p seed (int m)"
      "make_tag p seed (int n) \<noteq> Inl BadTag" for BadTag by simp_all
    with that show False by (auto simp: make_tag_def split: if_splits)
  qed
  then have "distinct (map (\<lambda>(e, tag, rid). tag) items)"
    using facts by (auto simp: distinct_conv_nth case_prod_unfold)
  with facts show ?thesis by blast
qed

text \<open>One tag per message. Stamping a corpus keeps its length and order and gives every
  message its own tag, all of them minted under the run's prefix and seed.\<close>

theorem stamp_corpus_unique_tags:
  assumes "stamp_corpus es seed p = Inr items"
  shows "length items = length es \<and> distinct (map (\<lambda>(e, tag, rid). tag) items) \<and>
    (\<forall>n < length es. make_tag p seed (int n) = Inr (fst (snd (items ! n))) \<and>
       stamp (es ! n) (fst (snd (items ! n))) no_pins = Inr (fst (items ! n)))"
  using stamp_corpus_tags [OF assms] .

theorem stamp_corpus_unique_tags_witness:
  "\<exists>items. stamp_corpus [sample_email, sample_email] 5 ''hq'' = Inr items \<and>
     distinct (map (\<lambda>(e, tag, rid). tag) items)"
proof -
  obtain items where h: "stamp_corpus [sample_email, sample_email] 5 ''hq'' = Inr items"
    by (simp add: stamp_corpus_def make_tag_def stamp_def tag_marker_def no_pins_def Let_def)
  with stamp_corpus_unique_tags [OF h] show ?thesis by blast
qed

end
