(* ===== verification/Guardrails.thy ===== *)
theory Guardrails
  imports Payload
begin

text \<open>The safety guardrails of \<open>core/guardrails.py\<close>, the target resolution every send path
  goes through (\<open>core/targets.py\<close>), and the synthetic-content check over a whole run
  (\<open>require_synthetic\<close> in \<open>pipeline/common.py\<close>).

  What the code takes from the world is the record \<open>netlib\<close>: Python's \<open>ipaddress.ip_address\<close>
  with its classification of an address (the ranges differ between Python versions),
  \<open>email.utils.getaddresses\<close>, and the system resolver. \<open>urlsplit\<close> is written out as far
  as \<open>hostname\<close> needs it (without the newer check that a bracketed host is an IPv6
  literal). Text is ASCII. A refusal is an \<open>Inl\<close>.\<close>

section \<open>Dry run or send\<close>

record fire_decision =
  will_send :: bool
  fire_reason :: string

definition evaluate_send :: "bool \<Rightarrow> fire_decision" where
  "evaluate_send send_flag =
     (if send_flag then \<lparr>will_send = True, fire_reason = ''explicit --send flag set''\<rparr>
      else \<lparr>will_send = False, fire_reason = ''dry-run default (no --send)''\<rparr>)"

section \<open>Hosts\<close>

record ip_flags =
  ip_private :: bool
  ip_loopback :: bool
  ip_link_local :: bool
  ip_reserved :: bool
  ip_unspecified :: bool

text \<open>An IPv6 address may carry an IPv4 one.\<close>

datatype ip = IPv4 ip_flags | IPv6 ip_flags "ip_flags option"

record netlib =
  lib_ip_address :: "string \<Rightarrow> ip option"
  lib_addresses :: "string list \<Rightarrow> string list"
  lib_resolve :: "string \<Rightarrow> string list"

definition RESERVED_DOMAINS :: "string list" where
  "RESERVED_DOMAINS = [''example.com'', ''example.net'', ''example.org'', ''example.edu'']"

definition RESERVED_TLDS :: "string list" where
  "RESERVED_TLDS = [''test'', ''invalid'', ''example'', ''localhost'']"

text \<open>The host part of \<open>urllib.parse.urlsplit\<close>: the scheme, the network location, and the
  host in it. \<open>None\<close> is the \<open>ValueError\<close> for unbalanced brackets.\<close>

definition url_clean :: "string \<Rightarrow> string" where
  "url_clean u = filter (\<lambda>c. c \<notin> {CHR 0x09, CHR 0x0A, CHR 0x0D})
     (dropWhile (\<lambda>c. (of_char c :: nat) \<le> 32) u)"

definition is_scheme_char :: "char \<Rightarrow> bool" where
  "is_scheme_char c \<longleftrightarrow> is_alnum c \<or> c \<in> set ''+-.''"

definition drop_scheme :: "string \<Rightarrow> string" where
  "drop_scheme u =
     (let scheme = takeWhile (\<lambda>c. c \<noteq> CHR '':'') u
      in if CHR '':'' \<in> set u \<and> scheme \<noteq> [] \<and> is_alpha (hd scheme) \<and> list_all is_scheme_char scheme
         then drop (Suc (length scheme)) u else u)"

definition netloc_of :: "string \<Rightarrow> string" where
  "netloc_of u =
     (let rest = drop_scheme (url_clean u)
      in if prefix ''//'' rest then takeWhile (\<lambda>c. c \<notin> set ''/?#'') (drop 2 rest) else [])"

definition netloc_host :: "string \<Rightarrow> string" where
  "netloc_host netloc =
     (let hostinfo = after_last CHR ''@'' netloc
      in if CHR ''['' \<in> set hostinfo
         then takeWhile (\<lambda>c. c \<noteq> CHR '']'') (tl (dropWhile (\<lambda>c. c \<noteq> CHR ''['') hostinfo))
         else takeWhile (\<lambda>c. c \<noteq> CHR '':'') hostinfo)"

definition url_hostname :: "string \<Rightarrow> string option" where
  "url_hostname u =
     (let netloc = netloc_of u
      in if (CHR ''['' \<in> set netloc) \<noteq> (CHR '']'' \<in> set netloc) then None
         else Some (netloc_host netloc))"

definition extract_host :: "string \<Rightarrow> string option" where
  "extract_host target =
     (if target = [] then Some []
      else let candidate = (if sublist ''//'' target then target else ''//'' @ target)
           in (case url_hostname candidate of
                 None \<Rightarrow> None
               | Some host \<Rightarrow> Some (if host \<noteq> [] then casefold host else casefold (strip target))))"

text \<open>A reserved domain, a name under one, or a name under a reserved TLD.\<close>

definition under_reserved :: "string \<Rightarrow> bool" where
  "under_reserved d \<longleftrightarrow>
     d \<in> set RESERVED_DOMAINS \<or>
     list_ex (\<lambda>r. suffix (CHR ''.'' # r) d) RESERVED_DOMAINS \<or>
     after_last CHR ''.'' d \<in> set RESERVED_TLDS"

text \<open>The IPv4 address an IPv4-mapped IPv6 address carries is the one that is judged.\<close>

fun judged :: "ip \<Rightarrow> ip_flags" where
  "judged (IPv4 f) = f"
| "judged (IPv6 f None) = f"
| "judged (IPv6 f (Some g)) = g"

definition ip_of_host :: "netlib \<Rightarrow> string \<Rightarrow> ip option" where
  "ip_of_host N host =
     lib_ip_address N (takeWhile (\<lambda>c. c \<noteq> CHR ''%'') (strip_chars ''[]'' host))"

definition is_reserved_or_private_host :: "netlib \<Rightarrow> string \<Rightarrow> bool" where
  "is_reserved_or_private_host N host0 =
     (if host0 = [] then False
      else let host = rstrip_chars ''.'' host0
           in (case ip_of_host N host of
                 Some a \<Rightarrow> (let f = judged a in ip_private f \<or> ip_loopback f \<or> ip_link_local f \<or>
                   ip_reserved f \<or> ip_unspecified f)
               | None \<Rightarrow> host = ''localhost'' \<or> CHR ''.'' \<notin> set host \<or> under_reserved host))"

definition address_is_private :: "netlib \<Rightarrow> string \<Rightarrow> bool" where
  "address_is_private N address =
     (case lib_ip_address N (takeWhile (\<lambda>c. c \<noteq> CHR ''%'') address) of
        None \<Rightarrow> False
      | Some a \<Rightarrow> (let f = judged a in ip_private f \<or> ip_loopback f \<or> ip_link_local f))"

definition host_key :: "string \<Rightarrow> string" where
  "host_key host = rstrip_chars ''.'' (casefold (strip host))"

definition is_private_host :: "netlib \<Rightarrow> string \<Rightarrow> bool" where
  "is_private_host N host0 =
     (let host = host_key host0
      in if host = [] then False
         else if is_reserved_or_private_host N host then True
         else if ip_of_host N host \<noteq> None then False
         else let addresses = lib_resolve N host
              in if addresses = [] then False else list_all (address_is_private N) addresses)"

datatype guard_error =
    UnconfiguredTarget string
  | NonReservedHost string
  | NoTarget
  | PublicHost string
  | PublicLoadTest string "string list"
  | BadUrl string
  | NothingVerified
  | EmptyAddress
  | NotSynthetic string

definition require_configured_target ::
  "netlib \<Rightarrow> string \<Rightarrow> string list \<Rightarrow> bool \<Rightarrow> guard_error + string"
where
  "require_configured_target N target allowed allow_public_hosts =
     (if target \<notin> set allowed then Inl (UnconfiguredTarget target)
      else (case extract_host target of
              None \<Rightarrow> Inl (BadUrl target)
            | Some host \<Rightarrow>
                if \<not> allow_public_hosts \<and> \<not> is_reserved_or_private_host N host
                then Inl (NonReservedHost host) else Inr target))"

section \<open>Synthetic content\<close>

text \<open>\<open>address.rpartition("@")\<close> leaves the local part empty when there is no separator, so
  one test covers the missing separator and the empty local part.\<close>

definition is_synthetic_address :: "string \<Rightarrow> bool" where
  "is_synthetic_address address =
     (let loc = (if CHR ''@'' \<in> set address then before_last CHR ''@'' address else []);
          domain0 = after_last CHR ''@'' address
      in if CHR ''@'' \<notin> set address \<or> loc = [] \<or> domain0 = [] then False
         else let domain = host_key domain0
              in if domain = [] then False else under_reserved domain)"

fun str_vals :: "pyval list \<Rightarrow> string list option" where
  "str_vals [] = Some []"
| "str_vals (PStr s # vs) = map_option (Cons s) (str_vals vs)"
| "str_vals (v # vs) = None"

definition extract_addresses :: "netlib \<Rightarrow> pyval list \<Rightarrow> string list" where
  "extract_addresses N vs =
     (case str_vals vs of None \<Rightarrow> [] | Some fieldvalues \<Rightarrow> lib_addresses N fieldvalues)"

fun blank_field :: "pyval \<Rightarrow> bool" where
  "blank_field (PStr s) \<longleftrightarrow> strip s = []"
| "blank_field _ \<longleftrightarrow> False"

fun check_addresses :: "string list \<Rightarrow> guard_error + unit" where
  "check_addresses [] = Inr ()"
| "check_addresses (a # as) =
     (if a = [] then Inl EmptyAddress
      else if \<not> is_synthetic_address a then Inl (NotSynthetic a)
      else check_addresses as)"

definition require_synthetic_content :: "netlib \<Rightarrow> pyval list \<Rightarrow> guard_error + unit" where
  "require_synthetic_content N emails =
     (let addresses = extract_addresses N (filter (\<lambda>v. \<not> blank_field v) emails)
      in if addresses = [] then Inl NothingVerified else check_addresses addresses)"

text \<open>Every address-bearing field of every message of a run, in the order they are put to
  the check.\<close>

definition address_fields :: "email \<Rightarrow> string list" where
  "address_fields e =
     [em_to e, em_from_addr e, env_from_addr (em_envelope e)] @ env_to (em_envelope e)"

definition require_synthetic :: "netlib \<Rightarrow> email list \<Rightarrow> guard_error + unit" where
  "require_synthetic N emails =
     require_synthetic_content N (map PStr (concat (map address_fields emails)))"

section \<open>Targets\<close>

record target =
  tg_name :: string
  tg_url :: string
  tg_wire_format :: string
  tg_public :: bool

record resolved_target =
  rt_name :: string
  rt_url :: string
  rt_format_name :: string
  rt_public :: bool

datatype target_error = Guard guard_error | Config string

definition host_is_public :: "netlib \<Rightarrow> string \<Rightarrow> bool option" where
  "host_is_public N url = map_option (\<lambda>h. \<not> is_private_host N h) (extract_host url)"

text \<open>The configuration is what \<open>load_config\<close> returns: an error, or the declared targets.\<close>

definition resolve_target ::
  "netlib \<Rightarrow> string option \<Rightarrow> string + (string \<rightharpoonup> target) \<Rightarrow> bool \<Rightarrow> string \<Rightarrow>
     target_error + resolved_target"
where
  "resolve_target N target_name config allow_public_target load_tool =
     (case target_name of
        None \<Rightarrow> Inl (Guard NoTarget)
      | Some name \<Rightarrow>
          if name = [] then Inl (Guard NoTarget)
          else (case config of
            Inl e \<Rightarrow> Inl (Config e)
          | Inr targets \<Rightarrow> (case targets name of
              None \<Rightarrow> Inl (Guard (UnconfiguredTarget name))
            | Some t \<Rightarrow> (case extract_host (tg_url t) of
                None \<Rightarrow> Inl (Guard (BadUrl (tg_url t)))
              | Some host \<Rightarrow>
                  (let public = \<not> is_private_host N host;
                       missing = (if allow_public_target then [] else [''--allow-public-target'']) @
                         (if tg_public t then [] else [''public = true in [targets.'' @ name @ '']''])
                   in if public \<and> load_tool = ''barrage'' \<and> missing \<noteq> []
                      then Inl (Guard (PublicLoadTest host missing))
                      else if public \<and> load_tool \<noteq> ''barrage'' \<and> \<not> allow_public_target
                      then Inl (Guard (PublicHost host))
                      else Inr \<lparr>rt_name = name, rt_url = tg_url t,
                        rt_format_name = tg_wire_format t, rt_public = public\<rparr>)))))"

section \<open>Names as labels\<close>

text \<open>The specification reads a domain as its dot-separated labels.\<close>

fun labels :: "string \<Rightarrow> string list" where
  "labels [] = [[]]"
| "labels (c # cs) = (if c = CHR ''.'' then [] # labels cs else extend_word c (labels cs))"

definition reserved_labels :: "string list \<Rightarrow> bool" where
  "reserved_labels ls \<longleftrightarrow> last ls \<in> {''test'', ''invalid'', ''example'', ''localhost''} \<or>
     (\<exists>t \<in> {''com'', ''net'', ''org'', ''edu''}. suffix [''example'', t] ls)"

lemma labels_ne [simp]: "labels s \<noteq> []"
  by (cases s) auto

lemma labels_append: "labels (a @ CHR ''.'' # b) = labels a @ labels b"
  by (induction a) auto

lemma labels_no_dot: "CHR ''.'' \<notin> set s \<Longrightarrow> labels s = [s]"
  by (induction s) auto

lemma join_extend_word: "ws \<noteq> [] \<Longrightarrow> join sep (extend_word c ws) = c # join sep ws"
  by (cases ws rule: remdups_adj.cases) auto

lemma takeWhile_none [simp]: "d \<notin> set b \<Longrightarrow> takeWhile (\<lambda>c. c \<noteq> d) b = b"
  by (auto simp: takeWhile_eq_all_conv)

lemma dropWhile_none [simp]: "d \<notin> set b \<Longrightarrow> dropWhile (\<lambda>c. c \<noteq> d) b = []"
  by auto

lemma join_labels: "join ''.'' (labels s) = s"
proof (induction s)
  case (Cons c s)
  have "join ''.'' ([] # labels s) = CHR ''.'' # join ''.'' (labels s)"
    by (cases "labels s") auto
  with Cons show ?case by (simp add: join_extend_word del: extend_word.simps)
qed simp

lemma last_labels: "last (labels s) = after_last CHR ''.'' s"
proof (cases "CHR ''.'' \<in> set s")
  case False
  then show ?thesis by (simp add: labels_no_dot after_last_def)
next
  case True
  then obtain a b where s: "s = a @ CHR ''.'' # b" "CHR ''.'' \<notin> set b"
    using split_list_last by metis
  then have "takeWhile (\<lambda>c. c \<noteq> CHR ''.'') (rev s) = rev b"
    by (auto simp: takeWhile_tail)
  with s show ?thesis by (simp add: labels_append labels_no_dot after_last_def)
qed

lemma two_labels: "CHR ''.'' \<notin> set a \<Longrightarrow> CHR ''.'' \<notin> set b \<Longrightarrow>
    labels (a @ CHR ''.'' # b) = [a, b]"
  by (simp add: labels_append labels_no_dot)

lemma under_domain_labels:
  assumes "CHR ''.'' \<notin> set a" "CHR ''.'' \<notin> set b"
  shows "d = a @ CHR ''.'' # b \<or> suffix (CHR ''.'' # a @ CHR ''.'' # b) d \<longleftrightarrow> suffix [a, b] (labels d)"
proof
  assume "d = a @ CHR ''.'' # b \<or> suffix (CHR ''.'' # a @ CHR ''.'' # b) d"
  then show "suffix [a, b] (labels d)"
    by (auto simp: suffix_def labels_append two_labels labels_no_dot assms)
next
  assume "suffix [a, b] (labels d)"
  then obtain ls where ls: "labels d = ls @ [a, b]" by (auto simp: suffix_def)
  then have "d = join ''.'' (ls @ [a, b])" by (metis join_labels)
  then show "d = a @ CHR ''.'' # b \<or> suffix (CHR ''.'' # a @ CHR ''.'' # b) d"
    by (cases "ls = []") (auto simp: join_append suffix_def)
qed

lemma under_reserved_labels: "under_reserved d \<longleftrightarrow> reserved_labels (labels d)"
proof -
  have a: "(d = ''example.'' @ t \<or> suffix (''.example.'' @ t) d) \<longleftrightarrow> suffix [''example'', t] (labels d)"
    if "CHR ''.'' \<notin> set t" for t
    using under_domain_labels [of "''example''" t d] that by simp
  have "under_reserved d \<longleftrightarrow>
      (d = ''example.'' @ ''com'' \<or> suffix (''.example.'' @ ''com'') d) \<or>
      (d = ''example.'' @ ''net'' \<or> suffix (''.example.'' @ ''net'') d) \<or>
      (d = ''example.'' @ ''org'' \<or> suffix (''.example.'' @ ''org'') d) \<or>
      (d = ''example.'' @ ''edu'' \<or> suffix (''.example.'' @ ''edu'') d) \<or>
      after_last CHR ''.'' d \<in> set RESERVED_TLDS"
    unfolding under_reserved_def RESERVED_DOMAINS_def list_ex_iff
    by (simp only: list.set insert_iff empty_iff bex_simps append_Cons append_Nil simp_thms) argo
  also have "\<dots> \<longleftrightarrow> reserved_labels (labels d)"
    by (subst a, simp)+ (simp only: reserved_labels_def last_labels RESERVED_TLDS_def list.set
      bex_simps simp_thms, argo)
  finally show ?thesis .
qed

lemma after_last_app [simp]: "d \<notin> set b \<Longrightarrow> after_last d (a @ d # b) = b"
  by (simp add: after_last_def takeWhile_append2 takeWhile_tail)

lemma before_last_app [simp]: "d \<notin> set b \<Longrightarrow> before_last d (a @ d # b) = a"
  by (simp add: before_last_def dropWhile_append2 dropWhile_append)

lemma not_reserved_Nil: "\<not> under_reserved []"
  by (simp add: under_reserved_labels reserved_labels_def suffix_def)

text \<open>What a synthetic address is. An address passes the guardrail exactly when it has a
  local part and a domain whose labels, trimmed, lowered and without trailing dots, end
  in a reserved TLD or in \<open>example.com\<close>, \<open>.net\<close>, \<open>.org\<close> or \<open>.edu\<close>: a look-alike such as
  \<open>notexample.com\<close> or \<open>example.com.evil.io\<close> does not pass.\<close>

theorem synthetic_iff_reserved_labels:
  "is_synthetic_address address \<longleftrightarrow> (\<exists>l d. address = l @ ''@'' @ d \<and> l \<noteq> [] \<and>
     CHR ''@'' \<notin> set d \<and> reserved_labels (labels (rstrip_chars ''.'' (casefold (strip d)))))"
  (is "_ \<longleftrightarrow> ?R")
proof (cases "CHR ''@'' \<in> set address")
  case False
  then show ?thesis by (auto simp: is_synthetic_address_def)
next
  case True
  then obtain l d where a: "address = l @ CHR ''@'' # d" "CHR ''@'' \<notin> set d"
    using split_list_last by metis
  have "d \<noteq> [] \<and> host_key d \<noteq> []" if "under_reserved (host_key d)"
  proof -
    have "host_key d \<noteq> []" using that by (rule contrapos_pn) (simp add: not_reserved_Nil)
    moreover from this have "d \<noteq> []"
      by (cases d) (auto simp: host_key_def rstrip_chars_def strip_def lstrip_def rstrip_def)
    ultimately show ?thesis by simp
  qed
  then have "is_synthetic_address address \<longleftrightarrow> l \<noteq> [] \<and> under_reserved (host_key d)"
    using a by (auto simp: is_synthetic_address_def Let_def)
  moreover have "?R \<longleftrightarrow> l \<noteq> [] \<and> under_reserved (host_key d)"
  proof
    assume ?R
    then obtain l' d' where r: "address = l' @ ''@'' @ d'" "l' \<noteq> []" "CHR ''@'' \<notin> set d'"
      "reserved_labels (labels (rstrip_chars ''.'' (casefold (strip d'))))" by blast
    have "after_last CHR ''@'' address = d'" "before_last CHR ''@'' address = l'"
      using r(1,3) by simp_all
    moreover have "after_last CHR ''@'' address = d" "before_last CHR ''@'' address = l"
      using a by simp_all
    ultimately show "l \<noteq> [] \<and> under_reserved (host_key d)"
      using r by (simp add: under_reserved_labels host_key_def)
  next
    assume "l \<noteq> [] \<and> under_reserved (host_key d)"
    then show ?R
      using a by (intro exI [of _ l] exI [of _ d]) (simp add: under_reserved_labels host_key_def)
  qed
  ultimately show ?thesis by simp
qed

text \<open>The words in the property above, at work on the look-alikes.\<close>

lemma look_alikes:
  "is_synthetic_address ''a@mail.Example.COM.''" "\<not> is_synthetic_address ''a@notexample.com''"
  "\<not> is_synthetic_address ''a@example.com.evil.io''" "is_synthetic_address ''a@b@shop.test''"
  by code_simp+

lemma check_addresses_ok:
  "check_addresses as = Inr () \<longleftrightarrow> (\<forall>a \<in> set as. is_synthetic_address a)"
  by (induction as) (auto simp: is_synthetic_address_def)

lemma str_vals_map [simp]: "str_vals (map PStr ss) = Some ss"
  by (induction ss) auto

lemma filter_blank [simp]:
  "filter (\<lambda>v. \<not> blank_field v) (map PStr ss) = map PStr (filter (\<lambda>s. strip s \<noteq> []) ss)"
  by (induction ss) auto

lemma filter_comprehension: "filter P xs = concat (map (\<lambda>x. if P x then [x] else []) xs)"
  by (induction xs) auto

lemma require_synthetic_spec:
  "require_synthetic N emails = Inr () \<longleftrightarrow>
     (let fields = [f. e \<leftarrow> emails, f \<leftarrow> em_to e # em_from_addr e #
            env_from_addr (em_envelope e) # env_to (em_envelope e), strip f \<noteq> []];
          found = lib_addresses N fields
      in found \<noteq> [] \<and> (\<forall>a \<in> set found. is_synthetic_address a))"
proof -
  have "filter (\<lambda>s. strip s \<noteq> []) (concat (map address_fields emails)) =
      [f. e \<leftarrow> emails, f \<leftarrow> em_to e # em_from_addr e #
            env_from_addr (em_envelope e) # env_to (em_envelope e), strip f \<noteq> []]"
    unfolding filter_concat map_map
    by (intro arg_cong [where f = concat] map_cong refl)
      (simp add: filter_comprehension address_fields_def)
  then show ?thesis
    by (simp add: require_synthetic_def require_synthetic_content_def extract_addresses_def
        check_addresses_ok Let_def)
qed

text \<open>C13 (no message with a real address is sent). The check over a run accepts exactly when
  the address parser finds at least one address in the fields that are not blank - To,
  From, envelope sender and every envelope recipient of every message - and every address
  it finds, not only the first of a field, is synthetic. It fails closed: nothing found is
  a refusal.\<close>

theorem require_synthetic_iff:
  "require_synthetic N emails = Inr () \<longleftrightarrow>
     (let fields = [f. e \<leftarrow> emails, f \<leftarrow> em_to e # em_from_addr e #
            env_from_addr (em_envelope e) # env_to (em_envelope e), strip f \<noteq> []];
          found = lib_addresses N fields
      in found \<noteq> [] \<and> (\<forall>a \<in> set found. is_synthetic_address a))"
  by (rule require_synthetic_spec)

section \<open>The host a URL is judged by\<close>

text \<open>Characters that end or bracket the network location, and those \<open>urlsplit\<close> removes.\<close>

definition plain_part :: "string \<Rightarrow> bool" where
  "plain_part s \<longleftrightarrow> (\<forall>c \<in> set s. c \<notin> set ''/?#[]'' \<and> c \<notin> {CHR 0x09, CHR 0x0A, CHR 0x0D})"

lemma plain_part_append [simp]: "plain_part (a @ b) \<longleftrightarrow> plain_part a \<and> plain_part b"
  by (auto simp: plain_part_def)

lemma plain_part_brackets: "plain_part s \<Longrightarrow> CHR ''['' \<notin> set s \<and> CHR '']'' \<notin> set s"
  by (force simp: plain_part_def)

lemma takeWhile_upto:
  "\<forall>c \<in> set a. P c \<Longrightarrow> rest = [] \<or> \<not> P (hd rest) \<Longrightarrow> takeWhile P (a @ rest) = a"
  by (cases rest) (auto simp: takeWhile_append2 takeWhile_tail)

lemma netloc_of_http:
  assumes sch: "scheme = ''http'' \<or> scheme = ''https''"
    and loc: "plain_part loc" and rest: "rest = [] \<or> hd rest \<in> set ''/?#''"
  shows "netloc_of (scheme @ ''://'' @ loc @ rest) = loc"
proof -
  let ?ok = "\<lambda>c. c \<notin> {CHR 0x09, CHR 0x0A, CHR 0x0D :: char}"
  let ?r = "filter ?ok rest"
  have "filter ?ok loc = loc"
    using loc by (auto simp: plain_part_def intro: filter_True)
  then have "url_clean (scheme @ ''://'' @ loc @ rest) = scheme @ ''://'' @ loc @ ?r"
    using sch by (auto simp: url_clean_def)
  moreover have "drop_scheme (scheme @ ''://'' @ loc @ ?r) = ''//'' @ loc @ ?r"
    using sch by (auto simp: drop_scheme_def is_alpha_def is_scheme_char_def is_digit_def)
  moreover have "?r = [] \<or> hd ?r \<in> set ''/?#''"
    using rest by (cases rest) auto
  then have "takeWhile (\<lambda>c. c \<notin> set ''/?#'') (loc @ ?r) = loc"
    by (intro takeWhile_upto) (use loc in \<open>auto simp: plain_part_def\<close>)
  ultimately show ?thesis by (simp add: netloc_of_def)
qed

lemma netloc_host_at:
  assumes "CHR ''@'' \<notin> set (h @ port)" "CHR '':'' \<notin> set h" "CHR ''['' \<notin> set h"
    "port = [] \<or> hd port = CHR '':''" "CHR ''['' \<notin> set port"
    and user: "user = [] \<or> last user = CHR ''@''"
  shows "netloc_host (user @ h @ port) = h"
proof -
  have "after_last CHR ''@'' (user @ h @ port) = h @ port"
  proof (cases user rule: rev_cases)
    case Nil
    then show ?thesis using assms(1) by (simp add: after_last_def)
  next
    case (snoc u c)
    then show ?thesis using user after_last_app [OF assms(1), of u] by simp
  qed
  moreover have "takeWhile (\<lambda>c. c \<noteq> CHR '':'') (h @ port) = h"
    using assms by (intro takeWhile_upto) auto
  ultimately show ?thesis using assms by (simp add: netloc_host_def)
qed

text \<open>A target is judged by the host the request goes to. For an http or https URL whose
  authority is an optional user part, a host and an optional port, the host the guardrail
  judges is that host in lower case: neither credentials that look like an internal name
  nor a port, path, query or fragment can stand in for it.\<close>

theorem extract_host_of_url:
  assumes "scheme = ''http'' \<or> scheme = ''https''"
    and "user = [] \<or> last user = CHR ''@''" "port = [] \<or> hd port = CHR '':''"
    and "rest = [] \<or> hd rest \<in> set ''/?#''"
    and "plain_part user" "plain_part h" "plain_part port"
    and "CHR ''@'' \<notin> set (h @ port)" "CHR '':'' \<notin> set h" "h \<noteq> []"
  shows "extract_host (scheme @ ''://'' @ user @ h @ port @ rest) = Some (casefold h)"
proof -
  have n: "netloc_of (scheme @ ''://'' @ user @ h @ port @ rest) = user @ h @ port"
    using netloc_of_http [OF assms(1) _ assms(4), of "user @ h @ port"] assms(5-7) by simp
  have b: "CHR ''['' \<notin> set (user @ h @ port)" "CHR '']'' \<notin> set (user @ h @ port)"
    using assms(5-7) by (simp_all add: plain_part_brackets)
  have "sublist ''//'' (scheme @ ''://'' @ user @ h @ port @ rest)"
    unfolding sublist_def
    by (rule exI [of _ "scheme @ '':''"], rule exI [of _ "user @ h @ port @ rest"]) simp
  moreover have "netloc_host (user @ h @ port) = h"
    using b assms by (intro netloc_host_at) auto
  moreover have "scheme @ ''://'' @ user @ h @ port @ rest \<noteq> []" by simp
  ultimately show ?thesis
    unfolding extract_host_def url_hostname_def Let_def n using assms(10) b by (simp only: if_True
        if_False simp_thms option.case n)
qed

theorem extract_host_of_url_witness:
  "extract_host ''http://localhost@Evil.example.io:8080/local'' = Some ''evil.example.io''"
proof -
  have "casefold ''Evil.example.io'' = ''evil.example.io''" by code_simp
  with extract_host_of_url [of "''http''" "''localhost@''" "'':8080''" "''/local''" "''Evil.example.io''"]
  show ?thesis by (simp add: plain_part_def)
qed

section \<open>Consent\<close>

text \<open>A host that is not public, in words: reserved or internal by name, a literal address
  that is not public, or a name all of whose addresses are private and that has one.\<close>

definition internal_host :: "netlib \<Rightarrow> string \<Rightarrow> bool" where
  "internal_host N host \<longleftrightarrow> host \<noteq> [] \<and>
     (case ip_of_host N host of
        Some a \<Rightarrow> is_reserved_or_private_host N host
      | None \<Rightarrow> is_reserved_or_private_host N host \<or>
          (lib_resolve N host \<noteq> [] \<and> (\<forall>x \<in> set (lib_resolve N host). address_is_private N x)))"

lemma is_private_host_internal: "is_private_host N h \<longleftrightarrow> internal_host N (host_key h)"
  by (auto simp: is_private_host_def internal_host_def Let_def list_all_iff split: option.splits)

lemma unresolvable_is_public:
  "ip_of_host N (host_key h) = None \<Longrightarrow> \<not> is_reserved_or_private_host N (host_key h) \<Longrightarrow>
     lib_resolve N (host_key h) = [] \<Longrightarrow> \<not> is_private_host N h"
  by (simp add: is_private_host_internal internal_host_def)

lemma resolve_target_spec:
  "resolve_target N target_name config allow tool = Inr r \<longleftrightarrow>
     (\<exists>name targets t host. target_name = Some name \<and> name \<noteq> [] \<and> config = Inr targets \<and>
        targets name = Some t \<and> extract_host (tg_url t) = Some host \<and>
        (internal_host N (host_key host) \<or> (allow \<and> (tool = ''barrage'' \<longrightarrow> tg_public t))) \<and>
        rt_name r = name \<and> rt_url r = tg_url t \<and> rt_format_name r = tg_wire_format t \<and>
        rt_public r = (\<not> internal_host N (host_key host)))"
  by (cases r; cases "tool = ''barrage''") (auto simp: resolve_target_def Let_def
      is_private_host_internal split: option.splits sum.splits if_splits)

text \<open>C12 (a public host needs consent). A name resolves to a target exactly when it is
  declared in the configuration, its URL has a host, and that host is internal or the run
  carries the public-target flag - and for the load tester the target's own table says so
  as well. The resolved target carries the configured URL and says whether the host is
  public.\<close>

theorem resolve_target_iff:
  "resolve_target N target_name config allow tool = Inr r \<longleftrightarrow>
     (\<exists>name targets t host. target_name = Some name \<and> name \<noteq> [] \<and> config = Inr targets \<and>
        targets name = Some t \<and> extract_host (tg_url t) = Some host \<and>
        (internal_host N (host_key host) \<or> (allow \<and> (tool = ''barrage'' \<longrightarrow> tg_public t))) \<and>
        rt_name r = name \<and> rt_url r = tg_url t \<and> rt_format_name r = tg_wire_format t \<and>
        rt_public r = (\<not> internal_host N (host_key host)))"
  by (rule resolve_target_spec)

text \<open>A small network for the witnesses: no address literals, one address per field, and
  one public name.\<close>

definition sample_net :: netlib where
  "sample_net = \<lparr>lib_ip_address = (\<lambda>_. None), lib_addresses = (\<lambda>fs. fs),
     lib_resolve = (\<lambda>h. [])\<rparr>"

definition sample_target :: target where
  "sample_target = \<lparr>tg_name = ''prod'', tg_url = ''https://in.acme.io/hook'',
     tg_wire_format = ''sendgrid'', tg_public = False\<rparr>"

theorem resolve_target_iff_witness:
  "resolve_target sample_net (Some ''prod'') (Inr [''prod'' \<mapsto> sample_target]) True ''barrage'' \<noteq>
     Inr \<lparr>rt_name = ''prod'', rt_url = ''https://in.acme.io/hook'', rt_format_name = ''sendgrid'',
       rt_public = True\<rparr> \<and>
   resolve_target sample_net (Some ''prod'') (Inr [''prod'' \<mapsto> sample_target]) True ''blast'' =
     Inr \<lparr>rt_name = ''prod'', rt_url = ''https://in.acme.io/hook'', rt_format_name = ''sendgrid'',
       rt_public = True\<rparr>"
proof -
  have h: "extract_host ''https://in.acme.io/hook'' = Some ''in.acme.io''" by code_simp
  have i: "\<not> internal_host sample_net (host_key ''in.acme.io'')" by code_simp
  show ?thesis by (simp add: resolve_target_iff h i sample_target_def)
qed

theorem require_synthetic_iff_witness:
  "\<exists>e. require_synthetic sample_net [e] = Inr () \<and>
     require_synthetic sample_net [e\<lparr>em_to := ''a@real.io''\<rparr>] \<noteq> Inr ()"
proof -
  let ?e = "\<lparr>em_to = ''in@shop.test'', em_from_addr = ''a@example.com'', em_subject = [],
    em_text = [], em_html = [],
    em_envelope = \<lparr>env_to = [''in@shop.test''], env_from_addr = ''a@example.com''\<rparr>,
    em_ground_truth = \<lparr>gt_from_addr = [], gt_subject = [], gt_body_core = []\<rparr>,
    em_headers = [], em_charsets = [], em_attachments = [], em_raw_fields = [],
    em_extra_form_fields = []\<rparr>"
  have a: "is_synthetic_address ''in@shop.test''" "is_synthetic_address ''a@example.com''"
    "\<not> is_synthetic_address ''a@real.io''"
    by code_simp+
  have s: "strip ''in@shop.test'' \<noteq> []" "strip ''a@example.com'' \<noteq> []" "strip ''a@real.io'' \<noteq> []"
    by code_simp+
  have "require_synthetic sample_net [?e] = Inr ()"
    using a s by (simp add: require_synthetic_iff address_fields_def sample_net_def)
  moreover have "require_synthetic sample_net [?e\<lparr>em_to := ''a@real.io''\<rparr>] \<noteq> Inr ()"
    using a s by (simp add: require_synthetic_iff address_fields_def sample_net_def)
  ultimately show ?thesis by blast
qed

end
