(* ===== verification/Rate_Limit.thy ===== *)
theory Rate_Limit
  imports Prelude
begin

text \<open>The client-side token bucket of \<open>core/ratelimit.py\<close>, and the contract that
  \<open>core/guardrails.py\<close> gives every rate limiter (\<open>RateLimitGate\<close>).

  Clock and sleep are injected into the code, so they are parameters here: a record of two
  functions on a world the model does not look into. Reading the clock may itself take
  time. \<open>monotonic\<close> is what Python documents of \<open>time.monotonic\<close> and \<open>time.sleep\<close>: the
  clock does not go back, and a sleep lasts at least as long as it was asked to. Times and
  token counts are exact rationals where the code has floats. The lock is not modelled: an
  operation is one atomic step, which is what the lock makes of it; \<open>acquire\<close> gives the
  lock up while it sleeps, so it is a loop of such steps (\<open>acquire_pass\<close>).

  The contract is the locale \<open>rate_gate\<close>: what a gate grants over time is bounded by the
  credit it starts with and by its rate. Both ways to take tokens are interpretations.\<close>

section \<open>Clocks\<close>

record 'w timing =
  read_clock :: "'w \<Rightarrow> seconds \<times> 'w"
  do_sleep :: "seconds \<Rightarrow> 'w \<Rightarrow> 'w"

definition monotonic :: "'w timing \<Rightarrow> ('w \<Rightarrow> seconds) \<Rightarrow> bool" where
  "monotonic T now \<longleftrightarrow>
     (\<forall>w. now w \<le> fst (read_clock T w) \<and> fst (read_clock T w) \<le> now (snd (read_clock T w))) \<and>
     (\<forall>s w. 0 \<le> s \<longrightarrow> now w + s \<le> now (do_sleep T s w))"

text \<open>The purely additive clock the tests inject: the world is the time.\<close>

definition additive :: "seconds timing" where
  "additive = \<lparr>read_clock = (\<lambda>t. (t, t)), do_sleep = (\<lambda>s t. t + s)\<rparr>"

lemma monotonic_additive: "monotonic additive (\<lambda>t. t)"
  by (simp add: monotonic_def additive_def)

lemma monotonic_clock:
  assumes "monotonic T now" "read_clock T w = (t, w')"
  shows "now w \<le> t" "t \<le> now w'"
  using assms unfolding monotonic_def by (metis fst_conv, metis fst_conv snd_conv)

lemma monotonic_sleep: "monotonic T now \<Longrightarrow> 0 \<le> s \<Longrightarrow> now w + s \<le> now (do_sleep T s w)"
  by (simp add: monotonic_def)

section \<open>The bucket\<close>

definition MIN_WAIT :: seconds where "MIN_WAIT = 1 / 1000000000"

lemma MIN_WAIT_pos: "0 < MIN_WAIT"
  by (simp add: MIN_WAIT_def)

record bucket =
  bk_rate :: rat
  bk_capacity :: rat
  bk_tokens :: rat
  bk_last_refill :: seconds

datatype rate_error = BadRate rat | BadCapacity rat | BadTokens int | OverCapacity int rat

definition new_bucket :: "'w timing \<Rightarrow> rat \<Rightarrow> rat \<Rightarrow> 'w \<Rightarrow> (rate_error + bucket) \<times> 'w" where
  "new_bucket T rate capacity w =
     (if rate \<le> 0 then (Inl (BadRate rate), w)
      else if capacity \<le> 0 then (Inl (BadCapacity capacity), w)
      else (case read_clock T w of (t, w') \<Rightarrow>
        (Inr \<lparr>bk_rate = rate, bk_capacity = capacity, bk_tokens = capacity,
              bk_last_refill = t\<rparr>, w')))"

definition refill :: "seconds \<Rightarrow> bucket \<Rightarrow> bucket" where
  "refill t b =
     (let elapsed = t - bk_last_refill b
      in if 0 < elapsed
         then b\<lparr>bk_tokens := min (bk_capacity b) (bk_tokens b + elapsed * bk_rate b),
                bk_last_refill := t\<rparr>
         else b)"

definition set_rate :: "'w timing \<Rightarrow> rat \<Rightarrow> bucket \<Rightarrow> 'w \<Rightarrow> (rate_error + bucket) \<times> 'w" where
  "set_rate T rate b w =
     (if rate \<le> 0 then (Inl (BadRate rate), w)
      else (case read_clock T w of (t, w') \<Rightarrow> (Inr ((refill t b)\<lparr>bk_rate := rate\<rparr>), w')))"

definition wait_time :: "'w timing \<Rightarrow> int \<Rightarrow> bucket \<Rightarrow> 'w \<Rightarrow> (rate_error + seconds \<times> bucket) \<times> 'w" where
  "wait_time T n b w =
     (if n \<le> 0 then (Inl (BadTokens n), w)
      else (case read_clock T w of (t, w') \<Rightarrow>
        (let b' = refill t b; deficit = of_int n - bk_tokens b'
         in (Inr (if deficit \<le> 0 then 0 else deficit / bk_rate b', b'), w'))))"

text \<open>What \<open>try_acquire\<close> does with the lock held, at a clock reading.\<close>

definition try_take :: "seconds \<Rightarrow> int \<Rightarrow> bucket \<Rightarrow> bool \<times> bucket" where
  "try_take t n b =
     (let b' = refill t b
      in if of_int n \<le> bk_tokens b'
         then (True, b'\<lparr>bk_tokens := bk_tokens b' - of_int n\<rparr>) else (False, b'))"

definition try_acquire :: "'w timing \<Rightarrow> int \<Rightarrow> bucket \<Rightarrow> 'w \<Rightarrow> (rate_error + bool \<times> bucket) \<times> 'w" where
  "try_acquire T n b w =
     (if n \<le> 0 then (Inl (BadTokens n), w)
      else (case read_clock T w of (t, w') \<Rightarrow> (Inr (try_take t n b), w')))"

text \<open>One pass of the loop of \<open>acquire\<close>: the seconds still to wait, or none when the
  tokens were handed over.\<close>

definition acquire_pass :: "seconds \<Rightarrow> int \<Rightarrow> bucket \<Rightarrow> seconds option \<times> bucket" where
  "acquire_pass t n b =
     (let b' = refill t b
      in if of_int n \<le> bk_tokens b'
         then (None, b'\<lparr>bk_tokens := bk_tokens b' - of_int n\<rparr>)
         else let remaining = (of_int n - bk_tokens b') / bk_rate b'
              in if remaining \<le> MIN_WAIT then (None, b'\<lparr>bk_tokens := 0\<rparr>)
                 else (Some remaining, b'))"

text \<open>The loop may run forever under a clock that stands still, so its value is an option.\<close>

partial_function (option) acquire_loop ::
  "'w timing \<Rightarrow> int \<Rightarrow> seconds \<Rightarrow> bucket \<Rightarrow> 'w \<Rightarrow> (seconds \<times> bucket \<times> 'w) option"
where
  "acquire_loop T n waited b w =
     (case read_clock T w of (t, w1) \<Rightarrow>
        (case acquire_pass t n b of
           (None, b') \<Rightarrow> Some (waited, b', w1)
         | (Some remaining, b') \<Rightarrow>
             acquire_loop T n (waited + remaining) b' (do_sleep T remaining w1)))"

declare acquire_loop.simps [code]

definition acquire ::
  "'w timing \<Rightarrow> int \<Rightarrow> bucket \<Rightarrow> 'w \<Rightarrow> ((rate_error + seconds) \<times> bucket \<times> 'w) option"
where
  "acquire T n b w =
     (if n \<le> 0 then Some (Inl (BadTokens n), b, w)
      else if bk_capacity b < of_int n then Some (Inl (OverCapacity n (bk_capacity b)), b, w)
      else map_option (\<lambda>(waited, b', w'). (Inr waited, b', w')) (acquire_loop T n 0 b w))"

section \<open>The invariant\<close>

definition bucket_ok :: "bucket \<Rightarrow> bool" where
  "bucket_ok b \<longleftrightarrow> 0 < bk_rate b \<and> 0 < bk_capacity b \<and> 0 \<le> bk_tokens b \<and>
     bk_tokens b \<le> bk_capacity b"

lemma new_bucket_ok: "new_bucket T r c w = (Inr b, w') \<Longrightarrow> bucket_ok b"
  by (auto simp: new_bucket_def bucket_ok_def split: if_splits prod.splits)

lemma refill_simps [simp]:
  "bk_rate (refill t b) = bk_rate b" "bk_capacity (refill t b) = bk_capacity b"
  "bk_last_refill (refill t b) = max t (bk_last_refill b)"
  by (simp_all add: refill_def Let_def)

lemma refill_ok: "bucket_ok b \<Longrightarrow> bucket_ok (refill t b)"
  by (auto simp: refill_def bucket_ok_def Let_def)

lemma refill_mono: "bucket_ok b \<Longrightarrow> bk_tokens b \<le> bk_tokens (refill t b)"
  by (auto simp: refill_def bucket_ok_def Let_def)

lemma refill_tokens:
  "bucket_ok b \<Longrightarrow> bk_tokens (refill t b) =
     min (bk_capacity b) (bk_tokens b + max 0 (t - bk_last_refill b) * bk_rate b)"
  by (auto simp: refill_def bucket_ok_def Let_def)

lemma refill_growth:
  assumes "bucket_ok b" "t \<le> t'"
  shows "bk_tokens (refill t' b) \<le> bk_tokens (refill t b) + bk_rate b * (t' - t)"
proof -
  have "max 0 (t' - bk_last_refill b) \<le> max 0 (t - bk_last_refill b) + (t' - t)"
    using assms(2) by (auto simp: max_def)
  then have "max 0 (t' - bk_last_refill b) * bk_rate b \<le>
      (max 0 (t - bk_last_refill b) + (t' - t)) * bk_rate b"
    using assms(1) by (intro mult_right_mono) (auto simp: bucket_ok_def)
  moreover have "0 \<le> bk_rate b * (t' - t)" using assms by (simp add: bucket_ok_def)
  ultimately show ?thesis by (simp add: refill_tokens assms(1) algebra_simps min_def)
qed

lemma refill_idem: "refill t (refill t b) = refill t b"
  by (simp add: refill_def Let_def)

section \<open>The contract of a rate limiter\<close>

text \<open>A gate takes operations at clock readings that do not go back. Each operation grants a
  number of tokens (none, for a refusal or a question) and pays for them with the gate's
  credit; between operations the credit grows at the rate at most. An operation may
  overdraw by the slack.\<close>

primrec run_gate :: "(seconds \<Rightarrow> 'o \<Rightarrow> 'b \<Rightarrow> int \<times> 'b) \<Rightarrow> (seconds \<times> 'o) list \<Rightarrow> 'b \<Rightarrow> int \<times> 'b"
where
  "run_gate step [] b = (0, b)"
| "run_gate step (x # xs) b =
     (case step (fst x) (snd x) b of (n, b') \<Rightarrow>
        (case run_gate step xs b' of (m, b'') \<Rightarrow> (n + m, b'')))"

locale rate_gate =
  fixes step :: "seconds \<Rightarrow> 'o \<Rightarrow> 'b \<Rightarrow> int \<times> 'b"
    and allowed :: "'o \<Rightarrow> bool"
    and ok :: "'b \<Rightarrow> bool"
    and credit :: "seconds \<Rightarrow> 'b \<Rightarrow> rat"
    and rate :: rat
    and slack :: rat
  assumes credit_nonneg: "ok b \<Longrightarrow> 0 \<le> credit t b"
    and credit_grows: "ok b \<Longrightarrow> t \<le> t' \<Longrightarrow> credit t' b \<le> credit t b + rate * (t' - t)"
    and step_ok: "ok b \<Longrightarrow> allowed x \<Longrightarrow> step t x b = (n, b') \<Longrightarrow> ok b'"
    and step_pays: "ok b \<Longrightarrow> allowed x \<Longrightarrow> step t x b = (n, b') \<Longrightarrow>
      credit t b' + of_int n \<le> credit t b + slack"
begin

lemma run_ok:
  "ok b \<Longrightarrow> \<forall>x \<in> set xs. allowed (snd x) \<Longrightarrow> run_gate step xs b = (n, b') \<Longrightarrow> ok b'"
  by (induction xs arbitrary: b n) (auto split: prod.splits dest: step_ok)

lemma grants_bounded:
  assumes "ok b" "\<forall>x \<in> set xs. allowed (snd x)" "sorted (t # map fst xs @ [t'])"
    and "run_gate step xs b = (n, b')"
  shows "of_int n \<le> credit t b + rate * (t' - t) + of_nat (length xs) * slack"
proof -
  have "credit t' b' + of_int n \<le> credit t b + rate * (t' - t) + of_nat (length xs) * slack"
    using assms
  proof (induction xs arbitrary: b t n)
    case Nil
    then show ?case using credit_grows [of b t t'] by simp
  next
    case (Cons x xs)
    obtain m b1 where m: "step (fst x) (snd x) b = (m, b1)" by fastforce
    obtain k where k: "run_gate step xs b1 = (k, b')" "n = m + k"
      using Cons.prems(4) m by (auto split: prod.splits)
    have "ok b1" using step_ok [OF _ _ m] Cons.prems by simp
    then have "credit t' b' + of_int k \<le>
        credit (fst x) b1 + rate * (t' - fst x) + of_nat (length xs) * slack"
      using Cons.IH [of b1 "fst x" k] k Cons.prems by simp
    moreover have "credit (fst x) b1 + of_int m \<le> credit (fst x) b + slack"
      using step_pays [OF _ _ m] Cons.prems by simp
    moreover have "credit (fst x) b \<le> credit t b + rate * (fst x - t)"
      using credit_grows Cons.prems by simp
    ultimately show ?case by (simp add: k algebra_simps)
  qed
  moreover have "0 \<le> credit t' b'"
    using run_ok [OF assms(1,2,4)] credit_nonneg by simp
  ultimately show ?thesis by linarith
qed

end

text \<open>The steps threads can interleave on a shared bucket: the locked part of
  \<open>try_acquire\<close>, of \<open>wait_time\<close> and of \<open>set_rate\<close>, and one pass of \<open>acquire\<close>.\<close>

datatype gate_op = TryOp int | PassOp int | AskOp | RateOp rat

fun gate_step :: "seconds \<Rightarrow> gate_op \<Rightarrow> bucket \<Rightarrow> int \<times> bucket" where
  "gate_step t (TryOp n) b = (case try_take t n b of (got, b') \<Rightarrow> (if got then n else 0, b'))"
| "gate_step t (PassOp n) b =
     (case acquire_pass t n b of (None, b') \<Rightarrow> (n, b') | (Some _, b') \<Rightarrow> (0, b'))"
| "gate_step t AskOp b = (0, refill t b)"
| "gate_step t (RateOp q) b = (0, (refill t b)\<lparr>bk_rate := q\<rparr>)"

text \<open>The operations whose arguments pass the code's checks, with a rate not above \<open>r\<close>.\<close>

fun op_within :: "rat \<Rightarrow> gate_op \<Rightarrow> bool" where
  "op_within r (TryOp n) \<longleftrightarrow> 0 < n"
| "op_within r (PassOp n) \<longleftrightarrow> 0 < n"
| "op_within r AskOp \<longleftrightarrow> True"
| "op_within r (RateOp q) \<longleftrightarrow> 0 < q \<and> q \<le> r"

definition bucket_within :: "rat \<Rightarrow> bucket \<Rightarrow> bool" where
  "bucket_within r b \<longleftrightarrow> bucket_ok b \<and> bk_rate b \<le> r"

definition credit_at :: "seconds \<Rightarrow> bucket \<Rightarrow> rat" where
  "credit_at t b = bk_tokens (refill t b)"

fun never_waits :: "gate_op \<Rightarrow> bool" where
  "never_waits (PassOp n) \<longleftrightarrow> False"
| "never_waits _ \<longleftrightarrow> True"

lemma credit_at_nonneg: "bucket_within r b \<Longrightarrow> 0 \<le> credit_at t b"
  using refill_ok [of b t] by (simp add: bucket_within_def credit_at_def bucket_ok_def)

lemma credit_at_grows:
  assumes "bucket_within r b" "t \<le> t'"
  shows "credit_at t' b \<le> credit_at t b + r * (t' - t)"
proof -
  have "bk_rate b * (t' - t) \<le> r * (t' - t)"
    using assms by (intro mult_right_mono) (auto simp: bucket_within_def)
  with refill_growth [of b t t'] assms show ?thesis
    by (simp add: bucket_within_def credit_at_def)
qed

lemma credit_at_now: "t \<le> bk_last_refill b \<Longrightarrow> credit_at t b = bk_tokens b"
  by (simp add: credit_at_def refill_def Let_def)

lemma take_ok:
  assumes "bucket_within r b" "of_int n \<le> bk_tokens (refill t b)" "0 < n"
  shows "bucket_within r ((refill t b)\<lparr>bk_tokens := bk_tokens (refill t b) - of_int n\<rparr>)"
  using assms refill_ok [of b t] by (auto simp: bucket_within_def bucket_ok_def)

lemma gate_step_ok:
  "bucket_within r b \<Longrightarrow> op_within r x \<Longrightarrow> gate_step t x b = (n, b') \<Longrightarrow> bucket_within r b'"
  using refill_ok [of b t] take_ok [of r b _ t]
  by (cases x) (auto simp: bucket_within_def bucket_ok_def try_take_def acquire_pass_def Let_def
      split: if_splits)

lemma sliver:
  assumes "bucket_ok b" "bk_rate b \<le> r" "x / bk_rate b \<le> MIN_WAIT"
  shows "x \<le> r * MIN_WAIT"
proof -
  have "x \<le> MIN_WAIT * bk_rate b"
    using assms by (simp add: bucket_ok_def pos_divide_le_eq)
  also have "\<dots> \<le> MIN_WAIT * r"
    using assms(2) by (intro mult_left_mono) (auto simp: MIN_WAIT_def)
  finally show ?thesis by (simp add: mult.commute)
qed

lemma gate_step_pays:
  assumes "bucket_within r b" "op_within r x" "gate_step t x b = (n, b')"
  shows "credit_at t b' + of_int n \<le>
    credit_at t b + (if never_waits x then 0 else r * MIN_WAIT)"
proof -
  have ok: "bucket_ok (refill t b)" "bk_rate (refill t b) \<le> r"
    using assms(1) refill_ok by (auto simp: bucket_within_def)
  have "0 \<le> r * MIN_WAIT"
    using ok by (auto simp: bucket_ok_def MIN_WAIT_def)
  moreover have "0 \<le> bk_tokens (refill t b)" using ok by (simp add: bucket_ok_def)
  moreover have "of_int m \<le> bk_tokens (refill t b) + r * MIN_WAIT"
    if "(of_int m - bk_tokens (refill t b)) / bk_rate b \<le> MIN_WAIT" for m
    using sliver [OF ok, of "of_int m - bk_tokens (refill t b)"] that by simp
  ultimately show ?thesis
    using assms(3)
    by (cases x) (auto simp: try_take_def acquire_pass_def Let_def credit_at_now
        credit_at_def [of t b] split: if_splits)
qed

interpretation bucket_gate: rate_gate gate_step "op_within r" "bucket_within r" credit_at r
  "r * MIN_WAIT" for r
proof unfold_locales
  fix b x t n b'
  assume "bucket_within r b" "op_within r x" "gate_step t x b = (n, b')"
  moreover from this have "0 \<le> r * MIN_WAIT"
    by (auto simp: bucket_within_def bucket_ok_def MIN_WAIT_def)
  ultimately show "credit_at t b' + of_int n \<le> credit_at t b + r * MIN_WAIT"
    using gate_step_pays [of r b x t n b'] by (auto split: if_splits)
qed (auto intro: credit_at_nonneg credit_at_grows dest: gate_step_ok)

interpretation try_gate: rate_gate gate_step "\<lambda>x. op_within r x \<and> never_waits x"
  "bucket_within r" credit_at r 0 for r
proof unfold_locales
  fix b x t n b'
  assume "bucket_within r b" "op_within r x \<and> never_waits x" "gate_step t x b = (n, b')"
  then show "credit_at t b' + of_int n \<le> credit_at t b + 0"
    using gate_step_pays [of r b x t n b'] by simp
qed (auto intro: credit_at_nonneg credit_at_grows dest: gate_step_ok)

section \<open>Properties\<close>

text \<open>C10 (no interleaving grants more than the rate allows). However the calls of any number
  of threads on one shared bucket are interleaved - passes of \<open>acquire\<close>, \<open>try_acquire\<close>,
  \<open>wait_time\<close> and \<open>set_rate\<close> up to the rate \<open>r\<close> - the tokens granted by time \<open>t'\<close> are at
  most the capacity plus \<open>r\<close> times the time passed, plus one nanosecond's worth of tokens
  for each call; without the nanoseconds when nobody calls the blocking \<open>acquire\<close>.\<close>

theorem grants_within_rate:
  assumes "bucket_ok b" "bk_rate b \<le> r" "\<forall>x \<in> set xs. op_within r (snd x)"
    and "sorted (t # map fst xs @ [t'])" "run_gate gate_step xs b = (n, b')"
  shows "bucket_ok b' \<and>
    of_int n \<le> bk_capacity b + r * (t' - t) + of_nat (length xs) * (r * MIN_WAIT) \<and>
    ((\<forall>x \<in> set xs. never_waits (snd x)) \<longrightarrow> of_int n \<le> bk_capacity b + r * (t' - t))"
proof -
  have b: "bucket_within r b" using assms by (simp add: bucket_within_def)
  have "credit_at t b \<le> bk_capacity b"
    using refill_ok [OF assms(1), of t] by (simp add: credit_at_def bucket_ok_def)
  moreover have "bucket_ok b'"
    using bucket_gate.run_ok [OF b assms(3,5)] by (simp add: bucket_within_def)
  ultimately show ?thesis
    using bucket_gate.grants_bounded [OF b assms(3-5)]
      try_gate.grants_bounded [OF b _ assms(4,5)] assms(3) by fastforce
qed

definition sample_bucket :: bucket where
  "sample_bucket = \<lparr>bk_rate = 2, bk_capacity = 2, bk_tokens = 2, bk_last_refill = 10\<rparr>"

lemma sample_bucket_ok: "bucket_ok sample_bucket"
  by (simp add: bucket_ok_def sample_bucket_def)

theorem grants_within_rate_witness:
  "fst (run_gate gate_step [(10, TryOp 2), (10, TryOp 1), (11, PassOp 2)] sample_bucket) = 4 \<and>
   (4 :: rat) \<le> 2 + 2 * (11 - 10) + 3 * (2 * MIN_WAIT)"
proof -
  let ?xs = "[(10, TryOp 2), (10, TryOp 1), (11, PassOp 2)]"
  have run: "run_gate gate_step ?xs sample_bucket =
      (4, \<lparr>bk_rate = 2, bk_capacity = 2, bk_tokens = 0, bk_last_refill = 11\<rparr>)"
    by (simp add: try_take_def acquire_pass_def refill_def sample_bucket_def)
  have "of_int 4 \<le> bk_capacity sample_bucket + 2 * (11 - 10) + of_nat (length ?xs) * (2 * MIN_WAIT)"
    using grants_within_rate [OF sample_bucket_ok _ _ _ run, of 2 10 11]
    by (simp add: sample_bucket_def)
  then show ?thesis unfolding run by (simp add: sample_bucket_def)
qed

text \<open>What one \<open>acquire\<close> sleeps for: the deficit at its first reading of the clock, or
  nothing when that is rounded off.\<close>

definition first_wait :: "'w timing \<Rightarrow> int \<Rightarrow> bucket \<Rightarrow> 'w \<Rightarrow> seconds" where
  "first_wait T n b w =
     (let d = (of_int n - credit_at (fst (read_clock T w)) b) / bk_rate b
      in if d \<le> MIN_WAIT then 0 else d)"

lemma acquire_pass_None:
  assumes "bucket_ok b" "(of_int n - credit_at t b) / bk_rate b \<le> MIN_WAIT"
  shows "fst (acquire_pass t n b) = None"
  using assms by (simp add: acquire_pass_def Let_def credit_at_def)

lemma acquire_pass_Some:
  assumes "bucket_ok b" "\<not> (of_int n - credit_at t b) / bk_rate b \<le> MIN_WAIT"
  shows "acquire_pass t n b = (Some ((of_int n - credit_at t b) / bk_rate b), refill t b)"
proof -
  have "\<not> of_int n \<le> credit_at t b"
  proof
    assume "of_int n \<le> credit_at t b"
    then have "(of_int n - credit_at t b) / bk_rate b \<le> 0"
      using assms(1) by (simp add: bucket_ok_def divide_le_0_iff)
    with assms(2) MIN_WAIT_pos show False by linarith
  qed
  then show ?thesis using assms(2) by (simp add: acquire_pass_def Let_def credit_at_def)
qed

lemma acquire_pass_granted:
  assumes "acquire_pass t n b = (None, b')" "bucket_ok b" "0 < n"
  shows "bucket_ok b' \<and> bk_rate b' = bk_rate b \<and> bk_capacity b' = bk_capacity b \<and>
    bk_last_refill b' = max t (bk_last_refill b)"
proof -
  have "gate_step t (PassOp n) b = (n, b')" using assms(1) by simp
  with gate_step_ok [of "bk_rate b" b "PassOp n" t n b'] assms(2,3)
  have "bucket_ok b'" by (simp add: bucket_within_def)
  with assms(1) show ?thesis by (auto simp: acquire_pass_def Let_def split: if_splits)
qed

text \<open>After sleeping for the deficit, the second reading finds the tokens there.\<close>

lemma covered_after_wait:
  assumes ok: "bucket_ok b" "of_int n \<le> bk_capacity b"
    and t: "bk_last_refill b \<le> t" "t + (of_int n - credit_at t b) / bk_rate b \<le> t'"
    and pos: "0 < (of_int n - credit_at t b) / bk_rate b"
  shows "of_int n \<le> credit_at t' (refill t b)"
proof -
  let ?b = "refill t b"
  have r: "0 < bk_rate b" using ok by (simp add: bucket_ok_def)
  have "(of_int n - credit_at t b) / bk_rate b \<le> t' - t" using t by simp
  then have "of_int n - credit_at t b \<le> (t' - t) * bk_rate b"
    using r by (simp add: pos_divide_le_eq)
  moreover have "t < t'" using t(2) pos by linarith
  moreover have "credit_at t' ?b = min (bk_capacity b) (credit_at t b + (t' - t) * bk_rate b)"
    using \<open>t < t'\<close> t(1) refill_tokens [OF refill_ok [OF ok(1)], of t' t]
    by (simp add: credit_at_def)
  ultimately show ?thesis using ok(2) by simp
qed

lemma acquire_ends:
  assumes T: "monotonic T now" and ok: "bucket_ok b" "bk_last_refill b \<le> now w"
  shows "\<exists>r b' w'. acquire T n b w = Some (r, b', w') \<and> bucket_ok b' \<and>
    bk_rate b' = bk_rate b \<and> bk_capacity b' = bk_capacity b \<and> bk_last_refill b' \<le> now w' \<and>
    (if n \<le> 0 then r = Inl (BadTokens n) \<and> b' = b \<and> w' = w
     else if bk_capacity b < of_int n
          then r = Inl (OverCapacity n (bk_capacity b)) \<and> b' = b \<and> w' = w
     else r = Inr (first_wait T n b w) \<and> now w + first_wait T n b w \<le> now w')"
proof (cases "0 < n \<and> of_int n \<le> bk_capacity b")
  case False
  then show ?thesis using ok by (auto simp: acquire_def not_less)
next
  case True
  obtain t w1 where c1: "read_clock T w = (t, w1)" by fastforce
  note t = monotonic_clock [OF T c1]
  let ?d = "(of_int n - credit_at t b) / bk_rate b"
  show ?thesis
  proof (cases "?d \<le> MIN_WAIT")
    case True: True
    obtain b' where p: "acquire_pass t n b = (None, b')"
      using acquire_pass_None [OF ok(1) True] by (metis prod.collapse)
    have "acquire_loop T n 0 b w = Some (0, b', w1)"
      by (subst acquire_loop.simps) (simp add: c1 p)
    then show ?thesis
      using acquire_pass_granted [OF p ok(1)] \<open>0 < n \<and> of_int n \<le> bk_capacity b\<close> True t ok(2)
      by (simp add: acquire_def first_wait_def c1 Let_def)
  next
    case False
    let ?w = "do_sleep T ?d w1" and ?b = "refill t b"
    have pos: "0 < ?d" using False MIN_WAIT_pos by linarith
    obtain t' w2 where c2: "read_clock T ?w = (t', w2)" by fastforce
    note t' = monotonic_clock [OF T c2]
    have late: "t + ?d \<le> t'" using monotonic_sleep [OF T, of ?d w1] pos t t' by linarith
    have "of_int n \<le> credit_at t' ?b"
      using covered_after_wait [OF ok(1) conjunct2 [OF True] _ late pos] ok(2) t by simp
    then have "(of_int n - credit_at t' ?b) / bk_rate ?b \<le> MIN_WAIT"
      using ok(1) by (simp add: bucket_ok_def MIN_WAIT_def divide_nonpos_pos
          order_trans [where y = 0])
    with acquire_pass_None refill_ok [OF ok(1)]
    obtain b' where p: "acquire_pass t' n ?b = (None, b')" by (metis prod.collapse)
    have "acquire_loop T n 0 b w = Some (?d, b', w2)"
      by (subst acquire_loop.simps, subst acquire_loop.simps)
        (simp add: c1 acquire_pass_Some [OF ok(1) False] c2 p)
    then show ?thesis
      using acquire_pass_granted [OF p refill_ok [OF ok(1)]] True False t t' late ok(2) pos
      by (simp add: acquire_def first_wait_def c1 Let_def)
  qed
qed

text \<open>\<open>acquire\<close> returns. Under a clock that does not go back and a sleep that lasts as
  long as it was asked to, \<open>acquire\<close> of an amount the bucket can hold always returns: it
  sleeps at most once, for exactly the deficit it first saw, reports that as the seconds
  waited, and leaves the bucket well-formed. Amounts that are not positive or exceed the
  capacity are refused without touching the bucket.\<close>

theorem acquire_returns:
  assumes T: "monotonic T now" and ok: "bucket_ok b" "bk_last_refill b \<le> now w"
  shows "\<exists>r b' w'. acquire T n b w = Some (r, b', w') \<and> bucket_ok b' \<and>
    bk_rate b' = bk_rate b \<and> bk_capacity b' = bk_capacity b \<and> bk_last_refill b' \<le> now w' \<and>
    (if n \<le> 0 then r = Inl (BadTokens n) \<and> b' = b \<and> w' = w
     else if bk_capacity b < of_int n
          then r = Inl (OverCapacity n (bk_capacity b)) \<and> b' = b \<and> w' = w
     else r = Inr (first_wait T n b w) \<and> now w + first_wait T n b w \<le> now w')"
  using acquire_ends [OF assms] .

theorem acquire_returns_witness:
  "\<exists>b' w'. acquire additive 2 (sample_bucket\<lparr>bk_tokens := 0\<rparr>) 10 = Some (Inr 1, b', w') \<and> bucket_ok b'"
proof -
  let ?b = "sample_bucket\<lparr>bk_tokens := 0\<rparr>"
  have "first_wait additive 2 ?b 10 = 1"
    by (simp add: first_wait_def additive_def credit_at_def refill_def sample_bucket_def MIN_WAIT_def)
  moreover have "bucket_ok ?b" by (simp add: bucket_ok_def sample_bucket_def)
  moreover have "bk_last_refill ?b \<le> 10" by (simp add: sample_bucket_def)
  ultimately show ?thesis
    using acquire_returns [OF monotonic_additive, of ?b 10 2] by (auto simp: sample_bucket_def)
qed

end
