(* ===== verification/Sending.thy ===== *)
theory Sending
  imports Rate_Limit Readback Payload
begin

text \<open>Sending: one request (\<open>post\<close> in \<open>core/transport.py\<close>) and the paced, serial loop the
  pipeline tools fire their messages with (\<open>send_all\<close>, \<open>status_class\<close> in
  \<open>pipeline/common.py\<close>).

  The HTTP client is injected in the code and a parameter here; building the request body
  belongs to the wire formats and is a parameter too. The world is the one the clock and
  the sleep run on.\<close>

section \<open>One request\<close>

record transport_result =
  tr_status :: "int option"
  tr_latency_ms :: rat
  tr_body_snippet :: string
  tr_error :: "string option"
  tr_sent :: bool

text \<open>A client answers with a status and a body, or raises.\<close>

datatype client_reply = Reply int bytes | Raised string

definition content_snippet :: "bytes \<Rightarrow> string" where
  "content_snippet body = take 200 body"

definition post ::
  "'w timing \<Rightarrow> ('q \<Rightarrow> 'w \<Rightarrow> client_reply \<times> 'w) \<Rightarrow> (email \<Rightarrow> 'q) \<Rightarrow> email \<Rightarrow> 'w \<Rightarrow>
     transport_result \<times> 'w"
where
  "post T client build payload w =
     (let request = build payload
      in case read_clock T w of (start, w1) \<Rightarrow>
        (case client request w1 of (reply, w2) \<Rightarrow>
          (case read_clock T w2 of (stop, w3) \<Rightarrow>
            (case reply of
               Raised e \<Rightarrow>
                 (\<lparr>tr_status = None, tr_latency_ms = (stop - start) * 1000, tr_body_snippet = [],
                   tr_error = Some e, tr_sent = True\<rparr>, w3)
             | Reply status body \<Rightarrow>
                 (\<lparr>tr_status = Some status, tr_latency_ms = (stop - start) * 1000,
                   tr_body_snippet = content_snippet body, tr_error = None, tr_sent = True\<rparr>, w3)))))"

datatype status_class = Timeout | Ok2xx | Client4xx | Server5xx | OtherStatus int

definition status_class :: "transport_result \<Rightarrow> status_class" where
  "status_class r =
     (case tr_status r of
        None \<Rightarrow> Timeout
      | Some status \<Rightarrow>
          if 200 \<le> status \<and> status < 300 then Ok2xx
          else if 400 \<le> status \<and> status < 500 then Client4xx
          else if 500 \<le> status \<and> status < 600 then Server5xx
          else OtherStatus status)"

section \<open>The paced loop\<close>

record sent_message =
  sm_index :: nat
  sm_record_id :: string
  sm_tag :: string
  sm_email :: email
  sm_probe :: probe
  sm_result :: transport_result

type_synonym item = "email \<times> string \<times> string \<times> probe"

text \<open>The loop of \<open>send_all\<close> from an index on. Only \<open>acquire\<close> can raise or not return.\<close>

fun send_from ::
  "'w timing \<Rightarrow> ('q \<Rightarrow> 'w \<Rightarrow> client_reply \<times> 'w) \<Rightarrow> (email \<Rightarrow> 'q) \<Rightarrow> nat \<Rightarrow> item list \<Rightarrow> bucket \<Rightarrow> 'w \<Rightarrow>
     ((rate_error + sent_message list) \<times> bucket \<times> 'w) option"
where
  "send_from T client build k [] b w = Some (Inr [], b, w)"
| "send_from T client build k ((email, tag, record_id, probe) # items) b w =
     (case acquire T 1 b w of
        None \<Rightarrow> None
      | Some (Inl e, b1, w1) \<Rightarrow> Some (Inl e, b1, w1)
      | Some (Inr _, b1, w1) \<Rightarrow>
          (case post T client build email w1 of (result, w2) \<Rightarrow>
            (case send_from T client build (Suc k) items b1 w2 of
               None \<Rightarrow> None
             | Some (Inl e, b2, w3) \<Rightarrow> Some (Inl e, b2, w3)
             | Some (Inr sent, b2, w3) \<Rightarrow>
                 Some (Inr (\<lparr>sm_index = k, sm_record_id = record_id, sm_tag = tag,
                   sm_email = email, sm_probe = probe, sm_result = result\<rparr> # sent), b2, w3))))"

definition send_all ::
  "'w timing \<Rightarrow> ('q \<Rightarrow> 'w \<Rightarrow> client_reply \<times> 'w) \<Rightarrow> (email \<Rightarrow> 'q) \<Rightarrow> item list \<Rightarrow> rat \<Rightarrow> 'w \<Rightarrow>
     ((rate_error + sent_message list) \<times> 'w) option"
where
  "send_all T client build items rate w =
     (case new_bucket T rate (max rate 1) w of
        (Inl e, w1) \<Rightarrow> Some (Inl e, w1)
      | (Inr b, w1) \<Rightarrow>
          map_option (\<lambda>(r, b', w'). (r, w')) (send_from T client build 0 items b w1))"

section \<open>What an acquire pays\<close>

text \<open>The tokens a bucket holds less what the time so far was worth: refilling does not
  raise it, and taking a token lowers it.\<close>

definition balance :: "bucket \<Rightarrow> rat" where
  "balance b = bk_tokens b - bk_rate b * bk_last_refill b"

lemma refill_balance: "bucket_ok b \<Longrightarrow> balance (refill t b) \<le> balance b"
  using refill_tokens [of b t]
  by (auto simp: balance_def bucket_ok_def max_def algebra_simps)

lemma acquire_pass_balance:
  assumes "bucket_ok b" "acquire_pass t n b = (None, b')"
  shows "balance b' + of_int n \<le> balance b + bk_rate b * MIN_WAIT"
proof -
  have r: "balance (refill t b) \<le> balance b" "bucket_ok (refill t b)"
    using refill_balance refill_ok assms(1) by auto
  have "0 < bk_rate b * MIN_WAIT"
    using assms(1) MIN_WAIT_pos by (simp add: bucket_ok_def)
  moreover have "of_int n - bk_tokens (refill t b) \<le> bk_rate b * MIN_WAIT"
    if "(of_int n - bk_tokens (refill t b)) / bk_rate b \<le> MIN_WAIT"
    using sliver [OF r(2) _, of "bk_rate b" "of_int n - bk_tokens (refill t b)"] that by simp
  ultimately show ?thesis
    using assms(2) r(1) by (auto simp: acquire_pass_def Let_def balance_def split: if_splits)
qed

lemma acquire_loop_balance:
  assumes "acquire_loop T n wd b w = Some (waited, b', w')" "bucket_ok b"
  shows "balance b' + of_int n \<le> balance b + bk_rate b * MIN_WAIT"
proof -
  let ?P = "\<lambda>T n wd b w r. bucket_ok b \<longrightarrow>
    balance (fst (snd r)) + of_int n \<le> balance b + bk_rate b * MIN_WAIT"
  have "?P T n wd b w (waited, b', w')"
  proof (rule acquire_loop.raw_induct [where P = ?P, OF _ assms(1)], intro impI)
    fix loop T n wd b w r
    assume IH: "\<And>T n wd b w r. loop T n wd b w = Some r \<Longrightarrow> ?P T n wd b w r"
      and step: "(case read_clock T w of (t, w1) \<Rightarrow>
          case acquire_pass t n b of (None, b') \<Rightarrow> Some (wd, b', w1)
          | (Some remaining, b') \<Rightarrow> loop T n (wd + remaining) b' (do_sleep T remaining w1)) =
        Some r"
      and ok: "bucket_ok b"
    obtain t w1 where c: "read_clock T w = (t, w1)" by fastforce
    obtain o' b1 where p: "acquire_pass t n b = (o', b1)" by fastforce
    show "balance (fst (snd r)) + of_int n \<le> balance b + bk_rate b * MIN_WAIT"
    proof (cases o')
      case None
      with step c p acquire_pass_balance [OF ok, of t n] show ?thesis by auto
    next
      case (Some d)
      with p have "b1 = refill t b" by (auto simp: acquire_pass_def Let_def split: if_splits)
      moreover have "loop T n (wd + d) b1 (do_sleep T d w1) = Some r"
        using step c p Some by simp
      ultimately show ?thesis
        using IH [of T n "wd + d" b1 "do_sleep T d w1"] refill_ok [OF ok, of t]
          refill_balance [OF ok, of t] by fastforce
    qed
  qed
  with assms(2) show ?thesis by simp
qed

section \<open>The loop\<close>

text \<open>A client that takes its time, but does not turn the clock back.\<close>

definition patient :: "('w \<Rightarrow> seconds) \<Rightarrow> ('q \<Rightarrow> 'w \<Rightarrow> 'r \<times> 'w) \<Rightarrow> bool" where
  "patient now client \<longleftrightarrow> (\<forall>q w. now w \<le> now (snd (client q w)))"

lemma post_patient:
  assumes "monotonic T now" "patient now client"
  shows "now w \<le> now (snd (post T client build e w))"
proof -
  obtain t w1 where 1: "read_clock T w = (t, w1)" by fastforce
  obtain r w2 where 2: "client (build e) w1 = (r, w2)" by fastforce
  obtain t' w3 where 3: "read_clock T w2 = (t', w3)" by fastforce
  have "now w1 \<le> now w2" using assms(2) 2 unfolding patient_def by (metis snd_conv)
  with monotonic_clock [OF assms(1) 1] monotonic_clock [OF assms(1) 3] show ?thesis
    by (auto simp: post_def 1 2 3 split: client_reply.split)
qed

definition sent_item :: "sent_message \<Rightarrow> item" where
  "sent_item s = (sm_email s, sm_tag s, sm_record_id s, sm_probe s)"

lemma sent_item_simp:
  "sent_item \<lparr>sm_index = k, sm_record_id = rid, sm_tag = tag, sm_email = e, sm_probe = p,
     sm_result = r\<rparr> = (e, tag, rid, p)"
  by (simp add: sent_item_def)

lemma acquire_one:
  assumes "monotonic T now" "bucket_ok b" "1 \<le> bk_capacity b" "bk_last_refill b \<le> now w"
  obtains b1 w1 where "acquire T 1 b w = Some (Inr (first_wait T 1 b w), b1, w1)"
    and "bucket_ok b1" "bk_rate b1 = bk_rate b" "bk_capacity b1 = bk_capacity b"
    and "bk_last_refill b1 \<le> now w1" "now w \<le> now w1"
    and "balance b1 + 1 \<le> balance b + bk_rate b * MIN_WAIT"
proof -
  from acquire_ends [OF assms(1,2,4), of 1] assms(3)
  obtain b1 w1 where a: "acquire T 1 b w = Some (Inr (first_wait T 1 b w), b1, w1)"
    and b1: "bucket_ok b1" "bk_rate b1 = bk_rate b" "bk_capacity b1 = bk_capacity b"
      "bk_last_refill b1 \<le> now w1" "now w + first_wait T 1 b w \<le> now w1" by auto
  obtain w0 waited where "acquire_loop T 1 0 b w = Some (waited, b1, w0)"
    using a assms(3) by (auto simp: acquire_def)
  from acquire_loop_balance [OF this assms(2)]
  have pay: "balance b1 + 1 \<le> balance b + bk_rate b * MIN_WAIT" by simp
  have "0 \<le> first_wait T 1 b w"
    using MIN_WAIT_pos by (simp add: first_wait_def Let_def)
  with b1(5) have "now w \<le> now w1" by linarith
  from that [OF a b1(1-4) this pay] show thesis .
qed

text \<open>What a bucket has paid out by the time it is at.\<close>

lemma balance_at:
  assumes "bucket_ok b" "bk_last_refill b \<le> t"
  shows "- (bk_rate b * t) \<le> balance b"
proof -
  have "bk_rate b * bk_last_refill b \<le> bk_rate b * t"
    using assms by (intro mult_left_mono) (auto simp: bucket_ok_def)
  moreover have "0 \<le> bk_tokens b" using assms(1) by (simp add: bucket_ok_def)
  ultimately show ?thesis by (simp add: balance_def)
qed

text \<open>The moments the requests are made at: each posts its own message, and by each of them
  the requests so far are within the burst and the rate.\<close>

definition paced_posts ::
  "'w timing \<Rightarrow> ('q \<Rightarrow> 'w \<Rightarrow> client_reply \<times> 'w) \<Rightarrow> (email \<Rightarrow> 'q) \<Rightarrow> ('w \<Rightarrow> seconds) \<Rightarrow> rat \<Rightarrow> rat \<Rightarrow>
     sent_message list \<Rightarrow> 'w list \<Rightarrow> bool"
where
  "paced_posts T client build now rate start sent us \<longleftrightarrow> length us = length sent \<and>
     (\<forall>i < length sent. sm_result (sent ! i) = fst (post T client build (sm_email (sent ! i)) (us ! i)) \<and>
       of_nat (Suc i) \<le> start + rate * now (us ! i) + of_nat (Suc i) * (rate * MIN_WAIT))"

lemma paced_posts_Cons:
  assumes "paced_posts T client build now rate start' sent us"
    and "start' + 1 \<le> start + rate * MIN_WAIT"
    and "sm_result m = fst (post T client build (sm_email m) u)"
    and "1 \<le> start + rate * now u + rate * MIN_WAIT"
  shows "paced_posts T client build now rate start (m # sent) (u # us)"
proof -
  have "of_nat (Suc (Suc i)) \<le> start + rate * now (us ! i) + of_nat (Suc (Suc i)) * (rate * MIN_WAIT)"
    if "i < length sent" for i
  proof -
    have "of_nat (Suc i) \<le> start' + rate * now (us ! i) + of_nat (Suc i) * (rate * MIN_WAIT)"
      using assms(1) that unfolding paced_posts_def by blast
    with assms(2) show ?thesis by (simp add: algebra_simps)
  qed
  with assms show ?thesis by (simp add: paced_posts_def All_less_Suc2)
qed

lemma send_from_all:
  assumes "monotonic T now" "patient now client" "bucket_ok b" "1 \<le> bk_capacity b"
    and "bk_last_refill b \<le> now w"
  shows "\<exists>sent us b' w'. send_from T client build k items b w = Some (Inr sent, b', w') \<and>
    map sent_item sent = items \<and> map sm_index sent = [k..<k + length items] \<and>
    sorted (map now (w # us @ [w'])) \<and>
    paced_posts T client build now (bk_rate b) (balance b) sent us"
  using assms
proof (induction items arbitrary: k b w)
  case Nil
  then show ?case by (auto simp: paced_posts_def)
next
  case (Cons x items)
  obtain e tag rid p where x: "x = (e, tag, rid, p)" by (cases x) auto
  obtain b1 w1 where a: "acquire T 1 b w = Some (Inr (first_wait T 1 b w), b1, w1)"
    and b1: "bucket_ok b1" "bk_rate b1 = bk_rate b" "bk_capacity b1 = bk_capacity b"
      "bk_last_refill b1 \<le> now w1" "now w \<le> now w1"
    and pay: "balance b1 + 1 \<le> balance b + bk_rate b * MIN_WAIT"
    using acquire_one [OF Cons.prems(1,3,4,5)] by blast
  obtain r w2 where r: "post T client build e w1 = (r, w2)" by fastforce
  then have w2: "now w1 \<le> now w2"
    using post_patient [OF Cons.prems(1,2), of w1 build e] by simp
  then have "bk_last_refill b1 \<le> now w2" using b1(4) by simp
  then obtain sent us b' w' where *: "send_from T client build (Suc k) items b1 w2 = Some (Inr sent, b', w')"
    "map sent_item sent = items" "map sm_index sent = [Suc k..<Suc k + length items]"
    "sorted (map now (w2 # us @ [w']))"
    "paced_posts T client build now (bk_rate b) (balance b1) sent us"
    using Cons.IH [OF Cons.prems(1,2) b1(1), of w2 "Suc k"] Cons.prems(4) b1(2,3) by auto
  let ?m = "\<lparr>sm_index = k, sm_record_id = rid, sm_tag = tag, sm_email = e, sm_probe = p, sm_result = r\<rparr>"
  have "1 \<le> balance b + bk_rate b * now w1 + bk_rate b * MIN_WAIT"
    using pay balance_at [OF b1(1,4)] b1(2) by simp
  then have "paced_posts T client build now (bk_rate b) (balance b) (?m # sent) (w1 # us)"
    using * r pay by (intro paced_posts_Cons) auto
  moreover have "sorted (map now (w # (w1 # us) @ [w']))"
    using *(4) w2 b1(5) by auto
  moreover have "[k..<k + length (x # items)] = k # [Suc k..<Suc k + length items]"
    by (simp add: upt_rec)
  moreover have "send_from T client build k (x # items) b w = Some (Inr (?m # sent), b', w')"
    using * by (simp add: x a r)
  moreover have "map sent_item (?m # sent) = x # items" using *(2) x by (simp add: sent_item_simp)
  moreover have "map sm_index (?m # sent) = k # [Suc k..<Suc k + length items]"
    using *(3) by (simp del: upt_Suc)
  ultimately show ?case by metis
qed

lemma send_all_run:
  assumes "monotonic T now" "patient now client" "0 < rate"
  shows "\<exists>sent us w'. send_all T client build items rate w = Some (Inr sent, w') \<and>
    map sent_item sent = items \<and> map sm_index sent = [0..<length items] \<and>
    sorted (map now (w # us @ [w'])) \<and>
    paced_posts T client build now rate (max rate 1 - rate * now w) sent us"
proof -
  obtain t w1 where c: "read_clock T w = (t, w1)" by fastforce
  let ?b = "\<lparr>bk_rate = rate, bk_capacity = max rate 1, bk_tokens = max rate 1, bk_last_refill = t\<rparr>"
  note t = monotonic_clock [OF assms(1) c]
  have "bucket_ok ?b" using assms(3) by (auto simp: bucket_ok_def max_def)
  from send_from_all [OF assms(1,2) this, of w1 build 0 items] t(2)
  obtain sent us b' w' where *: "send_from T client build 0 items ?b w1 = Some (Inr sent, b', w')"
    "map sent_item sent = items" "map sm_index sent = [0..<length items]"
    "sorted (map now (w1 # us @ [w']))" "paced_posts T client build now rate (balance ?b) sent us"
    by auto
  have le: "balance ?b \<le> max rate 1 - rate * now w"
    using t assms(3) by (simp add: balance_def mult_left_mono)
  have "paced_posts T client build now rate (max rate 1 - rate * now w) sent us"
    using *(5) le unfolding paced_posts_def by fastforce
  moreover have "sorted (map now (w # us @ [w']))" using *(4) t by auto
  moreover have "new_bucket T rate (max rate 1) w = (Inr ?b, w1)"
    using assms(3) by (simp add: new_bucket_def c)
  ultimately show ?thesis using *(1-3) by (auto simp: send_all_def)
qed

lemma send_all_returns:
  assumes "monotonic T now" "patient now client" "0 < rate"
  shows "\<exists>sent w'. send_all T client build items rate w = Some (Inr sent, w') \<and>
    map sent_item sent = items \<and> map sm_index sent = [0..<length items]"
  using send_all_run [OF assms] by blast


text \<open>A client for the witnesses that answers 200 after a tenth of a second.\<close>

definition quick_client :: "'q \<Rightarrow> seconds \<Rightarrow> client_reply \<times> seconds" where
  "quick_client q t = (Reply 200 [], t + 1 / 10)"

definition sample_item :: item where
  "sample_item = (sample_email, ''hq-0-0000'', ''clean-0-0000'',
     \<lparr>pr_record_id = ''clean-0-0000'', pr_tag = ''hq-0-0000'', pr_payload_sha256 = [],
       pr_from_addr = ''ann@example.com'', pr_subject = ''Printer broken'',
       pr_recipient = ''in@example.com'', pr_message_id = [], pr_attachment_names = []\<rparr>)"


end
