(* ===== verification/Poll.thy ===== *)
theory Poll
  imports Sending "HOL-Library.List_Lexorder" "HOL-Library.Char_ord" "HOL-Library.Product_Lexorder"
begin

text \<open>The readback phase of \<open>pipeline/common.py\<close>: polling the store until what it holds has
  been still for the quiet window (\<open>read_back_all\<close>), the sizing of the time budget, and
  how the end of the poll decides a tool's verdict.

  The adapter is a record of functions on the world the clock runs on: \<open>bind_clock\<close> (the
  identity for an adapter without one) and \<open>fetch\<close>, whose answer is a result, a budget that
  ran out inside the adapter, or a \<open>ReadbackError\<close>. \<open>repr\<close> is a parameter of the
  signature. The loop is a partial function on options: not returning is \<open>None\<close>. Sentences
  for people (\<open>reason\<close>, \<open>detail\<close>) are kept as the constructors they are chosen by and the
  numbers they are built from.\<close>

section \<open>Sizing the budget\<close>

definition DEFAULT_QUIET_WINDOW :: seconds where "DEFAULT_QUIET_WINDOW = 5"
definition DEFAULT_MAX_WAIT :: seconds where "DEFAULT_MAX_WAIT = 60"
definition DEFAULT_POLL_INTERVAL :: seconds where "DEFAULT_POLL_INTERVAL = 1 / 2"
definition MAX_WAIT_MARGIN :: rat where "MAX_WAIT_MARGIN = 1 / 4"

text \<open>The attributes of a readback configuration or adapter that \<open>adapter_rate\<close> looks at.\<close>

datatype rate_attr = NoRate | BoolRate bool | NumRate rat | OtherRate

record rate_source =
  rs_spec :: bool
  rs_kind :: "string option"
  rs_rate :: rate_attr

definition adapter_rate :: "rate_source option \<Rightarrow> rat option" where
  "adapter_rate rb =
     (case rb of
        None \<Rightarrow> None
      | Some r \<Rightarrow>
          if rs_spec r then None
          else if (case rs_kind r of None \<Rightarrow> ''http'' | Some k \<Rightarrow> k) \<noteq> ''http'' then None
          else (case rs_rate r of NumRate q \<Rightarrow> if 0 < q then Some q else None | _ \<Rightarrow> None))"

definition round_up :: "rat \<Rightarrow> nat \<Rightarrow> rat" where
  "round_up x places = of_int \<lceil>x * 10 ^ places - 1 / 1000000000\<rceil> / 10 ^ places"

text \<open>\<open>tags / rate if rate else 0.0\<close>.\<close>

definition per_poll :: "nat \<Rightarrow> rat option \<Rightarrow> seconds" where
  "per_poll tags rate =
     (case rate of Some q \<Rightarrow> if q = 0 then 0 else of_nat tags / q | None \<Rightarrow> 0)"

definition settle_time_needed :: "nat \<Rightarrow> rat option \<Rightarrow> seconds \<Rightarrow> seconds" where
  "settle_time_needed tags rate quiet_window = 2 * per_poll tags rate + quiet_window"

datatype max_wait_source = MaxWaitDefault | MaxWaitGiven

record max_wait =
  mw_seconds :: seconds
  mw_source :: max_wait_source
  mw_needed :: seconds
  mw_tags :: nat
  mw_rate :: "rat option"

definition mw_raised :: "max_wait \<Rightarrow> bool" where
  "mw_raised m \<longleftrightarrow> mw_source m = MaxWaitDefault \<and> DEFAULT_MAX_WAIT < mw_seconds m"

definition resolve_max_wait ::
  "seconds option \<Rightarrow> nat \<Rightarrow> rate_source option \<Rightarrow> seconds \<Rightarrow> max_wait"
where
  "resolve_max_wait given tags rb quiet_window =
     (let rate = adapter_rate rb; needed = settle_time_needed tags rate quiet_window
      in (case given of
            Some s \<Rightarrow> \<lparr>mw_seconds = s, mw_source = MaxWaitGiven, mw_needed = needed,
              mw_tags = tags, mw_rate = rate\<rparr>
          | None \<Rightarrow> \<lparr>mw_seconds = max DEFAULT_MAX_WAIT (round_up (needed * (1 + MAX_WAIT_MARGIN)) 0),
              mw_source = MaxWaitDefault, mw_needed = needed, mw_tags = tags, mw_rate = rate\<rparr>))"

record poll_settings =
  ps_quiet_window :: seconds
  ps_max_wait :: seconds
  ps_max_wait_source :: max_wait_source
  ps_poll_interval :: seconds

definition readback_poll_settings ::
  "nat \<Rightarrow> rate_source option \<Rightarrow> seconds \<Rightarrow> seconds option \<Rightarrow> seconds \<Rightarrow> poll_settings"
where
  "readback_poll_settings tags rb quiet_window given poll_interval =
     (let m = resolve_max_wait given tags rb quiet_window
      in \<lparr>ps_quiet_window = quiet_window, ps_max_wait = mw_seconds m,
          ps_max_wait_source = mw_source m, ps_poll_interval = poll_interval\<rparr>)"

text \<open>The advice: the \<open>--max-wait\<close> to raise to, and the \<open>--readback-rate\<close> that would do
  instead.\<close>

definition fit_advice ::
  "nat \<Rightarrow> rat option \<Rightarrow> seconds \<Rightarrow> seconds \<Rightarrow> seconds option \<Rightarrow> rat \<times> rat option"
where
  "fit_advice tags rate quiet_window max_wait per =
     (let p = (case per of Some p \<Rightarrow> p | None \<Rightarrow> per_poll tags rate);
          need = round_up (2 * p + quiet_window) 0
      in (need,
          (case rate of
             None \<Rightarrow> None
           | Some q \<Rightarrow>
               if q \<noteq> 0 \<and> tags \<noteq> 0 \<and> quiet_window < max_wait
               then (let needed = max (round_up (2 * of_nat tags / (max_wait - quiet_window)) 1) q
                     in if q < needed then Some needed else None)
               else None)))"

definition settle_time_warning ::
  "nat \<Rightarrow> rat option \<Rightarrow> seconds \<Rightarrow> seconds \<Rightarrow> (seconds \<times> rat \<times> rat option) option"
where
  "settle_time_warning tags rate quiet_window max_wait =
     (let need = settle_time_needed tags rate quiet_window
      in if need \<le> max_wait then None
         else Some (need, fit_advice tags rate quiet_window max_wait None))"

section \<open>The outcome and the verdict it decides\<close>

datatype unsettled_cause = StillChanging | NotEnoughTime

datatype unsettled_reason =
    TooFewPolls bool seconds
  | LastPollsDiffer
  | ChangedInWindow "seconds option"
  | WindowNotCovered nat

datatype unsettled_advice =
    Fit "rat \<times> rat option"
  | RaiseMaxWaitAboveWindow
  | RaiseMaxWaitTo rat

record outcome =
  ro_readbacks :: "(string \<times> readback list) list"
  ro_elapsed :: seconds
  ro_polls :: nat
  ro_stable :: bool
  ro_missing :: "string list"
  ro_budget_exhausted :: bool
  ro_partial :: "string list"
  ro_all_404 :: bool
  ro_detail :: "string option"
  ro_complete_polls :: nat
  ro_cause :: "unsettled_cause option"
  ro_reason :: "unsettled_reason option"
  ro_advice :: "unsettled_advice option"

abbreviation ro_unsettled :: "outcome \<Rightarrow> bool" where
  "ro_unsettled out \<equiv> \<not> ro_stable out"

abbreviation ro_failed :: "outcome \<Rightarrow> bool" where
  "ro_failed out \<equiv> ro_all_404 out"

datatype headline = All404Headline | UnsettledHeadline "unsettled_reason option" "unsettled_advice option" nat

definition ro_headline :: "outcome \<Rightarrow> headline option" where
  "ro_headline out =
     (if ro_all_404 out then Some All404Headline
      else if ro_unsettled out
      then Some (UnsettledHeadline (ro_reason out) (ro_advice out) (length (ro_missing out)))
      else None)"

datatype verdict_source = FromReadback | FromTool

text \<open>Verdicts are the strings the artifacts carry.\<close>

definition UNSETTLED :: string where "UNSETTLED = ''UNSETTLED''"
definition READBACK_FAILED :: string where "READBACK_FAILED = ''READBACK FAILED''"

definition readback_verdict :: "string \<Rightarrow> outcome option \<Rightarrow> string \<times> verdict_source" where
  "readback_verdict verdict out =
     (case out of
        None \<Rightarrow> (verdict, FromTool)
      | Some o' \<Rightarrow>
          if ro_failed o' then (READBACK_FAILED, FromReadback)
          else if ro_unsettled o' then (UNSETTLED, FromReadback)
          else (verdict, FromTool))"

definition readback_failed :: "outcome option \<Rightarrow> bool" where
  "readback_failed out \<longleftrightarrow> (case out of None \<Rightarrow> False | Some o' \<Rightarrow> ro_failed o')"

definition why_unsettled ::
  "nat \<Rightarrow> rat option \<Rightarrow> seconds \<Rightarrow> seconds \<Rightarrow> nat \<Rightarrow> seconds option \<Rightarrow> seconds \<Rightarrow> bool \<Rightarrow> bool \<Rightarrow>
     seconds option \<Rightarrow> unsettled_cause \<times> unsettled_reason \<times> unsettled_advice"
where
  "why_unsettled tags rate quiet_window max_wait ncomplete first_poll elapsed changed
       last_two_identical quiet_for =
     (if ncomplete < 2 then
        (let paced = (case rate of Some q \<Rightarrow> q \<noteq> 0 | None \<Rightarrow> False);
             per = (if paced then None
                    else Some (case first_poll of Some s \<Rightarrow> s | None \<Rightarrow> elapsed))
         in (NotEnoughTime,
             TooFewPolls paced (case per of Some p \<Rightarrow> p | None \<Rightarrow> per_poll tags rate),
             Fit (fit_advice tags rate quiet_window max_wait per)))
      else if \<not> last_two_identical then (StillChanging, LastPollsDiffer, RaiseMaxWaitAboveWindow)
      else if changed then (StillChanging, ChangedInWindow quiet_for, RaiseMaxWaitAboveWindow)
      else (NotEnoughTime, WindowNotCovered ncomplete,
            RaiseMaxWaitTo (round_up (quiet_window +
              (case first_poll of Some s \<Rightarrow> s | None \<Rightarrow> 0) * 2) 0)))"

section \<open>The poll\<close>

datatype fetch_answer = Answer fetch_result | Exhausted string | LookupFailed readback_error

record 'w source =
  src_bind :: "seconds option \<Rightarrow> 'w \<Rightarrow> 'w"
  src_fetch :: "probe \<Rightarrow> 'w \<Rightarrow> fetch_answer \<times> 'w"
  src_rate :: "rate_source option"

text \<open>\<open>_signature\<close>: the records of one tag in an order that does not depend on the
  answer's.\<close>

definition signature_of :: "(readback \<Rightarrow> string) \<Rightarrow> readback list \<Rightarrow> readback list" where
  "signature_of rp rs =
     sort_key (\<lambda>r. (case rb_ticket_id r of Some t \<Rightarrow> t | None \<Rightarrow> [], rp r)) rs"

text \<open>The local variables of the loop.\<close>

record poll =
  po_found :: "string \<Rightarrow> readback list"
  po_part :: "string \<Rightarrow> bool"
  po_statuses :: "string \<Rightarrow> int option list"
  po_previous :: "readback list list option"
  po_previous_start :: "seconds option"
  po_quiet_since :: "seconds option"
  po_changed :: bool
  po_first_poll :: "seconds option"
  po_polls :: nat
  po_complete :: nat
  po_stable :: bool
  po_exhausted :: bool
  po_detail :: "string option"
  po_lookups :: nat

definition initial_poll :: poll where
  "initial_poll = \<lparr>po_found = (\<lambda>_. []), po_part = (\<lambda>_. False), po_statuses = (\<lambda>_. []),
     po_previous = None, po_previous_start = None, po_quiet_since = None, po_changed = False,
     po_first_poll = None, po_polls = 0, po_complete = 0, po_stable = False,
     po_exhausted = False, po_detail = None, po_lookups = 0\<rparr>"

text \<open>What the loop is given.\<close>

record 'w poll_args =
  pa_timing :: "'w timing"
  pa_source :: "'w source"
  pa_repr :: "readback \<Rightarrow> string"
  pa_quiet_window :: seconds
  pa_max_wait :: seconds
  pa_poll_interval :: seconds

definition record_answer :: "string \<Rightarrow> fetch_result \<Rightarrow> poll \<Rightarrow> poll" where
  "record_answer tag fr st =
     st\<lparr>po_part := (po_part st)(tag := fr_partial fr),
        po_statuses := (po_statuses st)(tag := po_statuses st tag @ [fr_status fr]),
        po_found := (po_found st)(tag := fr_items fr)\<rparr>"

text \<open>The \<open>for\<close> loop over the tags of one poll. The budget is looked at before every lookup
  but the first.\<close>

fun ask_tags ::
  "'w poll_args \<Rightarrow> seconds \<Rightarrow> probe list \<Rightarrow> poll \<Rightarrow> 'w \<Rightarrow> (readback_error + poll) \<times> 'w"
where
  "ask_tags A deadline [] st w = (Inr st, w)"
| "ask_tags A deadline (p # ps) st w =
     (case (if po_lookups st = 0 then (False, w)
            else case read_clock (pa_timing A) w of (t, w1) \<Rightarrow> (deadline \<le> t, w1)) of
        (late, w1) \<Rightarrow>
          if late then (Inr (st\<lparr>po_exhausted := True\<rparr>), w1)
          else (case src_fetch (pa_source A) p w1 of
                  (LookupFailed e, w2) \<Rightarrow> (Inl e, w2)
                | (Exhausted d, w2) \<Rightarrow>
                    (Inr (st\<lparr>po_lookups := Suc (po_lookups st), po_exhausted := True,
                             po_detail := Some d\<rparr>), w2)
                | (Answer fr, w2) \<Rightarrow>
                    ask_tags A deadline ps
                      (record_answer (pr_tag p) fr (st\<lparr>po_lookups := Suc (po_lookups st)\<rparr>)) w2))"

definition observed :: "'w poll_args \<Rightarrow> probe list \<Rightarrow> poll \<Rightarrow> readback list list" where
  "observed A asked st = map (\<lambda>p. signature_of (pa_repr A) (po_found st (pr_tag p))) asked"

text \<open>What a complete poll does to the state: the comparison with the poll before.\<close>

definition complete_poll ::
  "'w poll_args \<Rightarrow> probe list \<Rightarrow> seconds \<Rightarrow> seconds \<Rightarrow> poll \<Rightarrow> poll"
where
  "complete_poll A asked poll_start t st0 =
     (let st = st0\<lparr>po_complete := Suc (po_complete st0),
            po_first_poll := (case po_first_poll st0 of None \<Rightarrow> Some (t - poll_start) | s \<Rightarrow> s)\<rparr>;
          sig = observed A asked st
      in if po_previous st = Some sig then
           (let qs = (case po_quiet_since st of None \<Rightarrow> po_previous_start st | s \<Rightarrow> s);
                st1 = st\<lparr>po_quiet_since := qs\<rparr>
            in if pa_quiet_window A \<le> t - the qs then st1\<lparr>po_stable := True\<rparr>
               else st1\<lparr>po_previous := Some sig, po_previous_start := Some poll_start\<rparr>)
         else st\<lparr>po_changed := (po_changed st \<or> po_previous st \<noteq> None), po_quiet_since := None,
                 po_previous := Some sig, po_previous_start := Some poll_start\<rparr>)"

text \<open>One round of the \<open>while\<close> loop: whether it goes on, and the state after it.\<close>

definition poll_pass ::
  "'w poll_args \<Rightarrow> probe list \<Rightarrow> seconds \<Rightarrow> poll \<Rightarrow> 'w \<Rightarrow> (readback_error + bool \<times> poll) \<times> 'w"
where
  "poll_pass A asked started st w =
     (let T = pa_timing A; deadline = started + pa_max_wait A in
      case (if po_polls st = 0 then (False, w)
            else case read_clock T w of (t, w1) \<Rightarrow> (deadline \<le> t, w1)) of
        (over, w1) \<Rightarrow>
          if over then (Inr (False, st), w1)
          else (case read_clock T w1 of (poll_start, w2) \<Rightarrow>
            (case ask_tags A deadline asked (st\<lparr>po_polls := Suc (po_polls st)\<rparr>) w2 of
               (Inl e, w3) \<Rightarrow> (Inl e, w3)
             | (Inr st1, w3) \<Rightarrow>
                 if po_exhausted st1 then (Inr (False, st1), w3)
                 else (case read_clock T w3 of (t, w4) \<Rightarrow>
                   (let st2 = complete_poll A asked poll_start t st1
                    in if po_stable st2 then (Inr (False, st2), w4)
                       else if pa_max_wait A \<le> t - started then (Inr (False, st2), w4)
                       else (Inr (True, st2),
                             do_sleep T (min (pa_poll_interval A) (deadline - t)) w4))))))"

partial_function (option) poll_loop ::
  "'w poll_args \<Rightarrow> probe list \<Rightarrow> seconds \<Rightarrow> poll \<Rightarrow> 'w \<Rightarrow> ((readback_error + poll) \<times> 'w) option"
where
  "poll_loop A asked started st w =
     (case poll_pass A asked started st w of
        (Inl e, w') \<Rightarrow> Some (Inl e, w')
      | (Inr (go_on, st'), w') \<Rightarrow>
          if go_on then poll_loop A asked started st' w' else Some (Inr st', w'))"

declare poll_loop.simps [code]

text \<open>One probe per tag, the first of each, in the order they come.\<close>

definition asked_probes :: "probe list \<Rightarrow> probe list" where
  "asked_probes probes = map (\<lambda>t. hd (filter (\<lambda>p. pr_tag p = t) probes)) (nub (map pr_tag probes))"

text \<open>What follows the loop.\<close>

definition settle ::
  "'w poll_args \<Rightarrow> probe list \<Rightarrow> seconds \<Rightarrow> seconds \<Rightarrow> poll \<Rightarrow> outcome"
where
  "settle A asked started ended st =
     (let cut_short_changed = (po_previous st \<noteq> None \<and> Some (observed A asked st) \<noteq> po_previous st);
          held = (po_quiet_since st \<noteq> None \<and> \<not> cut_short_changed \<and>
            pa_quiet_window A \<le> ended - the (po_quiet_since st));
          stable = (po_stable st \<or> held);
          why = why_unsettled (length asked) (adapter_rate (src_rate (pa_source A)))
            (pa_quiet_window A) (pa_max_wait A) (po_complete st) (po_first_poll st)
            (ended - started) (po_changed st \<or> cut_short_changed) (po_quiet_since st \<noteq> None)
            (map_option (\<lambda>q. ended - q) (po_quiet_since st));
          tags = map pr_tag asked;
          seen = concat (map (po_statuses st) tags)
      in \<lparr>ro_readbacks = map (\<lambda>t. (t, po_found st t)) tags, ro_elapsed = ended - started,
          ro_polls = po_polls st, ro_stable = stable,
          ro_missing = filter (\<lambda>t. po_found st t = []) tags,
          ro_budget_exhausted = po_exhausted st, ro_partial = filter (po_part st) tags,
          ro_all_404 = (seen \<noteq> [] \<and> list_all (\<lambda>s. s = Some 404) seen \<and>
            list_all (\<lambda>t. po_statuses st t \<noteq> []) tags),
          ro_detail = po_detail st, ro_complete_polls = po_complete st,
          ro_cause = (if stable then None else Some (fst why)),
          ro_reason = (if stable then None else Some (fst (snd why))),
          ro_advice = (if stable then None else Some (snd (snd why)))\<rparr>)"

datatype poll_error =
    BadQuietWindow seconds | BadMaxWait seconds | BadPollInterval seconds | LookupError readback_error

definition read_back_all ::
  "'w poll_args \<Rightarrow> probe list \<Rightarrow> 'w \<Rightarrow> ((poll_error + outcome) \<times> 'w) option"
where
  "read_back_all A probes w =
     (if pa_quiet_window A < 0 then Some (Inl (BadQuietWindow (pa_quiet_window A)), w)
      else if pa_max_wait A < 0 then Some (Inl (BadMaxWait (pa_max_wait A)), w)
      else if pa_poll_interval A \<le> 0 then Some (Inl (BadPollInterval (pa_poll_interval A)), w)
      else (let asked = asked_probes probes; T = pa_timing A; bind = src_bind (pa_source A) in
        case read_clock T w of (started, w1) \<Rightarrow>
          (case poll_loop A asked started initial_poll (bind (Some (started + pa_max_wait A)) w1) of
             None \<Rightarrow> None
           | Some (Inl e, w2) \<Rightarrow> Some (Inl (LookupError e), bind None w2)
           | Some (Inr st, w2) \<Rightarrow>
               (case read_clock T (bind None w2) of (ended, w3) \<Rightarrow>
                 Some (Inr (settle A asked started ended st), w3)))))"

section \<open>The budget fits the plan\<close>

lemma round_up_0: "x - 1 / 1000000000 \<le> round_up x 0"
  by (simp add: round_up_def)

text \<open>The default budget fits. With a quiet window that is not negative, the budget a run
  gets when none was given is never one its own dry run warns about, however many tags the
  plan has and whatever the adapter's rate; a budget that was given is used as it is, and
  the dry run warns exactly when it is shorter than two paced polls and the window.\<close>

theorem default_budget_fits:
  assumes "0 \<le> quiet_window"
  shows "settle_time_warning tags (adapter_rate rb) quiet_window
      (ps_max_wait (readback_poll_settings tags rb quiet_window None interval)) = None \<and>
    ps_max_wait (readback_poll_settings tags rb quiet_window (Some given) interval) = given \<and>
    (settle_time_warning tags (adapter_rate rb) quiet_window given \<noteq> None \<longleftrightarrow>
       given < 2 * per_poll tags (adapter_rate rb) + quiet_window)"
proof -
  have "0 \<le> per_poll tags (adapter_rate rb)"
    by (auto simp: per_poll_def adapter_rate_def split: option.splits rate_attr.splits)
  then have n: "0 \<le> settle_time_needed tags (adapter_rate rb) quiet_window" (is "0 \<le> ?n")
    using assms by (simp add: settle_time_needed_def)
  have "?n \<le> max 60 (round_up (?n * (1 + MAX_WAIT_MARGIN)) 0)"
  proof (cases "?n \<le> 60")
    case False
    with round_up_0 [of "?n * (1 + MAX_WAIT_MARGIN)"] show ?thesis
      by (simp add: MAX_WAIT_MARGIN_def le_max_iff_disj)
  qed simp
  then show ?thesis
    by (auto simp: settle_time_warning_def readback_poll_settings_def resolve_max_wait_def Let_def
        DEFAULT_MAX_WAIT_def settle_time_needed_def)
qed

theorem default_budget_fits_witness:
  "settle_time_warning 400 (Some 4) 5 (ps_max_wait (readback_poll_settings 400
     (Some \<lparr>rs_spec = False, rs_kind = None, rs_rate = NumRate 4\<rparr>) 5 None (1 / 2))) = None \<and>
   settle_time_warning 400 (Some 4) 5 60 \<noteq> None"
  using default_budget_fits [of 5 400 "Some \<lparr>rs_spec = False, rs_kind = None, rs_rate = NumRate 4\<rparr>"
      "1 / 2" 60]
  by (simp add: adapter_rate_def per_poll_def)

section \<open>The poll ends\<close>

definition source_patient :: "('w \<Rightarrow> seconds) \<Rightarrow> 'w source \<Rightarrow> bool" where
  "source_patient now S \<longleftrightarrow> (\<forall>p w. now w \<le> now (snd (src_fetch S p w))) \<and>
     (\<forall>d w. now w \<le> now (src_bind S d w))"

lemma source_patient_fetch:
  "source_patient now S \<Longrightarrow> src_fetch S p w = (r, w') \<Longrightarrow> now w \<le> now w'"
  unfolding source_patient_def by (metis snd_conv)

lemma ask_tags_time:
  assumes "monotonic (pa_timing A) now" "source_patient now (pa_source A)"
  shows "ask_tags A d ps st w = (r, w') \<Longrightarrow> now w \<le> now w'"
proof (induction ps arbitrary: st w)
  case (Cons p ps)
  obtain late w1 where g: "(if po_lookups st = 0 then (False, w)
      else case read_clock (pa_timing A) w of (t, w1) \<Rightarrow> (d \<le> t, w1)) = (late, w1)" by fastforce
  then have w1: "now w \<le> now w1"
    using monotonic_clock [OF assms(1)]
    by (fastforce split: if_splits prod.splits)
  obtain l w2 where l: "src_fetch (pa_source A) p w1 = (l, w2)" by fastforce
  note w2 = source_patient_fetch [OF assms(2) l]
  show ?case
    using Cons.prems Cons.IH w1 w2 unfolding ask_tags.simps g
    by (fastforce simp: l split: if_splits fetch_answer.splits)
qed simp

lemma poll_pass_goes_on:
  assumes T: "monotonic (pa_timing A) now" "source_patient now (pa_source A)"
    and pos: "0 < pa_poll_interval A"
    and pass: "poll_pass A asked started st w = (Inr (True, st'), w')"
  shows "now w < started + pa_max_wait A"
    and "min (now w + pa_poll_interval A) (started + pa_max_wait A) \<le> now w'"
proof -
  let ?d = "started + pa_max_wait A" and ?pi = "pa_poll_interval A"
  obtain over w1 where g: "(if po_polls st = 0 then (False, w)
      else case read_clock (pa_timing A) w of (t, w1) \<Rightarrow> (?d \<le> t, w1)) = (over, w1)" by fastforce
  then have w1: "now w \<le> now w1"
    using monotonic_clock [OF T(1)] by (fastforce split: if_splits prod.splits)
  obtain ps w2 where c2: "read_clock (pa_timing A) w1 = (ps, w2)" by fastforce
  obtain r w3 where a: "ask_tags A ?d asked (st\<lparr>po_polls := Suc (po_polls st)\<rparr>) w2 = (r, w3)"
    by fastforce
  obtain t w4 where c4: "read_clock (pa_timing A) w3 = (t, w4)" by fastforce
  have "now w \<le> t" "t \<le> now w4"
    using w1 monotonic_clock [OF T(1) c2] ask_tags_time [OF T a] monotonic_clock [OF T(1) c4]
    by linarith+
  moreover have "t < ?d" and w': "w' = do_sleep (pa_timing A) (min ?pi (?d - t)) w4"
    using pass unfolding poll_pass_def Let_def g
    by (auto simp: c2 a c4 split: if_splits sum.splits)
  moreover have "now w4 + min ?pi (?d - t) \<le> now w'"
    using monotonic_sleep [OF T(1)] w' \<open>t < ?d\<close> pos by simp
  ultimately show "now w < ?d" "min (now w + ?pi) ?d \<le> now w'" by linarith+
qed

lemma poll_loop_ends:
  assumes T: "monotonic (pa_timing A) now" "source_patient now (pa_source A)"
    and pos: "0 < pa_poll_interval A"
  shows "started + pa_max_wait A - now w \<le> of_nat n * pa_poll_interval A \<Longrightarrow>
    poll_loop A asked started st w \<noteq> None"
proof (induction n arbitrary: st w)
  case (Suc n)
  obtain r w' where p: "poll_pass A asked started st w = (r, w')" by fastforce
  show ?case
  proof (cases "\<exists>st'. r = Inr (True, st')")
    case True
    then obtain st' where r: "r = Inr (True, st')" by blast
    note poll_pass_goes_on [OF T pos p [unfolded r]]
    then have "started + pa_max_wait A - now w' \<le> of_nat n * pa_poll_interval A \<or>
        started + pa_max_wait A \<le> now w'"
      using Suc.prems by (auto simp: algebra_simps min_def split: if_splits)
    moreover have "0 \<le> of_nat n * pa_poll_interval A" using pos by simp
    ultimately have "started + pa_max_wait A - now w' \<le> of_nat n * pa_poll_interval A" by linarith
    from Suc.IH [OF this, of st'] show ?thesis
      by (subst poll_loop.simps) (simp add: p r)
  next
    case False
    then show ?thesis
      by (subst poll_loop.simps) (auto simp: p split: sum.splits)
  qed
next
  case 0
  obtain r w' where p: "poll_pass A asked started st w = (r, w')" by fastforce
  have "r \<noteq> Inr (True, st')" for st'
    using poll_pass_goes_on(1) [OF T pos, of asked started st w st' w'] p 0 by auto
  then show ?case
    by (subst poll_loop.simps) (auto simp: p split: sum.splits)
qed

lemma read_back_all_returns:
  assumes "monotonic (pa_timing A) now" "source_patient now (pa_source A)"
  shows "\<exists>r w'. read_back_all A probes w = Some (r, w') \<and>
    (if pa_quiet_window A < 0 \<or> pa_max_wait A < 0 \<or> pa_poll_interval A \<le> 0
     then w' = w \<and> r \<in> {Inl (BadQuietWindow (pa_quiet_window A)),
       Inl (BadMaxWait (pa_max_wait A)), Inl (BadPollInterval (pa_poll_interval A))}
     else (\<exists>e. r = Inl (LookupError e)) \<or> (\<exists>out. r = Inr out))"
proof (cases "pa_quiet_window A < 0 \<or> pa_max_wait A < 0 \<or> pa_poll_interval A \<le> 0")
  case True
  then show ?thesis by (auto simp: read_back_all_def)
next
  case False
  obtain started w1 where c: "read_clock (pa_timing A) w = (started, w1)" by fastforce
  let ?asked = "asked_probes probes" and ?d = "started + pa_max_wait A"
  let ?w = "src_bind (pa_source A) (Some ?d) w1"
  have pos: "0 < pa_poll_interval A" using False by simp
  obtain n :: nat where "(?d - now ?w) / pa_poll_interval A \<le> of_nat n"
    using real_arch_simple by blast
  then have "?d - now ?w \<le> of_nat n * pa_poll_interval A"
    using pos by (simp add: pos_divide_le_eq)
  from poll_loop_ends [OF assms pos this]
  obtain r w2 where l: "poll_loop A ?asked started initial_poll ?w = Some (r, w2)" by fastforce
  obtain ended w3 where e: "read_clock (pa_timing A) (src_bind (pa_source A) None w2) = (ended, w3)"
    by fastforce
  from False l e show ?thesis
    by (cases r) (simp_all add: read_back_all_def Let_def c)
qed

text \<open>The poll ends. Under a monotonic clock, and an adapter whose lookups return and do
  not turn the clock back, \<open>read_back_all\<close> with valid settings always comes back, with an
  outcome or with the adapter's error; settings that are out of range are refused before
  anything is asked.\<close>

theorem read_back_all_ends:
  assumes "monotonic (pa_timing A) now" "source_patient now (pa_source A)"
  shows "\<exists>r w'. read_back_all A probes w = Some (r, w') \<and>
    (if pa_quiet_window A < 0 \<or> pa_max_wait A < 0 \<or> pa_poll_interval A \<le> 0
     then w' = w \<and> r \<in> {Inl (BadQuietWindow (pa_quiet_window A)),
       Inl (BadMaxWait (pa_max_wait A)), Inl (BadPollInterval (pa_poll_interval A))}
     else (\<exists>e. r = Inl (LookupError e)) \<or> (\<exists>out. r = Inr out))"
  using read_back_all_returns [OF assms, of probes w] .

section \<open>What the outcome rests on\<close>

text \<open>The complete polls of a run as an observer of the wire has them: when each started, and
  what every tag's lookup answered. \<open>quiet_run\<close> is the start of the first of the identical
  polls the observations end with, when there are at least two of those.\<close>

type_synonym observation = "seconds \<times> readback list list"

definition same_as_last :: "observation list \<Rightarrow> observation list" where
  "same_as_last obs = takeWhile (\<lambda>x. snd x = snd (last obs)) (rev obs)"

definition quiet_run :: "observation list \<Rightarrow> seconds option" where
  "quiet_run obs =
     (if 2 \<le> length (same_as_last obs) then Some (fst (last (same_as_last obs))) else None)"

definition ever_changed :: "observation list \<Rightarrow> bool" where
  "ever_changed obs \<longleftrightarrow> (\<exists>x \<in> set obs. snd x \<noteq> snd (hd obs))"

definition round_start :: "'w poll_args \<Rightarrow> poll \<Rightarrow> 'w \<Rightarrow> seconds" where
  "round_start A st w =
     fst (read_clock (pa_timing A) (if po_polls st = 0 then w else snd (read_clock (pa_timing A) w)))"

inductive polled ::
  "'w poll_args \<Rightarrow> probe list \<Rightarrow> seconds \<Rightarrow> 'w \<Rightarrow> observation list \<Rightarrow> bool \<Rightarrow> poll \<Rightarrow> 'w \<Rightarrow> bool"
  for A asked started w0
where
  polled_start: "polled A asked started w0 [] True initial_poll w0"
| polled_round: "polled A asked started w0 (obs @ [(round_start A st w, observed A asked st')]) go_on st' w'"
  if "polled A asked started w0 obs True st w"
    and "poll_pass A asked started st w = (Inr (go_on, st'), w')"
    and "po_complete st' = Suc (po_complete st)"

inductive_cases polled_stopped: "polled A asked started w0 obs False st w"

lemma quiet_run_Nil [simp]: "quiet_run [] = None" "quiet_run [x] = None"
  by (simp_all add: quiet_run_def same_as_last_def)

lemma quiet_run_snoc:
  "quiet_run (obs @ [x]) =
     (if obs \<noteq> [] \<and> snd (last obs) = snd x
      then (case quiet_run obs of None \<Rightarrow> Some (fst (last obs)) | q \<Rightarrow> q) else None)"
proof (cases obs rule: rev_cases)
  case (snoc ys y)
  show ?thesis
  proof (cases "snd y = snd x")
    case True
    have "same_as_last (obs @ [x]) = x # same_as_last obs"
      using True by (simp add: same_as_last_def snoc)
    moreover obtain zs where "same_as_last obs = y # zs"
      by (simp add: same_as_last_def snoc)
    ultimately show ?thesis
      using True by (cases zs) (simp_all add: quiet_run_def snoc)
  next
    case False
    then have "same_as_last (obs @ [x]) = [x]"
      by (simp add: same_as_last_def snoc)
    with False show ?thesis by (simp add: quiet_run_def snoc)
  qed
qed (simp add: quiet_run_def same_as_last_def)

lemma ever_changed_snoc:
  "ever_changed (obs @ [x]) \<longleftrightarrow> ever_changed obs \<or> (obs \<noteq> [] \<and> snd (last obs) \<noteq> snd x)"
proof (cases obs)
  case (Cons y ys)
  have "ever_changed obs \<or> snd (last obs) = snd y"
    by (auto simp: ever_changed_def Cons)
  then show ?thesis by (auto simp: ever_changed_def Cons)
qed (simp add: ever_changed_def)

text \<open>The loop's variables are the summary of the observations they should be.\<close>

definition summarises :: "poll \<Rightarrow> observation list \<Rightarrow> bool" where
  "summarises st obs \<longleftrightarrow>
     po_complete st = length obs \<and> po_quiet_since st = quiet_run obs \<and>
     po_changed st = ever_changed obs \<and>
     po_previous st = (if obs = [] then None else Some (snd (last obs)))"

text \<open>While the loop goes on the start of the last poll is remembered too.\<close>

definition going :: "poll \<Rightarrow> observation list \<Rightarrow> bool" where
  "going st obs \<longleftrightarrow> summarises st obs \<and> \<not> po_stable st \<and> \<not> po_exhausted st \<and>
     po_previous_start st = (if obs = [] then None else Some (fst (last obs)))"

text \<open>Asking the tags changes the answers, the counters and nothing else.\<close>

lemma ask_tags_keeps:
  "ask_tags A d ps st w = (Inr st', w') \<Longrightarrow>
     po_previous st' = po_previous st \<and> po_previous_start st' = po_previous_start st \<and>
     po_quiet_since st' = po_quiet_since st \<and> po_changed st' = po_changed st \<and>
     po_complete st' = po_complete st \<and> po_stable st' = po_stable st"
proof (induction ps arbitrary: st w)
  case (Cons p ps)
  obtain late w1 where g: "(if po_lookups st = 0 then (False, w)
      else case read_clock (pa_timing A) w of (t, w1) \<Rightarrow> (d \<le> t, w1)) = (late, w1)" by fastforce
  obtain l w2 where l: "src_fetch (pa_source A) p w1 = (l, w2)" by fastforce
  show ?case
    using Cons.prems Cons.IH unfolding ask_tags.simps g
    by (fastforce simp: l record_answer_def split: if_splits fetch_answer.splits)
qed simp

lemma observed_found: "po_found st = po_found st' \<Longrightarrow> observed A asked st = observed A asked st'"
  by (simp add: observed_def)

lemma complete_poll_found [simp]: "po_found (complete_poll A asked s t st) = po_found st"
  by (auto simp: complete_poll_def Let_def)

lemma complete_poll_summarises:
  fixes A asked s t
  assumes "going st0 obs" and keep: "po_previous st1 = po_previous st0"
    "po_previous_start st1 = po_previous_start st0" "po_quiet_since st1 = po_quiet_since st0"
    "po_changed st1 = po_changed st0" "po_complete st1 = po_complete st0"
    "po_stable st1 = po_stable st0" "\<not> po_exhausted st1"
  defines "st2 \<equiv> complete_poll A asked s t st1" and "o' \<equiv> (s, observed A asked st1)"
  shows "summarises st2 (obs @ [o'])" "\<not> po_stable st2 \<Longrightarrow> going st2 (obs @ [o'])"
    "po_stable st2 \<Longrightarrow> \<exists>q. quiet_run (obs @ [o']) = Some q \<and> pa_quiet_window A \<le> t - q"
proof -
  have o: "observed A asked (st1\<lparr>po_complete := c, po_first_poll := f\<rparr>) = observed A asked st1"
    for c f by (simp add: observed_def)
  note defs = st2_def o'_def complete_poll_def Let_def keep o summarises_def going_def
    quiet_run_snoc ever_changed_snoc
  show "summarises st2 (obs @ [o'])"
    using assms(1) by (auto simp: defs split: option.splits)
  show "\<not> po_stable st2 \<Longrightarrow> going st2 (obs @ [o'])"
    using assms(1) keep(7) by (auto simp: defs split: option.splits if_splits)
  show "po_stable st2 \<Longrightarrow> \<exists>q. quiet_run (obs @ [o']) = Some q \<and> pa_quiet_window A \<le> t - q"
    using assms(1) by (auto simp: defs split: option.splits if_splits)
qed

lemma going_ask:
  assumes "going st obs" "ask_tags A d ps (st\<lparr>po_polls := n\<rparr>) w = (Inr st1, w')"
  shows "po_previous st1 = po_previous st" "po_previous_start st1 = po_previous_start st"
    "po_quiet_since st1 = po_quiet_since st" "po_changed st1 = po_changed st"
    "po_complete st1 = po_complete st" "po_stable st1 = po_stable st" "summarises st1 obs"
  using ask_tags_keeps [OF assms(2)] assms(1) by (simp_all add: going_def summarises_def)

lemma poll_pass_result:
  assumes T: "monotonic (pa_timing A) now" and g: "going st obs"
    and pass: "poll_pass A asked started st w = (Inr (go_on, st'), w')"
  shows "(po_complete st' = Suc (po_complete st) \<and>
      summarises st' (obs @ [(round_start A st w, observed A asked st')]) \<and>
      (go_on \<longrightarrow> going st' (obs @ [(round_start A st w, observed A asked st')])) \<and>
      (po_stable st' \<longrightarrow> \<not> go_on \<and>
        (\<exists>q. quiet_run (obs @ [(round_start A st w, observed A asked st')]) = Some q \<and>
          pa_quiet_window A \<le> now w' - q))) \<or>
    (po_complete st' = po_complete st \<and> \<not> go_on \<and> summarises st' obs \<and> \<not> po_stable st')"
proof -
  let ?d = "started + pa_max_wait A"
  obtain over w1 where o: "(if po_polls st = 0 then (False, w)
      else case read_clock (pa_timing A) w of (t, w1) \<Rightarrow> (?d \<le> t, w1)) = (over, w1)" by fastforce
  obtain s w2 where c2: "read_clock (pa_timing A) w1 = (s, w2)" by fastforce
  have s: "round_start A st w = s"
    using o c2 by (auto simp: round_start_def split: if_splits prod.splits)
  obtain r w3 where a: "ask_tags A ?d asked (st\<lparr>po_polls := Suc (po_polls st)\<rparr>) w2 = (r, w3)"
    by fastforce
  obtain t w4 where c4: "read_clock (pa_timing A) w3 = (t, w4)" by fastforce
  note t = monotonic_clock(2) [OF T c4]
  note pass' = pass [unfolded poll_pass_def Let_def o, simplified]
  show ?thesis
  proof (cases over)
    case True
    with pass' g show ?thesis by (auto simp: going_def)
  next
    case False
    then obtain st1 where r: "r = Inr st1" using pass' by (cases r) (auto simp: c2 a)
    note keep = going_ask [OF g a [unfolded r]]
    show ?thesis
    proof (cases "po_exhausted st1")
      case True
      with pass' False r keep g show ?thesis by (auto simp: going_def c2 a)
    next
      case no: False
      let ?st2 = "complete_poll A asked s t st1"
      note c = complete_poll_summarises [OF g keep(1-6) no, of A asked s t]
      have *: "st' = ?st2 \<and> (go_on \<longrightarrow> \<not> po_stable ?st2) \<and> (\<not> go_on \<longrightarrow> w' = w4)"
        using pass' False r no by (auto simp: c2 a c4 split: if_splits)
      have "observed A asked st' = observed A asked st1"
        using * by (intro observed_found) simp
      moreover have "po_complete ?st2 = Suc (po_complete st)"
        using c(1) g by (simp add: summarises_def going_def)
      moreover have "pa_quiet_window A \<le> now w4 - q" if "pa_quiet_window A \<le> t - q" for q
        using t that by simp
      ultimately show ?thesis using c * s by (cases go_on) auto
    qed
  qed
qed

lemma polled_going: "polled A asked started w0 obs True st w \<Longrightarrow> monotonic (pa_timing A) now \<Longrightarrow>
    going st obs"
proof (induction obs True st w rule: polled.induct)
  case polled_start
  then show ?case
    by (simp add: going_def summarises_def initial_poll_def ever_changed_def)
next
  case (polled_round obs st w st' w')
  then show ?case using poll_pass_result [OF polled_round(5) _ polled_round(3)] by auto
qed

text \<open>The end of the loop: after a complete poll, or after a round that did not complete.\<close>

lemma poll_loop_history:
  assumes "poll_loop A asked started st w = Some (r, w')" "r = Inr st'"
    and T: "monotonic (pa_timing A) now"
    and "polled A asked started w0 obs True st w"
  shows "\<exists>obs'. summarises st' obs' \<and> (\<exists>go_on st1 w1. polled A asked started w0 obs' go_on st1 w1) \<and>
    (po_stable st' \<longrightarrow> observed A asked st' = snd (last obs') \<and>
      (\<exists>q. quiet_run obs' = Some q \<and> pa_quiet_window A \<le> now w' - q))"
proof -
  let ?Q = "\<lambda>A asked started st' w'. \<exists>obs'. summarises st' obs' \<and>
    (\<exists>go_on st1 w1. polled A asked started w0 obs' go_on st1 w1) \<and>
    (po_stable st' \<longrightarrow> observed A asked st' = snd (last obs') \<and>
      (\<exists>q. quiet_run obs' = Some q \<and> pa_quiet_window A \<le> now w' - q))"
  let ?P = "\<lambda>A asked started st w r. \<forall>st' obs. fst r = Inr st' \<longrightarrow> monotonic (pa_timing A) now \<longrightarrow>
    polled A asked started w0 obs True st w \<longrightarrow> ?Q A asked started st' (snd r)"
  have "?P A asked started st w (r, w')"
  proof (rule poll_loop.raw_induct [where P = ?P, OF _ assms(1)], intro allI impI)
    fix loop A asked started st w rw st' obs
    assume IH: "\<And>A asked started st w r. loop A asked started st w = Some r \<Longrightarrow>
        ?P A asked started st w r"
      and step0: "(case poll_pass A asked started st w of
          (Inl e, w') \<Rightarrow> Some (Inl e, w')
        | (Inr (go_on, st'), w') \<Rightarrow>
            if go_on then loop A asked started st' w' else Some (Inr st', w')) = Some rw"
      and fst: "fst rw = Inr st'"
      and T: "monotonic (pa_timing A) now" and p: "polled A asked started w0 obs True st w"
    obtain w' where rw: "rw = (Inr st', w')" using fst by (cases rw) auto
    note step = step0 [unfolded rw]
    obtain go_on st1 w1 where pass: "poll_pass A asked started st w = (Inr (go_on, st1), w1)"
      using step by (auto split: prod.splits sum.splits)
    let ?obs = "obs @ [(round_start A st w, observed A asked st1)]"
    note res = poll_pass_result [OF T polled_going [OF p T] pass]
    show "?Q A asked started st' (snd rw)"
    proof (cases go_on)
      case True
      then have "po_complete st1 = Suc (po_complete st)" using res by auto
      from polled_round [OF p pass this] True step pass IH [of A asked started st1 w1 rw] T rw
      show ?thesis by fastforce
    next
      case False
      then have st': "st' = st1" "w' = w1" using step pass by auto
      from res show ?thesis
      proof
        assume c: "po_complete st1 = po_complete st \<and> \<not> go_on \<and> summarises st1 obs \<and> \<not> po_stable st1"
        with p st' rw show ?thesis by auto
      next
        assume c: "po_complete st1 = Suc (po_complete st) \<and> summarises st1 ?obs \<and>
          (go_on \<longrightarrow> going st1 ?obs) \<and> (po_stable st1 \<longrightarrow> \<not> go_on \<and>
          (\<exists>q. quiet_run ?obs = Some q \<and> pa_quiet_window A \<le> now w1 - q))"
        with polled_round [OF p pass] st' rw show ?thesis
          by (intro exI [of _ ?obs]) auto
      qed
    qed
  qed
  from this [rule_format, of st' obs] assms(2-4) show ?thesis by simp
qed

text \<open>Two answers have the same signature exactly when they hold the same records as often,
  when \<open>repr\<close> tells different records apart.\<close>

lemma signature_iff_mset:
  assumes "inj rp"
  shows "signature_of rp xs = signature_of rp ys \<longleftrightarrow> mset xs = mset ys"
proof
  assume "signature_of rp xs = signature_of rp ys"
  then have "mset (signature_of rp xs) = mset (signature_of rp ys)" by simp
  then show "mset xs = mset ys" by (simp add: signature_of_def)
next
  assume m: "mset xs = mset ys"
  let ?k = "\<lambda>r. (case rb_ticket_id r of Some t \<Rightarrow> t | None \<Rightarrow> [], rp r)"
  have "inj_on ?k (set xs)" using assms by (auto simp: inj_on_def dest: injD)
  with m show "signature_of rp xs = signature_of rp ys"
    unfolding signature_of_def by (intro sort_key_inj_key_eq) simp_all
qed

definition final_state :: "'w poll_args \<Rightarrow> outcome \<Rightarrow> readback list list" where
  "final_state A out = map (\<lambda>x. signature_of (pa_repr A) (snd x)) (ro_readbacks out)"

lemma final_state_settle [simp]:
  "final_state A (settle A asked started ended st) = observed A asked st"
  by (simp add: final_state_def settle_def Let_def observed_def)

definition moved_since :: "'w poll_args \<Rightarrow> probe list \<Rightarrow> poll \<Rightarrow> bool" where
  "moved_since A asked st \<longleftrightarrow> po_previous st \<noteq> None \<and> Some (observed A asked st) \<noteq> po_previous st"

lemma settle_fields:
  "ro_stable (settle A asked started ended st) \<longleftrightarrow> po_stable st \<or> (po_quiet_since st \<noteq> None \<and>
     \<not> moved_since A asked st \<and> pa_quiet_window A \<le> ended - the (po_quiet_since st))"
  "ro_elapsed (settle A asked started ended st) = ended - started"
  "ro_complete_polls (settle A asked started ended st) = po_complete st"
  "\<not> ro_stable (settle A asked started ended st) \<Longrightarrow>
     ro_cause (settle A asked started ended st) = Some (fst (why_unsettled (length asked)
       (adapter_rate (src_rate (pa_source A))) (pa_quiet_window A) (pa_max_wait A)
       (po_complete st) (po_first_poll st) (ended - started)
       (po_changed st \<or> moved_since A asked st) (po_quiet_since st \<noteq> None)
       (map_option (\<lambda>q. ended - q) (po_quiet_since st))))"
  by (simp_all add: settle_def Let_def moved_since_def)

text \<open>C6 (settled means seen to be still). Whenever the poll returns an outcome, there is the
  run's list of complete polls, each with the time it started and every tag's answers,
  such that: the outcome is settled exactly when that list ends in at least two identical
  polls, the returned records are the same as theirs, and the quiet window has passed
  since the start of the first of them; otherwise the cause is \<open>NotEnoughTime\<close> exactly
  when there were fewer than two complete polls, or no change was ever seen.\<close>

theorem settled_iff_still:
  assumes T: "monotonic (pa_timing A) now" and S: "source_patient now (pa_source A)"
    and run: "read_back_all A probes w = Some (Inr out, w')"
    and start: "read_clock (pa_timing A) w = (started, w1)"
  defines "w0 \<equiv> src_bind (pa_source A) (Some (started + pa_max_wait A)) w1"
  shows "\<exists>obs go_on st w2. polled A (asked_probes probes) started w0 obs go_on st w2 \<and>
    ro_complete_polls out = length obs \<and>
    (ro_stable out \<longleftrightarrow> (\<exists>q. quiet_run obs = Some q \<and> final_state A out = snd (last obs) \<and>
       pa_quiet_window A \<le> started + ro_elapsed out - q)) \<and>
    (\<not> ro_stable out \<longrightarrow> ro_cause out =
       Some (if length obs < 2 then NotEnoughTime
             else if quiet_run obs \<noteq> None \<and> \<not> ever_changed obs \<and> final_state A out = snd (last obs)
             then NotEnoughTime else StillChanging))"
proof -
  let ?asked = "asked_probes probes"
  obtain st w2 where loop: "poll_loop A ?asked started initial_poll w0 = Some (Inr st, w2)"
    and out: "out = settle A ?asked started (fst (read_clock (pa_timing A) (src_bind (pa_source A) None w2))) st"
    using run by (auto simp: read_back_all_def Let_def start w0_def
        split: if_splits option.splits sum.splits prod.splits)
  define ended where "ended = fst (read_clock (pa_timing A) (src_bind (pa_source A) None w2))"
  have e: "now w2 \<le> ended"
    using T S unfolding ended_def monotonic_def source_patient_def by (meson order_trans)
  obtain obs where obs: "summarises st obs"
    "\<exists>go_on st1 w1. polled A ?asked started w0 obs go_on st1 w1"
    "po_stable st \<Longrightarrow> observed A ?asked st = snd (last obs) \<and>
       (\<exists>q. quiet_run obs = Some q \<and> pa_quiet_window A \<le> now w2 - q)"
    using poll_loop_history [OF loop refl T polled_start] by blast
  have len: "length obs < 2 \<Longrightarrow> quiet_run obs = None"
    using length_takeWhile_le [of "\<lambda>x. snd x = snd (last obs)" "rev obs"]
    by (simp add: quiet_run_def same_as_last_def)
  have out': "out = settle A ?asked started ended st" using out by (simp add: ended_def)
  have fin: "final_state A out = observed A ?asked st" by (simp add: out')
  have moved: "moved_since A ?asked st \<longleftrightarrow> obs \<noteq> [] \<and> final_state A out \<noteq> snd (last obs)"
    using obs(1) by (simp add: moved_since_def summarises_def fin)
  have q: "po_quiet_since st = quiet_run obs" "po_complete st = length obs"
    "po_changed st = ever_changed obs"
    using obs(1) by (simp_all add: summarises_def)
  have el: "started + ro_elapsed out = ended" "ro_complete_polls out = length obs"
    by (simp_all add: out' settle_fields q)
  have ne: "obs \<noteq> []" if "quiet_run obs = Some q" for q using that by auto
  have stab: "ro_stable out \<longleftrightarrow> (\<exists>q. quiet_run obs = Some q \<and> final_state A out = snd (last obs) \<and>
      pa_quiet_window A \<le> ended - q)"
  proof (cases "po_stable st")
    case True
    then obtain q where "quiet_run obs = Some q" "pa_quiet_window A \<le> now w2 - q"
      "observed A ?asked st = snd (last obs)" using obs(3) by blast
    moreover have "ro_stable out" using True by (simp add: out' settle_fields)
    ultimately show ?thesis using e by (auto simp: fin)
  next
    case False
    have "ro_stable out \<longleftrightarrow> quiet_run obs \<noteq> None \<and> \<not> moved_since A ?asked st \<and>
        pa_quiet_window A \<le> ended - the (quiet_run obs)"
      by (simp only: out' settle_fields(1) q False simp_thms)
    with ne show ?thesis by (cases "quiet_run obs") (auto simp: moved)
  qed
  have "ro_cause out = Some (if length obs < 2 then NotEnoughTime
      else if quiet_run obs \<noteq> None \<and> \<not> ever_changed obs \<and> final_state A out = snd (last obs)
      then NotEnoughTime else StillChanging)" if "\<not> ro_stable out"
  proof -
    have "ro_cause out = Some (fst (why_unsettled (length ?asked)
       (adapter_rate (src_rate (pa_source A))) (pa_quiet_window A) (pa_max_wait A)
       (length obs) (po_first_poll st) (ended - started)
       (ever_changed obs \<or> moved_since A ?asked st) (quiet_run obs \<noteq> None)
       (map_option (\<lambda>q. ended - q) (quiet_run obs))))"
      using settle_fields(4) [OF that [unfolded out']] by (simp only: out' q)
    also have "fst (why_unsettled n r q m c f l ch ident g) =
        (if c < 2 then NotEnoughTime else if ident \<and> \<not> ch then NotEnoughTime else StillChanging)"
      for n r q m c f l ch ident g by (simp add: why_unsettled_def Let_def)
    finally show ?thesis using ne moved by (cases "quiet_run obs") auto
  qed
  with obs(2) stab el show ?thesis by (elim exE) (intro exI conjI impI; assumption?; simp)
qed

text \<open>A store for the witnesses, on the additive clock: a lookup takes a second, and from
  second \<open>k\<close> on every tag has one record.\<close>

definition sample_record :: readback where
  "sample_record = \<lparr>rb_exists = True, rb_ticket_id = Some ''7'', rb_from_addr = None,
     rb_subject = None, rb_body = None, rb_attachment_names = [], rb_route = None,
     rb_message_id = None, rb_in_reply_to = None, rb_references = [], rb_tag = None,
     rb_category = None, rb_priority = None, rb_fields = [], rb_field_notes = []\<rparr>"

definition sample_store :: "seconds \<Rightarrow> seconds source" where
  "sample_store k = \<lparr>src_bind = (\<lambda>_ t. t),
     src_fetch = (\<lambda>p t. (Answer (plain_result (if k \<le> t then [sample_record] else [])), t + 1)),
     src_rate = None\<rparr>"

definition sample_args :: "seconds \<Rightarrow> seconds \<Rightarrow> seconds poll_args" where
  "sample_args k limit = \<lparr>pa_timing = additive, pa_source = sample_store k, pa_repr = (\<lambda>_. []),
     pa_quiet_window = 2, pa_max_wait = limit, pa_poll_interval = 1 / 2\<rparr>"

definition sample_probe :: "string \<Rightarrow> probe" where
  "sample_probe t = \<lparr>pr_record_id = t, pr_tag = t, pr_payload_sha256 = [], pr_from_addr = [],
     pr_subject = [], pr_recipient = [], pr_message_id = [], pr_attachment_names = []\<rparr>"

lemma sample_store_patient: "source_patient (\<lambda>t. t) (pa_source (sample_args k limit))"
  by (simp add: source_patient_def sample_args_def sample_store_def)

lemma sample_timing: "monotonic (pa_timing (sample_args k limit)) (\<lambda>t. t)"
  by (simp add: sample_args_def monotonic_additive)

definition poll_digest :: "((poll_error + outcome) \<times> 'w) option \<Rightarrow>
    (bool \<times> nat \<times> unsettled_cause option \<times> string list) option" where
  "poll_digest r = (case r of Some (Inr out, _) \<Rightarrow>
     Some (ro_stable out, ro_complete_polls out, ro_cause out, ro_missing out) | _ \<Rightarrow> None)"

lemma sample_settles:
  "poll_digest (read_back_all (sample_args 1 20) [sample_probe ''a'', sample_probe ''b''] 0) =
     Some (True, 3, None, [])"
  by code_simp

lemma sample_cut_short:
  "poll_digest (read_back_all (sample_args 2 3) [sample_probe ''a'', sample_probe ''b''] 0) =
     Some (False, 1, Some NotEnoughTime, [''b''])"
  by code_simp

theorem read_back_all_ends_witness:
  "\<exists>out w'. read_back_all (sample_args 1 20) [sample_probe ''a''] 0 = Some (Inr out, w') \<or>
     (\<exists>e. read_back_all (sample_args 1 20) [sample_probe ''a''] 0 = Some (Inl (LookupError e), w'))"
  using read_back_all_ends [OF sample_timing sample_store_patient, of 1 20 "[sample_probe ''a'']" 0]
  by (auto simp: sample_args_def)

theorem settled_iff_still_witness:
  "\<exists>out w' obs q. read_back_all (sample_args 1 20) [sample_probe ''a'', sample_probe ''b''] 0 =
       Some (Inr out, w') \<and> ro_stable out \<and> length obs = 3 \<and> quiet_run obs = Some q \<and>
     final_state (sample_args 1 20) out = snd (last obs) \<and> 2 \<le> ro_elapsed out - q"
proof -
  obtain out w' where run: "read_back_all (sample_args 1 20) [sample_probe ''a'', sample_probe ''b''] 0 =
      Some (Inr out, w')" and out: "ro_stable out" "ro_complete_polls out = 3"
    using sample_settles by (auto simp: poll_digest_def split: option.splits sum.splits prod.splits)
  have "read_clock (pa_timing (sample_args 1 20)) 0 = (0, 0)"
    by (simp add: sample_args_def additive_def)
  from settled_iff_still [OF sample_timing sample_store_patient run this] out
  obtain obs q where "length obs = 3" "quiet_run obs = Some q"
    "final_state (sample_args 1 20) out = snd (last obs)" "2 \<le> ro_elapsed out - q"
    by (auto simp: sample_args_def)
  with run out show ?thesis by blast
qed

text \<open>A change the budget's last, unfinished poll saw after the only complete one is reported
  as \<open>NotEnoughTime\<close>: tag \<open>a\<close> went from no record to one while the run looked.\<close>

lemma change_after_one_poll:
  "\<exists>out w'. read_back_all (sample_args 2 3) [sample_probe ''a'', sample_probe ''b''] 0 =
       Some (Inr out, w') \<and> ro_complete_polls out = 1 \<and> ro_cause out = Some NotEnoughTime \<and>
     ro_missing out = [''b''] \<and> src_fetch (sample_store 2) (sample_probe ''a'') 0 = (Answer (plain_result []), 1)"
  using sample_cut_short
  by (auto simp: poll_digest_def sample_store_def split: option.splits sum.splits prod.splits)

end
