(* ===== verification/Expectations.thy ===== *)
theory Expectations
  imports Readback Payload
begin

text \<open>
  Model of \<open>testinghq/pipeline/expectations.py\<close>: what one payload should have
  produced, the six checks with their three-state verdict, the evaluation of one
  payload against one record or several, the two threading checks, and the
  matcher that grades a saved record. A check's \<open>detail\<close> sentence is a value of
  \<open>detail\<close>, one constructor per sentence of the source with the values
  the source interpolates.
\<close>

section \<open>Names, reasons and match modes\<close>

definition CHECK_TICKET_CREATED :: string where "CHECK_TICKET_CREATED = ''ticket_created''"
definition CHECK_SENDER :: string where "CHECK_SENDER = ''sender''"
definition CHECK_SUBJECT :: string where "CHECK_SUBJECT = ''subject''"
definition CHECK_BODY :: string where "CHECK_BODY = ''body''"
definition CHECK_ATTACHMENTS :: string where "CHECK_ATTACHMENTS = ''attachments''"
definition CHECK_ROUTING :: string where "CHECK_ROUTING = ''routing''"

definition CHECKS :: "string list" where
  "CHECKS = [CHECK_TICKET_CREATED, CHECK_SENDER, CHECK_SUBJECT, CHECK_BODY,
     CHECK_ATTACHMENTS, CHECK_ROUTING]"

lemmas check_names = CHECK_TICKET_CREATED_def CHECK_SENDER_def CHECK_SUBJECT_def
  CHECK_BODY_def CHECK_ATTACHMENTS_def CHECK_ROUTING_def

datatype check_status = Passed | Failed | Skipped

datatype skip_reason = NoRecord | FieldNotVisible | NothingToCheck | NoExpectedRoute

definition SKIP_REASONS :: "skip_reason list" where
  "SKIP_REASONS = [NoRecord, FieldNotVisible, NothingToCheck, NoExpectedRoute]"

definition SUBJECT_MATCH_MODES :: "string list" where
  "SUBJECT_MATCH_MODES = [''exact'', ''contains'', ''suffix'']"

definition DEFAULT_SUBJECT_MATCH :: string where
  "DEFAULT_SUBJECT_MATCH = ''contains''"

definition ATTACHMENT_MATCH_MODES :: "string list" where
  "ATTACHMENT_MATCH_MODES = [''exact'', ''loose'']"

definition DEFAULT_ATTACHMENT_MATCH :: string where
  "DEFAULT_ATTACHMENT_MATCH = ''exact''"

datatype expectation_error =
    BadSubjectMatch string
  | BadAttachmentMatch string
  | IncompleteRecord string "string list"
  | MatcherReadback readback_error

definition validate_match_modes :: "string \<Rightarrow> string \<Rightarrow> expectation_error + unit" where
  "validate_match_modes sm am =
     (if sm \<notin> set SUBJECT_MATCH_MODES then Inl (BadSubjectMatch sm)
      else if am \<notin> set ATTACHMENT_MATCH_MODES then Inl (BadAttachmentMatch am)
      else Inr ())"

section \<open>Expectations\<close>

record expectations =
  ex_sender :: string
  ex_subject :: string
  ex_body_core :: string
  ex_body_full :: string
  ex_attachment_names :: "string list"
  ex_route :: "string option"
  ex_body_exact :: bool
  ex_subject_match :: string
  ex_attachment_match :: string

text \<open>\<open>from_email\<close>, with the validation its constructor runs.\<close>

definition from_email ::
  "email \<Rightarrow> string option \<Rightarrow> bool \<Rightarrow> string \<Rightarrow> string \<Rightarrow> expectation_error + expectations" where
  "from_email e route body_exact sm am =
     (case validate_match_modes sm am of
        Inl err \<Rightarrow> Inl err
      | Inr _ \<Rightarrow> Inr \<lparr>
          ex_sender = gt_from_addr (em_ground_truth e),
          ex_subject = gt_subject (em_ground_truth e),
          ex_body_core = gt_body_core (em_ground_truth e),
          ex_body_full = em_text e,
          ex_attachment_names = map at_filename (em_attachments e),
          ex_route = route,
          ex_body_exact = body_exact,
          ex_subject_match = sm,
          ex_attachment_match = am\<rparr>)"

definition body_match :: "expectations \<Rightarrow> string" where
  "body_match x = (if ex_body_exact x then ''exact'' else ''contains'')"

definition expected_body :: "expectations \<Rightarrow> string" where
  "expected_body x =
     (if ex_body_exact x \<and> ex_body_full x \<noteq> [] then ex_body_full x else ex_body_core x)"

definition route_for :: "expectations \<Rightarrow> string option" where
  "route_for x = ex_route x"

section \<open>Check results and verifications\<close>

datatype link_problem =
    WrongInReplyTo "string option" string
  | ReferencesWithoutParent "string list" string
  | ReferencesIncomplete "string list" "string list"

datatype detail =
    Lit string
  | FieldsNotVisible string "(string \<times> string) list"
  | RecordNotLive "string option"
  | CreatedAs "string option"
  | SenderParsed string
  | SenderDisplayNameOnly string string
  | SenderDiffers string string
  | SubjectIntact string
  | SubjectDiffers string string string
  | BodyMatched string bool
  | BodyDiffers string string string bool
  | AttachmentsPresent nat string
  | AttachmentsDiffer nat "string list" "string list" string
  | RoutedTo string
  | RouteDiffers string string
  | RecordsForOneMessage nat "string list"
  | LinkedTo string nat "string list"
  | LinkProblems "link_problem list"
  | BothOnTicket string
  | OnTickets string string

record check_result =
  cr_name :: string
  cr_passed :: "bool option"
  cr_detail :: detail
  cr_expected :: pyval
  cr_actual :: pyval
  cr_reason :: "skip_reason option"

definition status :: "check_result \<Rightarrow> check_status" where
  "status c = (case cr_passed c of
      None \<Rightarrow> Skipped | Some True \<Rightarrow> Passed | Some False \<Rightarrow> Failed)"

record verification =
  vf_record_id :: string
  vf_tag :: string
  vf_found :: bool
  vf_checks :: "check_result list"

definition failures :: "verification \<Rightarrow> check_result list" where
  "failures v = filter (\<lambda>c. cr_passed c = Some False) (vf_checks v)"

definition skipped :: "verification \<Rightarrow> check_result list" where
  "skipped v = filter (\<lambda>c. cr_passed c = None) (vf_checks v)"

definition skip_reason_of :: "check_result \<Rightarrow> skip_reason" where
  "skip_reason_of c = (case cr_reason c of Some r \<Rightarrow> r | None \<Rightarrow> FieldNotVisible)"

definition skips_by_reason :: "verification \<Rightarrow> (skip_reason \<times> (string \<times> nat) list) list" where
  "skips_by_reason v = map (\<lambda>r. (r, tally (map cr_name
     (filter (\<lambda>c. skip_reason_of c = r) (skipped v))))) SKIP_REASONS"

definition vf_passed :: "verification \<Rightarrow> bool" where
  "vf_passed v \<longleftrightarrow> failures v = []"

definition mismatch_strings :: "verification \<Rightarrow> (string \<times> detail) list" where
  "mismatch_strings v = map (\<lambda>c. (cr_name c, cr_detail c)) (failures v)"

section \<open>Comparison helpers\<close>

text \<open>\<open>re.sub\<close> for a pattern given as a matcher at the start of a string: the
  leftmost matches, none of them empty, replaced one after the other.\<close>

function re_sub :: "(string \<Rightarrow> string option) \<Rightarrow> string \<Rightarrow> string \<Rightarrow> string" where
  "re_sub m rep [] = []"
| "re_sub m rep (c # cs) =
     (case m (c # cs) of
        Some r \<Rightarrow> if length r \<le> length cs then rep @ re_sub m rep r else c # re_sub m rep cs
      | None \<Rightarrow> c # re_sub m rep cs)"
  by pat_completeness auto
termination by (relation "measure (\<lambda>(m, rep, s). length s)") auto

text \<open>\<open>re.search\<close>: the rest of the string after the leftmost match.\<close>

fun re_search :: "(string \<Rightarrow> 'a option) \<Rightarrow> string \<Rightarrow> 'a option" where
  "re_search m [] = m []"
| "re_search m (c # cs) = (case m (c # cs) of Some r \<Rightarrow> Some r | None \<Rightarrow> re_search m cs)"

definition starts :: "char \<Rightarrow> string \<Rightarrow> bool" where
  "starts c s \<longleftrightarrow> s \<noteq> [] \<and> hd s = c"

definition is_word_char :: "char \<Rightarrow> bool" where
  "is_word_char c \<longleftrightarrow> is_alnum c \<or> c = CHR ''_''"

definition at_word_end :: "string \<Rightarrow> bool" where
  "at_word_end s \<longleftrightarrow> s = [] \<or> \<not> is_word_char (hd s)"

text \<open>\<open>_ANGLE_ADDRESS\<close>: \<open><\s*([^<>\s]+@[^<>\s]+)\s*>\<close>; the group is captured.\<close>

definition angle_address_at :: "string \<Rightarrow> string option" where
  "angle_address_at s =
     (if starts CHR ''<'' s then
        (let body = dropWhile is_space (tl s);
             word = takeWhile (\<lambda>c. c \<noteq> CHR ''<'' \<and> c \<noteq> CHR ''>'' \<and> \<not> is_space c) body;
             rest = dropWhile is_space (drop (length word) body)
         in if starts CHR ''>'' rest \<and> CHR ''@'' \<in> set (butlast (tl word))
            then Some word else None)
      else None)"

text \<open>\<open>_HTML_TAG\<close>: \<open></?[A-Za-z][A-Za-z0-9]*(?:\s[^<>]*)?/?>\<close>.\<close>

definition html_tag_at :: "string \<Rightarrow> string option" where
  "html_tag_at s =
     (if starts CHR ''<'' s then
        (let t = (if starts CHR ''/'' (tl s) then tl (tl s) else tl s)
         in if t \<noteq> [] \<and> is_alpha (hd t) then
              (let r = dropWhile (\<lambda>c. is_alnum c) t
               in if r \<noteq> [] \<and> is_space (hd r) then
                    (let q = dropWhile (\<lambda>c. c \<noteq> CHR ''<'' \<and> c \<noteq> CHR ''>'') r
                     in if starts CHR ''>'' q then Some (tl q) else None)
                  else
                    (let q = (if starts CHR ''/'' r then tl r else r)
                     in if starts CHR ''>'' q then Some (tl q) else None))
            else None)
      else None)"

text \<open>\<open>_HTML_DROP\<close>: \<open><(script|style|head)\b.*?</\1\s*>\<close>, ignoring case.\<close>

definition html_close_at :: "string \<Rightarrow> string \<Rightarrow> string option" where
  "html_close_at n s =
     (if prefix (''</'' @ n) (casefold s) then
        (let r = dropWhile is_space (drop (2 + length n) s)
         in if starts CHR ''>'' r then Some (tl r) else None)
      else None)"

definition html_drop_at :: "string \<Rightarrow> string option" where
  "html_drop_at s =
     (case find (\<lambda>n. prefix (CHR ''<'' # n) (casefold s) \<and> at_word_end (drop (1 + length n) s))
        [''script'', ''style'', ''head''] of
        None \<Rightarrow> None
      | Some n \<Rightarrow> re_search (html_close_at n) (drop (1 + length n) s))"

text \<open>\<open>_HTML_BREAK\<close>: \<open><\s*(br|/p|/div|/li|/tr|/h[1-6])\b[^>]*>\<close>, ignoring case.\<close>

definition html_break_names :: "string list" where
  "html_break_names = [''br'', ''/p'', ''/div'', ''/li'', ''/tr'',
     ''/h1'', ''/h2'', ''/h3'', ''/h4'', ''/h5'', ''/h6'']"

definition html_break_at :: "string \<Rightarrow> string option" where
  "html_break_at s =
     (if starts CHR ''<'' s then
        (let t = dropWhile is_space (tl s)
         in case find (\<lambda>n. prefix n (casefold t) \<and> at_word_end (drop (length n) t))
              html_break_names of
              None \<Rightarrow> None
            | Some n \<Rightarrow>
                (let q = dropWhile (\<lambda>c. c \<noteq> CHR ''>'') (drop (length n) t)
                 in if starts CHR ''>'' q then Some (tl q) else None))
      else None)"

fun sender_address :: "pylib \<Rightarrow> pyval \<Rightarrow> string" where
  "sender_address L (PStr s) =
     (if strip s = [] then []
      else case re_search angle_address_at s of
        Some a \<Rightarrow> casefold (strip a)
      | None \<Rightarrow>
          (case find (\<lambda>a. CHR ''@'' \<in> set a) (lib_getaddresses L s) of
             Some a \<Rightarrow> casefold (strip_chars ''<>'' (strip a))
           | None \<Rightarrow> []))"
| "sender_address L v = []"

definition looks_like_html :: "string \<Rightarrow> bool" where
  "looks_like_html s \<longleftrightarrow> re_search html_tag_at s \<noteq> None"

definition html_to_text :: "pylib \<Rightarrow> string \<Rightarrow> string" where
  "html_to_text L s = lib_unescape L
     (re_sub html_tag_at '' '' (re_sub html_break_at [CHR 0x0A] (re_sub html_drop_at '' '' s)))"

definition loose_attachment_key :: "string \<Rightarrow> string" where
  "loose_attachment_key name =
     (let base = strip (base_name name);
          stem = (if CHR ''.'' \<in> set (tl base) then before_last CHR ''.'' base else base);
          key = filter (\<lambda>c. is_alnum c) (casefold stem)
      in if key \<noteq> [] then key else casefold base)"

section \<open>The individual checks\<close>

definition mk_skipped :: "string \<Rightarrow> detail \<Rightarrow> skip_reason \<Rightarrow> check_result" where
  "mk_skipped name d reason = \<lparr>cr_name = name, cr_passed = None, cr_detail = d,
     cr_expected = PNone, cr_actual = PNone, cr_reason = Some reason\<rparr>"

definition mk_failed :: "string \<Rightarrow> detail \<Rightarrow> pyval \<Rightarrow> pyval \<Rightarrow> check_result" where
  "mk_failed name d expected actual = \<lparr>cr_name = name, cr_passed = Some False, cr_detail = d,
     cr_expected = expected, cr_actual = actual, cr_reason = None\<rparr>"

definition mk_passed :: "string \<Rightarrow> detail \<Rightarrow> check_result" where
  "mk_passed name d = \<lparr>cr_name = name, cr_passed = Some True, cr_detail = d,
     cr_expected = PNone, cr_actual = PNone, cr_reason = None\<rparr>"

definition not_visible :: "string \<Rightarrow> string \<Rightarrow> readback \<Rightarrow> string list \<Rightarrow> check_result" where
  "not_visible name d r asked =
     (let notes = concat (map (\<lambda>f. case note_for r f of
            Some n \<Rightarrow> if n \<noteq> [] then [(f, n)] else [] | None \<Rightarrow> []) asked)
      in mk_skipped name (if notes = [] then Lit d else FieldsNotVisible d notes) FieldNotVisible)"

definition str_seq :: "string list \<Rightarrow> pyval" where
  "str_seq ss = PSeq (map PStr ss)"

definition check_ticket_created :: "readback option \<Rightarrow> check_result" where
  "check_ticket_created rb =
     (case rb of
        None \<Rightarrow> mk_failed CHECK_TICKET_CREATED
          (Lit ''the system under test holds no record of this message'') PNone PNone
      | Some r \<Rightarrow>
          if \<not> rb_exists r
          then mk_failed CHECK_TICKET_CREATED (RecordNotLive (rb_ticket_id r)) PNone
            (opt_val (rb_ticket_id r))
          else mk_passed CHECK_TICKET_CREATED (CreatedAs (rb_ticket_id r)))"

definition check_sender :: "pylib \<Rightarrow> readback option \<Rightarrow> expectations \<Rightarrow> check_result" where
  "check_sender L rb x =
     (case rb of
        None \<Rightarrow> mk_skipped CHECK_SENDER (Lit ''no record to read a sender from'') NoRecord
      | Some r \<Rightarrow>
          if \<not> has r ''from_addr''
          then not_visible CHECK_SENDER ''the adapter could not see a sender on this record''
            r [''from_addr'']
          else
            (let expected = sender_address L (PStr (ex_sender x));
                 actual = sender_address L (opt_val (rb_from_addr r))
             in if expected = actual then mk_passed CHECK_SENDER (SenderParsed actual)
                else if actual = [] \<and> (case rb_from_addr r of None \<Rightarrow> False | Some s \<Rightarrow> strip s \<noteq> [])
                then mk_failed CHECK_SENDER
                  (SenderDisplayNameOnly expected (strip (the (rb_from_addr r))))
                  (PStr (ex_sender x)) (opt_val (rb_from_addr r))
                else mk_failed CHECK_SENDER (SenderDiffers expected actual)
                  (PStr (ex_sender x)) (opt_val (rb_from_addr r))))"

definition check_subject :: "readback option \<Rightarrow> expectations \<Rightarrow> check_result" where
  "check_subject rb x =
     (case rb of
        None \<Rightarrow> mk_skipped CHECK_SUBJECT (Lit ''no record to read a subject from'') NoRecord
      | Some r \<Rightarrow>
          if \<not> has r ''subject''
          then not_visible CHECK_SUBJECT ''the adapter could not see a subject on this record''
            r [''subject'']
          else
            (let mode = ex_subject_match x;
                 expected = normalize_text (PStr (ex_subject x));
                 actual = normalize_text (opt_val (rb_subject r));
                 ok = (if mode = ''exact'' then expected = actual
                       else if mode = ''suffix'' then suffix expected actual
                       else sublist expected actual)
             in if ok then mk_passed CHECK_SUBJECT (SubjectIntact mode)
                else mk_failed CHECK_SUBJECT (SubjectDiffers expected actual mode)
                  (PStr (ex_subject x)) (opt_val (rb_subject r))))"

definition body_as_text :: "pylib \<Rightarrow> string \<Rightarrow> string" where
  "body_as_text L stored = (if looks_like_html stored then html_to_text L stored else stored)"

definition check_body :: "pylib \<Rightarrow> readback option \<Rightarrow> expectations \<Rightarrow> check_result" where
  "check_body L rb x =
     (case rb of
        None \<Rightarrow> mk_skipped CHECK_BODY (Lit ''no record to read a body from'') NoRecord
      | Some r \<Rightarrow>
          if \<not> has r ''body''
          then not_visible CHECK_BODY ''the adapter could not see a body on this record''
            r [''body'']
          else
            (let expected = normalize_text (PStr (expected_body x))
             in if expected = []
                then mk_skipped CHECK_BODY (Lit ''the payload carried no body to check'')
                  NothingToCheck
                else
                  (let stored = (case rb_body r of Some s \<Rightarrow> s | None \<Rightarrow> []);
                       actual = normalize_text (PStr (body_as_text L stored));
                       mode = body_match x;
                       ok = (if ex_body_exact x then expected = actual
                             else sublist expected actual)
                   in if ok then mk_passed CHECK_BODY (BodyMatched mode (looks_like_html stored))
                      else mk_failed CHECK_BODY
                        (BodyDiffers expected actual mode (looks_like_html stored))
                        (PStr (expected_body x)) (opt_val (rb_body r)))))"

definition check_attachments_loose :: "readback \<Rightarrow> expectations \<Rightarrow> check_result" where
  "check_attachments_loose r x =
     (let expected = mset (map loose_attachment_key (ex_attachment_names x));
          actual = mset (map loose_attachment_key (rb_attachment_names r))
      in if expected = actual
         then mk_passed CHECK_ATTACHMENTS (AttachmentsPresent (size expected) ''loose'')
         else mk_failed CHECK_ATTACHMENTS
           (AttachmentsDiffer (length (rb_attachment_names r))
             (filter (\<lambda>n. loose_attachment_key n \<in># expected - actual) (ex_attachment_names x))
             (filter (\<lambda>n. loose_attachment_key n \<in># actual - expected) (rb_attachment_names r))
             ''loose'')
           (str_seq (ex_attachment_names x)) (str_seq (rb_attachment_names r)))"

definition check_attachments :: "readback option \<Rightarrow> expectations \<Rightarrow> check_result" where
  "check_attachments rb x =
     (case rb of
        None \<Rightarrow> mk_skipped CHECK_ATTACHMENTS (Lit ''no record to read attachments from'') NoRecord
      | Some r \<Rightarrow>
          if \<not> has r ''attachment_names''
          then not_visible CHECK_ATTACHMENTS
            ''the adapter could not see attachments on this record'' r [''attachment_names'']
          else
            (let expected = attachment_keys (ex_attachment_names x)
             in if expected = []
                then mk_skipped CHECK_ATTACHMENTS
                  (Lit ''the payload carried no attachments to check'') NothingToCheck
                else if ex_attachment_match x = ''loose'' then check_attachments_loose r x
                else
                  (let actual = attachment_keys (rb_attachment_names r)
                   in if expected = actual
                      then mk_passed CHECK_ATTACHMENTS
                        (AttachmentsPresent (length expected) (ex_attachment_match x))
                      else mk_failed CHECK_ATTACHMENTS
                        (AttachmentsDiffer (length actual)
                          (filter (\<lambda>n. n \<notin> set actual) expected)
                          (filter (\<lambda>n. n \<notin> set expected) actual) (ex_attachment_match x))
                        (str_seq expected) (str_seq actual))))"

definition check_routing :: "readback option \<Rightarrow> expectations \<Rightarrow> check_result" where
  "check_routing rb x =
     (case route_for x of
        None \<Rightarrow> mk_skipped CHECK_ROUTING
          (Lit ''no expected route: declare one with --expect-route to check routing'')
          NoExpectedRoute
      | Some expected_value \<Rightarrow>
          (case rb of
             None \<Rightarrow> mk_skipped CHECK_ROUTING (Lit ''no record to read a route from'') NoRecord
           | Some r \<Rightarrow>
               if \<not> has r ''route''
               then not_visible CHECK_ROUTING ''the adapter could not see a route on this record''
                 r [''route'']
               else
                 (let expected = normalize_route (PStr expected_value);
                      actual = normalize_route (opt_val (rb_route r))
                  in if expected = actual then mk_passed CHECK_ROUTING (RoutedTo actual)
                     else mk_failed CHECK_ROUTING (RouteDiffers expected actual)
                       (PStr expected_value) (opt_val (rb_route r)))))"

section \<open>The evaluation\<close>

definition evaluate ::
  "pylib \<Rightarrow> readback option \<Rightarrow> expectations \<Rightarrow> string \<Rightarrow> string \<Rightarrow> verification" where
  "evaluate L rb x record_id tag = \<lparr>
     vf_record_id = (if record_id \<noteq> [] then record_id else tag),
     vf_tag = tag,
     vf_found = (rb \<noteq> None),
     vf_checks = [check_ticket_created rb, check_sender L rb x, check_subject rb x,
       check_body L rb x, check_attachments rb x, check_routing rb x]\<rparr>"

definition ticket_ids :: "readback list \<Rightarrow> string list" where
  "ticket_ids rs = map (\<lambda>r. case rb_ticket_id r of Some t \<Rightarrow> t | None \<Rightarrow> ''None'') rs"

definition evaluate_sequence ::
  "pylib \<Rightarrow> readback list \<Rightarrow> expectations \<Rightarrow> string \<Rightarrow> string \<Rightarrow> verification" where
  "evaluate_sequence L rs x record_id tag =
     (case rs of
        [] \<Rightarrow> evaluate L None x record_id tag
      | [r] \<Rightarrow> evaluate L (Some r) x record_id tag
      | r # _ \<Rightarrow> \<lparr>
          vf_record_id = (if record_id \<noteq> [] then record_id else tag),
          vf_tag = tag,
          vf_found = True,
          vf_checks =
            mk_failed CHECK_TICKET_CREATED (RecordsForOneMessage (length rs) (ticket_ids rs))
              (PInt 1) (PInt (int (length rs)))
            # tl (vf_checks (evaluate L (Some r) x record_id tag))\<rparr>)"

section \<open>Threading checks\<close>

definition ids_of :: "string option \<Rightarrow> string list" where
  "ids_of v = (case v of None \<Rightarrow> [] | Some s \<Rightarrow> message_id_tokens (split_ws s))"

definition check_thread_link :: "readback option \<Rightarrow> string \<Rightarrow> string list \<Rightarrow> check_result" where
  "check_thread_link rb parent ancestry =
     (let name = ''thread_link'' in
      case rb of
        None \<Rightarrow> mk_skipped name (Lit ''no record to read threading headers from'') NoRecord
      | Some r \<Rightarrow>
          if parent = []
          then mk_skipped name (Lit ''no parent message id to check against'') NothingToCheck
          else if ids_of (Some parent) = []
          then mk_skipped name (Lit ''the parent message id normalizes to nothing'') NothingToCheck
          else
            (let parent_ids = set (ids_of (Some parent));
                 visible = filter (has r) [''in_reply_to'', ''references''];
                 wanted_chain = (if ancestry = [] then [] else message_id_tokens ancestry);
                 stored = set (message_id_tokens (rb_references r));
                 lost = filter (\<lambda>m. m \<notin> stored) wanted_chain;
                 problems =
                   (if ''in_reply_to'' \<in> set visible \<and> set (ids_of (rb_in_reply_to r)) \<noteq> parent_ids
                    then [WrongInReplyTo (rb_in_reply_to r) parent] else []) @
                   (if ''references'' \<notin> set visible then []
                    else if \<not> parent_ids \<subseteq> stored
                    then [ReferencesWithoutParent (rb_references r) parent]
                    else if lost \<noteq> [] then [ReferencesIncomplete (rb_references r) lost] else [])
             in if visible = []
                then not_visible name
                  ''the adapter could not see an In-Reply-To or a References header''
                  r [''in_reply_to'', ''references'']
                else if problems \<noteq> []
                then mk_failed name (LinkProblems problems)
                  (if wanted_chain \<noteq> [] then str_seq wanted_chain else PStr parent)
                  (if ''references'' \<in> set visible then str_seq (rb_references r) else PNone)
                else (mk_passed name (LinkedTo parent
                    (if ''references'' \<in> set visible then length wanted_chain else 0)
                    (filter (\<lambda>f. f \<notin> set visible) [''in_reply_to'', ''references''])))
                  \<lparr>cr_expected := PStr parent\<rparr>))"

definition check_thread_together :: "readback option \<Rightarrow> readback option \<Rightarrow> check_result" where
  "check_thread_together reply original =
     (let name = ''thread_together'' in
      case (reply, original) of
        (Some a, Some b) \<Rightarrow>
          if \<not> truthy (rb_ticket_id a) \<or> \<not> truthy (rb_ticket_id b)
          then mk_skipped name (Lit ''one of the two records carries no ticket id'') NothingToCheck
          else if rb_ticket_id a = rb_ticket_id b
          then mk_passed name (BothOnTicket (the (rb_ticket_id a)))
          else mk_failed name (OnTickets (the (rb_ticket_id a)) (the (rb_ticket_id b)))
            (opt_val (rb_ticket_id b)) (opt_val (rb_ticket_id a))
      | _ \<Rightarrow> mk_skipped name (Lit ''both the reply and its original must be present'') NoRecord)"

section \<open>Grading a saved record\<close>

record blast_record =
  br_id :: string
  br_intended :: "pyval dict"

definition intended_str :: "blast_record \<Rightarrow> string \<Rightarrow> string" where
  "intended_str rec k = (case map_of (br_intended rec) k of Some (PStr s) \<Rightarrow> s | _ \<Rightarrow> [])"

definition expectations_from_record :: "blast_record \<Rightarrow> expectation_error + expectations" where
  "expectations_from_record rec =
     (let missing = filter (\<lambda>k. map_of (br_intended rec) k = None)
        [''from'', ''subject'', ''body_core'']
      in if missing \<noteq> [] then Inl (IncompleteRecord (br_id rec) missing)
         else Inr \<lparr>
           ex_sender = intended_str rec ''from'',
           ex_subject = intended_str rec ''subject'',
           ex_body_core = intended_str rec ''body_core'',
           ex_body_full = [],
           ex_attachment_names = [],
           ex_route = (case map_of (br_intended rec) ''route'' of
               Some (PStr s) \<Rightarrow> Some s | _ \<Rightarrow> None),
           ex_body_exact = False,
           ex_subject_match = DEFAULT_SUBJECT_MATCH,
           ex_attachment_match = DEFAULT_ATTACHMENT_MATCH\<rparr>)"

definition evaluate_from_record ::
  "pylib \<Rightarrow> blast_record \<Rightarrow> readback \<Rightarrow> expectations \<Rightarrow> verification" where
  "evaluate_from_record L rec r x = \<lparr>
     vf_record_id = br_id rec,
     vf_tag = (case rb_tag r of Some t \<Rightarrow> t | None \<Rightarrow> []),
     vf_found = True,
     vf_checks = [check_ticket_created (Some r), check_sender L (Some r) x,
       check_subject (Some r) x, check_body L (Some r) x,
       \<lparr>cr_name = CHECK_ATTACHMENTS, cr_passed = None,
        cr_detail = Lit (''a saved run record stores an attachment count, not filenames, '' @
          ''so attachment names cannot be checked without the payload''),
        cr_expected = PNone, cr_actual = PNone, cr_reason = None\<rparr>,
       check_routing (Some r) x]\<rparr>"

text \<open>What \<open>GroundTruthMatcher.match\<close> may be handed as \<open>readback\<close>, and its
  result: the verdict and the mismatches.\<close>

datatype matcher_readback = RbNone | RbOne readback | RbSeq "readback list" | RbOther string

datatype matcher_mismatch =
    NoRecordFound | RecordsFound nat | CheckMismatch string detail

definition matcher_grade ::
  "pylib \<Rightarrow> expectations option \<Rightarrow> blast_record \<Rightarrow> readback \<Rightarrow>
     expectation_error + bool \<times> matcher_mismatch list" where
  "matcher_grade L own rec r =
     (case (case own of Some x \<Rightarrow> Inr x | None \<Rightarrow> expectations_from_record rec) of
        Inl e \<Rightarrow> Inl e
      | Inr x \<Rightarrow> (let v = evaluate_from_record L rec r x
          in Inr (vf_passed v, map (\<lambda>(n, d). CheckMismatch n d) (mismatch_strings v))))"

definition matcher_match ::
  "pylib \<Rightarrow> expectations option \<Rightarrow> blast_record \<Rightarrow> matcher_readback \<Rightarrow>
     expectation_error + bool \<times> matcher_mismatch list" where
  "matcher_match L own rec rb =
     (case rb of
        RbNone \<Rightarrow> Inr (False, [NoRecordFound])
      | RbSeq rs \<Rightarrow> if length rs \<noteq> 1 then Inr (False, [RecordsFound (length rs)])
          else matcher_grade L own rec (hd rs)
      | RbOne r \<Rightarrow> matcher_grade L own rec r
      | RbOther t \<Rightarrow> Inl (MatcherReadback (NotAReadback t)))"

section \<open>Facts about the checks\<close>

lemmas check_makers = mk_skipped_def mk_failed_def mk_passed_def not_visible_def Let_def

lemma made_names [simp]:
  "cr_name (mk_skipped n d r) = n" "cr_name (mk_failed n d e a) = n" "cr_name (mk_passed n d) = n"
  "cr_name (not_visible n l rb fs) = n"
  by (simp_all add: check_makers)

lemma made_verdicts [simp]:
  "cr_passed (mk_skipped n d r) = None" "cr_passed (mk_failed n d e a) = Some False"
  "cr_passed (mk_passed n d) = Some True" "cr_passed (not_visible n l rb fs) = None"
  by (simp_all add: check_makers)

lemma made_reasons [simp]:
  "cr_reason (mk_skipped n d r) = Some r" "cr_reason (mk_failed n d e a) = None"
  "cr_reason (mk_passed n d) = None" "cr_reason (not_visible n l rb fs) = Some FieldNotVisible"
  by (simp_all add: check_makers)

lemmas check_defs = check_ticket_created_def check_sender_def check_subject_def check_body_def
  check_attachments_def check_attachments_loose_def check_routing_def

lemma check_result_names [simp]:
  "cr_name (check_ticket_created rb) = CHECK_TICKET_CREATED"
  "cr_name (check_sender L rb x) = CHECK_SENDER"
  "cr_name (check_subject rb x) = CHECK_SUBJECT"
  "cr_name (check_body L rb x) = CHECK_BODY"
  "cr_name (check_attachments rb x) = CHECK_ATTACHMENTS"
  "cr_name (check_routing rb x) = CHECK_ROUTING"
  by (auto simp: check_defs Let_def split: option.splits)

text \<open>The field of a readback each check reads.\<close>

definition field_of_check :: "string \<Rightarrow> string" where
  "field_of_check c =
     (if c = CHECK_SENDER then ''from_addr'' else if c = CHECK_SUBJECT then ''subject''
      else if c = CHECK_BODY then ''body'' else if c = CHECK_ATTACHMENTS then ''attachment_names''
      else if c = CHECK_ROUTING then ''route'' else ''ticket_id'')"

lemma field_of_check_simps [simp]:
  "field_of_check CHECK_SENDER = ''from_addr''" "field_of_check CHECK_SUBJECT = ''subject''"
  "field_of_check CHECK_BODY = ''body''" "field_of_check CHECK_ATTACHMENTS = ''attachment_names''"
  "field_of_check CHECK_ROUTING = ''route''"
  by (simp_all add: field_of_check_def check_names)

lemma check_none [simp]:
  "cr_passed (check_ticket_created None) = Some False"
  "cr_passed (check_sender L None x) = None"
  "cr_passed (check_subject None x) = None"
  "cr_passed (check_body L None x) = None"
  "cr_passed (check_attachments None x) = None"
  "cr_passed (check_routing None x) = None"
  by (auto simp: check_defs split: option.splits)

lemma check_decided_has:
  "cr_passed (check_sender L (Some r) x) = Some b \<Longrightarrow> has r ''from_addr''"
  "cr_passed (check_subject (Some r) x) = Some b \<Longrightarrow> has r ''subject''"
  "cr_passed (check_body L (Some r) x) = Some b \<Longrightarrow> has r ''body''"
  "cr_passed (check_attachments (Some r) x) = Some b \<Longrightarrow> has r ''attachment_names''"
  "cr_passed (check_routing (Some r) x) = Some b \<Longrightarrow> has r ''route''"
  by (auto simp: check_defs Let_def split: if_splits option.splits)

lemma vf_checks_evaluate [simp]:
  "vf_checks (evaluate L rb x rid t) = [check_ticket_created rb, check_sender L rb x,
     check_subject rb x, check_body L rb x, check_attachments rb x, check_routing rb x]"
  by (simp add: evaluate_def)

lemma vf_tag_evaluate [simp]:
  "vf_tag (evaluate L rb x rid t) = t" "vf_tag (evaluate_sequence L rs x rid t) = t"
  by (auto simp: evaluate_def evaluate_sequence_def split: list.splits)

lemma vf_found_sequence [simp]: "vf_found (evaluate_sequence L rs x rid t) \<longleftrightarrow> rs \<noteq> []"
  by (auto simp: evaluate_def evaluate_sequence_def split: list.splits)

lemma vf_passed_iff: "vf_passed v \<longleftrightarrow> (\<forall>c \<in> set (vf_checks v). cr_passed c \<noteq> Some False)"
  by (auto simp: vf_passed_def failures_def filter_empty_conv)

lemma evaluate_sequence_simps:
  "evaluate_sequence L [] x rid t = evaluate L None x rid t"
  "evaluate_sequence L [r] x rid t = evaluate L (Some r) x rid t"
  by (simp_all add: evaluate_sequence_def)

lemma vf_passed_sequence_iff:
  "vf_passed (evaluate_sequence L rs x rid t) \<longleftrightarrow>
     (\<exists>r. rs = [r] \<and> vf_passed (evaluate L (Some r) x rid t))"
proof (cases rs rule: remdups_adj.cases)
  case 1
  then show ?thesis by (simp add: evaluate_sequence_simps vf_passed_iff)
next
  case (2 r)
  then show ?thesis by (simp add: evaluate_sequence_simps)
next
  case (3 r s rs')
  then show ?thesis by (simp add: evaluate_sequence_def vf_passed_iff)
qed

lemma vf_checks_sequence_names:
  "map cr_name (vf_checks (evaluate_sequence L rs x rid t)) = CHECKS"
  by (auto simp: evaluate_sequence_def CHECKS_def split: list.splits)

lemma opt_val_PNone [simp]: "opt_val v = PNone \<longleftrightarrow> v = None"
  by (cases v) auto

lemma has_value_of:
  "rb_fields r = [] \<Longrightarrow> has r ''from_addr'' \<longleftrightarrow> rb_from_addr r \<noteq> None"
  "rb_fields r = [] \<Longrightarrow> has r ''subject'' \<longleftrightarrow> rb_subject r \<noteq> None"
  "rb_fields r = [] \<Longrightarrow> has r ''body'' \<longleftrightarrow> rb_body r \<noteq> None"
  "rb_fields r = [] \<Longrightarrow> has r ''route'' \<longleftrightarrow> rb_route r \<noteq> None"
  "rb_fields r = [] \<Longrightarrow> has r ''attachment_names''"
  by (simp_all add: has_def value_of_def)

lemma subject_passes:
  assumes "rb_subject r = Some (p @ CHR '' '' # ex_subject x)"
    and "ex_subject_match x = ''exact'' \<Longrightarrow> split_ws p = []"
  shows "cr_passed (check_subject (Some r) x) \<noteq> Some False"
proof -
  let ?f = "\<lambda>s. map casefold (split_ws s)"
  have stored: "normalize_text (opt_val (rb_subject r)) = join '' '' (?f p @ ?f (ex_subject x))"
    using assms(1) by (simp add: normalize_text_words split_ws_append_space)
  have "sublist (join '' '' (?f (ex_subject x))) (join '' '' (?f p @ ?f (ex_subject x)))"
    using sublist_join [of "'' ''" "?f (ex_subject x)" "?f p" "[]"] by simp
  then show ?thesis
    using assms(2) by (auto simp: check_subject_def Let_def normalize_text_words stored suffix_join)
qed

lemma body_passes:
  assumes "rb_body r = Some b"
    and "body_as_text L b = u @ CHR '' '' # expected_body x @ CHR '' '' # w"
    and "ex_body_exact x \<Longrightarrow> split_ws u = [] \<and> split_ws w = []"
  shows "cr_passed (check_body L (Some r) x) \<noteq> Some False"
proof -
  let ?f = "\<lambda>s. map casefold (split_ws s)"
  have "normalize_text (PStr (body_as_text L b)) =
      join '' '' (?f u @ ?f (expected_body x) @ ?f w)"
    using assms(2) by (simp add: normalize_text_words split_ws_append_space)
  moreover have "sublist (normalize_text (PStr (expected_body x)))
      (join '' '' (?f u @ ?f (expected_body x) @ ?f w))"
    by (simp only: normalize_text_words sublist_join)
  ultimately show ?thesis
    using assms(1,3) by (auto simp: check_body_def Let_def normalize_text_words)
qed

lemma attachment_keys_eq_iff:
  "attachment_keys as = attachment_keys bs \<longleftrightarrow>
     set (attachment_keys as) = set (attachment_keys bs)"
  by (simp add: attachment_keys_def sorted_set_eq_iff)

lemma set_attachment_keys_mset:
  "mset as = mset bs \<Longrightarrow> attachment_keys as = attachment_keys bs"
  by (subst attachment_keys_eq_iff) (auto simp: attachment_keys_def dest: mset_eq_setD)

lemma attachments_pass:
  assumes "mset (rb_attachment_names r) = mset (ex_attachment_names x)"
  shows "cr_passed (check_attachments (Some r) x) \<noteq> Some False"
proof -
  have "attachment_keys (ex_attachment_names x) = attachment_keys (rb_attachment_names r)"
    using assms by (intro set_attachment_keys_mset) simp
  moreover have "mset (map loose_attachment_key (ex_attachment_names x)) =
      mset (map loose_attachment_key (rb_attachment_names r))"
    using assms by simp
  ultimately show ?thesis
    by (simp add: check_attachments_def check_attachments_loose_def Let_def)
qed

lemma routing_passes:
  assumes "\<And>v. ex_route x = Some v \<Longrightarrow> route_norm.agree (PStr v) (opt_val (rb_route r))"
  shows "cr_passed (check_routing (Some r) x) \<noteq> Some False"
  using assms
  by (auto simp: check_routing_def route_for_def route_norm.agree_def Let_def split: option.splits)

lemma not_failed_iff: "status c \<noteq> Failed \<longleftrightarrow> cr_passed c \<noteq> Some False"
  by (auto simp: status_def split: option.splits bool.splits)

text \<open>A concrete message and what a correct system holds of it, for the witnesses.\<close>

definition sample_lib :: pylib where
  "sample_lib = \<lparr>lib_getaddresses = (\<lambda>s. [s]), lib_unescape = (\<lambda>s. s)\<rparr>"

definition sample_expectations :: expectations where
  "sample_expectations = \<lparr>ex_sender = ''Ann <ann@example.com>'', ex_subject = ''Printer  broken'',
     ex_body_core = ''It jams'', ex_body_full = ''Hello. It jams. Bye'',
     ex_attachment_names = [''log.txt''], ex_route = Some ''Support'', ex_body_exact = False,
     ex_subject_match = ''contains'', ex_attachment_match = ''exact''\<rparr>"

definition sample_readback :: readback where
  "sample_readback = \<lparr>rb_exists = True, rb_ticket_id = Some ''T1'',
     rb_from_addr = Some ''ANN@example.com'', rb_subject = Some ''[Ticket 7] printer broken'',
     rb_body = Some ''hello. it jams. bye'', rb_attachment_names = [''up/LOG.txt''],
     rb_route = Some '' support '', rb_message_id = None, rb_in_reply_to = None,
     rb_references = [], rb_tag = None, rb_category = None, rb_priority = None,
     rb_fields = [], rb_field_notes = []\<rparr>"

lemma sample_checks:
  "status (check_sender sample_lib (Some sample_readback) sample_expectations) = Passed"
  "status (check_subject (Some sample_readback) sample_expectations) = Passed"
  "status (check_body sample_lib (Some sample_readback) sample_expectations) = Passed"
  "status (check_attachments (Some sample_readback) sample_expectations) = Passed"
  "status (check_routing (Some sample_readback) sample_expectations) = Passed"
  by code_simp+

section \<open>Properties\<close>

text \<open>A check never passes on what was not seen. In the verdict for one payload, a
  check other than \<open>ticket_created\<close> that reports \<open>passed\<close> or \<open>failed\<close> had a record whose
  adapter carried exactly the field the check reads; and with no record at all
  \<open>ticket_created\<close> fails and the five other checks are skipped.\<close>

theorem unseen_is_never_passed:
  "(\<forall>c \<in> set (tl (vf_checks (evaluate L rb x rid t))).
      cr_passed c \<noteq> None \<longrightarrow> (\<exists>r. rb = Some r \<and> has r (field_of_check (cr_name c)))) \<and>
   map status (vf_checks (evaluate L None x rid t)) =
     [Failed, Skipped, Skipped, Skipped, Skipped, Skipped]"
proof (intro conjI ballI impI)
  fix c assume c: "c \<in> set (tl (vf_checks (evaluate L rb x rid t)))" and d: "cr_passed c \<noteq> None"
  show "\<exists>r. rb = Some r \<and> has r (field_of_check (cr_name c))"
  proof (cases rb)
    case None
    with c d show ?thesis by auto
  next
    case (Some r)
    with c d show ?thesis by (auto intro: check_decided_has)
  qed
qed (simp add: status_def)

theorem unseen_is_never_passed_witness:
  "cr_passed (check_subject (Some sample_readback) sample_expectations) = Some True \<and>
   has sample_readback ''subject''"
proof -
  let ?c = "check_subject (Some sample_readback) sample_expectations"
  have p: "cr_passed ?c = Some True" by code_simp
  have "?c \<in> set (tl (vf_checks (evaluate sample_lib (Some sample_readback) sample_expectations [] [])))"
    by simp
  with p unseen_is_never_passed
      [of sample_lib "Some sample_readback" sample_expectations "[]" "[]"]
  show ?thesis by fastforce
qed

text \<open>C30 (one live record, or no pass). The verdict over the records of one message
  passes exactly when there is one record, it is live, and none of the other five
  checks fails on it; two or more records always fail \<open>ticket_created\<close>, with the
  number of records as the observed value.\<close>

theorem sequence_passes_iff_one_live:
  "(vf_passed (evaluate_sequence L rs x rid t) \<longleftrightarrow>
     (\<exists>r. rs = [r] \<and> rb_exists r \<and>
        list_all (\<lambda>c. status c \<noteq> Failed) (tl (vf_checks (evaluate L (Some r) x rid t))))) \<and>
   (2 \<le> length rs \<longrightarrow>
     (let c = hd (vf_checks (evaluate_sequence L rs x rid t))
      in cr_name c = CHECK_TICKET_CREATED \<and> status c = Failed \<and>
         cr_actual c = PInt (int (length rs))))"
proof (intro conjI impI)
  have created: "cr_passed (check_ticket_created (Some r)) \<noteq> Some False \<longleftrightarrow> rb_exists r" for r
    by (simp add: check_ticket_created_def)
  show "vf_passed (evaluate_sequence L rs x rid t) \<longleftrightarrow>
     (\<exists>r. rs = [r] \<and> rb_exists r \<and>
        list_all (\<lambda>c. status c \<noteq> Failed) (tl (vf_checks (evaluate L (Some r) x rid t))))"
    unfolding vf_passed_sequence_iff
    by (simp add: vf_passed_iff created not_failed_iff conj_assoc)
next
  assume "2 \<le> length rs"
  then obtain r s rs' where "rs = r # s # rs'"
    by (cases rs rule: remdups_adj.cases) auto
  then show "let c = hd (vf_checks (evaluate_sequence L rs x rid t))
      in cr_name c = CHECK_TICKET_CREATED \<and> status c = Failed \<and>
         cr_actual c = PInt (int (length rs))"
    by (simp add: evaluate_sequence_def status_def) (simp add: mk_failed_def)
qed

theorem sequence_passes_iff_one_live_witness:
  "vf_passed (evaluate_sequence sample_lib [sample_readback] sample_expectations ''r'' ''t'') \<and>
   \<not> vf_passed (evaluate_sequence sample_lib [sample_readback, sample_readback]
       sample_expectations ''r'' ''t'')"
proof -
  have "rb_exists sample_readback" by (simp add: sample_readback_def)
  moreover have "list_all (\<lambda>c. status c \<noteq> Failed)
      (tl (vf_checks (evaluate sample_lib (Some sample_readback) sample_expectations ''r'' ''t'')))"
    by (simp add: sample_checks)
  ultimately show ?thesis
    using sequence_passes_iff_one_live
      [of sample_lib "[sample_readback]" sample_expectations "''r''" "''t''"]
      sequence_passes_iff_one_live
      [of sample_lib "[sample_readback, sample_readback]" sample_expectations "''r''" "''t''"]
    by simp
qed



lemma thread_link_full_chain:
  assumes "ids_of (Some parent) \<noteq> []"
  shows "(has r ''in_reply_to'' \<and> has r ''references'' \<longrightarrow>
      (cr_passed (check_thread_link (Some r) parent ancestry) = Some True \<longleftrightarrow>
         set (ids_of (rb_in_reply_to r)) = set (ids_of (Some parent)) \<and>
         set (ids_of (Some parent)) \<union> set (message_id_tokens ancestry)
           \<subseteq> set (message_id_tokens (rb_references r)))) \<and>
    (\<not> has r ''in_reply_to'' \<and> \<not> has r ''references'' \<longrightarrow>
      status (check_thread_link (Some r) parent ancestry) = Skipped)"
proof -
  have "parent \<noteq> []" using assms
    by (auto simp: ids_of_def message_id_tokens_def sorted_set_def)
  moreover have "set (message_id_tokens ancestry) \<subseteq> S \<longleftrightarrow>
      filter (\<lambda>m. m \<notin> S) (if ancestry = [] then [] else message_id_tokens ancestry) = []" for S
    using keys_of_none(2) by (auto simp: filter_empty_conv)
  ultimately show ?thesis
    using assms by (auto simp: check_thread_link_def Let_def status_def mk_passed_def)
qed

text \<open>The whole chain, in any spelling. When the adapter shows both threading
  headers, a reply passes \<open>thread_link\<close> exactly when \<open>In-Reply-To\<close> names the parent
  and nothing else, and \<open>References\<close> holds the parent and every ancestor, as sets of
  bare ids: order, brackets and a chain stored as one string make no difference. When
  the adapter shows neither header the check is skipped.\<close>

theorem thread_link_iff_full_chain:
  assumes "ids_of (Some parent) \<noteq> []"
  shows "(has r ''in_reply_to'' \<and> has r ''references'' \<longrightarrow>
      (cr_passed (check_thread_link (Some r) parent ancestry) = Some True \<longleftrightarrow>
         set (ids_of (rb_in_reply_to r)) = set (ids_of (Some parent)) \<and>
         set (ids_of (Some parent)) \<union> set (message_id_tokens ancestry)
           \<subseteq> set (message_id_tokens (rb_references r)))) \<and>
    (\<not> has r ''in_reply_to'' \<and> \<not> has r ''references'' \<longrightarrow>
      status (check_thread_link (Some r) parent ancestry) = Skipped)"
  using thread_link_full_chain [OF assms] .

theorem thread_link_iff_full_chain_witness:
  "cr_passed (check_thread_link (Some (sample_readback\<lparr>rb_in_reply_to := Some ''b@x'',
      rb_references := [''<b@x> <a@x>'']\<rparr>)) ''<b@x>'' [''<a@x>'', ''<b@x>'']) = Some True"
proof -
  let ?r = "sample_readback\<lparr>rb_in_reply_to := Some ''b@x'', rb_references := [''<b@x> <a@x>'']\<rparr>"
  have ids: "ids_of (Some ''<b@x>'') = [''b@x'']" "ids_of (rb_in_reply_to ?r) = [''b@x'']"
    by code_simp+
  have tokens: "message_id_tokens [''<a@x>'', ''<b@x>''] = [''a@x'', ''b@x'']"
    "message_id_tokens (rb_references ?r) = [''a@x'', ''b@x'']"
    by code_simp+
  have "has ?r ''in_reply_to'' \<and> has ?r ''references''" by code_simp
  then show ?thesis
    using thread_link_iff_full_chain [of "''<b@x>''" ?r "[''<a@x>'', ''<b@x>'']"] ids tokens
    by simp
qed

lemma without_names:
  "ex_sender (x\<lparr>ex_attachment_names := ns\<rparr>) = ex_sender x"
  "ex_subject (x\<lparr>ex_attachment_names := ns\<rparr>) = ex_subject x"
  "ex_subject_match (x\<lparr>ex_attachment_names := ns\<rparr>) = ex_subject_match x"
  "ex_body_exact (x\<lparr>ex_attachment_names := ns\<rparr>) = ex_body_exact x"
  "expected_body (x\<lparr>ex_attachment_names := ns\<rparr>) = expected_body x"
  "body_match (x\<lparr>ex_attachment_names := ns\<rparr>) = body_match x"
  "route_for (x\<lparr>ex_attachment_names := ns\<rparr>) = route_for x"
  by (simp_all add: expected_body_def body_match_def route_for_def)

text \<open>Two graders, one verdict. Whatever records a lookup returned, the matcher that
  grades a saved record gives the verdict \<open>evaluate_sequence\<close> gives when the payload's
  attachment names are left out, with no record and with several records included.\<close>

theorem matcher_agrees_with_evaluation:
  "\<exists>ms. matcher_match L (Some x) rec (if rs = [] then RbNone else RbSeq rs) =
     Inr (vf_passed (evaluate_sequence L rs (x\<lparr>ex_attachment_names := []\<rparr>) rid t), ms)"
proof (cases "length rs = 1")
  case True
  then obtain r where r: "rs = [r]" by (auto simp: length_Suc_conv)
  have same: "check_sender L (Some r) (x\<lparr>ex_attachment_names := ns\<rparr>) = check_sender L (Some r) x"
    "check_subject (Some r) (x\<lparr>ex_attachment_names := ns\<rparr>) = check_subject (Some r) x"
    "check_body L (Some r) (x\<lparr>ex_attachment_names := ns\<rparr>) = check_body L (Some r) x"
    "check_routing (Some r) (x\<lparr>ex_attachment_names := ns\<rparr>) = check_routing (Some r) x" for ns
    unfolding check_sender_def check_subject_def check_body_def check_routing_def without_names
    by (rule refl)+
  have "cr_passed (check_attachments (Some r) (x\<lparr>ex_attachment_names := []\<rparr>)) = None"
    by (simp add: check_attachments_def Let_def flip: keys_of_none(1))
  then have "vf_passed (evaluate_from_record L rec r x) \<longleftrightarrow>
      vf_passed (evaluate_sequence L rs (x\<lparr>ex_attachment_names := []\<rparr>) rid t)"
    by (simp add: r evaluate_sequence_simps vf_passed_iff evaluate_from_record_def same)
  then show ?thesis
    by (simp add: r matcher_match_def matcher_grade_def Let_def)
next
  case False
  then have "\<not> vf_passed (evaluate_sequence L rs (x\<lparr>ex_attachment_names := []\<rparr>) rid t)"
    by (auto simp: vf_passed_sequence_iff)
  with False show ?thesis by (simp add: matcher_match_def)
qed

end
