(* ===== verification/Run.thy ===== *)
theory Run
  imports Messages Guardrails Poll Expectations
begin

text \<open>What \<open>verify\<close> and \<open>ledger\<close> share: building the tagged items (\<open>build_tagged_corpus\<close>,
  \<open>build_items\<close> in \<open>pipeline/verify.py\<close>), the exit codes of \<open>core/exit_codes.py\<close>, and the
  common part of their \<open>execute\<close> functions - the guardrails, then the adapter, then the
  sends, then the poll - up to the point where each tool judges what came back.

  The environment is a record of what the code takes from outside: clock, HTTP client, wire
  format, network names, configuration file, adapter construction, payload hash, and the
  clean corpus of a seed and count (\<open>build_clean_corpus\<close>, which draws from Python's
  \<open>random\<close>). An interrupt (Ctrl-C) is not modelled; its artifact is (\<open>abort_records\<close>).\<close>

section \<open>Exit codes\<close>

definition EXIT_OK :: nat where "EXIT_OK = 0"
definition EXIT_REFUSED :: nat where "EXIT_REFUSED = 1"
definition EXIT_DRY_RUN :: nat where "EXIT_DRY_RUN = 2"
definition EXIT_FINDING :: nat where "EXIT_FINDING = 3"
definition EXIT_MISMATCH :: nat where "EXIT_MISMATCH = EXIT_FINDING"

definition ALL_EXIT_CODES :: "nat list" where
  "ALL_EXIT_CODES = [EXIT_OK, EXIT_REFUSED, EXIT_DRY_RUN, EXIT_FINDING]"

lemmas exit_codes = EXIT_OK_def EXIT_REFUSED_def EXIT_DRY_RUN_def EXIT_FINDING_def EXIT_MISMATCH_def

section \<open>The environment and the run's options\<close>

text \<open>A built adapter: the part the poll uses, what \<open>adapter_can_enumerate\<close> looks at, and
  \<open>list_all\<close> and \<open>close\<close>. \<open>CanMethod\<close> is a callable \<open>can_enumerate\<close>, which may raise;
  \<open>CanDeclared\<close> is the answer of \<open>readback.can_enumerate\<close> for any other adapter.\<close>

datatype can_enum = CanMethod "string + bool" | CanDeclared bool

record 'w built =
  bt_source :: "'w source"
  bt_enumerate_records :: bool
  bt_can_enumerate :: can_enum
  bt_list_all :: "('w \<Rightarrow> (string + fetch_result) \<times> 'w) option"
  bt_close :: "'w \<Rightarrow> 'w"

record ('w, 'q) env =
  en_timing :: "'w timing"
  en_client :: "string \<Rightarrow> 'q \<Rightarrow> 'w \<Rightarrow> client_reply \<times> 'w"
  en_build :: "string \<Rightarrow> email \<Rightarrow> 'q"
  en_net :: netlib
  en_lib :: pylib
  en_repr :: "readback \<Rightarrow> string"
  en_config :: "string + (string \<rightharpoonup> target)"
  en_prepare :: "'w \<Rightarrow> (string + 'w built) \<times> 'w"
  en_sha :: "email \<Rightarrow> string"
  en_corpus :: "int \<Rightarrow> nat \<Rightarrow> email list"

record match_modes =
  mm_route :: "string option"
  mm_body_exact :: bool
  mm_subject :: string
  mm_attachment :: string

record run_params =
  rp_seed :: int
  rp_count :: nat
  rp_target :: "string option"
  rp_tag_prefix :: string
  rp_rate :: rat
  rp_modes :: match_modes
  rp_allow_public :: bool
  rp_quiet_window :: seconds
  rp_max_wait :: "seconds option"
  rp_poll_interval :: seconds
  rp_readback :: rate_source

section \<open>The items\<close>

definition build_tagged_corpus ::
  "('w, 'q) env \<Rightarrow> int \<Rightarrow> nat \<Rightarrow> string \<Rightarrow> tag_error + (email \<times> string \<times> string) list"
where
  "build_tagged_corpus E seed n tag_prefix =
     stamp_corpus (en_corpus E seed n) seed tag_prefix"

definition build_items ::
  "('w, 'q) env \<Rightarrow> (email \<times> string \<times> string) list \<Rightarrow> item list"
where
  "build_items E corpus =
     map (\<lambda>(e, tag, rid). (e, tag, rid, probe_for e tag rid (en_sha E e))) corpus"

definition expectations_for :: "match_modes \<Rightarrow> email \<Rightarrow> expectation_error + expectations" where
  "expectations_for m e = from_email e (mm_route m) (mm_body_exact m) (mm_subject m) (mm_attachment m)"

section \<open>The common part of a run\<close>

datatype refusal =
    RefusedGuard guard_error
  | RefusedModes expectation_error
  | RefusedTarget target_error
  | RefusedAdapter string

datatype broken = BrokenSend rate_error | BrokenPoll poll_error

text \<open>How far a run gets: an exception that leaves \<open>execute\<close>, a refusal before anything is
  sent, a run that could not complete, or the two lists the tool judges, with the adapter
  still open.\<close>

datatype 'w fired =
    Crashed tag_error
  | Refused refusal
  | Broken broken
  | Fired resolved_target poll_settings "'w built" "sent_message list" outcome

definition fire :: "('w, 'q) env \<Rightarrow> run_params \<Rightarrow> 'w \<Rightarrow> ('w fired \<times> 'w) option" where
  "fire E P w =
     (case build_tagged_corpus E (rp_seed P) (rp_count P) (rp_tag_prefix P) of
        Inl e \<Rightarrow> Some (Crashed e, w)
      | Inr corpus \<Rightarrow>
      (let items = build_items E corpus; M = rp_modes P in
      case require_synthetic (en_net E) (map fst corpus) of
        Inl e \<Rightarrow> Some (Refused (RefusedGuard e), w)
      | Inr _ \<Rightarrow>
      (case validate_match_modes (mm_subject M) (mm_attachment M) of
        Inl e \<Rightarrow> Some (Refused (RefusedModes e), w)
      | Inr _ \<Rightarrow>
      (case resolve_target (en_net E) (rp_target P) (en_config E) (rp_allow_public P) [] of
        Inl e \<Rightarrow> Some (Refused (RefusedTarget e), w)
      | Inr target \<Rightarrow>
      (case en_prepare E w of
        (Inl e, w1) \<Rightarrow> Some (Refused (RefusedAdapter e), w1)
      | (Inr b, w1) \<Rightarrow>
      (let ps = readback_poll_settings (length items) (Some (rp_readback P)) (rp_quiet_window P)
                  (rp_max_wait P) (rp_poll_interval P);
           A = \<lparr>pa_timing = en_timing E, pa_source = bt_source b, pa_repr = en_repr E,
                pa_quiet_window = rp_quiet_window P, pa_max_wait = ps_max_wait ps,
                pa_poll_interval = rp_poll_interval P\<rparr> in
      case send_all (en_timing E) (en_client E (rt_url target)) (en_build E (rt_format_name target))
             items (rp_rate P) w1 of
        None \<Rightarrow> None
      | Some (Inl e, w2) \<Rightarrow> Some (Broken (BrokenSend e), bt_close b w2)
      | Some (Inr sent, w2) \<Rightarrow>
      (case read_back_all A (map (\<lambda>(e, t, r, p). p) items) w2 of
        None \<Rightarrow> None
      | Some (Inl e, w3) \<Rightarrow> Some (Broken (BrokenPoll e), bt_close b w3)
      | Some (Inr out, w3) \<Rightarrow> Some (Fired target ps b sent out, w3))))))))"

text \<open>\<open>readbacks.get(tag, [])\<close>.\<close>

definition held :: "outcome \<Rightarrow> string \<Rightarrow> readback list" where
  "held out tag = (case map_of (ro_readbacks out) tag of Some rs \<Rightarrow> rs | None \<Rightarrow> [])"

text \<open>The records of an aborted run's artifact: nothing is graded.\<close>

record abort_record =
  ab_index :: nat
  ab_id :: string
  ab_category :: string
  ab_tag :: string
  ab_message_id :: string
  ab_payload_sha256 :: string
  ab_response :: "int option \<times> rat \<times> string"

definition response_json :: "sent_message \<Rightarrow> int option \<times> rat \<times> string" where
  "response_json m =
     (tr_status (sm_result m), tr_latency_ms (sm_result m), tr_body_snippet (sm_result m))"

definition abort_records :: "sent_message list option \<Rightarrow> abort_record list" where
  "abort_records sent =
     map (\<lambda>m. \<lparr>ab_index = sm_index m, ab_id = sm_record_id m, ab_category = ''clean'',
            ab_tag = sm_tag m, ab_message_id = pr_message_id (sm_probe m),
            ab_payload_sha256 = pr_payload_sha256 (sm_probe m),
            ab_response = response_json m\<rparr>)
       (case sent of Some ms \<Rightarrow> ms | None \<Rightarrow> [])"

definition abort_run :: "sent_message list option \<Rightarrow> nat option \<times> abort_record list \<times> nat" where
  "abort_run sent =
     (map_option (\<lambda>_. length (abort_records sent)) sent, abort_records sent, EXIT_MISMATCH)"

section \<open>Guards first\<close>

text \<open>Everything that has to hold before the first request.\<close>

definition guards_pass :: "('w, 'q) env \<Rightarrow> run_params \<Rightarrow> bool" where
  "guards_pass E P \<longleftrightarrow>
     (\<exists>corpus t. build_tagged_corpus E (rp_seed P) (rp_count P) (rp_tag_prefix P) = Inr corpus \<and>
        require_synthetic (en_net E) (map fst corpus) = Inr () \<and>
        validate_match_modes (mm_subject (rp_modes P)) (mm_attachment (rp_modes P)) = Inr () \<and>
        resolve_target (en_net E) (rp_target P) (en_config E) (rp_allow_public P) [] = Inr t)"

lemma modes_valid_iff:
  "validate_match_modes s a = Inr () \<longleftrightarrow>
     s \<in> set SUBJECT_MATCH_MODES \<and> a \<in> set ATTACHMENT_MATCH_MODES"
  by (simp add: validate_match_modes_def)

lemma fire_guarded:
  assumes "\<not> guards_pass E P"
  shows "\<exists>r. fire E P w = Some (r, w) \<and> ((\<exists>e. r = Crashed e) \<or> (\<exists>e. r = Refused e))"
  using assms
  by (auto simp: fire_def guards_pass_def Let_def split: sum.splits)

lemma fire_guards: "fire E P w = Some (r, w') \<Longrightarrow> w' \<noteq> w \<Longrightarrow> guards_pass E P"
  using fire_guarded [of E P w] by auto

text \<open>What a fired run rests on.\<close>

lemma fire_Fired:
  assumes "fire E P w = Some (Fired target ps b sent out, w')"
  obtains corpus w1 w2 where
    "build_tagged_corpus E (rp_seed P) (rp_count P) (rp_tag_prefix P) = Inr corpus"
    "guards_pass E P"
    "en_prepare E w = (Inr b, w1)"
    "send_all (en_timing E) (en_client E (rt_url target)) (en_build E (rt_format_name target))
       (build_items E corpus) (rp_rate P) w1 = Some (Inr sent, w2)"
    "read_back_all \<lparr>pa_timing = en_timing E, pa_source = bt_source b, pa_repr = en_repr E,
       pa_quiet_window = rp_quiet_window P, pa_max_wait = ps_max_wait ps,
       pa_poll_interval = rp_poll_interval P\<rparr> (map (\<lambda>(e, t, r, p). p) (build_items E corpus)) w2 =
       Some (Inr out, w')"
proof -
  have "guards_pass E P" using fire_guarded [of E P w] assms by fastforce
  with assms that show thesis
    by (auto simp: fire_def Let_def split: sum.splits prod.splits option.splits)
qed

text \<open>An environment whose clock, client and adapter let time pass and come back.\<close>

definition well_behaved :: "('w, 'q) env \<Rightarrow> ('w \<Rightarrow> seconds) \<Rightarrow> bool" where
  "well_behaved E now \<longleftrightarrow> monotonic (en_timing E) now \<and> (\<forall>u. patient now (en_client E u)) \<and>
     (\<forall>w b w'. en_prepare E w = (Inr b, w') \<longrightarrow> source_patient now (bt_source b))"

lemma fire_returns:
  assumes "well_behaved E now" "0 < rp_rate P"
  shows "fire E P w \<noteq> None"
proof -
  have send: "send_all (en_timing E) (en_client E u) bd items (rp_rate P) w1 \<noteq> None" for u bd items w1
    using send_all_returns [of "en_timing E" now "en_client E u" "rp_rate P" bd items w1] assms
    by (auto simp: well_behaved_def)
  have poll: "read_back_all \<lparr>pa_timing = en_timing E, pa_source = bt_source b, pa_repr = rp,
      pa_quiet_window = q, pa_max_wait = m, pa_poll_interval = i\<rparr> ps w2 \<noteq> None"
    if "fst (en_prepare E w) = Inr b" for b rp q m i ps w2
  proof -
    let ?A = "\<lparr>pa_timing = en_timing E, pa_source = bt_source b, pa_repr = rp,
      pa_quiet_window = q, pa_max_wait = m, pa_poll_interval = i\<rparr>"
    have "en_prepare E w = (Inr b, snd (en_prepare E w))" using that by (metis prod.collapse)
    then have "monotonic (pa_timing ?A) now" "source_patient now (pa_source ?A)"
      using assms(1) by (auto simp: well_behaved_def)
    from read_back_all_returns [OF this, of ps w2] show ?thesis by auto
  qed
  show ?thesis
    using send poll by (auto simp: fire_def Let_def split: sum.splits prod.splits option.splits
        simp del: not_None_eq)
qed

lemma map_prod_sent: "map sent_item sent = build_items E corpus \<Longrightarrow>
    map (\<lambda>m. (sm_email m, sm_tag m, sm_record_id m)) sent = corpus"
proof -
  assume "map sent_item sent = build_items E corpus"
  then have "map (\<lambda>(e, t, r, p). (e, t, r)) (map sent_item sent) =
      map (\<lambda>(e, t, r, p). (e, t, r)) (build_items E corpus)" by simp
  then show ?thesis by (simp add: build_items_def sent_item_def comp_def case_prod_unfold)
qed

end
