(* ===== verification/Verify.thy ===== *)
theory Verify
  imports Run
begin

text \<open>The \<open>verify\<close> tool of \<open>pipeline/verify.py\<close>: grading every sent message against what
  the store holds, the summary and its verdict, the artifact, the run (\<open>execute\<close>) and the
  re-check of a saved run (\<open>check_saved_run\<close>).

  A saved run is the parsed JSON the code looks at; printing is left out.\<close>

section \<open>Grading\<close>

fun grade ::
  "pylib \<Rightarrow> match_modes \<Rightarrow> (string \<Rightarrow> readback list) \<Rightarrow> sent_message list \<Rightarrow>
     expectation_error + verification list"
where
  "grade L M readbacks [] = Inr []"
| "grade L M readbacks (m # sent) =
     (case expectations_for M (sm_email m) of
        Inl e \<Rightarrow> Inl e
      | Inr x \<Rightarrow>
          (case grade L M readbacks sent of
             Inl e \<Rightarrow> Inl e
           | Inr vs \<Rightarrow>
               Inr (evaluate_sequence L (readbacks (sm_tag m)) x (sm_record_id m) (sm_tag m) # vs)))"

section \<open>The summary and the verdict\<close>

record verify_summary =
  vs_sent :: nat
  vs_found :: nat
  vs_verified :: nat
  vs_failed :: nat
  vs_unanswered :: nat
  vs_non_2xx :: nat
  vs_passed_by_name :: "(string \<times> nat) list"
  vs_skipped_by_reason :: "(skip_reason \<times> (string \<times> nat) list) list"
  vs_unsettled :: bool
  vs_readback_failed :: bool
  vs_not_checked :: "nat option"
  vs_readback :: "outcome option"

definition readback_unsettled :: "outcome option \<Rightarrow> bool" where
  "readback_unsettled out \<longleftrightarrow> (case out of None \<Rightarrow> False | Some o' \<Rightarrow> ro_unsettled o')"

definition summarize ::
  "verification list \<Rightarrow> sent_message list \<Rightarrow> outcome option \<Rightarrow> verify_summary"
where
  "summarize vs sent out =
     (let failed = filter (\<lambda>v. \<not> vf_passed v) vs;
          skips = concat (map skipped vs);
          answered = (\<lambda>m. tr_sent (sm_result m) \<and> tr_status (sm_result m) \<noteq> None);
          base = \<lparr>vs_sent = length sent,
            vs_found = length (filter vf_found vs),
            vs_verified = length vs - length failed,
            vs_failed = length failed,
            vs_unanswered = length (filter (\<lambda>m. tr_sent (sm_result m) \<and>
              tr_status (sm_result m) = None) sent),
            vs_non_2xx = length (filter (\<lambda>m. answered m \<and>
              \<not> (200 \<le> the (tr_status (sm_result m)) \<and> the (tr_status (sm_result m)) < 300)) sent),
            vs_passed_by_name = tally (map cr_name
              (filter (\<lambda>c. cr_passed c = Some True) (concat (map vf_checks vs)))),
            vs_skipped_by_reason = map (\<lambda>r. (r, tally (map cr_name
              (filter (\<lambda>c. skip_reason_of c = r) skips)))) SKIP_REASONS,
            vs_unsettled = readback_unsettled out,
            vs_readback_failed = False, vs_not_checked = None, vs_readback = out\<rparr>
      in if readback_failed out
         then base\<lparr>vs_found := 0, vs_verified := 0, vs_failed := 0, vs_passed_by_name := [],
                vs_skipped_by_reason := map (\<lambda>r. (r, [])) SKIP_REASONS,
                vs_readback_failed := True, vs_not_checked := Some (length vs)\<rparr>
         else base)"

definition VERIFIED :: string where "VERIFIED = ''VERIFIED''"
definition MISMATCHED :: string where "MISMATCHED = ''MISMATCHED''"
definition NOTHING_CHECKED :: string where "NOTHING_CHECKED = ''NOTHING CHECKED''"

definition verdict_of :: "verify_summary \<Rightarrow> string" where
  "verdict_of s =
     (if vs_readback_failed s then READBACK_FAILED
      else if vs_unsettled s then UNSETTLED
      else if vs_verified s + vs_failed s = 0 then NOTHING_CHECKED
      else if vs_failed s = 0 then VERIFIED else MISMATCHED)"

section \<open>The artifact\<close>

datatype assertion_mismatch = NotChecked404 | CheckFailed string detail

record verify_record =
  vr_id :: string
  vr_category :: string
  vr_tag :: string
  vr_message_id :: string
  vr_payload_sha256 :: string
  vr_intended :: expectations
  vr_response :: "int option \<times> rat \<times> string"
  vr_passed :: bool
  vr_mismatches :: "assertion_mismatch list"
  vr_readback :: "readback list"
  vr_verification :: "verification option"

record verify_artifact =
  va_summary :: verify_summary
  va_verdict :: string
  va_verdict_source :: verdict_source
  va_records :: "verify_record list"

text \<open>\<open>{v.tag: v for v in verifications}\<close>: a later one replaces an earlier.\<close>

definition verification_for :: "verification list \<Rightarrow> string \<Rightarrow> verification option" where
  "verification_for vs tag = map_of (rev (map (\<lambda>v. (vf_tag v, v)) vs)) tag"

fun verify_records ::
  "(email \<Rightarrow> string) \<Rightarrow> match_modes \<Rightarrow> bool \<Rightarrow> verification list \<Rightarrow> (string \<Rightarrow> readback list) \<Rightarrow>
     sent_message list \<Rightarrow> expectation_error + verify_record list"
where
  "verify_records sha M not_checked vs readbacks [] = Inr []"
| "verify_records sha M not_checked vs readbacks (m # sent) =
     (let v = (if not_checked then None else verification_for vs (sm_tag m))
      in case expectations_for M (sm_email m) of
           Inl e \<Rightarrow> Inl e
         | Inr x \<Rightarrow>
             (case verify_records sha M not_checked vs readbacks sent of
                Inl e \<Rightarrow> Inl e
              | Inr rs \<Rightarrow> Inr (\<lparr>vr_id = sm_record_id m, vr_category = ''clean'',
                  vr_tag = sm_tag m, vr_message_id = pr_message_id (sm_probe m),
                  vr_payload_sha256 = sha (sm_email m), vr_intended = x,
                  vr_response = response_json m,
                  vr_passed = (case v of None \<Rightarrow> False | Some w \<Rightarrow> vf_passed w),
                  vr_mismatches = (if not_checked then [NotChecked404]
                    else case v of None \<Rightarrow> []
                         | Some w \<Rightarrow> map (\<lambda>(n, d). CheckFailed n d) (mismatch_strings w)),
                  vr_readback = readbacks (sm_tag m), vr_verification = v\<rparr> # rs)))"

definition build_verify_artifact ::
  "(email \<Rightarrow> string) \<Rightarrow> match_modes \<Rightarrow> sent_message list \<Rightarrow> verification list \<Rightarrow>
     (string \<Rightarrow> readback list) \<Rightarrow> outcome option \<Rightarrow> expectation_error + verify_artifact"
where
  "build_verify_artifact sha M sent vs readbacks out =
     (case verify_records sha M (readback_failed out) vs readbacks sent of
        Inl e \<Rightarrow> Inl e
      | Inr records \<Rightarrow>
          (let s = summarize vs sent out; v = readback_verdict (verdict_of s) out
           in Inr \<lparr>va_summary = s, va_verdict = fst v, va_verdict_source = snd v,
                   va_records = records\<rparr>))"

definition verify_exit_code :: "verify_artifact \<Rightarrow> nat" where
  "verify_exit_code a =
     (if va_verdict a = VERIFIED \<or> va_verdict a = NOTHING_CHECKED then EXIT_OK else EXIT_MISMATCH)"

section \<open>The run\<close>

text \<open>What \<open>execute\<close> does from outside: an exception, or an exit code and perhaps an artifact.\<close>

datatype 'a executed = Raises | Exits nat "'a option"

definition judge_run ::
  "('w, 'q) env \<Rightarrow> match_modes \<Rightarrow> sent_message list \<Rightarrow> outcome \<Rightarrow> verify_artifact executed"
where
  "judge_run E M sent out =
     (case grade (en_lib E) M (held out) sent of
        Inl e \<Rightarrow> Raises
      | Inr vs \<Rightarrow>
          (case build_verify_artifact (en_sha E) M sent vs (held out) (Some out) of
             Inl e \<Rightarrow> Raises
           | Inr a \<Rightarrow> Exits (verify_exit_code a) (Some a)))"

definition verify_execute ::
  "('w, 'q) env \<Rightarrow> run_params \<Rightarrow> 'w \<Rightarrow> (verify_artifact executed \<times> 'w) option"
where
  "verify_execute E P w =
     (case fire E P w of
        None \<Rightarrow> None
      | Some (Crashed e, w') \<Rightarrow> Some (Raises, w')
      | Some (Refused r, w') \<Rightarrow> Some (Exits EXIT_REFUSED None, w')
      | Some (Broken r, w') \<Rightarrow> Some (Exits EXIT_REFUSED None, w')
      | Some (Fired target ps b sent out, w') \<Rightarrow>
          Some (judge_run E (rp_modes P) sent out, bt_close b w'))"

section \<open>Checking a saved run\<close>

record saved_record =
  sr_id :: string
  sr_category :: string
  sr_tag :: "string option"
  sr_payload_sha256 :: string

text \<open>What the parsed artifact holds, key by key; \<open>sv_schema\<close> is \<open>None\<close> for a value that is
  not an integer. The recorded route distinguishes a key that is absent from one whose value
  is \<open>null\<close>; the other recorded modes are taken to be of the type the tools write.\<close>

record saved_run =
  sv_tool :: "string option"
  sv_config_tool :: "string option"
  sv_by_status_class :: bool
  sv_schema :: "int option"
  sv_seed :: "int option"
  sv_count :: "nat option"
  sv_tag_prefix :: "string option"
  sv_route :: "string option option"
  sv_body_exact :: "bool option"
  sv_subject :: "string option"
  sv_attachment :: "string option"
  sv_records :: "saved_record list"

datatype saved_file = Unreadable | NotJson | NotAnArtifact | SavedRun saved_run

definition artifact_tool :: "saved_run \<Rightarrow> string option" where
  "artifact_tool d =
     (if truthy (sv_tool d) then sv_tool d
      else (case sv_config_tool d of
              Some t \<Rightarrow> Some t
            | None \<Rightarrow> if sv_by_status_class d then Some ''blast'' else None))"

datatype mode_source = FromFlag | FromArtifact | FromDefault

definition pick_mode :: "'a option \<Rightarrow> 'a option \<Rightarrow> 'a \<Rightarrow> 'a \<times> mode_source" where
  "pick_mode given recorded dflt =
     (case given of Some v \<Rightarrow> (v, FromFlag)
      | None \<Rightarrow> (case recorded of Some v \<Rightarrow> (v, FromArtifact) | None \<Rightarrow> (dflt, FromDefault)))"

record given_modes =
  gm_route :: "string option"
  gm_body_exact :: "bool option"
  gm_subject :: "string option"
  gm_attachment :: "string option"

definition recorded_match_modes :: "saved_run \<Rightarrow> given_modes \<Rightarrow> match_modes \<times> mode_source list" where
  "recorded_match_modes d g =
     (let s = pick_mode (gm_subject g) (sv_subject d) DEFAULT_SUBJECT_MATCH;
          b = pick_mode (gm_body_exact g) (sv_body_exact d) False;
          a = pick_mode (gm_attachment g) (sv_attachment d) DEFAULT_ATTACHMENT_MATCH;
          r = pick_mode (map_option Some (gm_route g)) (sv_route d) None
      in (\<lparr>mm_route = (if truthy (fst r) then fst r else None), mm_body_exact = fst b,
           mm_subject = fst s, mm_attachment = fst a\<rparr>,
          [snd s, snd b, snd a, snd r]))"

text \<open>The records to look up, each with the payload the rebuilt corpus has under its tag.\<close>

fun wanted_from ::
  "(email \<times> string \<times> string) list \<Rightarrow> saved_record list \<Rightarrow>
     (email \<times> string \<times> string \<times> string) list option"
where
  "wanted_from corpus [] = Some []"
| "wanted_from corpus (r # rs) =
     (case sr_tag r of
        None \<Rightarrow> None
      | Some tag \<Rightarrow>
          (case map_of (rev (map (\<lambda>(e, t, rid). (t, e)) corpus)) tag of
             None \<Rightarrow> None
           | Some e \<Rightarrow> map_option (Cons (e, tag, sr_id r, sr_payload_sha256 r)) (wanted_from corpus rs)))"

definition DEFAULT_PREFIX_OF :: "string option \<Rightarrow> saved_run \<Rightarrow> string" where
  "DEFAULT_PREFIX_OF tag_prefix d =
     (if truthy tag_prefix then the tag_prefix
      else if truthy (sv_tag_prefix d) then the (sv_tag_prefix d) else DEFAULT_TAG_PREFIX)"

definition never_sent :: transport_result where
  "never_sent = \<lparr>tr_status = None, tr_latency_ms = 0, tr_body_snippet = [], tr_error = None,
     tr_sent = False\<rparr>"

definition fake_sent :: "(email \<times> string \<times> string \<times> string) list \<Rightarrow> sent_message list" where
  "fake_sent wanted =
     map (\<lambda>(i, e, tag, rid, sha). \<lparr>sm_index = i, sm_record_id = rid, sm_tag = tag, sm_email = e,
          sm_probe = probe_for e tag rid [], sm_result = never_sent\<rparr>)
       (enumerate 0 wanted)"

record check_options =
  co_given :: given_modes
  co_tag_prefix :: "string option"
  co_quiet_window :: seconds
  co_max_wait :: "seconds option"
  co_poll_interval :: seconds
  co_readback :: rate_source

text \<open>What the guards of \<open>check_saved_run\<close> let through: the records to look up and the match
  modes, or \<open>None\<close> for a refusal; an exception of the corpus builder is an \<open>Inl\<close>.\<close>

definition saved_plan ::
  "('w, 'q) env \<Rightarrow> saved_file \<Rightarrow> check_options \<Rightarrow>
     tag_error + ((email \<times> string \<times> string \<times> string) list \<times> match_modes) option"
where
  "saved_plan E f C =
     (case f of
        SavedRun d \<Rightarrow>
          if artifact_tool d = Some ''blast'' then Inr None
          else (case sv_schema d of None \<Rightarrow> Inr None | Some v \<Rightarrow>
            if 1 < v then Inr None
            else (case (sv_seed d, sv_count d) of
              (Some seed, Some n) \<Rightarrow>
                (let clean = filter (\<lambda>r. sr_category r = ''clean'') (sv_records d) in
                 if clean = [] then Inr None
                 else (case build_tagged_corpus E seed n (DEFAULT_PREFIX_OF (co_tag_prefix C) d) of
                    Inl e \<Rightarrow> Inl e
                  | Inr corpus \<Rightarrow>
                      if length corpus \<noteq> n then Inr None
                      else Inr (map_option (\<lambda>ws. (ws, fst (recorded_match_modes d (co_given C))))
                             (wanted_from corpus clean))))
            | _ \<Rightarrow> Inr None))
      | _ \<Rightarrow> Inr None)"

definition check_saved_run ::
  "('w, 'q) env \<Rightarrow> saved_file \<Rightarrow> check_options \<Rightarrow> 'w \<Rightarrow> (verify_artifact executed \<times> 'w) option"
where
  "check_saved_run E f C w =
     (case saved_plan E f C of
        Inl e \<Rightarrow> Some (Raises, w)
      | Inr None \<Rightarrow> Some (Exits EXIT_REFUSED None, w)
      | Inr (Some (wanted, M)) \<Rightarrow>
          if validate_match_modes (mm_subject M) (mm_attachment M) \<noteq> Inr ()
          then Some (Exits EXIT_REFUSED None, w)
          else (case en_prepare E w of
            (Inl e, w1) \<Rightarrow> Some (Exits EXIT_REFUSED None, w1)
          | (Inr b, w1) \<Rightarrow>
              (let ps = readback_poll_settings (length wanted) (Some (co_readback C))
                     (co_quiet_window C) (co_max_wait C) (co_poll_interval C);
                   A = \<lparr>pa_timing = en_timing E, pa_source = bt_source b, pa_repr = en_repr E,
                     pa_quiet_window = co_quiet_window C, pa_max_wait = ps_max_wait ps,
                     pa_poll_interval = co_poll_interval C\<rparr>
               in case read_back_all A (map (\<lambda>(e, t, rid, sha). probe_for e t rid sha) wanted) w1 of
                    None \<Rightarrow> None
                  | Some (Inl e, w2) \<Rightarrow> Some (Exits EXIT_REFUSED None, bt_close b w2)
                  | Some (Inr out, w2) \<Rightarrow>
                      Some (judge_run E M (fake_sent wanted) out, bt_close b w2))))"

section \<open>Facts about grading\<close>

text \<open>What it takes for one message to pass: one record, live, and no check that fails on it.\<close>

definition correct :: "pylib \<Rightarrow> match_modes \<Rightarrow> (string \<Rightarrow> readback list) \<Rightarrow> sent_message \<Rightarrow> bool" where
  "correct L M readbacks m \<longleftrightarrow> (\<exists>r x. readbacks (sm_tag m) = [r] \<and> rb_exists r \<and>
     expectations_for M (sm_email m) = Inr x \<and>
     (\<forall>c \<in> set (vf_checks (evaluate L (Some r) x (sm_record_id m) (sm_tag m))).
        cr_passed c \<noteq> Some False))"

definition modes_ok :: "match_modes \<Rightarrow> bool" where
  "modes_ok M \<longleftrightarrow> validate_match_modes (mm_subject M) (mm_attachment M) = Inr ()"

lemma expectations_for_ok: "modes_ok M \<Longrightarrow> \<exists>x. expectations_for M e = Inr x"
  by (simp add: expectations_for_def from_email_def modes_ok_def)

definition graded :: "pylib \<Rightarrow> match_modes \<Rightarrow> (string \<Rightarrow> readback list) \<Rightarrow> sent_message \<Rightarrow> verification" where
  "graded L M readbacks m = evaluate_sequence L (readbacks (sm_tag m))
     (projr (expectations_for M (sm_email m))) (sm_record_id m) (sm_tag m)"

lemma grade_ok: "modes_ok M \<Longrightarrow> grade L M readbacks sent = Inr (map (graded L M readbacks) sent)"
proof (induction sent)
  case (Cons m sent)
  obtain x where "expectations_for M (sm_email m) = Inr x"
    using expectations_for_ok [OF Cons.prems] by blast
  with Cons show ?case by (simp add: graded_def)
qed simp

lemma created_passes: "cr_passed (check_ticket_created (Some r)) \<noteq> Some False \<longleftrightarrow> rb_exists r"
  by (simp add: check_ticket_created_def)

lemma graded_passed: "modes_ok M \<Longrightarrow> vf_passed (graded L M readbacks m) \<longleftrightarrow> correct L M readbacks m"
proof -
  assume "modes_ok M"
  then obtain x where x: "expectations_for M (sm_email m) = Inr x"
    using expectations_for_ok by blast
  then have "vf_passed (graded L M readbacks m) \<longleftrightarrow> (\<exists>r. readbacks (sm_tag m) = [r] \<and>
      vf_passed (evaluate L (Some r) x (sm_record_id m) (sm_tag m)))"
    by (simp add: graded_def vf_passed_sequence_iff)
  moreover have "vf_passed (evaluate L (Some r) x rid t) \<Longrightarrow> rb_exists r" for r rid t
    using created_passes [of r] by (simp add: vf_passed_iff)
  ultimately show ?thesis using x unfolding correct_def vf_passed_iff by auto
qed

lemma verify_records_ok:
  assumes "modes_ok M"
  shows "\<exists>rs. verify_records sha M nc vs readbacks sent = Inr rs \<and> length rs = length sent \<and>
    (\<forall>k < length sent. let m = sent ! k; r = rs ! k;
       v = (if nc then None else verification_for vs (sm_tag m)) in
       vr_id r = sm_record_id m \<and> vr_tag r = sm_tag m \<and> vr_payload_sha256 r = sha (sm_email m) \<and>
       vr_category r = ''clean'' \<and>
       vr_verification r = v \<and> vr_passed r = (case v of None \<Rightarrow> False | Some w \<Rightarrow> vf_passed w) \<and>
       vr_readback r = readbacks (sm_tag m))"
proof (induction sent)
  case (Cons m sent)
  obtain x where "expectations_for M (sm_email m) = Inr x"
    using expectations_for_ok [OF assms] by blast
  with Cons show ?case by (auto simp: Let_def nth_Cons split: nat.splits)
qed simp

lemma judge_run_ok:
  assumes "modes_ok M"
  shows "\<exists>a rs. judge_run E M sent out = Exits (verify_exit_code a) (Some a) \<and>
    verify_records (en_sha E) M (ro_all_404 out) (map (graded (en_lib E) M (held out)) sent)
      (held out) sent = Inr rs \<and> va_records a = rs \<and>
    va_summary a = summarize (map (graded (en_lib E) M (held out)) sent) sent (Some out) \<and>
    va_verdict a = fst (readback_verdict (verdict_of (va_summary a)) (Some out))"
proof -
  obtain rs where "verify_records (en_sha E) M (ro_all_404 out)
      (map (graded (en_lib E) M (held out)) sent) (held out) sent = Inr rs"
    using verify_records_ok [OF assms] by metis
  then show ?thesis
    by (simp add: judge_run_def grade_ok [OF assms] build_verify_artifact_def readback_failed_def Let_def)
qed

lemmas verdict_words = VERIFIED_def MISMATCHED_def NOTHING_CHECKED_def UNSETTLED_def READBACK_FAILED_def

lemma verify_exit_iff:
  assumes "va_summary a = summarize vs sent (Some out)"
    "va_verdict a = fst (readback_verdict (verdict_of (va_summary a)) (Some out))"
  shows "verify_exit_code a = EXIT_OK \<longleftrightarrow>
    \<not> ro_all_404 out \<and> ro_stable out \<and> (\<forall>v \<in> set vs. vf_passed v)"
  using assms
  by (auto simp: verify_exit_code_def readback_verdict_def verdict_of_def summarize_def Let_def
      readback_unsettled_def readback_failed_def verdict_words exit_codes filter_empty_conv
      split: if_splits)

lemma sum_reasons:
  "(\<Sum>r \<leftarrow> SKIP_REASONS. length (filter (\<lambda>c. skip_reason_of c = r) cs)) = length cs"
proof (induction cs)
  case (Cons c cs)
  then show ?case by (cases "skip_reason_of c") (simp_all add: SKIP_REASONS_def)
qed (simp add: SKIP_REASONS_def)

lemma three_outcomes:
  "length (filter (\<lambda>c. cr_passed c = Some True) cs) + length (filter (\<lambda>c. cr_passed c = None) cs) +
     length (filter (\<lambda>c. cr_passed c = Some False) cs) = length cs"
  by (induction cs) (auto split: option.splits)

lemma checks_total:
  "length (concat (map vf_checks (map (graded L M readbacks) sent))) = 6 * length sent"
proof (induction sent)
  case (Cons m sent)
  have "length (vf_checks (graded L M readbacks m)) = length CHECKS"
    unfolding graded_def by (metis length_map vf_checks_sequence_names)
  with Cons show ?case by (simp add: CHECKS_def)
qed simp

lemma skipped_concat: "concat (map skipped vs) = filter (\<lambda>c. cr_passed c = None) (concat (map vf_checks vs))"
  by (induction vs) (simp_all add: skipped_def)

lemma failures_concat:
  "concat (map failures vs) = filter (\<lambda>c. cr_passed c = Some False) (concat (map vf_checks vs))"
  by (induction vs) (simp_all add: failures_def)

section \<open>What an exit code promises\<close>

lemma correct_once: "correct L M f m \<Longrightarrow> \<exists>r. f (sm_tag m) = [r] \<and> rb_exists r"
  by (auto simp: correct_def)

text \<open>The contract the tools share towards the script that reads their exit code: a judged run
  exits 0 or 3, and 0 only when the readback settled and every message is in the store
  once and right. What a run is differs - the messages sent, or a plan that says which they
  are - and so does when it can be judged. The consequences are proved once; each tool is
  an interpretation.\<close>

locale exit_gate =
  fixes exits :: "match_modes \<Rightarrow> 'p \<Rightarrow> outcome \<Rightarrow> nat option"
    and messages :: "'p \<Rightarrow> sent_message list"
    and judgeable :: "'p \<Rightarrow> bool"
    and lib :: pylib
  assumes exits_total: "modes_ok M \<Longrightarrow> judgeable p \<Longrightarrow> exits M p out \<in> {Some EXIT_OK, Some EXIT_FINDING}"
    and exits_sound: "modes_ok M \<Longrightarrow> judgeable p \<Longrightarrow> exits M p out = Some EXIT_OK \<Longrightarrow>
      ro_stable out \<and> \<not> ro_all_404 out \<and> (\<forall>m \<in> set (messages p). correct lib M (held out) m)"
begin

lemma finding_if: "modes_ok M \<Longrightarrow> judgeable p \<Longrightarrow> exits M p out \<noteq> Some EXIT_OK \<Longrightarrow>
    exits M p out = Some EXIT_FINDING"
  using exits_total [of M p out] by blast

lemma not_once_is_a_finding:
  "modes_ok M \<Longrightarrow> judgeable p \<Longrightarrow> m \<in> set (messages p) \<Longrightarrow> length (held out (sm_tag m)) \<noteq> 1 \<Longrightarrow>
     exits M p out = Some EXIT_FINDING"
  using exits_sound [of M p out] correct_once by (intro finding_if) fastforce+

lemma unsettled_is_a_finding:
  "modes_ok M \<Longrightarrow> judgeable p \<Longrightarrow> \<not> ro_stable out \<or> ro_all_404 out \<Longrightarrow>
     exits M p out = Some EXIT_FINDING"
  using exits_sound [of M p out] by (intro finding_if) auto

lemma not_live_is_a_finding:
  "modes_ok M \<Longrightarrow> judgeable p \<Longrightarrow> m \<in> set (messages p) \<Longrightarrow> held out (sm_tag m) = [r] \<Longrightarrow>
     \<not> rb_exists r \<Longrightarrow> exits M p out = Some EXIT_FINDING"
  using exits_sound [of M p out] correct_once by (intro finding_if) fastforce+

lemma lost_is_a_finding:
  assumes "modes_ok M" "judgeable p"
    and "(\<exists>m \<in> set (messages p). length (held out (sm_tag m)) \<noteq> 1 \<or>
        \<not> rb_exists (hd (held out (sm_tag m)))) \<or> \<not> ro_stable out \<or> ro_all_404 out"
  shows "exits M p out = Some EXIT_FINDING"
proof (cases "\<exists>m \<in> set (messages p). length (held out (sm_tag m)) \<noteq> 1 \<or>
    \<not> rb_exists (hd (held out (sm_tag m)))")
  case True
  then obtain m where m: "m \<in> set (messages p)"
    "length (held out (sm_tag m)) \<noteq> 1 \<or> \<not> rb_exists (hd (held out (sm_tag m)))" by blast
  show ?thesis
  proof (cases "length (held out (sm_tag m)) = 1")
    case True
    then obtain r where "held out (sm_tag m) = [r]" by (metis length_0_conv length_Suc_conv One_nat_def)
    with m not_live_is_a_finding [OF assms(1,2) m(1)] show ?thesis by simp
  qed (use not_once_is_a_finding [OF assms(1,2) m(1)] in blast)
next
  case False
  with assms unsettled_is_a_finding [OF assms(1,2)] show ?thesis by blast
qed

end

definition code_of :: "'a executed \<Rightarrow> nat option" where
  "code_of x = (case x of Raises \<Rightarrow> None | Exits c _ \<Rightarrow> Some c)"

lemma judge_run_exit:
  assumes "modes_ok M"
  shows "\<exists>c a. judge_run E M sent out = Exits c (Some a) \<and> c \<in> {EXIT_OK, EXIT_FINDING} \<and>
    (c = EXIT_OK \<longleftrightarrow> \<not> ro_all_404 out \<and> ro_stable out \<and>
       (\<forall>m \<in> set sent. correct (en_lib E) M (held out) m))"
proof -
  obtain a where a: "judge_run E M sent out = Exits (verify_exit_code a) (Some a)"
    "va_summary a = summarize (map (graded (en_lib E) M (held out)) sent) sent (Some out)"
    "va_verdict a = fst (readback_verdict (verdict_of (va_summary a)) (Some out))"
    using judge_run_ok [OF assms, of E sent out] by blast
  have "verify_exit_code a \<in> {EXIT_OK, EXIT_FINDING}"
    by (simp add: verify_exit_code_def EXIT_MISMATCH_def)
  with a(1) verify_exit_iff [OF a(2,3)] graded_passed [OF assms] show ?thesis by auto
qed

interpretation verify_gate: exit_gate "\<lambda>M sent out. code_of (judge_run E M sent out)"
  "\<lambda>sent. sent" "\<lambda>_. True" "en_lib E" for E
proof unfold_locales
  fix M sent out
  assume ok: "modes_ok M"
  then obtain c a where c: "judge_run E M sent out = Exits c (Some a)" "c \<in> {EXIT_OK, EXIT_FINDING}"
    "c = EXIT_OK \<longleftrightarrow> \<not> ro_all_404 out \<and> ro_stable out \<and>
       (\<forall>m \<in> set sent. correct (en_lib E) M (held out) m)"
    using judge_run_exit [OF ok, of E sent out] by blast
  from c(1,2) show "code_of (judge_run E M sent out) \<in> {Some EXIT_OK, Some EXIT_FINDING}"
    by (auto simp: code_of_def)
  assume "code_of (judge_run E M sent out) = Some EXIT_OK"
  with c(1,3) show "ro_stable out \<and> \<not> ro_all_404 out \<and> (\<forall>m \<in> set sent. correct (en_lib E) M (held out) m)"
    by (simp add: code_of_def)
qed

section \<open>Properties of the judgement\<close>

text \<open>C1 (exit 0 means every message is in the store, once and right). With valid match modes
  the judgement of a run always exits 0 or 3, and 0 exactly when the readback settled and
  was not all 404, and every message sent has exactly one record, live, on which no check
  fails. So a lost or duplicated message, or one read back before the store was quiet,
  never exits 0.\<close>

theorem verify_exit_means_correct:
  assumes "modes_ok M"
  shows "\<exists>c a. judge_run E M sent out = Exits c (Some a) \<and> c \<in> {EXIT_OK, EXIT_FINDING} \<and>
    (c = EXIT_OK \<longleftrightarrow> \<not> ro_all_404 out \<and> ro_stable out \<and>
       (\<forall>m \<in> set sent. correct (en_lib E) M (held out) m))"
  using judge_run_exit [OF assms, of E sent out] .

text \<open>The summary adds up. Unless every lookup was a 404, the messages verified are the
  correct ones and the rest failed, the ones found are those with a record, and the checks
  passed, skipped by reason and failed are together six for every message sent; when every
  lookup was a 404 nothing is counted as checked.\<close>

theorem verify_summary_adds_up:
  assumes "vs = map (graded L M (held out)) sent" "modes_ok M"
  shows "(let s = summarize vs sent (Some out) in
    if ro_all_404 out
    then vs_verified s = 0 \<and> vs_failed s = 0 \<and> vs_found s = 0 \<and> vs_passed_by_name s = [] \<and>
      vs_not_checked s = Some (length sent)
    else vs_verified s = length (filter (correct L M (held out)) sent) \<and>
      vs_verified s + vs_failed s = length sent \<and>
      vs_found s = length (filter (\<lambda>m. held out (sm_tag m) \<noteq> []) sent) \<and>
      sum_list (map snd (vs_passed_by_name s)) +
      (\<Sum>(r, names) \<leftarrow> vs_skipped_by_reason s. sum_list (map snd names)) +
      length (concat (map failures vs)) = 6 * length sent)"
proof (cases "ro_all_404 out")
  case True
  then show ?thesis by (simp add: summarize_def readback_failed_def Let_def assms(1))
next
  case False
  let ?s = "summarize vs sent (Some out)" and ?cs = "concat (map vf_checks vs)"
  have "vs_verified ?s = length (filter vf_passed vs)"
    using False length_filter_compl [of vf_passed vs]
    by (simp add: summarize_def readback_failed_def Let_def)
  then have v: "vs_verified ?s = length (filter (correct L M (held out)) sent)"
    by (simp add: assms(1) filter_map comp_def graded_passed [OF assms(2)])
  have vf: "vs_verified ?s + vs_failed ?s = length sent"
    using False length_filter_compl [of vf_passed vs]
    by (simp add: summarize_def readback_failed_def Let_def assms(1))
  have f: "vs_found ?s = length (filter (\<lambda>m. held out (sm_tag m) \<noteq> []) sent)"
    using False by (simp add: summarize_def readback_failed_def Let_def assms(1) filter_map
        comp_def graded_def)
  have p: "sum_list (map snd (vs_passed_by_name ?s)) =
      length (filter (\<lambda>c. cr_passed c = Some True) ?cs)"
    using False by (simp add: summarize_def readback_failed_def Let_def sum_tally)
  have k: "(\<Sum>(r, names) \<leftarrow> vs_skipped_by_reason ?s. sum_list (map snd names)) =
      length (filter (\<lambda>c. cr_passed c = None) ?cs)"
    using False sum_reasons [of "concat (map skipped vs)"]
    by (simp add: summarize_def readback_failed_def Let_def sum_tally comp_def skipped_concat)
  have "length ?cs = 6 * length sent"
    using checks_total by (simp add: assms(1))
  with False v vf f p k three_outcomes [of ?cs] show ?thesis
    by (simp add: Let_def failures_concat)
qed

section \<open>Properties of the run\<close>

text \<open>C14 (nothing is sent past a guard). When a guardrail refuses - an address that is not
  synthetic, an invalid match mode, a target that is undeclared or public without consent,
  a tag that cannot be made - \<open>verify\<close> leaves the world as it was: no adapter is built, no
  request is made, and it exits 1 or raises. Whatever changes the world has passed them
  all.\<close>

theorem verify_guarded:
  "verify_execute E P w = Some (r, w') \<Longrightarrow>
     (\<not> guards_pass E P \<longrightarrow> w' = w \<and> (r = Raises \<or> r = Exits EXIT_REFUSED None)) \<and>
     (w' \<noteq> w \<longrightarrow> (\<exists>corpus t. build_tagged_corpus E (rp_seed P) (rp_count P) (rp_tag_prefix P) = Inr corpus \<and>
        require_synthetic (en_net E) (map fst corpus) = Inr () \<and>
        resolve_target (en_net E) (rp_target P) (en_config E) (rp_allow_public P) [] = Inr t))"
proof -
  assume run: "verify_execute E P w = Some (r, w')"
  have *: "w' = w \<and> (r = Raises \<or> r = Exits EXIT_REFUSED None)" if no: "\<not> guards_pass E P"
  proof -
    obtain f where "fire E P w = Some (f, w)" "(\<exists>e. f = Crashed e) \<or> (\<exists>e. f = Refused e)"
      using fire_guarded [OF no] by blast
    with run show ?thesis by (auto simp: verify_execute_def)
  qed
  show ?thesis
  proof (intro conjI impI)
    assume "w' \<noteq> w"
    with * have "guards_pass E P" by blast
    then show "\<exists>corpus t. build_tagged_corpus E (rp_seed P) (rp_count P) (rp_tag_prefix P) = Inr corpus \<and>
        require_synthetic (en_net E) (map fst corpus) = Inr () \<and>
        resolve_target (en_net E) (rp_target P) (en_config E) (rp_allow_public P) [] = Inr t"
      by (auto simp: guards_pass_def)
  qed (use * in auto)
qed

text \<open>A run comes back. With a rate above zero, a clock that does not go back, and a client
  and an adapter that return, \<open>verify\<close> returns. When the guards pass, the adapter can be
  built and the settings are in range, it exits 0 or 3 with an artifact, unless the
  adapter itself raised during the poll, which exits 1.\<close>

theorem verify_comes_back:
  assumes "well_behaved E now" "0 < rp_rate P"
  shows "\<exists>r w'. verify_execute E P w = Some (r, w') \<and>
    (guards_pass E P \<longrightarrow> (\<exists>c a. r = Exits c a \<and> c \<in> {EXIT_OK, EXIT_REFUSED, EXIT_FINDING} \<and>
       (c = EXIT_REFUSED \<longleftrightarrow> a = None)))"
proof -
  obtain f w' where f: "fire E P w = Some (f, w')" using fire_returns [OF assms, of w] by auto
  have "\<exists>r w'. verify_execute E P w = Some (r, w') \<and> (guards_pass E P \<longrightarrow>
    (\<exists>c a. r = Exits c a \<and> c \<in> {EXIT_OK, EXIT_REFUSED, EXIT_FINDING} \<and> (c = EXIT_REFUSED \<longleftrightarrow> a = None)))"
  proof (cases f)
    case (Crashed e)
    then have "\<not> guards_pass E P"
      using f by (auto simp: fire_def guards_pass_def Let_def split: sum.splits prod.splits option.splits)
    with Crashed f show ?thesis by (simp add: verify_execute_def)
  next
    case (Fired t ps b sent out)
    have "modes_ok (rp_modes P)"
      using fire_Fired [OF f [unfolded Fired]] by (auto simp: guards_pass_def modes_ok_def)
    from judge_run_ok [OF this, of E sent out] obtain a where
      a: "judge_run E (rp_modes P) sent out = Exits (verify_exit_code a) (Some a)" by blast
    have "verify_exit_code a \<in> {EXIT_OK, EXIT_FINDING}"
      by (simp add: verify_exit_code_def EXIT_MISMATCH_def)
    with a Fired f show ?thesis by (auto simp: verify_execute_def exit_codes)
  qed (use f in \<open>simp_all add: verify_execute_def\<close>)
  then show ?thesis .
qed

section \<open>A saved run\<close>

text \<open>What a run of \<open>verify fire\<close> writes, as \<open>verify check\<close> reads it back: the keys of
  \<open>run_config\<close> and the records of the artifact.\<close>

definition saved_of :: "run_params \<Rightarrow> verify_artifact \<Rightarrow> saved_run" where
  "saved_of P a = \<lparr>sv_tool = Some ''verify'', sv_config_tool = Some ''verify'',
     sv_by_status_class = False, sv_schema = Some 1, sv_seed = Some (rp_seed P),
     sv_count = Some (rp_count P), sv_tag_prefix = Some (rp_tag_prefix P),
     sv_route = Some (mm_route (rp_modes P)), sv_body_exact = Some (mm_body_exact (rp_modes P)),
     sv_subject = Some (mm_subject (rp_modes P)), sv_attachment = Some (mm_attachment (rp_modes P)),
     sv_records = map (\<lambda>r. \<lparr>sr_id = vr_id r, sr_category = vr_category r, sr_tag = Some (vr_tag r),
       sr_payload_sha256 = vr_payload_sha256 r\<rparr>) (va_records a)\<rparr>"

definition no_flags :: check_options where
  "no_flags = \<lparr>co_given = \<lparr>gm_route = None, gm_body_exact = None, gm_subject = None,
     gm_attachment = None\<rparr>, co_tag_prefix = None, co_quiet_window = DEFAULT_QUIET_WINDOW,
     co_max_wait = None, co_poll_interval = DEFAULT_POLL_INTERVAL,
     co_readback = \<lparr>rs_spec = False, rs_kind = None, rs_rate = NoRate\<rparr>\<rparr>"

lemma saved_of_keys:
  "sv_tool (saved_of P a) = Some ''verify''" "sv_schema (saved_of P a) = Some 1"
  "sv_seed (saved_of P a) = Some (rp_seed P)" "sv_count (saved_of P a) = Some (rp_count P)"
  by (simp_all add: saved_of_def)

lemma no_flags_keys: "co_tag_prefix no_flags = None"
  by (simp add: no_flags_def)

lemma wanted_from_all:
  assumes "distinct (map (\<lambda>(e, t, r). t) corpus)" "set xs \<subseteq> set corpus"
  shows "wanted_from corpus (map (\<lambda>(e, t, r). \<lparr>sr_id = r, sr_category = ''clean'', sr_tag = Some t,
       sr_payload_sha256 = sha e\<rparr>) xs) = Some (map (\<lambda>(e, t, r). (e, t, r, sha e)) xs)"
  using assms(2)
proof (induction xs)
  case (Cons x xs)
  obtain e t r where x: "x = (e, t, r)" by (cases x) auto
  let ?ps = "rev (map (\<lambda>(e, t, rid). (t, e)) corpus)"
  have "map fst ?ps = rev (map (\<lambda>(e, t, r). t) corpus)"
    by (simp add: rev_map case_prod_unfold comp_def)
  then have "distinct (map fst ?ps)" using assms(1) by simp
  moreover have "(t, e) \<in> set ?ps" using Cons.prems x by force
  ultimately have "map_of ?ps t = Some e" by (rule map_of_is_SomeI)
  with Cons x show ?case by (simp add: case_prod_unfold)
qed simp

lemma send_all_items:
  assumes "well_behaved E now" "0 < rate"
    "send_all (en_timing E) (en_client E u) bd items rate w = Some (Inr sent, w')"
  shows "map sent_item sent = items"
  using send_all_returns [of "en_timing E" now "en_client E u" rate bd items w] assms
  by (auto simp: well_behaved_def)

lemma fired_sent:
  assumes "fire E P w = Some (Fired t ps b sent out, w')" "well_behaved E now" "0 < rp_rate P"
  obtains corpus where
    "build_tagged_corpus E (rp_seed P) (rp_count P) (rp_tag_prefix P) = Inr corpus"
    "map (\<lambda>m. (sm_email m, sm_tag m, sm_record_id m)) sent = corpus" "modes_ok (rp_modes P)"
proof -
  obtain corpus w1 w2 where c: "build_tagged_corpus E (rp_seed P) (rp_count P) (rp_tag_prefix P) = Inr corpus"
    "guards_pass E P" "send_all (en_timing E) (en_client E (rt_url t)) (en_build E (rt_format_name t))
       (build_items E corpus) (rp_rate P) w1 = Some (Inr sent, w2)"
    using fire_Fired [OF assms(1)] by metis
  from map_prod_sent [OF send_all_items [OF assms(2,3) c(3)]] c(1,2) that show thesis
    by (auto simp: guards_pass_def modes_ok_def)
qed

lemma saved_records:
  assumes "modes_ok M" "judge_run E M sent out = Exits c (Some a)"
  shows "map (\<lambda>r. \<lparr>sr_id = vr_id r, sr_category = vr_category r, sr_tag = Some (vr_tag r),
      sr_payload_sha256 = vr_payload_sha256 r\<rparr>) (va_records a) =
    map (\<lambda>m. \<lparr>sr_id = sm_record_id m, sr_category = ''clean'', sr_tag = Some (sm_tag m),
      sr_payload_sha256 = en_sha E (sm_email m)\<rparr>) sent"
proof -
  obtain rs where "verify_records (en_sha E) M (ro_all_404 out)
      (map (graded (en_lib E) M (held out)) sent) (held out) sent = Inr rs" "va_records a = rs"
    using judge_run_ok [OF assms(1), of E sent out] assms(2) by auto
  with verify_records_ok [OF assms(1), of "en_sha E" "ro_all_404 out"
      "map (graded (en_lib E) M (held out)) sent" "held out" sent]
  show ?thesis by (intro nth_equalityI) (auto simp: Let_def)
qed

text \<open>A saved run is re-checked for what it was. When the messages sent are those of the
  run's tagged corpus, as \<open>send_all\<close> leaves them, reading back the artifact of the judged
  run with no flags rebuilds exactly those messages - payload, tag, record id and payload
  hash, in order - and the match modes the run was fired with. This needs a corpus
  builder that makes as many payloads as asked for, at least one, and a route that is
  absent or not empty.\<close>

theorem saved_run_rebuilt:
  assumes c: "build_tagged_corpus E (rp_seed P) (rp_count P) (rp_tag_prefix P) = Inr corp"
    and s: "map (\<lambda>m. (sm_email m, sm_tag m, sm_record_id m)) sent = corp"
    and ok: "modes_ok (rp_modes P)"
    and judged: "judge_run E (rp_modes P) sent out = Exits c (Some a)"
    and corpus: "length (en_corpus E (rp_seed P) (rp_count P)) = rp_count P" "0 < rp_count P"
    and route: "mm_route (rp_modes P) \<noteq> Some []"
  shows "saved_plan E (SavedRun (saved_of P a)) no_flags = Inr (Some
    (map (\<lambda>m. (sm_email m, sm_tag m, sm_record_id m, en_sha E (sm_email m))) sent, rp_modes P))"
proof -
  note tags = stamp_corpus_tags [OF c [unfolded build_tagged_corpus_def]]
  have len: "length corp = rp_count P" using tags corpus(1) by simp
  have "rp_tag_prefix P \<noteq> []"
    using tags corpus by (auto simp: make_tag_def split: if_splits)
  then have pre: "DEFAULT_PREFIX_OF None (saved_of P a) = rp_tag_prefix P"
    by (simp add: DEFAULT_PREFIX_OF_def saved_of_def)
  have modes: "fst (recorded_match_modes (saved_of P a) (co_given no_flags)) = rp_modes P"
    using route by (cases "rp_modes P"; cases "mm_route (rp_modes P)")
      (auto simp: recorded_match_modes_def saved_of_def no_flags_def pick_mode_def Let_def)
  have recs: "sv_records (saved_of P a) =
      map (\<lambda>(e, t, r). \<lparr>sr_id = r, sr_category = ''clean'', sr_tag = Some t,
        sr_payload_sha256 = en_sha E e\<rparr>) corp"
    using saved_records [OF ok judged] by (simp add: saved_of_def s [symmetric] comp_def)
  have clean: "filter (\<lambda>r. sr_category r = ''clean'') (sv_records (saved_of P a)) =
      sv_records (saved_of P a)"
    by (rule filter_True) (auto simp: recs)
  have ne: "sv_records (saved_of P a) \<noteq> []" using len corpus(2) by (auto simp: recs)
  have "wanted_from corp (sv_records (saved_of P a)) = Some (map (\<lambda>(e, t, r). (e, t, r, en_sha E e)) corp)"
    using wanted_from_all [of corp corp "en_sha E"] tags unfolding recs by simp
  then show ?thesis
    using modes pre c len ne
    by (simp add: saved_plan_def clean artifact_tool_def saved_of_keys no_flags_keys
        s [symmetric] comp_def)
qed

text \<open>A re-check sends nothing. \<open>verify check\<close> behaves the same whatever the HTTP client
  for sends and the wire format are: neither is used. A file that is no artifact, a blast
  artifact, and one whose records cannot be lined up with the rebuilt corpus are refused
  before anything is asked.\<close>

theorem check_sends_nothing:
  "check_saved_run (E\<lparr>en_client := client, en_build := build\<rparr>) f C w = check_saved_run E f C w \<and>
   check_saved_run E Unreadable C w = Some (Exits EXIT_REFUSED None, w) \<and>
   check_saved_run E NotJson C w = Some (Exits EXIT_REFUSED None, w) \<and>
   (artifact_tool d = Some ''blast'' \<or> list_ex (\<lambda>r. sr_category r = ''clean'' \<and> sr_tag r = None) (sv_records d) \<longrightarrow>
      check_saved_run E (SavedRun d) C w \<in> {Some (Exits EXIT_REFUSED None, w), Some (Raises, w)})"
proof -
  have w: "wanted_from corpus rs = None" if "list_ex (\<lambda>r. sr_tag r = None) rs" for corpus rs
    using that by (induction rs) (auto split: option.splits)
  have j: "judge_run (E\<lparr>en_client := client, en_build := build\<rparr>) M s out = judge_run E M s out" for M s out
    by (simp add: judge_run_def split: sum.split)
  have keep: "en_prepare (E\<lparr>en_client := client, en_build := build\<rparr>) = en_prepare E"
    "en_timing (E\<lparr>en_client := client, en_build := build\<rparr>) = en_timing E"
    "en_repr (E\<lparr>en_client := client, en_build := build\<rparr>) = en_repr E"
    by simp_all
  have p: "saved_plan (E\<lparr>en_client := client, en_build := build\<rparr>) f C = saved_plan E f C"
  proof -
    have "build_tagged_corpus (E\<lparr>en_client := client, en_build := build\<rparr>) = build_tagged_corpus E"
      by (intro ext) (simp add: build_tagged_corpus_def)
    then show ?thesis unfolding saved_plan_def by (simp only:)
  qed
  have "saved_plan E (SavedRun d) C = Inr None \<or> (\<exists>e. saved_plan E (SavedRun d) C = Inl e)"
    if "artifact_tool d = Some ''blast'' \<or> list_ex (\<lambda>r. sr_category r = ''clean'' \<and> sr_tag r = None) (sv_records d)"
  proof -
    have "list_ex (\<lambda>r. sr_tag r = None) (filter (\<lambda>r. sr_category r = ''clean'') (sv_records d))"
      if "artifact_tool d \<noteq> Some ''blast''"
      using that \<open>artifact_tool d = Some ''blast'' \<or> _\<close> by (auto simp: list_ex_iff)
    then show ?thesis
      by (auto simp: saved_plan_def Let_def w split: option.splits sum.splits)
  qed
  moreover have "check_saved_run (E\<lparr>en_client := client, en_build := build\<rparr>) f C w = check_saved_run E f C w"
    unfolding check_saved_run_def j p by (simp only: keep)
  ultimately show ?thesis
    by (auto simp: check_saved_run_def saved_plan_def [of E Unreadable] saved_plan_def [of E NotJson])
qed

section \<open>A run on a small system\<close>

text \<open>A system for the witnesses: an internal target, a client that answers 200, and an
  adapter that answers a probe with the records a function makes of it.\<close>

definition echo_record :: "probe \<Rightarrow> readback" where
  "echo_record p = sample_record\<lparr>rb_ticket_id := Some (pr_tag p), rb_from_addr := Some (pr_from_addr p),
     rb_subject := Some (pr_subject p), rb_tag := Some (pr_tag p)\<rparr>"

definition sample_built :: "(probe \<Rightarrow> readback list) \<Rightarrow> seconds built" where
  "sample_built f = \<lparr>bt_source = \<lparr>src_bind = (\<lambda>_ t. t),
       src_fetch = (\<lambda>p t. (Answer (plain_result (f p)), t + 1)), src_rate = None\<rparr>,
     bt_enumerate_records = True, bt_can_enumerate = CanDeclared True,
     bt_list_all = Some (\<lambda>t. (Inr (plain_result [sample_record]), t)), bt_close = (\<lambda>t. t)\<rparr>"

text \<open>The address between angle brackets, or the text itself.\<close>

definition bare_address :: "string \<Rightarrow> string" where
  "bare_address s = (if CHR ''<'' \<in> set s
     then takeWhile (\<lambda>c. c \<noteq> CHR ''>'') (after_last CHR ''<'' s) else s)"

definition sample_env :: "(probe \<Rightarrow> readback list) \<Rightarrow> (seconds, unit) env" where
  "sample_env f = \<lparr>en_timing = additive, en_client = (\<lambda>u. quick_client), en_build = (\<lambda>u e. ()),
     en_net = sample_net\<lparr>lib_addresses := map bare_address\<rparr>, en_lib = sample_lib, en_repr = (\<lambda>_. []),
     en_config = Inr [''stage'' \<mapsto> \<lparr>tg_name = ''stage'', tg_url = ''http://stage/in'',
       tg_wire_format = ''sendgrid'', tg_public = False\<rparr>],
     en_prepare = (\<lambda>t. (Inr (sample_built f), t)), en_sha = (\<lambda>e. em_subject e),
     en_corpus = (\<lambda>seed n. replicate n sample_email)\<rparr>"

definition sample_params :: run_params where
  "sample_params = \<lparr>rp_seed = 7, rp_count = 1, rp_target = Some ''stage'', rp_tag_prefix = ''hq'',
     rp_rate = 5, rp_modes = \<lparr>mm_route = None, mm_body_exact = False, mm_subject = ''contains'',
       mm_attachment = ''exact''\<rparr>, rp_allow_public = False, rp_quiet_window = 2,
     rp_max_wait = Some 60, rp_poll_interval = 1,
     rp_readback = \<lparr>rs_spec = False, rs_kind = None, rs_rate = NoRate\<rparr>\<rparr>"

abbreviation good_env :: "(seconds, unit) env" where
  "good_env \<equiv> sample_env (\<lambda>p. [echo_record p])"

lemma sample_modes_ok: "modes_ok (rp_modes sample_params)"
  by (simp add: modes_ok_def validate_match_modes_def sample_params_def SUBJECT_MATCH_MODES_def
      ATTACHMENT_MATCH_MODES_def)

lemma sample_behaves: "well_behaved (sample_env f) (\<lambda>t. t)"
  by (auto simp: well_behaved_def sample_env_def monotonic_additive patient_def quick_client_def
      source_patient_def sample_built_def)

text \<open>One message, and a settled readback that holds it once.\<close>

definition sample_sent :: "sent_message list" where
  "sample_sent = [\<lparr>sm_index = 0, sm_record_id = ''clean-7-0000'', sm_tag = ''hq-7-0000'',
     sm_email = sample_email, sm_probe = probe_for sample_email ''hq-7-0000'' ''clean-7-0000'' [],
     sm_result = never_sent\<rparr>]"

definition sample_outcome :: "readback list \<Rightarrow> outcome" where
  "sample_outcome rs = \<lparr>ro_readbacks = [(''hq-7-0000'', rs)], ro_elapsed = 6, ro_polls = 3,
     ro_stable = True, ro_missing = [], ro_budget_exhausted = False, ro_partial = [],
     ro_all_404 = False, ro_detail = None, ro_complete_polls = 3, ro_cause = None,
     ro_reason = None, ro_advice = None\<rparr>"

definition sample_held :: readback where
  "sample_held = echo_record (probe_for sample_email ''hq-7-0000'' ''clean-7-0000'' [])"

lemma correct_cong:
  "f (sm_tag m) = rs \<Longrightarrow> correct L M f m = correct L M (\<lambda>_. rs) m"
  by (simp add: correct_def)

lemma sample_correct:
  "correct sample_lib (rp_modes sample_params) (\<lambda>t. [sample_held]) m" if "sm_email m = sample_email"
proof -
  obtain x where x: "expectations_for (rp_modes sample_params) sample_email = Inr x"
    using expectations_for_ok [OF sample_modes_ok] by blast
  have "list_all (\<lambda>c. cr_passed c \<noteq> Some False)
      (vf_checks (evaluate sample_lib (Some sample_held)
        (projr (expectations_for (rp_modes sample_params) sample_email)) [] []))"
    by code_simp
  then have "\<forall>c \<in> set (vf_checks (evaluate sample_lib (Some sample_held) x r t)). cr_passed c \<noteq> Some False"
    for r t by (simp add: x list_all_iff)
  moreover have "rb_exists sample_held"
    by (simp add: sample_held_def echo_record_def sample_record_def)
  ultimately show ?thesis using x that by (auto simp: correct_def)
qed

theorem verify_exit_means_correct_witness:
  "(\<exists>a. judge_run good_env (rp_modes sample_params) sample_sent (sample_outcome [sample_held]) =
      Exits EXIT_OK (Some a)) \<and>
   (\<exists>a. judge_run good_env (rp_modes sample_params) sample_sent (sample_outcome []) =
      Exits EXIT_FINDING (Some a))"
proof -
  have h: "held (sample_outcome rs) (sm_tag m) = rs" if "m \<in> set sample_sent" for rs m
    using that by (simp add: held_def sample_outcome_def sample_sent_def)
  have o: "ro_stable (sample_outcome rs)" "\<not> ro_all_404 (sample_outcome rs)" for rs
    by (simp_all add: sample_outcome_def)
  have e: "sm_email m = sample_email" if "m \<in> set sample_sent" for m
    using that by (simp add: sample_sent_def)
  have "\<forall>m \<in> set sample_sent. correct (en_lib good_env) (rp_modes sample_params)
      (held (sample_outcome [sample_held])) m"
  proof
    fix m assume m: "m \<in> set sample_sent"
    have "en_lib good_env = sample_lib" by (simp add: sample_env_def)
    with correct_cong [of "held (sample_outcome [sample_held])" m "[sample_held]" sample_lib]
      h [OF m] sample_correct [OF e [OF m]]
    show "correct (en_lib good_env) (rp_modes sample_params) (held (sample_outcome [sample_held])) m"
      by simp
  qed
  moreover have "\<not> (\<forall>m \<in> set sample_sent. correct (en_lib good_env) (rp_modes sample_params)
      (held (sample_outcome [])) m)"
    using h by (simp add: correct_def sample_sent_def)
  ultimately show ?thesis
    using verify_exit_means_correct [OF sample_modes_ok, of good_env sample_sent "sample_outcome [sample_held]"]
      verify_exit_means_correct [OF sample_modes_ok, of good_env sample_sent "sample_outcome []"] o
    by auto
qed

theorem verify_summary_adds_up_witness:
  "\<exists>m. vs_verified (summarize [graded sample_lib (rp_modes sample_params) (\<lambda>_. []) m] [m]
        (Some (settle (sample_args 1 20) [] 0 9 initial_poll))) = 0 \<and>
     vs_failed (summarize [graded sample_lib (rp_modes sample_params) (\<lambda>_. []) m] [m]
        (Some (settle (sample_args 1 20) [] 0 9 initial_poll))) = 1"
proof -
  let ?out = "settle (sample_args 1 20) [] 0 9 initial_poll"
  let ?m = "\<lparr>sm_index = 0, sm_record_id = ''r'', sm_tag = ''t'', sm_email = sample_email,
    sm_probe = sample_probe ''t'', sm_result = never_sent\<rparr>"
  have h: "held ?out = (\<lambda>_. [])" by (auto simp: held_def settle_def Let_def)
  have "\<not> ro_all_404 ?out" by (simp add: settle_def Let_def)
  moreover have "\<not> correct sample_lib (rp_modes sample_params) (\<lambda>_. []) ?m"
    by (simp add: correct_def)
  ultimately show ?thesis
    using verify_summary_adds_up [OF refl sample_modes_ok, of sample_lib ?out "[?m]"]
    by (intro exI [of _ ?m]) (simp add: h Let_def)
qed

text \<open>The same run at a target nobody declared.\<close>

theorem verify_guarded_witness:
  "\<exists>r. verify_execute good_env (sample_params\<lparr>rp_target := Some ''prod''\<rparr>) 0 = Some (r, 0) \<and>
     (r = Raises \<or> r = Exits EXIT_REFUSED None)"
proof -
  let ?P = "sample_params\<lparr>rp_target := Some ''prod''\<rparr>"
  have g: "\<not> guards_pass good_env ?P"
    by (simp add: guards_pass_def resolve_target_def sample_env_def sample_params_def)
  obtain r w' where "verify_execute good_env ?P 0 = Some (r, w')"
    using fire_guarded [OF g, of 0] by (auto simp: verify_execute_def)
  with verify_guarded [of good_env ?P 0 r w'] g show ?thesis by auto
qed

theorem verify_comes_back_witness:
  "\<exists>r w'. verify_execute good_env sample_params 0 = Some (r, w')"
proof -
  have "0 < rp_rate sample_params" by (simp add: sample_params_def)
  from verify_comes_back [OF sample_behaves this] show ?thesis by blast
qed

theorem saved_run_rebuilt_witness:
  "\<exists>(sent :: sent_message list) a. length sent = 1 \<and> saved_plan good_env (SavedRun (saved_of sample_params a)) no_flags =
     Inr (Some (map (\<lambda>m. (sm_email m, sm_tag m, sm_record_id m, em_subject (sm_email m))) sent,
       rp_modes sample_params))"
proof -
  have "\<exists>c. build_tagged_corpus good_env 7 1 ''hq'' = Inr c"
    by (simp add: build_tagged_corpus_def sample_env_def stamp_corpus_def make_tag_def stamp_def
        tag_marker_def no_pins_def Let_def)
  then obtain corp where c: "build_tagged_corpus good_env (rp_seed sample_params)
      (rp_count sample_params) (rp_tag_prefix sample_params) = Inr corp"
    by (auto simp: sample_params_def)
  let ?m = "\<lambda>(e, t, r). \<lparr>sm_index = 0, sm_record_id = r, sm_tag = t, sm_email = e,
    sm_probe = sample_probe t, sm_result = never_sent\<rparr>"
  have s: "map (\<lambda>m. (sm_email m, sm_tag m, sm_record_id m)) (map ?m corp) = corp"
    by (simp add: comp_def case_prod_unfold)
  obtain e a where j: "judge_run good_env (rp_modes sample_params) (map ?m corp) (sample_outcome []) =
      Exits e (Some a)"
    using judge_run_ok [OF sample_modes_ok] by blast
  have p: "0 < rp_count sample_params" "mm_route (rp_modes sample_params) \<noteq> Some []"
    "length (en_corpus good_env (rp_seed sample_params) (rp_count sample_params)) = rp_count sample_params"
    by (simp_all add: sample_params_def sample_env_def)
  have l: "length (map ?m corp) = 1"
    using stamp_corpus_tags [OF c [unfolded build_tagged_corpus_def]]
    by (simp add: sample_env_def sample_params_def)
  have sha: "en_sha good_env = em_subject" by (simp add: sample_env_def)
  note r = saved_run_rebuilt [OF c s sample_modes_ok j p(3) p(1) p(2), unfolded sha]
  from l r show ?thesis by blast
qed

theorem check_sends_nothing_witness:
  "\<exists>d. artifact_tool d = Some ''blast'' \<and>
     check_saved_run good_env (SavedRun d) no_flags 0 \<in>
       {Some (Exits EXIT_REFUSED None, 0), Some (Raises, 0)}"
proof -
  let ?d = "\<lparr>sv_tool = None, sv_config_tool = None, sv_by_status_class = True, sv_schema = Some 0,
    sv_seed = Some 0, sv_count = Some 1, sv_tag_prefix = None, sv_route = None,
    sv_body_exact = None, sv_subject = None, sv_attachment = None, sv_records = []\<rparr>"
  have "artifact_tool ?d = Some ''blast''" by (simp add: artifact_tool_def)
  with check_sends_nothing [where E = good_env and C = no_flags and w = 0 and d = ?d] show ?thesis by blast
qed

end
