(* ===== verification/Ledger.thy ===== *)
theory Ledger
  imports Verify
begin

text \<open>The \<open>ledger\<close> tool of \<open>pipeline/ledger.py\<close>: exactly-once accounting of the tagged
  messages of a run, with the search for records nobody sent. The tag is the only
  identity; \<open>minted_by\<close> says exactly which prefix a tag was made under.

  Enumeration of the store happens on the built adapter after the poll. Reasons a search
  was not made are constructors; printing is left out.\<close>

section \<open>Strays\<close>

text \<open>\<open>_TAG_SHAPE\<close>: no white space, then a dash, a seed, a dash and an index.\<close>

definition tag_shape :: "string \<Rightarrow> bool" where
  "tag_shape t \<longleftrightarrow> list_ex (\<lambda>k. tag_split_at t k \<and> list_all (\<lambda>c. \<not> is_space c) (take k t))
     [1..<length t]"

definition stray_tag :: "readback \<Rightarrow> string option \<times> bool" where
  "stray_tag r =
     (let tag = (case rb_tag r of Some t \<Rightarrow> strip t | None \<Rightarrow> [])
      in if tag \<noteq> [] \<and> tag_shape tag then (Some tag, True)
         else (case harvest_tag [rb_body r, rb_subject r] of
                 Some t \<Rightarrow> (Some t, True)
               | None \<Rightarrow> (if tag \<noteq> [] then Some tag else None, False)))"

definition prefixes_of :: "string list \<Rightarrow> string list" where
  "prefixes_of family = filter (\<lambda>p. p \<noteq> []) family"

definition minted_under :: "string \<Rightarrow> string \<Rightarrow> bool" where
  "minted_under tag p \<longleftrightarrow>
     prefix (p @ ''-'') tag \<and> tag_tail (drop (Suc (length p)) tag) \<noteq> None"

text \<open>The longest prefix wins; the sort is stable.\<close>

definition minted_by :: "string \<Rightarrow> string list \<Rightarrow> string option" where
  "minted_by tag family =
     find (minted_under tag) (sort_key (\<lambda>p. - int (length p)) (prefixes_of family))"

definition in_family :: "string \<Rightarrow> string list \<Rightarrow> bool" where
  "in_family tag family \<longleftrightarrow> minted_by tag family \<noteq> None"

type_synonym stray = "string \<times> string"

definition ticket_str :: "readback \<Rightarrow> string" where
  "ticket_str r = (case rb_ticket_id r of Some t \<Rightarrow> t | None \<Rightarrow> ''None'')"

record stray_classes =
  sc_extra :: "stray list"
  sc_other_runs :: "stray list"
  sc_untagged :: nat

fun classify_from ::
  "readback list \<Rightarrow> string list \<Rightarrow> string list \<Rightarrow> string list \<Rightarrow> stray_classes \<Rightarrow> stray_classes"
where
  "classify_from [] sent own family acc = acc"
| "classify_from (r # rs) sent own family acc =
     (let (tag, is_ours) = stray_tag r
      in if (case tag of Some t \<Rightarrow> t \<noteq> [] \<and> t \<in> set sent | None \<Rightarrow> False) \<or> ticket_str r \<in> set own
         then classify_from rs sent own family acc
         else if \<not> is_ours \<or> \<not> truthy tag
         then classify_from rs sent own family (acc\<lparr>sc_untagged := Suc (sc_untagged acc)\<rparr>)
         else if in_family (the tag) family
         then classify_from rs sent own family
                (acc\<lparr>sc_extra := sc_extra acc @ [(the tag, ticket_str r)]\<rparr>)
         else classify_from rs sent own family
                (acc\<lparr>sc_other_runs := sc_other_runs acc @ [(the tag, ticket_str r)]\<rparr>))"

definition classify_strays ::
  "readback list \<Rightarrow> string list \<Rightarrow> string list \<Rightarrow> string list \<Rightarrow> stray_classes"
where
  "classify_strays strays sent own family =
     classify_from strays sent own family \<lparr>sc_extra = [], sc_other_runs = [], sc_untagged = 0\<rparr>"

section \<open>The accounting\<close>

definition MAX_ARTIFACT_STRAYS :: nat where "MAX_ARTIFACT_STRAYS = 200"

datatype stray_reason =
    AdapterCannotEnumerate
  | EnumerateIsFalse
  | CanEnumerateFailed string
  | EnumeratingFailed string
  | Truncated

record ledger_lists =
  ll_missing :: "string list"
  ll_duplicated :: "(string \<times> nat \<times> string list) list"
  ll_wrong :: "(string \<times> string \<times> (string \<times> detail) list) list"
  ll_exactly_once :: "string list"
  ll_not_checked :: "string list"
  ll_produced :: nat

definition no_lists :: ledger_lists where
  "no_lists = \<lparr>ll_missing = [], ll_duplicated = [], ll_wrong = [], ll_exactly_once = [],
     ll_not_checked = [], ll_produced = 0\<rparr>"

text \<open>The loop over the sent messages.\<close>

fun account_sent ::
  "pylib \<Rightarrow> match_modes \<Rightarrow> bool \<Rightarrow> (string \<Rightarrow> readback list) \<Rightarrow> sent_message list \<Rightarrow> ledger_lists \<Rightarrow>
     expectation_error + ledger_lists"
where
  "account_sent L M rf readbacks [] ll = Inr ll"
| "account_sent L M rf readbacks (m # sent) ll0 =
     (let found = readbacks (sm_tag m);
          ll = ll0\<lparr>ll_produced := ll_produced ll0 + length found\<rparr>
      in if found = [] then
           account_sent L M rf readbacks sent
             (if rf then ll\<lparr>ll_not_checked := ll_not_checked ll @ [sm_tag m]\<rparr>
              else ll\<lparr>ll_missing := ll_missing ll @ [sm_tag m]\<rparr>)
         else if 1 < length found then
           account_sent L M rf readbacks sent
             (ll\<lparr>ll_duplicated := ll_duplicated ll @ [(sm_tag m, length found, map ticket_str found)]\<rparr>)
         else (case expectations_for M (sm_email m) of
                 Inl e \<Rightarrow> Inl e
               | Inr x \<Rightarrow>
                   (let v = evaluate_sequence L found x (sm_record_id m) (sm_tag m)
                    in account_sent L M rf readbacks sent
                      (if vf_passed v
                       then ll\<lparr>ll_exactly_once := ll_exactly_once ll @ [sm_tag m]\<rparr>
                       else ll\<lparr>ll_wrong := ll_wrong ll @
                              [(sm_tag m, sm_record_id m, mismatch_strings v)]\<rparr>))))"

record accounting =
  ac_sent :: nat
  ac_produced :: nat
  ac_exactly_once :: nat
  ac_missing :: "string list"
  ac_duplicated :: "(string \<times> nat \<times> string list) list"
  ac_wrong :: "(string \<times> string \<times> (string \<times> detail) list) list"
  ac_extra :: "stray list option"
  ac_extra_count :: "nat option"
  ac_other_runs :: "stray list option"
  ac_other_runs_count :: "nat option"
  ac_untagged_count :: "nat option"
  ac_strays_searched :: bool
  ac_strays_partial :: bool
  ac_not_searched_reason :: "stray_reason option"
  ac_unsettled :: bool
  ac_readback_failed :: bool
  ac_not_checked :: "string list"
  ac_balanced :: bool

text \<open>\<open>readbacks\<close> is a dictionary: the tags looked up with their records.\<close>

definition readbacks_get :: "(string \<times> readback list) list \<Rightarrow> string \<Rightarrow> readback list" where
  "readbacks_get rb tag = (case map_of rb tag of Some rs \<Rightarrow> rs | None \<Rightarrow> [])"

definition assemble ::
  "string \<Rightarrow> sent_message list \<Rightarrow> (string \<times> readback list) list \<Rightarrow> readback list option \<Rightarrow>
     stray_reason option \<Rightarrow> bool \<Rightarrow> bool \<Rightarrow> bool \<Rightarrow> ledger_lists \<Rightarrow> accounting"
where
  "assemble tag_prefix sent readbacks strays reason partial unsettled failed ll =
     (let sent_tags = map sm_tag sent;
          searched = (strays \<noteq> None \<and> \<not> partial);
          own = map ticket_str (concat (map snd readbacks));
          classes = map_option (\<lambda>ss. classify_strays ss sent_tags own [tag_prefix]) strays;
          extra = map_option sc_extra classes;
          other = map_option sc_other_runs classes
      in \<lparr>ac_sent = length sent_tags, ac_produced = ll_produced ll,
          ac_exactly_once = length (ll_exactly_once ll), ac_missing = ll_missing ll,
          ac_duplicated = ll_duplicated ll, ac_wrong = ll_wrong ll,
          ac_extra = map_option (take MAX_ARTIFACT_STRAYS) extra,
          ac_extra_count = map_option length extra,
          ac_other_runs = map_option (take MAX_ARTIFACT_STRAYS) other,
          ac_other_runs_count = map_option length other,
          ac_untagged_count = map_option sc_untagged classes,
          ac_strays_searched = searched, ac_strays_partial = (strays \<noteq> None \<and> partial),
          ac_not_searched_reason = (if searched then None
            else Some (case reason of Some r \<Rightarrow> r | None \<Rightarrow> AdapterCannotEnumerate)),
          ac_unsettled = unsettled, ac_readback_failed = failed,
          ac_not_checked = ll_not_checked ll,
          ac_balanced = (ll_missing ll = [] \<and> ll_duplicated ll = [] \<and> ll_wrong ll = [] \<and>
            searched \<and> (case extra of None \<Rightarrow> True | Some xs \<Rightarrow> xs = []) \<and> \<not> unsettled \<and>
            \<not> failed)\<rparr>)"

definition account ::
  "pylib \<Rightarrow> match_modes \<Rightarrow> string \<Rightarrow> sent_message list \<Rightarrow> (string \<times> readback list) list \<Rightarrow>
     readback list option \<Rightarrow> stray_reason option \<Rightarrow> bool \<Rightarrow> bool \<Rightarrow> bool \<Rightarrow>
     expectation_error + accounting"
where
  "account L M tag_prefix sent readbacks strays reason partial unsettled failed =
     (case account_sent L M failed (readbacks_get readbacks) sent no_lists of
        Inl e \<Rightarrow> Inl e
      | Inr ll \<Rightarrow> Inr (assemble tag_prefix sent readbacks strays reason partial unsettled failed ll))"

definition BALANCED :: string where "BALANCED = ''BALANCED''"
definition UNACCOUNTED :: string where "UNACCOUNTED = ''UNACCOUNTED''"
definition MISPARSED :: string where "MISPARSED = ''MISPARSED''"
definition UNVERIFIED_STRAYS :: string where "UNVERIFIED_STRAYS = ''UNVERIFIED STRAYS''"

definition ledger_verdict :: "accounting \<Rightarrow> string" where
  "ledger_verdict ac =
     (if ac_readback_failed ac then READBACK_FAILED
      else if ac_duplicated ac \<noteq> [] \<or> (case ac_extra ac of None \<Rightarrow> False | Some xs \<Rightarrow> xs \<noteq> [])
      then UNACCOUNTED
      else if ac_unsettled ac \<and> ac_missing ac \<noteq> [] then UNSETTLED
      else if ac_missing ac \<noteq> [] then UNACCOUNTED
      else if ac_wrong ac \<noteq> [] then MISPARSED
      else if ac_unsettled ac then UNSETTLED
      else if \<not> ac_strays_searched ac then UNVERIFIED_STRAYS
      else BALANCED)"

section \<open>The artifact and the run\<close>

record ledger_record =
  lr_id :: string
  lr_tag :: string
  lr_message_id :: string
  lr_payload_sha256 :: string
  lr_intended :: expectations
  lr_response :: "int option \<times> rat \<times> string"
  lr_tickets :: "string list"
  lr_ticket_count :: nat

fun ledger_records ::
  "match_modes \<Rightarrow> (string \<Rightarrow> readback list) \<Rightarrow> sent_message list \<Rightarrow> expectation_error + ledger_record list"
where
  "ledger_records M readbacks [] = Inr []"
| "ledger_records M readbacks (m # sent) =
     (case expectations_for M (sm_email m) of
        Inl e \<Rightarrow> Inl e
      | Inr x \<Rightarrow>
          (case ledger_records M readbacks sent of
             Inl e \<Rightarrow> Inl e
           | Inr rs \<Rightarrow> Inr (\<lparr>lr_id = sm_record_id m, lr_tag = sm_tag m,
               lr_message_id = pr_message_id (sm_probe m),
               lr_payload_sha256 = pr_payload_sha256 (sm_probe m), lr_intended = x,
               lr_response = response_json m, lr_tickets = map ticket_str (readbacks (sm_tag m)),
               lr_ticket_count = length (readbacks (sm_tag m))\<rparr> # rs)))"

record ledger_artifact =
  la_accounting :: accounting
  la_verdict :: string
  la_verdict_source :: verdict_source
  la_readback :: "outcome option"
  la_records :: "ledger_record list"

definition build_ledger_artifact ::
  "match_modes \<Rightarrow> sent_message list \<Rightarrow> accounting \<Rightarrow> (string \<Rightarrow> readback list) \<Rightarrow> outcome option \<Rightarrow>
     expectation_error + ledger_artifact"
where
  "build_ledger_artifact M sent ac readbacks out =
     (case ledger_records M readbacks sent of
        Inl e \<Rightarrow> Inl e
      | Inr rs \<Rightarrow>
          (let v = readback_verdict (ledger_verdict ac) out
           in Inr \<lparr>la_accounting = ac, la_verdict = fst v, la_verdict_source = snd v,
                   la_readback = out, la_records = rs\<rparr>))"

text \<open>Whether a built adapter can enumerate, and why not.\<close>

definition adapter_can_enumerate :: "'w built \<Rightarrow> bool \<times> stray_reason option" where
  "adapter_can_enumerate b =
     (if \<not> bt_enumerate_records b then (False, Some EnumerateIsFalse)
      else (case bt_can_enumerate b of
              CanMethod (Inl e) \<Rightarrow> (False, Some (CanEnumerateFailed e))
            | CanMethod (Inr False) \<Rightarrow> (False, Some AdapterCannotEnumerate)
            | CanDeclared False \<Rightarrow> (False, Some AdapterCannotEnumerate)
            | _ \<Rightarrow> if bt_list_all b = None then (False, Some AdapterCannotEnumerate) else (True, None)))"

definition enumerate_store ::
  "'w built \<Rightarrow> 'w \<Rightarrow> (readback list option \<times> stray_reason option \<times> bool) \<times> 'w"
where
  "enumerate_store b w =
     (case adapter_can_enumerate b of (able, reason) \<Rightarrow>
        if \<not> able then ((None, reason, False), w)
        else (case the (bt_list_all b) w of
                (Inl e, w') \<Rightarrow> ((None, Some (EnumeratingFailed e), False), w')
              | (Inr fr, w') \<Rightarrow>
                  if fr_partial fr then ((Some (fr_items fr), Some Truncated, True), w')
                  else ((Some (fr_items fr), None, False), w')))"

definition enumerate_strays :: "'w built \<Rightarrow> 'w \<Rightarrow> (readback list option \<times> stray_reason option) \<times> 'w" where
  "enumerate_strays b w =
     (case enumerate_store b w of ((records, reason, partial), w') \<Rightarrow>
        if partial then ((None, reason), w') else ((records, reason), w'))"

definition ledger_judge ::
  "('w, 'q) env \<Rightarrow> match_modes \<Rightarrow> string \<Rightarrow> readback list option \<times> stray_reason option \<times> bool \<Rightarrow>
     sent_message list \<Rightarrow> outcome \<Rightarrow> ledger_artifact executed"
where
  "ledger_judge E M tag_prefix search sent out =
     (case search of (strays, reason, partial) \<Rightarrow>
       (case account (en_lib E) M tag_prefix sent (ro_readbacks out) strays reason partial
               (readback_unsettled (Some out)) (readback_failed (Some out)) of
          Inl e \<Rightarrow> Raises
        | Inr ac \<Rightarrow>
            (case build_ledger_artifact M sent ac (held out) (Some out) of
               Inl e \<Rightarrow> Raises
             | Inr a \<Rightarrow> Exits (if ac_balanced ac then EXIT_OK else EXIT_MISMATCH) (Some a))))"

definition ledger_execute ::
  "('w, 'q) env \<Rightarrow> run_params \<Rightarrow> 'w \<Rightarrow> (ledger_artifact executed \<times> 'w) option"
where
  "ledger_execute E P w =
     (case fire E P w of
        None \<Rightarrow> None
      | Some (Crashed e, w') \<Rightarrow> Some (Raises, w')
      | Some (Refused r, w') \<Rightarrow> Some (Exits EXIT_REFUSED None, w')
      | Some (Broken r, w') \<Rightarrow> Some (Exits EXIT_REFUSED None, w')
      | Some (Fired target ps b sent out, w1) \<Rightarrow>
          (case enumerate_store b w1 of (search, w2) \<Rightarrow>
             Some (ledger_judge E (rp_modes P) (rp_tag_prefix P) search sent out, bt_close b w2)))"

section \<open>Facts about the accounting\<close>

lemma passed_one:
  assumes "modes_ok M" "f (sm_tag m) = [r]" "expectations_for M (sm_email m) = Inr x"
  shows "vf_passed (evaluate_sequence L [r] x (sm_record_id m) (sm_tag m)) \<longleftrightarrow> correct L M f m"
  using graded_passed [OF assms(1), of L f m] assms(2,3) by (simp add: graded_def)

definition misparsed :: "pylib \<Rightarrow> match_modes \<Rightarrow> (string \<Rightarrow> readback list) \<Rightarrow> sent_message \<Rightarrow> bool" where
  "misparsed L M f m \<longleftrightarrow> length (f (sm_tag m)) = 1 \<and> \<not> correct L M f m"

lemma account_sent_lists:
  assumes "modes_ok M"
  shows "\<exists>ll'. account_sent L M rf f sent ll = Inr ll' \<and>
    ll_missing ll' = ll_missing ll @ (if rf then [] else map sm_tag (filter (\<lambda>m. f (sm_tag m) = []) sent)) \<and>
    ll_not_checked ll' = ll_not_checked ll @ (if rf then map sm_tag (filter (\<lambda>m. f (sm_tag m) = []) sent) else []) \<and>
    ll_duplicated ll' = ll_duplicated ll @ map (\<lambda>m. (sm_tag m, length (f (sm_tag m)), map ticket_str (f (sm_tag m))))
      (filter (\<lambda>m. 1 < length (f (sm_tag m))) sent) \<and>
    map fst (ll_wrong ll') = map fst (ll_wrong ll) @ map sm_tag (filter (misparsed L M f) sent) \<and>
    ll_exactly_once ll' = ll_exactly_once ll @ map sm_tag (filter (correct L M f) sent) \<and>
    ll_produced ll' = ll_produced ll + (\<Sum>m \<leftarrow> sent. length (f (sm_tag m)))"
proof (induction sent arbitrary: ll)
  case (Cons m sent)
  obtain x where x: "expectations_for M (sm_email m) = Inr x"
    using expectations_for_ok [OF assms] by blast
  consider (none) "f (sm_tag m) = []" | (one) r where "f (sm_tag m) = [r]"
    | (many) "1 < length (f (sm_tag m))"
    by (cases "f (sm_tag m)" rule: remdups_adj.cases) auto
  then show ?case
  proof cases
    case none
    then have "\<not> correct L M f m" "\<not> misparsed L M f m" by (auto simp: correct_def misparsed_def)
    with none Cons [of "if rf then ll\<lparr>ll_not_checked := ll_not_checked ll @ [sm_tag m]\<rparr>
        else ll\<lparr>ll_missing := ll_missing ll @ [sm_tag m]\<rparr>"]
    show ?thesis by (cases rf) auto
  next
    case many
    then have "\<not> correct L M f m" "\<not> misparsed L M f m" "f (sm_tag m) \<noteq> []"
      by (auto simp: correct_def misparsed_def)
    with many Cons [of "ll\<lparr>ll_produced := ll_produced ll + length (f (sm_tag m)),
        ll_duplicated := ll_duplicated ll @ [(sm_tag m, length (f (sm_tag m)), map ticket_str (f (sm_tag m)))]\<rparr>"]
    show ?thesis by auto
  next
    case one
    let ?v = "evaluate_sequence L [r] x (sm_record_id m) (sm_tag m)"
    let ?ll = "ll\<lparr>ll_produced := ll_produced ll + 1\<rparr>"
    show ?thesis
    proof (cases "correct L M f m")
      case True
      then have "vf_passed ?v" "\<not> misparsed L M f m"
        using passed_one [of M f m r x, OF assms one x] by (auto simp: misparsed_def)
      with one x True Cons [of "?ll\<lparr>ll_exactly_once := ll_exactly_once ll @ [sm_tag m]\<rparr>"]
      show ?thesis by auto
    next
      case False
      then have "\<not> vf_passed ?v" "misparsed L M f m"
        using passed_one [of M f m r x, OF assms one x] one by (auto simp: misparsed_def)
      with one x False Cons [of "?ll\<lparr>ll_wrong := ll_wrong ll @ [(sm_tag m, sm_record_id m, mismatch_strings ?v)]\<rparr>"]
      show ?thesis by auto
    qed
  qed
qed simp

lemma fates_partition:
  "length (filter (\<lambda>m. f (sm_tag m) = []) sent) + length (filter (\<lambda>m. 1 < length (f (sm_tag m))) sent) +
     length (filter (misparsed L M f) sent) + length (filter (correct L M f) sent) = length sent"
proof (induction sent)
  case (Cons m sent)
  then show ?case
    by (cases "f (sm_tag m)" rule: remdups_adj.cases) (auto simp: misparsed_def correct_def)
qed simp

lemma account_total:
  "modes_ok M \<Longrightarrow> \<exists>ac. account L M p sent rb strays reason partial unsettled failed = Inr ac"
  using account_sent_lists [of M L failed "readbacks_get rb" sent no_lists]
  by (auto simp: account_def Let_def)

lemma account_ac:
  assumes "modes_ok M" "account L M p sent rb strays reason partial unsettled failed = Inr ac"
  shows "ac_missing ac = (if failed then [] else map sm_tag (filter (\<lambda>m. readbacks_get rb (sm_tag m) = []) sent))"
    and "ac_not_checked ac = (if failed then map sm_tag (filter (\<lambda>m. readbacks_get rb (sm_tag m) = []) sent) else [])"
    and "ac_duplicated ac = map (\<lambda>m. (sm_tag m, length (readbacks_get rb (sm_tag m)),
      map ticket_str (readbacks_get rb (sm_tag m)))) (filter (\<lambda>m. 1 < length (readbacks_get rb (sm_tag m))) sent)"
    and "map fst (ac_wrong ac) = map sm_tag (filter (misparsed L M (readbacks_get rb)) sent)"
    and "ac_exactly_once ac = length (filter (correct L M (readbacks_get rb)) sent)"
    and "ac_produced ac = (\<Sum>m \<leftarrow> sent. length (readbacks_get rb (sm_tag m)))"
    and "ac_unsettled ac = unsettled" and "ac_readback_failed ac = failed"
    and "ac_strays_searched ac = (strays \<noteq> None \<and> \<not> partial)"
    and "ac_extra ac = map_option (\<lambda>ss. take MAX_ARTIFACT_STRAYS (sc_extra (classify_strays ss
      (map sm_tag sent) (map ticket_str (concat (map snd rb))) [p]))) strays"
    and "ac_balanced ac = (ac_missing ac = [] \<and> ac_duplicated ac = [] \<and> ac_wrong ac = [] \<and>
      ac_strays_searched ac \<and> (\<forall>ss. strays = Some ss \<longrightarrow> sc_extra (classify_strays ss
        (map sm_tag sent) (map ticket_str (concat (map snd rb))) [p]) = []) \<and>
      \<not> unsettled \<and> \<not> failed)"
proof -
  obtain ll where ll: "account_sent L M failed (readbacks_get rb) sent no_lists = Inr ll"
    and l: "ll_missing ll = (if failed then [] else map sm_tag (filter (\<lambda>m. readbacks_get rb (sm_tag m) = []) sent))"
      "ll_not_checked ll = (if failed then map sm_tag (filter (\<lambda>m. readbacks_get rb (sm_tag m) = []) sent) else [])"
      "ll_duplicated ll = map (\<lambda>m. (sm_tag m, length (readbacks_get rb (sm_tag m)),
        map ticket_str (readbacks_get rb (sm_tag m)))) (filter (\<lambda>m. 1 < length (readbacks_get rb (sm_tag m))) sent)"
      "map fst (ll_wrong ll) = map sm_tag (filter (misparsed L M (readbacks_get rb)) sent)"
      "ll_exactly_once ll = map sm_tag (filter (correct L M (readbacks_get rb)) sent)"
      "ll_produced ll = (\<Sum>m \<leftarrow> sent. length (readbacks_get rb (sm_tag m)))"
    using account_sent_lists [OF assms(1), of L failed "readbacks_get rb" sent no_lists]
    by (elim exE conjE) (rule that; simp add: no_lists_def)
  have ac: "ac = assemble p sent rb strays reason partial unsettled failed ll"
    using assms(2) ll by (simp add: account_def)
  show "ac_missing ac = (if failed then [] else map sm_tag (filter (\<lambda>m. readbacks_get rb (sm_tag m) = []) sent))"
    "ac_not_checked ac = (if failed then map sm_tag (filter (\<lambda>m. readbacks_get rb (sm_tag m) = []) sent) else [])"
    "ac_duplicated ac = map (\<lambda>m. (sm_tag m, length (readbacks_get rb (sm_tag m)),
      map ticket_str (readbacks_get rb (sm_tag m)))) (filter (\<lambda>m. 1 < length (readbacks_get rb (sm_tag m))) sent)"
    "map fst (ac_wrong ac) = map sm_tag (filter (misparsed L M (readbacks_get rb)) sent)"
    "ac_exactly_once ac = length (filter (correct L M (readbacks_get rb)) sent)"
    "ac_produced ac = (\<Sum>m \<leftarrow> sent. length (readbacks_get rb (sm_tag m)))"
    "ac_unsettled ac = unsettled" "ac_readback_failed ac = failed"
    "ac_strays_searched ac = (strays \<noteq> None \<and> \<not> partial)"
    by (simp_all add: ac assemble_def Let_def l)
  show "ac_extra ac = map_option (\<lambda>ss. take MAX_ARTIFACT_STRAYS (sc_extra (classify_strays ss
      (map sm_tag sent) (map ticket_str (concat (map snd rb))) [p]))) strays"
    "ac_balanced ac = (ac_missing ac = [] \<and> ac_duplicated ac = [] \<and> ac_wrong ac = [] \<and>
      ac_strays_searched ac \<and> (\<forall>ss. strays = Some ss \<longrightarrow> sc_extra (classify_strays ss
        (map sm_tag sent) (map ticket_str (concat (map snd rb))) [p]) = []) \<and>
      \<not> unsettled \<and> \<not> failed)"
    by (cases strays; simp add: ac assemble_def Let_def)+
qed

section \<open>Facts about tags and strays\<close>

lemma minted_under_iff:
  "minted_under t p \<longleftrightarrow> (\<exists>n ds xs. t = p @ ''-'' @ tail_text n ds xs \<and> tail_parts ds xs)"
proof
  assume "minted_under t p"
  then obtain u where t: "t = (p @ ''-'') @ u" "tag_tail (drop (Suc (length p)) t) \<noteq> None"
    by (auto simp: minted_under_def prefix_def)
  then have "tag_tail u \<noteq> None" by simp
  then obtain n ds xs where "u = tail_text n ds xs" "tail_parts ds xs"
    using tag_tail_Some by blast
  with t(1) show "\<exists>n ds xs. t = p @ ''-'' @ tail_text n ds xs \<and> tail_parts ds xs" by auto
next
  assume "\<exists>n ds xs. t = p @ ''-'' @ tail_text n ds xs \<and> tail_parts ds xs"
  then obtain n ds xs where "t = p @ ''-'' @ tail_text n ds xs" "tail_parts ds xs" by blast
  then show "minted_under t p"
    by (simp add: minted_under_def tag_tail_text)
qed

lemma in_family_iff: "in_family t family \<longleftrightarrow> (\<exists>p \<in> set family. p \<noteq> [] \<and> minted_under t p)"
  by (auto simp: in_family_def minted_by_def prefixes_of_def find_None_iff)

lemma minted_under_made:
  assumes "make_tag q s i = Inr t"
  shows "minted_under t p \<longleftrightarrow> p = q \<or> (s < 0 \<and> p = q @ ''-'') \<or> (0 \<le> s \<and> q = p @ ''-'')"
proof -
  let ?ds = "str_of_nat (nat \<bar>s\<bar>)" and ?xs = "pad4 (nat i)"
  have t: "t = q @ ''-'' @ tail_text (s < 0) ?ds ?xs" using assms by (simp add: make_tag_Inr)
  note parts = made_tail_parts [of "nat \<bar>s\<bar>" "nat i"]
  show ?thesis
  proof
    assume "minted_under t p"
    then obtain n es ys where "t = p @ ''-'' @ tail_text n es ys" "tail_parts es ys"
      by (auto simp: minted_under_iff)
    with tail_division_unique [of p n es ys q "s < 0" ?ds ?xs] t parts
    show "p = q \<or> (s < 0 \<and> p = q @ ''-'') \<or> (0 \<le> s \<and> q = p @ ''-'')" by auto
  next
    assume "p = q \<or> (s < 0 \<and> p = q @ ''-'') \<or> (0 \<le> s \<and> q = p @ ''-'')"
    then consider "p = q" | "s < 0" "p = q @ ''-''" | "0 \<le> s" "q = p @ ''-''" by blast
    then show "minted_under t p"
    proof cases
      case 1
      with t parts show ?thesis by (auto simp: minted_under_iff)
    next
      case 2
      with t have "t = p @ ''-'' @ tail_text False ?ds ?xs" by (simp add: tail_text_def)
      with parts show ?thesis by (auto simp: minted_under_iff)
    next
      case 3
      with t have "t = p @ ''-'' @ tail_text True ?ds ?xs" by (simp add: tail_text_def)
      with parts show ?thesis by (auto simp: minted_under_iff)
    qed
  qed
qed

text \<open>What \<open>classify_strays\<close> does with one record.\<close>

definition own_record :: "string list \<Rightarrow> string list \<Rightarrow> readback \<Rightarrow> bool" where
  "own_record sent own r \<longleftrightarrow> (\<exists>t. fst (stray_tag r) = Some t \<and> t \<noteq> [] \<and> t \<in> set sent) \<or>
     ticket_str r \<in> set own"

definition testinghq_record :: "readback \<Rightarrow> bool" where
  "testinghq_record r \<longleftrightarrow> snd (stray_tag r) \<and> truthy (fst (stray_tag r))"

definition extra_record :: "string list \<Rightarrow> string list \<Rightarrow> string list \<Rightarrow> readback \<Rightarrow> bool" where
  "extra_record sent own family r \<longleftrightarrow> \<not> own_record sent own r \<and> testinghq_record r \<and>
     in_family (the (fst (stray_tag r))) family"

definition other_record :: "string list \<Rightarrow> string list \<Rightarrow> string list \<Rightarrow> readback \<Rightarrow> bool" where
  "other_record sent own family r \<longleftrightarrow> \<not> own_record sent own r \<and> testinghq_record r \<and>
     \<not> in_family (the (fst (stray_tag r))) family"

lemma classify_from_lists:
  "sc_extra (classify_from rs sent own fam acc) = sc_extra acc @
     map (\<lambda>r. (the (fst (stray_tag r)), ticket_str r)) (filter (extra_record sent own fam) rs) \<and>
   sc_other_runs (classify_from rs sent own fam acc) = sc_other_runs acc @
     map (\<lambda>r. (the (fst (stray_tag r)), ticket_str r)) (filter (other_record sent own fam) rs) \<and>
   sc_untagged (classify_from rs sent own fam acc) = sc_untagged acc +
     length (filter (\<lambda>r. \<not> own_record sent own r \<and> \<not> testinghq_record r) rs)"
proof (induction rs arbitrary: acc)
  case (Cons r rs)
  obtain tag is_ours where st: "stray_tag r = (tag, is_ours)" by fastforce
  have own: "((case tag of Some t \<Rightarrow> t \<noteq> [] \<and> t \<in> set sent | None \<Rightarrow> False) \<or> ticket_str r \<in> set own)
      = own_record sent own r"
    by (auto simp: own_record_def st split: option.splits)
  have thq: "(\<not> is_ours \<or> \<not> truthy tag) = (\<not> testinghq_record r)"
    by (auto simp: testinghq_record_def st)
  show ?case
    using Cons.IH unfolding classify_from.simps st Let_def prod.case own thq
    by (auto simp: extra_record_def other_record_def st)
qed simp

lemma classify_strays_lists:
  "sc_extra (classify_strays rs sent own fam) =
     map (\<lambda>r. (the (fst (stray_tag r)), ticket_str r)) (filter (extra_record sent own fam) rs)"
  "sc_other_runs (classify_strays rs sent own fam) =
     map (\<lambda>r. (the (fst (stray_tag r)), ticket_str r)) (filter (other_record sent own fam) rs)"
  "sc_untagged (classify_strays rs sent own fam) =
     length (filter (\<lambda>r. \<not> own_record sent own r \<and> \<not> testinghq_record r) rs)"
  by (simp_all add: classify_strays_def classify_from_lists)

section \<open>Properties\<close>

text \<open>Whose tag it is. A tag minted under the prefix \<open>q\<close> is taken for one of the family of
  the prefix \<open>p\<close> exactly when \<open>p\<close> is \<open>q\<close>, or the two differ by one dash at the end that the
  sign of the seed accounts for. In particular a run under the prefix \<open>hq\<close> never claims
  the tags of a run with a prefix of its own that starts with \<open>hq\<close>.\<close>

theorem family_exact:
  assumes "make_tag q s i = Inr t" "p \<noteq> []"
  shows "in_family t [p] \<longleftrightarrow> p = q \<or> (s < 0 \<and> p = q @ ''-'') \<or> (0 \<le> s \<and> q = p @ ''-'')"
  using minted_under_made [OF assms(1)] assms(2) by (simp add: in_family_iff)

theorem family_exact_witness:
  "\<not> in_family ''hq-2610141200-ab12-0-0001'' [''hq''] \<and>
   in_family ''hq-2610141200-ab12-0-0001'' [''hq-2610141200-ab12'']"
proof -
  have m: "make_tag ''hq-2610141200-ab12'' 0 1 = Inr ''hq-2610141200-ab12-0-0001''" by code_simp
  show ?thesis
    using family_exact [OF m, of "''hq''"] family_exact [OF m, of "''hq-2610141200-ab12''"] by simp
qed

text \<open>Every enumerated record is put in one class. The records of an enumerated store are
  this run's own, extra, of other runs, or untagged, and none is in two classes or lost:
  the counts add up to the number of records. A record without a TestingHQ tag is never
  extra, and one whose tag or ticket the run knows is in no list.\<close>

theorem strays_partition:
  "length (sc_extra (classify_strays rs sent own fam)) +
     length (sc_other_runs (classify_strays rs sent own fam)) +
     sc_untagged (classify_strays rs sent own fam) +
     length (filter (own_record sent own) rs) = length rs \<and>
   set (sc_extra (classify_strays rs sent own fam)) =
     {(t, k). \<exists>r \<in> set rs. stray_tag r = (Some t, True) \<and> t \<noteq> [] \<and> ticket_str r = k \<and>
        t \<notin> set sent \<and> k \<notin> set own \<and> in_family t fam}"
proof
  show "length (sc_extra (classify_strays rs sent own fam)) +
     length (sc_other_runs (classify_strays rs sent own fam)) +
     sc_untagged (classify_strays rs sent own fam) +
     length (filter (own_record sent own) rs) = length rs"
    by (induction rs) (auto simp: classify_strays_lists extra_record_def other_record_def)
next
  show "set (sc_extra (classify_strays rs sent own fam)) =
     {(t, k). \<exists>r \<in> set rs. stray_tag r = (Some t, True) \<and> t \<noteq> [] \<and> ticket_str r = k \<and>
        t \<notin> set sent \<and> k \<notin> set own \<and> in_family t fam}"
  proof -
    have "extra_record sent own fam r \<longleftrightarrow> (\<exists>t. stray_tag r = (Some t, True) \<and> t \<noteq> [] \<and>
        t \<notin> set sent \<and> ticket_str r \<notin> set own \<and> in_family t fam)" for r
      by (cases "stray_tag r"; cases "fst (stray_tag r)")
        (auto simp: extra_record_def own_record_def testinghq_record_def)
    then show ?thesis
      unfolding classify_strays_lists by (auto simp: image_iff) (metis fst_conv option.sel)
  qed
qed

text \<open>What it means that nothing nobody sent was found, in a store that was searched.\<close>

definition no_extras :: "string \<Rightarrow> sent_message list \<Rightarrow> (string \<times> readback list) list \<Rightarrow> readback list \<Rightarrow> bool" where
  "no_extras p sent rb strays \<longleftrightarrow> (\<forall>r \<in> set strays.
     \<not> extra_record (map sm_tag sent) (map ticket_str (concat (map snd rb))) [p] r)"

lemma take_cap: "take MAX_ARTIFACT_STRAYS xs = [] \<longleftrightarrow> xs = []"
  by (simp add: MAX_ARTIFACT_STRAYS_def)

lemma map_fst_Nil: "map fst xs = map g ys \<Longrightarrow> xs = [] \<longleftrightarrow> ys = []"
  by (metis map_is_Nil_conv)

lemma lists_empty_iff:
  assumes "modes_ok M"
  shows "(\<forall>m \<in> set sent. f (sm_tag m) \<noteq> []) \<and> (\<forall>m \<in> set sent. \<not> 1 < length (f (sm_tag m))) \<and>
     (\<forall>m \<in> set sent. \<not> misparsed L M f m) \<longleftrightarrow> (\<forall>m \<in> set sent. correct L M f m)"
proof -
  have "correct L M f m \<longleftrightarrow> f (sm_tag m) \<noteq> [] \<and> \<not> 1 < length (f (sm_tag m)) \<and> \<not> misparsed L M f m" for m
    by (cases "f (sm_tag m)" rule: remdups_adj.cases) (auto simp: misparsed_def correct_def)
  then show ?thesis by blast
qed

lemma account_balanced:
  assumes ok: "modes_ok M" and ac: "account L M p sent rb strays reason partial unsettled failed = Inr ac"
  shows "ac_balanced ac \<longleftrightarrow> (\<forall>m \<in> set sent. correct L M (readbacks_get rb) m) \<and>
    (\<exists>ss. strays = Some ss \<and> no_extras p sent rb ss) \<and> \<not> partial \<and> \<not> unsettled \<and> \<not> failed"
    and "ac_balanced ac \<longleftrightarrow> ledger_verdict ac = BALANCED"
proof -
  let ?f = "readbacks_get rb"
  note fields = account_ac [OF ok ac]
  have w: "ac_wrong ac = [] \<longleftrightarrow> (\<forall>m \<in> set sent. \<not> misparsed L M ?f m)"
    using map_fst_Nil [OF fields(4)] by (simp add: filter_empty_conv)
  have d: "ac_duplicated ac = [] \<longleftrightarrow> (\<forall>m \<in> set sent. \<not> 1 < length (?f (sm_tag m)))"
    by (simp add: fields(3) filter_empty_conv)
  have m: "ac_missing ac = [] \<and> \<not> failed \<longleftrightarrow> (\<forall>m \<in> set sent. ?f (sm_tag m) \<noteq> []) \<and> \<not> failed"
    by (auto simp: fields(1) filter_empty_conv)
  have x: "strays \<noteq> None \<and> (\<forall>ss. strays = Some ss \<longrightarrow> sc_extra (classify_strays ss (map sm_tag sent)
      (map ticket_str (concat (map snd rb))) [p]) = []) \<longleftrightarrow>
      (\<exists>ss. strays = Some ss \<and> no_extras p sent rb ss)"
    by (cases strays) (simp_all add: classify_strays_lists no_extras_def filter_empty_conv)
  show "ac_balanced ac \<longleftrightarrow> (\<forall>m \<in> set sent. correct L M ?f m) \<and>
    (\<exists>ss. strays = Some ss \<and> no_extras p sent rb ss) \<and> \<not> partial \<and> \<not> unsettled \<and> \<not> failed"
    unfolding fields(9,11) w d lists_empty_iff [OF ok, of sent ?f L, symmetric] x [symmetric]
    using m by argo
  have e: "(case ac_extra ac of None \<Rightarrow> False | Some xs \<Rightarrow> xs \<noteq> []) \<longleftrightarrow>
      \<not> (\<forall>ss. strays = Some ss \<longrightarrow> sc_extra (classify_strays ss (map sm_tag sent)
        (map ticket_str (concat (map snd rb))) [p]) = [])"
    by (cases strays) (simp_all add: fields(10) take_cap del: take_eq_Nil)
  show "ac_balanced ac \<longleftrightarrow> ledger_verdict ac = BALANCED"
    unfolding fields(11) ledger_verdict_def e fields(7,8)
    by (simp add: BALANCED_def UNACCOUNTED_def MISPARSED_def UNVERIFIED_STRAYS_def
        UNSETTLED_def READBACK_FAILED_def)
qed

text \<open>C2 (what BALANCED means). With valid match modes the accounting never fails, and the
  ledger is balanced exactly when every message sent has exactly one live, correct
  record, the store was enumerated to the end and holds no tag of this run's family that
  the run did not send, and the readback settled and was not all 404. That is also
  exactly when the verdict is BALANCED.\<close>

theorem balanced_iff_exactly_once:
  assumes "modes_ok M"
  shows "\<exists>ac. account L M p sent rb strays reason partial unsettled failed = Inr ac \<and>
    (ac_balanced ac \<longleftrightarrow> (\<forall>m \<in> set sent. correct L M (readbacks_get rb) m) \<and>
       (\<exists>ss. strays = Some ss \<and> no_extras p sent rb ss) \<and> \<not> partial \<and> \<not> unsettled \<and> \<not> failed) \<and>
    (ac_balanced ac \<longleftrightarrow> ledger_verdict ac = BALANCED)"
proof -
  obtain ac where ac: "account L M p sent rb strays reason partial unsettled failed = Inr ac"
    using account_total [OF assms] by blast
  with account_balanced [OF assms ac] show ?thesis by (intro exI [of _ ac] conjI)
qed

text \<open>The accounting adds up. Every message sent is missing (or not checked, when every
  lookup was a 404), duplicated, wrong or there exactly once: the four lists are disjoint
  parts of what was sent and their lengths add up to it. The records produced are those
  of all lookups together.\<close>

theorem accounting_adds_up:
  assumes "modes_ok M"
  shows "\<exists>ac. account L M p sent rb strays reason partial unsettled failed = Inr ac \<and>
    length (ac_missing ac) + length (ac_not_checked ac) + length (ac_duplicated ac) +
      length (ac_wrong ac) + ac_exactly_once ac = length sent \<and>
    ac_missing ac @ ac_not_checked ac = map sm_tag (filter (\<lambda>m. readbacks_get rb (sm_tag m) = []) sent) \<and>
    map fst (ac_duplicated ac) = map sm_tag (filter (\<lambda>m. 1 < length (readbacks_get rb (sm_tag m))) sent) \<and>
    ac_produced ac = (\<Sum>m \<leftarrow> sent. length (readbacks_get rb (sm_tag m)))"
proof -
  obtain ac where ac: "account L M p sent rb strays reason partial unsettled failed = Inr ac"
    using account_total [OF assms] by blast
  note f = account_ac [OF assms ac]
  have "length (ac_wrong ac) = length (filter (misparsed L M (readbacks_get rb)) sent)"
    using arg_cong [OF f(4), of length] by simp
  with ac fates_partition [of "readbacks_get rb" sent L M] f(1-3,5,6) show ?thesis
    by (intro exI [of _ ac]) (simp add: comp_def)
qed

text \<open>A loss is named. When the readback settled and was not all 404, a message the store
  holds nothing of is listed as missing, the verdict is UNACCOUNTED, and the ledger is not
  balanced; while the store was still changing it is listed but the verdict, if nothing
  worse is known, is UNSETTLED.\<close>

theorem loss_is_named:
  assumes "modes_ok M" "m \<in> set sent" "readbacks_get rb (sm_tag m) = []"
  shows "\<exists>ac. account L M p sent rb strays reason partial unsettled False = Inr ac \<and>
    sm_tag m \<in> set (ac_missing ac) \<and> \<not> ac_balanced ac \<and>
    ledger_verdict ac \<in> {UNACCOUNTED, UNSETTLED} \<and>
    (\<not> unsettled \<longrightarrow> ledger_verdict ac = UNACCOUNTED)"
proof -
  obtain ac where ac: "account L M p sent rb strays reason partial unsettled False = Inr ac"
    using account_total [OF assms(1)] by blast
  note f = account_ac [OF assms(1) ac]
  have m: "sm_tag m \<in> set (ac_missing ac)" using assms(2,3) by (simp add: f(1))
  then have "ac_missing ac \<noteq> []" by auto
  moreover from this have "\<not> ac_balanced ac" by (simp add: f(11))
  ultimately show ?thesis
    using ac m by (intro exI [of _ ac]) (simp add: ledger_verdict_def f(7,8))
qed

section \<open>The run\<close>

lemma ledger_records_ok: "modes_ok M \<Longrightarrow> \<exists>rs. ledger_records M f sent = Inr rs"
proof (induction sent)
  case (Cons m sent)
  obtain x where "expectations_for M (sm_email m) = Inr x"
    using expectations_for_ok [OF Cons.prems] by blast
  with Cons show ?case by auto
qed simp

lemma held_get: "held out = readbacks_get (ro_readbacks out)"
  by (intro ext) (simp add: held_def readbacks_get_def)

lemma ledger_judge_exit:
  assumes "modes_ok M"
  shows "\<exists>c a. ledger_judge E M p (strays, reason, partial) sent out = Exits c (Some a) \<and>
    c \<in> {EXIT_OK, EXIT_FINDING} \<and> (c = EXIT_OK \<longleftrightarrow> la_verdict a = BALANCED) \<and>
    (c = EXIT_OK \<longleftrightarrow> ro_stable out \<and> \<not> ro_all_404 out \<and>
      (\<forall>m \<in> set sent. correct (en_lib E) M (held out) m) \<and>
      (\<exists>ss. strays = Some ss \<and> no_extras p sent (ro_readbacks out) ss) \<and> \<not> partial)"
proof -
  obtain ac where ac: "account (en_lib E) M p sent (ro_readbacks out) strays reason partial
      (readback_unsettled (Some out)) (readback_failed (Some out)) = Inr ac"
    using account_total [OF assms] by blast
  obtain rs where rs: "ledger_records M (held out) sent = Inr rs"
    using ledger_records_ok [OF assms] by blast
  let ?v = "readback_verdict (ledger_verdict ac) (Some out)"
  have j: "ledger_judge E M p (strays, reason, partial) sent out =
      Exits (if ac_balanced ac then EXIT_OK else EXIT_MISMATCH) (Some \<lparr>la_accounting = ac,
        la_verdict = fst ?v, la_verdict_source = snd ?v, la_readback = Some out, la_records = rs\<rparr>)"
    by (simp add: ledger_judge_def ac rs build_ledger_artifact_def Let_def)
  note b = account_balanced [OF assms ac]
  have v: "fst ?v = BALANCED \<longleftrightarrow> ac_balanced ac"
    using b by (auto simp: readback_verdict_def readback_unsettled_def readback_failed_def
        BALANCED_def READBACK_FAILED_def UNSETTLED_def)
  show ?thesis
    unfolding j using b(1) v
    by (auto simp: held_get readback_unsettled_def readback_failed_def exit_codes)
qed

interpretation ledger_gate: exit_gate
  "\<lambda>M sent out. code_of (ledger_judge E M p search sent out)" "\<lambda>sent. sent" "\<lambda>_. True" "en_lib E"
  for E p search
proof unfold_locales
  fix M sent out
  assume ok: "modes_ok M"
  obtain strays reason partial where s: "search = (strays, reason, partial)" by (cases search)
  obtain c a where c: "ledger_judge E M p search sent out = Exits c (Some a)" "c \<in> {EXIT_OK, EXIT_FINDING}"
    "c = EXIT_OK \<longrightarrow> ro_stable out \<and> \<not> ro_all_404 out \<and>
      (\<forall>m \<in> set sent. correct (en_lib E) M (held out) m)"
    using ledger_judge_exit [OF ok, of E p strays reason partial sent out] s by metis
  from c(1,2) show "code_of (ledger_judge E M p search sent out) \<in> {Some EXIT_OK, Some EXIT_FINDING}"
    by (auto simp: code_of_def)
  assume "code_of (ledger_judge E M p search sent out) = Some EXIT_OK"
  with c(1,3) show "ro_stable out \<and> \<not> ro_all_404 out \<and> (\<forall>m \<in> set sent. correct (en_lib E) M (held out) m)"
    by (simp add: code_of_def)
qed

text \<open>C3 (neither tool exits 0 on a loss). With valid match modes, a sent message the store
  holds no record or several records of, a message whose one record is not live, a
  readback that did not settle, and one whose every lookup was a 404 each make both
  \<open>verify\<close> and \<open>ledger\<close> exit 3, whatever else the run found.\<close>

theorem both_exit_3_on_loss:
  assumes "modes_ok M"
    and "(\<exists>m \<in> set sent. length (held out (sm_tag m)) \<noteq> 1 \<or> \<not> rb_exists (hd (held out (sm_tag m)))) \<or>
      \<not> ro_stable out \<or> ro_all_404 out"
  shows "code_of (judge_run E M sent out) = Some EXIT_FINDING \<and>
    code_of (ledger_judge E M p search sent out) = Some EXIT_FINDING"
  by (intro conjI verify_gate.lost_is_a_finding ledger_gate.lost_is_a_finding)
    (simp_all only: assms(1) assms(2) simp_thms)

text \<open>The ledger's run is guarded and comes back. A guardrail's refusal leaves the world as
  it was and exits 1 or raises. Otherwise, with a rate above zero and an environment that
  lets time pass and comes back, \<open>ledger\<close> returns; an enumeration that fails, cannot be
  made or was cut short after the sends is never a refusal: the run is judged and exits 3.\<close>

theorem ledger_run:
  assumes "well_behaved E now" "0 < rp_rate P"
  shows "\<exists>r w'. ledger_execute E P w = Some (r, w') \<and>
    (\<not> guards_pass E P \<longrightarrow> w' = w \<and> r \<in> {Raises, Exits EXIT_REFUSED None}) \<and>
    (\<forall>t ps b sent out w1. fire E P w = Some (Fired t ps b sent out, w1) \<longrightarrow>
       (\<exists>c a. r = Exits c (Some a) \<and> c \<in> {EXIT_OK, EXIT_FINDING} \<and>
          (fst (adapter_can_enumerate b) = False \<or> (\<exists>e. fst (the (bt_list_all b) w1) = Inl e) \<or>
           (\<exists>fr. fst (the (bt_list_all b) w1) = Inr fr \<and> fr_partial fr) \<longrightarrow> c = EXIT_FINDING)))"
proof (cases "guards_pass E P")
  case False
  obtain f where "fire E P w = Some (f, w)" "(\<exists>e. f = Crashed e) \<or> (\<exists>e. f = Refused e)"
    using fire_guarded [OF False] by blast
  then show ?thesis by (auto simp: ledger_execute_def)
next
  case guards: True
  obtain f w1 where f: "fire E P w = Some (f, w1)" using fire_returns [OF assms, of w] by auto
  show ?thesis
  proof (cases f)
    case (Fired t ps b sent out)
    have ok: "modes_ok (rp_modes P)" using guards by (auto simp: guards_pass_def modes_ok_def)
    obtain strays reason partial w2 where s: "enumerate_store b w1 = ((strays, reason, partial), w2)"
      by (metis prod.collapse)
    obtain c a where j: "ledger_judge E (rp_modes P) (rp_tag_prefix P) (strays, reason, partial) sent out =
        Exits c (Some a)" "c \<in> {EXIT_OK, EXIT_FINDING}" "c = EXIT_OK \<longrightarrow> strays \<noteq> None \<and> \<not> partial"
      using ledger_judge_exit [OF ok, of E "rp_tag_prefix P" strays reason partial sent out] by blast
    have "strays = None \<or> partial" if "fst (adapter_can_enumerate b) = False \<or>
        (\<exists>e. fst (the (bt_list_all b) w1) = Inl e) \<or>
        (\<exists>fr. fst (the (bt_list_all b) w1) = Inr fr \<and> fr_partial fr)"
      using that s by (auto simp: enumerate_store_def split: prod.splits if_splits sum.splits)
    with j have "fst (adapter_can_enumerate b) = False \<or>
        (\<exists>e. fst (the (bt_list_all b) w1) = Inl e) \<or>
        (\<exists>fr. fst (the (bt_list_all b) w1) = Inr fr \<and> fr_partial fr) \<longrightarrow> c = EXIT_FINDING" by blast
    with j(1,2) guards f Fired s show ?thesis by (simp add: ledger_execute_def)
  qed (use f guards in \<open>simp_all add: ledger_execute_def\<close>)
qed

section \<open>Witnesses\<close>

definition sample_readbacks :: "(string \<times> readback list) list" where
  "sample_readbacks = [(''hq-7-0000'', [sample_held])]"

lemma sample_all_correct:
  "\<forall>m \<in> set sample_sent. correct sample_lib (rp_modes sample_params) (readbacks_get sample_readbacks) m"
proof
  fix m assume m: "m \<in> set sample_sent"
  then have "readbacks_get sample_readbacks (sm_tag m) = [sample_held]" "sm_email m = sample_email"
    by (simp_all add: sample_sent_def readbacks_get_def sample_readbacks_def)
  with correct_cong [of "readbacks_get sample_readbacks" m "[sample_held]" sample_lib] sample_correct [of m]
  show "correct sample_lib (rp_modes sample_params) (readbacks_get sample_readbacks) m" by simp
qed

text \<open>A store that holds the sent message, and one with a tag of the family beside it.\<close>

theorem balanced_iff_exactly_once_witness:
  "(\<exists>ac. account sample_lib (rp_modes sample_params) ''hq'' sample_sent sample_readbacks
      (Some [sample_held]) None False False False = Inr ac \<and> ledger_verdict ac = BALANCED) \<and>
   (\<exists>ac. account sample_lib (rp_modes sample_params) ''hq'' sample_sent sample_readbacks
      None None False False False = Inr ac \<and> ledger_verdict ac \<noteq> BALANCED)"
proof -
  have "ticket_str sample_held = ''hq-7-0000''"
    by (simp add: ticket_str_def sample_held_def echo_record_def probe_for_def)
  then have "no_extras ''hq'' sample_sent sample_readbacks [sample_held]"
    by (simp add: no_extras_def extra_record_def own_record_def sample_readbacks_def)
  then show ?thesis
    using balanced_iff_exactly_once [OF sample_modes_ok, of sample_lib "''hq''" sample_sent
        sample_readbacks "Some [sample_held]" None False False False]
      balanced_iff_exactly_once [OF sample_modes_ok, of sample_lib "''hq''" sample_sent
        sample_readbacks None None False False False] sample_all_correct
    by auto
qed

theorem accounting_adds_up_witness:
  "\<exists>ac. account sample_lib (rp_modes sample_params) ''hq'' sample_sent [] None None False False False =
     Inr ac \<and> ac_missing ac @ ac_not_checked ac = [''hq-7-0000''] \<and> ac_exactly_once ac = 0"
proof -
  from accounting_adds_up [OF sample_modes_ok, of sample_lib "''hq''" sample_sent "[]" None None False False False]
  obtain ac where ac: "account sample_lib (rp_modes sample_params) ''hq'' sample_sent [] None None False False False = Inr ac"
    "length (ac_missing ac) + length (ac_not_checked ac) + length (ac_duplicated ac) +
      length (ac_wrong ac) + ac_exactly_once ac = length sample_sent"
    "ac_missing ac @ ac_not_checked ac = map sm_tag (filter (\<lambda>m. readbacks_get [] (sm_tag m) = []) sample_sent)"
    by blast
  have m: "ac_missing ac @ ac_not_checked ac = [''hq-7-0000'']"
    using ac(3) by (simp add: sample_sent_def readbacks_get_def)
  from arg_cong [OF this, of length] ac(2) have "ac_exactly_once ac = 0"
    by (simp add: sample_sent_def)
  with ac(1) m show ?thesis by blast
qed

theorem loss_is_named_witness:
  "\<exists>ac. account sample_lib (rp_modes sample_params) ''hq'' sample_sent [] (Some []) None False False False =
     Inr ac \<and> ledger_verdict ac = UNACCOUNTED \<and> ''hq-7-0000'' \<in> set (ac_missing ac)"
proof -
  let ?m = "hd sample_sent"
  have "?m \<in> set sample_sent" "readbacks_get [] (sm_tag ?m) = []" "sm_tag ?m = ''hq-7-0000''"
    by (simp_all add: sample_sent_def readbacks_get_def)
  with loss_is_named [OF sample_modes_ok this(1,2), of sample_lib "''hq''" "Some []" None False False]
  show ?thesis by metis
qed

theorem both_exit_3_on_loss_witness:
  "code_of (judge_run good_env (rp_modes sample_params) sample_sent (sample_outcome [])) = Some EXIT_FINDING \<and>
   code_of (ledger_judge good_env (rp_modes sample_params) ''hq'' (Some [], None, False) sample_sent
     (sample_outcome [])) = Some EXIT_FINDING"
proof -
  have "\<exists>m \<in> set sample_sent. length (held (sample_outcome []) (sm_tag m)) \<noteq> 1 \<or>
      \<not> rb_exists (hd (held (sample_outcome []) (sm_tag m)))"
    by (simp add: sample_sent_def held_def sample_outcome_def)
  then show ?thesis using both_exit_3_on_loss [OF sample_modes_ok] by blast
qed

theorem ledger_run_witness:
  "\<exists>r. ledger_execute good_env (sample_params\<lparr>rp_target := None\<rparr>) 0 = Some (r, 0) \<and>
     r \<in> {Raises, Exits EXIT_REFUSED None}"
proof -
  let ?P = "sample_params\<lparr>rp_target := None\<rparr>"
  have "\<not> guards_pass good_env ?P" by (simp add: guards_pass_def resolve_target_def)
  moreover have "0 < rp_rate ?P" by (simp add: sample_params_def)
  ultimately show ?thesis using ledger_run [OF sample_behaves, of ?P] by blast
qed

end
