(* ===== verification/Redelivery_Plan.thy ===== *)
theory Redelivery_Plan
  imports Messages
begin

text \<open>
  The plan of the \<open>redeliver\<close> tool (\<open>pipeline/redeliver.py\<close>): deliveries and scenarios, who
  replies to whom, and the four builders. The clean corpus of a count is a parameter. A
  scenario's \<open>question\<close>, a sentence for people, is left out. Stamping a payload twice gives
  the same payload twice, so the retries of \<open>_repeat_twice\<close> are its originals again.
\<close>

section \<open>Names\<close>

datatype scenario_name = Duplicate | SlowRetry | ReplyFirst | References

definition SCENARIOS :: "scenario_name list" where
  "SCENARIOS = [Duplicate, SlowRetry, ReplyFirst, References]"

fun scenario_str :: "scenario_name \<Rightarrow> string" where
  "scenario_str Duplicate = ''duplicate''"
| "scenario_str SlowRetry = ''slow-retry''"
| "scenario_str ReplyFirst = ''reply-first''"
| "scenario_str References = ''references''"

fun SCENARIO_IDENTITY :: "scenario_name \<Rightarrow> string" where
  "SCENARIO_IDENTITY Duplicate = ''dup''"
| "SCENARIO_IDENTITY SlowRetry = ''rty''"
| "SCENARIO_IDENTITY ReplyFirst = ''r1st''"
| "SCENARIO_IDENTITY References = ''ref''"

definition scenario_tag_prefix :: "string \<Rightarrow> scenario_name \<Rightarrow> string" where
  "scenario_tag_prefix tag_prefix name = tag_prefix @ ''-'' @ SCENARIO_IDENTITY name"

section \<open>Ids and subjects\<close>

definition bare :: "string \<Rightarrow> string" where
  "bare message_id = strip (strip_chars ''<>'' (strip message_id))"

definition header_ids :: "string list \<Rightarrow> string" where
  "header_ids ids = join '' '' (map (\<lambda>m. ''<'' @ bare m @ ''>'') ids)"

text \<open>\<open>_ALREADY_REPLYING\<close>: \<open>^\s*(re|aw|sv|fwd?|fw)\s*(\[\d+\])?\s*:\s*\<close>, ignoring case. After
  the optional counter only a colon can follow, so the counter is taken when it is there.\<close>

definition after_counter :: "string \<Rightarrow> string" where
  "after_counter s =
     (if s \<noteq> [] \<and> hd s = CHR ''['' then
        (let ds = takeWhile is_digit (tl s); rest = dropWhile is_digit (tl s)
         in if ds \<noteq> [] \<and> rest \<noteq> [] \<and> hd rest = CHR '']'' then tl rest else s)
      else s)"

definition colon_follows :: "string \<Rightarrow> bool" where
  "colon_follows s =
     (let r = dropWhile is_space (after_counter (dropWhile is_space s))
      in r \<noteq> [] \<and> hd r = CHR '':'')"

definition already_replying :: "string \<Rightarrow> bool" where
  "already_replying s =
     (let t = dropWhile is_space s
      in list_ex (\<lambda>n. prefix n (casefold t) \<and> colon_follows (drop (length n) t))
           [''re'', ''aw'', ''sv'', ''fw'', ''fwd''])"

definition reply_subject :: "string \<Rightarrow> string" where
  "reply_subject subject = (if already_replying subject then subject else ''Re: '' @ subject)"

section \<open>Deliveries and scenarios\<close>

record delivery =
  dl_email :: email
  dl_tag :: string
  dl_record_id :: string
  dl_message_id :: string
  dl_delay_before :: seconds
  dl_in_reply_to_tag :: "string option"

definition is_reply :: "delivery \<Rightarrow> bool" where
  "is_reply d \<longleftrightarrow> dl_in_reply_to_tag d \<noteq> None"

record scenario =
  sn_name :: scenario_name
  sn_deliveries :: "delivery list"

datatype scenario_error =
    NegativeRetryAfter rat
  | TooFewPayloads scenario_name
  | UnknownScenarios "string list"
  | BadCount int
  | Untaggable tag_error
  | NoDeliveryFor scenario_name string
  | ParentNeverDelivered scenario_name string "string option"

definition scenario_tags :: "scenario \<Rightarrow> string list" where
  "scenario_tags sc = nub (map dl_tag (sn_deliveries sc))"

definition delivery_for :: "scenario \<Rightarrow> string \<Rightarrow> delivery option" where
  "delivery_for sc tag = find (\<lambda>d. dl_tag d = tag) (sn_deliveries sc)"

definition parent_of :: "scenario \<Rightarrow> string \<Rightarrow> delivery option" where
  "parent_of sc tag =
     (case delivery_for sc tag of
        None \<Rightarrow> None
      | Some d \<Rightarrow> (case dl_in_reply_to_tag d of
          None \<Rightarrow> None
        | Some parent \<Rightarrow> delivery_for sc parent))"

lemma delivery_for_Some:
  "delivery_for sc tag = Some d \<Longrightarrow> d \<in> set (sn_deliveries sc) \<and> dl_tag d = tag"
  by (auto simp: delivery_for_def find_Some_iff)

lemma parent_of_Some: "parent_of sc tag = Some d \<Longrightarrow> d \<in> set (sn_deliveries sc)"
  by (auto simp: parent_of_def dest: delivery_for_Some split: option.splits)

text \<open>The loop of \<open>ancestry_of\<close>, which stops at a root, at a parent that is not delivered and
  at a tag it has seen, so it ends even where the replies of a plan form a ring.\<close>

function chain_from :: "scenario \<Rightarrow> string list \<Rightarrow> delivery option \<Rightarrow> string list" where
  "chain_from sc seen None = []"
| "chain_from sc seen (Some parent) =
     (if dl_tag parent \<in> set seen then []
      else bare (dl_message_id parent) #
        chain_from sc (dl_tag parent # seen) (parent_of sc (dl_tag parent)))"
  by pat_completeness auto

termination
proof (relation "measure (\<lambda>(sc, seen, d). card ((dl_tag ` set (sn_deliveries sc) \<union>
    dl_tag ` set_option d) - set seen))", goal_cases)
  case (2 sc seen parent)
  let ?T = "dl_tag ` set (sn_deliveries sc)"
  have "?T \<union> dl_tag ` set_option (parent_of sc (dl_tag parent)) = ?T"
    by (auto dest: parent_of_Some)
  moreover have "card (?T - set (dl_tag parent # seen)) <
      card ((?T \<union> dl_tag ` set_option (Some parent)) - set seen)"
    using 2 by (intro psubset_card_mono) auto
  ultimately show ?case by simp
qed simp

definition ancestry_of :: "scenario \<Rightarrow> string \<Rightarrow> string list" where
  "ancestry_of sc tag = rev (chain_from sc [tag] (parent_of sc tag))"

section \<open>Building the scenarios\<close>

definition record_id_of :: "int \<Rightarrow> nat \<Rightarrow> string" where
  "record_id_of seed index = ''clean-'' @ str_of_int seed @ ''-'' @ pad4 index"

record thread_pins =
  tp_message_id :: "string option"
  tp_in_reply_to :: "string option"
  tp_references :: "string option"
  tp_subject :: "string option"
  tp_in_reply_to_tag :: "string option"

definition make_delivery ::
  "email \<Rightarrow> string \<Rightarrow> nat \<Rightarrow> int \<Rightarrow> thread_pins \<Rightarrow> scenario_error + delivery"
where
  "make_delivery e tag index seed tp =
     (case stamp e tag \<lparr>
          pin_message_id = map_option (\<lambda>m. header_ids [m]) (tp_message_id tp),
          pin_in_reply_to = map_option (\<lambda>m. header_ids [m]) (tp_in_reply_to tp),
          pin_references = map_option (\<lambda>m. header_ids (split_ws m)) (tp_references tp),
          pin_subject = tp_subject tp\<rparr> of
        Inl err \<Rightarrow> Inl (Untaggable err)
      | Inr stamped \<Rightarrow> Inr \<lparr>dl_email = stamped, dl_tag = tag,
          dl_record_id = record_id_of seed index, dl_message_id = message_id_of stamped,
          dl_delay_before = 0, dl_in_reply_to_tag = tp_in_reply_to_tag tp\<rparr>)"

fun originals_from ::
  "nat \<Rightarrow> email list \<Rightarrow> int \<Rightarrow> string \<Rightarrow> scenario_error + delivery list"
where
  "originals_from i [] seed tag_prefix = Inr []"
| "originals_from i (e # es) seed tag_prefix =
     (case make_tag tag_prefix seed (int i) of
        Inl err \<Rightarrow> Inl (Untaggable err)
      | Inr tag \<Rightarrow>
          (let message_id = build_chain_message_id tag
           in case stamp e tag (no_pins\<lparr>pin_message_id := Some (header_ids [message_id])\<rparr>) of
                Inl err \<Rightarrow> Inl (Untaggable err)
              | Inr stamped \<Rightarrow>
                  (case originals_from (Suc i) es seed tag_prefix of
                     Inl err \<Rightarrow> Inl err
                   | Inr ds \<Rightarrow> Inr (\<lparr>dl_email = stamped, dl_tag = tag,
                       dl_record_id = record_id_of seed i, dl_message_id = message_id,
                       dl_delay_before = 0, dl_in_reply_to_tag = None\<rparr> # ds))))"

text \<open>Back to back without a gap; with one, every original, one wait, and every retry.\<close>

definition repeat_twice ::
  "email list \<Rightarrow> int \<Rightarrow> string \<Rightarrow> seconds \<Rightarrow> scenario_error + delivery list"
where
  "repeat_twice corpus seed tag_prefix gap =
     (case originals_from 0 corpus seed tag_prefix of
        Inl err \<Rightarrow> Inl err
      | Inr originals \<Rightarrow>
          (let retries = originals
           in Inr (if gap \<le> 0 then concat (map (\<lambda>(a, b). [a, b]) (zip originals retries))
                   else originals @ (case retries of
                     [] \<Rightarrow> [] | d # ds \<Rightarrow> d\<lparr>dl_delay_before := gap\<rparr> # ds))))"

definition build_duplicate :: "email list \<Rightarrow> int \<Rightarrow> string \<Rightarrow> scenario_error + scenario" where
  "build_duplicate corpus seed tag_prefix =
     (case repeat_twice corpus seed tag_prefix 0 of
        Inl err \<Rightarrow> Inl err | Inr ds \<Rightarrow> Inr \<lparr>sn_name = Duplicate, sn_deliveries = ds\<rparr>)"

definition build_slow_retry ::
  "email list \<Rightarrow> int \<Rightarrow> string \<Rightarrow> seconds \<Rightarrow> scenario_error + scenario"
where
  "build_slow_retry corpus seed tag_prefix retry_after =
     (if retry_after < 0 then Inl (NegativeRetryAfter retry_after)
      else case repeat_twice corpus seed tag_prefix retry_after of
        Inl err \<Rightarrow> Inl err | Inr ds \<Rightarrow> Inr \<lparr>sn_name = SlowRetry, sn_deliveries = ds\<rparr>)"

text \<open>The three messages of a thread: the root, and two replies given what each of them
  answers and the chain it carries.\<close>

definition root_pins :: "string \<Rightarrow> thread_pins" where
  "root_pins message_id = \<lparr>tp_message_id = Some message_id, tp_in_reply_to = None,
     tp_references = None, tp_subject = None, tp_in_reply_to_tag = None\<rparr>"

definition reply_pins :: "string \<Rightarrow> string \<Rightarrow> string \<Rightarrow> string \<Rightarrow> string \<Rightarrow> thread_pins" where
  "reply_pins message_id in_reply_to references subject in_reply_to_tag =
     \<lparr>tp_message_id = Some message_id, tp_in_reply_to = Some in_reply_to,
      tp_references = Some references, tp_subject = Some subject,
      tp_in_reply_to_tag = Some in_reply_to_tag\<rparr>"

definition thread_tags :: "string \<Rightarrow> int \<Rightarrow> scenario_error + string \<times> string \<times> string" where
  "thread_tags tag_prefix seed =
     (case (make_tag tag_prefix seed 0, make_tag tag_prefix seed 1, make_tag tag_prefix seed 2) of
        (Inr t0, Inr t1, Inr t2) \<Rightarrow> Inr (t0, t1, t2)
      | (Inl err, _, _) \<Rightarrow> Inl (Untaggable err)
      | (_, Inl err, _) \<Rightarrow> Inl (Untaggable err)
      | (_, _, Inl err) \<Rightarrow> Inl (Untaggable err))"

fun all_built :: "('e + 'a) list \<Rightarrow> 'e + 'a list" where
  "all_built [] = Inr []"
| "all_built (Inl err # ds) = Inl err"
| "all_built (Inr d # ds) = (case all_built ds of Inl err \<Rightarrow> Inl err | Inr es \<Rightarrow> Inr (d # es))"

definition build_reply_first :: "email list \<Rightarrow> int \<Rightarrow> string \<Rightarrow> scenario_error + scenario" where
  "build_reply_first corpus seed tag_prefix =
     (if length corpus < 3 then Inl (TooFewPayloads ReplyFirst)
      else case thread_tags tag_prefix seed of
        Inl err \<Rightarrow> Inl err
      | Inr (root_tag, one_tag, two_tag) \<Rightarrow>
          (let root_id = build_chain_message_id root_tag;
               subject = reply_subject (gt_subject (em_ground_truth (corpus ! 0)))
           in case all_built
                [make_delivery (corpus ! 1) one_tag 1 seed
                   (reply_pins (build_chain_message_id one_tag) root_id root_id subject root_tag),
                 make_delivery (corpus ! 2) two_tag 2 seed
                   (reply_pins (build_chain_message_id two_tag) root_id root_id subject root_tag),
                 make_delivery (corpus ! 0) root_tag 0 seed (root_pins root_id)] of
                Inl err \<Rightarrow> Inl err
              | Inr ds \<Rightarrow> Inr \<lparr>sn_name = ReplyFirst, sn_deliveries = ds\<rparr>))"

definition build_references :: "email list \<Rightarrow> int \<Rightarrow> string \<Rightarrow> scenario_error + scenario" where
  "build_references corpus seed tag_prefix =
     (if length corpus < 3 then Inl (TooFewPayloads References)
      else case thread_tags tag_prefix seed of
        Inl err \<Rightarrow> Inl err
      | Inr (root_tag, one_tag, two_tag) \<Rightarrow>
          (let root_id = build_chain_message_id root_tag;
               one_id = build_chain_message_id one_tag;
               subject = reply_subject (gt_subject (em_ground_truth (corpus ! 0)))
           in case all_built
                [make_delivery (corpus ! 0) root_tag 0 seed (root_pins root_id),
                 make_delivery (corpus ! 1) one_tag 1 seed
                   (reply_pins one_id root_id root_id subject root_tag),
                 make_delivery (corpus ! 2) two_tag 2 seed
                   (reply_pins (build_chain_message_id two_tag) one_id
                     (root_id @ '' '' @ one_id) subject one_tag)] of
                Inl err \<Rightarrow> Inl err
              | Inr ds \<Rightarrow> Inr \<lparr>sn_name = References, sn_deliveries = ds\<rparr>))"

definition known_scenario :: "string \<Rightarrow> scenario_name option" where
  "known_scenario s = find (\<lambda>n. scenario_str n = s) SCENARIOS"

definition build_one ::
  "email list \<Rightarrow> nat \<Rightarrow> int \<Rightarrow> string \<Rightarrow> seconds \<Rightarrow> scenario_name \<Rightarrow> scenario_error + scenario"
where
  "build_one corpus n seed tag_prefix retry_after name =
     (let p = scenario_tag_prefix tag_prefix name
      in case name of
           SlowRetry \<Rightarrow> build_slow_retry (take n corpus) seed p retry_after
         | Duplicate \<Rightarrow> build_duplicate (take n corpus) seed p
         | ReplyFirst \<Rightarrow> build_reply_first corpus seed p
         | References \<Rightarrow> build_references corpus seed p)"

definition wanted_scenarios :: "string list option \<Rightarrow> string list" where
  "wanted_scenarios selected =
     (case selected of
        Some names \<Rightarrow> if names \<noteq> [] then names else map scenario_str SCENARIOS
      | None \<Rightarrow> map scenario_str SCENARIOS)"

definition build_scenarios ::
  "(nat \<Rightarrow> email list) \<Rightarrow> int \<Rightarrow> int \<Rightarrow> string \<Rightarrow> seconds \<Rightarrow> string list option \<Rightarrow>
     scenario_error + scenario list"
where
  "build_scenarios corpus_of seed n tag_prefix retry_after selected =
     (let wanted = wanted_scenarios selected;
          unknown = filter (\<lambda>s. known_scenario s = None) wanted
      in if unknown \<noteq> [] then Inl (UnknownScenarios unknown)
         else if n \<le> 0 then Inl (BadCount n)
         else let corpus = corpus_of (max (nat n) 3)
              in all_built (map (\<lambda>s. build_one corpus (nat n) seed tag_prefix retry_after
                   (the (known_scenario s))) wanted))"

section \<open>Stamped messages\<close>

definition made :: "string \<Rightarrow> int \<Rightarrow> nat \<Rightarrow> string" where
  "made p seed i = p @ ''-'' @ tail_text (seed < 0) (str_of_nat (nat \<bar>seed\<bar>)) (pad4 i)"

lemma make_tag_made: "p \<noteq> [] \<Longrightarrow> make_tag p seed (int i) = Inr (made p seed i)"
  by (simp add: make_tag_Inr made_def)

lemma make_tag_thread [simp]:
  assumes "p \<noteq> []"
  shows "make_tag p seed 0 = Inr (made p seed 0)" "make_tag p seed 1 = Inr (made p seed 1)"
    "make_tag p seed 2 = Inr (made p seed 2)"
  using make_tag_made [OF assms, of seed 0] make_tag_made [OF assms, of seed 1]
    make_tag_made [OF assms, of seed 2] by simp_all

lemma made_ne [simp]: "made p seed i \<noteq> []"
  by (simp add: made_def)

lemma made_inj: "made p seed i = made p seed j \<longleftrightarrow> i = j"
proof
  assume "made p seed i = made p seed j"
  then have "pad4 i = pad4 j" by (simp add: made_def tail_text_def)
  moreover have "tag_tail (tail_text (seed < 0) (str_of_nat (nat \<bar>seed\<bar>)) (pad4 k)) = Some (seed, k)"
    for k by (rule tag_tail_made)
  ultimately show "i = j" by (metis option.inject prod.inject)
qed simp

definition stamped :: "email \<Rightarrow> string \<Rightarrow> pinned \<Rightarrow> email" where
  "stamped e tag pin = projr (stamp e tag pin)"

lemma stamp_stamped: "tag \<noteq> [] \<Longrightarrow> stamp e tag pin = Inr (stamped e tag pin)"
  by (simp add: stamped_def stamp_def tag_marker_def Let_def)

lemma map_of_set_header:
  "casefold k \<noteq> casefold name \<Longrightarrow> map_of (set_header hs name v) k = map_of hs k"
  by (auto simp: set_header_def update_conv dest: find_header_Some split: option.split)

lemma stamped_header:
  assumes "tag \<noteq> []" "casefold k \<noteq> casefold ''Subject''"
  shows "map_of (em_headers (stamped e tag pin)) k =
    map_of (stamped_headers (em_headers e) tag pin) k"
proof (cases "pin_subject pin")
  case None
  with assms show ?thesis
    by (simp add: stamped_def stamp_def tag_marker_def with_changes_def no_changes_def Let_def)
next
  case (Some s)
  with assms show ?thesis
    by (simp add: stamped_def stamp_def tag_marker_def with_changes_def no_changes_def Let_def
        sync_header_def map_of_set_header)
qed

lemma thread_headers_not_subject:
  "casefold ''Message-ID'' \<noteq> casefold ''Subject''" "casefold ''In-Reply-To'' \<noteq> casefold ''Subject''"
  "casefold ''References'' \<noteq> casefold ''Subject''"
  by code_simp+

lemma stamped_ids:
  assumes "tag \<noteq> []"
  shows "map_of (em_headers (stamped e tag pin)) ''Message-ID'' =
      Some (case pin_message_id pin of Some m \<Rightarrow> m
            | None \<Rightarrow> ''<'' @ build_chain_message_id tag @ ''>'')"
    and "pin_in_reply_to pin = Some v \<Longrightarrow>
      map_of (em_headers (stamped e tag pin)) ''In-Reply-To'' = Some v"
    and "pin_references pin = Some rs \<Longrightarrow>
      map_of (em_headers (stamped e tag pin)) ''References'' = Some rs"
  using thread_headers_not_subject [THEN stamped_header [OF assms]]
  by (auto simp: stamped_headers_def put_header_def update_conv split: option.splits)

section \<open>Ids written to a header and read from it\<close>

text \<open>An id a header can carry as one word: no white space and no angle bracket.\<close>

definition plain_char :: "char \<Rightarrow> bool" where
  "plain_char c \<longleftrightarrow> \<not> is_space c \<and> c \<noteq> CHR ''<'' \<and> c \<noteq> CHR ''>''"

definition plain_id :: "string \<Rightarrow> bool" where
  "plain_id s \<longleftrightarrow> s \<noteq> [] \<and> (\<forall>c \<in> set s. plain_char c)"

lemma plain_id_no_space: "plain_id s \<Longrightarrow> s \<noteq> [] \<and> (\<forall>c \<in> set s. \<not> is_space c)"
  by (simp add: plain_id_def plain_char_def)

lemma plain_id_bracketless:
  assumes "plain_id s"
  shows "strip_chars ''<>'' s = s" "strip_chars ''<>'' (''<'' @ s @ ''>'') = s"
proof -
  have "s \<noteq> []" "hd s \<notin> set ''<>''" "last s \<notin> set ''<>''"
    using assms by (auto simp: plain_id_def plain_char_def)
  then show "strip_chars ''<>'' s = s" by (intro strip_chars_fixed) simp
  have "dropWhile (\<lambda>c. c \<in> set ''<>'') (''<'' @ s @ ''>'') = s @ ''>''"
    using \<open>s \<noteq> []\<close> \<open>hd s \<notin> set ''<>''\<close> by (cases s) auto
  moreover have "dropWhile (\<lambda>c. c \<in> set ''<>'') (rev (s @ ''>'')) = rev s"
    using \<open>s \<noteq> []\<close> \<open>last s \<notin> set ''<>''\<close> by (cases s rule: rev_cases) auto
  ultimately show "strip_chars ''<>'' (''<'' @ s @ ''>'') = s"
    by (simp only: strip_chars_def rstrip_chars_def rev_rev_ident)
qed

lemma bracketed_word: "plain_id s \<Longrightarrow> \<forall>c \<in> set (''<'' @ s @ ''>''). \<not> is_space c"
  by (auto simp: plain_id_def plain_char_def is_space_def)

lemma bare_plain: "plain_id s \<Longrightarrow> bare s = s"
  by (simp add: bare_def strip_no_space plain_id_no_space plain_id_bracketless)

lemma bare_bracketed:
  assumes "plain_id s"
  shows "bare (''<'' @ s @ ''>'') = s"
proof -
  have "strip (''<'' @ s @ ''>'') = ''<'' @ s @ ''>''" "strip s = s"
    using assms bracketed_word plain_id_no_space by (auto intro!: strip_no_space)
  then show ?thesis by (simp only: bare_def plain_id_bracketless [OF assms])
qed

lemma set_message_id_tokens_bare:
  "set (message_id_tokens ss) = {bare w |w. w \<in> set (concat (map split_ws ss))} - {[]}"
  by (auto simp: set_message_id_tokens bare_def)

lemma header_tokens:
  assumes "\<forall>w \<in> set ws. plain_id w"
  shows "split_ws (header_ids ws) = map (\<lambda>w. ''<'' @ w @ ''>'') ws"
    and "set (message_id_tokens [header_ids ws]) = set ws"
    and "set (message_id_tokens (split_ws (header_ids ws))) = set ws"
proof -
  have h: "header_ids ws = join '' '' (map (\<lambda>w. ''<'' @ w @ ''>'') ws)"
    unfolding header_ids_def using assms
    by (intro arg_cong [where f = "join '' ''"] map_cong) (simp_all add: bare_plain)
  show sp: "split_ws (header_ids ws) = map (\<lambda>w. ''<'' @ w @ ''>'') ws"
    unfolding h using assms bracketed_word by (intro split_ws_join) fastforce
  have b: "bare (''<'' @ w @ ''>'') = w \<and> w \<noteq> []" if "w \<in> set ws" for w
    using assms that bare_bracketed plain_id_no_space by blast
  then show "set (message_id_tokens [header_ids ws]) = set ws"
    unfolding set_message_id_tokens_bare by (force simp: sp)
  have "split_ws (''<'' @ w @ ''>'') = [''<'' @ w @ ''>'']" if "w \<in> set ws" for w
    using assms that bracketed_word [of w] by (intro split_ws_word_end) auto
  then have "concat (map split_ws (split_ws (header_ids ws))) = split_ws (header_ids ws)"
    unfolding sp by (simp add: comp_def cong: map_cong)
  then show "set (message_id_tokens (split_ws (header_ids ws))) = set ws"
    unfolding set_message_id_tokens_bare using b by (force simp: sp)
qed

lemma plain_id_append [simp]:
  "plain_id (a @ b) \<longleftrightarrow> a @ b \<noteq> [] \<and> (a = [] \<or> plain_id a) \<and> (b = [] \<or> plain_id b)"
  by (auto simp: plain_id_def)

lemma plain_id_Cons [simp]: "plain_id (c # s) \<longleftrightarrow> plain_char c \<and> (s = [] \<or> plain_id s)"
  by (auto simp: plain_id_def)

lemma plain_char_digit: "is_digit c \<Longrightarrow> plain_char c"
  by (auto simp: plain_char_def is_space_def is_digit_def)

lemma plain_digits: "list_all is_digit ds \<Longrightarrow> ds \<noteq> [] \<Longrightarrow> plain_id ds"
  by (simp add: plain_id_def list_all_iff plain_char_digit)

lemma plain_dash [simp]: "plain_char CHR ''-''"
  by (simp add: plain_char_def)

lemma plain_identity: "plain_id (SCENARIO_IDENTITY n)"
  by (cases n) (simp_all add: plain_char_def is_space_def)

lemma plain_domain: "plain_char CHR ''@'' \<and> plain_id TAG_DOMAIN_SUFFIX"
  by (simp add: TAG_DOMAIN_SUFFIX_def plain_char_def is_space_def)

lemma plain_made:
  assumes "plain_id p"
  shows "plain_id (made p seed i)"
proof -
  note parts = made_tail_parts [of "nat \<bar>seed\<bar>" i, unfolded tail_parts_def]
  have "pad4 i \<noteq> []" using parts by auto
  then have "plain_id (str_of_nat (nat \<bar>seed\<bar>))" "plain_id (pad4 i)"
    using parts by (simp_all add: plain_digits)
  with assms show ?thesis by (simp add: made_def tail_text_def)
qed

lemma plain_prefix: "plain_id p \<Longrightarrow> plain_id (scenario_tag_prefix p n)"
  using plain_identity [of n] by (simp add: scenario_tag_prefix_def)

lemma plain_chain_id: "plain_id t \<Longrightarrow> plain_id (build_chain_message_id t)"
  using plain_domain by (simp add: build_chain_message_id_def)

section \<open>What the builders build\<close>

definition original :: "int \<Rightarrow> string \<Rightarrow> email \<Rightarrow> nat \<Rightarrow> delivery" where
  "original seed p e i = (let tag = made p seed i; mid = build_chain_message_id tag in
     \<lparr>dl_email = stamped e tag (no_pins\<lparr>pin_message_id := Some (header_ids [mid])\<rparr>), dl_tag = tag,
      dl_record_id = record_id_of seed i, dl_message_id = mid, dl_delay_before = 0,
      dl_in_reply_to_tag = None\<rparr>)"

lemma originals_from_eq:
  assumes "p \<noteq> []"
  shows "originals_from i es seed p = Inr (map2 (original seed p) es [i..<i + length es])"
proof (induction es arbitrary: i)
  case (Cons e es)
  have "[i..<i + length (e # es)] = i # [Suc i..<Suc i + length es]" by (simp add: upt_rec)
  with Cons [of "Suc i"] assms show ?case
    by (simp add: make_tag_made stamp_stamped original_def Let_def del: upt_Suc)
qed simp

lemma make_delivery_eq:
  "tag \<noteq> [] \<Longrightarrow> make_delivery e tag index seed tp = Inr \<lparr>
     dl_email = stamped e tag \<lparr>
       pin_message_id = map_option (\<lambda>m. header_ids [m]) (tp_message_id tp),
       pin_in_reply_to = map_option (\<lambda>m. header_ids [m]) (tp_in_reply_to tp),
       pin_references = map_option (\<lambda>m. header_ids (split_ws m)) (tp_references tp),
       pin_subject = tp_subject tp\<rparr>,
     dl_tag = tag, dl_record_id = record_id_of seed index,
     dl_message_id = message_id_of (stamped e tag \<lparr>
       pin_message_id = map_option (\<lambda>m. header_ids [m]) (tp_message_id tp),
       pin_in_reply_to = map_option (\<lambda>m. header_ids [m]) (tp_in_reply_to tp),
       pin_references = map_option (\<lambda>m. header_ids (split_ws m)) (tp_references tp),
       pin_subject = tp_subject tp\<rparr>),
     dl_delay_before = 0, dl_in_reply_to_tag = tp_in_reply_to_tag tp\<rparr>"
  by (simp add: make_delivery_def stamp_stamped)

lemma message_id_of_stamped:
  assumes "tag \<noteq> []" "pin_message_id pin = Some (header_ids [m])" "plain_id m"
  shows "message_id_of (stamped e tag pin) = m"
proof -
  have "header_ids [m] = ''<'' @ m @ ''>''" using assms(3) by (simp add: header_ids_def bare_plain)
  moreover have "strip (''<'' @ m @ ''>'') = ''<'' @ m @ ''>''"
    using strip_no_space [OF bracketed_word [OF assms(3)]] .
  ultimately show ?thesis
    using stamped_ids(1) [OF assms(1), of e pin] bare_bracketed [OF assms(3)] assms(2)
    by (simp add: message_id_of_def bare_def)
qed

text \<open>A delivery as the builders of a thread make it: its id is derived from its tag, and a
  reply's two threading headers carry the given ids.\<close>

definition threaded ::
  "string \<Rightarrow> int \<Rightarrow> nat \<Rightarrow> (nat \<times> nat list) option \<Rightarrow> delivery \<Rightarrow> bool"
where
  "threaded p seed i answers d \<longleftrightarrow>
     (let id_of = (\<lambda>k. build_chain_message_id (made p seed k)) in
      dl_tag d = made p seed i \<and> dl_message_id d = id_of i \<and>
      dl_in_reply_to_tag d = map_option (\<lambda>(k, ks). made p seed k) answers \<and>
      (\<forall>k ks. answers = Some (k, ks) \<longrightarrow>
         map_of (em_headers (dl_email d)) ''In-Reply-To'' = Some (header_ids [id_of k]) \<and>
         map_of (em_headers (dl_email d)) ''References'' = Some (header_ids (map id_of ks))))"

lemma threaded_root:
  assumes "plain_id p"
  shows "\<exists>d. make_delivery e (made p seed i) k seed
      (root_pins (build_chain_message_id (made p seed i))) = Inr d \<and> threaded p seed i None d"
  using plain_chain_id [OF plain_made [OF assms]]
  by (simp add: make_delivery_eq threaded_def root_pins_def message_id_of_stamped)

lemma threaded_reply:
  assumes "plain_id p" "split_ws references = map (\<lambda>k. build_chain_message_id (made p seed k)) ks"
  shows "\<exists>d. make_delivery e (made p seed i) k seed
      (reply_pins (build_chain_message_id (made p seed i)) (build_chain_message_id (made p seed j))
        references subject (made p seed j)) = Inr d \<and> threaded p seed i (Some (j, ks)) d"
  using plain_chain_id [OF plain_made [OF assms(1)]] assms(2)
  by (simp add: make_delivery_eq threaded_def reply_pins_def message_id_of_stamped
      stamped_ids(2,3))

lemma one_id: "plain_id m \<Longrightarrow> split_ws m = [m]"
  using plain_id_no_space by (simp add: split_ws_word_end)

lemma two_ids: "plain_id m \<Longrightarrow> plain_id k \<Longrightarrow> split_ws (m @ '' '' @ k) = [m, k]"
  using plain_id_no_space split_ws_word [of m k] by (simp add: one_id)

lemma reply_first_built:
  assumes "plain_id p" "3 \<le> length corpus"
  shows "\<exists>a b r. build_reply_first corpus seed p = Inr \<lparr>sn_name = ReplyFirst, sn_deliveries = [a, b, r]\<rparr> \<and>
    threaded p seed 1 (Some (0, [0])) a \<and> threaded p seed 2 (Some (0, [0])) b \<and>
    threaded p seed 0 None r"
proof -
  have p: "p \<noteq> []" using assms by (simp add: plain_id_def)
  have id: "plain_id (build_chain_message_id (made p seed k))" for k
    using assms(1) plain_chain_id plain_made by blast
  let ?id = "\<lambda>k. build_chain_message_id (made p seed k)"
  let ?s = "reply_subject (gt_subject (em_ground_truth (corpus ! 0)))"
  from threaded_reply [OF assms(1), of "?id 0" seed "[0]" "corpus ! 1" 1 1 0 ?s]
    threaded_reply [OF assms(1), of "?id 0" seed "[0]" "corpus ! 2" 2 2 0 ?s]
    threaded_root [OF assms(1), of "corpus ! 0" seed 0 0]
  obtain a b r where "make_delivery (corpus ! 1) (made p seed 1) 1 seed
      (reply_pins (?id 1) (?id 0) (?id 0) ?s (made p seed 0)) = Inr a"
    "threaded p seed 1 (Some (0, [0])) a"
    "make_delivery (corpus ! 2) (made p seed 2) 2 seed
      (reply_pins (?id 2) (?id 0) (?id 0) ?s (made p seed 0)) = Inr b"
    "threaded p seed 2 (Some (0, [0])) b"
    "make_delivery (corpus ! 0) (made p seed 0) 0 seed (root_pins (?id 0)) = Inr r"
    "threaded p seed 0 None r"
    using id by (auto simp: one_id)
  with assms(2) p show ?thesis
    by (simp add: build_reply_first_def thread_tags_def Let_def)
qed

lemma references_built:
  assumes "plain_id p" "3 \<le> length corpus"
  shows "\<exists>r a b. build_references corpus seed p = Inr \<lparr>sn_name = References, sn_deliveries = [r, a, b]\<rparr> \<and>
    threaded p seed 0 None r \<and> threaded p seed 1 (Some (0, [0])) a \<and>
    threaded p seed 2 (Some (1, [0, 1])) b"
proof -
  have p: "p \<noteq> []" using assms by (simp add: plain_id_def)
  have id: "plain_id (build_chain_message_id (made p seed k))" for k
    using assms(1) plain_chain_id plain_made by blast
  let ?id = "\<lambda>k. build_chain_message_id (made p seed k)"
  let ?s = "reply_subject (gt_subject (em_ground_truth (corpus ! 0)))"
  from threaded_reply [OF assms(1), of "?id 0" seed "[0]" "corpus ! 1" 1 1 0 ?s]
    threaded_reply [OF assms(1), of "?id 0 @ '' '' @ ?id 1" seed "[0, 1]" "corpus ! 2" 2 2 1 ?s]
    threaded_root [OF assms(1), of "corpus ! 0" seed 0 0]
  obtain r a b where "make_delivery (corpus ! 0) (made p seed 0) 0 seed (root_pins (?id 0)) = Inr r"
    "threaded p seed 0 None r"
    "make_delivery (corpus ! 1) (made p seed 1) 1 seed
      (reply_pins (?id 1) (?id 0) (?id 0) ?s (made p seed 0)) = Inr a"
    "threaded p seed 1 (Some (0, [0])) a"
    "make_delivery (corpus ! 2) (made p seed 2) 2 seed
      (reply_pins (?id 2) (?id 1) (?id 0 @ '' '' @ ?id 1) ?s (made p seed 1)) = Inr b"
    "threaded p seed 2 (Some (1, [0, 1])) b"
    using id two_ids by (auto simp: one_id)
  with assms(2) p show ?thesis
    by (simp add: build_references_def thread_tags_def Let_def)
qed

lemma all_built_Inr: "all_built xs = Inr ys \<longleftrightarrow> xs = map Inr ys"
proof (induction xs arbitrary: ys)
  case (Cons x xs)
  show ?case
  proof (cases x)
    case (Inr d)
    with Cons show ?thesis by (cases ys; cases "all_built xs") auto
  qed (cases ys; simp)
qed auto

text \<open>The two repeated scenarios: every message twice, the second time as the first.\<close>

lemma repeat_twice_eq:
  assumes "p \<noteq> []"
  shows "repeat_twice corpus seed p gap =
    (let os = map2 (original seed p) corpus [0..<length corpus]
     in Inr (if gap \<le> 0 then concat (map (\<lambda>d. [d, d]) os)
             else os @ (case os of [] \<Rightarrow> [] | d # ds \<Rightarrow> d\<lparr>dl_delay_before := gap\<rparr> # ds)))"
proof -
  have "map (\<lambda>(a, b). [a, b]) (zip os os) = map (\<lambda>d. [d, d]) os" for os :: "delivery list"
    by (induction os) auto
  with assms originals_from_eq [OF assms, of 0 corpus seed] show ?thesis
    by (simp add: repeat_twice_def Let_def)
qed

definition minted_plan :: "string \<Rightarrow> int \<Rightarrow> scenario \<Rightarrow> bool" where
  "minted_plan p seed sc \<longleftrightarrow> (\<forall>d \<in> set (sn_deliveries sc). \<exists>i. dl_tag d = made p seed i)"

lemma set_map2_original:
  "d \<in> set (map2 (original seed p) es [0..<length es]) \<Longrightarrow>
     \<exists>i < length es. d = original seed p (es ! i) i"
  by (auto simp: set_zip)

lemma original_tag [simp]: "dl_tag (original seed p e i) = made p seed i"
  "dl_in_reply_to_tag (original seed p e i) = None" "dl_delay_before (original seed p e i) = 0"
  "dl_message_id (original seed p e i) = build_chain_message_id (made p seed i)"
  by (simp_all add: original_def Let_def)

lemma repeat_twice_deliveries:
  assumes "p \<noteq> []" "repeat_twice corpus seed p gap = Inr ds" "d \<in> set ds"
  shows "\<exists>i < length corpus. dl_tag d = made p seed i \<and> dl_in_reply_to_tag d = None \<and>
    dl_email d = dl_email (original seed p (corpus ! i) i)"
proof -
  define os where "os = map2 (original seed p) corpus [0..<length corpus]"
  have "ds = (if gap \<le> 0 then concat (map (\<lambda>d. [d, d]) os)
      else os @ (case os of [] \<Rightarrow> [] | d # ds \<Rightarrow> d\<lparr>dl_delay_before := gap\<rparr> # ds))"
    using assms(2) unfolding repeat_twice_eq [OF assms(1)] os_def Let_def sum.inject by (rule sym)
  then have "\<exists>o' \<in> set os. d = o' \<or> d = o'\<lparr>dl_delay_before := gap\<rparr>"
    using assms(3) by (cases os) (auto split: if_splits)
  then obtain o' where o': "o' \<in> set os" "d = o' \<or> d = o'\<lparr>dl_delay_before := gap\<rparr>" by blast
  from set_map2_original [OF o'(1) [unfolded os_def]] o'(2) show ?thesis by auto
qed

lemma build_one_Inr:
  assumes "build_one corpus n seed p gap name = Inr sc" "plain_id p"
  shows "sn_name sc = name \<and> minted_plan (scenario_tag_prefix p name) seed sc \<and>
    (\<forall>d \<in> set (sn_deliveries sc). is_reply d \<longrightarrow>
       (\<exists>par \<in> set (sn_deliveries sc). dl_in_reply_to_tag d = Some (dl_tag par)))"
proof -
  let ?p = "scenario_tag_prefix p name"
  have p: "plain_id ?p" "?p \<noteq> []" using plain_prefix [OF assms(2)] by (auto simp: plain_id_def)
  note defs = build_one_def build_duplicate_def build_slow_retry_def Let_def
  show ?thesis
  proof (cases name)
    case Duplicate
    then obtain ds where "repeat_twice (take n corpus) seed ?p 0 = Inr ds"
      "sc = \<lparr>sn_name = Duplicate, sn_deliveries = ds\<rparr>"
      using assms(1) by (auto simp: defs split: sum.splits)
    with repeat_twice_deliveries [OF p(2) this(1)] Duplicate show ?thesis
      by (force simp: minted_plan_def is_reply_def)
  next
    case SlowRetry
    then obtain ds where "repeat_twice (take n corpus) seed ?p gap = Inr ds"
      "sc = \<lparr>sn_name = SlowRetry, sn_deliveries = ds\<rparr>"
      using assms(1) by (auto simp: defs split: sum.splits if_splits)
    with repeat_twice_deliveries [OF p(2) this(1)] SlowRetry show ?thesis
      by (force simp: minted_plan_def is_reply_def)
  next
    case ReplyFirst
    with assms(1) have b: "build_reply_first corpus seed ?p = Inr sc" by (simp add: defs)
    then have "3 \<le> length corpus" by (simp add: build_reply_first_def split: if_splits)
    from reply_first_built [OF p(1) this, of seed] b ReplyFirst show ?thesis
      by (auto simp: minted_plan_def is_reply_def threaded_def)
  next
    case References
    with assms(1) have b: "build_references corpus seed ?p = Inr sc" by (simp add: defs)
    then have "3 \<le> length corpus" by (simp add: build_references_def split: if_splits)
    from references_built [OF p(1) this, of seed] b References show ?thesis
      by (auto simp: minted_plan_def is_reply_def threaded_def)
  qed
qed

lemma wanted_ne: "wanted_scenarios sel \<noteq> []"
  by (simp add: wanted_scenarios_def SCENARIOS_def split: option.splits)

lemma known_scenario_Some: "known_scenario s = Some name \<Longrightarrow> scenario_str name = s"
  by (auto simp: known_scenario_def find_Some_iff)

lemma build_scenarios_Inr:
  assumes "build_scenarios corpus_of seed n p gap sel = Inr scs"
  obtains names where "scs \<noteq> []" "0 < n"
    "map (\<lambda>name. build_one (corpus_of (max (nat n) 3)) (nat n) seed p gap name) names = map Inr scs"
    "map scenario_str names = wanted_scenarios sel"
proof -
  let ?w = "wanted_scenarios sel"
  have known: "\<And>s. s \<in> set ?w \<Longrightarrow> \<exists>name. known_scenario s = Some name" and n: "0 < n"
    and built: "map (\<lambda>s. build_one (corpus_of (max (nat n) 3)) (nat n) seed p gap
      (the (known_scenario s))) ?w = map Inr scs"
    using assms unfolding build_scenarios_def Let_def
    by (auto simp: filter_empty_conv all_built_Inr split: if_splits)
  let ?names = "map (\<lambda>s. the (known_scenario s)) ?w"
  have "map (scenario_str \<circ> (\<lambda>s. the (known_scenario s))) ?w = map (\<lambda>s. s) ?w"
    using known known_scenario_Some by (intro map_cong) fastforce+
  then have "map scenario_str ?names = ?w" by simp
  moreover have "map (\<lambda>name. build_one (corpus_of (max (nat n) 3)) (nat n) seed p gap name) ?names =
      map Inr scs"
    using built by (simp add: comp_def)
  moreover have "scs \<noteq> []" using built wanted_ne by auto
  ultimately show thesis using that [of ?names] n by blast
qed

end
