(* ===== verification/Redeliver.thy ===== *)
theory Redeliver
  imports Ledger Redelivery_Plan
begin

text \<open>
  The \<open>redeliver\<close> tool (\<open>pipeline/redeliver.py\<close>): delivering the scenarios of a plan, judging
  what the store holds of each, attributing the records nobody sent to the scenario whose
  prefix they carry, the verdict, and the run. A finding is a constructor; the report and
  the dry-run preview are left out. The count of the options is a natural number.
\<close>

section \<open>Sending\<close>

text \<open>The loop of \<open>send_scenario\<close> from an index on.\<close>

fun deliver_from ::
  "'w timing \<Rightarrow> ('q \<Rightarrow> 'w \<Rightarrow> client_reply \<times> 'w) \<Rightarrow> (email \<Rightarrow> 'q) \<Rightarrow> nat \<Rightarrow> delivery list \<Rightarrow>
     bucket \<Rightarrow> 'w \<Rightarrow> ((rate_error + sent_message list) \<times> bucket \<times> 'w) option"
where
  "deliver_from T client build k [] b w = Some (Inr [], b, w)"
| "deliver_from T client build k (d # ds) b w =
     (let w0 = (if 0 < dl_delay_before d then do_sleep T (dl_delay_before d) w else w)
      in case acquire T 1 b w0 of
        None \<Rightarrow> None
      | Some (Inl e, b1, w1) \<Rightarrow> Some (Inl e, b1, w1)
      | Some (Inr _, b1, w1) \<Rightarrow>
          (case post T client build (dl_email d) w1 of (result, w2) \<Rightarrow>
            (case deliver_from T client build (Suc k) ds b1 w2 of
               None \<Rightarrow> None
             | Some (Inl e, b2, w3) \<Rightarrow> Some (Inl e, b2, w3)
             | Some (Inr sent, b2, w3) \<Rightarrow>
                 Some (Inr (\<lparr>sm_index = k, sm_record_id = dl_record_id d, sm_tag = dl_tag d,
                   sm_email = dl_email d,
                   sm_probe = probe_for (dl_email d) (dl_tag d) (dl_record_id d) [],
                   sm_result = result\<rparr> # sent), b2, w3))))"

definition send_scenario ::
  "'w timing \<Rightarrow> ('q \<Rightarrow> 'w \<Rightarrow> client_reply \<times> 'w) \<Rightarrow> (email \<Rightarrow> 'q) \<Rightarrow> scenario \<Rightarrow> rat \<Rightarrow> 'w \<Rightarrow>
     ((rate_error + sent_message list) \<times> 'w) option"
where
  "send_scenario T client build sc rate w =
     (case new_bucket T rate (max rate 1) w of
        (Inl e, w1) \<Rightarrow> Some (Inl e, w1)
      | (Inr b, w1) \<Rightarrow> map_option (\<lambda>(r, b', w'). (r, w'))
          (deliver_from T client build 0 (sn_deliveries sc) b w1))"

text \<open>The scenarios one after the other, each with a bucket of its own.\<close>

fun send_scenarios ::
  "'w timing \<Rightarrow> ('q \<Rightarrow> 'w \<Rightarrow> client_reply \<times> 'w) \<Rightarrow> (email \<Rightarrow> 'q) \<Rightarrow> scenario list \<Rightarrow> rat \<Rightarrow> 'w \<Rightarrow>
     ((rate_error + sent_message list) \<times> 'w) option"
where
  "send_scenarios T client build [] rate w = Some (Inr [], w)"
| "send_scenarios T client build (sc # scs) rate w =
     (case send_scenario T client build sc rate w of
        None \<Rightarrow> None
      | Some (Inl e, w1) \<Rightarrow> Some (Inl e, w1)
      | Some (Inr sent, w1) \<Rightarrow>
          map_option (\<lambda>(r, w2). (map_sum id (\<lambda>more. sent @ more) r, w2))
            (send_scenarios T client build scs rate w1))"

section \<open>Judging one scenario\<close>

datatype finding =
    NotHeld string
  | DuplicateTickets string nat "string list"
  | ContentMismatch string detail
  | ThreadBroken string detail
  | NeverDelivered string string

datatype judge_error = BadExpectations expectation_error | BadScenario scenario_error

record message_row =
  mr_tag :: string
  mr_record_id :: string
  mr_message_id :: string
  mr_replies_to :: "string option"
  mr_tickets :: "string list"
  mr_checks :: "check_result list"

record scenario_result =
  sx_name :: scenario_name
  sx_deliveries :: nat
  sx_unique_messages :: nat
  sx_strays_searched :: bool
  sx_findings :: "finding list"
  sx_records :: "message_row list"
  sx_missing :: "string list"
  sx_not_checked :: "string list"
  sx_strays :: "stray list"

definition sx_passed :: "scenario_result \<Rightarrow> bool" where
  "sx_passed r \<longleftrightarrow> sx_findings r = [] \<and> sx_not_checked r = []"

definition message_row_of :: "delivery \<Rightarrow> string \<Rightarrow> readback list \<Rightarrow> message_row" where
  "message_row_of d tag found = \<lparr>mr_tag = tag, mr_record_id = dl_record_id d,
     mr_message_id = dl_message_id d, mr_replies_to = dl_in_reply_to_tag d,
     mr_tickets = map ticket_str found, mr_checks = []\<rparr>"

text \<open>One round of the first loop; the map is \<open>first_by_tag\<close>.\<close>

definition judge_content ::
  "pylib \<Rightarrow> match_modes \<Rightarrow> bool \<Rightarrow> (string \<Rightarrow> readback list) \<Rightarrow> scenario \<Rightarrow> string \<Rightarrow>
     scenario_result \<times> (string \<rightharpoonup> readback) \<Rightarrow> judge_error + scenario_result \<times> (string \<rightharpoonup> readback)"
where
  "judge_content L M failed readbacks sc tag state =
     (case state of (result, first) \<Rightarrow>
       (let found = readbacks tag in
        case delivery_for sc tag of
          None \<Rightarrow> Inl (BadScenario (NoDeliveryFor (sn_name sc) tag))
        | Some d \<Rightarrow>
            (let row = message_row_of d tag found in
             case found of
               [] \<Rightarrow>
                 Inr (if failed
                   then result\<lparr>sx_not_checked := sx_not_checked result @ [tag],
                     sx_records := sx_records result @ [row]\<rparr>
                   else result\<lparr>sx_missing := sx_missing result @ [tag],
                     sx_findings := sx_findings result @ [NotHeld tag],
                     sx_records := sx_records result @ [row]\<rparr>, first)
             | r # rs \<Rightarrow>
                 (case expectations_for M (dl_email d) of
                    Inl e \<Rightarrow> Inl (BadExpectations e)
                  | Inr x \<Rightarrow>
                      (let v = evaluate_sequence L found x (dl_record_id d) tag
                       in Inr (result\<lparr>sx_findings := sx_findings result @
                              (if 1 < length found
                               then [DuplicateTickets tag (length found) (map ticket_str found)]
                               else []) @
                              map (\<lambda>(n, dt). ContentMismatch n dt) (mismatch_strings v),
                            sx_records := sx_records result @ [row\<lparr>mr_checks := vf_checks v\<rparr>]\<rparr>,
                          first(tag \<mapsto> r)))))))"

fun each_content ::
  "pylib \<Rightarrow> match_modes \<Rightarrow> bool \<Rightarrow> (string \<Rightarrow> readback list) \<Rightarrow> scenario \<Rightarrow> string list \<Rightarrow>
     scenario_result \<times> (string \<rightharpoonup> readback) \<Rightarrow> judge_error + scenario_result \<times> (string \<rightharpoonup> readback)"
where
  "each_content L M failed readbacks sc [] state = Inr state"
| "each_content L M failed readbacks sc (tag # tags) state =
     (case judge_content L M failed readbacks sc tag state of
        Inl e \<Rightarrow> Inl e
      | Inr state' \<Rightarrow> each_content L M failed readbacks sc tags state')"

text \<open>The checks of a reply go to the first record of its tag.\<close>

fun extend_checks :: "message_row list \<Rightarrow> string \<Rightarrow> check_result list \<Rightarrow> message_row list" where
  "extend_checks [] tag cs = []"
| "extend_checks (row # rows) tag cs =
     (if mr_tag row = tag then row\<lparr>mr_checks := mr_checks row @ cs\<rparr> # rows
      else row # extend_checks rows tag cs)"

definition thread_checks ::
  "scenario \<Rightarrow> (string \<rightharpoonup> readback) \<Rightarrow> string \<Rightarrow> delivery \<Rightarrow> check_result list"
where
  "thread_checks sc first tag parent =
     [check_thread_link (first tag) (bare (dl_message_id parent)) (ancestry_of sc tag),
      check_thread_together (first tag) (first (dl_tag parent))]"

fun each_thread ::
  "scenario \<Rightarrow> (string \<rightharpoonup> readback) \<Rightarrow> string list \<Rightarrow> scenario_result \<Rightarrow> judge_error + scenario_result"
where
  "each_thread sc first [] result = Inr result"
| "each_thread sc first (tag # tags) result =
     (case delivery_for sc tag of
        None \<Rightarrow> each_thread sc first tags result
      | Some d \<Rightarrow>
          if \<not> is_reply d then each_thread sc first tags result
          else (case parent_of sc tag of
            None \<Rightarrow> Inl (BadScenario (ParentNeverDelivered (sn_name sc) tag (dl_in_reply_to_tag d)))
          | Some parent \<Rightarrow>
              (let checks = thread_checks sc first tag parent
               in each_thread sc first tags (result\<lparr>
                    sx_findings := sx_findings result @ map (\<lambda>c. ThreadBroken tag (cr_detail c))
                      (filter (\<lambda>c. cr_passed c = Some False) checks),
                    sx_records := extend_checks (sx_records result) tag checks\<rparr>))))"

definition judge_scenario ::
  "pylib \<Rightarrow> match_modes \<Rightarrow> bool \<Rightarrow> (string \<Rightarrow> readback list) \<Rightarrow> scenario \<Rightarrow>
     judge_error + scenario_result"
where
  "judge_scenario L M failed readbacks sc =
     (let fresh = \<lparr>sx_name = sn_name sc, sx_deliveries = length (sn_deliveries sc),
        sx_unique_messages = length (scenario_tags sc), sx_strays_searched = True,
        sx_findings = [], sx_records = [], sx_missing = [], sx_not_checked = [], sx_strays = []\<rparr>
      in case each_content L M failed readbacks sc (scenario_tags sc) (fresh, Map.empty) of
           Inl e \<Rightarrow> Inl e
         | Inr (result, first) \<Rightarrow> each_thread sc first (scenario_tags sc) result)"

section \<open>Judging the run\<close>

record stray_summary =
  ss_searched :: bool
  ss_unattributed :: "stray list option"
  ss_unattributed_count :: "nat option"
  ss_other_runs :: "stray list option"
  ss_other_runs_count :: "nat option"
  ss_untagged_count :: "nat option"
  ss_not_searched_reason :: "stray_reason option"

definition scenario_family :: "string \<Rightarrow> string list" where
  "scenario_family tag_prefix = tag_prefix # map (scenario_tag_prefix tag_prefix) SCENARIOS"

text \<open>\<open>by_prefix\<close>: the scenario whose prefix a tag was minted under.\<close>

definition scenario_of_tag :: "string \<Rightarrow> string \<Rightarrow> scenario_name option" where
  "scenario_of_tag tag_prefix tag =
     (case minted_by tag (scenario_family tag_prefix) of
        None \<Rightarrow> None
      | Some p \<Rightarrow> find (\<lambda>n. scenario_tag_prefix tag_prefix n = p) SCENARIOS)"

text \<open>\<open>results_by_name\<close>: of two results of one name the later.\<close>

definition owner_index :: "scenario_result list \<Rightarrow> scenario_name \<Rightarrow> nat option" where
  "owner_index results name =
     (case filter (\<lambda>i. sx_name (results ! i) = name) [0..<length results] of
        [] \<Rightarrow> None | is \<Rightarrow> Some (last is))"

fun attribute_strays ::
  "string \<Rightarrow> stray list \<Rightarrow> scenario_result list \<Rightarrow> stray list \<Rightarrow> scenario_result list \<times> stray list"
where
  "attribute_strays tag_prefix [] results unattributed = (results, unattributed)"
| "attribute_strays tag_prefix ((tag, ticket) # extra) results unattributed =
     (case Option.bind (scenario_of_tag tag_prefix tag) (owner_index results) of
        None \<Rightarrow> attribute_strays tag_prefix extra results (unattributed @ [(tag, ticket)])
      | Some i \<Rightarrow> attribute_strays tag_prefix extra
          (if length (sx_strays (results ! i)) < MAX_ARTIFACT_STRAYS
           then results[i := (results ! i)
             \<lparr>sx_strays := sx_strays (results ! i) @ [(tag, ticket)],
              sx_findings := sx_findings (results ! i) @ [NeverDelivered ticket tag]\<rparr>]
           else results) unattributed)"

definition judge_redelivery ::
  "pylib \<Rightarrow> match_modes \<Rightarrow> string \<Rightarrow> scenario list \<Rightarrow> (string \<times> readback list) list \<Rightarrow>
     readback list option \<Rightarrow> bool \<Rightarrow> bool \<Rightarrow> judge_error + scenario_result list \<times> stray_summary"
where
  "judge_redelivery L M tag_prefix scs readbacks strays partial failed =
     (case all_built (map (judge_scenario L M failed (readbacks_get readbacks)) scs) of
        Inl e \<Rightarrow> Inl e
      | Inr graded_scs \<Rightarrow>
          (let searched = (strays \<noteq> None \<and> \<not> partial);
               results = (if searched then graded_scs
                 else map (\<lambda>r. r\<lparr>sx_strays_searched := False\<rparr>) graded_scs);
               summary = \<lparr>ss_searched = searched, ss_unattributed = None,
                 ss_unattributed_count = None, ss_other_runs = None, ss_other_runs_count = None,
                 ss_untagged_count = None, ss_not_searched_reason = None\<rparr>
           in case strays of
                None \<Rightarrow> Inr (results, summary)
              | Some ss \<Rightarrow>
                  (let sent_tags = concat (map scenario_tags scs);
                       own = map ticket_str (concat (map snd readbacks));
                       classes = classify_strays ss sent_tags own (scenario_family tag_prefix)
                   in case attribute_strays tag_prefix (sc_extra classes) results [] of
                        (results', unattributed) \<Rightarrow>
                          Inr (results', summary\<lparr>
                            ss_unattributed := Some (take MAX_ARTIFACT_STRAYS unattributed),
                            ss_unattributed_count := Some (length unattributed),
                            ss_other_runs := Some (take MAX_ARTIFACT_STRAYS (sc_other_runs classes)),
                            ss_other_runs_count := Some (length (sc_other_runs classes)),
                            ss_untagged_count := Some (sc_untagged classes)\<rparr>))))"

definition DELIVERY_SAFE :: string where "DELIVERY_SAFE = ''DELIVERY-SAFE''"
definition DELIVERY_BUGS :: string where "DELIVERY_BUGS = ''DELIVERY-BUGS''"

definition has_unattributed :: "stray_summary \<Rightarrow> bool" where
  "has_unattributed s \<longleftrightarrow> (case ss_unattributed s of None \<Rightarrow> False | Some us \<Rightarrow> us \<noteq> [])"

definition redelivery_verdict :: "scenario_result list \<Rightarrow> stray_summary \<Rightarrow> bool \<Rightarrow> string" where
  "redelivery_verdict results strays unsettled =
     (if has_unattributed strays \<or>
         list_ex (\<lambda>r. length (sx_missing r) < length (sx_findings r)) results
      then DELIVERY_BUGS
      else if unsettled then UNSETTLED
      else if list_ex (\<lambda>r. sx_findings r \<noteq> []) results then DELIVERY_BUGS
      else if list_ex (\<lambda>r. sx_not_checked r \<noteq> []) results then READBACK_FAILED
      else DELIVERY_SAFE)"

section \<open>The artifact and the run\<close>

record redelivery_summary =
  rd_scenarios :: nat
  rd_passed :: nat
  rd_failed :: nat
  rd_not_checked :: nat
  rd_deliveries :: nat
  rd_findings :: nat
  rd_strays_searched :: bool
  rd_strays :: stray_summary
  rd_unattributed_count :: nat
  rd_unsettled :: bool
  rd_verdict :: string
  rd_verdict_source :: verdict_source
  rd_readback :: "outcome option"

record redelivery_artifact =
  ra_summary :: redelivery_summary
  ra_scenarios :: "scenario_result list"

definition build_redelivery_artifact ::
  "scenario_result list \<Rightarrow> outcome option \<Rightarrow> stray_summary \<Rightarrow> redelivery_artifact"
where
  "build_redelivery_artifact results out strays =
     (let unattributed = (case ss_unattributed strays of None \<Rightarrow> [] | Some us \<Rightarrow> us);
          unsettled = readback_unsettled out;
          v = readback_verdict (redelivery_verdict results strays unsettled) out
      in \<lparr>ra_summary = \<lparr>rd_scenarios = length results,
            rd_passed = length (filter sx_passed results),
            rd_failed = length (filter (\<lambda>r. sx_findings r \<noteq> []) results) +
              (if unattributed \<noteq> [] then 1 else 0),
            rd_not_checked = length (filter (\<lambda>r. sx_not_checked r \<noteq> []) results),
            rd_deliveries = sum_list (map sx_deliveries results),
            rd_findings = sum_list (map (\<lambda>r. length (sx_findings r)) results) + length unattributed,
            rd_strays_searched = list_all sx_strays_searched results,
            rd_strays = strays,
            rd_unattributed_count = (case ss_unattributed_count strays of
              None \<Rightarrow> length unattributed | Some n \<Rightarrow> n),
            rd_unsettled = unsettled, rd_verdict = fst v, rd_verdict_source = snd v,
            rd_readback = out\<rparr>,
          ra_scenarios = results\<rparr>)"

definition redelivery_judge ::
  "pylib \<Rightarrow> match_modes \<Rightarrow> string \<Rightarrow> readback list option \<times> stray_reason option \<times> bool \<Rightarrow>
     scenario list \<Rightarrow> outcome \<Rightarrow> redelivery_artifact executed"
where
  "redelivery_judge L M tag_prefix search scs out =
     (case search of (strays, reason, partial) \<Rightarrow>
       (case judge_redelivery L M tag_prefix scs (ro_readbacks out) strays partial
               (readback_failed (Some out)) of
          Inl e \<Rightarrow> Raises
        | Inr (results, hunt) \<Rightarrow>
            (let a = build_redelivery_artifact results (Some out) (hunt\<lparr>ss_not_searched_reason :=
                   if ss_searched hunt then None else reason\<rparr>)
             in Exits (if rd_verdict (ra_summary a) = DELIVERY_SAFE then EXIT_OK else EXIT_MISMATCH)
                  (Some a))))"

record redelivery_params = run_params +
  dp_scenarios :: "string list option"
  dp_retry_after :: seconds

definition redelivery_execute ::
  "('w, 'q) env \<Rightarrow> redelivery_params \<Rightarrow> 'w \<Rightarrow> (redelivery_artifact executed \<times> 'w) option"
where
  "redelivery_execute E P w =
     (case build_scenarios (en_corpus E (rp_seed P)) (rp_seed P) (int (rp_count P))
             (rp_tag_prefix P) (dp_retry_after P) (dp_scenarios P) of
        Inl e \<Rightarrow> Some (Raises, w)
      | Inr scs \<Rightarrow>
      (let ds = concat (map sn_deliveries scs); M = rp_modes P in
      case require_synthetic (en_net E) (map dl_email ds) of
        Inl e \<Rightarrow> Some (Exits EXIT_REFUSED None, w)
      | Inr _ \<Rightarrow>
      (case validate_match_modes (mm_subject M) (mm_attachment M) of
        Inl e \<Rightarrow> Some (Exits EXIT_REFUSED None, w)
      | Inr _ \<Rightarrow>
      (case resolve_target (en_net E) (rp_target P) (en_config E) (rp_allow_public P) [] of
        Inl e \<Rightarrow> Some (Exits EXIT_REFUSED None, w)
      | Inr target \<Rightarrow>
      (case en_prepare E w of
        (Inl e, w1) \<Rightarrow> Some (Exits EXIT_REFUSED None, w1)
      | (Inr b, w1) \<Rightarrow>
      (let tags = nub (concat (map scenario_tags scs));
           ps = readback_poll_settings (length tags) (Some (rp_readback P)) (rp_quiet_window P)
                  (rp_max_wait P) (rp_poll_interval P);
           A = \<lparr>pa_timing = en_timing E, pa_source = bt_source b, pa_repr = en_repr E,
                pa_quiet_window = rp_quiet_window P, pa_max_wait = ps_max_wait ps,
                pa_poll_interval = rp_poll_interval P\<rparr> in
      case send_scenarios (en_timing E) (en_client E (rt_url target))
             (en_build E (rt_format_name target)) scs (rp_rate P) w1 of
        None \<Rightarrow> None
      | Some (Inl e, w2) \<Rightarrow> Some (Exits EXIT_REFUSED None, bt_close b w2)
      | Some (Inr sent, w2) \<Rightarrow>
      (case read_back_all A (map sm_probe sent) w2 of
        None \<Rightarrow> None
      | Some (Inl e, w3) \<Rightarrow> Some (Exits EXIT_REFUSED None, bt_close b w3)
      | Some (Inr out, w3) \<Rightarrow>
      (case enumerate_store b w3 of (search, w4) \<Rightarrow>
         Some (redelivery_judge (en_lib E) M (rp_tag_prefix P) search scs out, bt_close b w4)))))))))"

section \<open>What judging one scenario finds\<close>

definition message_of :: "delivery \<Rightarrow> sent_message" where
  "message_of d = \<lparr>sm_index = 0, sm_record_id = dl_record_id d, sm_tag = dl_tag d,
     sm_email = dl_email d, sm_probe = probe_for (dl_email d) (dl_tag d) (dl_record_id d) [],
     sm_result = never_sent\<rparr>"

lemma message_of_simps [simp]:
  "sm_tag (message_of d) = dl_tag d" "sm_email (message_of d) = dl_email d"
  "sm_record_id (message_of d) = dl_record_id d"
  by (simp_all add: message_of_def)

text \<open>The first record of every tag that has one.\<close>

definition first_of :: "(string \<Rightarrow> readback list) \<Rightarrow> string list \<Rightarrow> string \<rightharpoonup> readback" where
  "first_of f tags = (\<lambda>t. if t \<in> set tags \<and> f t \<noteq> [] then Some (hd (f t)) else None)"

definition content_findings ::
  "pylib \<Rightarrow> match_modes \<Rightarrow> bool \<Rightarrow> (string \<Rightarrow> readback list) \<Rightarrow> scenario \<Rightarrow> string \<Rightarrow> finding list"
where
  "content_findings L M failed f sc tag =
     (if f tag = [] then (if failed then [] else [NotHeld tag])
      else (if 1 < length (f tag)
            then [DuplicateTickets tag (length (f tag)) (map ticket_str (f tag))] else []) @
        map (\<lambda>(n, dt). ContentMismatch n dt)
          (mismatch_strings (graded L M f (message_of (the (delivery_for sc tag))))))"

definition thread_findings :: "scenario \<Rightarrow> (string \<rightharpoonup> readback) \<Rightarrow> string \<Rightarrow> finding list" where
  "thread_findings sc first tag =
     (case parent_of sc tag of None \<Rightarrow> []
      | Some parent \<Rightarrow> map (\<lambda>c. ThreadBroken tag (cr_detail c))
          (filter (\<lambda>c. cr_passed c = Some False) (thread_checks sc first tag parent)))"

lemma judge_content_eq:
  assumes "modes_ok M" "delivery_for sc tag = Some d"
  shows "\<exists>result'. judge_content L M failed f sc tag (result, first) =
      Inr (result', if f tag = [] then first else first(tag \<mapsto> hd (f tag))) \<and>
    sx_name result' = sx_name result \<and> sx_strays result' = sx_strays result \<and>
    sx_findings result' = sx_findings result @ content_findings L M failed f sc tag \<and>
    sx_missing result' = sx_missing result @ (if f tag = [] \<and> \<not> failed then [tag] else []) \<and>
    sx_not_checked result' = sx_not_checked result @ (if f tag = [] \<and> failed then [tag] else [])"
proof -
  obtain x where x: "expectations_for M (dl_email d) = Inr x"
    using expectations_for_ok [OF assms(1)] by blast
  moreover have "dl_tag d = tag" using delivery_for_Some [OF assms(2)] by blast
  ultimately have "evaluate_sequence L (f tag) x (dl_record_id d) tag = graded L M f (message_of d)"
    by (simp add: graded_def)
  with x assms(2) show ?thesis
    by (cases "f tag") (auto simp: judge_content_def content_findings_def Let_def)
qed

lemma each_content_eq:
  assumes "modes_ok M" "\<forall>t \<in> set tags. delivery_for sc t \<noteq> None"
  shows "\<exists>result'. each_content L M failed f sc tags (result, first) =
      Inr (result', \<lambda>t. if t \<in> set tags \<and> f t \<noteq> [] then Some (hd (f t)) else first t) \<and>
    sx_name result' = sx_name result \<and> sx_strays result' = sx_strays result \<and>
    sx_findings result' = sx_findings result @ concat (map (content_findings L M failed f sc) tags) \<and>
    sx_missing result' = sx_missing result @ (if failed then [] else filter (\<lambda>t. f t = []) tags) \<and>
    sx_not_checked result' = sx_not_checked result @ (if failed then filter (\<lambda>t. f t = []) tags else [])"
  using assms(2)
proof (induction tags arbitrary: result first)
  case (Cons tag tags)
  then obtain d where d: "delivery_for sc tag = Some d" by auto
  obtain r1 where r1: "judge_content L M failed f sc tag (result, first) =
      Inr (r1, if f tag = [] then first else first(tag \<mapsto> hd (f tag)))"
    "sx_name r1 = sx_name result" "sx_strays r1 = sx_strays result"
    "sx_findings r1 = sx_findings result @ content_findings L M failed f sc tag"
    "sx_missing r1 = sx_missing result @ (if f tag = [] \<and> \<not> failed then [tag] else [])"
    "sx_not_checked r1 = sx_not_checked result @ (if f tag = [] \<and> failed then [tag] else [])"
    using judge_content_eq [OF assms(1) d] by blast
  let ?first = "if f tag = [] then first else first(tag \<mapsto> hd (f tag))"
  have first: "(\<lambda>t. if t \<in> set tags \<and> f t \<noteq> [] then Some (hd (f t)) else ?first t) =
      (\<lambda>t. if t \<in> set (tag # tags) \<and> f t \<noteq> [] then Some (hd (f t)) else first t)"
    by auto
  from Cons.IH [of r1 ?first, unfolded first] Cons.prems r1 show ?case by auto
qed (auto simp: fun_eq_iff)

lemma each_thread_eq:
  assumes "\<forall>t \<in> set tags. \<forall>d. delivery_for sc t = Some d \<longrightarrow> is_reply d \<longrightarrow> parent_of sc t \<noteq> None"
  shows "\<exists>result'. each_thread sc first tags result = Inr result' \<and>
    sx_name result' = sx_name result \<and> sx_strays result' = sx_strays result \<and>
    sx_missing result' = sx_missing result \<and> sx_not_checked result' = sx_not_checked result \<and>
    sx_findings result' = sx_findings result @ concat (map (thread_findings sc first) tags)"
  using assms
proof (induction tags arbitrary: result)
  case (Cons tag tags)
  show ?case
  proof (cases "parent_of sc tag")
    case None
    with Cons.prems have "thread_findings sc first tag = []"
      "\<And>d. delivery_for sc tag = Some d \<Longrightarrow> \<not> is_reply d"
      by (auto simp: thread_findings_def)
    with Cons show ?thesis by (cases "delivery_for sc tag") auto
  next
    case (Some parent)
    then obtain d where "delivery_for sc tag = Some d" "is_reply d"
      by (auto simp: parent_of_def is_reply_def split: option.splits)
    let ?cs = "thread_checks sc first tag parent"
    let ?r = "result\<lparr>sx_findings := sx_findings result @ map (\<lambda>c. ThreadBroken tag (cr_detail c))
        (filter (\<lambda>c. cr_passed c = Some False) ?cs),
      sx_records := extend_checks (sx_records result) tag ?cs\<rparr>"
    have found: "sx_findings ?r = sx_findings result @ thread_findings sc first tag"
      by (simp add: thread_findings_def Some)
    have "each_thread sc first (tag # tags) result = each_thread sc first tags ?r"
      using Some \<open>delivery_for sc tag = Some d\<close> \<open>is_reply d\<close> by (simp add: Let_def)
    with Cons.IH [of ?r] Cons.prems found show ?thesis by simp
  qed
qed simp

text \<open>A plan whose replies answer messages it delivers.\<close>

definition plan_ok :: "scenario \<Rightarrow> bool" where
  "plan_ok sc \<longleftrightarrow> (\<forall>d \<in> set (sn_deliveries sc). is_reply d \<longrightarrow>
     (\<exists>par \<in> set (sn_deliveries sc). dl_in_reply_to_tag d = Some (dl_tag par)))"

lemma scenario_tags_set [simp]: "set (scenario_tags sc) = dl_tag ` set (sn_deliveries sc)"
  by (simp add: scenario_tags_def)

lemma delivery_for_ex: "tag \<in> set (scenario_tags sc) \<Longrightarrow> delivery_for sc tag \<noteq> None"
  by (auto simp: delivery_for_def find_None_iff)

lemma plan_parents:
  assumes "plan_ok sc" "delivery_for sc t = Some d" "is_reply d"
  shows "parent_of sc t \<noteq> None"
proof -
  from assms(1,3) delivery_for_Some [OF assms(2)]
  obtain par where "par \<in> set (sn_deliveries sc)" "dl_in_reply_to_tag d = Some (dl_tag par)"
    by (auto simp: plan_ok_def)
  with delivery_for_ex [of "dl_tag par" sc] assms(2) show ?thesis by (auto simp: parent_of_def)
qed

lemma judge_scenario_eq:
  assumes "modes_ok M" "plan_ok sc"
  shows "\<exists>r. judge_scenario L M failed f sc = Inr r \<and> sx_name r = sn_name sc \<and> sx_strays r = [] \<and>
    sx_missing r = (if failed then [] else filter (\<lambda>t. f t = []) (scenario_tags sc)) \<and>
    sx_not_checked r = (if failed then filter (\<lambda>t. f t = []) (scenario_tags sc) else []) \<and>
    sx_findings r = concat (map (content_findings L M failed f sc) (scenario_tags sc)) @
      concat (map (thread_findings sc (first_of f (scenario_tags sc))) (scenario_tags sc))"
proof -
  let ?tags = "scenario_tags sc"
  have "\<forall>t \<in> set ?tags. delivery_for sc t \<noteq> None" using delivery_for_ex by blast
  moreover have "\<forall>t \<in> set ?tags. \<forall>d. delivery_for sc t = Some d \<longrightarrow> is_reply d \<longrightarrow> parent_of sc t \<noteq> None"
    using plan_parents [OF assms(2)] by blast
  ultimately have c: "\<forall>t \<in> set ?tags. delivery_for sc t \<noteq> None"
    and t: "\<forall>t \<in> set ?tags. \<forall>d. delivery_for sc t = Some d \<longrightarrow> is_reply d \<longrightarrow> parent_of sc t \<noteq> None"
    by blast+
  define fresh where "fresh = \<lparr>sx_name = sn_name sc, sx_deliveries = length (sn_deliveries sc),
    sx_unique_messages = length ?tags, sx_strays_searched = True, sx_findings = [], sx_records = [],
    sx_missing = [], sx_not_checked = [], sx_strays = []\<rparr>"
  have first: "(\<lambda>t. if t \<in> set ?tags \<and> f t \<noteq> [] then Some (hd (f t)) else None) = first_of f ?tags"
    by (simp add: first_of_def)
  obtain r1 where r1: "each_content L M failed f sc ?tags (fresh, Map.empty) = Inr (r1, first_of f ?tags)"
    "sx_name r1 = sn_name sc" "sx_strays r1 = []"
    "sx_findings r1 = concat (map (content_findings L M failed f sc) ?tags)"
    "sx_missing r1 = (if failed then [] else filter (\<lambda>t. f t = []) ?tags)"
    "sx_not_checked r1 = (if failed then filter (\<lambda>t. f t = []) ?tags else [])"
    using each_content_eq [OF assms(1) c, of L failed f fresh Map.empty] first
    by (auto simp: fresh_def)
  obtain r where "each_thread sc (first_of f ?tags) ?tags r1 = Inr r"
    "sx_name r = sx_name r1" "sx_strays r = sx_strays r1" "sx_missing r = sx_missing r1"
    "sx_not_checked r = sx_not_checked r1"
    "sx_findings r = sx_findings r1 @ concat (map (thread_findings sc (first_of f ?tags)) ?tags)"
    using each_thread_eq [OF t, of "first_of f ?tags" r1] by blast
  with r1 show ?thesis by (simp add: judge_scenario_def Let_def fresh_def)
qed

text \<open>What a scenario has to look like in the store.\<close>

definition threads_kept :: "(string \<Rightarrow> readback list) \<Rightarrow> scenario \<Rightarrow> bool" where
  "threads_kept f sc \<longleftrightarrow> (\<forall>tag \<in> set (scenario_tags sc). \<forall>parent. parent_of sc tag = Some parent \<longrightarrow>
     (\<forall>c \<in> set (thread_checks sc (first_of f (scenario_tags sc)) tag parent). cr_passed c \<noteq> Some False))"

definition scenario_safe :: "pylib \<Rightarrow> match_modes \<Rightarrow> (string \<Rightarrow> readback list) \<Rightarrow> scenario \<Rightarrow> bool" where
  "scenario_safe L M f sc \<longleftrightarrow>
     (\<forall>tag \<in> set (scenario_tags sc). correct L M f (message_of (the (delivery_for sc tag)))) \<and>
     threads_kept f sc"

lemma tag_of_delivery: "tag \<in> set (scenario_tags sc) \<Longrightarrow> dl_tag (the (delivery_for sc tag)) = tag"
  using delivery_for_ex [of tag sc] by (auto dest: delivery_for_Some)

lemma content_findings_none:
  assumes "modes_ok M" "tag \<in> set (scenario_tags sc)"
  shows "content_findings L M failed f sc tag = [] \<longleftrightarrow>
    (failed \<and> f tag = []) \<or> correct L M f (message_of (the (delivery_for sc tag)))"
proof -
  let ?m = "message_of (the (delivery_for sc tag))"
  have m: "sm_tag ?m = tag" using tag_of_delivery [OF assms(2)] by simp
  have "mismatch_strings (graded L M f ?m) = [] \<longleftrightarrow> correct L M f ?m"
    using graded_passed [OF assms(1), of L f ?m] by (simp add: mismatch_strings_def vf_passed_def)
  moreover have "correct L M f ?m \<Longrightarrow> length (f tag) = 1"
    using correct_once [of L M f ?m] m by auto
  ultimately show ?thesis by (cases "f tag") (auto simp: content_findings_def)
qed

lemma thread_findings_none:
  "(\<forall>tag \<in> set (scenario_tags sc). thread_findings sc (first_of f (scenario_tags sc)) tag = []) \<longleftrightarrow>
     threads_kept f sc"
  by (auto simp: threads_kept_def thread_findings_def filter_empty_conv split: option.splits)

lemma judge_scenario_passed:
  assumes "modes_ok M" "plan_ok sc" "judge_scenario L M failed f sc = Inr r"
  shows "sx_passed r \<longleftrightarrow> scenario_safe L M f sc"
proof -
  from judge_scenario_eq [OF assms(1,2), of L failed f] assms(3)
  have n: "sx_not_checked r = (if failed then filter (\<lambda>t. f t = []) (scenario_tags sc) else [])"
    and s: "sx_findings r = concat (map (content_findings L M failed f sc) (scenario_tags sc)) @
      concat (map (thread_findings sc (first_of f (scenario_tags sc))) (scenario_tags sc))"
    by auto
  have "correct L M f (message_of (the (delivery_for sc tag))) \<Longrightarrow> f tag \<noteq> []"
    if "tag \<in> set (scenario_tags sc)" for tag
    using correct_once [of L M f "message_of (the (delivery_for sc tag))"] tag_of_delivery [OF that]
    by auto
  with content_findings_none [OF assms(1), of _ sc L failed f] thread_findings_none [of sc f]
  show ?thesis
    unfolding sx_passed_def n s scenario_safe_def by (auto simp: filter_empty_conv)
qed

section \<open>What attributing the strays finds\<close>

lemma owner_index_Some:
  assumes "owner_index results name = Some i"
  shows "i < length results \<and> sx_name (results ! i) = name"
proof -
  let ?is = "filter (\<lambda>i. sx_name (results ! i) = name) [0..<length results]"
  have "?is \<noteq> [] \<and> i = last ?is" using assms by (auto simp: owner_index_def split: list.splits)
  then have "i \<in> set ?is" using last_in_set by blast
  then show ?thesis by simp
qed

lemma attribute_strays_quiet:
  assumes "\<forall>r \<in> set results. sx_findings r = [] \<longrightarrow> sx_strays r = []"
    and "attribute_strays p extra results un = (results', un')"
  shows "(list_all (\<lambda>r. sx_findings r = []) results' \<and> un' = [] \<longleftrightarrow>
      list_all (\<lambda>r. sx_findings r = []) results \<and> un = [] \<and> extra = []) \<and>
    map sx_name results' = map sx_name results \<and>
    map sx_not_checked results' = map sx_not_checked results"
  using assms
proof (induction extra arbitrary: results un)
  case Nil
  then show ?case by auto
next
  case (Cons e extra)
  obtain tag ticket where e: "e = (tag, ticket)" by fastforce
  show ?case
  proof (cases "Option.bind (scenario_of_tag p tag) (owner_index results)")
    case None
    with Cons.prems have "attribute_strays p extra results (un @ [e]) = (results', un')" by (simp add: e)
    from Cons.IH [OF Cons.prems(1) this] show ?thesis by simp
  next
    case (Some i)
    then have i: "i < length results"
      by (auto simp: bind_eq_Some_conv dest: owner_index_Some)
    let ?r = "(results ! i)\<lparr>sx_strays := sx_strays (results ! i) @ [(tag, ticket)],
      sx_findings := sx_findings (results ! i) @ [NeverDelivered ticket tag]\<rparr>"
    let ?rs = "if length (sx_strays (results ! i)) < MAX_ARTIFACT_STRAYS then results[i := ?r] else results"
    have run: "attribute_strays p extra ?rs un = (results', un')"
      using Cons.prems(2) Some by (simp add: e)
    have inv: "\<forall>r \<in> set ?rs. sx_findings r = [] \<longrightarrow> sx_strays r = []"
      using Cons.prems(1) set_update_subset_insert [of results i ?r] by auto
    have "\<not> list_all (\<lambda>r. sx_findings r = []) ?rs"
    proof (cases "length (sx_strays (results ! i)) < MAX_ARTIFACT_STRAYS")
      case True
      have "?r \<in> set (results[i := ?r])" using i by (rule set_update_memI)
      then have "\<exists>r \<in> set (results[i := ?r]). sx_findings r \<noteq> []" by (rule rev_bexI) simp
      with True show ?thesis by (simp add: list_all_iff)
    next
      case False
      then have "sx_strays (results ! i) \<noteq> []" by (auto simp: MAX_ARTIFACT_STRAYS_def)
      with Cons.prems(1) nth_mem [OF i] have "\<exists>r \<in> set results. sx_findings r \<noteq> []" by blast
      with False show ?thesis by (simp add: list_all_iff)
    qed
    moreover have "map sx_name ?rs = map sx_name results"
      "map sx_not_checked ?rs = map sx_not_checked results"
      using i by (simp_all add: map_update list_update_same_conv)
    ultimately show ?thesis using Cons.IH [OF inv run] by auto
  qed
qed

definition no_family_strays ::
  "string \<Rightarrow> scenario list \<Rightarrow> (string \<times> readback list) list \<Rightarrow> readback list \<Rightarrow> bool"
where
  "no_family_strays p scs rb strays \<longleftrightarrow> (\<forall>r \<in> set strays.
     \<not> extra_record (concat (map scenario_tags scs)) (map ticket_str (concat (map snd rb)))
       (scenario_family p) r)"

lemma redelivery_verdict_safe:
  "redelivery_verdict results hunt unsettled = DELIVERY_SAFE \<longleftrightarrow>
     \<not> has_unattributed hunt \<and> \<not> unsettled \<and> list_all sx_passed results"
  by (auto simp: redelivery_verdict_def list_ex_iff list_all_iff sx_passed_def DELIVERY_SAFE_def
      DELIVERY_BUGS_def UNSETTLED_def READBACK_FAILED_def split: if_splits)

lemma judge_redelivery_eq:
  assumes "modes_ok M" "\<forall>sc \<in> set scs. plan_ok sc"
  shows "\<exists>results hunt. judge_redelivery L M p scs rb strays partial failed = Inr (results, hunt) \<and>
    (\<not> has_unattributed hunt \<and> list_all sx_passed results \<longleftrightarrow>
      (\<forall>sc \<in> set scs. scenario_safe L M (readbacks_get rb) sc) \<and>
      (\<forall>ss. strays = Some ss \<longrightarrow> no_family_strays p scs rb ss))"
proof -
  let ?f = "readbacks_get rb"
  have "\<forall>sc \<in> set scs. \<exists>r. judge_scenario L M failed ?f sc = Inr r \<and> sx_strays r = []"
    using judge_scenario_eq [OF assms(1), of _ L failed ?f] assms(2) by blast
  then obtain g where g: "\<And>sc. sc \<in> set scs \<Longrightarrow> judge_scenario L M failed ?f sc = Inr (g sc) \<and> sx_strays (g sc) = []"
    by metis
  have built: "all_built (map (judge_scenario L M failed ?f) scs) = Inr (map g scs)"
    using g by (simp add: all_built_Inr)
  let ?s = "strays \<noteq> None \<and> \<not> partial"
  define results where "results = (if ?s then map g scs
    else map (\<lambda>r. r\<lparr>sx_strays_searched := False\<rparr>) (map g scs))"
  have fields: "map sx_findings results = map (sx_findings \<circ> g) scs"
    "map sx_not_checked results = map (sx_not_checked \<circ> g) scs"
    "map sx_strays results = map (sx_strays \<circ> g) scs"
    by (simp_all add: results_def)
  have strays: "\<forall>r \<in> set results. sx_strays r = []"
    using g by (auto simp: results_def)
  have "list_all sx_passed results \<longleftrightarrow> list_all (\<lambda>r. sx_passed r) (map g scs)"
    by (auto simp: results_def list_all_iff sx_passed_def)
  also have "\<dots> \<longleftrightarrow> (\<forall>sc \<in> set scs. scenario_safe L M ?f sc)"
  proof -
    have "sx_passed (g sc) = scenario_safe L M ?f sc" if "sc \<in> set scs" for sc
      using judge_scenario_passed [OF assms(1), of sc L failed ?f "g sc"] assms(2) g that by blast
    then show ?thesis by (simp add: list_all_iff)
  qed
  finally have safe: "list_all sx_passed results \<longleftrightarrow> (\<forall>sc \<in> set scs. scenario_safe L M ?f sc)" .
  show ?thesis
  proof (cases strays)
    case None
    with safe show ?thesis
      by (simp add: judge_redelivery_def built results_def Let_def has_unattributed_def)
  next
    case (Some ss)
    define extra where "extra = sc_extra (classify_strays ss (concat (map scenario_tags scs))
      (map ticket_str (concat (map snd rb))) (scenario_family p))"
    obtain results' un where a: "attribute_strays p extra results [] = (results', un)" by fastforce
    have none: "extra = [] \<longleftrightarrow> no_family_strays p scs rb ss"
      by (simp add: extra_def classify_strays_lists no_family_strays_def filter_empty_conv)
    obtain hunt where j: "judge_redelivery L M p scs rb strays partial failed = Inr (results', hunt)"
      and h: "ss_unattributed hunt = Some (take MAX_ARTIFACT_STRAYS un)"
      using a unfolding extra_def results_def
      by (simp add: judge_redelivery_def built Some Let_def del: map_map)
    have "\<not> has_unattributed hunt \<longleftrightarrow> un = []" by (simp add: has_unattributed_def h take_cap del: take_eq_Nil)
    moreover note attribute_strays_quiet [OF _ a]
    moreover have "list_all sx_passed rs \<longleftrightarrow> list_all (\<lambda>r. sx_findings r = []) rs \<and>
        (\<forall>n \<in> set (map sx_not_checked rs). n = [])" for rs
      by (auto simp: list_all_iff sx_passed_def)
    ultimately have "\<not> has_unattributed hunt \<and> list_all sx_passed results' \<longleftrightarrow>
        list_all sx_passed results \<and> extra = []"
      using strays by metis
    with j safe none Some show ?thesis by blast
  qed
qed

lemma redelivery_judge_exit:
  assumes "modes_ok M" "\<forall>sc \<in> set scs. plan_ok sc"
  shows "\<exists>c a. redelivery_judge L M p (strays, reason, partial) scs out = Exits c (Some a) \<and>
    c \<in> {EXIT_OK, EXIT_FINDING} \<and> (c = EXIT_OK \<longleftrightarrow> rd_verdict (ra_summary a) = DELIVERY_SAFE) \<and>
    (c = EXIT_OK \<longleftrightarrow> ro_stable out \<and> \<not> ro_all_404 out \<and>
      (\<forall>sc \<in> set scs. scenario_safe L M (held out) sc) \<and>
      (\<forall>ss. strays = Some ss \<longrightarrow> no_family_strays p scs (ro_readbacks out) ss))"
proof -
  obtain results hunt where j: "judge_redelivery L M p scs (ro_readbacks out) strays partial
      (readback_failed (Some out)) = Inr (results, hunt)"
    and safe: "\<not> has_unattributed hunt \<and> list_all sx_passed results \<longleftrightarrow>
      (\<forall>sc \<in> set scs. scenario_safe L M (held out) sc) \<and>
      (\<forall>ss. strays = Some ss \<longrightarrow> no_family_strays p scs (ro_readbacks out) ss)"
    using judge_redelivery_eq [OF assms, of L p "ro_readbacks out" strays partial
      "readback_failed (Some out)"] by (auto simp: held_get)
  let ?h = "hunt\<lparr>ss_not_searched_reason := if ss_searched hunt then None else reason\<rparr>"
  let ?a = "build_redelivery_artifact results (Some out) ?h"
  have run: "redelivery_judge L M p (strays, reason, partial) scs out =
      Exits (if rd_verdict (ra_summary ?a) = DELIVERY_SAFE then EXIT_OK else EXIT_MISMATCH) (Some ?a)"
    by (simp add: redelivery_judge_def j Let_def)
  have un: "has_unattributed ?h = has_unattributed hunt" by (simp add: has_unattributed_def)
  have "rd_verdict (ra_summary ?a) = DELIVERY_SAFE \<longleftrightarrow> \<not> ro_failed out \<and> \<not> ro_unsettled out \<and>
      redelivery_verdict results ?h (readback_unsettled (Some out)) = DELIVERY_SAFE"
    by (auto simp: build_redelivery_artifact_def Let_def readback_verdict_def DELIVERY_SAFE_def
        READBACK_FAILED_def UNSETTLED_def)
  then have "rd_verdict (ra_summary ?a) = DELIVERY_SAFE \<longleftrightarrow> ro_stable out \<and> \<not> ro_all_404 out \<and>
      \<not> has_unattributed hunt \<and> list_all sx_passed results"
    unfolding redelivery_verdict_safe un by (auto simp: readback_unsettled_def)
  then show ?thesis unfolding run using safe by (auto simp: exit_codes)
qed

text \<open>A plan as \<open>build_scenarios\<close> builds it delivers every message it replies to.\<close>

lemma built_plan_ok:
  assumes "build_scenarios corpus_of seed n p gap sel = Inr scs" "plain_id p" "sc \<in> set scs"
  shows "plan_ok sc"
proof -
  obtain names where "map (\<lambda>name. build_one (corpus_of (max (nat n) 3)) (nat n) seed p gap name) names =
      map Inr scs"
    using build_scenarios_Inr [OF assms(1)] by metis
  then have "Inr sc \<in> (\<lambda>name. build_one (corpus_of (max (nat n) 3)) (nat n) seed p gap name) ` set names"
    using assms(3) by (metis image_eqI list.set_map)
  then obtain name where "build_one (corpus_of (max (nat n) 3)) (nat n) seed p gap name = Inr sc" by auto
  from build_one_Inr [OF this assms(2)] show ?thesis by (auto simp: plan_ok_def)
qed

section \<open>What the sends do\<close>

text \<open>The moments of the requests, each at least its delivery's delay after the one before.\<close>

fun spaced :: "('w \<Rightarrow> seconds) \<Rightarrow> 'w \<Rightarrow> delivery list \<Rightarrow> 'w list \<Rightarrow> bool" where
  "spaced now w [] us \<longleftrightarrow> us = []"
| "spaced now w (d # ds) us \<longleftrightarrow>
     (case us of [] \<Rightarrow> False
      | u # us' \<Rightarrow> now w + max 0 (dl_delay_before d) \<le> now u \<and> spaced now u ds us')"

definition posted ::
  "'w timing \<Rightarrow> ('q \<Rightarrow> 'w \<Rightarrow> client_reply \<times> 'w) \<Rightarrow> (email \<Rightarrow> 'q) \<Rightarrow> delivery \<Rightarrow> sent_message \<Rightarrow> 'w \<Rightarrow> bool"
where
  "posted T client build d m u \<longleftrightarrow> sm_email m = dl_email d \<and> sm_tag m = dl_tag d \<and>
     sm_record_id m = dl_record_id d \<and> sm_probe m = probe_for (dl_email d) (dl_tag d) (dl_record_id d) [] \<and>
     sm_result m = fst (post T client build (dl_email d) u)"

lemma spaced_length: "spaced now w ds us \<Longrightarrow> length us = length ds"
  by (induction ds arbitrary: w us) (auto split: list.splits)

lemma spaced_later:
  "spaced now w ds us \<Longrightarrow> now w \<le> now w' \<Longrightarrow> now w0 \<le> now w \<Longrightarrow> spaced now w0 ds us"
  by (cases ds; cases us) auto

lemma spaced_from: "spaced now w ds us \<Longrightarrow> i < length ds \<Longrightarrow> now w + max 0 (dl_delay_before (ds ! i)) \<le> now (us ! i)"
proof (induction ds arbitrary: w us i)
  case (Cons d ds)
  then obtain u us' where us: "us = u # us'" "now w + max 0 (dl_delay_before d) \<le> now u" "spaced now u ds us'"
    by (auto split: list.splits)
  show ?case
  proof (cases i)
    case (Suc j)
    with Cons.IH [OF us(3), of j] Cons.prems(2) us(1,2) show ?thesis by simp
  qed (use us in simp)
qed simp

lemma spaced_between:
  "spaced now w ds us \<Longrightarrow> i < j \<Longrightarrow> j < length ds \<Longrightarrow>
     now (us ! i) + max 0 (dl_delay_before (ds ! j)) \<le> now (us ! j)"
proof (induction ds arbitrary: w us i j)
  case (Cons d ds)
  then obtain u us' where us: "us = u # us'" "spaced now u ds us'" by (auto split: list.splits)
  obtain j' where j: "j = Suc j'" using Cons.prems(2) by (cases j) auto
  show ?case
  proof (cases i)
    case 0
    with spaced_from [OF us(2), of j'] Cons.prems(3) us(1) j show ?thesis by simp
  next
    case (Suc i')
    with Cons.IH [OF us(2), of i' j'] Cons.prems(2,3) us(1) j show ?thesis by simp
  qed
qed simp

text \<open>The first delivery at which an earlier one's wait ended can only be later.\<close>

lemma spaced_waits:
  assumes "spaced now w ds us" "i < k" "k \<le> j" "j < length ds"
  shows "now (us ! i) + dl_delay_before (ds ! k) \<le> now (us ! j)"
proof -
  have "now (us ! i) + max 0 (dl_delay_before (ds ! k)) \<le> now (us ! k)"
    using spaced_between [OF assms(1,2)] assms(3,4) by simp
  moreover have "now (us ! k) \<le> now (us ! j)"
  proof (cases "k = j")
    case False
    with spaced_between [OF assms(1), of k j] assms(3,4) show ?thesis by simp
  qed simp
  ultimately show ?thesis by linarith
qed

lemma deliver_from_all:
  assumes "monotonic T now" "patient now client" "bucket_ok b" "1 \<le> bk_capacity b"
    and "bk_last_refill b \<le> now w"
  shows "\<exists>sent us b' w'. deliver_from T client build k ds b w = Some (Inr sent, b', w') \<and>
    map sm_index sent = [k..<k + length ds] \<and> spaced now w ds us \<and> now w \<le> now w' \<and>
    length sent = length ds \<and> (\<forall>i < length ds. posted T client build (ds ! i) (sent ! i) (us ! i))"
  using assms
proof (induction ds arbitrary: k b w)
  case (Cons d ds)
  define w0 where "w0 = (if 0 < dl_delay_before d then do_sleep T (dl_delay_before d) w else w)"
  have w0: "now w + max 0 (dl_delay_before d) \<le> now w0"
    using monotonic_sleep [OF Cons.prems(1), of "dl_delay_before d" w] by (simp add: w0_def)
  then have "bk_last_refill b \<le> now w0" using Cons.prems(5) by linarith
  then obtain b1 w1 where a: "acquire T 1 b w0 = Some (Inr (first_wait T 1 b w0), b1, w1)"
    and b1: "bucket_ok b1" "bk_capacity b1 = bk_capacity b" "bk_last_refill b1 \<le> now w1" "now w0 \<le> now w1"
    using acquire_one [OF Cons.prems(1,3,4)] by blast
  obtain r w2 where r: "post T client build (dl_email d) w1 = (r, w2)" by fastforce
  then have w2: "now w1 \<le> now w2"
    using post_patient [OF Cons.prems(1,2), of w1 build "dl_email d"] by simp
  then have "bk_last_refill b1 \<le> now w2" using b1(3) by simp
  then obtain sent us b' w' where *: "deliver_from T client build (Suc k) ds b1 w2 = Some (Inr sent, b', w')"
    "map sm_index sent = [Suc k..<Suc k + length ds]" "spaced now w2 ds us" "now w2 \<le> now w'"
    "length sent = length ds" "\<forall>i < length ds. posted T client build (ds ! i) (sent ! i) (us ! i)"
    using Cons.IH [OF Cons.prems(1,2) b1(1), of w2 "Suc k"] Cons.prems(4) b1(2) by auto
  let ?m = "\<lparr>sm_index = k, sm_record_id = dl_record_id d, sm_tag = dl_tag d, sm_email = dl_email d,
    sm_probe = probe_for (dl_email d) (dl_tag d) (dl_record_id d) [], sm_result = r\<rparr>"
  have "deliver_from T client build k (d # ds) b w = Some (Inr (?m # sent), b', w')"
    using * by (simp add: w0_def [symmetric] a r)
  moreover have "map sm_index (?m # sent) = [k..<k + length (d # ds)]"
    using *(2) by (simp add: upt_rec [of k] del: upt_Suc)
  moreover have "spaced now w (d # ds) (w1 # us)"
    using spaced_later [OF *(3) _ w2] *(4) w0 b1(4) by auto
  moreover have "now w \<le> now w'" using w0 b1(4) w2 *(4) by linarith
  moreover have "posted T client build ((d # ds) ! i) ((?m # sent) ! i) ((w1 # us) ! i)"
    if "i < length (d # ds)" for i
    using that *(6) r by (cases i) (auto simp: posted_def)
  ultimately show ?case using *(5) by (metis length_Cons)
qed simp

lemma send_scenario_all:
  assumes "monotonic T now" "patient now client" "0 < rate"
  shows "\<exists>sent us w'. send_scenario T client build sc rate w = Some (Inr sent, w') \<and>
    map sm_index sent = [0..<length (sn_deliveries sc)] \<and> spaced now w (sn_deliveries sc) us \<and>
    now w \<le> now w' \<and> length sent = length (sn_deliveries sc) \<and>
    (\<forall>i < length sent. posted T client build (sn_deliveries sc ! i) (sent ! i) (us ! i))"
proof -
  obtain t w1 where c: "read_clock T w = (t, w1)" by fastforce
  let ?b = "\<lparr>bk_rate = rate, bk_capacity = max rate 1, bk_tokens = max rate 1, bk_last_refill = t\<rparr>"
  note t = monotonic_clock [OF assms(1) c]
  have "bucket_ok ?b" using assms(3) by (auto simp: bucket_ok_def max_def)
  from deliver_from_all [OF assms(1,2) this, of w1 build 0 "sn_deliveries sc"] t(2)
  obtain sent us b' w' where *: "deliver_from T client build 0 (sn_deliveries sc) ?b w1 = Some (Inr sent, b', w')"
    "map sm_index sent = [0..<length (sn_deliveries sc)]" "spaced now w1 (sn_deliveries sc) us"
    "now w1 \<le> now w'" "length sent = length (sn_deliveries sc)"
    "\<forall>i < length (sn_deliveries sc). posted T client build (sn_deliveries sc ! i) (sent ! i) (us ! i)"
    by auto
  have "new_bucket T rate (max rate 1) w = (Inr ?b, w1)" using assms(3) by (simp add: new_bucket_def c)
  moreover have "spaced now w (sn_deliveries sc) us"
    using spaced_later [OF *(3,4)] t by auto
  ultimately show ?thesis using * t by (intro exI [of _ sent] exI [of _ us] exI [of _ w']) (simp add: send_scenario_def)
qed

text \<open>All of them: the messages of each scenario in its order.\<close>

definition carries :: "delivery \<Rightarrow> sent_message \<Rightarrow> bool" where
  "carries d m \<longleftrightarrow> sm_email m = dl_email d \<and> sm_tag m = dl_tag d \<and> sm_record_id m = dl_record_id d \<and>
     sm_probe m = probe_for (dl_email d) (dl_tag d) (dl_record_id d) []"

lemma send_scenarios_all:
  assumes "monotonic T now" "patient now client" "0 < rate"
  shows "\<exists>sent w'. send_scenarios T client build scs rate w = Some (Inr sent, w') \<and> now w \<le> now w' \<and>
    list_all2 carries (concat (map sn_deliveries scs)) sent"
proof (induction scs arbitrary: w)
  case (Cons sc scs)
  obtain sent us w1 where s: "send_scenario T client build sc rate w = Some (Inr sent, w1)"
    "now w \<le> now w1" "length sent = length (sn_deliveries sc)"
    "\<forall>i < length sent. posted T client build (sn_deliveries sc ! i) (sent ! i) (us ! i)"
    using send_scenario_all [OF assms, of build sc w] by blast
  obtain more w2 where m: "send_scenarios T client build scs rate w1 = Some (Inr more, w2)"
    "now w1 \<le> now w2" "list_all2 carries (concat (map sn_deliveries scs)) more"
    using Cons [of w1] by blast
  have "list_all2 carries (sn_deliveries sc) sent"
    using s(3,4) by (auto simp: list_all2_conv_all_nth posted_def carries_def)
  with m s show ?case by (auto intro: list_all2_appendI)
qed simp

section \<open>The threads of a built plan\<close>

lemma threaded_ids:
  assumes "threaded p seed i (Some (k, ks)) d"
  shows "map_of (em_headers (dl_email d)) ''In-Reply-To'' =
      Some (header_ids [build_chain_message_id (made p seed k)])"
    and "map_of (em_headers (dl_email d)) ''References'' =
      Some (header_ids (map (\<lambda>k. build_chain_message_id (made p seed k)) ks))"
  using assms by (simp_all add: threaded_def Let_def)

lemma threaded_basics:
  "threaded p seed i answers d \<Longrightarrow> dl_tag d = made p seed i \<and>
     dl_message_id d = build_chain_message_id (made p seed i) \<and>
     dl_in_reply_to_tag d = map_option (\<lambda>(k, ks). made p seed k) answers"
  by (simp add: threaded_def Let_def)

text \<open>What a reply says of its thread: the parent it names is delivered, and its two headers
  carry the parent's id and the ids of the whole ancestry.\<close>

definition announces_thread :: "scenario \<Rightarrow> string \<Rightarrow> delivery \<Rightarrow> delivery \<Rightarrow> bool" where
  "announces_thread sc tag d parent \<longleftrightarrow>
     plain_id (dl_message_id parent) \<and> dl_message_id parent \<in> set (ancestry_of sc tag) \<and>
     (\<forall>w \<in> set (ancestry_of sc tag). plain_id w) \<and>
     map_of (em_headers (dl_email d)) ''In-Reply-To'' = Some (header_ids [dl_message_id parent]) \<and>
     map_of (em_headers (dl_email d)) ''References'' = Some (header_ids (ancestry_of sc tag))"

lemma no_replies_no_parent:
  "\<forall>d \<in> set (sn_deliveries sc). dl_in_reply_to_tag d = None \<Longrightarrow> parent_of sc tag = None"
  by (auto simp: parent_of_def dest!: delivery_for_Some split: option.splits)

lemma reply_first_announces:
  assumes "plain_id p" and sc: "sc = \<lparr>sn_name = ReplyFirst, sn_deliveries = [a, b, r]\<rparr>"
    and t: "threaded p seed 1 (Some (0, [0])) a" "threaded p seed 2 (Some (0, [0])) b"
      "threaded p seed 0 None r"
    and d: "delivery_for sc tag = Some d" "parent_of sc tag = Some parent"
  shows "announces_thread sc tag d parent"
proof -
  let ?id = "build_chain_message_id (made p seed 0)"
  note b = t [THEN threaded_basics]
  have plain: "plain_id ?id" using assms(1) plain_chain_id plain_made by blast
  have "tag \<in> {made p seed 1, made p seed 2, made p seed 0}"
    using d(1) b by (auto simp: delivery_for_def sc split: if_splits)
  moreover have "tag \<noteq> made p seed 0"
    using d(2) b by (auto simp: parent_of_def delivery_for_def sc made_inj)
  ultimately have tag: "tag = made p seed 1 \<or> tag = made p seed 2" by blast
  then have "parent = r" "parent_of sc (dl_tag r) = None" "d = a \<or> d = b" "dl_tag r \<noteq> tag"
    using d b by (auto simp: parent_of_def delivery_for_def sc made_inj)
  then have "ancestry_of sc tag = [?id]"
    using d(2) b plain by (simp add: ancestry_of_def bare_plain)
  with \<open>parent = r\<close> \<open>d = a \<or> d = b\<close> b plain t(1,2) [THEN threaded_ids(1)] t(1,2) [THEN threaded_ids(2)]
  show ?thesis by (auto simp: announces_thread_def)
qed

lemma references_announces:
  assumes "plain_id p" and sc: "sc = \<lparr>sn_name = References, sn_deliveries = [r, a, b]\<rparr>"
    and t: "threaded p seed 0 None r" "threaded p seed 1 (Some (0, [0])) a"
      "threaded p seed 2 (Some (1, [0, 1])) b"
    and d: "delivery_for sc tag = Some d" "parent_of sc tag = Some parent"
  shows "announces_thread sc tag d parent"
proof -
  let ?id = "\<lambda>k. build_chain_message_id (made p seed k)"
  note b = t [THEN threaded_basics]
  have plain: "plain_id (?id k)" for k using assms(1) plain_chain_id plain_made by blast
  have par: "parent_of sc (made p seed 0) = None" "parent_of sc (made p seed 1) = Some r"
    "parent_of sc (made p seed 2) = Some a"
    "delivery_for sc (made p seed 1) = Some a" "delivery_for sc (made p seed 2) = Some b"
    using b by (auto simp: parent_of_def delivery_for_def sc made_inj)
  have "tag \<in> {made p seed 1, made p seed 2, made p seed 0}"
    using d(1) b by (auto simp: delivery_for_def sc split: if_splits)
  then consider "tag = made p seed 1" | "tag = made p seed 2" using d(2) par by auto
  then show ?thesis
  proof cases
    case 1
    then have "ancestry_of sc tag = [?id 0]" "parent = r" "d = a"
      using d par b plain by (auto simp: ancestry_of_def bare_plain made_inj)
    with b plain t(2) [THEN threaded_ids(1)] t(2) [THEN threaded_ids(2)] show ?thesis
      by (auto simp: announces_thread_def)
  next
    case 2
    then have "ancestry_of sc tag = [?id 0, ?id 1]" "parent = a" "d = b"
      using d par b plain by (auto simp: ancestry_of_def bare_plain made_inj)
    with b plain t(3) [THEN threaded_ids(1)] t(3) [THEN threaded_ids(2)] show ?thesis
      by (auto simp: announces_thread_def)
  qed
qed

lemma built_announces:
  assumes "plain_id p" "build_one corpus n seed p gap name = Inr sc"
    and d: "delivery_for sc tag = Some d" "parent_of sc tag = Some parent"
  shows "announces_thread sc tag d parent"
proof -
  let ?p = "scenario_tag_prefix p name"
  have p: "plain_id ?p" "?p \<noteq> []" using plain_prefix [OF assms(1)] by (auto simp: plain_id_def)
  have twice: False if "repeat_twice (take n corpus) seed ?p g = Inr ds" "sn_deliveries sc = ds" for g ds
    using repeat_twice_deliveries [OF p(2) that(1)] that(2) no_replies_no_parent [of sc tag] d(2) by force
  note defs = build_one_def build_duplicate_def build_slow_retry_def Let_def
  show ?thesis
  proof (cases name)
    case Duplicate
    with assms(2) obtain ds where "repeat_twice (take n corpus) seed ?p 0 = Inr ds" "sn_deliveries sc = ds"
      by (auto simp: defs split: sum.splits)
    with twice show ?thesis by blast
  next
    case SlowRetry
    with assms(2) obtain ds where "repeat_twice (take n corpus) seed ?p gap = Inr ds" "sn_deliveries sc = ds"
      by (auto simp: defs split: sum.splits if_splits)
    with twice show ?thesis by blast
  next
    case ReplyFirst
    with assms(2) have b: "build_reply_first corpus seed ?p = Inr sc" by (simp add: defs)
    then have "3 \<le> length corpus" by (simp add: build_reply_first_def split: if_splits)
    from reply_first_built [OF p(1) this, of seed] b
    obtain x y z where "sc = \<lparr>sn_name = ReplyFirst, sn_deliveries = [x, y, z]\<rparr>"
      "threaded ?p seed 1 (Some (0, [0])) x" "threaded ?p seed 2 (Some (0, [0])) y"
      "threaded ?p seed 0 None z" by auto
    then show ?thesis using reply_first_announces [OF p(1)] d by blast
  next
    case References
    with assms(2) have b: "build_references corpus seed ?p = Inr sc" by (simp add: defs)
    then have "3 \<le> length corpus" by (simp add: build_references_def split: if_splits)
    from references_built [OF p(1) this, of seed] b
    obtain x y z where "sc = \<lparr>sn_name = References, sn_deliveries = [x, y, z]\<rparr>"
      "threaded ?p seed 0 None x" "threaded ?p seed 1 (Some (0, [0])) y"
      "threaded ?p seed 2 (Some (1, [0, 1])) z" by auto
    then show ?thesis using references_announces [OF p(1)] d by blast
  qed
qed

lemma ids_of_header:
  "\<forall>w \<in> set ws. plain_id w \<Longrightarrow> set (ids_of (Some (header_ids ws))) = set ws"
  using header_tokens(3) [of ws] by (simp add: ids_of_def)

lemma ids_of_plain: "plain_id m \<Longrightarrow> set (ids_of (Some m)) = {m}"
  using bare_plain [of m] plain_id_no_space [of m]
  by (auto simp: ids_of_def one_id set_message_id_tokens_bare)

lemma tokens_of_plain:
  assumes "\<forall>w \<in> set ws. plain_id w"
  shows "set (message_id_tokens ws) = set ws"
proof -
  have "concat (map split_ws ws) = ws"
    using assms by (induction ws) (simp_all add: one_id)
  moreover have "\<forall>w \<in> set ws. bare w = w \<and> w \<noteq> []" using assms bare_plain plain_id_no_space by blast
  ultimately show ?thesis unfolding set_message_id_tokens_bare by force
qed

section \<open>Whose stray it is\<close>

lemma scenario_identity_inj: "scenario_tag_prefix p n = scenario_tag_prefix p m \<longleftrightarrow> n = m"
  by (cases n; cases m) (simp_all add: scenario_tag_prefix_def)

lemma find_scenario: "find (\<lambda>m. scenario_tag_prefix p m = scenario_tag_prefix p n) SCENARIOS = Some n"
  unfolding scenario_identity_inj by (cases n) (simp_all add: SCENARIOS_def)

lemma family_no_dash:
  assumes "q \<in> set (scenario_family p)"
  shows "q \<noteq> scenario_tag_prefix p n @ ''-''" "q @ ''-'' \<noteq> scenario_tag_prefix p n"
proof -
  have q: "q = p \<or> (\<exists>m. q = p @ ''-'' @ SCENARIO_IDENTITY m)"
    using assms by (auto simp: scenario_family_def scenario_tag_prefix_def)
  have l: "last (SCENARIO_IDENTITY m) \<noteq> CHR ''-''" "SCENARIO_IDENTITY m \<noteq> []" for m
    by (cases m; simp)+
  show "q \<noteq> scenario_tag_prefix p n @ ''-''"
  proof
    assume h: "q = scenario_tag_prefix p n @ ''-''"
    then have "length p < length q" by (simp add: scenario_tag_prefix_def)
    with q obtain m where "q = p @ ''-'' @ SCENARIO_IDENTITY m" by auto
    then have "last q \<noteq> CHR ''-''" using l by simp
    with h show False by simp
  qed
  show "q @ ''-'' \<noteq> scenario_tag_prefix p n"
  proof
    assume h: "q @ ''-'' = scenario_tag_prefix p n"
    have "last (scenario_tag_prefix p n) = last (SCENARIO_IDENTITY n)"
      using l(2) [of n] by (simp add: scenario_tag_prefix_def)
    with l(1) [of n] h show False by (metis last_snoc)
  qed
qed

lemma minted_by_scenario:
  assumes "make_tag (scenario_tag_prefix p n) s i = Inr t"
  shows "minted_by t (scenario_family p) = Some (scenario_tag_prefix p n)"
proof -
  let ?q = "scenario_tag_prefix p n"
  have q: "?q \<in> set (scenario_family p)" "?q \<noteq> []"
    by (cases n; simp add: scenario_family_def SCENARIOS_def scenario_tag_prefix_def)+
  have only: "minted_under t q \<longleftrightarrow> q = ?q" if "q \<in> set (scenario_family p)" for q
    using minted_under_made [OF assms, of q] family_no_dash [OF that, of n] by auto
  let ?ps = "sort_key (\<lambda>p. - int (length p)) (prefixes_of (scenario_family p))"
  have "find (minted_under t) ?ps \<noteq> None"
    using q only by (auto simp: find_None_iff prefixes_of_def)
  then obtain q where f: "find (minted_under t) ?ps = Some q" by blast
  then have "minted_under t q" "q \<in> set ?ps" by (auto simp only: find_Some_iff nth_mem)
  then have "q = ?q" using only by (auto simp: prefixes_of_def)
  with f show ?thesis by (simp add: minted_by_def)
qed

lemma scenario_of_own_tag:
  "make_tag (scenario_tag_prefix p n) s i = Inr t \<Longrightarrow> scenario_of_tag p t = Some n"
  by (simp add: scenario_of_tag_def minted_by_scenario find_scenario)

section \<open>Properties\<close>

lemma built_tags:
  assumes "build_scenarios corpus_of seed n p gap sel = Inr scs" "plain_id p" "sc \<in> set scs"
    "t \<in> set (scenario_tags sc)"
  shows "\<exists>i. make_tag (scenario_tag_prefix p (sn_name sc)) seed i = Inr t"
proof -
  obtain names where "map (\<lambda>name. build_one (corpus_of (max (nat n) 3)) (nat n) seed p gap name) names =
      map Inr scs"
    using build_scenarios_Inr [OF assms(1)] by metis
  then have "Inr sc \<in> (\<lambda>name. build_one (corpus_of (max (nat n) 3)) (nat n) seed p gap name) ` set names"
    using assms(3) by (metis image_eqI list.set_map)
  then obtain name where b: "build_one (corpus_of (max (nat n) 3)) (nat n) seed p gap name = Inr sc" by auto
  then have "sn_name sc = name" "minted_plan (scenario_tag_prefix p name) seed sc"
    using build_one_Inr [OF b assms(2)] by auto
  moreover obtain d where "d \<in> set (sn_deliveries sc)" "dl_tag d = t" using assms(4) by auto
  moreover have "scenario_tag_prefix p name \<noteq> []" by (simp add: scenario_tag_prefix_def)
  ultimately show ?thesis using make_tag_made by (metis minted_plan_def)
qed

text \<open>C4 (DELIVERY-SAFE means one right record each, threads kept, nothing extra). For a plan as
  it is built, with valid match modes, the judgement exits 0 or 3, and 0 exactly when the
  verdict is DELIVERY-SAFE, which is exactly when the readback settled and was not all 404,
  every message of every scenario has one live, correct record however often it was
  delivered, no reply's threading check fails, and the enumerated store, if there is one,
  holds no record of the run's family that nobody sent.\<close>

theorem delivery_safe_iff:
  assumes "modes_ok M" "plain_id p" "build_scenarios corpus_of seed n p gap sel = Inr scs"
  shows "\<exists>c a. redelivery_judge L M p (strays, reason, partial) scs out = Exits c (Some a) \<and>
    c \<in> {EXIT_OK, EXIT_FINDING} \<and> (c = EXIT_OK \<longleftrightarrow> rd_verdict (ra_summary a) = DELIVERY_SAFE) \<and>
    (c = EXIT_OK \<longleftrightarrow> ro_stable out \<and> \<not> ro_all_404 out \<and>
      (\<forall>sc \<in> set scs. scenario_safe L M (held out) sc) \<and>
      (\<forall>ss. strays = Some ss \<longrightarrow> no_family_strays p scs (ro_readbacks out) ss))"
proof (rule redelivery_judge_exit [OF assms(1)])
  show "\<forall>sc \<in> set scs. plan_ok sc" using built_plan_ok [OF assms(3,2)] by blast
qed

text \<open>The messages a plan is answerable for, for the contract of the exit code.\<close>

definition plan_messages :: "scenario list \<Rightarrow> sent_message list" where
  "plan_messages scs = concat (map (\<lambda>sc. map (\<lambda>t. message_of (the (delivery_for sc t)))
     (scenario_tags sc)) scs)"

interpretation redelivery_gate: exit_gate
  "\<lambda>M scs out. code_of (redelivery_judge L M p search scs out)" plan_messages
  "\<lambda>scs. \<forall>sc \<in> set scs. plan_ok sc" L for L p search
proof unfold_locales
  fix M scs out
  assume ok: "modes_ok M" "\<forall>sc \<in> set scs. plan_ok sc"
  obtain strays reason partial where s: "search = (strays, reason, partial)" by (cases search)
  obtain c a where c: "redelivery_judge L M p search scs out = Exits c (Some a)" "c \<in> {EXIT_OK, EXIT_FINDING}"
    "c = EXIT_OK \<longrightarrow> ro_stable out \<and> \<not> ro_all_404 out \<and> (\<forall>sc \<in> set scs. scenario_safe L M (held out) sc)"
    using redelivery_judge_exit [OF ok, of L p strays reason partial out] s by metis
  from c(1,2) show "code_of (redelivery_judge L M p search scs out) \<in> {Some EXIT_OK, Some EXIT_FINDING}"
    by (auto simp: code_of_def)
  assume "code_of (redelivery_judge L M p search scs out) = Some EXIT_OK"
  with c(1,3) show "ro_stable out \<and> \<not> ro_all_404 out \<and> (\<forall>m \<in> set (plan_messages scs). correct L M (held out) m)"
    by (auto simp: code_of_def scenario_safe_def plan_messages_def)
qed

text \<open>A duplicate ticket is never safe. A message of a built plan the store holds twice, or
  not at all, makes \<open>redeliver\<close> exit 3, whatever else it holds.\<close>

theorem redelivered_duplicate_is_a_finding:
  assumes "modes_ok M" "plain_id p" "build_scenarios corpus_of seed n p gap sel = Inr scs"
    and "sc \<in> set scs" "t \<in> set (scenario_tags sc)" "length (held out t) \<noteq> 1"
  shows "code_of (redelivery_judge L M p search scs out) = Some EXIT_FINDING"
proof -
  let ?m = "message_of (the (delivery_for sc t))"
  have m: "?m \<in> set (plan_messages scs)" using assms(4,5) by (auto simp: plan_messages_def)
  have "sm_tag ?m = t" using tag_of_delivery [OF assms(5)] by simp
  with assms(6) have "length (held out (sm_tag ?m)) \<noteq> 1" by (simp only: not_False_eq_True)
  moreover have "\<forall>sc \<in> set scs. plan_ok sc" using built_plan_ok [OF assms(3,2)] by blast
  ultimately show ?thesis using redelivery_gate.not_once_is_a_finding [OF assms(1) _ m] by blast
qed

text \<open>A tag names its scenario. A tag minted under a scenario's prefix is attributed to that
  scenario, whatever the seed and the index, among the run's own prefix and all scenarios'.
  So every tag of a built plan is attributed to the scenario it was built for, and no
  scenario of another name sends it.\<close>

theorem tag_names_its_scenario:
  assumes "build_scenarios corpus_of seed n p gap sel = Inr scs" "plain_id p"
  shows "(\<forall>name s i t. make_tag (scenario_tag_prefix p name) s i = Inr t \<longrightarrow>
      scenario_of_tag p t = Some name) \<and>
    (\<forall>sc \<in> set scs. \<forall>t \<in> set (scenario_tags sc). scenario_of_tag p t = Some (sn_name sc) \<and>
      (\<forall>sc' \<in> set scs. t \<in> set (scenario_tags sc') \<longrightarrow> sn_name sc' = sn_name sc))"
proof (intro conjI ballI allI impI)
  fix sc t assume sc: "sc \<in> set scs" "t \<in> set (scenario_tags sc)"
  from built_tags [OF assms sc] show own: "scenario_of_tag p t = Some (sn_name sc)"
    using scenario_of_own_tag by blast
  fix sc' assume "sc' \<in> set scs" "t \<in> set (scenario_tags sc')"
  then have "scenario_of_tag p t = Some (sn_name sc')"
    using built_tags [OF assms] scenario_of_own_tag by blast
  with own show "sn_name sc' = sn_name sc" by simp
qed (rule scenario_of_own_tag)


text \<open>C8 (a slow retry is the same message, late enough). Under a monotonic clock and a client
  that does not turn it back, the slow-retry scenario sends every message and then every
  message again: the i-th retry has the payload, tag and id of the i-th original, and is
  posted at least \<open>retry_after\<close> after the original was.\<close>

theorem slow_retry_late_enough:
  assumes T: "monotonic T now" "patient now client" "0 < rate"
    and "p \<noteq> []" "0 < gap" "build_slow_retry corpus seed p gap = Inr sc"
  shows "\<exists>sent us w'. send_scenario T client build sc rate w = Some (Inr sent, w') \<and>
    length sent = 2 * length corpus \<and>
    (\<forall>i < length corpus. let a = sent ! i; b = sent ! (length corpus + i) in
      sm_tag a = made p seed i \<and> sm_tag b = sm_tag a \<and> sm_email b = sm_email a \<and>
      sm_record_id b = sm_record_id a \<and>
      sm_result a = fst (post T client build (sm_email a) (us ! i)) \<and>
      sm_result b = fst (post T client build (sm_email b) (us ! (length corpus + i))) \<and>
      now (us ! i) + gap \<le> now (us ! (length corpus + i)))"
proof -
  define os where "os = map2 (original seed p) corpus [0..<length corpus]"
  let ?n = "length corpus"
  let ?late = "\<lambda>os. case os of [] \<Rightarrow> [] | d # ds \<Rightarrow> d\<lparr>dl_delay_before := gap\<rparr> # ds"
  have len: "length os = ?n" by (simp add: os_def)
  have o: "os ! i = original seed p (corpus ! i) i" if "i < ?n" for i
    using that by (simp add: os_def)
  have "repeat_twice corpus seed p gap = Inr (os @ ?late os)"
    unfolding repeat_twice_eq [OF assms(4)] os_def Let_def using assms(5) by simp
  then have ds: "sn_deliveries sc = os @ ?late os"
    using assms(5,6) by (auto simp: build_slow_retry_def)
  have ll: "length (?late os) = ?n" using len by (cases os) auto
  have late: "dl_tag (?late os ! i) = dl_tag (os ! i)" "dl_email (?late os ! i) = dl_email (os ! i)"
    "dl_record_id (?late os ! i) = dl_record_id (os ! i)" for i
    by (cases os; cases i; simp)+
  obtain sent us w' where s: "send_scenario T client build sc rate w = Some (Inr sent, w')"
    "spaced now w (sn_deliveries sc) us" "length sent = length (sn_deliveries sc)"
    "\<forall>i < length sent. posted T client build (sn_deliveries sc ! i) (sent ! i) (us ! i)"
    using send_scenario_all [OF T, of build sc w] by blast
  have len2: "length (sn_deliveries sc) = 2 * ?n" using ll len by (simp add: ds)
  have "let a = sent ! i; b = sent ! (?n + i) in sm_tag a = made p seed i \<and> sm_tag b = sm_tag a \<and>
      sm_email b = sm_email a \<and> sm_record_id b = sm_record_id a \<and>
      sm_result a = fst (post T client build (sm_email a) (us ! i)) \<and>
      sm_result b = fst (post T client build (sm_email b) (us ! (?n + i))) \<and>
      now (us ! i) + gap \<le> now (us ! (?n + i))" if i: "i < ?n" for i
  proof -
    have at: "sn_deliveries sc ! i = os ! i" "sn_deliveries sc ! (?n + i) = ?late os ! i"
      using i len by (simp_all add: ds nth_append)
    have "posted T client build (os ! i) (sent ! i) (us ! i)"
      "posted T client build (?late os ! i) (sent ! (?n + i)) (us ! (?n + i))"
      using s(3,4) len2 i at by (metis add_less_cancel_left mult_2 trans_less_add1)+
    moreover have "now (us ! i) + gap \<le> now (us ! (?n + i))"
    proof -
      have "os \<noteq> []" using i len by auto
      then have "dl_delay_before (?late os ! 0) = gap" by (cases os) auto
      moreover have "sn_deliveries sc ! ?n = ?late os ! 0" using len by (simp add: ds nth_append)
      ultimately have "dl_delay_before (sn_deliveries sc ! ?n) = gap" by simp
      with spaced_waits [OF s(2), of i ?n "?n + i"] i len2 show ?thesis by simp
    qed
    ultimately show ?thesis using late [of i] o [OF i] by (simp add: posted_def Let_def)
  qed
  with s(1,3) len2 show ?thesis by (intro exI [of _ sent] exI [of _ us] exI [of _ w']) simp
qed

text \<open>Everything that has to hold before the first delivery.\<close>

definition redelivery_guards :: "('w, 'q) env \<Rightarrow> redelivery_params \<Rightarrow> bool" where
  "redelivery_guards E P \<longleftrightarrow>
     (\<exists>scs t. build_scenarios (en_corpus E (rp_seed P)) (rp_seed P) (int (rp_count P))
         (rp_tag_prefix P) (dp_retry_after P) (dp_scenarios P) = Inr scs \<and>
       require_synthetic (en_net E) (map dl_email (concat (map sn_deliveries scs))) = Inr () \<and>
       validate_match_modes (mm_subject (rp_modes P)) (mm_attachment (rp_modes P)) = Inr () \<and>
       resolve_target (en_net E) (rp_target P) (en_config E) (rp_allow_public P) [] = Inr t)"

text \<open>A redelivery comes back, and sends nothing unguarded. Under an environment that lets
  time pass and with a rate above zero, \<open>redeliver\<close> always returns. When the plan cannot be
  built, or a payload of any scenario is not synthetic, or the match modes or the target are
  refused, the world is as it was and the run raises or exits 1. When they are all accepted
  and the tag prefix is plain, the run ends with an exit code, never with an exception.\<close>

theorem redelivery_comes_back:
  assumes "well_behaved E now" "0 < rp_rate P"
  shows "\<exists>r w'. redelivery_execute E P w = Some (r, w') \<and>
    (\<not> redelivery_guards E P \<longrightarrow> w' = w \<and> r \<in> {Raises, Exits EXIT_REFUSED None}) \<and>
    (redelivery_guards E P \<and> plain_id (rp_tag_prefix P) \<longrightarrow>
       r = Exits EXIT_REFUSED None \<or> (\<exists>c a. r = Exits c (Some a) \<and> c \<in> {EXIT_OK, EXIT_FINDING}))"
proof (cases "redelivery_guards E P")
  case False
  then show ?thesis
    by (auto simp: redelivery_execute_def redelivery_guards_def Let_def split: sum.splits)
next
  case True
  then obtain scs t where scs: "build_scenarios (en_corpus E (rp_seed P)) (rp_seed P) (int (rp_count P))
      (rp_tag_prefix P) (dp_retry_after P) (dp_scenarios P) = Inr scs"
    and g: "require_synthetic (en_net E) (map dl_email (concat (map sn_deliveries scs))) = Inr ()"
      "validate_match_modes (mm_subject (rp_modes P)) (mm_attachment (rp_modes P)) = Inr ()"
      "resolve_target (en_net E) (rp_target P) (en_config E) (rp_allow_public P) [] = Inr t"
    unfolding redelivery_guards_def by blast
  have ok: "modes_ok (rp_modes P)" using g(2) by (simp add: modes_ok_def)
  obtain prepared w1 where p: "en_prepare E w = (prepared, w1)" by fastforce
  show ?thesis
  proof (cases prepared)
    case (Inl e)
    with True scs g p show ?thesis by (simp add: redelivery_execute_def Let_def)
  next
    case (Inr b)
    have now: "monotonic (en_timing E) now" "patient now (en_client E (rt_url t))" "source_patient now (bt_source b)"
      using assms(1) p Inr by (auto simp: well_behaved_def)
    obtain sent w2 where s: "send_scenarios (en_timing E) (en_client E (rt_url t))
        (en_build E (rt_format_name t)) scs (rp_rate P) w1 = Some (Inr sent, w2)"
      using send_scenarios_all [OF now(1,2) assms(2)] by blast
    define A where "A = \<lparr>pa_timing = en_timing E, pa_source = bt_source b, pa_repr = en_repr E,
      pa_quiet_window = rp_quiet_window P, pa_max_wait = ps_max_wait (readback_poll_settings
        (length (nub (concat (map scenario_tags scs)))) (Some (rp_readback P)) (rp_quiet_window P)
        (rp_max_wait P) (rp_poll_interval P)), pa_poll_interval = rp_poll_interval P\<rparr>"
    obtain po w3 where poll: "read_back_all A (map sm_probe sent) w2 = Some (po, w3)"
      using read_back_all_returns [of A now "map sm_probe sent" w2] now by (auto simp: A_def)
    obtain search w4 where e: "enumerate_store b w3 = (search, w4)" by fastforce
    have run: "redelivery_execute E P w = Some (case po of Inl e \<Rightarrow> (Exits EXIT_REFUSED None, bt_close b w3)
        | Inr out \<Rightarrow> (redelivery_judge (en_lib E) (rp_modes P) (rp_tag_prefix P) search scs out, bt_close b w4))"
      using scs g p Inr s poll e
      by (simp add: redelivery_execute_def Let_def A_def [symmetric] split: sum.split)
    obtain strays reason partial where search: "search = (strays, reason, partial)" by (cases search)
    have "\<exists>c a. redelivery_judge (en_lib E) (rp_modes P) (rp_tag_prefix P) search scs out =
        Exits c (Some a) \<and> c \<in> {EXIT_OK, EXIT_FINDING}" if "plain_id (rp_tag_prefix P)" for out
    proof -
      have "\<forall>sc \<in> set scs. plan_ok sc" using built_plan_ok [OF scs that] by blast
      from redelivery_judge_exit [OF ok this] show ?thesis unfolding search by blast
    qed
    with run True show ?thesis by (cases po) auto
  qed
qed

section \<open>A small plan\<close>

definition sample_plan :: "string list \<Rightarrow> scenario list" where
  "sample_plan names = (case build_scenarios (\<lambda>n. replicate n sample_email) 7 1 ''hq'' 5 (Some names) of
     Inl _ \<Rightarrow> [] | Inr scs \<Rightarrow> scs)"

lemma sample_prefix: "plain_id ''hq''"
  by (simp add: plain_char_def is_space_def)

lemma sample_plan_tags:
  "map (\<lambda>sc. (sn_name sc, map dl_tag (sn_deliveries sc))) (sample_plan [''duplicate'']) =
     [(Duplicate, [''hq-dup-7-0000'', ''hq-dup-7-0000''])]"
  by code_simp

lemma sample_plan_built:
  "build_scenarios (\<lambda>n. replicate n sample_email) 7 1 ''hq'' 5 (Some [''duplicate'']) =
     Inr (sample_plan [''duplicate''])"
proof (cases "build_scenarios (\<lambda>n. replicate n sample_email) 7 1 ''hq'' 5 (Some [''duplicate''])")
  case (Inl e)
  then have "sample_plan [''duplicate''] = []" by (simp only: sample_plan_def sum.case)
  with sample_plan_tags show ?thesis by (simp only: list.map list.distinct)
qed (simp only: sample_plan_def sum.case)

definition sample_of_tag :: "string \<Rightarrow> readback list \<Rightarrow> outcome" where
  "sample_of_tag t rs = (sample_outcome rs)\<lparr>ro_readbacks := [(t, rs)]\<rparr>"

theorem delivery_safe_iff_witness:
  "list_all (scenario_safe sample_lib (rp_modes sample_params)
     (held (sample_of_tag ''hq-dup-7-0000'' [sample_held]))) (sample_plan [''duplicate''])"
proof -
  let ?j = "redelivery_judge sample_lib (rp_modes sample_params) ''hq''
    (None, Some AdapterCannotEnumerate, False) (sample_plan [''duplicate''])
    (sample_of_tag ''hq-dup-7-0000'' [sample_held])"
  have "code_of ?j = Some EXIT_OK" by code_simp
  with delivery_safe_iff [OF sample_modes_ok sample_prefix sample_plan_built, of sample_lib None
      "Some AdapterCannotEnumerate" False "sample_of_tag ''hq-dup-7-0000'' [sample_held]"]
  show ?thesis by (auto simp: code_of_def list_all_iff)
qed

lemma sample_plan_tag:
  "\<exists>sc \<in> set (sample_plan [''duplicate'']). sn_name sc = Duplicate \<and> ''hq-dup-7-0000'' \<in> set (scenario_tags sc)"
proof -
  obtain sc where sc: "sample_plan [''duplicate''] = [sc]" "sn_name sc = Duplicate"
    "map dl_tag (sn_deliveries sc) = [''hq-dup-7-0000'', ''hq-dup-7-0000'']"
    using sample_plan_tags unfolding map_eq_Cons_conv prod.inject by blast
  have "''hq-dup-7-0000'' \<in> set (map dl_tag (sn_deliveries sc))" unfolding sc(3) by (rule list.set_intros)
  then have "''hq-dup-7-0000'' \<in> set (scenario_tags sc)" by (simp only: scenario_tags_set set_map)
  with sc(1,2) show ?thesis by (metis list.set_intros(1))
qed

theorem redelivered_duplicate_is_a_finding_witness:
  "code_of (redelivery_judge sample_lib (rp_modes sample_params) ''hq'' (None, None, False)
     (sample_plan [''duplicate'']) (sample_of_tag ''hq-dup-7-0000'' [sample_held, sample_held])) =
   Some EXIT_FINDING"
proof -
  obtain sc where "sc \<in> set (sample_plan [''duplicate''])" "''hq-dup-7-0000'' \<in> set (scenario_tags sc)"
    using sample_plan_tag by blast
  moreover have "length (held (sample_of_tag ''hq-dup-7-0000'' [sample_held, sample_held]) ''hq-dup-7-0000'') \<noteq> 1"
    by (simp add: held_def sample_of_tag_def sample_outcome_def)
  ultimately show ?thesis
    using redelivered_duplicate_is_a_finding [OF sample_modes_ok sample_prefix sample_plan_built] by blast
qed

theorem tag_names_its_scenario_witness:
  "scenario_of_tag ''hq'' ''hq-dup-7-0000'' = Some Duplicate"
  using tag_names_its_scenario [OF sample_plan_built sample_prefix] sample_plan_tag by metis

definition sample_thread :: scenario where
  "sample_thread = (case build_one (replicate 3 sample_email) 1 7 ''hq'' 5 References of
     Inr sc \<Rightarrow> sc | Inl _ \<Rightarrow> \<lparr>sn_name = References, sn_deliveries = []\<rparr>)"

lemma sample_thread_tags:
  "map (\<lambda>d. (dl_tag d, dl_in_reply_to_tag d)) (sn_deliveries sample_thread) =
     [(''hq-ref-7-0000'', None), (''hq-ref-7-0001'', Some ''hq-ref-7-0000''),
      (''hq-ref-7-0002'', Some ''hq-ref-7-0001'')]"
  by code_simp

lemma sample_thread_built: "build_one (replicate 3 sample_email) 1 7 ''hq'' 5 References = Inr sample_thread"
proof (cases "build_one (replicate 3 sample_email) 1 7 ''hq'' 5 References")
  case (Inl e)
  then have "sn_deliveries sample_thread = []" by (simp only: sample_thread_def sum.case scenario.simps)
  with sample_thread_tags show ?thesis by (simp only: list.map list.distinct)
qed (simp only: sample_thread_def sum.case)


theorem slow_retry_late_enough_witness:
  "\<exists>sc sent (us :: seconds list) w'. build_slow_retry [sample_email] 7 ''hq-rty'' 5 = Inr sc \<and>
     send_scenario additive quick_client (\<lambda>e. ()) sc 5 0 = Some (Inr sent, w') \<and> length sent = 2 \<and>
     sm_tag (sent ! 1) = sm_tag (sent ! 0) \<and> us ! 0 + 5 \<le> us ! 1"
proof -
  have "\<exists>sc. build_slow_retry [sample_email] 7 ''hq-rty'' 5 = Inr sc"
    by (simp add: build_slow_retry_def repeat_twice_eq)
  then obtain sc where sc: "build_slow_retry [sample_email] 7 ''hq-rty'' 5 = Inr sc" by blast
  have p: "patient (\<lambda>t. t) (quick_client :: unit \<Rightarrow> seconds \<Rightarrow> client_reply \<times> seconds)"
    by (auto simp: patient_def quick_client_def)
  have g: "(0 :: rat) < 5" "(0 :: seconds) < 5" "''hq-rty'' \<noteq> []" by simp_all
  from slow_retry_late_enough [OF monotonic_additive p g(1,3,2) sc, of "\<lambda>e. ()" 0]
  show ?thesis using sc by (fastforce simp: Let_def)
qed

definition sample_redelivery :: redelivery_params where
  "sample_redelivery = run_params.extend sample_params
     \<lparr>dp_scenarios = Some [''duplicate''], dp_retry_after = 5\<rparr>"

theorem redelivery_comes_back_witness:
  "(\<exists>r w'. redelivery_execute good_env sample_redelivery 0 = Some (r, w')) \<and>
   (\<exists>r. redelivery_execute good_env (sample_redelivery\<lparr>rp_target := Some ''prod''\<rparr>) 0 = Some (r, 0) \<and>
      r \<in> {Raises, Exits EXIT_REFUSED None})"
proof -
  let ?P = "sample_redelivery\<lparr>rp_target := Some ''prod''\<rparr>"
  have rate: "0 < rp_rate sample_redelivery" "0 < rp_rate ?P"
    by (simp_all add: sample_redelivery_def sample_params_def run_params.defs)
  have "\<not> redelivery_guards good_env ?P"
    by (simp add: redelivery_guards_def resolve_target_def sample_env_def)
  then show ?thesis
    using redelivery_comes_back [OF sample_behaves rate(1)] redelivery_comes_back [OF sample_behaves rate(2)]
    by metis
qed
end
