(* ===== verification/Machine_Mail.thy ===== *)
theory Machine_Mail
  imports Redelivery_Plan
begin

text \<open>
  The mail of the \<open>loop\<close> tool (\<open>pipeline/loop.py\<close>): the twelve shapes of machine-generated
  mail, what marks a message as machine mail, the corpus that cycles through them, the
  ordinary message whose acknowledgement the bait answers, and the bait. The bytes of a
  bounce in a raw-MIME format are built by Python's \<open>email\<close> package, a parameter of the run;
  which messages are sent that way is \<open>is_dsn\<close>.
\<close>

section \<open>The shapes\<close>

definition NO_REPLY_LOCALS :: "string list" where
  "NO_REPLY_LOCALS = [''noreply'', ''no-reply'', ''donotreply'', ''do-not-reply'']"

definition OOO_SUBJECTS :: "string list" where
  "OOO_SUBJECTS = [''Automatic reply: your message'', ''Out of Office'',
     ''Automatic reply: away until Monday'']"

definition MAILBOX :: string where "MAILBOX = ''intake@example.com''"
definition DEFAULT_REPLY_ADDRESS :: string where "DEFAULT_REPLY_ADDRESS = ''no-reply@example.com''"
definition CUSTOMER :: string where "CUSTOMER = ''Sana Malik <sana.malik@example.net>''"
definition CRLF :: string where "CRLF = [CHR 0x0D, CHR 0x0A]"

definition DSN_STATUS :: bytes where
  "DSN_STATUS = ''Reporting-MTA: dns; mx.example.com'' @ CRLF @
     ''Arrival-Date: Mon, 6 Oct 2025 09:14:02 +0000'' @ CRLF @
     CRLF @ ''Final-Recipient: rfc822; gone@example.org'' @ CRLF @
     ''Action: failed'' @ CRLF @
     ''Status: 5.1.1'' @ CRLF @
     ''Diagnostic-Code: smtp; 550 5.1.1 <gone@example.org>: user unknown'' @ CRLF"

definition DSN_HEADERS :: bytes where
  "DSN_HEADERS = ''From: intake@example.com'' @ CRLF @
     ''To: gone@example.org'' @ CRLF @
     ''Subject: Re: your ticket'' @ CRLF"

record shape =
  sh_kind :: string
  sh_subject :: string
  sh_body :: string
  sh_from_addr :: string
  sh_headers :: "string dict"
  sh_attachments :: "attachment list"

definition MACHINE_MAIL_SHAPES :: "shape list" where
  "MACHINE_MAIL_SHAPES = [
  \<lparr>sh_kind = ''auto-submitted-auto-replied'', sh_subject = ''Re: your refund request'',
     sh_body = ''This is an automatic acknowledgement. No action is needed.'',
     sh_from_addr = ''robot@example.com'',
     sh_headers = [(''Auto-Submitted'', ''auto-replied'')], sh_attachments = []\<rparr>,
  \<lparr>sh_kind = ''auto-submitted-auto-generated'', sh_subject = ''Your order has shipped'',
     sh_body = ''This message was generated automatically.'',
     sh_from_addr = ''robot@example.com'',
     sh_headers = [(''Auto-Submitted'', ''auto-generated'')], sh_attachments = []\<rparr>,
  \<lparr>sh_kind = ''precedence-bulk'', sh_subject = ''Monthly product bulletin'',
     sh_body = ''Here is this month'' @ [CHR 0x27] @ ''s bulletin. You are receiving it as a list member.'',
     sh_from_addr = ''newsletter@example.com'',
     sh_headers = [(''Precedence'', ''bulk'')], sh_attachments = []\<rparr>,
  \<lparr>sh_kind = ''precedence-list'', sh_subject = ''[users] Re: meeting time'',
     sh_body = ''Replying to the list, as the footer asks.'',
     sh_from_addr = ''users@example.com'',
     sh_headers = [(''Precedence'', ''list'')], sh_attachments = []\<rparr>,
  \<lparr>sh_kind = ''precedence-junk'', sh_subject = ''Special offer for you'',
     sh_body = ''Unsubscribe at your peril.'',
     sh_from_addr = ''deals@example.com'',
     sh_headers = [(''Precedence'', ''junk'')], sh_attachments = []\<rparr>,
  \<lparr>sh_kind = ''out-of-office'', sh_subject = OOO_SUBJECTS ! 0,
     sh_body = ''I am away until Monday and will reply then.'',
     sh_from_addr = ''colleague@example.com'',
     sh_headers = [(''Auto-Submitted'', ''auto-replied''), (''X-Original-To'', MAILBOX)], sh_attachments = []\<rparr>,
  \<lparr>sh_kind = ''out-of-office-alternate'', sh_subject = OOO_SUBJECTS ! 1,
     sh_body = ''On leave. Messages are queued for my return.'',
     sh_from_addr = ''colleague@example.com'',
     sh_headers = [(''X-Original-To'', MAILBOX)], sh_attachments = []\<rparr>,
  \<lparr>sh_kind = ''bounce-dsn'', sh_subject = ''Undelivered Mail Returned to Sender'',
     sh_body = ''This is the mail system at host mx.example.com. Your message could not be delivered to one or more recipients.'',
     sh_from_addr = ''MAILER-DAEMON@example.com'',
     sh_headers = [(''Content-Type'', ''multipart/report; report-type=delivery-status; boundary='' @ [CHR 0x22] @ ''dsn-boundary-1'' @ [CHR 0x22]), (''Return-Path'', ''<>'')],
     sh_attachments = [\<lparr>at_filename = ''details.txt'', at_content_type = ''message/delivery-status'', at_content = DSN_STATUS\<rparr>,
       \<lparr>at_filename = ''original-headers.txt'', at_content_type = ''text/rfc822-headers'', at_content = DSN_HEADERS\<rparr>]\<rparr>,
  \<lparr>sh_kind = ''noreply-sender'', sh_subject = ''Your payment was received'',
     sh_body = ''We have received your payment. Do not reply to this message.'',
     sh_from_addr = ''noreply@billing.example.com'',
     sh_headers = [], sh_attachments = []\<rparr>,
  \<lparr>sh_kind = ''noreply-sender-alternate'', sh_subject = ''Your invoice is attached'',
     sh_body = ''This is a receipt. The sender cannot receive replies.'',
     sh_from_addr = ''no-reply@billing.example.com'',
     sh_headers = [], sh_attachments = []\<rparr>,
  \<lparr>sh_kind = ''list-headers'', sh_subject = ''[users] Re: meeting time'',
     sh_body = ''Please stop replying to this list address.'',
     sh_from_addr = ''users@example.com'',
     sh_headers = [(''List-Unsubscribe'', ''<mailto:unsubscribe@example.com>'')], sh_attachments = []\<rparr>,
  \<lparr>sh_kind = ''list-headers-id'', sh_subject = ''Weekly digest'',
     sh_body = ''The digest, delivered to a list.'',
     sh_from_addr = ''digest@example.com'',
     sh_headers = [(''List-Id'', ''<users-digest.example.com>'')], sh_attachments = []\<rparr>]"

definition KIND_LOOP_BAIT :: string where "KIND_LOOP_BAIT = ''loop-bait''"
definition KIND_PRECURSOR :: string where "KIND_PRECURSOR = ''ordinary-precursor''"

definition MACHINE_MAIL_KINDS :: "string list" where
  "MACHINE_MAIL_KINDS = map sh_kind MACHINE_MAIL_SHAPES @ [KIND_LOOP_BAIT]"

section \<open>What marks machine mail\<close>

text \<open>\<open>{name.lower(): value for ...}\<close>: of two names equal up to case the later wins.\<close>

definition lowered :: "string dict \<Rightarrow> string \<rightharpoonup> string" where
  "lowered hs = map_of (rev (map (\<lambda>(k, v). (casefold k, v)) hs))"

definition lowered_get :: "string dict \<Rightarrow> string \<Rightarrow> string" where
  "lowered_get hs k = (case lowered hs k of Some v \<Rightarrow> v | None \<Rightarrow> [])"

text \<open>\<open>s.split("<")[-1].strip("> ")\<close>.\<close>

definition bare_mailbox :: "string \<Rightarrow> string" where
  "bare_mailbox s = strip_chars ''> '' (after_last CHR ''<'' s)"

definition sender_local :: "string \<Rightarrow> string" where
  "sender_local from_addr = casefold (takeWhile (\<lambda>c. c \<noteq> CHR ''@'') (bare_mailbox from_addr))"

definition machine_mail_marker :: "string dict \<Rightarrow> string \<Rightarrow> string \<Rightarrow> string option" where
  "machine_mail_marker headers subject from_addr =
     (let auto_submitted = casefold (strip (lowered_get headers ''auto-submitted''));
          precedence = casefold (strip (lowered_get headers ''precedence''));
          lowered_subject = casefold (strip subject)
      in if auto_submitted \<in> {''auto-replied'', ''auto-generated''}
         then Some (''Auto-Submitted: '' @ auto_submitted)
         else if precedence \<in> {''bulk'', ''list'', ''junk''}
         then Some (''Precedence: '' @ precedence)
         else if sender_local from_addr \<in> set NO_REPLY_LOCALS
         then Some (''From: '' @ sender_local from_addr @ ''@'')
         else if lowered headers ''list-id'' \<noteq> None then Some ''List-Id present''
         else if lowered headers ''list-unsubscribe'' \<noteq> None then Some ''List-Unsubscribe present''
         else (case find (\<lambda>p. prefix p lowered_subject)
                      [''automatic reply'', ''out of office'', ''auto-reply''] of
             Some p \<Rightarrow> Some (''Subject starts '' @ [CHR 0x27] @ p @ [CHR 0x27])
           | None \<Rightarrow>
               if (case lowered headers ''return-path'' of
                     Some v \<Rightarrow> strip_chars ''<> '' v = [] | None \<Rightarrow> False)
               then Some ''Return-Path: <>''
               else if find_sub ''mailer-daemon'' (casefold from_addr) \<noteq> None
               then Some ''From: MAILER-DAEMON@''
               else if find_sub ''multipart/report'' (casefold (lowered_get headers ''content-type'')) \<noteq> None
               then Some ''Content-Type: multipart/report''
               else None))"

section \<open>The messages of a run\<close>

record machine_mail =
  ml_kind :: string
  ml_marker :: string
  ml_email :: email
  ml_tag :: string
  ml_record_id :: string
  ml_is_loop_bait :: bool

text \<open>\<open>_bare\<close>.\<close>

definition bare_id :: "string option \<Rightarrow> string" where
  "bare_id v = bare (case v of Some s \<Rightarrow> s | None \<Rightarrow> [])"

definition ml_message_id :: "machine_mail \<Rightarrow> string" where
  "ml_message_id m = bare_id (map_of (em_headers (ml_email m)) ''Message-ID'')"

definition ml_probe :: "machine_mail \<Rightarrow> probe" where
  "ml_probe m = probe_for (ml_email m) (ml_tag m) (ml_record_id m) []"

definition plain_message ::
  "string \<Rightarrow> string \<Rightarrow> string \<Rightarrow> string dict \<Rightarrow> string \<Rightarrow> attachment list \<Rightarrow> email"
where
  "plain_message subject body from_addr headers to_addr attachments = \<lparr>
     em_to = to_addr, em_from_addr = from_addr, em_subject = subject,
     em_text = body @ [CHR 0x0A],
     em_html = ''<html><body>'' @ body @ ''</body></html>'',
     em_envelope = \<lparr>env_to = [bare_mailbox to_addr], env_from_addr = bare_mailbox from_addr\<rparr>,
     em_ground_truth = \<lparr>gt_from_addr = from_addr, gt_subject = subject, gt_body_core = body\<rparr>,
     em_headers = headers, em_charsets = [], em_attachments = attachments,
     em_raw_fields = [], em_extra_form_fields = []\<rparr>"

definition tagged_message :: "email \<Rightarrow> string \<Rightarrow> tag_error + email" where
  "tagged_message e tag =
     stamp e tag (no_pins\<lparr>pin_message_id := Some (''<'' @ build_chain_message_id tag @ ''>'')\<rparr>)"

datatype corpus_error = CountBelowZero int | NotMachineMail string | BadTag tag_error

text \<open>One round of the loop of \<open>build_machine_corpus\<close>; the assertion is an error.\<close>

definition shaped_email :: "int \<Rightarrow> nat \<Rightarrow> shape \<Rightarrow> email" where
  "shaped_email seed index sh =
     plain_message
       (if sh_kind sh = ''out-of-office''
        then OOO_SUBJECTS ! (nat ((seed + int index) mod int (length OOO_SUBJECTS)))
        else sh_subject sh)
       (sh_body sh @ '' (ref '' @ str_of_int seed @ ''-'' @ str_of_nat index @ '')'')
       (sh_from_addr sh) (sh_headers sh) MAILBOX (sh_attachments sh)"

definition shaped_mail :: "int \<Rightarrow> string \<Rightarrow> nat \<Rightarrow> corpus_error + machine_mail" where
  "shaped_mail seed tag_prefix index =
     (let sh = MACHINE_MAIL_SHAPES ! (index mod length MACHINE_MAIL_SHAPES);
          e = shaped_email seed index sh
      in case machine_mail_marker (em_headers e) (em_subject e) (em_from_addr e) of
           None \<Rightarrow> Inl (NotMachineMail (sh_kind sh))
         | Some marker \<Rightarrow>
             (case make_tag tag_prefix seed (int index) of
                Inl err \<Rightarrow> Inl (BadTag err)
              | Inr tag \<Rightarrow>
                  (case tagged_message e tag of
                     Inl err \<Rightarrow> Inl (BadTag err)
                   | Inr e' \<Rightarrow> Inr \<lparr>ml_kind = sh_kind sh, ml_marker = marker, ml_email = e',
                       ml_tag = tag, ml_record_id = ''loop-'' @ str_of_int seed @ ''-'' @ pad4 index,
                       ml_is_loop_bait = False\<rparr>)))"

definition build_machine_corpus :: "int \<Rightarrow> int \<Rightarrow> string \<Rightarrow> corpus_error + machine_mail list" where
  "build_machine_corpus seed n tag_prefix =
     (if n < 0 then Inl (CountBelowZero n)
      else all_built (map (shaped_mail seed tag_prefix) [0..<nat n]))"

definition marked_mail ::
  "string \<Rightarrow> string \<Rightarrow> string \<Rightarrow> bool \<Rightarrow> int \<Rightarrow> int \<Rightarrow> string \<Rightarrow> (string \<Rightarrow> email) \<Rightarrow>
     corpus_error + machine_mail"
where
  "marked_mail kind marker record_id is_bait seed index tag_prefix message =
     (case make_tag tag_prefix seed index of
        Inl err \<Rightarrow> Inl (BadTag err)
      | Inr tag \<Rightarrow>
          (case tagged_message (message tag) tag of
             Inl err \<Rightarrow> Inl (BadTag err)
           | Inr e \<Rightarrow> Inr \<lparr>ml_kind = kind, ml_marker = marker, ml_email = e, ml_tag = tag,
               ml_record_id = record_id, ml_is_loop_bait = is_bait\<rparr>))"

definition precursor_message :: email where
  "precursor_message = plain_message ''Question about order 2291''
     ''Hello, my order 2291 shows as dispatched but has not arrived. Could you check where it is?''
     CUSTOMER [] MAILBOX []"

definition build_precursor :: "int \<Rightarrow> int \<Rightarrow> string \<Rightarrow> corpus_error + machine_mail" where
  "build_precursor seed n tag_prefix =
     marked_mail KIND_PRECURSOR ''ordinary mail, not judged''
       (''loop-'' @ str_of_int seed @ ''-precursor'') False seed n tag_prefix (\<lambda>_. precursor_message)"

definition bait_message :: "string \<Rightarrow> string \<Rightarrow> email" where
  "bait_message reply_address parent =
     plain_message ''Automatic reply: Re: Question about order 2291''
       ''I am out of the office until Monday and will reply when I return.'' CUSTOMER
       [(''Auto-Submitted'', ''auto-replied''), (''In-Reply-To'', ''<'' @ parent @ ''>''),
        (''References'', ''<'' @ parent @ ''>'')] reply_address []"

definition build_loop_bait ::
  "int \<Rightarrow> int \<Rightarrow> string \<Rightarrow> string \<Rightarrow> string option \<Rightarrow> corpus_error + machine_mail"
where
  "build_loop_bait seed n tag_prefix reply_address parent_id =
     marked_mail KIND_LOOP_BAIT
       (''auto-reply to the pipeline'' @ [CHR 0x27] @ ''s own outbound message'')
       (''loop-'' @ str_of_int seed @ ''-bait'') True seed (n + 1) tag_prefix
       (\<lambda>tag. bait_message reply_address
         (if truthy parent_id then the parent_id
          else build_chain_message_id (tag @ ''-unseen-parent'')))"

section \<open>A bounce on the wire\<close>

definition is_dsn :: "email \<Rightarrow> bool" where
  "is_dsn e =
     (let content_type = (case find (\<lambda>(k, v). casefold k = ''content-type'') (em_headers e) of
            Some (k, v) \<Rightarrow> v | None \<Rightarrow> [])
      in prefix ''multipart/report'' (casefold content_type))"

text \<open>\<open>LoopWireFormat.encode\<close>: the target's format, but a bounce in a raw-MIME format is built
  as a real report.\<close>

definition loop_encode :: "(string \<Rightarrow> email \<Rightarrow> 'q) \<Rightarrow> (string \<Rightarrow> email \<Rightarrow> 'q) \<Rightarrow> string \<Rightarrow> email \<Rightarrow> 'q" where
  "loop_encode base report format_name e =
     (if is_dsn e \<and> format_name \<in> {''mime'', ''sendgrid-raw''} then report format_name e
      else base format_name e)"

section \<open>Facts about the marker\<close>

lemma map_of_rev_update:
  "casefold k \<noteq> x \<Longrightarrow> map_of (rev (map (\<lambda>(k, v). (casefold k, v)) (AList.update k v hs))) x =
     map_of (rev (map (\<lambda>(k, v). (casefold k, v)) hs)) x"
  by (induction hs) (auto simp: map_of_append map_add_def split: option.split)

lemma lowered_update: "casefold k \<noteq> x \<Longrightarrow> lowered (AList.update k v hs) x = lowered hs x"
  by (simp add: lowered_def map_of_rev_update)

text \<open>The headers the marker looks at.\<close>

definition marker_headers :: "string list" where
  "marker_headers = [''auto-submitted'', ''precedence'', ''list-id'', ''list-unsubscribe'',
     ''return-path'', ''content-type'']"

lemma marker_cong:
  assumes "\<forall>k \<in> set marker_headers. lowered hs k = lowered hs' k"
  shows "machine_mail_marker hs s f = machine_mail_marker hs' s f"
proof -
  have "lowered hs ''auto-submitted'' = lowered hs' ''auto-submitted''"
    "lowered hs ''precedence'' = lowered hs' ''precedence''"
    "lowered hs ''list-id'' = lowered hs' ''list-id''"
    "lowered hs ''list-unsubscribe'' = lowered hs' ''list-unsubscribe''"
    "lowered hs ''return-path'' = lowered hs' ''return-path''"
    "lowered hs ''content-type'' = lowered hs' ''content-type''"
    using assms by (simp_all only: marker_headers_def list.set ball_simps)
  then show ?thesis by (simp only: machine_mail_marker_def lowered_get_def)
qed

lemma stamp_names_not_marked:
  "casefold TAG_HEADER \<notin> set marker_headers \<and> casefold ''Message-ID'' \<notin> set marker_headers"
  by code_simp

definition own_id :: "string \<Rightarrow> pinned" where
  "own_id tag = no_pins\<lparr>pin_message_id := Some (''<'' @ build_chain_message_id tag @ ''>'')\<rparr>"

lemma tagged_message_eq: "tag \<noteq> [] \<Longrightarrow> tagged_message e tag = Inr (stamped e tag (own_id tag))"
  by (simp add: tagged_message_def own_id_def stamp_stamped)

lemma stamped_own:
  assumes "tag \<noteq> []"
  shows "em_subject (stamped e tag (own_id tag)) = em_subject e"
    and "em_from_addr (stamped e tag (own_id tag)) = em_from_addr e"
    and "machine_mail_marker (em_headers (stamped e tag (own_id tag))) s f =
      machine_mail_marker (em_headers e) s f"
proof -
  have h: "em_headers (stamped e tag (own_id tag)) = AList.update ''Message-ID''
      (''<'' @ build_chain_message_id tag @ ''>'') (AList.update TAG_HEADER tag (em_headers e))"
    using assms by (simp add: stamped_def stamp_def tag_marker_def own_id_def no_pins_def
        stamped_headers_def put_header_def with_changes_def no_changes_def Let_def)
  show "em_subject (stamped e tag (own_id tag)) = em_subject e"
    "em_from_addr (stamped e tag (own_id tag)) = em_from_addr e"
    using assms by (simp_all add: stamped_def stamp_def tag_marker_def own_id_def no_pins_def
        with_changes_def no_changes_def Let_def)
  show "machine_mail_marker (em_headers (stamped e tag (own_id tag))) s f =
      machine_mail_marker (em_headers e) s f"
    unfolding h using stamp_names_not_marked
    by (intro marker_cong ballI) (metis lowered_update)
qed

text \<open>What the marker looks at in each shape, without the bodies and attachments.\<close>

definition shape_heads :: "(string \<times> string dict \<times> string \<times> string) list" where
  "shape_heads = [
    (''auto-submitted-auto-replied'', [(''Auto-Submitted'', ''auto-replied'')],
      ''Re: your refund request'', ''robot@example.com''),
    (''auto-submitted-auto-generated'', [(''Auto-Submitted'', ''auto-generated'')],
      ''Your order has shipped'', ''robot@example.com''),
    (''precedence-bulk'', [(''Precedence'', ''bulk'')],
      ''Monthly product bulletin'', ''newsletter@example.com''),
    (''precedence-list'', [(''Precedence'', ''list'')],
      ''[users] Re: meeting time'', ''users@example.com''),
    (''precedence-junk'', [(''Precedence'', ''junk'')],
      ''Special offer for you'', ''deals@example.com''),
    (''out-of-office'', [(''Auto-Submitted'', ''auto-replied''), (''X-Original-To'', ''intake@example.com'')],
      ''Automatic reply: your message'', ''colleague@example.com''),
    (''out-of-office-alternate'', [(''X-Original-To'', ''intake@example.com'')],
      ''Out of Office'', ''colleague@example.com''),
    (''bounce-dsn'', [(''Content-Type'', ''multipart/report; report-type=delivery-status; boundary='' @ [CHR 0x22] @ ''dsn-boundary-1'' @ [CHR 0x22]), (''Return-Path'', ''<>'')],
      ''Undelivered Mail Returned to Sender'', ''MAILER-DAEMON@example.com''),
    (''noreply-sender'', [],
      ''Your payment was received'', ''noreply@billing.example.com''),
    (''noreply-sender-alternate'', [],
      ''Your invoice is attached'', ''no-reply@billing.example.com''),
    (''list-headers'', [(''List-Unsubscribe'', ''<mailto:unsubscribe@example.com>'')],
      ''[users] Re: meeting time'', ''users@example.com''),
    (''list-headers-id'', [(''List-Id'', ''<users-digest.example.com>'')],
      ''Weekly digest'', ''digest@example.com'')]"

lemma shape_heads_eq:
  "map (\<lambda>sh. (sh_kind sh, sh_headers sh, sh_subject sh, sh_from_addr sh)) MACHINE_MAIL_SHAPES = shape_heads"
  by (simp add: MACHINE_MAIL_SHAPES_def shape_heads_def OOO_SUBJECTS_def MAILBOX_def)

lemma shape_heads_marked:
  "list_all (\<lambda>(k, h, s, f). machine_mail_marker h s f \<noteq> None) shape_heads"
  by code_simp

lemma ooo_marked:
  "list_all (\<lambda>s. list_all (\<lambda>(k, h, s', f). machine_mail_marker h s f \<noteq> None)
     (filter (\<lambda>x. fst x = ''out-of-office'') shape_heads)) OOO_SUBJECTS"
  by code_simp

lemma shapes_marked:
  assumes "sh \<in> set MACHINE_MAIL_SHAPES" "s = sh_subject sh \<or> sh_kind sh = ''out-of-office'' \<and> s \<in> set OOO_SUBJECTS"
  shows "machine_mail_marker (sh_headers sh) s (sh_from_addr sh) \<noteq> None"
proof -
  have "(sh_kind sh, sh_headers sh, sh_subject sh, sh_from_addr sh) \<in> set shape_heads"
    using assms(1) unfolding shape_heads_eq [symmetric] set_map by (rule rev_image_eqI) (rule refl)
  with assms(2) shape_heads_marked ooo_marked show ?thesis unfolding list_all_iff set_filter by fastforce
qed

lemma shapes_length: "length MACHINE_MAIL_SHAPES = 12" "length OOO_SUBJECTS = 3"
  by (simp_all add: MACHINE_MAIL_SHAPES_def OOO_SUBJECTS_def)

text \<open>What a message of a run is: tagged by its index, with the id derived from the tag.\<close>

definition run_mail :: "string \<Rightarrow> int \<Rightarrow> nat \<Rightarrow> machine_mail \<Rightarrow> bool" where
  "run_mail p seed i m \<longleftrightarrow> ml_tag m = made p seed i \<and>
     ml_message_id m = build_chain_message_id (made p seed i) \<and>
     (ml_is_loop_bait m \<longleftrightarrow> ml_kind m = KIND_LOOP_BAIT)"

definition marker_of :: "machine_mail \<Rightarrow> string option" where
  "marker_of m = machine_mail_marker (em_headers (ml_email m)) (em_subject (ml_email m))
     (em_from_addr (ml_email m))"

lemma own_message_id:
  assumes "plain_id p" "ml_email m = stamped e (made p seed i) (own_id (made p seed i))"
  shows "ml_message_id m = build_chain_message_id (made p seed i)"
  using stamped_ids(1) [of "made p seed i" e "own_id (made p seed i)"] assms
    bare_bracketed [OF plain_chain_id [OF plain_made [OF assms(1)]]]
  by (simp add: ml_message_id_def bare_id_def own_id_def)

lemma shape_kinds_not_bait: "sh \<in> set MACHINE_MAIL_SHAPES \<Longrightarrow> sh_kind sh \<noteq> KIND_LOOP_BAIT"
  by (auto simp: MACHINE_MAIL_SHAPES_def KIND_LOOP_BAIT_def)

lemma shaped_mail_ok:
  assumes "plain_id p"
  shows "\<exists>m. shaped_mail seed p i = Inr m \<and> run_mail p seed i m \<and> \<not> ml_is_loop_bait m \<and>
    marker_of m = Some (ml_marker m) \<and> ml_kind m = sh_kind (MACHINE_MAIL_SHAPES ! (i mod 12))"
proof -
  let ?sh = "MACHINE_MAIL_SHAPES ! (i mod 12)" and ?tag = "made p seed i"
  let ?ooo = "OOO_SUBJECTS ! nat ((seed + int i) mod int (length OOO_SUBJECTS))"
  let ?e = "shaped_email seed i ?sh"
  have sh: "?sh \<in> set MACHINE_MAIL_SHAPES" by (simp add: shapes_length)
  have "nat ((seed + int i) mod int (length OOO_SUBJECTS)) < length OOO_SUBJECTS"
    by (simp add: shapes_length)
  then have "?ooo \<in> set OOO_SUBJECTS" by (rule nth_mem)
  then have "machine_mail_marker (em_headers ?e) (em_subject ?e) (em_from_addr ?e) \<noteq> None"
    using shapes_marked [OF sh, of "em_subject ?e"] by (simp add: shaped_email_def plain_message_def)
  then obtain k where k: "machine_mail_marker (em_headers ?e) (em_subject ?e) (em_from_addr ?e) = Some k"
    by blast
  have p: "p \<noteq> []" using assms by (simp add: plain_id_def)
  let ?m = "\<lparr>ml_kind = sh_kind ?sh, ml_marker = k, ml_email = stamped ?e ?tag (own_id ?tag), ml_tag = ?tag,
    ml_record_id = ''loop-'' @ str_of_int seed @ ''-'' @ pad4 i, ml_is_loop_bait = False\<rparr>"
  have "shaped_mail seed p i = Inr ?m"
    using k by (simp add: shaped_mail_def shapes_length Let_def make_tag_made [OF p] tagged_message_eq)
  moreover have "run_mail p seed i ?m"
    using own_message_id [OF assms, of ?m ?e seed i] shape_kinds_not_bait [OF sh] by (simp add: run_mail_def)
  moreover have "marker_of ?m = Some k" using k by (simp add: marker_of_def stamped_own)
  ultimately show ?thesis by auto
qed

lemma marked_mail_ok:
  assumes "plain_id p" "0 \<le> n" "is_bait \<longleftrightarrow> kind = KIND_LOOP_BAIT"
  shows "\<exists>m. marked_mail kind marker rid is_bait seed n p message = Inr m \<and> run_mail p seed (nat n) m \<and>
    ml_is_loop_bait m = is_bait \<and> marker_of m = machine_mail_marker (em_headers (message (ml_tag m)))
      (em_subject (message (ml_tag m))) (em_from_addr (message (ml_tag m)))"
proof -
  let ?tag = "made p seed (nat n)"
  have p: "p \<noteq> []" using assms by (simp add: plain_id_def)
  let ?m = "\<lparr>ml_kind = kind, ml_marker = marker, ml_email = stamped (message ?tag) ?tag (own_id ?tag),
    ml_tag = ?tag, ml_record_id = rid, ml_is_loop_bait = is_bait\<rparr>"
  have "make_tag p seed n = Inr ?tag" using make_tag_made [OF p, of seed "nat n"] assms(2) by simp
  then have "marked_mail kind marker rid is_bait seed n p message = Inr ?m"
    by (simp add: marked_mail_def tagged_message_eq)
  moreover have "run_mail p seed (nat n) ?m"
    using own_message_id [OF assms(1), of ?m "message ?tag" seed "nat n"] assms(3)
    by (simp add: run_mail_def)
  ultimately show ?thesis by (simp add: marker_of_def stamped_own)
qed

lemma corpus_ok:
  assumes "plain_id p" "0 \<le> n"
  shows "\<exists>corpus. build_machine_corpus seed n p = Inr corpus \<and> length corpus = nat n \<and>
    (\<forall>i < nat n. run_mail p seed i (corpus ! i) \<and> \<not> ml_is_loop_bait (corpus ! i) \<and>
       marker_of (corpus ! i) = Some (ml_marker (corpus ! i)) \<and>
       ml_kind (corpus ! i) = sh_kind (MACHINE_MAIL_SHAPES ! (i mod 12)))"
proof -
  obtain g where g: "\<And>i. shaped_mail seed p i = Inr (g i) \<and> run_mail p seed i (g i) \<and> \<not> ml_is_loop_bait (g i) \<and>
      marker_of (g i) = Some (ml_marker (g i)) \<and> ml_kind (g i) = sh_kind (MACHINE_MAIL_SHAPES ! (i mod 12))"
    using shaped_mail_ok [OF assms(1)] by metis
  have "map (shaped_mail seed p) [0..<nat n] = map Inr (map g [0..<nat n])"
    using g by simp
  then have "build_machine_corpus seed n p = Inr (map g [0..<nat n])"
    using assms(2) unfolding build_machine_corpus_def all_built_Inr [symmetric] by simp
  with g show ?thesis by (intro exI [of _ "map g [0..<nat n]"]) simp
qed

lemma precursor_unmarked:
  "machine_mail_marker (em_headers precursor_message) (em_subject precursor_message)
     (em_from_addr precursor_message) = None"
  by code_simp

lemma bait_marked:
  "machine_mail_marker (em_headers (bait_message r a)) (em_subject (bait_message r a))
     (em_from_addr (bait_message r a)) = Some ''Auto-Submitted: auto-replied''"
proof -
  have "casefold (strip ''auto-replied'') = ''auto-replied''" "casefold ''Auto-Submitted'' = ''auto-submitted''"
    "casefold ''In-Reply-To'' \<noteq> ''auto-submitted''" "casefold ''References'' \<noteq> ''auto-submitted''" by code_simp+
  then show ?thesis
    by (simp add: bait_message_def plain_message_def machine_mail_marker_def lowered_get_def lowered_def Let_def
        del: map_of.simps(2) cong: if_weak_cong)
qed

lemma precursor_ok:
  assumes "plain_id p" "0 \<le> n"
  shows "\<exists>pre. build_precursor seed n p = Inr pre \<and> run_mail p seed (nat n) pre \<and>
    \<not> ml_is_loop_bait pre \<and> marker_of pre = None"
proof -
  have "False \<longleftrightarrow> KIND_PRECURSOR = KIND_LOOP_BAIT" by (simp add: KIND_PRECURSOR_def KIND_LOOP_BAIT_def)
  from marked_mail_ok [OF assms this] precursor_unmarked show ?thesis
    unfolding build_precursor_def by metis
qed

lemma bait_ok:
  assumes "plain_id p" "0 \<le> n"
  shows "\<exists>bait. build_loop_bait seed n p reply parent = Inr bait \<and> run_mail p seed (nat (n + 1)) bait \<and>
    ml_is_loop_bait bait \<and> marker_of bait = Some ''Auto-Submitted: auto-replied''"
proof -
  have "True \<longleftrightarrow> KIND_LOOP_BAIT = KIND_LOOP_BAIT" "0 \<le> n + 1" using assms(2) by simp_all
  note ok = marked_mail_ok [OF assms(1) this(2,1)]
  show ?thesis unfolding build_loop_bait_def
    by (rule exE [OF ok], rule exI, elim conjE, intro conjI) (assumption | simp only: bait_marked | blast)+
qed

section \<open>Properties of the mail\<close>

text \<open>Only machine mail is judged. For a plain tag prefix and a count that is not negative
  the three builders succeed - the assertion of the corpus loop never fires - and every
  message of the corpus, as it is sent with its tag and id, still carries the mark it is
  judged by; with twelve or more every shape is there. The ordinary message carries no
  mark, and the bait that of an auto-reply, whatever it answers.\<close>

theorem corpus_is_machine_mail:
  assumes "plain_id p" "0 \<le> n"
  shows "\<exists>corpus pre bait. build_machine_corpus seed n p = Inr corpus \<and> length corpus = nat n \<and>
    (\<forall>m \<in> set corpus. marker_of m = Some (ml_marker m) \<and> \<not> ml_is_loop_bait m) \<and>
    (12 \<le> n \<longrightarrow> set (map sh_kind MACHINE_MAIL_SHAPES) \<subseteq> set (map ml_kind corpus)) \<and>
    build_precursor seed n p = Inr pre \<and> marker_of pre = None \<and>
    build_loop_bait seed n p reply parent = Inr bait \<and> ml_is_loop_bait bait \<and>
    marker_of bait = Some ''Auto-Submitted: auto-replied''"
proof -
  obtain corpus where c: "build_machine_corpus seed n p = Inr corpus" "length corpus = nat n"
    "\<forall>i < nat n. run_mail p seed i (corpus ! i) \<and> \<not> ml_is_loop_bait (corpus ! i) \<and>
       marker_of (corpus ! i) = Some (ml_marker (corpus ! i)) \<and>
       ml_kind (corpus ! i) = sh_kind (MACHINE_MAIL_SHAPES ! (i mod 12))"
    using corpus_ok [OF assms] by blast
  have "\<forall>m \<in> set corpus. marker_of m = Some (ml_marker m) \<and> \<not> ml_is_loop_bait m"
    using c(2,3) by (metis in_set_conv_nth)
  moreover have "set (map sh_kind MACHINE_MAIL_SHAPES) \<subseteq> set (map ml_kind corpus)" if "12 \<le> n"
  proof
    fix k assume "k \<in> set (map sh_kind MACHINE_MAIL_SHAPES)"
    then obtain i where i: "i < 12" "k = sh_kind (MACHINE_MAIL_SHAPES ! i)"
      by (auto simp: in_set_conv_nth shapes_length)
    then have "i < nat n" using that by linarith
    then have "k = ml_kind (corpus ! i)" "corpus ! i \<in> set corpus" using c(2,3) i by auto
    then show "k \<in> set (map ml_kind corpus)" by simp
  qed
  moreover obtain pre where "build_precursor seed n p = Inr pre" "marker_of pre = None"
    using precursor_ok [OF assms] by blast
  moreover obtain bait where "build_loop_bait seed n p reply parent = Inr bait" "ml_is_loop_bait bait"
    "marker_of bait = Some ''Auto-Submitted: auto-replied''"
    using bait_ok [OF assms] by blast
  ultimately show ?thesis using c(1,2)
    by (intro exI [of _ corpus] exI [of _ pre] exI [of _ bait] conjI) simp_all
qed

theorem corpus_is_machine_mail_witness:
  "\<exists>corpus. build_machine_corpus (-3) 12 ''hq'' = Inr corpus \<and> length corpus = 12"
proof -
  have "plain_id ''hq''" by (simp add: plain_char_def is_space_def)
  moreover have "(0 :: int) \<le> 12" by simp
  ultimately obtain corpus where "build_machine_corpus (-3) 12 ''hq'' = Inr corpus" "length corpus = nat 12"
    using corpus_is_machine_mail [of "''hq''" 12 "-3" DEFAULT_REPLY_ADDRESS None] by blast
  then show ?thesis by simp
qed

end
