(* ===== verification/Loop.thy ===== *)
theory Loop
  imports Verify Machine_Mail
begin

text \<open>
  The \<open>loop\<close> tool (\<open>pipeline/loop.py\<close>): judging what a pipeline did with machine-generated
  mail, attributing what came out of its outbound sink, the summary and its headline, the
  wait for the pipeline's own reply, and the run. Findings and notes are constructors; the
  report and the dry-run preview are left out. The canonical JSON text records are compared
  by is a parameter, as is the encoding of a bounce.
\<close>

section \<open>Judging one message\<close>

definition TICKET_POLICY_NONE :: string where "TICKET_POLICY_NONE = ''none''"
definition TICKET_POLICY_ALLOWED :: string where "TICKET_POLICY_ALLOWED = ''allowed''"

definition TICKET_POLICIES :: "string list" where
  "TICKET_POLICIES = [TICKET_POLICY_NONE, TICKET_POLICY_ALLOWED]"

datatype reply_state = ReplyYes | ReplyNo | ReplyUnattributed | ReplyNotChecked

datatype loop_finding = TicketOpened string | BaitAnswered | ReplyEmitted string
datatype loop_note = FiledOnExisting | TicketWasAllowed | NoOutboundSink

record loop_result =
  lp_tag :: string
  lp_kind :: string
  lp_marker :: string
  lp_ticked :: bool
  lp_replied :: "bool option"
  lp_is_loop_bait :: bool
  lp_findings :: "loop_finding list"
  lp_notes :: "loop_note list"
  lp_reply_state :: reply_state

definition lp_passed :: "loop_result \<Rightarrow> bool" where
  "lp_passed r \<longleftrightarrow> lp_findings r = []"

text \<open>\<open>judge_one\<close>; \<open>None\<close> is the error of a ticket policy that is none.\<close>

definition judge_one ::
  "machine_mail \<Rightarrow> readback list \<Rightarrow> readback list option \<Rightarrow> string \<Rightarrow> bool \<Rightarrow> string option list \<Rightarrow>
     loop_result option"
where
  "judge_one m readbacks outbound ticket_policy unattributed_seen threaded_ticket_ids =
     (if ticket_policy \<notin> set TICKET_POLICIES then None
      else (let opened = filter (\<lambda>r. rb_ticket_id r \<notin> set threaded_ticket_ids) readbacks;
                ticked = (opened \<noteq> []);
                allowed = (ticket_policy = TICKET_POLICY_ALLOWED)
            in Some \<lparr>lp_tag = ml_tag m, lp_kind = ml_kind m, lp_marker = ml_marker m,
                lp_ticked = ticked,
                lp_replied = (case outbound of None \<Rightarrow> None
                  | Some rs \<Rightarrow> if rs \<noteq> [] then Some True
                              else if unattributed_seen then None else Some False),
                lp_is_loop_bait = ml_is_loop_bait m,
                lp_findings = (if ticked \<and> \<not> allowed then [TicketOpened (ml_marker m)] else []) @
                  (case outbound of None \<Rightarrow> []
                   | Some rs \<Rightarrow> if rs \<noteq> []
                       then [if ml_is_loop_bait m then BaitAnswered else ReplyEmitted (ml_marker m)]
                       else []),
                lp_notes = (if length opened < length readbacks then [FiledOnExisting] else []) @
                  (if ticked \<and> allowed then [TicketWasAllowed] else []) @
                  (if outbound = None then [NoOutboundSink] else []),
                lp_reply_state = (case outbound of None \<Rightarrow> ReplyNotChecked
                  | Some rs \<Rightarrow> if rs \<noteq> [] then ReplyYes
                              else if unattributed_seen then ReplyUnattributed else ReplyNo)\<rparr>))"

fun judge_mail ::
  "machine_mail list \<Rightarrow> (string \<Rightarrow> readback list) \<Rightarrow> (string \<Rightarrow> readback list) option \<Rightarrow> string \<Rightarrow>
     bool \<Rightarrow> string option list \<Rightarrow> loop_result list option"
where
  "judge_mail [] readbacks outbound policy unattributed_seen existing = Some []"
| "judge_mail (m # ms) readbacks outbound policy unattributed_seen existing =
     (case judge_one m (readbacks (ml_tag m)) (map_option (\<lambda>f. f (ml_tag m)) outbound) policy
             unattributed_seen (if ml_is_loop_bait m then existing else []) of
        None \<Rightarrow> None
      | Some r \<Rightarrow> map_option (Cons r)
          (judge_mail ms readbacks outbound policy unattributed_seen existing))"

section \<open>Attributing outbound mail\<close>

text \<open>\<open>new_records\<close>: the records of \<open>after\<close> beyond those of \<open>before\<close>, by their text and as
  often; the list is the counter's remaining entries.\<close>

fun new_from :: "(readback \<Rightarrow> 'k) \<Rightarrow> readback list \<Rightarrow> 'k list \<Rightarrow> readback list" where
  "new_from key [] remaining = []"
| "new_from key (r # rs) remaining =
     (if key r \<in> set remaining then new_from key rs (remove1 (key r) remaining)
      else r # new_from key rs remaining)"

definition new_records :: "(readback \<Rightarrow> 'k) \<Rightarrow> readback list \<Rightarrow> readback list \<Rightarrow> readback list" where
  "new_records key after before = new_from key after (map key before)"

definition attribute :: "readback \<Rightarrow> string list \<Rightarrow> (string \<rightharpoonup> string) \<Rightarrow> string option" where
  "attribute r tags message_ids =
     (case (case rb_tag r of Some t \<Rightarrow> if t \<noteq> [] \<and> t \<in> set tags then Some t else None | None \<Rightarrow> None) of
        Some t \<Rightarrow> Some t
      | None \<Rightarrow>
          Option.bind (find (\<lambda>c. truthy (message_ids (bare_id c)))
            (rb_in_reply_to r # map Some (rb_references r))) (\<lambda>c. message_ids (bare_id c)))"

fun merge_from ::
  "(readback \<Rightarrow> 'k) \<Rightarrow> readback list \<Rightarrow> string list \<Rightarrow> (string \<rightharpoonup> string) \<Rightarrow>
     (string \<Rightarrow> readback list) \<Rightarrow> (string \<Rightarrow> 'k list) \<Rightarrow> readback list \<Rightarrow>
     (string \<Rightarrow> readback list) \<times> readback list"
where
  "merge_from key [] tags message_ids merged seen unattributed = (merged, unattributed)"
| "merge_from key (r # rs) tags message_ids merged seen unattributed =
     (case attribute r tags message_ids of
        None \<Rightarrow> merge_from key rs tags message_ids merged seen (unattributed @ [r])
      | Some tag \<Rightarrow>
          if key r \<in> set (seen tag)
          then merge_from key rs tags message_ids merged seen unattributed
          else merge_from key rs tags message_ids (merged(tag := merged tag @ [r]))
                 (seen(tag := seen tag @ [key r])) unattributed)"

definition merge_outbound ::
  "(readback \<Rightarrow> 'k) \<Rightarrow> (string \<Rightarrow> readback list) \<Rightarrow> readback list \<Rightarrow> string list \<Rightarrow> (string \<rightharpoonup> string) \<Rightarrow>
     (string \<Rightarrow> readback list) \<times> readback list"
where
  "merge_outbound key by_tag enumerated_new tags message_ids =
     (let merged = (\<lambda>t. if t \<in> set tags then by_tag t else [])
      in merge_from key enumerated_new tags message_ids merged (\<lambda>t. map key (merged t)) [])"

section \<open>The summary\<close>

datatype run_finding = OutboundUnattributed nat | NothingLookedUp | RunUnsettled

datatype parent_source = PipelineOutbound string | FabricatedParent bool

record loop_summary =
  lm_sent :: nat
  lm_checked :: nat
  lm_message_findings :: nat
  lm_findings :: nat
  lm_run_findings :: "run_finding list"
  lm_ticket_policy :: string
  lm_tickets_opened :: nat
  lm_auto_replies_emitted :: nat
  lm_auto_reply_checked :: nat
  lm_auto_reply_skipped :: nat
  lm_auto_reply_unattributed :: nat
  lm_outbound_enumerated :: "bool option"
  lm_outbound_partial :: bool
  lm_loop_bait_answered :: nat
  lm_bait_parent :: parent_source
  lm_unsettled :: bool
  lm_readback_failed :: bool
  lm_verdict :: string

definition headline_qualifier :: "nat \<Rightarrow> bool option \<Rightarrow> string" where
  "headline_qualifier n_skipped enumerated =
     (if n_skipped \<noteq> 0 then '' (auto-reply NOT CHECKED)''
      else if enumerated = Some False then '' (untagged auto-replies NOT CHECKED)'' else [])"

text \<open>\<open>headline\<close> of a summary that is not an aborted run's.\<close>

definition loop_headline :: "bool \<Rightarrow> bool \<Rightarrow> nat \<Rightarrow> nat \<Rightarrow> bool option \<Rightarrow> string" where
  "loop_headline failed unsettled n_findings n_skipped enumerated =
     (if failed then READBACK_FAILED
      else if unsettled then UNSETTLED
      else if n_findings = 0 then ''LOOP-SAFE'' else ''LOOPS-DETECTED'') @
     headline_qualifier n_skipped enumerated"

definition summarize_loop ::
  "loop_result list \<Rightarrow> nat \<Rightarrow> string \<Rightarrow> readback list \<Rightarrow> bool option \<Rightarrow> bool \<Rightarrow> parent_source \<Rightarrow>
     bool \<Rightarrow> bool \<Rightarrow> loop_summary"
where
  "summarize_loop results n_sent policy unattributed enumerated partial parent unsettled failed =
     (let failing = filter (\<lambda>r. \<not> lp_passed r) results;
          run_findings = (if unattributed \<noteq> [] then [OutboundUnattributed (length unattributed)] else []) @
            (if failed then [NothingLookedUp] else if unsettled then [RunUnsettled] else []);
          skipped_replies = length (filter (\<lambda>r. lp_reply_state r = ReplyNotChecked) results);
          n_findings = length failing + length run_findings
      in \<lparr>lm_sent = n_sent, lm_checked = length results, lm_message_findings = length failing,
          lm_findings = n_findings, lm_run_findings = run_findings, lm_ticket_policy = policy,
          lm_tickets_opened = length (filter lp_ticked results),
          lm_auto_replies_emitted = length (filter (\<lambda>r. lp_replied r = Some True) results),
          lm_auto_reply_checked = length (filter (\<lambda>r. lp_reply_state r \<in> {ReplyYes, ReplyNo}) results),
          lm_auto_reply_skipped = skipped_replies,
          lm_auto_reply_unattributed = length unattributed,
          lm_outbound_enumerated = enumerated, lm_outbound_partial = partial,
          lm_loop_bait_answered =
            length (filter (\<lambda>r. lp_is_loop_bait r \<and> lp_replied r = Some True) results),
          lm_bait_parent = parent, lm_unsettled = unsettled, lm_readback_failed = failed,
          lm_verdict = loop_headline failed unsettled n_findings skipped_replies enumerated\<rparr>)"

record message_entry =
  me_tag :: string
  me_record_id :: string
  me_kind :: string
  me_marker :: string
  me_subject :: string
  me_from_addr :: string
  me_message_id :: string
  me_is_loop_bait :: bool
  me_result :: "loop_result option"

record loop_artifact =
  lx_summary :: loop_summary
  lx_verdict_source :: verdict_source
  lx_readback :: "outcome option"
  lx_messages :: "message_entry list"
  lx_outbound_unattributed :: "readback list"

definition build_loop_artifact ::
  "machine_mail list \<Rightarrow> loop_result list \<Rightarrow> loop_summary \<Rightarrow> readback list \<Rightarrow> verdict_source \<Rightarrow>
     outcome option \<Rightarrow> loop_artifact"
where
  "build_loop_artifact corpus results summary unattributed source out =
     \<lparr>lx_summary = summary, lx_verdict_source = source, lx_readback = out,
      lx_messages = map (\<lambda>m. \<lparr>me_tag = ml_tag m, me_record_id = ml_record_id m, me_kind = ml_kind m,
        me_marker = ml_marker m, me_subject = em_subject (ml_email m),
        me_from_addr = em_from_addr (ml_email m), me_message_id = ml_message_id m,
        me_is_loop_bait = ml_is_loop_bait m,
        me_result = map_of (rev (map (\<lambda>r. (lp_tag r, r)) results)) (ml_tag m)\<rparr>) corpus,
      lx_outbound_unattributed = take 200 unattributed\<rparr>"

section \<open>Waiting for the pipeline's reply\<close>

text \<open>\<open>can_enumerate\<close> of \<open>readback.py\<close> on a built adapter: only a declared boolean wins over
  having a \<open>list_all\<close>.\<close>

definition enumerable :: "'w built \<Rightarrow> bool" where
  "enumerable b = (case bt_can_enumerate b of CanDeclared c \<Rightarrow> c | CanMethod _ \<Rightarrow> bt_list_all b \<noteq> None)"

datatype loop_error =
    LoopSend rate_error
  | LoopPoll poll_error
  | LoopLookup fetch_answer
  | LoopListing string
  | LoopBait corpus_error
  | LoopGuard guard_error

definition list_records :: "'w built \<Rightarrow> 'w \<Rightarrow> (loop_error + readback list \<times> bool) \<times> 'w" where
  "list_records b w =
     (case bt_list_all b of
        None \<Rightarrow> (Inl (LoopListing ''no list_all''), w)
      | Some f \<Rightarrow> (case f w of
            (Inl e, w') \<Rightarrow> (Inl (LoopListing e), w')
          | (Inr fr, w') \<Rightarrow> (Inr (fr_items fr, fr_partial fr), w')))"

text \<open>One round of \<open>_find_reply\<close>: what was found, by tag or by what it answers.\<close>

definition look_for_reply ::
  "(readback \<Rightarrow> 'k) \<Rightarrow> 'w built \<Rightarrow> machine_mail \<Rightarrow> readback list \<Rightarrow> bool \<Rightarrow> 'w \<Rightarrow>
     (loop_error + readback list) \<times> 'w"
where
  "look_for_reply key b precursor baseline can_list w =
     (case src_fetch (bt_source b) (ml_probe precursor) w of
        (Answer fr, w1) \<Rightarrow>
          if fr_items fr = [] \<and> can_list
          then (case list_records b w1 of
                  (Inl e, w2) \<Rightarrow> (Inl e, w2)
                | (Inr (records, _), w2) \<Rightarrow>
                    (Inr (filter (\<lambda>r. truthy (attribute r [ml_tag precursor]
                           [ml_message_id precursor \<mapsto> ml_tag precursor]))
                       (new_records key records baseline)), w2))
          else (Inr (fr_items fr), w1)
      | (other, w1) \<Rightarrow> (Inl (LoopLookup other), w1))"

partial_function (option) find_reply ::
  "'w timing \<Rightarrow> (readback \<Rightarrow> 'k) \<Rightarrow> 'w built \<Rightarrow> machine_mail \<Rightarrow> readback list \<Rightarrow> bool \<Rightarrow> seconds \<Rightarrow>
     seconds \<Rightarrow> seconds \<Rightarrow> 'w \<Rightarrow> ((loop_error + readback option) \<times> 'w) option"
where
  "find_reply T key b precursor baseline can_list started wait poll_interval w =
     (case look_for_reply key b precursor baseline can_list w of
        (Inl e, w1) \<Rightarrow> Some (Inl e, w1)
      | (Inr (r # rs), w1) \<Rightarrow> Some (Inr (Some r), w1)
      | (Inr [], w1) \<Rightarrow>
          (case read_clock T w1 of (t, w2) \<Rightarrow>
             if wait \<le> t - started then Some (Inr None, w2)
             else find_reply T key b precursor baseline can_list started wait poll_interval
                    (do_sleep T poll_interval w2)))"

declare find_reply.simps [code]

section \<open>The run\<close>

record loop_params =
  lq_seed :: int
  lq_count :: int
  lq_target :: "string option"
  lq_tag_prefix :: string
  lq_rate :: rat
  lq_ticket_policy :: string
  lq_reply_address :: string
  lq_quiet_window :: seconds
  lq_max_wait :: "seconds option"
  lq_poll_interval :: seconds
  lq_ack_wait :: seconds
  lq_allow_public :: bool
  lq_readback :: rate_source
  lq_outbound :: "rate_source option"

record ('w, 'q) loop_env = "('w, 'q) env" +
  en_prepare_outbound :: "'w \<Rightarrow> (string + 'w built) \<times> 'w"
  en_report :: "string \<Rightarrow> email \<Rightarrow> 'q"
  en_record_key :: "readback \<Rightarrow> string"

definition build_mail_items :: "machine_mail list \<Rightarrow> item list" where
  "build_mail_items ms = map (\<lambda>m. (ml_email m, ml_tag m, ml_record_id m, ml_probe m)) ms"

text \<open>The mail of a run and its target, or a refusal: everything before the adapters.\<close>

record loop_plan =
  pl_corpus :: "machine_mail list"
  pl_precursor :: machine_mail
  pl_bait :: machine_mail
  pl_target :: resolved_target
  pl_poll :: poll_settings

definition plan_loop :: "('w, 'q) loop_env \<Rightarrow> loop_params \<Rightarrow> loop_plan option" where
  "plan_loop E P =
     (if lq_ticket_policy P \<notin> set TICKET_POLICIES then None
      else (case (build_machine_corpus (lq_seed P) (lq_count P) (lq_tag_prefix P),
                  build_precursor (lq_seed P) (lq_count P) (lq_tag_prefix P),
                  build_loop_bait (lq_seed P) (lq_count P) (lq_tag_prefix P) (lq_reply_address P) None) of
          (Inr corpus, Inr precursor, Inr bait) \<Rightarrow>
            (case (require_synthetic (en_net E) (map ml_email (corpus @ [precursor, bait])),
                   resolve_target (en_net E) (lq_target P) (en_config E) (lq_allow_public P) []) of
               (Inr _, Inr target) \<Rightarrow>
                 (let settings = (\<lambda>tags rb. readback_poll_settings tags (Some rb) (lq_quiet_window P)
                        (lq_max_wait P) (lq_poll_interval P));
                      inbound = settings (length corpus + 2) (lq_readback P)
                  in Some \<lparr>pl_corpus = corpus, pl_precursor = precursor, pl_bait = bait,
                       pl_target = target,
                       pl_poll = (case lq_outbound P of None \<Rightarrow> inbound
                         | Some rb \<Rightarrow> (let sink = settings (length corpus + 1) rb
                             in if ps_max_wait inbound < ps_max_wait sink then sink else inbound))\<rparr>)
             | _ \<Rightarrow> None)
        | _ \<Rightarrow> None))"

text \<open>The adapters, in order, and what the sink holds before anything is sent; on a failure
  those that were built are closed again.\<close>

definition close_sink :: "'w built option \<Rightarrow> 'w \<Rightarrow> 'w" where
  "close_sink sink w = (case sink of None \<Rightarrow> w | Some b \<Rightarrow> bt_close b w)"

definition prepare_loop ::
  "('w, 'q) loop_env \<Rightarrow> loop_params \<Rightarrow> 'w \<Rightarrow> ('w built \<times> 'w built option \<times> readback list) option \<times> 'w"
where
  "prepare_loop E P w =
     (case en_prepare E w of
        (Inl e, w1) \<Rightarrow> (None, w1)
      | (Inr b, w1) \<Rightarrow>
          (case lq_outbound P of
             None \<Rightarrow> (Some (b, None, []), w1)
           | Some _ \<Rightarrow>
               (case en_prepare_outbound E w1 of
                  (Inl e, w2) \<Rightarrow> (None, bt_close b w2)
                | (Inr sink, w2) \<Rightarrow>
                    if \<not> enumerable sink then (Some (b, Some sink, []), w2)
                    else (case list_records sink w2 of
                        (Inl e, w3) \<Rightarrow> (None, bt_close b (bt_close sink w3))
                      | (Inr (records, _), w3) \<Rightarrow> (Some (b, Some sink, records), w3)))))"

text \<open>A step of the run: it may not come back, fail, or go on in a world.\<close>

definition and_then ::
  "(('e + 'a) \<times> 'w) option \<Rightarrow> ('a \<Rightarrow> 'w \<Rightarrow> (('e + 'b) \<times> 'w) option) \<Rightarrow> (('e + 'b) \<times> 'w) option"
where
  "and_then s f = (case s of None \<Rightarrow> None | Some (Inl e, w) \<Rightarrow> Some (Inl e, w) | Some (Inr a, w) \<Rightarrow> f a w)"

definition failing_as :: "('e \<Rightarrow> 'f) \<Rightarrow> (('e + 'a) \<times> 'w) option \<Rightarrow> (('f + 'a) \<times> 'w) option" where
  "failing_as g s = map_option (\<lambda>(r, w). (map_sum g id r, w)) s"

text \<open>The bait: an answer to the reply that was found, or the one with the fabricated parent.
  The sink is listed again before the bait goes out.\<close>

definition choose_bait ::
  "('w, 'q) loop_env \<Rightarrow> loop_params \<Rightarrow> loop_plan \<Rightarrow> 'w built option \<Rightarrow> readback list \<Rightarrow> 'w \<Rightarrow>
     ((loop_error + machine_mail \<times> parent_source \<times> readback list) \<times> 'w) option"
where
  "choose_bait E P L sink baseline w =
     (case sink of
        None \<Rightarrow> Some (Inr (pl_bait L, FabricatedParent False, baseline), w)
      | Some b \<Rightarrow>
          (case read_clock (en_timing E) w of (started, w1) \<Rightarrow>
           and_then (find_reply (en_timing E) (en_record_key E) b (pl_precursor L) baseline (enumerable b)
               started (min (lq_ack_wait P) (ps_max_wait (pl_poll L))) (lq_poll_interval P) w1)
             (\<lambda>reply w2.
                let parent_id = (case reply of None \<Rightarrow> [] | Some r \<Rightarrow> bare_id (rb_message_id r));
                    again = (\<lambda>bait source. if enumerable b
                      then (case list_records b w2 of
                          (Inl e, w3) \<Rightarrow> Some (Inl e, w3)
                        | (Inr (records, _), w3) \<Rightarrow> Some (Inr (bait, source, records), w3))
                      else Some (Inr (bait, source, baseline), w2))
                in if parent_id = [] then again (pl_bait L) (FabricatedParent True)
                   else (case build_loop_bait (lq_seed P) (lq_count P) (lq_tag_prefix P)
                           (lq_reply_address P) (Some parent_id) of
                       Inl e \<Rightarrow> Some (Inl (LoopBait e), w2)
                     | Inr bait \<Rightarrow> again bait (PipelineOutbound parent_id)))))"

record outbound_view =
  ov_by_tag :: "string \<Rightarrow> readback list"
  ov_unattributed :: "readback list"
  ov_partial :: bool
  ov_unsettled :: bool

definition ids_to_tags :: "machine_mail list \<Rightarrow> string \<rightharpoonup> string" where
  "ids_to_tags ms = map_of (rev (map (\<lambda>m. (ml_message_id m, ml_tag m)) ms))"

definition poll_args_for ::
  "('w, 'q) loop_env \<Rightarrow> loop_params \<Rightarrow> loop_plan \<Rightarrow> 'w built \<Rightarrow> 'w poll_args"
where
  "poll_args_for E P L b = \<lparr>pa_timing = en_timing E, pa_source = bt_source b, pa_repr = en_repr E,
     pa_quiet_window = lq_quiet_window P, pa_max_wait = ps_max_wait (pl_poll L),
     pa_poll_interval = lq_poll_interval P\<rparr>"

definition view_outbound ::
  "('w, 'q) loop_env \<Rightarrow> loop_params \<Rightarrow> loop_plan \<Rightarrow> machine_mail list \<Rightarrow> 'w built \<Rightarrow> readback list \<Rightarrow> 'w \<Rightarrow>
     ((loop_error + outbound_view) \<times> 'w) option"
where
  "view_outbound E P L mail b baseline w =
     and_then (failing_as LoopPoll (read_back_all (poll_args_for E P L b) (map ml_probe mail) w))
       (\<lambda>out w1.
          let tags = map ml_tag mail;
              see = (\<lambda>(records, partial) w2.
                (case merge_outbound (en_record_key E) (held out) records (tags @ [ml_tag (pl_precursor L)])
                        (ids_to_tags (mail @ [pl_precursor L])) of
                   (merged, unattributed) \<Rightarrow>
                     Some (Inr \<lparr>ov_by_tag = (\<lambda>t. if t \<in> set tags then merged t else []),
                       ov_unattributed = unattributed, ov_partial = partial,
                       ov_unsettled = ro_unsettled out\<rparr>, w2)))
          in if enumerable b
             then (case list_records b w1 of
                 (Inl e, w2) \<Rightarrow> Some (Inl e, w2)
               | (Inr (records, partial), w2) \<Rightarrow>
                   see (new_records (en_record_key E) records baseline, partial) w2)
             else see ([], False) w1)"

record loop_evidence =
  le_judged :: "machine_mail list"
  le_sent :: nat
  le_outcome :: outcome
  le_parent :: parent_source
  le_outbound :: "outbound_view option"
  le_can_list :: "bool option"

definition see_sink ::
  "('w, 'q) loop_env \<Rightarrow> loop_params \<Rightarrow> loop_plan \<Rightarrow> machine_mail list \<Rightarrow> 'w built option \<Rightarrow>
     readback list \<Rightarrow> 'w \<Rightarrow> ((loop_error + outbound_view option) \<times> 'w) option"
where
  "see_sink E P L mail sink baseline w =
     (case sink of
        None \<Rightarrow> Some (Inr None, w)
      | Some s \<Rightarrow> and_then (view_outbound E P L mail s baseline w) (\<lambda>v w1. Some (Inr (Some v), w1)))"

definition send_mail ::
  "('w, 'q) loop_env \<Rightarrow> loop_params \<Rightarrow> loop_plan \<Rightarrow> machine_mail list \<Rightarrow> 'w \<Rightarrow>
     ((loop_error + sent_message list) \<times> 'w) option"
where
  "send_mail E P L ms w =
     failing_as LoopSend (send_all (en_timing E) (en_client E (rt_url (pl_target L)))
       (loop_encode (en_build E) (en_report E) (rt_format_name (pl_target L)))
       (build_mail_items ms) (lq_rate P) w)"

definition fire_bait ::
  "('w, 'q) loop_env \<Rightarrow> loop_params \<Rightarrow> loop_plan \<Rightarrow> 'w built \<Rightarrow> 'w built option \<Rightarrow> nat \<Rightarrow>
     machine_mail \<Rightarrow> parent_source \<Rightarrow> readback list \<Rightarrow> 'w \<Rightarrow> ((loop_error + loop_evidence) \<times> 'w) option"
where
  "fire_bait E P L b sink n_sent bait parent baseline w =
     (let mail = pl_corpus L @ [bait] in
      and_then (Some (map_sum LoopGuard id (require_synthetic (en_net E) [ml_email bait]), w)) (\<lambda>_ w1.
      and_then (send_mail E P L mail w1) (\<lambda>more w2.
      and_then (failing_as LoopPoll (read_back_all (poll_args_for E P L b)
                  (map ml_probe (pl_precursor L # mail)) w2)) (\<lambda>out w3.
      and_then (see_sink E P L mail sink baseline w3) (\<lambda>view w4.
      Some (Inr \<lparr>le_judged = mail, le_sent = n_sent + length more, le_outcome = out,
        le_parent = parent, le_outbound = view, le_can_list = map_option enumerable sink\<rparr>, w4))))))"

definition fire_loop ::
  "('w, 'q) loop_env \<Rightarrow> loop_params \<Rightarrow> loop_plan \<Rightarrow> 'w built \<Rightarrow> 'w built option \<Rightarrow> readback list \<Rightarrow> 'w \<Rightarrow>
     ((loop_error + loop_evidence) \<times> 'w) option"
where
  "fire_loop E P L b sink baseline w =
     and_then (send_mail E P L [pl_precursor L] w) (\<lambda>first w1.
     and_then (choose_bait E P L sink baseline w1) (\<lambda>(bait, parent, baseline') w2.
     fire_bait E P L b sink (length first) bait parent baseline' w2))"

definition judge_loop :: "loop_plan \<Rightarrow> string \<Rightarrow> loop_evidence \<Rightarrow> loop_artifact executed" where
  "judge_loop L policy ev =
     (let out = le_outcome ev; view = le_outbound ev;
          unattributed = (case view of None \<Rightarrow> [] | Some v \<Rightarrow> ov_unattributed v);
          unsettled = (ro_unsettled out \<or> (case view of None \<Rightarrow> False | Some v \<Rightarrow> ov_unsettled v));
          precursor = pl_precursor L
      in case judge_mail (le_judged ev) (held out) (map_option ov_by_tag view) policy
                (unattributed \<noteq> []) (map rb_ticket_id (held out (ml_tag precursor))) of
           None \<Rightarrow> Raises
         | Some results \<Rightarrow>
             (let summary = summarize_loop results (le_sent ev) policy unattributed (le_can_list ev)
                    (case view of None \<Rightarrow> False | Some v \<Rightarrow> ov_partial v) (le_parent ev) unsettled
                    (ro_failed out)
              in Exits (if lm_findings summary = 0 then EXIT_OK else EXIT_MISMATCH)
                   (Some (build_loop_artifact (precursor # le_judged ev) results summary unattributed
                     (if unsettled \<or> ro_failed out then FromReadback else FromTool) (Some out)))))"

definition loop_execute ::
  "('w, 'q) loop_env \<Rightarrow> loop_params \<Rightarrow> 'w \<Rightarrow> (loop_artifact executed \<times> 'w) option"
where
  "loop_execute E P w =
     (case plan_loop E P of
        None \<Rightarrow> Some (Exits EXIT_REFUSED None, w)
      | Some L \<Rightarrow>
          (case prepare_loop E P w of
             (None, w1) \<Rightarrow> Some (Exits EXIT_REFUSED None, w1)
           | (Some (b, sink, baseline), w1) \<Rightarrow>
               (case fire_loop E P L b sink baseline w1 of
                  None \<Rightarrow> None
                | Some (Inl e, w2) \<Rightarrow> Some (Exits EXIT_REFUSED None, bt_close b (close_sink sink w2))
                | Some (Inr ev, w2) \<Rightarrow>
                    Some (judge_loop L (lq_ticket_policy P) ev, bt_close b (close_sink sink w2)))))"

section \<open>Facts about judging\<close>

definition opened_tickets :: "machine_mail \<Rightarrow> (string \<Rightarrow> readback list) \<Rightarrow> string option list \<Rightarrow> readback list" where
  "opened_tickets m readbacks existing =
     filter (\<lambda>r. \<not> (ml_is_loop_bait m \<and> rb_ticket_id r \<in> set existing)) (readbacks (ml_tag m))"

definition acted_on ::
  "machine_mail \<Rightarrow> (string \<Rightarrow> readback list) \<Rightarrow> (string \<Rightarrow> readback list) option \<Rightarrow> string \<Rightarrow> string option list \<Rightarrow> bool"
where
  "acted_on m readbacks outbound policy existing \<longleftrightarrow>
     (policy \<noteq> TICKET_POLICY_ALLOWED \<and> opened_tickets m readbacks existing \<noteq> []) \<or>
     (case outbound of None \<Rightarrow> False | Some f \<Rightarrow> f (ml_tag m) \<noteq> [])"

lemma judge_one_ok:
  assumes "policy \<in> set TICKET_POLICIES"
  shows "\<exists>r. judge_one m (readbacks (ml_tag m)) (map_option (\<lambda>f. f (ml_tag m)) outbound) policy seen
      (if ml_is_loop_bait m then existing else []) = Some r \<and>
    (lp_passed r \<longleftrightarrow> \<not> acted_on m readbacks outbound policy existing) \<and>
    lp_tag r = ml_tag m \<and> lp_is_loop_bait r = ml_is_loop_bait m \<and>
    (lp_replied r = Some True \<longleftrightarrow> (\<exists>f. outbound = Some f \<and> f (ml_tag m) \<noteq> [])) \<and>
    (lp_replied r = Some False \<longleftrightarrow> (\<exists>f. outbound = Some f \<and> f (ml_tag m) = []) \<and> \<not> seen) \<and>
    (lp_reply_state r = ReplyNotChecked \<longleftrightarrow> outbound = None)"
proof -
  have "opened_tickets m readbacks existing = filter (\<lambda>r. rb_ticket_id r \<notin>
      set (if ml_is_loop_bait m then existing else [])) (readbacks (ml_tag m))"
    by (auto simp: opened_tickets_def intro: filter_cong)
  with assms show ?thesis
    by (cases outbound) (auto simp: judge_one_def Let_def lp_passed_def acted_on_def)
qed

lemma judge_mail_ok:
  assumes "policy \<in> set TICKET_POLICIES"
  shows "\<exists>rs. judge_mail ms readbacks outbound policy seen existing = Some rs \<and> length rs = length ms \<and>
    (\<forall>i < length ms. (lp_passed (rs ! i) \<longleftrightarrow> \<not> acted_on (ms ! i) readbacks outbound policy existing) \<and>
       lp_tag (rs ! i) = ml_tag (ms ! i) \<and>
       (lp_replied (rs ! i) = Some False \<longrightarrow> (\<exists>f. outbound = Some f \<and> f (ml_tag (ms ! i)) = []) \<and> \<not> seen) \<and>
       (lp_reply_state (rs ! i) = ReplyNotChecked \<longleftrightarrow> outbound = None))"
proof (induction ms)
  case (Cons m ms)
  then obtain rs where rs: "judge_mail ms readbacks outbound policy seen existing = Some rs" "length rs = length ms"
    "\<forall>i < length ms. (lp_passed (rs ! i) \<longleftrightarrow> \<not> acted_on (ms ! i) readbacks outbound policy existing) \<and>
       lp_tag (rs ! i) = ml_tag (ms ! i) \<and>
       (lp_replied (rs ! i) = Some False \<longrightarrow> (\<exists>f. outbound = Some f \<and> f (ml_tag (ms ! i)) = []) \<and> \<not> seen) \<and>
       (lp_reply_state (rs ! i) = ReplyNotChecked \<longleftrightarrow> outbound = None)"
    by blast
  obtain r where r: "judge_one m (readbacks (ml_tag m)) (map_option (\<lambda>f. f (ml_tag m)) outbound) policy seen
      (if ml_is_loop_bait m then existing else []) = Some r"
    "lp_passed r \<longleftrightarrow> \<not> acted_on m readbacks outbound policy existing" "lp_tag r = ml_tag m"
    "lp_replied r = Some False \<longrightarrow> (\<exists>f. outbound = Some f \<and> f (ml_tag m) = []) \<and> \<not> seen"
    "lp_reply_state r = ReplyNotChecked \<longleftrightarrow> outbound = None"
    using judge_one_ok [OF assms, of m readbacks outbound seen existing] by blast
  have "judge_mail (m # ms) readbacks outbound policy seen existing = Some (r # rs)"
    using rs(1) r(1) by simp
  with rs(2,3) r(2-5) show ?case by (intro exI [of _ "r # rs"]) (simp add: All_less_Suc2)
qed simp

lemma summarize_loop_fields:
  "lm_findings (summarize_loop results n policy un en partial parent unsettled failed) = 0 \<longleftrightarrow>
     (\<forall>r \<in> set results. lp_passed r) \<and> un = [] \<and> \<not> unsettled \<and> \<not> failed"
  "lm_verdict (summarize_loop results n policy un en partial parent unsettled failed) =
     loop_headline failed unsettled (lm_findings (summarize_loop results n policy un en partial parent
       unsettled failed)) (length (filter (\<lambda>r. lp_reply_state r = ReplyNotChecked) results)) en"
  by (auto simp: summarize_loop_def Let_def filter_empty_conv)

lemma loop_headline_safe:
  "prefix ''LOOP-SAFE'' (loop_headline failed unsettled n k en) \<longleftrightarrow> \<not> failed \<and> \<not> unsettled \<and> n = 0"
  by (simp add: loop_headline_def READBACK_FAILED_def UNSETTLED_def)

definition view_unattributed :: "outbound_view option \<Rightarrow> readback list" where
  "view_unattributed v = (case v of None \<Rightarrow> [] | Some x \<Rightarrow> ov_unattributed x)"

definition evidence_settled :: "loop_evidence \<Rightarrow> bool" where
  "evidence_settled ev \<longleftrightarrow> ro_stable (le_outcome ev) \<and>
     (\<forall>v. le_outbound ev = Some v \<longrightarrow> \<not> ov_unsettled v)"

lemma judge_loop_exit:
  assumes "policy \<in> set TICKET_POLICIES"
  shows "\<exists>c a. judge_loop L policy ev = Exits c (Some a) \<and> c \<in> {EXIT_OK, EXIT_FINDING} \<and>
    (c = EXIT_OK \<longleftrightarrow> prefix ''LOOP-SAFE'' (lm_verdict (lx_summary a))) \<and>
    (c = EXIT_OK \<longleftrightarrow> evidence_settled ev \<and> \<not> ro_all_404 (le_outcome ev) \<and>
       view_unattributed (le_outbound ev) = [] \<and>
       (\<forall>m \<in> set (le_judged ev). \<not> acted_on m (held (le_outcome ev)) (map_option ov_by_tag (le_outbound ev))
          policy (map rb_ticket_id (held (le_outcome ev) (ml_tag (pl_precursor L))))))"
proof -
  let ?out = "le_outcome ev" and ?view = "le_outbound ev"
  let ?existing = "map rb_ticket_id (held ?out (ml_tag (pl_precursor L)))"
  let ?acted = "\<lambda>m. acted_on m (held ?out) (map_option ov_by_tag ?view) policy ?existing"
  define un where "un = view_unattributed ?view"
  define unsettled where "unsettled \<longleftrightarrow> \<not> evidence_settled ev"
  obtain rs where rs: "judge_mail (le_judged ev) (held ?out) (map_option ov_by_tag ?view) policy (un \<noteq> []) ?existing = Some rs"
    "length rs = length (le_judged ev)"
    "\<forall>i < length (le_judged ev). lp_passed (rs ! i) \<longleftrightarrow> \<not> ?acted (le_judged ev ! i)"
    using judge_mail_ok [OF assms, of "le_judged ev" "held ?out" "map_option ov_by_tag ?view" "un \<noteq> []" ?existing]
    by blast
  have passed: "(\<forall>r \<in> set rs. lp_passed r) \<longleftrightarrow> (\<forall>m \<in> set (le_judged ev). \<not> ?acted m)"
    using rs(2,3) by (metis in_set_conv_nth)
  define digest where "digest = summarize_loop rs (le_sent ev) policy un (le_can_list ev)
    (case ?view of None \<Rightarrow> False | Some v \<Rightarrow> ov_partial v) (le_parent ev) unsettled (ro_failed ?out)"
  have u: "(ro_unsettled ?out \<or> (case ?view of None \<Rightarrow> False | Some v \<Rightarrow> ov_unsettled v)) = unsettled"
    by (auto simp: unsettled_def evidence_settled_def split: option.split)
  have j: "judge_loop L policy ev = Exits (if lm_findings digest = 0 then EXIT_OK else EXIT_MISMATCH)
      (Some (build_loop_artifact (pl_precursor L # le_judged ev) rs digest un
        (if unsettled \<or> ro_failed ?out then FromReadback else FromTool) (Some ?out)))"
    unfolding judge_loop_def Let_def u un_def [unfolded view_unattributed_def, symmetric] rs(1)
      option.case digest_def by (rule refl)
  have z: "lm_findings digest = 0 \<longleftrightarrow> evidence_settled ev \<and> \<not> ro_all_404 ?out \<and> un = [] \<and>
      (\<forall>m \<in> set (le_judged ev). \<not> ?acted m)"
    using passed by (auto simp: digest_def summarize_loop_fields unsettled_def)
  then have "prefix ''LOOP-SAFE'' (lm_verdict digest) \<longleftrightarrow> lm_findings digest = 0"
    using summarize_loop_fields(2) [of rs "le_sent ev" policy un "le_can_list ev" _ "le_parent ev" unsettled "ro_failed ?out"]
    by (auto simp: digest_def loop_headline_safe unsettled_def)
  with z show ?thesis unfolding j by (auto simp: exit_codes build_loop_artifact_def un_def)
qed

section \<open>Facts about attribution\<close>

lemma new_from_mset:
  "mset (map key (new_from key rs rem)) = mset (map key rs) - mset rem"
proof (induction rs arbitrary: rem)
  case (Cons r rs)
  show ?case
  proof (cases "key r \<in> set rem")
    case True
    then have "add_mset (key r) (mset (remove1 (key r) rem)) = mset rem" by (simp add: mset_remove1)
    from this [symmetric] True Cons [of "remove1 (key r) rem"] show ?thesis by (simp del: mset_remove1)
  next
    case False
    then have "key r \<notin># mset rem" by simp
    with False Cons [of rem] show ?thesis by (simp add: diff_add_mset_swap)
  qed
qed simp

lemma new_from_subset: "set (new_from key rs rem) \<subseteq> set rs"
  by (induction rs arbitrary: rem) (auto split: if_splits)

lemma merge_from_facts:
  assumes "merge_from key rs tags ids merged seen un = (merged', un')"
    and "\<forall>t. set (seen t) = key ` set (merged t)"
  shows "un' = un @ filter (\<lambda>r. attribute r tags ids = None) rs \<and>
    (\<forall>t. \<exists>extra. merged' t = merged t @ extra \<and> set extra \<subseteq> {r \<in> set rs. attribute r tags ids = Some t}) \<and>
    (\<forall>r \<in> set rs. \<forall>t. attribute r tags ids = Some t \<longrightarrow> key r \<in> key ` set (merged' t))"
  using assms
proof (induction rs arbitrary: merged seen un)
  case (Cons r rs)
  show ?case
  proof (cases "attribute r tags ids")
    case None
    with Cons.prems Cons.IH [of merged seen "un @ [r]"] show ?thesis by fastforce
  next
    case (Some tag)
    show ?thesis
    proof (cases "key r \<in> set (seen tag)")
      case True
      with Some Cons.prems(1) have run: "merge_from key rs tags ids merged seen un = (merged', un')" by simp
      note IH = Cons.IH [OF run Cons.prems(2)]
      have "key r \<in> key ` set (merged' tag)"
      proof -
        obtain extra where "merged' tag = merged tag @ extra" using IH by blast
        with True Cons.prems(2) show ?thesis by auto
      qed
      with IH Some show ?thesis by fastforce
    next
      case False
      let ?m = "merged(tag := merged tag @ [r])" and ?s = "seen(tag := seen tag @ [key r])"
      have run: "merge_from key rs tags ids ?m ?s un = (merged', un')"
        using Some False Cons.prems(1) by simp
      have inv: "\<forall>t. set (?s t) = key ` set (?m t)" using Cons.prems(2) by auto
      note IH = Cons.IH [OF run inv]
      have ext: "\<exists>extra. merged' t = merged t @ extra \<and> set extra \<subseteq> {x \<in> set (r # rs). attribute x tags ids = Some t}" for t
      proof -
        obtain extra where e: "merged' t = ?m t @ extra" "set extra \<subseteq> {x \<in> set rs. attribute x tags ids = Some t}"
          using IH by blast
        show ?thesis
        proof (cases "t = tag")
          case True
          with e Some show ?thesis by (intro exI [of _ "r # extra"]) auto
        next
          case False
          with e show ?thesis by (intro exI [of _ extra]) auto
        qed
      qed
      have "key r \<in> key ` set (merged' tag)"
      proof -
        obtain extra where "merged' tag = ?m tag @ extra" using IH by blast
        then show ?thesis by simp
      qed
      with IH ext Some show ?thesis by fastforce
    qed
  qed
qed auto

text \<open>Mail whose ids are derived from its tags, as all mail of a run is.\<close>

definition own_ids :: "machine_mail list \<Rightarrow> bool" where
  "own_ids ms \<longleftrightarrow> (\<forall>m \<in> set ms. ml_tag m \<noteq> [] \<and> ml_message_id m = build_chain_message_id (ml_tag m))"

lemma chain_id_inj: "build_chain_message_id t = build_chain_message_id u \<longleftrightarrow> t = u"
  by (simp add: build_chain_message_id_def)

lemma ids_to_tags_iff:
  assumes "own_ids ms"
  shows "ids_to_tags ms i = Some t \<longleftrightarrow> t \<in> set (map ml_tag ms) \<and> i = build_chain_message_id t"
proof -
  let ?ps = "rev (map (\<lambda>m. (ml_message_id m, ml_tag m)) ms)"
  have val: "(i, t) \<in> set ?ps \<longleftrightarrow> t \<in> set (map ml_tag ms) \<and> i = build_chain_message_id t" for i t
    using assms by (auto simp: own_ids_def)
  show ?thesis
  proof
    assume "ids_to_tags ms i = Some t"
    then show "t \<in> set (map ml_tag ms) \<and> i = build_chain_message_id t"
      using map_of_SomeD [of ?ps i t] val by (simp add: ids_to_tags_def)
  next
    assume t: "t \<in> set (map ml_tag ms) \<and> i = build_chain_message_id t"
    then have "(i, t) \<in> set ?ps" using val by blast
    then obtain u where u: "map_of ?ps i = Some u" by (metis weak_map_of_SomeI)
    then have "i = build_chain_message_id u" using val map_of_SomeD by fast
    with t u show "ids_to_tags ms i = Some t" by (simp add: ids_to_tags_def chain_id_inj)
  qed
qed

text \<open>A record answers a message when one of its threading headers has its id.\<close>

definition answers :: "readback \<Rightarrow> string \<Rightarrow> bool" where
  "answers r t \<longleftrightarrow> (\<exists>c \<in> set (rb_in_reply_to r # map Some (rb_references r)). bare_id c = build_chain_message_id t)"

lemma find_bind:
  "Option.bind (find (\<lambda>c. truthy (g c)) cs) g =
     (case filter (\<lambda>c. truthy (g c)) cs of [] \<Rightarrow> None | c # _ \<Rightarrow> g c)"
  by (induction cs) auto

lemma attribute_facts:
  assumes "own_ids ms"
  shows "attribute r (map ml_tag ms) (ids_to_tags ms) = None \<longleftrightarrow>
      (\<forall>t \<in> set (map ml_tag ms). rb_tag r \<noteq> Some t \<and> \<not> answers r t)"
    and "attribute r (map ml_tag ms) (ids_to_tags ms) = Some t \<Longrightarrow>
      t \<in> set (map ml_tag ms) \<and> (rb_tag r = Some t \<or> answers r t)"
proof -
  let ?tags = "map ml_tag ms" and ?ids = "ids_to_tags ms"
  let ?cs = "rb_in_reply_to r # map Some (rb_references r)"
  let ?hits = "filter (\<lambda>c. truthy (?ids (bare_id c))) ?cs"
  have ne: "t \<noteq> []" if "t \<in> set ?tags" for t using that assms by (auto simp: own_ids_def)
  have hit: "truthy (?ids (bare_id c)) \<longleftrightarrow> (\<exists>t \<in> set ?tags. bare_id c = build_chain_message_id t)" for c
  proof (cases "?ids (bare_id c)")
    case None
    then show ?thesis using ids_to_tags_iff [OF assms, of "bare_id c"] by auto
  next
    case (Some t)
    with ids_to_tags_iff [OF assms, of "bare_id c" t] ne show ?thesis by auto
  qed
  have a: "attribute r ?tags ?ids = (if \<exists>t \<in> set ?tags. rb_tag r = Some t then rb_tag r
      else case ?hits of [] \<Rightarrow> None | c # _ \<Rightarrow> ?ids (bare_id c))"
  proof -
    define H where "H = (case ?hits of [] \<Rightarrow> None | c # _ \<Rightarrow> ?ids (bare_id c))"
    have "Option.bind (find (\<lambda>c. truthy (?ids (bare_id c))) ?cs) (\<lambda>c. ?ids (bare_id c)) = H"
      unfolding H_def by (rule find_bind)
    then have "attribute r ?tags ?ids = (if \<exists>t \<in> set ?tags. rb_tag r = Some t then rb_tag r else H)"
      unfolding attribute_def using ne by (cases "rb_tag r") (auto simp del: find.simps)
    then show ?thesis unfolding H_def .
  qed
  have val: "\<exists>t \<in> set ?tags. ?ids (bare_id c) = Some t \<and> bare_id c = build_chain_message_id t"
    if "truthy (?ids (bare_id c))" for c
    using that hit [of c] ids_to_tags_iff [OF assms, of "bare_id c"] by auto
  have hits: "?hits = [] \<longleftrightarrow> (\<forall>t \<in> set ?tags. \<not> answers r t)"
    unfolding filter_empty_conv hit answers_def by blast
  have first: "\<exists>t \<in> set ?tags. ?ids (bare_id c) = Some t \<and> answers r t" if "?hits = c # cs" for c cs
  proof -
    have "c \<in> set ?hits" unfolding that by simp
    then have "c \<in> set ?cs" "truthy (?ids (bare_id c))" unfolding set_filter by simp_all
    with val show ?thesis unfolding answers_def by blast
  qed
  show "attribute r ?tags ?ids = None \<longleftrightarrow> (\<forall>t \<in> set ?tags. rb_tag r \<noteq> Some t \<and> \<not> answers r t)"
  proof (cases "\<exists>t \<in> set ?tags. rb_tag r = Some t")
    case False
    then have "attribute r ?tags ?ids = (case ?hits of [] \<Rightarrow> None | c # _ \<Rightarrow> ?ids (bare_id c))"
      unfolding a by (rule if_not_P)
    with False hits first show ?thesis by (cases ?hits) fastforce+
  qed (unfold a; auto)
  assume t: "attribute r ?tags ?ids = Some t"
  show "t \<in> set ?tags \<and> (rb_tag r = Some t \<or> answers r t)"
  proof (cases "\<exists>t \<in> set ?tags. rb_tag r = Some t")
    case True
    with t show ?thesis unfolding a by auto
  next
    case False
    then have "attribute r ?tags ?ids = (case ?hits of [] \<Rightarrow> None | c # _ \<Rightarrow> ?ids (bare_id c))"
      unfolding a by (rule if_not_P)
    with t first show ?thesis by (cases ?hits) fastforce+
  qed
qed

section \<open>The run comes back\<close>

definition built_patient :: "('w \<Rightarrow> seconds) \<Rightarrow> 'w built \<Rightarrow> bool" where
  "built_patient now b \<longleftrightarrow> source_patient now (bt_source b) \<and>
     (\<forall>f w. bt_list_all b = Some f \<longrightarrow> now w \<le> now (snd (f w)))"

lemma list_records_patient: "built_patient now b \<Longrightarrow> now w \<le> now (snd (list_records b w))"
  by (auto simp: list_records_def built_patient_def split: option.split prod.split sum.split)
    (metis snd_conv)+

lemma look_for_reply_patient:
  assumes "built_patient now b"
  shows "now w \<le> now (snd (look_for_reply key b pre baseline can w))"
proof -
  obtain a w1 where f: "src_fetch (bt_source b) (ml_probe pre) w = (a, w1)" by fastforce
  then have "now w \<le> now w1"
    using assms unfolding built_patient_def source_patient_def by (metis snd_conv)
  moreover note list_records_patient [OF assms, of w1]
  moreover obtain r w2 where "list_records b w1 = (r, w2)" by fastforce
  ultimately show ?thesis
    using f by (auto simp: look_for_reply_def split: fetch_answer.split sum.split)
qed

lemma find_reply_returns:
  assumes T: "monotonic T now" and b: "built_patient now b" and i: "0 < poll_interval"
    and "wait - (now w - started) \<le> of_nat n * poll_interval"
  shows "find_reply T key b pre baseline can started wait poll_interval w \<noteq> None"
  using assms(4)
proof (induction n arbitrary: w)
  case (0 w)
  obtain r w1 where l: "look_for_reply key b pre baseline can w = (r, w1)" by fastforce
  obtain t w2 where c: "read_clock T w1 = (t, w2)" by fastforce
  have "now w \<le> t"
    using look_for_reply_patient [OF b, of w key pre baseline can] l monotonic_clock [OF T c] by simp
  then have "wait \<le> t - started" using 0 by simp
  then show ?case
    by (subst find_reply.simps) (simp add: l c split: sum.split list.split)
next
  case (Suc n w)
  obtain r w1 where l: "look_for_reply key b pre baseline can w = (r, w1)" by fastforce
  obtain t w2 where c: "read_clock T w1 = (t, w2)" by fastforce
  have "now w \<le> now w2"
    using look_for_reply_patient [OF b, of w key pre baseline can] l monotonic_clock [OF T c] by simp
  moreover have "now w2 + poll_interval \<le> now (do_sleep T poll_interval w2)"
    using monotonic_sleep [OF T] i by simp
  ultimately have "wait - (now (do_sleep T poll_interval w2) - started) \<le> of_nat n * poll_interval"
    using Suc.prems by (simp add: algebra_simps)
  from Suc.IH [OF this] show ?case
    by (subst find_reply.simps) (simp add: l c split: sum.split list.split)
qed

lemma and_then_returns:
  "s \<noteq> None \<Longrightarrow> (\<And>a w. s = Some (Inr a, w) \<Longrightarrow> f a w \<noteq> None) \<Longrightarrow> and_then s f \<noteq> None"
  by (auto simp: and_then_def split: option.splits prod.splits sum.splits)

lemma failing_as_returns: "s \<noteq> None \<Longrightarrow> failing_as g s \<noteq> None"
  by (simp add: failing_as_def)

definition loop_behaved :: "('w, 'q) loop_env \<Rightarrow> ('w \<Rightarrow> seconds) \<Rightarrow> bool" where
  "loop_behaved E now \<longleftrightarrow> monotonic (en_timing E) now \<and> (\<forall>u. patient now (en_client E u)) \<and>
     (\<forall>w b w'. en_prepare E w = (Inr b, w') \<longrightarrow> source_patient now (bt_source b)) \<and>
     (\<forall>w b w'. en_prepare_outbound E w = (Inr b, w') \<longrightarrow> built_patient now b)"

lemma poll_returns:
  assumes "monotonic (en_timing E) now" "source_patient now (bt_source b)"
  shows "read_back_all (poll_args_for E P L b) ps w \<noteq> None"
  using read_back_all_returns [of "poll_args_for E P L b" now ps w] assms
  by (auto simp: poll_args_for_def)

lemma choose_bait_returns:
  assumes "monotonic (en_timing E) now" "0 < lq_poll_interval P"
    and "\<forall>b. sink = Some b \<longrightarrow> built_patient now b"
  shows "choose_bait E P L sink baseline w \<noteq> None"
proof (cases sink)
  case (Some b)
  then have b: "built_patient now b" using assms(3) by blast
  obtain started w1 where c: "read_clock (en_timing E) w = (started, w1)" by fastforce
  let ?wait = "min (lq_ack_wait P) (ps_max_wait (pl_poll L))"
  let ?n = "nat \<lceil>(?wait - (now w1 - started)) / lq_poll_interval P\<rceil>"
  have "(?wait - (now w1 - started)) / lq_poll_interval P \<le> of_nat ?n"
    by (metis of_nat_ceiling)
  then have "?wait - (now w1 - started) \<le> of_nat ?n * lq_poll_interval P"
    using assms(2) by (simp add: divide_le_eq)
  from find_reply_returns [OF assms(1) b assms(2) this]
  show ?thesis
    unfolding choose_bait_def Some option.case c prod.case
    by (intro and_then_returns) (auto simp: Let_def split: sum.split prod.split option.split)
qed (simp add: choose_bait_def)

lemma view_outbound_returns:
  assumes "monotonic (en_timing E) now" "built_patient now b"
  shows "view_outbound E P L ms b baseline w \<noteq> None"
  unfolding view_outbound_def
proof (intro and_then_returns failing_as_returns)
  show "read_back_all (poll_args_for E P L b) (map ml_probe ms) w \<noteq> None"
    using poll_returns [OF assms(1)] assms(2) by (auto simp: built_patient_def)
qed (auto simp: Let_def split: prod.split sum.split)

lemma fire_loop_returns:
  assumes "monotonic (en_timing E) now" "\<forall>u. patient now (en_client E u)" "0 < lq_rate P"
    "0 < lq_poll_interval P" "source_patient now (bt_source b)" "\<forall>s. sink = Some s \<longrightarrow> built_patient now s"
  shows "fire_loop E P L b sink baseline w \<noteq> None"
proof -
  have send: "send_mail E P L ms w \<noteq> None" for ms w
    unfolding send_mail_def
  proof (rule failing_as_returns)
    show "send_all (en_timing E) (en_client E (rt_url (pl_target L)))
        (loop_encode (en_build E) (en_report E) (rt_format_name (pl_target L))) (build_mail_items ms) (lq_rate P) w \<noteq> None"
      using send_all_returns [OF assms(1) assms(2) [rule_format] assms(3)] by (metis option.discI)
  qed
  have see: "see_sink E P L ms sink base w \<noteq> None" for ms base w
  proof (cases sink)
    case (Some s)
    then have "built_patient now s" using assms(6) by blast
    then show ?thesis
      unfolding see_sink_def Some option.case
      by (intro and_then_returns view_outbound_returns [OF assms(1)]) simp_all
  qed (simp add: see_sink_def)
  have bait: "fire_bait E P L b sink n bait parent base w \<noteq> None" for n bait parent base w
    unfolding fire_bait_def Let_def
    by (intro and_then_returns failing_as_returns send poll_returns [OF assms(1,5)] see) simp_all
  show ?thesis
    unfolding fire_loop_def
  proof (intro and_then_returns send choose_bait_returns [OF assms(1,4,6)])
    fix a w show "(case a of (bait, parent, baseline') \<Rightarrow> \<lambda>w2. fire_bait E P L b sink n bait parent baseline' w2) w \<noteq> None" for n
      using bait by (cases a) (simp del: not_None_eq)
  qed
qed

section \<open>Properties\<close>

text \<open>C5 (LOOP-SAFE means nothing was acted on). With a known ticket policy the judgement exits 0
  or 3, and 0 exactly when the recorded verdict starts with LOOP-SAFE, which is exactly when
  both readbacks settled, not every lookup was a 404, no outbound record went unattributed,
  and no judged message was acted on: no ticket unless the policy allows it - the bait may
  be filed on the ordinary message's tickets - and no attributed reply.\<close>

theorem loop_safe_iff:
  assumes "policy \<in> set TICKET_POLICIES"
  shows "\<exists>c a. judge_loop L policy ev = Exits c (Some a) \<and> c \<in> {EXIT_OK, EXIT_FINDING} \<and>
    (c = EXIT_OK \<longleftrightarrow> prefix ''LOOP-SAFE'' (lm_verdict (lx_summary a))) \<and>
    (c = EXIT_OK \<longleftrightarrow> evidence_settled ev \<and> \<not> ro_all_404 (le_outcome ev) \<and>
       view_unattributed (le_outbound ev) = [] \<and>
       (\<forall>m \<in> set (le_judged ev). \<not> acted_on m (held (le_outcome ev)) (map_option ov_by_tag (le_outbound ev))
          policy (map rb_ticket_id (held (le_outcome ev) (ml_tag (pl_precursor L))))))"
  using judge_loop_exit [OF assms] .

text \<open>What is new in the sink. The records \<open>new_records\<close> keeps are records of the later
  listing, and with their texts counted they are exactly what the later listing has more of
  than the earlier: a record listed before hides one equal record, never two.\<close>

theorem new_records_are_the_difference:
  "set (new_records key after before) \<subseteq> set after \<and>
   mset (map key (new_records key after before)) = mset (map key after) - mset (map key before)"
  unfolding new_records_def by (rule conjI [OF new_from_subset new_from_mset])

text \<open>A reply belongs to what it answers. Among messages whose ids are derived from their
  tags, a record is attributed to none of them exactly when it carries the tag of none and
  none of its threading headers has the id of one; a record that is attributed carries that
  tag or answers that message.\<close>

theorem attribution_exact:
  assumes "own_ids ms"
  shows "(attribute r (map ml_tag ms) (ids_to_tags ms) = None \<longleftrightarrow>
      (\<forall>t \<in> set (map ml_tag ms). rb_tag r \<noteq> Some t \<and> \<not> answers r t)) \<and>
    (\<forall>t. attribute r (map ml_tag ms) (ids_to_tags ms) = Some t \<longrightarrow>
      t \<in> set (map ml_tag ms) \<and> (rb_tag r = Some t \<or> answers r t))"
  using attribute_facts [OF assms] by blast


text \<open>A loop run comes back. Under an environment that lets time pass, with a rate and a
  poll interval above zero, \<open>loop\<close> always returns - the wait for the pipeline's reply to the
  ordinary message included - and with an exit code, never an exception. When the plan is
  refused - the policy, the payloads or the target - nothing has happened to the world.\<close>

theorem loop_comes_back:
  assumes "loop_behaved E now" "0 < lq_rate P" "0 < lq_poll_interval P"
  shows "\<exists>r w'. loop_execute E P w = Some (r, w') \<and>
    (plan_loop E P = None \<longrightarrow> w' = w \<and> r = Exits EXIT_REFUSED None) \<and>
    (r = Exits EXIT_REFUSED None \<or> (\<exists>c a. r = Exits c (Some a) \<and> c \<in> {EXIT_OK, EXIT_FINDING}))"
proof (cases "plan_loop E P")
  case None
  then show ?thesis by (simp add: loop_execute_def)
next
  case (Some L)
  then have policy: "lq_ticket_policy P \<in> set TICKET_POLICIES"
    by (auto simp: plan_loop_def split: if_splits)
  obtain prepared w1 where p: "prepare_loop E P w = (prepared, w1)" by fastforce
  show ?thesis
  proof (cases prepared)
    case None
    with Some p show ?thesis by (simp add: loop_execute_def)
  next
    case ready: (Some x)
    obtain b sink baseline where x: "x = (b, sink, baseline)" by (cases x) auto
    have "source_patient now (bt_source b)" "\<forall>s. sink = Some s \<longrightarrow> built_patient now s"
      using p ready x assms(1)
      by (auto simp: prepare_loop_def loop_behaved_def split: prod.splits sum.splits option.splits if_splits) blast+
    then have "fire_loop E P L b sink baseline w1 \<noteq> None"
      using fire_loop_returns [of E now P b sink L baseline w1] assms by (auto simp: loop_behaved_def)
    then obtain ev w2 where f: "fire_loop E P L b sink baseline w1 = Some (ev, w2)" by auto
    show ?thesis
    proof (cases ev)
      case (Inl e)
      with Some p ready x f show ?thesis by (simp add: loop_execute_def)
    next
      case (Inr v)
      obtain c a where "judge_loop L (lq_ticket_policy P) v = Exits c (Some a)" "c \<in> {EXIT_OK, EXIT_FINDING}"
        using judge_loop_exit [OF policy, of L v] by blast
      with Some p ready x f Inr show ?thesis by (simp add: loop_execute_def)
    qed
  qed
qed

section \<open>A run on a small system\<close>

definition sample_sink :: "seconds built" where
  "sample_sink = (sample_built (\<lambda>_. []))\<lparr>bt_list_all := Some (\<lambda>t. (Inr (plain_result []), t))\<rparr>"

definition sample_loop_env :: "(probe \<Rightarrow> readback list) \<Rightarrow> (seconds, unit) loop_env" where
  "sample_loop_env f = env.extend (sample_env f)
     \<lparr>en_prepare_outbound = (\<lambda>t. (Inr sample_sink, t)),
      en_report = (\<lambda>u e. ()), en_record_key = (\<lambda>r. case rb_ticket_id r of Some t \<Rightarrow> t | None \<Rightarrow> [])\<rparr>"

definition sample_loop_params :: loop_params where
  "sample_loop_params = \<lparr>lq_seed = 7, lq_count = 0, lq_target = Some ''stage'', lq_tag_prefix = ''hq'',
     lq_rate = 5, lq_ticket_policy = ''none'', lq_reply_address = DEFAULT_REPLY_ADDRESS,
     lq_quiet_window = 2, lq_max_wait = Some 60, lq_poll_interval = 1, lq_ack_wait = 3,
     lq_allow_public = False, lq_readback = \<lparr>rs_spec = False, rs_kind = None, rs_rate = NoRate\<rparr>,
     lq_outbound = Some \<lparr>rs_spec = False, rs_kind = None, rs_rate = NoRate\<rparr>\<rparr>"

abbreviation quiet_env :: "(seconds, unit) loop_env" where
  "quiet_env \<equiv> sample_loop_env (\<lambda>_. [])"

definition sample_loop_plan :: loop_plan where
  "sample_loop_plan = the (plan_loop quiet_env sample_loop_params)"

definition sample_evidence :: "outbound_view option \<Rightarrow> readback list \<Rightarrow> loop_evidence" where
  "sample_evidence v rs = \<lparr>le_judged = [pl_bait sample_loop_plan], le_sent = 2,
     le_outcome = (sample_outcome [])\<lparr>ro_readbacks := [(ml_tag (pl_bait sample_loop_plan), rs)]\<rparr>,
     le_parent = FabricatedParent True, le_outbound = v, le_can_list = Some True\<rparr>"

text \<open>The whole run, on a system that does nothing with the mail.\<close>

definition loop_digest :: "(loop_artifact executed \<times> seconds) option \<Rightarrow> (nat \<times> string \<times> nat \<times> bool) option" where
  "loop_digest x = (case x of Some (Exits c (Some a), _) \<Rightarrow>
     Some (c, lm_verdict (lx_summary a), lm_sent (lx_summary a),
       (case lm_bait_parent (lx_summary a) of FabricatedParent w \<Rightarrow> w | _ \<Rightarrow> False)) | _ \<Rightarrow> None)"

lemma sample_loop_run:
  "loop_digest (loop_execute quiet_env sample_loop_params 0) = Some (0, ''LOOP-SAFE'', 2, True)"
  by code_simp

theorem loop_safe_iff_witness:
  "\<exists>a. judge_loop sample_loop_plan TICKET_POLICY_NONE (sample_evidence None [sample_record]) =
     Exits EXIT_FINDING (Some a)"
proof -
  let ?ev = "sample_evidence None [sample_record]"
  have "acted_on (pl_bait sample_loop_plan) (held (le_outcome ?ev)) None TICKET_POLICY_NONE
      (map rb_ticket_id (held (le_outcome ?ev) (ml_tag (pl_precursor sample_loop_plan))))"
    by code_simp
  moreover have "pl_bait sample_loop_plan \<in> set (le_judged ?ev)" "le_outbound ?ev = None"
    by (simp_all add: sample_evidence_def)
  ultimately show ?thesis
    using loop_safe_iff [of TICKET_POLICY_NONE sample_loop_plan ?ev] by (auto simp: TICKET_POLICIES_def)
qed

lemma sample_own_ids: "own_ids [pl_bait sample_loop_plan, pl_precursor sample_loop_plan]"
  by code_simp

theorem attribution_exact_witness:
  "\<exists>t. attribute (sample_record\<lparr>rb_in_reply_to := Some (ml_message_id (pl_bait sample_loop_plan))\<rparr>)
     (map ml_tag [pl_bait sample_loop_plan, pl_precursor sample_loop_plan])
     (ids_to_tags [pl_bait sample_loop_plan, pl_precursor sample_loop_plan]) = Some t"
proof -
  let ?r = "sample_record\<lparr>rb_in_reply_to := Some (ml_message_id (pl_bait sample_loop_plan))\<rparr>"
  have "answers ?r (ml_tag (pl_bait sample_loop_plan))" by code_simp
  with attribution_exact [OF sample_own_ids, of ?r] show ?thesis by auto
qed

definition sample_view :: "((loop_error + outbound_view) \<times> seconds) option" where
  "sample_view = view_outbound quiet_env sample_loop_params sample_loop_plan
     [pl_bait sample_loop_plan] sample_sink [] 0"

lemma sample_view_quiet:
  "(case sample_view of Some (Inr v, w) \<Rightarrow> enumerable sample_sink \<and>
     code_of (judge_loop sample_loop_plan TICKET_POLICY_NONE (sample_evidence (Some v) [])) = Some EXIT_OK
   | _ \<Rightarrow> False)"
  by code_simp


lemma sample_loop_behaves: "loop_behaved quiet_env (\<lambda>t. t)"
  by (auto simp: loop_behaved_def sample_loop_env_def sample_env_def env.defs monotonic_additive patient_def
      quick_client_def source_patient_def sample_built_def sample_sink_def built_patient_def)

theorem loop_comes_back_witness:
  "(\<exists>r w'. loop_execute quiet_env sample_loop_params 0 = Some (r, w')) \<and>
   loop_execute quiet_env (sample_loop_params\<lparr>lq_ticket_policy := ''maybe''\<rparr>) 0 =
     Some (Exits EXIT_REFUSED None, 0)"
proof -
  let ?P = "sample_loop_params\<lparr>lq_ticket_policy := ''maybe''\<rparr>"
  have p: "0 < lq_rate sample_loop_params" "0 < lq_poll_interval sample_loop_params"
    "0 < lq_rate ?P" "0 < lq_poll_interval ?P"
    by (simp_all add: sample_loop_params_def)
  have "plan_loop quiet_env ?P = None"
    by (simp add: plan_loop_def TICKET_POLICIES_def TICKET_POLICY_NONE_def TICKET_POLICY_ALLOWED_def)
  then show ?thesis
    using loop_comes_back [OF sample_loop_behaves p(1,2), of 0]
      loop_comes_back [OF sample_loop_behaves p(3,4), of 0] by auto
qed
end
