(* ===== verification/Load_Report.thy ===== *)
theory Load_Report
  imports Prelude "HOL-Library.AList"
begin

text \<open>
  What a load run is reported by (\<open>barrage/report.py\<close>): samples, percentiles, counts,
  throughput, the time buckets and the knee. Times and rates are exact rationals. The sentence
  of a knee is a constructor with the values it interpolates, and \<open>format_summary\<close> is left out.
\<close>

section \<open>Rounding\<close>

text \<open>Python's \<open>round\<close>: to the nearest, ties to even.\<close>

definition round_even :: "rat \<Rightarrow> int" where
  "round_even x =
     (let f = \<lfloor>x\<rfloor>; d = x - of_int f
      in if d < 1 / 2 then f else if 1 / 2 < d then f + 1 else if even f then f else f + 1)"

definition round_places :: "nat \<Rightarrow> rat \<Rightarrow> rat" where
  "round_places n x = of_int (round_even (x * 10 ^ n)) / 10 ^ n"

lemma round_even_near: "\<bar>of_int (round_even x) - x\<bar> \<le> 1 / 2"
proof -
  have "of_int \<lfloor>x\<rfloor> \<le> x" "x < of_int \<lfloor>x\<rfloor> + 1" by linarith+
  then show ?thesis by (auto simp: round_even_def Let_def abs_le_iff)
qed

section \<open>Samples\<close>

definition KNEE_ERROR_RATE :: rat where "KNEE_ERROR_RATE = 5 / 100"
definition KNEE_LATENCY_FACTOR :: rat where "KNEE_LATENCY_FACTOR = 2"
definition KNEE_DIVERGENCE :: rat where "KNEE_DIVERGENCE = 2 / 10"
definition KNEE_MIN_EXPECTED :: rat where "KNEE_MIN_EXPECTED = 2"
definition KNEE_PERSISTENCE :: nat where "KNEE_PERSISTENCE = 2"
definition DEFAULT_BUCKET_SECONDS :: seconds where "DEFAULT_BUCKET_SECONDS = 1"
definition HAIR :: rat where "HAIR = 1 / 10 ^ 9"

definition LOAD_STATUS_CLASSES :: "string list" where
  "LOAD_STATUS_CLASSES = [''1xx'', ''2xx'', ''3xx'', ''4xx'', ''5xx'', ''no_response'']"

datatype load_outcome = Completed | Abandoned | DroppedBacklog | NotDispatched

record load_sample =
  ls_scheduled_at :: seconds
  ls_dispatched_at :: "seconds option"
  ls_status :: "int option"
  ls_service_ms :: "rat option"
  ls_offered_ms :: "rat option"
  ls_target_rate :: rat
  ls_outcome :: load_outcome
  ls_index :: int
  ls_in_hold :: bool

definition ls_sent :: "load_sample \<Rightarrow> bool" where
  "ls_sent s \<longleftrightarrow> ls_dispatched_at s \<noteq> None \<and> ls_outcome s \<in> {Completed, Abandoned}"

definition ls_responded :: "load_sample \<Rightarrow> bool" where
  "ls_responded s \<longleftrightarrow> ls_outcome s = Completed \<and> ls_status s \<noteq> None"

definition ls_is_shed :: "load_sample \<Rightarrow> bool" where
  "ls_is_shed s \<longleftrightarrow> ls_responded s \<and> ls_status s = Some 429"

definition ls_is_error :: "load_sample \<Rightarrow> bool" where
  "ls_is_error s \<longleftrightarrow>
     (if \<not> ls_sent s then False
      else if \<not> ls_responded s then True
      else 500 \<le> the (ls_status s) \<or> ls_status s = Some 429)"

definition ls_status_class :: "load_sample \<Rightarrow> string" where
  "ls_status_class s =
     (if \<not> ls_responded s then ''no_response''
      else str_of_int (min (max (the (ls_status s) div 100) 1) 5) @ ''xx'')"

section \<open>Distributions\<close>

text \<open>The value of nearest rank, and \<open>percentile\<close> with its check of the fraction.\<close>

definition nearest_rank :: "rat list \<Rightarrow> rat \<Rightarrow> rat option" where
  "nearest_rank vs fraction =
     (if vs = [] then None
      else let ordered = sort vs;
               rank = max 1 (- \<lfloor>(- of_nat (length ordered)) * fraction\<rfloor>)
           in Some (ordered ! (nat rank - 1)))"

definition load_percentile :: "rat list \<Rightarrow> rat \<Rightarrow> rat + rat option" where
  "load_percentile vs fraction =
     (if vs = [] then Inr None
      else if \<not> (0 < fraction \<and> fraction \<le> 1) then Inl fraction
      else Inr (nearest_rank vs fraction))"

datatype latency_kind = Service | Offered

fun ls_ms :: "latency_kind \<Rightarrow> load_sample \<Rightarrow> rat option" where
  "ls_ms Service s = ls_service_ms s"
| "ls_ms Offered s = ls_offered_ms s"

record percentiles =
  pc_p50 :: "rat option"
  pc_p90 :: "rat option"
  pc_p99 :: "rat option"

definition latency_percentiles :: "load_sample list \<Rightarrow> latency_kind \<Rightarrow> percentiles" where
  "latency_percentiles samples kind =
     (let vs = map (\<lambda>s. the (ls_ms kind s))
                 (filter (\<lambda>s. ls_responded s \<and> ls_ms kind s \<noteq> None) samples)
      in \<lparr>pc_p50 = nearest_rank vs (50 / 100), pc_p90 = nearest_rank vs (90 / 100),
          pc_p99 = nearest_rank vs (99 / 100)\<rparr>)"

record latency_scopes =
  lt_overall :: percentiles
  lt_hold :: percentiles

definition latency_summary :: "load_sample list \<Rightarrow> latency_kind \<Rightarrow> latency_scopes" where
  "latency_summary samples kind =
     \<lparr>lt_overall = latency_percentiles samples kind,
      lt_hold = latency_percentiles (filter ls_in_hold samples) kind\<rparr>"

definition count_class :: "(string \<times> nat) list \<Rightarrow> load_sample \<Rightarrow> (string \<times> nat) list" where
  "count_class counts s =
     (if ls_sent s
      then AList.update (ls_status_class s) (the (map_of counts (ls_status_class s)) + 1) counts
      else counts)"

definition load_status_classes :: "load_sample list \<Rightarrow> (string \<times> nat) list" where
  "load_status_classes samples = foldl count_class (map (\<lambda>n. (n, 0)) LOAD_STATUS_CLASSES) samples"

record request_counts =
  rq_scheduled :: nat
  rq_sent :: nat
  rq_completed :: nat
  rq_abandoned :: nat
  rq_dropped_backlog :: nat
  rq_not_dispatched :: nat

definition with_outcome :: "load_outcome \<Rightarrow> load_sample list \<Rightarrow> nat" where
  "with_outcome oc samples = length (filter (\<lambda>s. ls_outcome s = oc) samples)"

definition count_requests :: "load_sample list \<Rightarrow> request_counts" where
  "count_requests samples = \<lparr>rq_scheduled = length samples, rq_sent = length (filter ls_sent samples),
     rq_completed = with_outcome Completed samples, rq_abandoned = with_outcome Abandoned samples,
     rq_dropped_backlog = with_outcome DroppedBacklog samples,
     rq_not_dispatched = with_outcome NotDispatched samples\<rparr>"

definition load_error_rate :: "load_sample list \<Rightarrow> rat" where
  "load_error_rate samples =
     (let sent = filter ls_sent samples
      in if sent = [] then 0 else of_nat (length (filter ls_is_error sent)) / of_nat (length sent))"

record throughput =
  tp_targeted_rps :: "rat option"
  tp_achieved_rps :: "rat option"
  tp_total_requests :: nat
  tp_dispatch_span :: "seconds option"

definition load_throughput :: "load_sample list \<Rightarrow> throughput" where
  "load_throughput samples =
     (let sent = sort (map (\<lambda>s. the (ls_dispatched_at s)) (filter ls_sent samples));
          span = (if 2 \<le> length sent then Some (last sent - hd sent) else None)
      in \<lparr>tp_targeted_rps =
            (if samples = [] then None else Some (Max (set (map ls_target_rate samples)))),
          tp_achieved_rps = (case span of None \<Rightarrow> None
            | Some d \<Rightarrow> if d \<noteq> 0 then Some ((of_nat (length sent) - 1) / d) else None),
          tp_total_requests = length sent, tp_dispatch_span = span\<rparr>)"

section \<open>Buckets\<close>

record load_bucket =
  lb_start :: seconds
  lb_targeted_rate :: rat
  lb_achieved_rate :: rat
  lb_expected :: rat
  lb_count :: nat
  lb_errors :: nat
  lb_error_rate :: rat
  lb_shed :: nat
  lb_dropped_backlog :: nat
  lb_hold :: bool
  lb_status_classes :: "(string \<times> nat) list"
  lb_service_ms :: percentiles
  lb_offered_ms :: percentiles
  lb_span :: seconds

definition lb_p50 :: "load_bucket \<Rightarrow> rat option" where
  "lb_p50 b = pc_p50 (lb_service_ms b)"

text \<open>The requests a plan of \<open>(rate, duration)\<close> stages, laid end to end from \<open>t0\<close>, asks for in
  an interval.\<close>

fun planned_from :: "(rat \<times> seconds) list \<Rightarrow> seconds \<Rightarrow> seconds \<Rightarrow> seconds \<Rightarrow> rat" where
  "planned_from [] t0 start end = 0"
| "planned_from ((rate, duration) # stages) t0 start end =
     (let lo = max start t0; hi = min end (t0 + duration)
      in (if lo < hi then rate * (hi - lo) else 0) + planned_from stages (t0 + duration) start end)"

definition planned_rate_integral :: "(rat \<times> seconds) list \<Rightarrow> seconds \<Rightarrow> seconds \<Rightarrow> rat" where
  "planned_rate_integral stages start end = planned_from stages 0 start end"

definition bucket_key :: "seconds \<Rightarrow> seconds \<Rightarrow> seconds \<Rightarrow> nat" where
  "bucket_key origin width t = nat (max 0 \<lfloor>(t - origin) / width\<rfloor>)"

record bucket_args =
  ba_width :: seconds
  ba_origin :: seconds
  ba_stages :: "(rat \<times> seconds) list"
  ba_hold_start :: "seconds option"

definition planned_duration :: "(rat \<times> seconds) list \<Rightarrow> seconds" where
  "planned_duration stages = sum_list (map snd stages)"

text \<open>Bucket \<open>k\<close>; \<open>before\<close> is the target of the bucket before it, 0 for the first.\<close>

definition bucket_at :: "bucket_args \<Rightarrow> load_sample list \<Rightarrow> nat \<Rightarrow> rat \<Rightarrow> load_bucket" where
  "bucket_at A samples k before =
     (let width = ba_width A; stages = ba_stages A;
          key = bucket_key (ba_origin A) width;
          start = ba_origin A + of_nat k * width;
          members = filter (\<lambda>s. ls_sent s \<and> key (the (ls_dispatched_at s)) = k) samples;
          dropped = filter (\<lambda>s. ls_outcome s = DroppedBacklog \<and> key (ls_scheduled_at s) = k) samples;
          integral = planned_rate_integral stages start (start + width);
          targeted = (if stages \<noteq> [] then integral / width
            else if members \<noteq> [] then Max (set (map ls_target_rate members)) else before);
          expected = (if stages \<noteq> [] then integral else targeted * width);
          errors = length (filter ls_is_error members)
      in \<lparr>lb_start = start, lb_targeted_rate = targeted,
          lb_achieved_rate = of_nat (length members) / width, lb_expected = expected,
          lb_count = length members, lb_errors = errors,
          lb_error_rate = (if members \<noteq> [] then of_nat errors / of_nat (length members) else 0),
          lb_shed = length (filter ls_is_shed members), lb_dropped_backlog = length dropped,
          lb_hold = (case ba_hold_start A of None \<Rightarrow> True | Some h \<Rightarrow> h - HAIR \<le> start),
          lb_status_classes = load_status_classes members,
          lb_service_ms = latency_percentiles members Service,
          lb_offered_ms = latency_percentiles members Offered,
          lb_span = (if stages \<noteq> []
            then max 0 (min (start + width) (planned_duration stages) - max start 0) else width)\<rparr>)"

fun buckets_from :: "bucket_args \<Rightarrow> load_sample list \<Rightarrow> nat \<Rightarrow> nat \<Rightarrow> rat \<Rightarrow> load_bucket list" where
  "buckets_from A samples k 0 before = []"
| "buckets_from A samples k (Suc n) before =
     (let b = bucket_at A samples k before
      in b # buckets_from A samples (Suc k) n (lb_targeted_rate b))"

definition bucket_total :: "bucket_args \<Rightarrow> load_sample list \<Rightarrow> nat" where
  "bucket_total A samples =
     (let key = bucket_key (ba_origin A) (ba_width A);
          keys = map (\<lambda>s. key (the (ls_dispatched_at s))) (filter ls_sent samples) @
                 map (\<lambda>s. key (ls_scheduled_at s)) (filter (\<lambda>s. ls_outcome s = DroppedBacklog) samples);
          n = (if keys \<noteq> [] then Max (set keys) + 1 else 0)
      in if ba_stages A \<noteq> []
         then max n (nat (- \<lfloor>(- (planned_duration (ba_stages A) - HAIR)) / ba_width A\<rfloor>))
         else n)"

definition bucketize ::
  "load_sample list \<Rightarrow> seconds \<Rightarrow> seconds option \<Rightarrow> (rat \<times> seconds) list \<Rightarrow> seconds option \<Rightarrow>
     seconds + load_bucket list"
where
  "bucketize samples width origin stages hold_start =
     (if width \<le> 0 then Inl width
      else let anchors = (let ds = map (\<lambda>s. the (ls_dispatched_at s)) (filter ls_sent samples)
                          in if ds \<noteq> [] then ds else map ls_scheduled_at samples);
               A = (\<lambda>o'. \<lparr>ba_width = width, ba_origin = o', ba_stages = stages,
                         ba_hold_start = hold_start\<rparr>)
           in case origin of
                Some o' \<Rightarrow> Inr (buckets_from (A o') samples 0 (bucket_total (A o') samples) 0)
              | None \<Rightarrow>
                  if anchors = [] then Inr []
                  else let o' = Min (set anchors)
                       in Inr (buckets_from (A o') samples 0 (bucket_total (A o') samples) 0))"

section \<open>The knee\<close>

text \<open>The baseline, and the positions of the buckets it came from: the code asks whether a
  bucket is one of those objects.\<close>

definition knee_baseline :: "load_bucket list \<Rightarrow> rat option \<times> nat list" where
  "knee_baseline buckets =
     (let chosen = take 2 (filter (\<lambda>(i, b). lb_hold b \<and> lb_p50 b \<noteq> None) (enumerate 0 buckets))
      in if chosen = [] then (None, [])
         else (Some (sum_list (map (\<lambda>(i, b). the (lb_p50 b)) chosen) / of_nat (length chosen)),
               map fst chosen))"

definition client_ceiling_rps :: "load_bucket \<Rightarrow> int option \<Rightarrow> rat option" where
  "client_ceiling_rps b workers =
     (case (workers, lb_p50 b) of
        (Some n, Some p50) \<Rightarrow> if n \<noteq> 0 \<and> 0 < p50 then Some (of_int n * 1000 / p50) else None
      | _ \<Rightarrow> None)"

definition client_limited :: "load_bucket \<Rightarrow> int option \<Rightarrow> rat \<Rightarrow> bool" where
  "client_limited b workers divergence =
     (case client_ceiling_rps b workers of
        None \<Rightarrow> False
      | Some most \<Rightarrow>
          if lb_span b = 0 then False
          else let capacity = most * lb_span b
               in if lb_expected b \<le> capacity then False
                  else capacity * (1 - divergence) \<le> of_nat (lb_count b))"

definition falls_short :: "load_bucket \<Rightarrow> rat \<Rightarrow> bool" where
  "falls_short b divergence \<longleftrightarrow>
     KNEE_MIN_EXPECTED \<le> lb_expected b \<and> of_nat (lb_count b) < lb_expected b * (1 - divergence)"

datatype knee_reason =
    Shedding rat rat nat nat nat
  | FallingBehind nat rat rat rat
  | Slowing rat rat rat

record knee_limits =
  kl_error_threshold :: rat
  kl_latency_factor :: rat
  kl_divergence :: rat
  kl_persistence :: nat
  kl_concurrency :: "int option"

definition default_limits :: "int option \<Rightarrow> knee_limits" where
  "default_limits workers = \<lparr>kl_error_threshold = KNEE_ERROR_RATE,
     kl_latency_factor = KNEE_LATENCY_FACTOR, kl_divergence = KNEE_DIVERGENCE,
     kl_persistence = KNEE_PERSISTENCE, kl_concurrency = workers\<rparr>"

definition class_count :: "load_bucket \<Rightarrow> string \<Rightarrow> nat" where
  "class_count b name = (case map_of (lb_status_classes b) name of Some n \<Rightarrow> n | None \<Rightarrow> 0)"

definition judge_bucket ::
  "knee_limits \<Rightarrow> rat option \<times> nat list \<Rightarrow> nat \<times> load_bucket \<Rightarrow> knee_reason option"
where
  "judge_bucket K base ib =
     (case (base, ib) of ((baseline, chosen), (i, b)) \<Rightarrow>
        if lb_count b \<noteq> 0 \<and> kl_error_threshold K \<le> lb_error_rate b
        then Some (Shedding (lb_error_rate b) (kl_error_threshold K) (class_count b ''5xx'') (lb_shed b)
               (class_count b ''no_response''))
        else if falls_short b (kl_divergence K) \<and> \<not> client_limited b (kl_concurrency K) (kl_divergence K)
        then Some (FallingBehind (lb_count b) (lb_expected b) (lb_achieved_rate b) (lb_targeted_rate b))
        else case (baseline, lb_p50 b) of
               (Some base_ms, Some p50) \<Rightarrow>
                 if base_ms \<noteq> 0 \<and> i \<notin> set chosen \<and> base_ms * kl_latency_factor K < p50
                 then Some (Slowing p50 (kl_latency_factor K) base_ms) else None
             | _ \<Rightarrow> None)"

record knee =
  kn_at_seconds :: seconds
  kn_reason :: knee_reason
  kn_targeted_rps :: rat
  kn_achieved_rps :: rat

text \<open>The search over windows of verdicts. A persistence below 1 makes \<open>window[0]\<close> raise, the
  outer \<open>None\<close>.\<close>

fun knee_from :: "nat \<Rightarrow> (knee_reason option \<times> load_bucket) list \<Rightarrow> knee option" where
  "knee_from p [] = None"
| "knee_from p ((v, b) # vs) =
     (let window = take p (map fst ((v, b) # vs))
      in if length window = p \<and> list_all (\<lambda>x. x \<noteq> None) window
         then map_option (\<lambda>reason. \<lparr>kn_at_seconds = lb_start b, kn_reason = reason,
                 kn_targeted_rps = lb_targeted_rate b, kn_achieved_rps = lb_achieved_rate b\<rparr>) v
         else knee_from p vs)"

definition bucket_verdicts :: "knee_limits \<Rightarrow> load_bucket list \<Rightarrow> knee_reason option list" where
  "bucket_verdicts K buckets = map (judge_bucket K (knee_baseline buckets)) (enumerate 0 buckets)"

definition find_knee :: "knee_limits \<Rightarrow> load_bucket list \<Rightarrow> knee option option" where
  "find_knee K buckets =
     (if kl_persistence K = 0 then None
      else Some (knee_from (kl_persistence K) (zip (bucket_verdicts K buckets) buckets)))"

record concurrency_limit =
  cl_concurrency :: int
  cl_buckets :: nat
  cl_ceiling_rps :: rat
  cl_targeted_rps :: rat

definition limit_of_concurrency ::
  "load_bucket list \<Rightarrow> int option \<Rightarrow> rat \<Rightarrow> concurrency_limit option"
where
  "limit_of_concurrency buckets workers divergence =
     (let limited = filter (\<lambda>b. falls_short b divergence \<and> client_limited b workers divergence) buckets;
          ceilings = map (\<lambda>b. the (client_ceiling_rps b workers))
            (filter (\<lambda>b. client_ceiling_rps b workers \<noteq> None) limited)
      in if limited = [] then None
         else Some \<lparr>cl_concurrency = the workers, cl_buckets = length limited,
                cl_ceiling_rps = round_places 3 (Min (set ceilings)),
                cl_targeted_rps = Max (set (map (\<lambda>b. lb_expected b / lb_span b) limited))\<rparr>)"

section \<open>The artifact\<close>

definition closed_loop_concurrency :: "string \<Rightarrow> int option \<Rightarrow> int option" where
  "closed_loop_concurrency mode workers =
     (if mode \<noteq> ''closed'' then None
      else case workers of None \<Rightarrow> None | Some n \<Rightarrow> if n < 1 then None else Some n)"

record load_row =
  lw_index :: int
  lw_scheduled_at :: seconds
  lw_dispatched_at :: "seconds option"
  lw_status :: "int option"
  lw_service_ms :: "rat option"
  lw_offered_ms :: "rat option"
  lw_outcome :: load_outcome

definition record_rows :: "load_sample list \<Rightarrow> load_row list" where
  "record_rows samples =
     map (\<lambda>s. \<lparr>lw_index = ls_index s, lw_scheduled_at = round_places 6 (ls_scheduled_at s),
            lw_dispatched_at = map_option (round_places 6) (ls_dispatched_at s),
            lw_status = ls_status s, lw_service_ms = map_option (round_places 3) (ls_service_ms s),
            lw_offered_ms = map_option (round_places 3) (ls_offered_ms s),
            lw_outcome = ls_outcome s\<rparr>)
       (sort_key ls_index samples)"

record load_summary =
  ld_requests :: request_counts
  ld_throughput :: throughput
  ld_service :: latency_scopes
  ld_offered :: latency_scopes
  ld_status_classes :: "(string \<times> nat) list"
  ld_shed :: nat
  ld_error_rate :: rat
  ld_knee :: "knee option"
  ld_concurrency_limited :: "concurrency_limit option"

record load_artifact =
  lr_aborted :: bool
  lr_seed :: int
  lr_summary :: load_summary
  lr_buckets :: "load_bucket list"
  lr_records :: "load_row list"

definition build_load_artifact ::
  "int \<Rightarrow> string \<Rightarrow> int option \<Rightarrow> load_sample list \<Rightarrow> seconds \<Rightarrow> (rat \<times> seconds) list \<Rightarrow>
     seconds option \<Rightarrow> seconds option \<Rightarrow> bool \<Rightarrow> seconds + load_artifact"
where
  "build_load_artifact seed mode workers samples width stages hold_start origin aborted =
     (case bucketize samples width origin stages hold_start of
        Inl e \<Rightarrow> Inl e
      | Inr buckets \<Rightarrow>
          (let n = closed_loop_concurrency mode workers;
               K = default_limits n
           in Inr \<lparr>lr_aborted = aborted, lr_seed = seed,
                lr_summary = \<lparr>ld_requests = count_requests samples,
                  ld_throughput = load_throughput samples,
                  ld_service = latency_summary samples Service,
                  ld_offered = latency_summary samples Offered,
                  ld_status_classes = load_status_classes samples,
                  ld_shed = length (filter ls_is_shed samples),
                  ld_error_rate = load_error_rate samples,
                  ld_knee = (case find_knee K buckets of Some k \<Rightarrow> k | None \<Rightarrow> None),
                  ld_concurrency_limited = limit_of_concurrency buckets n KNEE_DIVERGENCE\<rparr>,
                lr_buckets = buckets, lr_records = record_rows samples\<rparr>))"

section \<open>Facts about percentiles and counts\<close>

lemma sorted_prefix_le:
  assumes "sorted xs" "i < length xs"
  shows "Suc i \<le> length (filter (\<lambda>x. x \<le> xs ! i) xs)"
    "length (filter (\<lambda>x. x < xs ! i) xs) \<le> i"
proof -
  have "filter (\<lambda>x. x \<le> xs ! i) (take (Suc i) xs) = take (Suc i) xs"
    using assms by (auto simp: filter_id_conv in_set_conv_nth intro!: sorted_nth_mono)
  moreover have "filter P xs = filter P (take (Suc i) xs) @ filter P (drop (Suc i) xs)" for P
    by (metis append_take_drop_id filter_append)
  ultimately show "Suc i \<le> length (filter (\<lambda>x. x \<le> xs ! i) xs)"
    using assms(2) by simp
  have "filter (\<lambda>x. x < xs ! i) (drop i xs) = []"
    using assms by (auto simp: filter_empty_conv in_set_conv_nth not_less intro!: sorted_nth_mono)
  moreover have "filter P xs = filter P (take i xs) @ filter P (drop i xs)" for P
    by (metis append_take_drop_id filter_append)
  ultimately have "length (filter (\<lambda>x. x < xs ! i) xs) = length (filter (\<lambda>x. x < xs ! i) (take i xs))"
    by simp
  also have "\<dots> \<le> i" by (metis length_filter_le length_take min.cobounded2 order_trans)
  finally show "length (filter (\<lambda>x. x < xs ! i) xs) \<le> i" .
qed

lemma filter_sort_length: "length (filter P (sort xs)) = length (filter P xs)"
  by (metis mset_filter mset_sort size_mset)

lemma rank_bounds:
  fixes f :: rat
  assumes "0 < n" "0 < f" "f \<le> 1"
  defines "r \<equiv> max 1 (- \<lfloor>(- of_nat n) * f\<rfloor>)"
  shows "nat r - 1 < n" "of_nat n * f \<le> of_nat (nat r)" "of_nat (nat r - 1) < of_nat n * f"
proof -
  have c: "- \<lfloor>(- of_nat n) * f\<rfloor> = \<lceil>of_nat n * f\<rceil>" by (simp add: ceiling_def)
  have pos: "0 < of_nat n * f" using assms by simp
  then have one: "1 \<le> \<lceil>of_nat n * f\<rceil>" by linarith
  then have r: "r = \<lceil>of_nat n * f\<rceil>" unfolding r_def c by simp
  have "of_nat n * f \<le> of_nat n" using assms by (simp add: mult_left_le)
  then have "\<lceil>of_nat n * f\<rceil> \<le> int n" by (simp add: ceiling_le_iff)
  with r one show "nat r - 1 < n" by linarith
  have nr: "of_nat (nat r) = (of_int r :: rat)" using r one by (simp add: of_nat_nat)
  show "of_nat n * f \<le> of_nat (nat r)" unfolding nr r by linarith
  have "int (nat r - 1) = r - 1" using r one by linarith
  then have "of_nat (nat r - 1) = (of_int r - 1 :: rat)" by (metis of_int_1 of_int_diff of_int_of_nat_eq)
  then show "of_nat (nat r - 1) < of_nat n * f" unfolding r by linarith
qed

lemma sum_update_count:
  assumes "map_of d k = Some n"
  shows "sum_list (map snd (AList.update k (n + 1) d)) = sum_list (map snd d) + (1 :: nat)"
  using assms by (induction d) (auto split: if_splits)

lemma ls_status_class_known: "ls_status_class s \<in> set LOAD_STATUS_CLASSES"
proof (cases "ls_responded s")
  case True
  have digits: "str_of_nat (Suc 0) = ''1''" "str_of_nat 2 = ''2''" "str_of_nat 3 = ''3''"
    "str_of_nat 4 = ''4''" "str_of_nat 5 = ''5''"
    by (subst str_of_nat.simps, simp add: digit_char_def, code_simp)+
  have "k \<in> {1, 2, 3, 4, 5} \<Longrightarrow> str_of_int k @ ''xx'' \<in> set LOAD_STATUS_CLASSES" for k
    by (elim insertE emptyE) (simp_all add: str_of_int_def digits LOAD_STATUS_CLASSES_def)
  moreover have "min (max x 1) 5 \<in> {1, 2, 3, 4, 5}" for x :: int by auto
  ultimately have "str_of_int (min (max x 1) 5) @ ''xx'' \<in> set LOAD_STATUS_CLASSES" for x
    by blast
  then show ?thesis using True by (simp add: ls_status_class_def)
qed (simp add: ls_status_class_def LOAD_STATUS_CLASSES_def)

lemma count_class_step:
  assumes "map fst d = LOAD_STATUS_CLASSES"
  shows "map fst (count_class d s) = LOAD_STATUS_CLASSES"
    "sum_list (map snd (count_class d s)) = sum_list (map snd d) + (if ls_sent s then 1 else 0)"
proof -
  have "ls_status_class s \<in> set (map fst d)" using assms ls_status_class_known by simp
  then obtain n where n: "map_of d (ls_status_class s) = Some n"
    by (metis map_of_eq_None_iff not_None_eq set_map)
  then show "map fst (count_class d s) = LOAD_STATUS_CLASSES"
    using assms by (simp add: count_class_def update_keys ls_status_class_known)
  show "sum_list (map snd (count_class d s)) = sum_list (map snd d) + (if ls_sent s then 1 else 0)"
    using sum_update_count [OF n] n by (simp add: count_class_def)
qed

lemma load_status_classes_total:
  "map fst (load_status_classes samples) = LOAD_STATUS_CLASSES"
  "sum_list (map snd (load_status_classes samples)) = length (filter ls_sent samples)"
proof -
  have "map fst d = LOAD_STATUS_CLASSES \<Longrightarrow>
      map fst (foldl count_class d samples) = LOAD_STATUS_CLASSES \<and>
      sum_list (map snd (foldl count_class d samples)) =
        sum_list (map snd d) + length (filter ls_sent samples)" for d
    by (induction samples arbitrary: d) (simp_all add: count_class_step)
  from this [of "map (\<lambda>n. (n, 0)) LOAD_STATUS_CLASSES"]
  show "map fst (load_status_classes samples) = LOAD_STATUS_CLASSES"
    "sum_list (map snd (load_status_classes samples)) = length (filter ls_sent samples)"
    by (simp_all add: load_status_classes_def comp_def)
qed


section \<open>Facts about buckets and the knee\<close>

lemma buckets_from_eq:
  "\<exists>before. buckets_from A samples k n b = map (\<lambda>i. bucket_at A samples i (before i)) [k..<k + n]"
proof (induction n arbitrary: k b)
  case (Suc n)
  let ?b = "bucket_at A samples k b"
  obtain before where eq: "buckets_from A samples (Suc k) n (lb_targeted_rate ?b) =
      map (\<lambda>i. bucket_at A samples i (before i)) [Suc k..<Suc k + n]"
    using Suc by blast
  have "buckets_from A samples k (Suc n) b =
      map (\<lambda>i. bucket_at A samples i ((before(k := b)) i)) [k..<k + Suc n]"
    by (simp add: eq upt_conv_Cons Let_def del: upt_Suc)
  then show ?case by blast
qed simp

lemma one_hit: "m < (n :: nat) \<Longrightarrow> (\<Sum>k<n. if m = k then 1 else 0) = (1 :: nat)"
  by (induction n) (auto simp: less_Suc_eq)

lemma length_filter_sum:
  "\<forall>x \<in> set xs. P x \<longrightarrow> f x < (n :: nat) \<Longrightarrow>
     (\<Sum>k<n. length (filter (\<lambda>x. P x \<and> f x = k) xs)) = length (filter P xs)"
proof (induction xs)
  case (Cons x xs)
  have "(\<Sum>k<n. length (filter (\<lambda>x. P x \<and> f x = k) (x # xs))) =
      (\<Sum>k<n. (if P x \<and> f x = k then 1 else 0) + length (filter (\<lambda>x. P x \<and> f x = k) xs))"
    by (intro sum.cong) auto
  also have "\<dots> = (if P x then 1 else 0) + length (filter P xs)"
  proof -
    have "(\<Sum>k<n. if P x \<and> f x = k then 1 else (0 :: nat)) = (if P x then 1 else 0)"
      using Cons.prems one_hit [of "f x" n] by (cases "P x") simp_all
    then show ?thesis using Cons by (simp add: sum.distrib)
  qed
  finally show ?case by simp
qed simp

lemma bucket_total_bounds:
  assumes "s \<in> set samples"
  shows "ls_sent s \<Longrightarrow> bucket_key (ba_origin A) (ba_width A) (the (ls_dispatched_at s)) < bucket_total A samples"
    "ls_outcome s = DroppedBacklog \<Longrightarrow>
       bucket_key (ba_origin A) (ba_width A) (ls_scheduled_at s) < bucket_total A samples"
proof -
  let ?key = "bucket_key (ba_origin A) (ba_width A)"
  define keys where "keys = map (\<lambda>s. ?key (the (ls_dispatched_at s))) (filter ls_sent samples) @
    map (\<lambda>s. ?key (ls_scheduled_at s)) (filter (\<lambda>s. ls_outcome s = DroppedBacklog) samples)"
  have below: "k \<in> set keys \<Longrightarrow> k < bucket_total A samples" for k
  proof -
    assume k: "k \<in> set keys"
    then have "k \<le> Max (set keys)" by simp
    moreover have "keys \<noteq> []" using k by auto
    moreover have "bucket_total A samples \<ge> (if keys \<noteq> [] then Max (set keys) + 1 else 0)"
      by (simp add: bucket_total_def keys_def Let_def)
    ultimately show ?thesis by simp
  qed
  show "ls_sent s \<Longrightarrow> ?key (the (ls_dispatched_at s)) < bucket_total A samples"
    "ls_outcome s = DroppedBacklog \<Longrightarrow> ?key (ls_scheduled_at s) < bucket_total A samples"
    by (rule below, use assms in \<open>auto simp: keys_def\<close>)+
qed

lemma buckets_counts:
  defines "bs \<equiv> \<lambda>A samples. buckets_from A samples 0 (bucket_total A samples) 0"
  shows "sum_list (map lb_count (bs A samples)) = length (filter ls_sent samples)"
    "sum_list (map lb_dropped_backlog (bs A samples)) = with_outcome DroppedBacklog samples"
proof -
  let ?n = "bucket_total A samples" and ?key = "bucket_key (ba_origin A) (ba_width A)"
  obtain before where eq: "bs A samples = map (\<lambda>i. bucket_at A samples i (before i)) [0..<?n]"
    unfolding bs_def using buckets_from_eq [of A samples 0 ?n 0] by auto
  have "sum_list (map lb_count (bs A samples)) =
      (\<Sum>k<?n. length (filter (\<lambda>s. ls_sent s \<and> ?key (the (ls_dispatched_at s)) = k) samples))"
    by (simp add: eq bucket_at_def Let_def comp_def interv_sum_list_conv_sum_set_nat atLeast0LessThan)
  also have "\<dots> = length (filter ls_sent samples)"
    using bucket_total_bounds(1) by (intro length_filter_sum) blast
  finally show "sum_list (map lb_count (bs A samples)) = length (filter ls_sent samples)" .
  have "sum_list (map lb_dropped_backlog (bs A samples)) =
      (\<Sum>k<?n. length (filter (\<lambda>s. ls_outcome s = DroppedBacklog \<and> ?key (ls_scheduled_at s) = k) samples))"
    by (simp add: eq bucket_at_def Let_def comp_def interv_sum_list_conv_sum_set_nat atLeast0LessThan)
  also have "\<dots> = length (filter (\<lambda>s. ls_outcome s = DroppedBacklog) samples)"
    using bucket_total_bounds(2) by (intro length_filter_sum) blast
  finally show "sum_list (map lb_dropped_backlog (bs A samples)) = with_outcome DroppedBacklog samples"
    by (simp add: with_outcome_def)
qed

lemma overlap_split:
  fixes a b c t e :: rat
  assumes "a \<le> b" "b \<le> c"
  shows "max 0 (min b e - max a t) + max 0 (min c e - max b t) = max 0 (min c e - max a t)"
  using assms by (simp add: max_def min_def)

lemma planned_piece: "(if lo < hi then rate * (hi - lo) else 0) = rate * max 0 (hi - lo :: rat)"
  by (simp add: max_def)

lemma planned_from_split:
  assumes "a \<le> b" "b \<le> c"
  shows "planned_from stages t0 a b + planned_from stages t0 b c = planned_from stages t0 a c"
proof (induction stages arbitrary: t0)
  case (Cons st stages)
  obtain rate d where st: "st = (rate, d)" by fastforce
  have "planned_from (st # stages) t0 a b + planned_from (st # stages) t0 b c =
      rate * (max 0 (min b (t0 + d) - max a t0) + max 0 (min c (t0 + d) - max b t0)) +
      (planned_from stages (t0 + d) a b + planned_from stages (t0 + d) b c)"
    by (simp only: st planned_from.simps Let_def planned_piece distrib_left add.assoc
        add.left_commute [of "planned_from stages (t0 + d) a b"])
  also have "\<dots> = planned_from (st # stages) t0 a c"
    by (simp only: overlap_split [OF assms] Cons st planned_from.simps Let_def planned_piece)
  finally show ?case .
qed simp

lemma planned_from_empty: "planned_from stages t0 a a = 0"
  by (induction stages t0 a a rule: planned_from.induct) (auto simp: Let_def)

lemma planned_from_whole:
  assumes "\<forall>st \<in> set stages. 0 \<le> snd st" "0 \<le> t0" "t0 + planned_duration stages \<le> b"
  shows "planned_from stages t0 0 b = sum_list (map (\<lambda>(rate, d). rate * d) stages)"
  using assms
proof (induction stages arbitrary: t0)
  case (Cons st stages)
  obtain rate d where st: "st = (rate, d)" by fastforce
  have "0 \<le> planned_duration stages"
    using Cons.prems(1) by (auto simp: planned_duration_def intro!: sum_list_nonneg)
  with Cons.prems st have "0 \<le> d" "t0 + d \<le> b" "0 \<le> t0 + d"
    "t0 + d + planned_duration stages \<le> b" by (auto simp: planned_duration_def)
  with Cons.IH [of "t0 + d"] Cons.prems st show ?case
    by (cases "d = 0") (auto simp: Let_def max_def min_def)
qed simp

definition bad_run :: "nat \<Rightarrow> knee_reason option list \<Rightarrow> nat \<Rightarrow> bool" where
  "bad_run p vs i \<longleftrightarrow> i + p \<le> length vs \<and> (\<forall>j < p. vs ! (i + j) \<noteq> None)"

lemma bad_run_0: "bad_run p vs 0 \<longleftrightarrow> length (take p vs) = p \<and> list_all (\<lambda>x. x \<noteq> None) (take p vs)"
  by (auto simp: bad_run_def list_all_length min_def)

lemma bad_run_Suc: "bad_run p (v # vs) (Suc i) \<longleftrightarrow> bad_run p vs i"
  by (auto simp: bad_run_def)

lemma knee_from_first:
  assumes "0 < p"
  shows "case knee_from p vs of
      None \<Rightarrow> \<forall>i. \<not> bad_run p (map fst vs) i
    | Some k \<Rightarrow> \<exists>i < length vs. bad_run p (map fst vs) i \<and> (\<forall>i' < i. \<not> bad_run p (map fst vs) i') \<and>
        kn_at_seconds k = lb_start (snd (vs ! i)) \<and> Some (kn_reason k) = fst (vs ! i)"
proof (induction vs)
  case Nil
  then show ?case using assms by (simp add: bad_run_def)
next
  case (Cons vb vs)
  obtain v b where vb: "vb = (v, b)" by fastforce
  show ?case
  proof (cases "bad_run p (map fst (vb # vs)) 0")
    case True
    then have "v \<noteq> None" using assms by (auto simp: bad_run_def vb)
    with True show ?thesis
      by (auto simp: vb bad_run_0 simp del: take_Suc_Cons intro!: exI [of _ 0])
  next
    case False
    have step: "\<not> bad_run p (map fst (vb # vs)) 0 \<Longrightarrow> knee_from p (vb # vs) = knee_from p vs"
      by (simp only: bad_run_0 vb knee_from.simps Let_def if_False)
    show ?thesis
    proof (cases "knee_from p vs")
      case None
      with Cons False step show ?thesis
        by (auto simp: bad_run_Suc elim: Suc_lessE) (metis bad_run_Suc not0_implies_Suc)
    next
      case (Some k)
      with Cons obtain i where i: "i < length vs" "bad_run p (map fst vs) i"
        "\<forall>i' < i. \<not> bad_run p (map fst vs) i'" "kn_at_seconds k = lb_start (snd (vs ! i))"
        "Some (kn_reason k) = fst (vs ! i)" by auto
      then have "\<forall>i' < Suc i. \<not> bad_run p (map fst (vb # vs)) i'"
        using False by (auto simp: less_Suc_eq_0_disj bad_run_Suc)
      with i Some False step show ?thesis by (auto simp: bad_run_Suc intro!: exI [of _ "Suc i"])
    qed
  qed
qed

section \<open>Properties\<close>

text \<open>C35 (a percentile is an observed value of its rank). For data and a fraction in (0, 1] the
  percentile is one of the values: at least that fraction of the values is not above it, and
  less than that fraction is below it.\<close>

theorem percentile_is_its_rank:
  assumes "vs \<noteq> []" "0 < fraction" "fraction \<le> 1"
  shows "\<exists>v \<in> set vs. load_percentile vs fraction = Inr (Some v) \<and>
    fraction * of_nat (length vs) \<le> of_nat (length (filter (\<lambda>x. x \<le> v) vs)) \<and>
    of_nat (length (filter (\<lambda>x. x < v) vs)) < fraction * of_nat (length vs)"
proof -
  define r where "r = nat (max 1 (- \<lfloor>(- of_nat (length vs)) * fraction\<rfloor>))"
  have "0 < length vs" using assms(1) by simp
  note b = rank_bounds [OF this assms(2,3), folded r_def]
  let ?v = "sort vs ! (r - 1)"
  have i: "r - 1 < length (sort vs)" using b(1) by simp
  note p = sorted_prefix_le [OF sorted_sort i]
  have "?v \<in> set vs" using i by (metis nth_mem set_sort)
  moreover have "load_percentile vs fraction = Inr (Some ?v)"
    using assms by (simp add: load_percentile_def nearest_rank_def Let_def r_def)
  moreover have "r \<le> length (filter (\<lambda>x. x \<le> ?v) vs)" "length (filter (\<lambda>x. x < ?v) vs) \<le> r - 1"
    using p by (simp_all add: filter_sort_length)
  then have "of_nat (length vs) * fraction \<le> of_nat (length (filter (\<lambda>x. x \<le> ?v) vs))"
    "of_nat (length (filter (\<lambda>x. x < ?v) vs)) < of_nat (length vs) * fraction"
    using b(2,3) by (meson of_nat_le_iff order_trans le_less_trans)+
  ultimately show ?thesis by (metis mult.commute)
qed

lemma outcomes_partition:
  "length samples = with_outcome Completed samples + with_outcome Abandoned samples +
     with_outcome DroppedBacklog samples + with_outcome NotDispatched samples"
proof (induction samples)
  case (Cons s samples)
  then show ?case by (cases "ls_outcome s") (simp_all add: with_outcome_def)
qed (simp add: with_outcome_def)

text \<open>Every request is counted once. The scheduled requests are the completed, the
  abandoned, the dropped and the never dispatched ones; the requests sent are spread over the
  status classes; and the error rate is a rate.\<close>

theorem requests_counted_once:
  "rq_scheduled (count_requests samples) = rq_completed (count_requests samples) +
     rq_abandoned (count_requests samples) + rq_dropped_backlog (count_requests samples) +
     rq_not_dispatched (count_requests samples) \<and>
   sum_list (map snd (load_status_classes samples)) = rq_sent (count_requests samples) \<and>
   rq_sent (count_requests samples) \<le> rq_completed (count_requests samples) + rq_abandoned (count_requests samples) \<and>
   0 \<le> load_error_rate samples \<and> load_error_rate samples \<le> 1"
proof -
  have "length (filter ls_sent samples) \<le>
      with_outcome Completed samples + with_outcome Abandoned samples"
    by (induction samples) (auto simp: with_outcome_def ls_sent_def)
  moreover have "0 \<le> load_error_rate samples \<and> load_error_rate samples \<le> 1"
    using length_filter_le [of ls_is_error "filter ls_sent samples"]
    by (simp add: load_error_rate_def Let_def divide_le_eq)
  ultimately show ?thesis by (simp add: count_requests_def load_status_classes_total outcomes_partition)
qed

text \<open>The time series loses nothing. Every request sent is in exactly one bucket and every
  request dropped from the backlog is counted in exactly one.\<close>

theorem buckets_lose_nothing:
  assumes "bucketize samples width origin stages hold_start = Inr buckets"
  shows "sum_list (map lb_count buckets) = rq_sent (count_requests samples) \<and>
    sum_list (map lb_dropped_backlog buckets) = rq_dropped_backlog (count_requests samples)"
proof (cases "buckets = [] \<and> samples = []")
  case True
  then show ?thesis by (simp add: count_requests_def with_outcome_def)
next
  case False
  then obtain A where "buckets = buckets_from A samples 0 (bucket_total A samples) 0"
    using assms by (auto simp: bucketize_def Let_def split: if_splits option.splits)
  then show ?thesis using buckets_counts [of A samples] by (simp add: count_requests_def)
qed

text \<open>The targets of the series add up to the plan. With a plan, the buckets' expected
  requests are the plan's integral over the time they cover, and all that the plan asks for
  when they cover its duration.\<close>

theorem expected_adds_up:
  assumes "stages \<noteq> []" "\<forall>st \<in> set stages. 0 \<le> snd st"
    and "bucketize samples width (Some 0) stages hold_start = Inr buckets"
  shows "sum_list (map lb_expected buckets) =
      planned_rate_integral stages 0 (of_nat (length buckets) * width) \<and>
    (planned_duration stages \<le> of_nat (length buckets) * width \<longrightarrow>
      sum_list (map lb_expected buckets) = sum_list (map (\<lambda>(rate, d). rate * d) stages))"
proof -
  define A where "A = \<lparr>ba_width = width, ba_origin = 0, ba_stages = stages, ba_hold_start = hold_start\<rparr>"
  define n where "n = bucket_total A samples"
  have w: "0 < width" and "buckets = buckets_from A samples 0 n 0"
    using assms(3) by (auto simp: bucketize_def A_def n_def Let_def split: if_splits)
  then obtain before where bs: "buckets = map (\<lambda>i. bucket_at A samples i (before i)) [0..<n]"
    using buckets_from_eq [of A samples 0 n 0] by auto
  let ?I = "planned_rate_integral stages"
  have "lb_expected (bucket_at A samples i b) = ?I (of_nat i * width) (of_nat (Suc i) * width)" for i b
    using assms(1) by (simp add: bucket_at_def Let_def A_def algebra_simps)
  then have sum: "sum_list (map lb_expected buckets) =
      (\<Sum>i<n. ?I (of_nat i * width) (of_nat (Suc i) * width))"
    by (simp add: bs comp_def interv_sum_list_conv_sum_set_nat atLeast0LessThan)
  also have "\<dots> = ?I 0 (of_nat n * width)"
  proof (induction n)
    case (Suc n)
    then show ?case using w
      by (simp add: planned_rate_integral_def planned_from_split del: of_nat_Suc)
  qed (simp add: planned_rate_integral_def planned_from_empty)
  finally have "sum_list (map lb_expected buckets) = ?I 0 (of_nat (length buckets) * width)"
    by (simp add: bs)
  moreover have "?I 0 b = sum_list (map (\<lambda>(rate, d). rate * d) stages)"
    if "planned_duration stages \<le> b" for b
    using planned_from_whole [OF assms(2), of 0 b] that by (simp add: planned_rate_integral_def)
  ultimately show ?thesis by simp
qed

text \<open>The knee is the first lasting trouble. With a persistence of at least one there is no
  knee exactly when no run of that many neighbouring buckets is bad, and a reported knee is
  at the start of the earliest such run, for the reason of its first bucket.\<close>

theorem knee_is_first_bad_run:
  assumes "0 < kl_persistence K"
  shows "find_knee K buckets \<noteq> None \<and>
    (find_knee K buckets = Some None \<longleftrightarrow>
       (\<forall>i. \<not> bad_run (kl_persistence K) (bucket_verdicts K buckets) i)) \<and>
    (\<forall>k. find_knee K buckets = Some (Some k) \<longrightarrow>
       (\<exists>i < length buckets. bad_run (kl_persistence K) (bucket_verdicts K buckets) i \<and>
          (\<forall>j < i. \<not> bad_run (kl_persistence K) (bucket_verdicts K buckets) j) \<and>
          kn_at_seconds k = lb_start (buckets ! i) \<and>
          judge_bucket K (knee_baseline buckets) (i, buckets ! i) = Some (kn_reason k)))"
proof -
  let ?vs = "bucket_verdicts K buckets"
  have len: "length ?vs = length buckets" by (simp add: bucket_verdicts_def)
  then have fst: "map fst (zip ?vs buckets) = ?vs" by simp
  have at_i: "i < length buckets \<Longrightarrow> ?vs ! i = judge_bucket K (knee_baseline buckets) (i, buckets ! i)" for i
    by (simp add: bucket_verdicts_def nth_enumerate_eq)
  from knee_from_first [OF assms, of "zip ?vs buckets", unfolded fst] assms len at_i show ?thesis
    by (auto simp: find_knee_def split: option.splits)
qed

section \<open>Witnesses\<close>

definition sample_load :: "seconds \<Rightarrow> load_outcome \<Rightarrow> int option \<Rightarrow> load_sample" where
  "sample_load t oc status = \<lparr>ls_scheduled_at = t,
     ls_dispatched_at = (if oc \<in> {Completed, Abandoned} then Some t else None), ls_status = status,
     ls_service_ms = Some 20, ls_offered_ms = Some 25, ls_target_rate = 2, ls_outcome = oc,
     ls_index = 0, ls_in_hold = True\<rparr>"

definition sample_series :: "load_sample list" where
  "sample_series = [sample_load 0 Completed (Some 200), sample_load (1 / 2) Completed (Some 503),
     sample_load 1 DroppedBacklog None, sample_load (3 / 2) Abandoned None,
     sample_load 2 Completed (Some 500), sample_load (5 / 2) Completed (Some 429)]"

definition sample_buckets :: "load_bucket list" where
  "sample_buckets = (case bucketize sample_series 1 (Some 0) [(2, 3)] None of Inr bs \<Rightarrow> bs | Inl _ \<Rightarrow> [])"

lemma sample_bucketize: "bucketize sample_series 1 (Some 0) [(2, 3)] None = Inr sample_buckets"
  by (simp add: sample_buckets_def bucketize_def)

lemma sample_buckets_length: "length sample_buckets = 3"
  by code_simp

theorem percentile_is_its_rank_witness:
  "\<exists>v \<in> set [30, 10, 20 :: rat]. load_percentile [30, 10, 20] (1 / 2) = Inr (Some v) \<and>
     3 / 2 \<le> (of_nat (length (filter (\<lambda>x. x \<le> v) [30, 10, 20])) :: rat)"
  using percentile_is_its_rank [of "[30, 10, 20]" "1 / 2"] by fastforce

theorem buckets_lose_nothing_witness:
  "sum_list (map lb_count sample_buckets) = 5 \<and> sum_list (map lb_dropped_backlog sample_buckets) = 1"
  using buckets_lose_nothing [OF sample_bucketize]
  by (simp add: count_requests_def with_outcome_def sample_series_def sample_load_def ls_sent_def)

theorem expected_adds_up_witness: "sum_list (map lb_expected sample_buckets) = 6"
  using expected_adds_up [OF _ _ sample_bucketize]
  by (simp add: sample_buckets_length planned_duration_def)

theorem knee_is_first_bad_run_witness:
  "\<exists>k. find_knee (default_limits None) sample_buckets = Some (Some k)"
proof -
  have "bad_run (kl_persistence (default_limits None)) (bucket_verdicts (default_limits None) sample_buckets) 0"
    by code_simp
  then show ?thesis
    using knee_is_first_bad_run [of "default_limits None" sample_buckets]
    by (auto simp: default_limits_def KNEE_PERSISTENCE_def)
qed

end
