(* ===== verification/Load_Run.thy ===== *)
theory Load_Run
  imports Rate_Limit Load_Report
begin

text \<open>
  The engine of a load run (\<open>barrage/runner.py\<close>, with the pool of \<open>barrage/executor.py\<close>): the
  plan and its ceiling, the ramp, the open-loop schedule, the pacer of the closed loop, and the
  life of a run under threads. What a thread does with a lock held is one function on a slot
  (\<open>send_begin\<close>, \<open>send_finish\<close>, \<open>freeze\<close>); \<open>run_step\<close> interleaves them: the main thread submits
  or takes the records, a worker enlists, begins or finishes a request, in any order the locks
  allow. A cancelled task is one that never begins. The pool bounds how many requests are in
  flight by its number of threads, which the step relation does not need.
\<close>

section \<open>The plan and the ceiling\<close>

definition DEFAULT_MAX_RATE_PER_SEC :: rat where "DEFAULT_MAX_RATE_PER_SEC = 50"
definition DEFAULT_MAX_DURATION_SEC :: seconds where "DEFAULT_MAX_DURATION_SEC = 300"
definition DEFAULT_MAX_CONCURRENCY :: int where "DEFAULT_MAX_CONCURRENCY = 64"
definition DEFAULT_GRACE_SECONDS :: seconds where "DEFAULT_GRACE_SECONDS = 10"
definition DEFAULT_MAX_QUEUE_SECONDS :: seconds where "DEFAULT_MAX_QUEUE_SECONDS = 5"

datatype ceiling_error = ConcurrencyBelowOne int | ConcurrencyOver int int | RateOver rat rat
  | DurationOver seconds seconds

definition check_rate_ceiling ::
  "rat \<Rightarrow> seconds \<Rightarrow> bool \<Rightarrow> rat \<Rightarrow> seconds \<Rightarrow> int option \<Rightarrow> int \<Rightarrow> ceiling_error + unit"
where
  "check_rate_ceiling rate duration allow_high_rate max_rate max_duration workers max_workers =
     (case workers of
        Some n \<Rightarrow> if n < 1 then Inl (ConcurrencyBelowOne n)
          else if allow_high_rate then Inr ()
          else if max_workers < n then Inl (ConcurrencyOver n max_workers)
          else if max_rate < rate then Inl (RateOver rate max_rate)
          else if max_duration < duration then Inl (DurationOver duration max_duration) else Inr ()
      | None \<Rightarrow> if allow_high_rate then Inr ()
          else if max_rate < rate then Inl (RateOver rate max_rate)
          else if max_duration < duration then Inl (DurationOver duration max_duration) else Inr ())"

definition MODE_OPEN :: string where "MODE_OPEN = ''open''"
definition MODE_CLOSED :: string where "MODE_CLOSED = ''closed''"
definition VALID_MODES :: "string list" where "VALID_MODES = [MODE_OPEN, MODE_CLOSED]"

record load_plan =
  bp_mode :: string
  bp_rate :: rat
  bp_concurrency :: int
  bp_warmup :: seconds
  bp_hold :: seconds
  bp_ramp_steps :: int
  bp_grace :: seconds
  bp_max_queue :: seconds

datatype plan_error = BadPlanMode string | BadPlanRate rat | BadPlanConcurrency int
  | BadPlanWarmup seconds | BadPlanHold seconds | BadPlanRampSteps int | BadPlanGrace seconds
  | BadPlanQueue seconds

definition new_plan :: "load_plan \<Rightarrow> plan_error + load_plan" where
  "new_plan p =
     (if bp_mode p \<notin> set VALID_MODES then Inl (BadPlanMode (bp_mode p))
      else if bp_rate p \<le> 0 then Inl (BadPlanRate (bp_rate p))
      else if bp_concurrency p < 1 then Inl (BadPlanConcurrency (bp_concurrency p))
      else if bp_warmup p < 0 then Inl (BadPlanWarmup (bp_warmup p))
      else if bp_hold p \<le> 0 then Inl (BadPlanHold (bp_hold p))
      else if bp_ramp_steps p < 0 then Inl (BadPlanRampSteps (bp_ramp_steps p))
      else if bp_grace p < 0 then Inl (BadPlanGrace (bp_grace p))
      else if bp_max_queue p \<le> 0 then Inl (BadPlanQueue (bp_max_queue p))
      else Inr p)"

section \<open>The ramp and the schedule\<close>

text \<open>A stage is its rate and its duration, as the report takes it.\<close>

type_synonym ramp_stage = "rat \<times> seconds"

definition ramp_stages :: "rat \<Rightarrow> seconds \<Rightarrow> int \<Rightarrow> ramp_stage list" where
  "ramp_stages target_rate warmup steps =
     (if warmup \<le> 0 \<or> steps \<le> 0 then []
      else map (\<lambda>i. (target_rate * (of_nat i + 1) / of_int steps, warmup / of_int steps))
             [0..<nat steps])"

definition build_stages :: "rat \<Rightarrow> seconds \<Rightarrow> seconds \<Rightarrow> int \<Rightarrow> ramp_stage list" where
  "build_stages target_rate warmup hold steps =
     ramp_stages target_rate warmup steps @ (if 0 < hold then [(target_rate, hold)] else [])"

definition bp_duration :: "load_plan \<Rightarrow> seconds" where
  "bp_duration p = bp_warmup p + bp_hold p"

definition bp_stages :: "load_plan \<Rightarrow> ramp_stage list" where
  "bp_stages p = build_stages (bp_rate p) (bp_warmup p) (bp_hold p) (bp_ramp_steps p)"

record arrival =
  ar_index :: nat
  ar_offset :: seconds
  ar_rate :: rat

fun schedule_from :: "nat \<Rightarrow> seconds \<Rightarrow> ramp_stage list \<Rightarrow> arrival list" where
  "schedule_from n stage_start [] = []"
| "schedule_from n stage_start ((rate, duration) # stages) =
     (if duration \<le> 0 then schedule_from n stage_start stages
      else let k = nat (max 0 (round_even (rate * duration))); interval = 1 / rate
           in map (\<lambda>step. \<lparr>ar_index = n + step, ar_offset = stage_start + of_nat step * interval,
                     ar_rate = rate\<rparr>) [0..<k] @
              schedule_from (n + k) (stage_start + duration) stages)"

definition arrival_schedule :: "ramp_stage list \<Rightarrow> arrival list" where
  "arrival_schedule stages = schedule_from 0 0 stages"

section \<open>Slots and records\<close>

record 'r slot =
  so_index :: nat
  so_target_rate :: rat
  so_scheduled_at :: seconds
  so_waited :: seconds
  so_dispatched_at :: "seconds option"
  so_completed_at :: "seconds option"
  so_result :: "'r option"
  so_outcome :: "load_outcome option"

definition new_slot :: "nat \<Rightarrow> rat \<Rightarrow> seconds \<Rightarrow> seconds \<Rightarrow> 'r slot" where
  "new_slot i rate scheduled waited = \<lparr>so_index = i, so_target_rate = rate,
     so_scheduled_at = scheduled, so_waited = waited, so_dispatched_at = None,
     so_completed_at = None, so_result = None, so_outcome = None\<rparr>"

record 'r dispatch_record =
  dr_index :: nat
  dr_target_rate :: rat
  dr_scheduled_at :: seconds
  dr_outcome :: load_outcome
  dr_dispatched_at :: "seconds option"
  dr_completed_at :: "seconds option"
  dr_result :: "'r option"
  dr_waited :: seconds

definition dr_queued :: "'r dispatch_record \<Rightarrow> seconds" where
  "dr_queued r =
     (case dr_dispatched_at r of None \<Rightarrow> 0 | Some d \<Rightarrow> max (d - dr_scheduled_at r) 0)"

definition freeze :: "'r slot \<Rightarrow> 'r dispatch_record" where
  "freeze s =
     (let oc = (case so_outcome s of
            Some oc \<Rightarrow> oc
          | None \<Rightarrow> if so_dispatched_at s \<noteq> None then Abandoned else NotDispatched)
      in \<lparr>dr_index = so_index s, dr_target_rate = so_target_rate s,
          dr_scheduled_at = so_scheduled_at s, dr_outcome = oc,
          dr_dispatched_at = so_dispatched_at s,
          dr_completed_at = (if oc = Completed then so_completed_at s else None),
          dr_result = (if oc = Completed then so_result s else None),
          dr_waited = so_waited s\<rparr>)"

text \<open>What is fixed once the clock has been read at the start.\<close>

record run_frame =
  rf_open :: bool
  rf_started_at :: seconds
  rf_end :: seconds
  rf_deadline :: seconds
  rf_max_queue :: seconds
  rf_schedule :: "arrival list"
  rf_stages :: "ramp_stage list"

definition frame_of :: "load_plan \<Rightarrow> seconds \<Rightarrow> run_frame" where
  "frame_of p started_at = \<lparr>rf_open = (bp_mode p = MODE_OPEN), rf_started_at = started_at,
     rf_end = started_at + bp_duration p, rf_deadline = started_at + bp_duration p + bp_grace p,
     rf_max_queue = bp_max_queue p, rf_schedule = arrival_schedule (bp_stages p),
     rf_stages = bp_stages p\<rparr>"

text \<open>The two halves of \<open>_Run.send\<close>, each with the run's lock held. The backlog is checked in
  open loop only.\<close>

definition send_begin :: "run_frame \<Rightarrow> bool \<Rightarrow> seconds \<Rightarrow> 'r slot \<Rightarrow> 'r slot" where
  "send_begin F shut now s =
     (if shut then s
      else if rf_deadline F \<le> now then s\<lparr>so_outcome := Some NotDispatched\<rparr>
      else if rf_open F \<and> rf_max_queue F < now - so_scheduled_at s
      then s\<lparr>so_outcome := Some DroppedBacklog\<rparr>
      else s\<lparr>so_dispatched_at := Some now\<rparr>)"

definition send_finish :: "bool \<Rightarrow> 'r \<Rightarrow> seconds \<Rightarrow> 'r slot \<Rightarrow> 'r slot" where
  "send_finish shut result finished s =
     (if shut then s
      else s\<lparr>so_result := Some result, so_completed_at := Some finished,
             so_outcome := Some Completed\<rparr>)"

section \<open>The pacer of the closed loop\<close>

definition GATE_CAPACITY :: rat where "GATE_CAPACITY = 2"

record pacer =
  pk_bounds :: "(seconds \<times> rat) list"
  pk_end :: seconds
  pk_done :: bool
  pk_next :: nat
  pk_bucket :: bucket

fun stage_bounds :: "seconds \<Rightarrow> ramp_stage list \<Rightarrow> (seconds \<times> rat) list" where
  "stage_bounds t0 [] = []"
| "stage_bounds t0 ((rate, duration) # stages) =
     (if 0 < duration then (t0 + duration, rate) # stage_bounds (t0 + duration) stages
      else stage_bounds t0 stages)"

definition stage_at :: "(seconds \<times> rat) list \<Rightarrow> seconds \<Rightarrow> seconds \<times> rat" where
  "stage_at bounds now =
     (case find (\<lambda>b. now < fst b) bounds of Some b \<Rightarrow> b | None \<Rightarrow> last bounds)"

definition new_pacer :: "'w timing \<Rightarrow> run_frame \<Rightarrow> 'w \<Rightarrow> (rate_error + pacer) \<times> 'w" where
  "new_pacer T F w =
     (let bounds = stage_bounds (rf_started_at F) (rf_stages F)
      in case new_bucket T (snd (hd bounds)) 1 w of
           (Inl e, w') \<Rightarrow> (Inl e, w')
         | (Inr b, w') \<Rightarrow> (Inr \<lparr>pk_bounds = bounds, pk_end = rf_end F, pk_done = False,
             pk_next = 0, pk_bucket = b\<rparr>, w'))"

text \<open>One turn of the loop of \<open>take\<close>: stop, go round again in a later stage, or a slot.\<close>

datatype 'r taken = TakeStop | TakeAgain | TakeSlot "'r slot" | TakeRaises rate_error

definition re_rate :: "'w timing \<Rightarrow> rat \<Rightarrow> bucket \<Rightarrow> 'w \<Rightarrow> (rate_error + bucket) \<times> 'w" where
  "re_rate T rate b w = (if bk_rate b \<noteq> rate then set_rate T rate b w else (Inr b, w))"

definition hand_over ::
  "'w timing \<Rightarrow> rat \<Rightarrow> pacer \<Rightarrow> 'w \<Rightarrow> ('r taken \<times> pacer \<times> 'w) option"
where
  "hand_over T rate K w =
     (case acquire T 1 (pk_bucket K) w of
        None \<Rightarrow> None
      | Some (Inl e, b, w1) \<Rightarrow> Some (TakeRaises e, K\<lparr>pk_bucket := b\<rparr>, w1)
      | Some (Inr waited, b, w1) \<Rightarrow>
          (case read_clock T w1 of (taken_at, w2) \<Rightarrow>
             if pk_end K - HAIR \<le> taken_at
             then Some (TakeStop, K\<lparr>pk_bucket := b, pk_done := True\<rparr>, w2)
             else Some (TakeSlot (new_slot (pk_next K) rate taken_at waited),
                    K\<lparr>pk_bucket := b, pk_next := pk_next K + 1\<rparr>, w2)))"

definition take_pass ::
  "'w timing \<Rightarrow> ('w \<Rightarrow> bool) \<Rightarrow> pacer \<Rightarrow> 'w \<Rightarrow> ('r taken \<times> pacer \<times> 'w) option"
where
  "take_pass T shut K w =
     (case read_clock T w of (now, w1) \<Rightarrow>
        if pk_done K \<or> shut w1 \<or> pk_end K - HAIR \<le> now
        then Some (TakeStop, K\<lparr>pk_done := True\<rparr>, w1)
        else (case stage_at (pk_bounds K) (now + HAIR) of (stage_end, rate) \<Rightarrow>
        (case re_rate T rate (pk_bucket K) w1 of
           (Inl e, w2) \<Rightarrow> Some (TakeRaises e, K, w2)
         | (Inr b, w2) \<Rightarrow>
        (case wait_time T 1 b w2 of
           (Inl e, w3) \<Rightarrow> Some (TakeRaises e, K\<lparr>pk_bucket := b\<rparr>, w3)
         | (Inr (wait_for, b'), w3) \<Rightarrow>
             (let boundary = min stage_end (pk_end K); K' = K\<lparr>pk_bucket := b'\<rparr>
              in if boundary - HAIR \<le> now + wait_for
                 then (if pk_end K - HAIR \<le> boundary
                       then Some (TakeStop, K'\<lparr>pk_done := True\<rparr>, w3)
                       else Some (TakeAgain, K', do_sleep T (boundary - now) w3))
                 else hand_over T rate K' w3)))))"

partial_function (option) pacer_take ::
  "'w timing \<Rightarrow> ('w \<Rightarrow> bool) \<Rightarrow> pacer \<Rightarrow> 'w \<Rightarrow> ('r taken \<times> pacer \<times> 'w) option"
where
  "pacer_take T shut K w =
     (case take_pass T shut K w of
        None \<Rightarrow> None
      | Some (r, K', w') \<Rightarrow>
          (case r of TakeAgain \<Rightarrow> pacer_take T shut K' w' | _ \<Rightarrow> Some (r, K', w')))"

declare pacer_take.simps [code]

section \<open>The life of a run\<close>

datatype phase = Waiting | InFlight | Returned

record 'r live_run =
  lv_closed :: bool
  lv_next :: nat
  lv_taken :: "'r slot list"
  lv_slots :: "('r slot \<times> phase) list"

definition fresh_run :: "'r live_run" where
  "fresh_run = \<lparr>lv_closed = False, lv_next = 0, lv_taken = [], lv_slots = []\<rparr>"

definition due_slot :: "run_frame \<Rightarrow> arrival \<Rightarrow> seconds \<Rightarrow> 'r slot" where
  "due_slot F a waited = new_slot (ar_index a) (ar_rate a) (rf_started_at F + ar_offset a) waited"

definition late_slot :: "run_frame \<Rightarrow> arrival \<Rightarrow> 'r slot \<times> phase" where
  "late_slot F a = ((due_slot F a 0)\<lparr>so_outcome := Some NotDispatched\<rparr>, Returned)"

definition after_begin :: "'r slot \<Rightarrow> phase" where
  "after_begin s = (if so_dispatched_at s \<noteq> None then InFlight else Returned)"

text \<open>\<open>submit\<close> and \<open>overrun\<close> are the main thread of the open loop (\<open>_run_open_loop\<close>), \<open>take\<close> and
  \<open>enlist\<close> a worker of the closed loop (\<open>_run_closed_loop\<close>); the clock readings of one request
  do not go back. \<open>fail\<close> is a send hook that raises.\<close>

inductive run_step :: "run_frame \<Rightarrow> 'r live_run \<Rightarrow> 'r live_run \<Rightarrow> bool" for F :: run_frame where
  submit: "run_step F s (s\<lparr>lv_next := Suc (lv_next s),
      lv_slots := lv_slots s @ [(due_slot F (rf_schedule F ! lv_next s) waited, Waiting)]\<rparr>)"
    if "rf_open F" "\<not> lv_closed s" "lv_next s < length (rf_schedule F)"
| overrun: "run_step F s (s\<lparr>lv_next := length (rf_schedule F),
      lv_slots := lv_slots s @ map (late_slot F) (drop (lv_next s) (rf_schedule F))\<rparr>)"
    if "rf_open F" "\<not> lv_closed s" "lv_next s < length (rf_schedule F)" "rf_deadline F \<le> now"
| take: "run_step F s (s\<lparr>lv_next := Suc (lv_next s),
      lv_taken := new_slot (lv_next s) rate taken_at waited # lv_taken s\<rparr>)"
    if "\<not> rf_open F" "rate \<in> fst ` set (rf_stages F)" "taken_at < rf_end F - HAIR"
| enlist: "run_step F s (s\<lparr>lv_taken := before @ after,
      lv_slots := (if lv_closed s then lv_slots s else lv_slots s @ [(sl, Waiting)])\<rparr>)"
    if "\<not> rf_open F" "lv_taken s = before @ sl # after"
| begins: "run_step F s (s\<lparr>lv_slots := (lv_slots s)[i := (send_begin F (lv_closed s) now sl,
      after_begin (send_begin F (lv_closed s) now sl))]\<rparr>)"
    if "i < length (lv_slots s)" "lv_slots s ! i = (sl, Waiting)"
| finish: "run_step F s (s\<lparr>lv_slots :=
      (lv_slots s)[i := (send_finish (lv_closed s) result finished sl, Returned)]\<rparr>)"
    if "i < length (lv_slots s)" "lv_slots s ! i = (sl, InFlight)" "so_dispatched_at sl = Some d" "d \<le> finished"
| fail: "run_step F s (s\<lparr>lv_slots := (lv_slots s)[i := (sl, Returned)]\<rparr>)"
    if "i < length (lv_slots s)" "lv_slots s ! i = (sl, InFlight)"
| close: "run_step F s (s\<lparr>lv_closed := True\<rparr>)"

inductive_cases run_stepE: "run_step F s s'"

inductive reached :: "run_frame \<Rightarrow> 'r live_run \<Rightarrow> bool" for F :: run_frame where
  start: "reached F fresh_run"
| further: "reached F s \<Longrightarrow> run_step F s s' \<Longrightarrow> reached F s'"

definition finalise :: "'r live_run \<Rightarrow> 'r dispatch_record list" where
  "finalise s = sort_key dr_index (map (freeze \<circ> fst) (lv_slots s))"

section \<open>What a record may say\<close>

definition sent_in_time :: "run_frame \<Rightarrow> seconds \<Rightarrow> seconds \<Rightarrow> bool" where
  "sent_in_time F scheduled d \<longleftrightarrow>
     d < rf_deadline F \<and> (rf_open F \<longrightarrow> d - scheduled \<le> rf_max_queue F)"

definition record_ok :: "run_frame \<Rightarrow> 'r dispatch_record \<Rightarrow> bool" where
  "record_ok F r \<longleftrightarrow>
     (case dr_outcome r of
        Completed \<Rightarrow> \<exists>d c. dr_dispatched_at r = Some d \<and> dr_completed_at r = Some c \<and>
          sent_in_time F (dr_scheduled_at r) d \<and> d \<le> c \<and> dr_result r \<noteq> None
      | Abandoned \<Rightarrow> \<exists>d. dr_dispatched_at r = Some d \<and> sent_in_time F (dr_scheduled_at r) d \<and>
          dr_completed_at r = None \<and> dr_result r = None
      | DroppedBacklog \<Rightarrow> rf_open F \<and> dr_dispatched_at r = None \<and> dr_completed_at r = None
      | NotDispatched \<Rightarrow> dr_dispatched_at r = None \<and> dr_completed_at r = None)"

definition slot_ok :: "run_frame \<Rightarrow> 'r slot \<times> phase \<Rightarrow> bool" where
  "slot_ok F x \<longleftrightarrow> (case x of (s, ph) \<Rightarrow>
     (ph = Waiting \<longrightarrow> so_outcome s = None \<and> so_dispatched_at s = None) \<and>
     (ph = InFlight \<longrightarrow> so_outcome s = None \<and> so_dispatched_at s \<noteq> None) \<and>
     record_ok F (freeze s))"

lemma freeze_simps [simp]:
  "dr_index (freeze s) = so_index s" "dr_target_rate (freeze s) = so_target_rate s"
  "dr_scheduled_at (freeze s) = so_scheduled_at s"
  by (simp_all add: freeze_def Let_def)

lemma new_slot_ok: "slot_ok F (new_slot i rate t waited, Waiting)"
  by (simp add: slot_ok_def record_ok_def freeze_def new_slot_def)

lemma late_slot_ok: "slot_ok F (late_slot F a)"
  by (simp add: slot_ok_def record_ok_def freeze_def late_slot_def due_slot_def new_slot_def)

lemma begin_ok:
  assumes "slot_ok F (s, Waiting)"
  shows "slot_ok F (send_begin F shut now s, after_begin (send_begin F shut now s))"
  using assms
  by (auto simp: slot_ok_def record_ok_def freeze_def send_begin_def after_begin_def sent_in_time_def)

lemma finish_ok:
  assumes "slot_ok F (s, InFlight)" "so_dispatched_at s = Some d" "d \<le> finished"
  shows "slot_ok F (send_finish shut result finished s, Returned)"
  using assms by (auto simp: slot_ok_def record_ok_def freeze_def send_finish_def)

lemma fail_ok: "slot_ok F (s, InFlight) \<Longrightarrow> slot_ok F (s, Returned)"
  by (simp add: slot_ok_def)

lemma same_request [simp]:
  "so_index (send_begin F shut now s) = so_index s"
  "so_target_rate (send_begin F shut now s) = so_target_rate s"
  "so_scheduled_at (send_begin F shut now s) = so_scheduled_at s"
  "so_index (send_finish shut result finished s) = so_index s"
  "so_target_rate (send_finish shut result finished s) = so_target_rate s"
  "so_scheduled_at (send_finish shut result finished s) = so_scheduled_at s"
  by (simp_all add: send_begin_def send_finish_def)

text \<open>What a slot asks for never changes.\<close>

definition request_of :: "'r slot \<times> phase \<Rightarrow> nat \<times> rat \<times> seconds" where
  "request_of x = (so_index (fst x), so_target_rate (fst x), so_scheduled_at (fst x))"

definition arrival_request :: "run_frame \<Rightarrow> arrival \<Rightarrow> nat \<times> rat \<times> seconds" where
  "arrival_request F a = (ar_index a, ar_rate a, rf_started_at F + ar_offset a)"

lemma request_of_begin [simp]: "request_of (send_begin F shut now s, ph) = request_of (s, ph')"
  "request_of (send_finish shut result finished s, ph) = request_of (s, ph')"
  by (simp_all add: request_of_def)

lemma request_of_due [simp]: "request_of (due_slot F a waited, ph) = arrival_request F a"
  "request_of (late_slot F a) = arrival_request F a"
  by (simp_all add: request_of_def due_slot_def late_slot_def arrival_request_def new_slot_def)

lemma map_update_same: "i < length xs \<Longrightarrow> f y = f (xs ! i) \<Longrightarrow> map f (xs[i := y]) = map f xs"
  by (metis list_update_id map_update)

section \<open>Invariants of a run\<close>

lemma run_step_slots:
  assumes "run_step F s s'" "\<forall>x \<in> set (lv_slots s). slot_ok F x"
    "\<forall>sl \<in> set (lv_taken s). slot_ok F (sl, Waiting)"
  shows "(\<forall>x \<in> set (lv_slots s'). slot_ok F x) \<and> (\<forall>sl \<in> set (lv_taken s'). slot_ok F (sl, Waiting))"
  using assms
proof cases
  case (begins i sl now)
  then have "slot_ok F (sl, Waiting)" using assms(2) nth_mem by metis
  from begin_ok [OF this, of "lv_closed s" now] show ?thesis
    using begins assms set_update_subset_insert by fastforce
next
  case (finish i sl d finished result)
  then have "slot_ok F (sl, InFlight)" using assms(2) nth_mem by metis
  from finish_ok [OF this finish(4,5), of "lv_closed s" result] show ?thesis
    using finish assms set_update_subset_insert by fastforce
next
  case (fail i sl)
  then have "slot_ok F (sl, InFlight)" using assms(2) nth_mem by metis
  from fail_ok [OF this] show ?thesis using fail assms set_update_subset_insert by fastforce
qed (auto simp: due_slot_def new_slot_ok late_slot_ok)

lemma reached_slots:
  "reached F s \<Longrightarrow>
    (\<forall>x \<in> set (lv_slots s). slot_ok F x) \<and> (\<forall>sl \<in> set (lv_taken s). slot_ok F (sl, Waiting))"
proof (induction rule: reached.induct)
  case (further s s')
  then show ?case using run_step_slots by blast
qed (simp add: fresh_run_def)

lemma run_step_requests:
  assumes "run_step F s s'"
  obtains (same) "map request_of (lv_slots s') = map request_of (lv_slots s)"
      "lv_next s' = lv_next s" "lv_taken s' = lv_taken s"
  | (submit) waited where "rf_open F" "lv_next s < length (rf_schedule F)" "lv_next s' = Suc (lv_next s)"
      "lv_slots s' = lv_slots s @ [(due_slot F (rf_schedule F ! lv_next s) waited, Waiting)]"
  | (overrun) "rf_open F" "lv_next s < length (rf_schedule F)" "lv_next s' = length (rf_schedule F)"
      "lv_slots s' = lv_slots s @ map (late_slot F) (drop (lv_next s) (rf_schedule F))"
  | (take) rate t waited where "\<not> rf_open F" "rate \<in> fst ` set (rf_stages F)" "t < rf_end F - HAIR"
      "lv_next s' = Suc (lv_next s)" "lv_slots s' = lv_slots s"
      "lv_taken s' = new_slot (lv_next s) rate t waited # lv_taken s"
  | (enlist) before sl after where "\<not> rf_open F" "lv_taken s = before @ sl # after" "lv_next s' = lv_next s"
      "lv_taken s' = before @ after"
      "lv_slots s' = (if lv_closed s then lv_slots s else lv_slots s @ [(sl, Waiting)])"
  using assms
proof cases
  case (begins i sl now)
  then show ?thesis by (intro same) (simp_all add: map_update_same)
next
  case (finish i sl d finished result)
  then show ?thesis by (intro same) (simp_all add: map_update_same)
next
  case (fail i sl)
  then show ?thesis by (intro same) (simp_all add: map_update_same request_of_def)
qed (use that in simp_all)

lemma open_requests:
  assumes "reached F s" "rf_open F"
  shows "map request_of (lv_slots s) = map (arrival_request F) (take (lv_next s) (rf_schedule F)) \<and>
    lv_next s \<le> length (rf_schedule F)"
  using assms(1)
proof (induction rule: reached.induct)
  case start
  then show ?case by (simp add: fresh_run_def)
next
  case (further s s')
  from further(2) show ?case
  proof (cases rule: run_step_requests)
    case (submit waited)
    then show ?thesis using further by (simp add: take_Suc_conv_app_nth)
  next
    case overrun
    have "map request_of (map (late_slot F) as :: ('a slot \<times> phase) list) = map (arrival_request F) as" for as
      by simp
    then have "map request_of (lv_slots s') = map (arrival_request F)
        (take (lv_next s) (rf_schedule F) @ drop (lv_next s) (rf_schedule F))"
      using overrun further by (simp only: map_append)
    with overrun show ?thesis by simp
  qed (use further assms(2) in simp_all)
qed

definition asked :: "'r live_run \<Rightarrow> (nat \<times> rat \<times> seconds) list" where
  "asked s = map (\<lambda>sl. request_of (sl, Waiting)) (lv_taken s) @ map request_of (lv_slots s)"

lemma closed_requests:
  assumes "reached F s" "\<not> rf_open F"
  shows "distinct (map fst (asked s)) \<and> (\<forall>(i, rate, t) \<in> set (asked s). i < lv_next s \<and>
    rate \<in> fst ` set (rf_stages F) \<and> t < rf_end F - HAIR)"
  using assms(1)
proof (induction rule: reached.induct)
  case start
  then show ?case by (simp add: fresh_run_def asked_def)
next
  case (further s s')
  from further(2) show ?case
  proof (cases rule: run_step_requests)
    case same
    then show ?thesis using further by (simp add: asked_def)
  next
    case (take rate t waited)
    then have "asked s' = (lv_next s, rate, t) # asked s"
      by (simp add: asked_def request_of_def new_slot_def)
    with take further show ?thesis by (auto simp: less_SucI)
  next
    case (enlist before sl after)
    then show ?thesis using further
      by (cases "lv_closed s") (auto simp: asked_def request_of_def)
  qed (use assms(2) in simp_all)
qed

text \<open>Once the records are taken, nothing a late worker does changes them.\<close>

lemma closed_step:
  assumes "run_step F s s'" "lv_closed s"
  shows "lv_closed s' \<and> map (freeze \<circ> fst) (lv_slots s') = map (freeze \<circ> fst) (lv_slots s)"
  using assms
  by cases (simp_all add: send_begin_def send_finish_def map_update_same)

section \<open>Facts about the plan and the schedule\<close>

lemma new_plan_Inr:
  "new_plan p = Inr q \<longleftrightarrow> q = p \<and> bp_mode p \<in> set VALID_MODES \<and> 0 < bp_rate p \<and> 1 \<le> bp_concurrency p \<and>
     0 \<le> bp_warmup p \<and> 0 < bp_hold p \<and> 0 \<le> bp_ramp_steps p \<and> 0 \<le> bp_grace p \<and> 0 < bp_max_queue p"
  by (auto simp: new_plan_def)

definition stage_ok :: "rat \<Rightarrow> ramp_stage \<Rightarrow> bool" where
  "stage_ok rate st \<longleftrightarrow> 0 < fst st \<and> fst st \<le> rate \<and> 0 < snd st"

lemma bp_stages_ok:
  assumes "new_plan p = Inr q"
  shows "list_all (stage_ok (bp_rate p)) (bp_stages p)" "bp_stages p \<noteq> []"
    "0 < bp_ramp_steps p \<or> bp_warmup p = 0 \<Longrightarrow> planned_duration (bp_stages p) = bp_duration p"
    "planned_duration (bp_stages p) \<le> bp_duration p"
proof -
  let ?n = "bp_ramp_steps p"
  note p = assms [unfolded new_plan_Inr]
  have "bp_rate p * (of_nat i + 1) / of_int ?n \<le> bp_rate p" if "i < nat ?n" for i
  proof -
    have "int i + 1 \<le> ?n" using that by linarith
    then have "of_int (int i + 1) \<le> (of_int ?n :: rat)" by (simp only: of_int_le_iff)
    then have "of_nat i + 1 \<le> (of_int ?n :: rat)" by simp
    moreover have "0 < (of_int ?n :: rat)" using that by simp
    ultimately show ?thesis using p by (simp add: divide_le_eq mult_left_mono)
  qed
  then show "list_all (stage_ok (bp_rate p)) (bp_stages p)"
    using p by (auto simp: list_all_iff bp_stages_def build_stages_def ramp_stages_def stage_ok_def)
  show "bp_stages p \<noteq> []" using p by (simp add: bp_stages_def build_stages_def)
  have ramp: "planned_duration (ramp_stages r w n) = (if w \<le> 0 \<or> n \<le> 0 then 0 else w)" for r w n
    by (simp add: ramp_stages_def planned_duration_def comp_def sum_list_triv)
  have "planned_duration (a @ b) = planned_duration a + planned_duration b" for a b
    by (simp add: planned_duration_def)
  then have all: "planned_duration (bp_stages p) =
      (if bp_warmup p \<le> 0 \<or> ?n \<le> 0 then 0 else bp_warmup p) + bp_hold p"
    using p by (simp add: bp_stages_def build_stages_def ramp planned_duration_def [of "[_]"])
  then show "0 < ?n \<or> bp_warmup p = 0 \<Longrightarrow> planned_duration (bp_stages p) = bp_duration p"
    using p by (auto simp: bp_duration_def)
  show "planned_duration (bp_stages p) \<le> bp_duration p"
    using p all by (auto simp: bp_duration_def)
qed

lemma stage_arrivals:
  assumes "stage_ok most (rate, d)"
  defines "k \<equiv> nat (max 0 (round_even (rate * d)))"
  shows "step < k \<Longrightarrow> of_nat step * (1 / rate) < d" "\<bar>of_nat k - rate * d\<bar> \<le> 1 / 2"
proof -
  have pos: "0 < rate" "0 < d" "0 < rate * d" using assms by (auto simp: stage_ok_def)
  have near: "\<bar>of_int (round_even (rate * d)) - rate * d\<bar> \<le> 1 / 2" by (rule round_even_near)
  have "0 \<le> round_even (rate * d)"
  proof -
    have "- 1 < (of_int (round_even (rate * d)) :: rat)" using near pos by linarith
    then have "- 1 < round_even (rate * d)" by (metis of_int_less_iff of_int_minus of_int_1)
    then show ?thesis by simp
  qed
  then have k: "of_nat k = (of_int (round_even (rate * d)) :: rat)" by (simp add: k_def)
  with near show "\<bar>of_nat k - rate * d\<bar> \<le> 1 / 2" by simp
  assume "step < k"
  then have "of_nat step + 1 \<le> (of_nat k :: rat)" by (metis Suc_leI of_nat_Suc of_nat_le_iff add.commute)
  then have "of_nat step < rate * d" using k near by linarith
  then show "of_nat step * (1 / rate) < d" using pos by (simp add: divide_less_eq mult.commute)
qed

lemma schedule_from_facts:
  assumes "list_all (stage_ok most) stages"
  defines "sch \<equiv> \<lambda>n t0. schedule_from n t0 stages"
  shows "map ar_index (sch n t0) = [n..<n + length (sch n t0)] \<and>
    (\<forall>a \<in> set (sch n t0). t0 \<le> ar_offset a \<and> ar_offset a < t0 + planned_duration stages \<and>
       0 < ar_rate a \<and> ar_rate a \<le> most) \<and>
    sorted_wrt (<) (map ar_offset (sch n t0)) \<and>
    \<bar>of_nat (length (sch n t0)) - sum_list (map (\<lambda>(r, d). r * d) stages)\<bar> \<le> of_nat (length stages) / 2"
  unfolding sch_def using assms(1)
proof (induction stages arbitrary: n t0)
  case (Cons st stages)
  obtain rate d where st: "st = (rate, d)" by fastforce
  define k where "k = nat (max 0 (round_even (rate * d)))"
  define here where "here = map (\<lambda>step. \<lparr>ar_index = n + step, ar_offset = t0 + of_nat step * (1 / rate),
    ar_rate = rate\<rparr>) [0..<k]"
  have ok: "stage_ok most (rate, d)" "list_all (stage_ok most) stages" using Cons.prems st by simp_all
  then have pos: "0 < rate" "0 < d" "rate \<le> most" by (auto simp: stage_ok_def)
  have d0: "0 \<le> planned_duration stages"
    using ok(2) by (force simp: planned_duration_def list_all_iff stage_ok_def intro!: sum_list_nonneg)
  note arr = stage_arrivals [OF ok(1), folded k_def]
  note IH = Cons.IH [OF ok(2), of "n + k" "t0 + d"]
  let ?rest = "schedule_from (n + k) (t0 + d) stages"
  have eq: "schedule_from n t0 (st # stages) = here @ ?rest"
    using pos by (simp add: st Let_def k_def here_def)
  have dur: "planned_duration (st # stages) = d + planned_duration stages"
    by (simp add: planned_duration_def st)
  have here: "length here = k" "map ar_index here = [n..<n + k]"
    "\<forall>a \<in> set here. t0 \<le> ar_offset a \<and> ar_offset a < t0 + d \<and> ar_rate a = rate"
    using arr(1) pos by (auto simp: here_def comp_def map_add_upt [symmetric] add.commute)
  have "sorted_wrt (<) (map ar_offset here)"
    using pos by (simp add: here_def sorted_wrt_iff_nth_less divide_strict_right_mono)
  then have "sorted_wrt (<) (map ar_offset (here @ ?rest))"
    using IH here(3) by (fastforce simp: sorted_wrt_append)
  moreover have "\<bar>of_nat k - rate * d + (of_nat (length ?rest) - sum_list (map (\<lambda>(r, d). r * d) stages))\<bar> \<le>
      1 / 2 + of_nat (length stages) / 2"
    using arr(2) IH by (meson abs_triangle_ineq add_mono order_trans)
  moreover have "map ar_index (here @ ?rest) = [n..<n + length (here @ ?rest)]"
    using upt_add_eq_append [of n "n + k" "length ?rest"] conjunct1 [OF IH] here(1,2)
    by (simp only: map_append length_append add.assoc le_add1 simp_thms)
  moreover have "\<forall>a \<in> set (here @ ?rest). t0 \<le> ar_offset a \<and>
      ar_offset a < t0 + (d + planned_duration stages) \<and> 0 < ar_rate a \<and> ar_rate a \<le> most"
    using IH here(3) pos d0 by fastforce
  moreover have "of_nat (length (here @ ?rest)) - sum_list (map (\<lambda>(r, d). r * d) (st # stages)) =
      of_nat k - rate * d + (of_nat (length ?rest) - sum_list (map (\<lambda>(r, d). r * d) stages))"
    by (simp add: st here(1))
  moreover have "of_nat (length (st # stages)) / 2 = 1 / 2 + (of_nat (length stages) / 2 :: rat)"
    by (simp add: add_divide_distrib)
  ultimately show ?case unfolding eq dur by (simp only: simp_thms)
qed (simp add: planned_duration_def)

section \<open>Facts about the pacer\<close>

lemma stage_at_mem: "bounds \<noteq> [] \<Longrightarrow> stage_at bounds t \<in> set bounds"
  by (auto simp: stage_at_def find_Some_iff split: option.splits)

lemma stage_bounds_rates: "snd ` set (stage_bounds t0 stages) \<subseteq> fst ` set stages"
  by (induction t0 stages rule: stage_bounds.induct) auto

text \<open>What \<open>take\<close> hands out: the next index, a rate of the plan, a time before the end.\<close>

definition handed :: "pacer \<Rightarrow> 'r slot \<Rightarrow> bool" where
  "handed K sl \<longleftrightarrow> (\<exists>rate \<in> snd ` set (pk_bounds K). \<exists>t waited.
     sl = new_slot (pk_next K) rate t waited \<and> t < pk_end K - HAIR)"

definition took :: "pacer \<Rightarrow> 'r taken \<Rightarrow> pacer \<Rightarrow> bool" where
  "took K r K' \<longleftrightarrow> pk_bounds K' = pk_bounds K \<and> pk_end K' = pk_end K \<and>
     (case r of TakeSlot sl \<Rightarrow> handed K sl \<and> pk_next K' = Suc (pk_next K)
      | TakeStop \<Rightarrow> pk_done K' \<and> pk_next K' = pk_next K
      | _ \<Rightarrow> pk_next K' = pk_next K)"

lemma hand_over_took:
  fixes r :: "'r taken"
  assumes "hand_over T rate K w = Some (r, K', w')" "rate \<in> snd ` set (pk_bounds K)"
  shows "took K r K'"
proof -
  have "handed K (new_slot (pk_next K) rate t waited :: 'r slot)" if "t < pk_end K - HAIR" for t waited
    unfolding handed_def using assms(2) that by blast
  with assms(1) show ?thesis
    by (auto simp: hand_over_def took_def split: if_splits sum.splits prod.splits option.splits)
qed

lemma took_bucket [simp]: "took (K\<lparr>pk_bucket := b\<rparr>) r K' = took K r K'"
  by (simp add: took_def handed_def split: taken.split)

lemma take_pass_took:
  assumes "take_pass T shut K w = Some (r, K', w')" "pk_bounds K \<noteq> []"
  shows "took K r K'"
proof -
  obtain now w1 where now: "read_clock T w = (now, w1)" by fastforce
  obtain stage_end rate where st: "stage_at (pk_bounds K) (now + HAIR) = (stage_end, rate)" by fastforce
  have rate: "rate \<in> snd ` set (pk_bounds K)"
    using stage_at_mem [OF assms(2), of "now + HAIR"] st by force
  have over: "hand_over T rate (K\<lparr>pk_bucket := b\<rparr>) u = Some (r, K', w') \<Longrightarrow> took K r K'" for b u
    using hand_over_took [of T rate "K\<lparr>pk_bucket := b\<rparr>" u r K' w'] rate by simp
  from assms(1) show ?thesis
    by (auto simp: take_pass_def now st Let_def intro: over
        split: if_splits sum.splits prod.splits) (auto simp: took_def)
qed

lemma took_trans: "took K TakeAgain K1 \<Longrightarrow> took K1 r K2 \<Longrightarrow> took K r K2"
  by (auto simp: took_def handed_def split: taken.splits)

lemma pacer_take_took:
  assumes "pacer_take T shut K w = Some (r, K', w')" "pk_bounds K \<noteq> []"
  shows "took K r K' \<and> r \<noteq> TakeAgain"
proof -
  let ?P = "\<lambda>(T :: 'w timing) shut K w (x :: 'r taken \<times> pacer \<times> 'w). pk_bounds K \<noteq> [] \<longrightarrow>
    took K (fst x) (fst (snd x)) \<and> fst x \<noteq> TakeAgain"
  have "?P T shut K w (r, K', w')"
  proof (rule pacer_take.raw_induct [where P = ?P, OF _ assms(1)], intro impI)
    fix loop T shut K w and x :: "'r taken \<times> pacer \<times> 'w"
    assume IH: "\<And>T shut K w x. loop T shut K w = Some x \<Longrightarrow> ?P T shut K w x"
      and step: "(case take_pass T shut K w of None \<Rightarrow> None
        | Some (r, K', w') \<Rightarrow> (case r of TakeAgain \<Rightarrow> loop T shut K' w' | _ \<Rightarrow> Some (r, K', w'))) = Some x"
      and ne: "pk_bounds K \<noteq> []"
    obtain r1 :: "'r taken" and K1 w1 where p: "take_pass T shut K w = Some (r1, K1, w1)"
      using step by (auto split: option.splits)
    note t = take_pass_took [OF p ne]
    show "took K (fst x) (fst (snd x)) \<and> fst x \<noteq> TakeAgain"
    proof (cases "r1 = TakeAgain")
      case True
      then have "loop T shut K1 w1 = Some x" using step p by simp
      moreover have "pk_bounds K1 \<noteq> []" using t ne by (simp add: took_def)
      ultimately show ?thesis using IH took_trans t True by blast
    next
      case False
      then have "x = (r1, K1, w1)" using step p by (simp split: taken.splits)
      then show ?thesis using t False by simp
    qed
  qed
  then show ?thesis using assms(2) by simp
qed

text \<open>A pacer whose stages fill the run, with a bucket that can hold a token.\<close>

definition pacer_ok :: "pacer \<Rightarrow> bool" where
  "pacer_ok K \<longleftrightarrow> pk_bounds K \<noteq> [] \<and> pk_end K \<le> fst (last (pk_bounds K)) \<and>
     (\<forall>b \<in> set (pk_bounds K). 0 < snd b) \<and> bucket_ok (pk_bucket K) \<and> bk_capacity (pk_bucket K) = 1"

lemma re_rate_ok:
  assumes "monotonic T now" "bucket_ok b" "bk_last_refill b \<le> now w" "0 < rate"
  obtains b' w' where "re_rate T rate b w = (Inr b', w')" "bucket_ok b'" "bk_capacity b' = bk_capacity b"
    "bk_last_refill b' \<le> now w'" "now w \<le> now w'"
proof (cases "bk_rate b = rate")
  case True
  then show ?thesis using that assms by (simp add: re_rate_def)
next
  case False
  obtain t w' where c: "read_clock T w = (t, w')" by fastforce
  have t: "now w \<le> t" "t \<le> now w'" using monotonic_clock [OF assms(1) c] by auto
  have "re_rate T rate b w = (Inr ((refill t b)\<lparr>bk_rate := rate\<rparr>), w')"
    using False assms(4) c by (simp add: re_rate_def set_rate_def)
  moreover have "bucket_ok ((refill t b)\<lparr>bk_rate := rate\<rparr>)"
    using refill_ok [OF assms(2), of t] assms(4) by (simp add: bucket_ok_def)
  ultimately show ?thesis using that t assms(3) by simp
qed

lemma wait_time_ok:
  assumes "monotonic T now" "bucket_ok b" "bk_last_refill b \<le> now w"
  obtains d b' w' where "wait_time T 1 b w = (Inr (d, b'), w')" "bucket_ok b'" "0 \<le> d"
    "bk_capacity b' = bk_capacity b" "bk_last_refill b' \<le> now w'" "now w \<le> now w'"
proof -
  obtain t w' where c: "read_clock T w = (t, w')" by fastforce
  have t: "now w \<le> t" "t \<le> now w'" using monotonic_clock [OF assms(1) c] by auto
  have "bucket_ok (refill t b)" using refill_ok [OF assms(2)] .
  then have "0 \<le> (if 1 - bk_tokens (refill t b) \<le> 0 then 0 else (1 - bk_tokens (refill t b)) / bk_rate (refill t b))"
    by (auto simp: bucket_ok_def)
  then show ?thesis
    using that [of _ "refill t b" w'] c t assms refill_ok [OF assms(2), of t] by (simp add: wait_time_def Let_def)
qed

lemma hand_over_returns:
  assumes "monotonic T now" "bucket_ok (pk_bucket K)" "bk_capacity (pk_bucket K) = 1"
    "bk_last_refill (pk_bucket K) \<le> now w"
  shows "\<exists>r K' w'. hand_over T rate K w = Some (r, K', w') \<and> r \<noteq> TakeAgain \<and> (\<forall>e. r \<noteq> TakeRaises e) \<and>
    pk_bounds K' = pk_bounds K \<and> pk_end K' = pk_end K \<and> bucket_ok (pk_bucket K') \<and>
    bk_capacity (pk_bucket K') = 1 \<and> bk_last_refill (pk_bucket K') \<le> now w'"
proof -
  obtain b' w1 d where a: "acquire T 1 (pk_bucket K) w = Some (Inr d, b', w1)" "bucket_ok b'"
    "bk_capacity b' = 1" "bk_last_refill b' \<le> now w1"
    using acquire_ends [OF assms(1,2,4), of 1] assms(3) by auto
  obtain t w2 where c: "read_clock T w1 = (t, w2)" by fastforce
  have "bk_last_refill b' \<le> now w2" using monotonic_clock [OF assms(1) c] a(4) by linarith
  with a c show ?thesis by (simp add: hand_over_def)
qed

definition stages_left :: "(seconds \<times> rat) list \<Rightarrow> seconds \<Rightarrow> nat" where
  "stages_left bounds t = length (filter (\<lambda>b. t + HAIR < fst b) bounds)"

lemma stages_left_less:
  assumes "b \<in> set bounds" "t + HAIR < fst b" "fst b \<le> t'"
  shows "stages_left bounds t' < stages_left bounds t"
proof -
  have "t \<le> t'" "0 < HAIR" using assms by (auto simp: HAIR_def)
  then have "filter (\<lambda>b. t' + HAIR < fst b) bounds =
      filter (\<lambda>b. t' + HAIR < fst b) (filter (\<lambda>b. t + HAIR < fst b) bounds)" (is "_ = filter ?late ?ys")
    by (auto intro!: filter_cong)
  moreover have "length (filter ?late ?ys) < length ?ys"
    using assms \<open>0 < HAIR\<close> by (intro length_filter_less) auto
  ultimately show ?thesis by (simp only: stages_left_def)
qed

lemma stage_at_ahead:
  assumes "bounds \<noteq> []" "t < fst (last bounds)"
  shows "stage_at bounds t \<in> set bounds \<and> t < fst (stage_at bounds t)"
proof (cases "find (\<lambda>b. t < fst b) bounds")
  case None
  then have "\<not> t < fst (last bounds)" using last_in_set [OF assms(1)] by (cases "last bounds") (auto simp: find_None_iff)
  with assms(2) show ?thesis by simp
next
  case (Some b)
  then have "b \<in> set bounds" "t < fst b" by (auto simp: find_Some_iff)
  with Some show ?thesis by (simp add: stage_at_def)
qed

text \<open>One turn stops, hands a slot over, or moves on to a later stage.\<close>

lemma take_pass_returns:
  fixes w :: 'a
  assumes T: "monotonic T now" and ok: "pacer_ok K" "bk_last_refill (pk_bucket K) \<le> now w"
  obtains r :: "'r taken" and K' w' where "take_pass T shut K w = Some (r, K', w')" "\<forall>e. r \<noteq> TakeRaises e"
    "pacer_ok K'" "pk_bounds K' = pk_bounds K" "bk_last_refill (pk_bucket K') \<le> now w'"
    "r = TakeAgain \<Longrightarrow> stages_left (pk_bounds K) (now w') < stages_left (pk_bounds K) (now w)"
proof -
  obtain t w1 where c: "read_clock T w = (t, w1)" by fastforce
  have t: "now w \<le> t" "t \<le> now w1" using monotonic_clock [OF T c] by auto
  show ?thesis
  proof (cases "pk_done K \<or> shut w1 \<or> pk_end K - HAIR \<le> t")
    case True
    then show ?thesis using ok t
      by (intro that [of TakeStop "K\<lparr>pk_done := True\<rparr>" w1]) (simp_all add: take_pass_def c pacer_ok_def)
  next
    case going: False
    obtain stage_end rate where st: "stage_at (pk_bounds K) (t + HAIR) = (stage_end, rate)" by fastforce
    have "t + HAIR < fst (last (pk_bounds K))" using going ok(1) by (auto simp: pacer_ok_def)
    then have s: "(stage_end, rate) \<in> set (pk_bounds K)" "t + HAIR < stage_end"
      using stage_at_ahead [of "pk_bounds K" "t + HAIR"] ok(1) st by (auto simp: pacer_ok_def)
    then have "0 < rate" using ok(1) by (auto simp: pacer_ok_def)
    moreover have "bucket_ok (pk_bucket K)" "bk_last_refill (pk_bucket K) \<le> now w1"
      using ok t by (auto simp: pacer_ok_def)
    ultimately obtain b w2 where b: "re_rate T rate (pk_bucket K) w1 = (Inr b, w2)" "bucket_ok b"
      "bk_capacity b = 1" "bk_last_refill b \<le> now w2" "now w1 \<le> now w2"
      using re_rate_ok [OF T, of "pk_bucket K" w1 rate] ok(1) by (metis pacer_ok_def)
    obtain d b' w3 where d: "wait_time T 1 b w2 = (Inr (d, b'), w3)" "bucket_ok b'" "0 \<le> d"
      "bk_capacity b' = 1" "bk_last_refill b' \<le> now w3" "now w2 \<le> now w3"
      using wait_time_ok [OF T b(2,4)] b(3) by metis
    define K1 where "K1 = K\<lparr>pk_bucket := b'\<rparr>"
    have K1: "pacer_ok K1" "pk_bounds K1 = pk_bounds K" "bk_last_refill (pk_bucket K1) \<le> now w3"
      using ok(1) d by (simp_all add: K1_def pacer_ok_def)
    let ?boundary = "min stage_end (pk_end K)"
    have pass: "(take_pass T shut K w :: ('r taken \<times> pacer \<times> 'a) option) =
       (if ?boundary - HAIR \<le> t + d
        then (if pk_end K - HAIR \<le> ?boundary then Some (TakeStop, K1\<lparr>pk_done := True\<rparr>, w3)
              else Some (TakeAgain, K1, do_sleep T (?boundary - t) w3))
        else hand_over T rate K1 w3)"
      using going by (simp add: take_pass_def c st b(1) d(1) K1_def Let_def)
    consider (stop) "?boundary - HAIR \<le> t + d" "pk_end K - HAIR \<le> ?boundary"
      | (on) "?boundary - HAIR \<le> t + d" "?boundary < pk_end K - HAIR"
      | (over) "\<not> ?boundary - HAIR \<le> t + d" by linarith
    then show ?thesis
    proof cases
      case stop
      then show ?thesis using pass K1
        by (intro that [of TakeStop "K1\<lparr>pk_done := True\<rparr>" w3]) (simp_all add: pacer_ok_def)
    next
      case on
      then have e: "?boundary = stage_end" by (auto simp: min_def HAIR_def split: if_splits)
      have "0 < HAIR" by (simp add: HAIR_def)
      then have "0 \<le> stage_end - t" using s by linarith
      from monotonic_sleep [OF T this, of w3] have w': "stage_end \<le> now (do_sleep T (stage_end - t) w3)"
        "now w3 \<le> now (do_sleep T (stage_end - t) w3)"
        using t b d \<open>0 \<le> stage_end - t\<close> by linarith+
      have "(take_pass T shut K w :: ('r taken \<times> pacer \<times> 'a) option) =
          Some (TakeAgain, K1, do_sleep T (stage_end - t) w3)"
        using pass on e by simp
      moreover have "bk_last_refill (pk_bucket K1) \<le> now (do_sleep T (stage_end - t) w3)"
        using d w' by (simp add: K1_def)
      moreover have "now w + HAIR < fst (stage_end, rate)" using s t by simp
      ultimately show ?thesis
        using K1 stages_left_less [OF s(1), of "now w" "now (do_sleep T (stage_end - t) w3)"] w'(1)
        by (intro that [of TakeAgain K1 "do_sleep T (stage_end - t) w3"]) simp_all
    next
      case over
      obtain r :: "'r taken" and K' w' where h: "hand_over T rate K1 w3 = Some (r, K', w')"
        "r \<noteq> TakeAgain" "\<forall>e. r \<noteq> TakeRaises e" "pk_bounds K' = pk_bounds K1" "pk_end K' = pk_end K1"
        "bucket_ok (pk_bucket K')" "bk_capacity (pk_bucket K') = 1" "bk_last_refill (pk_bucket K') \<le> now w'"
        using hand_over_returns [OF T, of K1 w3 rate] d by (auto simp: K1_def)
      then have "pacer_ok K'" using K1(1) by (simp add: pacer_ok_def)
      then show ?thesis using h pass over K1(2) by (intro that [of r K' w']) simp_all
    qed
  qed
qed

lemma pacer_take_ends:
  assumes "monotonic T now" "pacer_ok K" "bk_last_refill (pk_bucket K) \<le> now w"
  shows "\<exists>(r :: 'r taken) K' w'. pacer_take T shut K w = Some (r, K', w') \<and> pacer_ok K' \<and>
    bk_last_refill (pk_bucket K') \<le> now w' \<and> (r = TakeStop \<or> (\<exists>sl. r = TakeSlot sl))"
  using assms(2,3)
proof (induction "stages_left (pk_bounds K) (now w)" arbitrary: K w rule: less_induct)
  case less
  obtain r :: "'r taken" and K1 w1 where p: "take_pass T shut K w = Some (r, K1, w1)" "\<forall>e. r \<noteq> TakeRaises e"
    "pacer_ok K1" "pk_bounds K1 = pk_bounds K" "bk_last_refill (pk_bucket K1) \<le> now w1"
    "r = TakeAgain \<Longrightarrow> stages_left (pk_bounds K) (now w1) < stages_left (pk_bounds K) (now w)"
    using take_pass_returns [OF assms(1) less.prems] by metis
  show ?case
  proof (cases r)
    case TakeAgain
    then show ?thesis using less.hyps [of K1 w1] p by (subst pacer_take.simps) simp
  qed (use p in \<open>simp_all add: pacer_take.simps\<close>)
qed

lemma stage_bounds_facts:
  assumes "list_all (stage_ok most) stages"
  shows "length (stage_bounds t0 stages) = length stages" "\<forall>b \<in> set (stage_bounds t0 stages). 0 < snd b"
proof -
  have pos: "\<forall>st \<in> set stages. 0 < fst st \<and> 0 < snd st" using assms by (auto simp: list_all_iff stage_ok_def)
  then show "length (stage_bounds t0 stages) = length stages"
    by (induction t0 stages rule: stage_bounds.induct) auto
  from pos show "\<forall>b \<in> set (stage_bounds t0 stages). 0 < snd b"
    by (induction t0 stages rule: stage_bounds.induct) auto
qed

lemma stage_bounds_last:
  assumes "list_all (stage_ok most) stages" "stages \<noteq> []"
  shows "fst (last (stage_bounds t0 stages)) = t0 + planned_duration stages"
  using assms
proof (induction t0 stages rule: stage_bounds.induct)
  case (2 t0 rate d stages)
  have "0 < d" "list_all (stage_ok most) stages"
    using 2(3) by (simp_all add: stage_ok_def [of most "(rate, d)"])
  moreover have "stage_bounds (t0 + d) stages \<noteq> [] \<longleftrightarrow> stages \<noteq> []"
    using stage_bounds_facts(1) [OF \<open>list_all (stage_ok most) stages\<close>, of "t0 + d"] by (metis length_0_conv)
  moreover have "planned_duration ((rate, d) # stages) = d + planned_duration stages"
    by (simp add: planned_duration_def)
  ultimately show ?case using 2(1) by (cases "stages = []") (simp_all add: planned_duration_def)
qed simp

lemma new_pacer_ok:
  assumes T: "monotonic T now" and p: "new_plan p = Inr q" "0 < bp_ramp_steps p \<or> bp_warmup p = 0"
  shows "\<exists>K w'. new_pacer T (frame_of p started_at) w = (Inr K, w') \<and> pacer_ok K \<and>
    bk_last_refill (pk_bucket K) \<le> now w' \<and> pk_next K = 0"
proof -
  define bounds where "bounds = stage_bounds started_at (bp_stages p)"
  note st = bp_stages_ok [OF p(1)]
  note facts = stage_bounds_facts [OF st(1), of started_at, folded bounds_def]
  have ne: "bounds \<noteq> []" using facts(1) st(2) by (metis length_0_conv)
  then have pos: "0 < snd (hd bounds)" using facts(2) by simp
  obtain t w' where c: "read_clock T w = (t, w')" by fastforce
  then obtain b where b: "new_bucket T (snd (hd bounds)) 1 w = (Inr b, w')" "bucket_ok b"
    "bk_capacity b = 1" "bk_last_refill b = t"
    using pos by (simp add: new_bucket_def bucket_ok_def)
  have "fst (last bounds) = started_at + bp_duration p"
    using stage_bounds_last [OF st(1,2)] st(3) p(2) by (simp add: bounds_def)
  then have "pacer_ok \<lparr>pk_bounds = bounds, pk_end = started_at + bp_duration p, pk_done = False,
      pk_next = 0, pk_bucket = b\<rparr>" (is "pacer_ok ?K")
    using ne facts(2) b by (simp add: pacer_ok_def)
  moreover have "new_pacer T (frame_of p started_at) w = (Inr ?K, w')"
    using b(1) by (simp add: new_pacer_def frame_of_def Let_def bounds_def [symmetric])
  ultimately show ?thesis using monotonic_clock [OF T c] b(4)
    by (intro exI [of _ ?K] exI [of _ w']) simp
qed

text \<open>A plan with a warmup and no ramp steps has stages for the hold only: its schedule ends
  a warmup before the run does.\<close>

lemma rampless_plan_stops_short:
  assumes "new_plan p = Inr q" "bp_ramp_steps p = 0" "0 < bp_warmup p"
  shows "planned_duration (bp_stages p) = bp_duration p - bp_warmup p"
  using assms by (simp add: new_plan_Inr bp_stages_def build_stages_def ramp_stages_def
      planned_duration_def bp_duration_def)

text \<open>A plan, and a run of it in which the first request completed.\<close>

definition sample_plan :: load_plan where
  "sample_plan = \<lparr>bp_mode = MODE_OPEN, bp_rate = 2, bp_concurrency = 1, bp_warmup = 2, bp_hold = 2,
     bp_ramp_steps = 2, bp_grace = 1, bp_max_queue = 5\<rparr>"

definition sample_frame :: run_frame where "sample_frame = frame_of sample_plan 100"

definition sample_slot :: "nat slot" where "sample_slot = new_slot 0 1 100 0"

definition sample_live :: "nat slot \<Rightarrow> phase \<Rightarrow> nat live_run" where
  "sample_live sl ph = \<lparr>lv_closed = False, lv_next = 1, lv_taken = [], lv_slots = [(sl, ph)]\<rparr>"

definition sample_sent :: "nat slot" where "sample_sent = sample_slot\<lparr>so_dispatched_at := Some 100\<rparr>"

definition sample_finished :: "nat slot" where
  "sample_finished = sample_sent\<lparr>so_result := Some 7, so_completed_at := Some 101, so_outcome := Some Completed\<rparr>"

lemma sample_plan_accepted: "new_plan sample_plan = Inr sample_plan"
  by (simp add: new_plan_def sample_plan_def VALID_MODES_def)

lemma sample_ramp: "0 < bp_ramp_steps sample_plan" by (simp add: sample_plan_def)

lemma sample_stages: "bp_stages sample_plan = [(1, 1), (2, 1), (2, 2)]" by code_simp

lemma sample_schedule: "rf_schedule sample_frame ! 0 = \<lparr>ar_index = 0, ar_offset = 0, ar_rate = 1\<rparr>"
  "length (rf_schedule sample_frame) = 7" "rf_open sample_frame" "rf_deadline sample_frame = 105"
  "rf_started_at sample_frame = 100" "rf_max_queue sample_frame = 5" "rf_end sample_frame = 104"
  "rf_stages sample_frame = [(1, 1), (2, 1), (2, 2)]"
  by code_simp+

lemma sample_handled:
  "run_step F (sample_live sample_sent InFlight) (sample_live sample_finished Returned)"
  "\<not> rf_open F \<or> F = sample_frame \<Longrightarrow> 100 < rf_deadline F \<Longrightarrow>
     run_step F (sample_live sample_slot Waiting) (sample_live sample_sent InFlight)"
  using run_step.finish [of 0 "sample_live sample_sent InFlight" sample_sent 100 101 F 7]
    run_step.begins [of 0 "sample_live sample_slot Waiting" sample_slot F 100]
  by (auto simp: sample_live_def sample_finished_def sample_sent_def sample_slot_def new_slot_def
      send_finish_def send_begin_def after_begin_def sample_schedule)

lemma sample_run: "reached sample_frame (sample_live sample_finished Returned)"
proof -
  have "run_step sample_frame fresh_run (sample_live sample_slot Waiting)"
    using run_step.submit [of sample_frame fresh_run 0]
    by (simp add: sample_schedule fresh_run_def sample_live_def sample_slot_def due_slot_def)
  moreover have "run_step sample_frame (sample_live sample_slot Waiting) (sample_live sample_sent InFlight)"
    by (rule sample_handled) (simp_all add: sample_schedule)
  ultimately show ?thesis using sample_handled(1) by (blast intro: reached.intros)
qed

lemma sample_closed_run:
  defines "F \<equiv> sample_frame\<lparr>rf_open := False\<rparr>"
  shows "reached F (sample_live sample_finished Returned)"
proof -
  let ?taken = "fresh_run\<lparr>lv_next := 1, lv_taken := [sample_slot]\<rparr>"
  have "run_step F fresh_run ?taken"
    using run_step.take [of F 1 100 fresh_run 0]
    by (simp add: F_def sample_schedule fresh_run_def sample_slot_def HAIR_def)
  moreover have "run_step F ?taken (sample_live sample_slot Waiting)"
    using run_step.enlist [of F ?taken "[]" sample_slot "[]"]
    by (simp add: F_def fresh_run_def sample_live_def)
  moreover have "\<not> rf_open F" "100 < rf_deadline F" by (simp_all add: F_def sample_schedule)
  ultimately show ?thesis using sample_handled [of F] reached.intros by blast
qed

lemma open_accounts:
  assumes "reached F s" "rf_open F" "rf_schedule F = arrival_schedule stages" "list_all (stage_ok most) stages"
  shows "map (\<lambda>r. (dr_index r, dr_target_rate r, dr_scheduled_at r)) (finalise s) =
      map (arrival_request F) (take (lv_next s) (rf_schedule F)) \<and>
    (\<forall>r \<in> set (finalise s). record_ok F r)"
proof -
  note req = conjunct1 [OF open_requests [OF assms(1,2)]]
  have "map ar_index (rf_schedule F) = [0..<length (rf_schedule F)]"
    using schedule_from_facts [OF assms(4), of 0 0] by (simp add: assms(3) arrival_schedule_def)
  then have "map ar_index (take n (rf_schedule F)) = take n [0..<length (rf_schedule F)]" for n
    by (simp add: take_map [symmetric])
  then have idx: "sorted (map ar_index (take n (rf_schedule F)))" for n by (simp add: sorted_wrt_take)
  have "map (dr_index \<circ> (freeze \<circ> fst)) (lv_slots s) = map fst (map request_of (lv_slots s))"
    by (simp add: request_of_def)
  also have "\<dots> = map ar_index (take (lv_next s) (rf_schedule F))"
    unfolding req by (simp add: arrival_request_def)
  finally have "finalise s = map (freeze \<circ> fst) (lv_slots s)"
    using idx unfolding finalise_def by (intro sort_key_id_if_sorted) (simp add: comp_def)
  moreover have "map (\<lambda>r. (dr_index r, dr_target_rate r, dr_scheduled_at r)) (map (freeze \<circ> fst) (lv_slots s)) =
      map request_of (lv_slots s)" by (simp add: request_of_def)
  moreover have "record_ok F (freeze (fst x))" if "x \<in> set (lv_slots s)" for x
    using reached_slots [OF assms(1)] that by (cases x) (auto simp: slot_ok_def)
  ultimately show ?thesis using req by auto
qed

section \<open>Properties\<close>

text \<open>A plan that is accepted has a sound schedule. Every stage of a validated plan runs at
  a positive rate not above the target; the schedule numbers its arrivals from 0 without a
  gap, at strictly increasing times inside the run, at the rates of stages; and it has as
  many arrivals as the stages ask for, up to half a request for each stage.\<close>

theorem accepted_plan_is_well_formed:
  assumes "new_plan p = Inr q"
  defines "sch \<equiv> arrival_schedule (bp_stages q)"
  shows "list_all (stage_ok (bp_rate q)) (bp_stages q) \<and> map ar_index sch = [0..<length sch] \<and>
    sorted_wrt (<) (map ar_offset sch) \<and>
    (\<forall>a \<in> set sch. 0 \<le> ar_offset a \<and> ar_offset a < bp_duration q \<and> 0 < ar_rate a \<and> ar_rate a \<le> bp_rate q) \<and>
    \<bar>of_nat (length sch) - sum_list (map (\<lambda>(r, d). r * d) (bp_stages q))\<bar> \<le> of_nat (length (bp_stages q)) / 2"
proof -
  have q: "q = p" using assms(1) by (simp add: new_plan_Inr)
  note st = bp_stages_ok [OF assms(1)]
  from schedule_from_facts [OF st(1), of 0 0] st(1,4) show ?thesis
    unfolding sch_def q arrival_schedule_def by fastforce
qed

theorem accepted_plan_is_well_formed_witness:
  "map ar_index (arrival_schedule (bp_stages sample_plan)) = [0, 1, 2, 3, 4, 5, 6] \<and>
   list_all (\<lambda>a. 0 \<le> ar_offset a \<and> ar_offset a < 4 \<and> ar_rate a \<le> 2) (arrival_schedule (bp_stages sample_plan))"
proof -
  have "bp_duration sample_plan = 4" "bp_rate sample_plan = 2" by code_simp+
  moreover have "length (arrival_schedule (bp_stages sample_plan)) = 7" by code_simp
  ultimately show ?thesis using accepted_plan_is_well_formed [OF sample_plan_accepted]
    by (simp add: list_all_iff upt_conv_Cons)
qed

text \<open>An open-loop run accounts for every arrival. However its threads interleave, the
  records taken at any moment are one for each arrival submitted so far, in order, with the
  arrival's index, rate and due time. A completed or abandoned one was sent before the
  deadline and within the backlog bound of its due time, a dropped or undispatched one was
  never sent, and only a completed one has a result.\<close>

theorem open_run_accounts:
  assumes "reached F s" "rf_open F" "rf_schedule F = arrival_schedule stages" "list_all (stage_ok most) stages"
  shows "map (\<lambda>r. (dr_index r, dr_target_rate r, dr_scheduled_at r)) (finalise s) =
      map (arrival_request F) (take (lv_next s) (rf_schedule F)) \<and>
    (\<forall>r \<in> set (finalise s). record_ok F r)"
  using open_accounts [OF assms] .

theorem open_run_accounts_witness:
  "list_all (record_ok sample_frame) (finalise (sample_live sample_finished Returned)) \<and>
   map (\<lambda>r. (dr_index r, dr_scheduled_at r)) (finalise (sample_live sample_finished Returned)) = [(0, 100)]"
proof -
  let ?s = "sample_live sample_finished Returned"
  have "list_all (stage_ok 2) (bp_stages sample_plan)" by (simp add: sample_stages stage_ok_def)
  from open_run_accounts [OF sample_run sample_schedule(3) _ this]
  have "list_all (record_ok sample_frame) (finalise ?s)"
    by (simp add: list_all_iff sample_frame_def frame_of_def)
  moreover have "map (\<lambda>r. (dr_index r, dr_scheduled_at r)) (finalise ?s) = [(0, 100)]" by code_simp
  ultimately show ?thesis by simp
qed



text \<open>C33 (late workers change nothing). From the moment the records are taken no step of any
  thread changes what they say: a request still in flight stays abandoned, one still queued
  is never sent.\<close>

theorem records_are_final:
  assumes "(run_step F)\<^sup>*\<^sup>* s s'" "lv_closed s"
  shows "finalise s' = finalise s \<and> lv_closed s'"
  using assms(1)
proof (induction rule: rtranclp_induct)
  case (step t u)
  then have "lv_closed u" "map (freeze \<circ> fst) (lv_slots u) = map (freeze \<circ> fst) (lv_slots t)"
    using closed_step [OF step.hyps(2)] by simp_all
  then show ?case using step.IH by (simp only: finalise_def)
qed (simp add: assms(2))

theorem records_are_final_witness:
  "finalise (sample_live sample_sent Returned\<lparr>lv_closed := True\<rparr>) =
     finalise (sample_live sample_sent InFlight\<lparr>lv_closed := True\<rparr>) \<and>
   map dr_outcome (finalise (sample_live sample_sent InFlight\<lparr>lv_closed := True\<rparr>)) = [Abandoned]"
proof -
  let ?s = "sample_live sample_sent InFlight\<lparr>lv_closed := True\<rparr>"
  have "run_step sample_frame ?s (sample_live sample_sent Returned\<lparr>lv_closed := True\<rparr>)"
    using run_step.finish [of 0 ?s sample_sent 100 101 sample_frame 7]
    by (simp add: sample_live_def sample_sent_def send_finish_def)
  then have "finalise (sample_live sample_sent Returned\<lparr>lv_closed := True\<rparr>) = finalise ?s"
    by (intro conjunct1 [OF records_are_final] r_into_rtranclp) (simp_all add: sample_live_def)
  moreover have "map dr_outcome (finalise ?s) = [Abandoned]" by code_simp
  ultimately show ?thesis by simp
qed

text \<open>C34 (a closed-loop worker is never stuck). Under a monotonic clock the pacer of a validated
  plan whose ramp is not empty is well formed, and asking a well-formed pacer for a token
  comes back, leaves it well formed, and either ends the worker or hands over the next
  request: the next index, at the rate of a stage, before the end of the run.\<close>

theorem pacer_comes_back:
  assumes "monotonic T now" "new_plan p = Inr q" "0 < bp_ramp_steps p \<or> bp_warmup p = 0"
  shows "(\<exists>K w'. new_pacer T (frame_of p started_at) w = (Inr K, w') \<and> pacer_ok K \<and>
      bk_last_refill (pk_bucket K) \<le> now w') \<and>
    (\<forall>K w. pacer_ok K \<and> bk_last_refill (pk_bucket K) \<le> now w \<longrightarrow>
      (\<exists>r K' w'. pacer_take T shut K w = Some (r :: 'r taken, K', w') \<and> pacer_ok K' \<and>
         bk_last_refill (pk_bucket K') \<le> now w' \<and>
         (r = TakeStop \<and> pk_done K' \<or>
          (\<exists>sl. r = TakeSlot sl \<and> handed K sl \<and> pk_next K' = Suc (pk_next K)))))"
proof (intro conjI allI impI)
  show "\<exists>K w'. new_pacer T (frame_of p started_at) w = (Inr K, w') \<and> pacer_ok K \<and>
      bk_last_refill (pk_bucket K) \<le> now w'"
    using new_pacer_ok [OF assms, of started_at w] by blast
next
  fix K w assume ok: "pacer_ok K \<and> bk_last_refill (pk_bucket K) \<le> now w"
  then obtain r :: "'r taken" and K' w' where t: "pacer_take T shut K w = Some (r, K', w')" "pacer_ok K'"
    "bk_last_refill (pk_bucket K') \<le> now w'" "r = TakeStop \<or> (\<exists>sl. r = TakeSlot sl)"
    using pacer_take_ends [OF assms(1)] by blast
  moreover have "took K r K'" using pacer_take_took [OF t(1)] ok by (simp add: pacer_ok_def)
  ultimately show "\<exists>r K' w'. pacer_take T shut K w = Some (r :: 'r taken, K', w') \<and> pacer_ok K' \<and>
         bk_last_refill (pk_bucket K') \<le> now w' \<and>
         (r = TakeStop \<and> pk_done K' \<or>
          (\<exists>sl. r = TakeSlot sl \<and> handed K sl \<and> pk_next K' = Suc (pk_next K)))"
    by (intro exI [of _ r] exI [of _ K'] exI [of _ w']) (auto simp: took_def)
qed

theorem pacer_comes_back_witness:
  "\<exists>K w'. new_pacer additive sample_frame 100 = (Inr K, w') \<and> pacer_ok K"
  using conjunct1 [OF pacer_comes_back [OF monotonic_additive sample_plan_accepted, of 100 100]]
  unfolding sample_frame_def by (metis sample_ramp)

end
