(* ===== verification/Load_Serial.thy ===== *)
theory Load_Serial
  imports Load_Run
begin

text \<open>
  The open loop under the inline executor (\<open>SerialExecutor\<close> of \<open>barrage/executor.py\<close> and
  \<open>_run_open_loop\<close>, \<open>run\<close> of \<open>barrage/runner.py\<close>): one worker, each request sent on the
  calling thread before the next one is due. It is a function of the clock and of the send
  hook, and it is one of the interleavings \<open>run_step\<close> allows, so what holds of every
  interleaving holds of it; unlike the relation it is also shown to return. Ctrl-C is not
  modelled.
\<close>

section \<open>One request on the calling thread\<close>

type_synonym ('r, 'e, 'w) hook = "nat \<Rightarrow> 'w \<Rightarrow> ('e + 'r) \<times> 'w"

definition sleep_until :: "'w timing \<Rightarrow> seconds \<Rightarrow> 'w \<Rightarrow> 'w" where
  "sleep_until T until w =
     (case read_clock T w of (now, w1) \<Rightarrow> if now < until then do_sleep T (until - now) w1 else w1)"

text \<open>\<open>_Run.send\<close> as \<open>SerialExecutor.submit\<close> runs it: what the hook raises goes to the future.\<close>

definition serial_send ::
  "'w timing \<Rightarrow> ('r, 'e, 'w) hook \<Rightarrow> run_frame \<Rightarrow> 'r slot \<Rightarrow> 'w \<Rightarrow> (('r slot \<times> phase) \<times> 'e option) \<times> 'w"
where
  "serial_send T hook F s w =
     (case read_clock T w of (now, w1) \<Rightarrow>
        (let s1 = send_begin F False now s
         in if so_dispatched_at s1 = None then (((s1, Returned), None), w1)
            else (case hook (so_index s) w1 of
                (Inl e, w2) \<Rightarrow> (((s1, Returned), Some e), w2)
              | (Inr result, w2) \<Rightarrow>
                  (case read_clock T w2 of (finished, w3) \<Rightarrow>
                     (((send_finish False result finished s1, Returned), None), w3)))))"

section \<open>The loop over the schedule\<close>

definition open_gate ::
  "'w timing \<Rightarrow> rat \<Rightarrow> bucket option \<Rightarrow> 'w \<Rightarrow> (rate_error + bucket) \<times> 'w"
where
  "open_gate T rate gate w =
     (case gate of
        None \<Rightarrow> new_bucket T rate GATE_CAPACITY w
      | Some b \<Rightarrow> if bk_rate b \<noteq> rate then new_bucket T rate GATE_CAPACITY w else (Inr b, w))"

fun open_loop ::
  "'w timing \<Rightarrow> ('r, 'e, 'w) hook \<Rightarrow> run_frame \<Rightarrow> arrival list \<Rightarrow> bucket option \<Rightarrow>
     ('r slot \<times> phase) list \<Rightarrow> 'e list \<Rightarrow> 'w \<Rightarrow>
     ((rate_error + ('r slot \<times> phase) list \<times> 'e list) \<times> 'w) option"
where
  "open_loop T hook F [] gate slots failed w =
     Some (Inr (slots, failed), sleep_until T (rf_end F) w)"
| "open_loop T hook F (a # arrivals) gate slots failed w =
     (case read_clock T (sleep_until T (rf_started_at F + ar_offset a) w) of (now, w1) \<Rightarrow>
        if rf_deadline F \<le> now
        then Some (Inr (slots @ map (late_slot F) (a # arrivals), failed), sleep_until T (rf_end F) w1)
        else (case open_gate T (ar_rate a) gate w1 of
            (Inl e, w2) \<Rightarrow> Some (Inl e, w2)
          | (Inr b, w2) \<Rightarrow> (case acquire T 1 b w2 of
              None \<Rightarrow> None
            | Some (Inl e, b', w3) \<Rightarrow> Some (Inl e, w3)
            | Some (Inr waited, b', w3) \<Rightarrow>
                (case serial_send T hook F (due_slot F a waited) w3 of ((x, fail), w4) \<Rightarrow>
                   open_loop T hook F arrivals (Some b') (slots @ [x])
                     (failed @ (case fail of None \<Rightarrow> [] | Some e \<Rightarrow> [e])) w4))))"

section \<open>The run\<close>

record 'r run_result =
  rr_records :: "'r dispatch_record list"
  rr_started_at :: seconds
  rr_deadline :: seconds
  rr_ended_at :: seconds
  rr_aborted :: bool

definition rr_count :: "'r run_result \<Rightarrow> load_outcome \<Rightarrow> nat" where
  "rr_count r oc = length (filter (\<lambda>d. dr_outcome d = oc) (rr_records r))"

datatype 'e run_error = OverCeiling ceiling_error | GateError rate_error | HookError 'e

definition run_inline ::
  "'w timing \<Rightarrow> ('r, 'e, 'w) hook \<Rightarrow> load_plan \<Rightarrow> bool \<Rightarrow> rat \<Rightarrow> seconds \<Rightarrow> 'w \<Rightarrow>
     (('e run_error + 'r run_result) \<times> 'w) option"
where
  "run_inline T hook p allow_high_rate max_rate max_duration w =
     (case check_rate_ceiling (bp_rate p) (bp_duration p) allow_high_rate max_rate max_duration
             (Some (bp_concurrency p)) DEFAULT_MAX_CONCURRENCY of
        Inl e \<Rightarrow> Some (Inl (OverCeiling e), w)
      | Inr _ \<Rightarrow>
          (case read_clock T w of (started_at, w1) \<Rightarrow>
             (let F = frame_of p started_at
              in case open_loop T hook F (rf_schedule F) None [] [] w1 of
                   None \<Rightarrow> None
                 | Some (Inl e, w2) \<Rightarrow> Some (Inl (GateError e), w2)
                 | Some (Inr (slots, failed), w2) \<Rightarrow>
                     (let w3 = snd (read_clock T w2);
                          records = finalise \<lparr>lv_closed = False, lv_next = length (rf_schedule F),
                            lv_taken = [], lv_slots = slots\<rparr>
                      in case failed of
                           e # _ \<Rightarrow> Some (Inl (HookError e), w3)
                         | [] \<Rightarrow> (case read_clock T w3 of (ended_at, w4) \<Rightarrow>
                             Some (Inr \<lparr>rr_records = records, rr_started_at = started_at,
                               rr_deadline = rf_deadline F, rr_ended_at = ended_at,
                               rr_aborted = False\<rparr>, w4))))))"

section \<open>The inline run is one of the interleavings\<close>

definition live_at :: "nat \<Rightarrow> ('r slot \<times> phase) list \<Rightarrow> 'r live_run" where
  "live_at n slots = \<lparr>lv_closed = False, lv_next = n, lv_taken = [], lv_slots = slots\<rparr>"

lemma live_at_simps [simp]: "lv_closed (live_at n slots) = False" "lv_next (live_at n slots) = n"
  "lv_slots (live_at n slots) = slots" "lv_taken (live_at n slots) = []"
  "live_at n slots\<lparr>lv_slots := slots'\<rparr> = live_at n slots'"
  "live_at n slots\<lparr>lv_next := m, lv_slots := slots'\<rparr> = live_at m slots'"
  by (simp_all add: live_at_def)

lemma live_at_start: "live_at 0 [] = fresh_run"
  by (simp add: live_at_def fresh_run_def)

text \<open>A hook under which time does not go back.\<close>

definition hook_patient :: "('w \<Rightarrow> seconds) \<Rightarrow> ('r, 'e, 'w) hook \<Rightarrow> bool" where
  "hook_patient now hook \<longleftrightarrow> (\<forall>i w. now w \<le> now (snd (hook i w)))"

lemma sleep_until_later:
  assumes "monotonic T now"
  shows "now w \<le> now (sleep_until T until w)"
proof -
  obtain t w1 where c: "read_clock T w = (t, w1)" by fastforce
  note t = monotonic_clock [OF assms c]
  have "now w \<le> now (do_sleep T (until - t) w1)" if "t < until"
    using monotonic_sleep [OF assms, of "until - t" w1] t that by simp
  then show ?thesis using t c by (simp add: sleep_until_def)
qed

lemma serial_send_later:
  assumes T: "monotonic T now" and h: "hook_patient now hook"
    and s: "serial_send T hook F sl w = ((x, fail), w')"
  shows "now w \<le> now w'"
proof -
  obtain t w1 where c: "read_clock T w = (t, w1)" by fastforce
  note t = monotonic_clock [OF T c]
  obtain res w2 where r: "hook (so_index sl) w1 = (res, w2)" by fastforce
  then have "now w1 \<le> now w2" using h by (metis hook_patient_def snd_conv)
  moreover obtain t' w3 where c': "read_clock T w2 = (t', w3)" by fastforce
  note t' = monotonic_clock [OF T c']
  ultimately show ?thesis using s t t'
    by (auto simp: serial_send_def c r c' Let_def split: if_splits sum.splits)
qed

lemma serial_send_steps:
  assumes T: "monotonic T now" and h: "hook_patient now hook"
    and s: "serial_send T hook F sl w = ((x, fail), w')"
    and r: "reached F (live_at n (slots @ [(sl, Waiting)]))"
  shows "reached F (live_at n (slots @ [x]))"
proof -
  obtain t w1 where c: "read_clock T w = (t, w1)" by fastforce
  define s1 where "s1 = send_begin F False t sl"
  have "run_step F (live_at n (slots @ [(sl, Waiting)])) (live_at n (slots @ [(s1, after_begin s1)]))"
    using run_step.begins [of "length slots" "live_at n (slots @ [(sl, Waiting)])" sl F t]
    by (simp add: s1_def)
  then have r1: "reached F (live_at n (slots @ [(s1, after_begin s1)]))" using r reached.further by blast
  show ?thesis
  proof (cases "so_dispatched_at s1")
    case None
    then have "x = (s1, Returned)" "after_begin s1 = Returned"
      using s c by (auto simp: serial_send_def s1_def after_begin_def)
    then show ?thesis using r1 by simp
  next
    case (Some d)
    then have flying: "reached F (live_at n (slots @ [(s1, InFlight)]))" using r1 by (simp add: after_begin_def)
    have "slot_ok F (sl, Waiting)" using reached_slots [OF r] by simp
    then have d: "d = t" using Some by (auto simp: s1_def send_begin_def slot_ok_def split: if_splits)
    obtain res w2 where h': "hook (so_index sl) w1 = (res, w2)" by fastforce
    show ?thesis
    proof (cases res)
      case (Inl e)
      then have x: "x = (s1, Returned)" using s c h' Some by (auto simp: serial_send_def s1_def Let_def)
      have "run_step F (live_at n (slots @ [(s1, InFlight)])) (live_at n (slots @ [(s1, Returned)]))"
        using run_step.fail [of "length slots" "live_at n (slots @ [(s1, InFlight)])" s1 F] by simp
      then show ?thesis using flying x reached.further by auto
    next
      case (Inr result)
      obtain t' w3 where c': "read_clock T w2 = (t', w3)" by fastforce
      then have x: "x = (send_finish False result t' s1, Returned)"
        using s c h' Some Inr by (auto simp: serial_send_def s1_def Let_def)
      have "now w1 \<le> now w2" using h h' by (metis hook_patient_def snd_conv)
      then have "d \<le> t'" using monotonic_clock [OF T c] monotonic_clock [OF T c'] d by linarith
      then have "run_step F (live_at n (slots @ [(s1, InFlight)])) (live_at n (slots @ [x]))"
        using run_step.finish [of "length slots" "live_at n (slots @ [(s1, InFlight)])" s1 d t' F result]
          Some x by simp
      then show ?thesis using flying x reached.further by auto
    qed
  qed
qed

text \<open>A request whose hook did not fail is not left abandoned.\<close>

definition settled :: "'r slot \<times> phase \<Rightarrow> bool" where
  "settled x \<longleftrightarrow> dr_outcome (freeze (fst x)) \<noteq> Abandoned"

lemma serial_send_settles:
  assumes "serial_send T hook F sl w = ((x, None), w')" "so_dispatched_at sl = None"
  shows "settled x"
  using assms
  by (auto simp: serial_send_def settled_def freeze_def send_begin_def send_finish_def Let_def
      split: prod.splits if_splits sum.splits)

lemma late_slot_settled: "settled (late_slot F a)"
  by (simp add: settled_def freeze_def late_slot_def)

lemma due_slot_unsent: "so_dispatched_at (due_slot F a waited) = None"
  by (simp add: due_slot_def new_slot_def)

lemma open_gate_returns:
  assumes T: "monotonic T now" and "0 < rate"
    and "\<forall>b. gate = Some b \<longrightarrow> bucket_ok b \<and> bk_capacity b = GATE_CAPACITY \<and> bk_last_refill b \<le> now w"
  obtains b w' where "open_gate T rate gate w = (Inr b, w')" "bucket_ok b" "bk_capacity b = GATE_CAPACITY"
    "bk_last_refill b \<le> now w'" "now w \<le> now w'"
proof -
  obtain t w1 where c: "read_clock T w = (t, w1)" by fastforce
  note t = monotonic_clock [OF T c]
  have "0 < GATE_CAPACITY" by (simp add: GATE_CAPACITY_def)
  then obtain b where b: "new_bucket T rate GATE_CAPACITY w = (Inr b, w1)" "bucket_ok b"
    "bk_capacity b = GATE_CAPACITY" "bk_last_refill b = t"
    using c assms(2) by (simp add: new_bucket_def bucket_ok_def)
  show ?thesis
  proof (cases "open_gate T rate gate w = new_bucket T rate GATE_CAPACITY w")
    case True
    then show ?thesis using that [of b w1] b t by simp
  next
    case False
    then obtain b' where "gate = Some b'" "open_gate T rate gate w = (Inr b', w)"
      by (auto simp: open_gate_def split: option.splits if_splits)
    then show ?thesis using that [of b' w] assms(3) by simp
  qed
qed

lemma open_loop_reached:
  assumes T: "monotonic T now" and h: "hook_patient now hook" and F: "rf_open F"
    and "\<forall>a \<in> set (rf_schedule F). 0 < ar_rate a"
    and "drop n (rf_schedule F) = arrivals" "n \<le> length (rf_schedule F)"
    and "reached F (live_at n slots)" "failed = [] \<longrightarrow> list_all settled slots"
    and "\<forall>b. gate = Some b \<longrightarrow> bucket_ok b \<and> bk_capacity b = GATE_CAPACITY \<and> bk_last_refill b \<le> now w"
  shows "\<exists>slots' failed' w'. open_loop T hook F arrivals gate slots failed w = Some (Inr (slots', failed'), w') \<and>
    reached F (live_at (length (rf_schedule F)) slots') \<and> (failed' = [] \<longrightarrow> list_all settled slots')"
  using assms(5-)
proof (induction arrivals arbitrary: n gate slots failed w)
  case Nil
  then show ?case by simp
next
  case (Cons a arrivals)
  let ?k = "length (rf_schedule F)"
  have n: "n < ?k" using Cons.prems(1) by (metis drop_all not_less list.distinct(1))
  have a: "rf_schedule F ! n = a" "drop (Suc n) (rf_schedule F) = arrivals"
    using Cons.prems(1) n by (simp_all add: Cons_nth_drop_Suc [symmetric])
  then have rate: "0 < ar_rate a" using assms(4) n nth_mem by blast
  define w0 where "w0 = sleep_until T (rf_started_at F + ar_offset a) w"
  obtain t w1 where c: "read_clock T w0 = (t, w1)" by fastforce
  have later: "now w \<le> now w1"
    using sleep_until_later [OF T, of w] monotonic_clock [OF T c] unfolding w0_def by (meson order_trans)
  show ?case
  proof (cases "rf_deadline F \<le> t")
    case True
    have "run_step F (live_at n slots) (live_at ?k (slots @ map (late_slot F) (a # arrivals)))"
      using run_step.overrun [of F "live_at n slots" t] F n True Cons.prems(1) by simp
    then have "reached F (live_at ?k (slots @ map (late_slot F) (a # arrivals)))"
      using Cons.prems(3) reached.further by blast
    then show ?thesis
      using True c Cons.prems(4) by (auto simp: w0_def list_all_iff late_slot_settled)
  next
    case going: False
    have "\<forall>b. gate = Some b \<longrightarrow> bucket_ok b \<and> bk_capacity b = GATE_CAPACITY \<and> bk_last_refill b \<le> now w1"
      using Cons.prems(5) later order_trans by blast
    then obtain b w2 where g: "open_gate T (ar_rate a) gate w1 = (Inr b, w2)" "bucket_ok b"
      "bk_capacity b = GATE_CAPACITY" "bk_last_refill b \<le> now w2"
      using open_gate_returns [OF T rate] by metis
    have "\<not> GATE_CAPACITY < of_int 1" by (simp add: GATE_CAPACITY_def)
    then obtain d b' w3 where q: "acquire T 1 b w2 = Some (Inr d, b', w3)" "bucket_ok b'"
      "bk_capacity b' = GATE_CAPACITY" "bk_last_refill b' \<le> now w3"
      using acquire_ends [OF T g(2,4), of 1] g(3) by auto
    obtain x fail w4 where s: "serial_send T hook F (due_slot F a d) w3 = ((x, fail), w4)" by (metis surj_pair)
    have "run_step F (live_at n slots) (live_at (Suc n) (slots @ [(due_slot F a d, Waiting)]))"
      using run_step.submit [of F "live_at n slots" d] F n a(1) by simp
    then have "reached F (live_at (Suc n) (slots @ [(due_slot F a d, Waiting)]))"
      using Cons.prems(3) reached.further by blast
    note sent = serial_send_steps [OF T h s this]
    let ?failed = "failed @ (case fail of None \<Rightarrow> [] | Some e \<Rightarrow> [e])"
    have ok: "?failed = [] \<longrightarrow> list_all settled (slots @ [x])"
      using serial_send_settles [of T hook F "due_slot F a d" w3 x w4] s Cons.prems(4)
      by (auto simp: due_slot_unsent split: option.splits)
    have "bk_last_refill b' \<le> now w4" using q(4) serial_send_later [OF T h s] by linarith
    then show ?thesis
      using Cons.IH [of "Suc n" "slots @ [x]" ?failed "Some b'" w4] sent ok n a(2) q
        going c g(1) s by (auto simp: w0_def)
  qed
qed

section \<open>Properties\<close>

lemma inline_accounts:
  assumes T: "monotonic T now" and h: "hook_patient now hook"
    and p: "new_plan p = Inr q" "bp_mode p = MODE_OPEN"
  shows "\<exists>res w'. run_inline T hook p high max_rate max_duration w = Some (res, w') \<and>
    (case res of
       Inl (OverCeiling e) \<Rightarrow> w' = w
     | Inl (GateError e) \<Rightarrow> False
     | Inl (HookError e) \<Rightarrow> True
     | Inr r \<Rightarrow> (let F = frame_of p (rr_started_at r) in
         map (\<lambda>d. (dr_index d, dr_target_rate d, dr_scheduled_at d)) (rr_records r) =
           map (arrival_request F) (arrival_schedule (bp_stages p)) \<and>
         list_all (record_ok F) (rr_records r) \<and> rr_count r Abandoned = 0))"
proof (cases "check_rate_ceiling (bp_rate p) (bp_duration p) high max_rate max_duration
    (Some (bp_concurrency p)) DEFAULT_MAX_CONCURRENCY")
  case (Inl e)
  then show ?thesis by (simp add: run_inline_def)
next
  case go: (Inr u)
  obtain t0 w1 where c: "read_clock T w = (t0, w1)" by fastforce
  define F where "F = frame_of p t0"
  have F: "rf_open F" "rf_schedule F = arrival_schedule (bp_stages p)" "rf_started_at F = t0"
    using p(2) by (simp_all add: F_def frame_of_def)
  note st = bp_stages_ok(1) [OF p(1)]
  have rates: "\<forall>a \<in> set (rf_schedule F). 0 < ar_rate a"
    using schedule_from_facts [OF st, of 0 0] by (simp add: F(2) arrival_schedule_def)
  have "reached F (live_at 0 [])" by (simp add: live_at_start reached.start)
  then obtain slots failed w2 where l: "open_loop T hook F (rf_schedule F) None [] [] w1 = Some (Inr (slots, failed), w2)"
    "reached F (live_at (length (rf_schedule F)) slots)" "failed = [] \<longrightarrow> list_all settled slots"
    using open_loop_reached [OF T h F(1) rates, of 0 "rf_schedule F" "[]" "[]" None w1] by auto
  let ?s = "live_at (length (rf_schedule F)) slots"
  obtain t3 w3 where c3: "read_clock T w2 = (t3, w3)" by fastforce
  obtain t4 w4 where c4: "read_clock T w3 = (t4, w4)" by fastforce
  show ?thesis
  proof (cases failed)
    case (Cons e es)
    then show ?thesis using go c l(1) by (simp add: run_inline_def Let_def F_def [symmetric])
  next
    case Nil
    have "map (\<lambda>d. (dr_index d, dr_target_rate d, dr_scheduled_at d)) (finalise ?s) =
        map (arrival_request F) (rf_schedule F) \<and> (\<forall>d \<in> set (finalise ?s). record_ok F d)"
      using open_accounts [OF l(2) F(1,2) st] by simp
    moreover have "\<forall>d \<in> set (finalise ?s). dr_outcome d \<noteq> Abandoned"
      using l(3) Nil by (auto simp: finalise_def settled_def list_all_iff)
    ultimately show ?thesis using go c l(1) c3 c4 Nil
      by (simp add: run_inline_def Let_def F_def [symmetric] live_at_def [symmetric]
          rr_count_def list_all_iff F(2,3) filter_empty_conv)
  qed
qed

text \<open>An inline run returns and accounts for every arrival. With an accepted open-loop plan,
  a clock that does not go back and whatever the send hook does, the run returns: refused at
  the ceiling before the clock is read, with the first exception of the hook, or with one
  record for each arrival of the schedule in order, each saying truly what became of it; none
  is abandoned, since no request is in flight when the records are taken.\<close>

theorem inline_run_accounts:
  assumes T: "monotonic T now" and h: "hook_patient now hook"
    and p: "new_plan p = Inr q" "bp_mode p = MODE_OPEN"
  shows "\<exists>res w'. run_inline T hook p high max_rate max_duration w = Some (res, w') \<and>
    (case res of
       Inl (OverCeiling e) \<Rightarrow> w' = w
     | Inl (GateError e) \<Rightarrow> False
     | Inl (HookError e) \<Rightarrow> True
     | Inr r \<Rightarrow> (let F = frame_of p (rr_started_at r) in
         map (\<lambda>d. (dr_index d, dr_target_rate d, dr_scheduled_at d)) (rr_records r) =
           map (arrival_request F) (arrival_schedule (bp_stages p)) \<and>
         list_all (record_ok F) (rr_records r) \<and> rr_count r Abandoned = 0))"
  using inline_accounts [OF assms] .

text \<open>A hook that takes a second, and fails at request 9.\<close>

definition sample_hook :: "nat \<Rightarrow> seconds \<Rightarrow> (string + nat) \<times> seconds" where
  "sample_hook i w = (if i = 9 then Inl ''down'' else Inr i, w + 1)"

theorem inline_run_accounts_witness:
  "\<exists>r w'. run_inline additive sample_hook sample_plan False 50 300 100 = Some (Inr r, w') \<and>
     length (rr_records r) = 7 \<and> rr_count r Abandoned = 0 \<and> rr_count r Completed = 5"
proof -
  have "hook_patient (\<lambda>t. t) sample_hook" by (simp add: hook_patient_def sample_hook_def)
  moreover have "bp_mode sample_plan = MODE_OPEN" by (simp add: sample_plan_def)
  ultimately obtain res w' where res: "run_inline additive sample_hook sample_plan False 50 300 100 = Some (res, w')"
    "case res of Inr r \<Rightarrow> rr_count r Abandoned = 0 | Inl _ \<Rightarrow> True"
    using inline_run_accounts [OF monotonic_additive _ sample_plan_accepted, of sample_hook False 50 300 100]
    by (fastforce simp: Let_def split: sum.splits)
  have run: "(case run_inline additive sample_hook sample_plan False 50 300 100 of
      Some (Inr r, _) \<Rightarrow> (length (rr_records r), rr_count r Completed) | _ \<Rightarrow> (0, 0)) = (7, 5)"
    by code_simp
  then show ?thesis using res by (simp split: sum.splits)
qed

end
