(* ===== verification/Load_Fire.thy ===== *)
theory Load_Fire
  imports Load_Serial Sending Run
begin

text \<open>
  Firing and replaying a load run (\<open>barrage/fire.py\<close>, \<open>barrage/payloads.py\<close> and the two
  commands of \<open>cli/barrage.py\<close>): the plan of the command line and of a saved artifact, the
  refusals before the first request, the records as report samples, and how the workers kept
  up. The corpus generator and the send hook are parameters, the run is one of
  \<open>barrage/runner.py\<close>; the rendering of the preview and the summary is not modelled.
\<close>

section \<open>Defaults and refusals\<close>

definition DEFAULT_CONCURRENCY :: int where "DEFAULT_CONCURRENCY = 4"
definition DEFAULT_TIMEOUT :: seconds where "DEFAULT_TIMEOUT = 10"
definition DEFAULT_RAMP_STEPS :: int where "DEFAULT_RAMP_STEPS = 10"
definition LOAD_SCHEMA_VERSION :: int where "LOAD_SCHEMA_VERSION = 1"

datatype barrage_error = NoHold seconds seconds | BadTimeout "seconds option" | NewerSchema int
  | CannotReproduce | SavedPlanInvalid "plan_error option"

text \<open>What ends \<open>execute\<close> early, in its order: a \<open>BarrageError\<close>, the \<open>ValueError\<close> of the pool
  size, a guardrail, the run.\<close>

datatype fire_error = Barrage barrage_error | BadPoolSize int | PoolRefused guard_error
  | TargetRefused target_error | RunFailed "string run_error" | BadBucketWidth seconds

section \<open>The plan\<close>

definition build_plan ::
  "string \<Rightarrow> rat \<Rightarrow> seconds \<Rightarrow> int option \<Rightarrow> seconds \<Rightarrow> seconds \<Rightarrow> seconds \<Rightarrow>
     (barrage_error + plan_error) + load_plan"
where
  "build_plan mode rate duration workers warmup grace max_queue =
     (if duration \<le> warmup then Inl (Inl (NoHold duration warmup))
      else (case new_plan \<lparr>bp_mode = mode, bp_rate = rate,
               bp_concurrency = (case workers of None \<Rightarrow> DEFAULT_CONCURRENCY | Some n \<Rightarrow> n),
               bp_warmup = warmup, bp_hold = duration - warmup, bp_ramp_steps = DEFAULT_RAMP_STEPS,
               bp_grace = grace, bp_max_queue = max_queue\<rparr> of
             Inl e \<Rightarrow> Inl (Inr e) | Inr p \<Rightarrow> Inr p))"

definition check_timeout :: "seconds option \<Rightarrow> barrage_error + unit" where
  "check_timeout timeout =
     (case timeout of None \<Rightarrow> Inl (BadTimeout None)
      | Some t \<Rightarrow> if t \<le> 0 then Inl (BadTimeout (Some t)) else Inr ())"

text \<open>A key of a saved object: not there, \<open>null\<close>, or a value of the type \<open>run_config\<close> writes.\<close>

datatype 'a saved = Absent | Null | Val 'a

fun required :: "'a saved \<Rightarrow> 'a option" where
  "required (Val x) = Some x" | "required _ = None"

text \<open>\<open>config.get(key, default)\<close>: a \<open>null\<close> stays one.\<close>

fun get_or :: "'a \<Rightarrow> 'a saved \<Rightarrow> 'a option" where
  "get_or d Absent = Some d" | "get_or d Null = None" | "get_or d (Val x) = Some x"

fun saved_option :: "'a option \<Rightarrow> 'a saved" where
  "saved_option None = Null" | "saved_option (Some x) = Val x"

record saved_config =
  sc_mode :: "string saved"
  sc_rate :: "rat saved"
  sc_duration :: "seconds saved"
  sc_warmup :: "seconds saved"
  sc_ramp_steps :: "int saved"
  sc_concurrency :: "int saved"
  sc_grace :: "seconds saved"
  sc_max_queue_seconds :: "seconds saved"
  sc_timeout :: "seconds saved"
  sc_keepalive :: "bool saved"
  sc_seed :: "int saved"
  sc_pool_size :: "int saved"
  sc_target :: "string saved"
  sc_format :: "string saved"
  sc_allow_public_target :: "bool saved"
  sc_dry_run :: "bool saved"

record saved_run =
  sv_schema_version :: "int saved"
  sv_seed :: "int saved"
  sv_config :: "saved_config saved"

definition no_config :: saved_config where
  "no_config = \<lparr>sc_mode = Absent, sc_rate = Absent, sc_duration = Absent, sc_warmup = Absent,
     sc_ramp_steps = Absent, sc_concurrency = Absent, sc_grace = Absent,
     sc_max_queue_seconds = Absent, sc_timeout = Absent, sc_keepalive = Absent, sc_seed = Absent,
     sc_pool_size = Absent, sc_target = Absent, sc_format = Absent,
     sc_allow_public_target = Absent, sc_dry_run = Absent\<rparr>"

definition run_config ::
  "load_plan \<Rightarrow> int \<Rightarrow> int \<Rightarrow> string option \<Rightarrow> bool \<Rightarrow> seconds \<Rightarrow> bool \<Rightarrow> string option \<Rightarrow> bool \<Rightarrow> saved_config"
where
  "run_config p seed pool_size target dry_run timeout keepalive format allow_public =
     \<lparr>sc_mode = Val (bp_mode p), sc_rate = Val (bp_rate p), sc_duration = Val (bp_duration p),
      sc_warmup = Val (bp_warmup p), sc_ramp_steps = Val (bp_ramp_steps p),
      sc_concurrency = Val (bp_concurrency p), sc_grace = Val (bp_grace p),
      sc_max_queue_seconds = Val (bp_max_queue p), sc_timeout = Val timeout,
      sc_keepalive = Val keepalive, sc_seed = Val seed, sc_pool_size = Val pool_size,
      sc_target = saved_option target, sc_format = saved_option format,
      sc_allow_public_target = Val allow_public, sc_dry_run = Val dry_run\<rparr>"

record replayed =
  re_plan :: load_plan
  re_seed :: int
  re_pool_size :: int
  re_target :: "string option"
  re_timeout :: "seconds option"
  re_keepalive :: "bool option"

definition saved_plan :: "saved_config \<Rightarrow> load_plan \<Rightarrow> barrage_error + load_plan" where
  "saved_plan c p =
     (case (get_or DEFAULT_RAMP_STEPS (sc_ramp_steps c), get_or DEFAULT_GRACE_SECONDS (sc_grace c),
            get_or DEFAULT_MAX_QUEUE_SECONDS (sc_max_queue_seconds c)) of
        (Some steps, Some grace, Some queue) \<Rightarrow>
          (case new_plan (p\<lparr>bp_ramp_steps := steps, bp_grace := grace, bp_max_queue := queue\<rparr>) of
             Inl e \<Rightarrow> Inl (SavedPlanInvalid (Some e)) | Inr q \<Rightarrow> Inr q)
      | _ \<Rightarrow> Inl (SavedPlanInvalid None))"

text \<open>\<open>plan_from_artifact\<close>; \<open>None\<close> is a file whose top level is no object.\<close>

definition plan_from_artifact :: "saved_run option \<Rightarrow> barrage_error + replayed" where
  "plan_from_artifact data =
     (let seed = (case data of None \<Rightarrow> None | Some d \<Rightarrow> required (sv_seed d));
          c = (case data of None \<Rightarrow> no_config | Some d \<Rightarrow>
                 (case sv_config d of Val c \<Rightarrow> c | _ \<Rightarrow> no_config));
          version = (case data of None \<Rightarrow> Some 0 | Some d \<Rightarrow> get_or 0 (sv_schema_version d))
      in if (case version of None \<Rightarrow> False | Some v \<Rightarrow> LOAD_SCHEMA_VERSION < v)
         then Inl (NewerSchema (the version))
         else (case (seed, required (sc_mode c), required (sc_rate c), required (sc_duration c),
                     required (sc_warmup c), required (sc_concurrency c), required (sc_pool_size c)) of
           (Some seed', Some mode, Some rate, Some duration, Some warmup, Some n, Some pool) \<Rightarrow>
             (case saved_plan c \<lparr>bp_mode = mode, bp_rate = rate, bp_concurrency = n,
                     bp_warmup = warmup, bp_hold = duration - warmup, bp_ramp_steps = 0,
                     bp_grace = 0, bp_max_queue = 1\<rparr> of
                Inl e \<Rightarrow> Inl e
              | Inr p \<Rightarrow> Inr \<lparr>re_plan = p, re_seed = seed', re_pool_size = pool,
                  re_target = required (sc_target c),
                  re_timeout = get_or DEFAULT_TIMEOUT (sc_timeout c),
                  re_keepalive = get_or True (sc_keepalive c)\<rparr>)
         | _ \<Rightarrow> Inl CannotReproduce))"

section \<open>Payloads\<close>

definition build_payload_pool :: "(int \<Rightarrow> int \<Rightarrow> email list) \<Rightarrow> int \<Rightarrow> int \<Rightarrow> fire_error + email list" where
  "build_payload_pool generate_corpus seed pool_size =
     (if pool_size \<le> 0 then Inl (BadPoolSize pool_size) else Inr (generate_corpus seed pool_size))"

datatype pool_error = EmptyPool | NegativeIndex int

definition payload_for_index :: "email list \<Rightarrow> int \<Rightarrow> pool_error + email" where
  "payload_for_index pool i =
     (if pool = [] then Inl EmptyPool
      else if i < 0 then Inl (NegativeIndex i)
      else Inr (pool ! nat (i mod int (length pool))))"

text \<open>The send hook over an injected client; what \<open>payload_for_index\<close> raises it raises.\<close>

definition fixed_sender ::
  "'w timing \<Rightarrow> ('q \<Rightarrow> 'w \<Rightarrow> client_reply \<times> 'w) \<Rightarrow> (email \<Rightarrow> 'q) \<Rightarrow> email list \<Rightarrow>
     (transport_result, string, 'w) hook"
where
  "fixed_sender T client build pool i w =
     (case payload_for_index pool (int i) of
        Inl e \<Rightarrow> (Inl ''pool'', w)
      | Inr payload \<Rightarrow> (case post T client build payload w of (r, w') \<Rightarrow> (Inr r, w')))"

section \<open>From records to samples\<close>

definition sample_of :: "('r \<Rightarrow> int option) \<Rightarrow> ('r \<Rightarrow> rat option) \<Rightarrow> seconds \<Rightarrow> seconds \<Rightarrow>
  'r dispatch_record \<Rightarrow> load_sample"
where
  "sample_of status_of latency_of origin warmup r =
     (let completed = (dr_outcome r = Completed);
          res = (if completed then dr_result r else None);
          measured = (case res of None \<Rightarrow> None | Some x \<Rightarrow> latency_of x);
          service = (if completed \<and> measured = None
            then (case (dr_dispatched_at r, dr_completed_at r) of
                    (Some d, Some c) \<Rightarrow> Some ((c - d) * 1000) | _ \<Rightarrow> None)
            else measured)
      in \<lparr>ls_scheduled_at = dr_scheduled_at r - origin,
          ls_dispatched_at = map_option (\<lambda>d. d - origin) (dr_dispatched_at r),
          ls_status = (case res of None \<Rightarrow> None | Some x \<Rightarrow> status_of x),
          ls_service_ms = service,
          ls_offered_ms = (if completed
            then map_option (\<lambda>c. (c - dr_scheduled_at r) * 1000) (dr_completed_at r) else None),
          ls_target_rate = dr_target_rate r, ls_outcome = dr_outcome r,
          ls_index = int (dr_index r),
          ls_in_hold = (warmup - HAIR \<le> dr_scheduled_at r - origin)\<rparr>)"

definition samples_from_records ::
  "('r \<Rightarrow> int option) \<Rightarrow> ('r \<Rightarrow> rat option) \<Rightarrow> 'r run_result \<Rightarrow> seconds \<Rightarrow> load_sample list"
where
  "samples_from_records status_of latency_of result warmup =
     map (sample_of status_of latency_of (rr_started_at result) warmup) (rr_records result)"

section \<open>How the workers kept up\<close>

definition QUEUED_THRESHOLD_SECONDS :: seconds where "QUEUED_THRESHOLD_SECONDS = 1 / 100"

record dispatch_block =
  db_mode :: string
  db_concurrency :: int
  db_grace :: seconds
  db_max_queue :: seconds
  db_queued_requests :: nat
  db_p50 :: "rat option"
  db_p90 :: "rat option"
  db_p99 :: "rat option"
  db_max :: "rat option"
  db_dropped_backlog :: nat
  db_not_dispatched :: nat
  db_abandoned :: nat

definition dispatch_summary :: "'r run_result \<Rightarrow> load_plan \<Rightarrow> dispatch_block" where
  "dispatch_summary result p =
     (let waits = map dr_queued (filter (\<lambda>r. dr_dispatched_at r \<noteq> None) (rr_records result));
          waits_ms = map (\<lambda>w. w * 1000) waits;
          pct = (\<lambda>f. map_option (round_places 3) (nearest_rank waits_ms f))
      in \<lparr>db_mode = bp_mode p, db_concurrency = bp_concurrency p, db_grace = bp_grace p,
          db_max_queue = bp_max_queue p,
          db_queued_requests = length (filter (\<lambda>w. QUEUED_THRESHOLD_SECONDS < w) waits),
          db_p50 = pct (5 / 10), db_p90 = pct (9 / 10), db_p99 = pct (99 / 100),
          db_max = (if waits_ms = [] then None else Some (round_places 3 (Max (set waits_ms)))),
          db_dropped_backlog = rr_count result DroppedBacklog,
          db_not_dispatched = rr_count result NotDispatched,
          db_abandoned = rr_count result Abandoned\<rparr>)"

datatype dispatch_note = WorkersBusy nat "rat option" int | BacklogDropped nat seconds
  | DeadlineCut nat nat

definition format_dispatch_note :: "dispatch_block \<Rightarrow> dispatch_note list" where
  "format_dispatch_note d =
     (if db_queued_requests d \<noteq> 0
      then [WorkersBusy (db_queued_requests d) (db_max d) (db_concurrency d)] else []) @
     (if db_dropped_backlog d \<noteq> 0
      then [BacklogDropped (db_dropped_backlog d) (db_max_queue d)] else []) @
     (if db_abandoned d \<noteq> 0 \<or> db_not_dispatched d \<noteq> 0
      then [DeadlineCut (db_abandoned d) (db_not_dispatched d)] else [])"

section \<open>The send path\<close>

type_synonym 'w load_runner =
  "(transport_result, string, 'w) hook \<Rightarrow> load_plan \<Rightarrow> bool \<Rightarrow> 'w \<Rightarrow>
     ((string run_error + transport_result run_result) \<times> 'w) option"

record 'w fire_env =
  fe_net :: netlib
  fe_config :: "string + (string \<rightharpoonup> target)"
  fe_corpus :: "int \<Rightarrow> int \<Rightarrow> email list"
  fe_sender :: "email list \<Rightarrow> resolved_target \<Rightarrow> seconds \<Rightarrow> bool \<Rightarrow> (transport_result, string, 'w) hook"
  fe_run :: "'w load_runner"

record fire_options =
  fo_seed :: int
  fo_pool_size :: int
  fo_target :: "string option"
  fo_allow_high_rate :: bool
  fo_allow_public_target :: bool
  fo_timeout :: "seconds option"
  fo_keepalive :: bool

text \<open>Everything that can refuse before the run: the timeout, the pool, the target.\<close>

definition prepare_fire ::
  "'w fire_env \<Rightarrow> fire_options \<Rightarrow> fire_error + email list \<times> resolved_target"
where
  "prepare_fire E P =
     (case check_timeout (fo_timeout P) of
        Inl e \<Rightarrow> Inl (Barrage e)
      | Inr _ \<Rightarrow> (case build_payload_pool (fe_corpus E) (fo_seed P) (fo_pool_size P) of
        Inl e \<Rightarrow> Inl e
      | Inr pool \<Rightarrow> (case require_synthetic (fe_net E) pool of
        Inl e \<Rightarrow> Inl (PoolRefused e)
      | Inr _ \<Rightarrow> (case resolve_target (fe_net E) (fo_target P) (fe_config E)
                      (fo_allow_public_target P) ''barrage'' of
        Inl e \<Rightarrow> Inl (TargetRefused e)
      | Inr resolved \<Rightarrow> Inr (pool, resolved)))))"

record fire_report =
  fr_artifact :: load_artifact
  fr_config :: saved_config
  fr_dispatch :: dispatch_block
  fr_notes :: "dispatch_note list"
  fr_exit :: nat

text \<open>The second block of \<open>execute\<close>: the artifact of a finished run and its exit code.\<close>

definition fire_artifact ::
  "load_plan \<Rightarrow> fire_options \<Rightarrow> resolved_target \<Rightarrow> transport_result run_result \<Rightarrow> seconds + fire_report"
where
  "fire_artifact p P resolved result =
     (case build_load_artifact (fo_seed P) (bp_mode p) (Some (bp_concurrency p))
             (samples_from_records tr_status (\<lambda>r. Some (tr_latency_ms r)) result (bp_warmup p))
             DEFAULT_BUCKET_SECONDS (bp_stages p) (Some (bp_warmup p)) (Some 0) (rr_aborted result) of
        Inl e \<Rightarrow> Inl e
      | Inr a \<Rightarrow> Inr \<lparr>fr_artifact = a,
          fr_config = (run_config p (fo_seed P) (fo_pool_size P) (fo_target P) False
              (the (fo_timeout P)) (fo_keepalive P) None False)
            \<lparr>sc_format := Val (rt_format_name resolved),
             sc_allow_public_target := Val (rt_public resolved)\<rparr>,
          fr_dispatch = dispatch_summary result p,
          fr_notes = format_dispatch_note (dispatch_summary result p),
          fr_exit = (if rr_aborted result then EXIT_FINDING else EXIT_OK)\<rparr>)"

definition execute_load ::
  "'w fire_env \<Rightarrow> load_plan \<Rightarrow> fire_options \<Rightarrow> 'w \<Rightarrow> ((fire_error + fire_report) \<times> 'w) option"
where
  "execute_load E p P w =
     (case prepare_fire E P of
        Inl e \<Rightarrow> Some (Inl e, w)
      | Inr (pool, resolved) \<Rightarrow>
          (case fe_run E (fe_sender E pool resolved (the (fo_timeout P)) (fo_keepalive P)) p
                  (fo_allow_high_rate P) w of
             None \<Rightarrow> None
           | Some (Inl e, w') \<Rightarrow> Some (Inl (RunFailed e), w')
           | Some (Inr result, w') \<Rightarrow>
               (case fire_artifact p P resolved result of
                  Inl e \<Rightarrow> Some (Inl (BadBucketWidth e), w')
                | Inr report \<Rightarrow> Some (Inr report, w'))))"

section \<open>The two commands\<close>

text \<open>An exit code, with the artifact when one was built, or an exception no handler takes.\<close>

datatype load_exit = LoadExit nat "fire_report option" | LoadTraceback fire_error

definition barrage_execute ::
  "'w fire_env \<Rightarrow> load_plan \<Rightarrow> fire_options \<Rightarrow> 'w \<Rightarrow> (load_exit \<times> 'w) option"
where
  "barrage_execute E p P w =
     (case execute_load E p P w of
        None \<Rightarrow> None
      | Some (Inr r, w') \<Rightarrow> Some (LoadExit (fr_exit r) (Some r), w')
      | Some (Inl e, w') \<Rightarrow> Some ((case e of
            BadPoolSize n \<Rightarrow> LoadTraceback e
          | BadBucketWidth d \<Rightarrow> LoadTraceback e
          | RunFailed (GateError g) \<Rightarrow> LoadTraceback e
          | RunFailed (HookError h) \<Rightarrow> LoadTraceback e
          | _ \<Rightarrow> LoadExit EXIT_REFUSED None), w'))"

record fire_args =
  fa_mode :: string
  fa_rate :: rat
  fa_duration :: seconds
  fa_concurrency :: "int option"
  fa_warmup :: seconds
  fa_grace :: seconds
  fa_max_queue :: seconds
  fa_send :: bool

definition cmd_barrage_fire ::
  "'w fire_env \<Rightarrow> fire_args \<Rightarrow> fire_options \<Rightarrow> 'w \<Rightarrow> (load_exit \<times> 'w) option"
where
  "cmd_barrage_fire E A P w =
     (case build_plan (fa_mode A) (fa_rate A) (fa_duration A) (fa_concurrency A) (fa_warmup A)
             (fa_grace A) (fa_max_queue A) of
        Inl e \<Rightarrow> Some (LoadExit EXIT_REFUSED None, w)
      | Inr p \<Rightarrow> (case check_timeout (fo_timeout P) of
        Inl e \<Rightarrow> Some (LoadExit EXIT_REFUSED None, w)
      | Inr _ \<Rightarrow> (case check_rate_ceiling (fa_rate A) (fa_duration A) (fo_allow_high_rate P)
                      DEFAULT_MAX_RATE_PER_SEC DEFAULT_MAX_DURATION_SEC (Some (bp_concurrency p))
                      DEFAULT_MAX_CONCURRENCY of
        Inl e \<Rightarrow> Some (LoadExit EXIT_REFUSED None, w)
      | Inr _ \<Rightarrow> if \<not> will_send (evaluate_send (fa_send A))
          then Some (LoadExit EXIT_DRY_RUN None, w)
          else barrage_execute E p P w)))"

text \<open>\<open>P\<close> carries what replay takes from its own command line; the rest comes from the file.\<close>

definition cmd_barrage_replay ::
  "'w fire_env \<Rightarrow> saved_run option \<Rightarrow> bool \<Rightarrow> fire_options \<Rightarrow> 'w \<Rightarrow> (load_exit \<times> 'w) option"
where
  "cmd_barrage_replay E data send P w =
     (case plan_from_artifact data of
        Inl e \<Rightarrow> Some (LoadExit EXIT_REFUSED None, w)
      | Inr r \<Rightarrow> (case check_timeout (re_timeout r) of
        Inl e \<Rightarrow> Some (LoadExit EXIT_REFUSED None, w)
      | Inr _ \<Rightarrow> if \<not> will_send (evaluate_send send)
          then Some (LoadExit EXIT_DRY_RUN None, w)
          else barrage_execute E (re_plan r)
            (P\<lparr>fo_seed := re_seed r, fo_pool_size := re_pool_size r, fo_target := re_target r,
               fo_timeout := re_timeout r, fo_keepalive := (re_keepalive r = Some True)\<rparr>) w))"

section \<open>Facts about the send path\<close>

lemma fire_artifact_config:
  "fire_artifact p P resolved result = Inr r \<Longrightarrow>
     fr_config r = (run_config p (fo_seed P) (fo_pool_size P) (fo_target P) False
         (the (fo_timeout P)) (fo_keepalive P) None False)
       \<lparr>sc_format := Val (rt_format_name resolved), sc_allow_public_target := Val (rt_public resolved)\<rparr>"
  by (auto simp: fire_artifact_def split: sum.splits)

lemma required_option [simp]: "required (saved_option x) = x"
  by (cases x) simp_all

lemma barrage_execute_world:
  assumes "barrage_execute E p P w = Some (res, w')" "w' \<noteq> w"
  obtains pool resolved where "prepare_fire E P = Inr (pool, resolved)"
    "\<exists>out. fe_run E (fe_sender E pool resolved (the (fo_timeout P)) (fo_keepalive P)) p
       (fo_allow_high_rate P) w = Some (out, w')"
  using assms
  by (auto simp: barrage_execute_def execute_load_def split: option.splits sum.splits prod.splits)

lemma prepare_fire_Inr:
  "prepare_fire E P = Inr (pool, resolved) \<longleftrightarrow>
     (\<exists>t. fo_timeout P = Some t \<and> 0 < t) \<and> 0 < fo_pool_size P \<and>
     pool = fe_corpus E (fo_seed P) (fo_pool_size P) \<and>
     require_synthetic (fe_net E) pool = Inr () \<and>
     resolve_target (fe_net E) (fo_target P) (fe_config E) (fo_allow_public_target P) ''barrage'' = Inr resolved"
  by (auto simp: prepare_fire_def check_timeout_def build_payload_pool_def
      split: sum.splits option.splits if_splits)

lemma fire_artifact_built:
  obtains r where "fire_artifact p P resolved result = Inr r"
    "ld_requests (lr_summary (fr_artifact r)) =
       count_requests (samples_from_records tr_status (\<lambda>x. Some (tr_latency_ms x)) result (bp_warmup p))"
    "fr_dispatch r = dispatch_summary result p"
    "fr_exit r = (if rr_aborted result then EXIT_FINDING else EXIT_OK)"
proof -
  have "\<exists>buckets. bucketize samples DEFAULT_BUCKET_SECONDS (Some origin) stages hold_start = Inr buckets"
    for samples origin stages hold_start
    by (simp add: bucketize_def DEFAULT_BUCKET_SECONDS_def Let_def)
  then obtain a where "build_load_artifact (fo_seed P) (bp_mode p) (Some (bp_concurrency p))
      (samples_from_records tr_status (\<lambda>x. Some (tr_latency_ms x)) result (bp_warmup p))
      DEFAULT_BUCKET_SECONDS (bp_stages p) (Some (bp_warmup p)) (Some 0) (rr_aborted result) = Inr a"
    "ld_requests (lr_summary a) =
       count_requests (samples_from_records tr_status (\<lambda>x. Some (tr_latency_ms x)) result (bp_warmup p))"
    unfolding build_load_artifact_def Let_def by (metis (no_types, lifting) sum.case(2) load_artifact.select_convs(3)
        load_summary.select_convs(1))
  then show ?thesis using that by (simp add: fire_artifact_def)
qed

lemma bad_pool_refused:
  "prepare_fire E P = Inl e \<Longrightarrow>
     (\<exists>n. e = BadPoolSize n) \<longleftrightarrow> (\<exists>t. fo_timeout P = Some t \<and> 0 < t) \<and> fo_pool_size P \<le> 0"
  by (auto simp: prepare_fire_def check_timeout_def build_payload_pool_def
      split: sum.splits option.splits if_splits)

lemma prepare_fire_shape:
  "prepare_fire E P = Inl e \<Longrightarrow> (\<exists>x. e = Barrage x) \<or> (\<exists>n. e = BadPoolSize n) \<or>
     (\<exists>x. e = PoolRefused x) \<or> (\<exists>x. e = TargetRefused x)"
  by (auto simp: prepare_fire_def build_payload_pool_def split: sum.splits if_splits)

text \<open>A run that fails only at the ceiling.\<close>

definition sound_run :: "'w fire_env \<Rightarrow> bool" where
  "sound_run E \<longleftrightarrow> (\<forall>hook p high u e u'. fe_run E hook p high u = Some (Inl e, u') \<longrightarrow> (\<exists>c. e = OverCeiling c))"

lemma barrage_execute_traceback:
  assumes "barrage_execute E p P w = Some (res, w')" "sound_run E"
  shows "(\<exists>e. res = LoadTraceback e) \<longleftrightarrow> (\<exists>t. fo_timeout P = Some t \<and> 0 < t) \<and> fo_pool_size P \<le> 0"
proof (cases "prepare_fire E P")
  case (Inl e)
  then show ?thesis using assms(1) bad_pool_refused [OF Inl] prepare_fire_shape [OF Inl]
    by (auto simp: barrage_execute_def execute_load_def)
next
  case (Inr x)
  obtain pool resolved where x: "x = (pool, resolved)" by fastforce
  have "0 < fo_pool_size P" using Inr x by (simp add: prepare_fire_Inr)
  moreover obtain out u where run: "fe_run E (fe_sender E pool resolved (the (fo_timeout P)) (fo_keepalive P)) p
      (fo_allow_high_rate P) w = Some (out, u)"
    using assms(1) Inr x by (auto simp: barrage_execute_def execute_load_def split: option.splits)
  moreover have "\<nexists>e. res = LoadTraceback e"
  proof (cases out)
    case (Inl e)
    then obtain c where "e = OverCeiling c" using run assms(2) unfolding sound_run_def by blast
    then show ?thesis using assms(1) Inr x run Inl by (auto simp: barrage_execute_def execute_load_def)
  next
    case (Inr result)
    obtain r where "fire_artifact p P resolved result = Inr r" using fire_artifact_built .
    then show ?thesis using assms(1) \<open>prepare_fire E P = Inr x\<close> x run Inr
      by (auto simp: barrage_execute_def execute_load_def)
  qed
  ultimately show ?thesis by simp
qed

lemma sample_outcome: "ls_outcome (sample_of status_of latency_of origin warmup r) = dr_outcome r"
  by (simp add: sample_of_def Let_def)

lemma count_samples:
  "with_outcome oc (samples_from_records status_of latency_of result warmup) = rr_count result oc"
  by (simp add: with_outcome_def samples_from_records_def rr_count_def filter_map comp_def
      sample_of_def Let_def)

lemma sample_sent:
  assumes "record_ok F r"
  shows "ls_sent (sample_of status_of latency_of origin warmup r) \<longleftrightarrow> dr_outcome r \<in> {Completed, Abandoned}"
  using assms by (auto simp: ls_sent_def sample_of_def Let_def record_ok_def split: load_outcome.splits)

lemma run_inline_not_aborted:
  "run_inline T hook p high max_rate max_duration w = Some (Inr result, w') \<Longrightarrow> \<not> rr_aborted result"
  unfolding run_inline_def Let_def
  by (elim sum.split_asm [THEN iffD1, elim_format] option.split_asm [THEN iffD1, elim_format])
    (auto split: sum.splits option.splits prod.splits list.splits)

lemma fixed_sender_patient:
  assumes "monotonic T now" "patient now client"
  shows "hook_patient now (fixed_sender T client build pool)"
  unfolding hook_patient_def
proof (intro allI)
  fix i w
  show "now w \<le> now (snd (fixed_sender T client build pool i w))"
  proof (cases "payload_for_index pool (int i)")
    case (Inr e)
    obtain r w' where "post T client build e w = (r, w')" by fastforce
    then show ?thesis using Inr post_patient [OF assms, of w build e] by (simp add: fixed_sender_def)
  qed (simp add: fixed_sender_def)
qed

text \<open>A fire command against a local target, with a client that answers at once.\<close>

definition sample_fire :: fire_options where
  "sample_fire = \<lparr>fo_seed = 7, fo_pool_size = 1, fo_target = Some ''dev'', fo_allow_high_rate = False,
     fo_allow_public_target = False, fo_timeout = Some 10, fo_keepalive = True\<rparr>"

definition sample_fire_args :: fire_args where
  "sample_fire_args = \<lparr>fa_mode = MODE_OPEN, fa_rate = 1, fa_duration = 1, fa_concurrency = Some 1,
     fa_warmup = 0, fa_grace = 1, fa_max_queue = 5, fa_send = True\<rparr>"

definition tiny_plan :: load_plan where
  "tiny_plan = sample_plan\<lparr>bp_rate := 1, bp_warmup := 0, bp_hold := 2\<rparr>"

lemma tiny_plan_accepted: "new_plan tiny_plan = Inr tiny_plan"
  by (simp add: tiny_plan_def new_plan_def sample_plan_def VALID_MODES_def)

definition dev_target :: target where
  "dev_target = \<lparr>tg_name = ''dev'', tg_url = ''http://in.shop.test/hook'', tg_wire_format = ''sendgrid'',
     tg_public = False\<rparr>"

definition sample_fire_env :: "seconds fire_env" where
  "sample_fire_env = \<lparr>fe_net = sample_net, fe_config = Inr [''dev'' \<mapsto> dev_target],
     fe_corpus = (\<lambda>seed n. [sample_email\<lparr>em_from_addr := ''ann@example.com''\<rparr>]),
     fe_sender = (\<lambda>pool target timeout keepalive. fixed_sender additive quick_client (\<lambda>e. ()) pool),
     fe_run = (\<lambda>hook p high. run_inline additive hook p high DEFAULT_MAX_RATE_PER_SEC DEFAULT_MAX_DURATION_SEC)\<rparr>"

section \<open>Properties\<close>

text \<open>C36 (a saved run is replayed as it was). What \<open>execute\<close> writes into the artifact's
  configuration is enough for \<open>plan_from_artifact\<close> to rebuild the plan, ramp included, with the
  seed, the pool size, the target, the timeout and the connection mode of the run.\<close>

theorem replay_rebuilds_the_run:
  assumes "new_plan p = Inr q" "fo_timeout P = Some t" "fire_artifact p P resolved result = Inr r"
  shows "plan_from_artifact (Some \<lparr>sv_schema_version = Val LOAD_SCHEMA_VERSION,
      sv_seed = Val (lr_seed (fr_artifact r)), sv_config = Val (fr_config r)\<rparr>) =
    Inr \<lparr>re_plan = p, re_seed = fo_seed P, re_pool_size = fo_pool_size P, re_target = fo_target P,
      re_timeout = Some t, re_keepalive = Some (fo_keepalive P)\<rparr>"
proof -
  have "lr_seed (fr_artifact r) = fo_seed P"
    using assms(3) by (auto simp: fire_artifact_def build_load_artifact_def Let_def split: sum.splits)
  moreover have "new_plan \<lparr>bp_mode = bp_mode p, bp_rate = bp_rate p, bp_concurrency = bp_concurrency p,
      bp_warmup = bp_warmup p, bp_hold = bp_hold p, bp_ramp_steps = bp_ramp_steps p,
      bp_grace = bp_grace p, bp_max_queue = bp_max_queue p\<rparr> = Inr p"
    using assms(1) by (simp add: new_plan_Inr)
  ultimately show ?thesis using assms(2)
    by (simp add: plan_from_artifact_def fire_artifact_config [OF assms(3)] run_config_def saved_plan_def
        bp_duration_def Let_def)
qed

theorem replay_rebuilds_the_run_witness:
  "\<exists>r. fire_artifact sample_plan sample_fire \<lparr>rt_name = ''dev'', rt_url = ''http://in.shop.test/hook'',
        rt_format_name = ''sendgrid'', rt_public = False\<rparr>
      \<lparr>rr_records = [], rr_started_at = 100, rr_deadline = 105, rr_ended_at = 104, rr_aborted = False\<rparr> = Inr r \<and>
     plan_from_artifact (Some \<lparr>sv_schema_version = Val LOAD_SCHEMA_VERSION,
        sv_seed = Val (lr_seed (fr_artifact r)), sv_config = Val (fr_config r)\<rparr>) =
     Inr \<lparr>re_plan = sample_plan, re_seed = 7, re_pool_size = 1, re_target = Some ''dev'',
       re_timeout = Some 10, re_keepalive = Some True\<rparr>"
proof -
  let ?t = "\<lparr>rt_name = ''dev'', rt_url = ''http://in.shop.test/hook'', rt_format_name = ''sendgrid'',
    rt_public = False\<rparr>"
  let ?result = "\<lparr>rr_records = [], rr_started_at = 100, rr_deadline = 105, rr_ended_at = 104, rr_aborted = False\<rparr>"
  obtain r where r: "fire_artifact sample_plan sample_fire ?t ?result = Inr r" using fire_artifact_built .
  from replay_rebuilds_the_run [OF sample_plan_accepted _ r, of 10] r show ?thesis
    by (simp add: sample_fire_def)
qed

text \<open>Nothing is sent unless everything allows it. If \<open>barrage fire\<close> changed the world at all
  - clock, network or otherwise - then \<open>--send\<close> was given, the plan holds and is within the
  ceiling on rate, duration and workers unless the override was given, the timeout is
  positive, every address found in the whole pool is synthetic and at least one was found,
  and the target is declared and either internal or opted in twice. Whatever the run and the
  send hook do.\<close>

theorem fire_needs_every_guard:
  assumes "cmd_barrage_fire E A P w = Some (res, w')" "w' \<noteq> w"
  shows "fa_send A \<and> fa_warmup A < fa_duration A \<and> 0 < fa_rate A \<and>
    (fo_allow_high_rate P \<or> fa_rate A \<le> 50 \<and> fa_duration A \<le> 300 \<and>
       (case fa_concurrency A of None \<Rightarrow> True | Some n \<Rightarrow> n \<le> 64)) \<and>
    (\<exists>t. fo_timeout P = Some t \<and> 0 < t) \<and>
    (let pool = fe_corpus E (fo_seed P) (fo_pool_size P);
         found = lib_addresses (fe_net E) [f. e \<leftarrow> pool, f \<leftarrow> em_to e # em_from_addr e #
            env_from_addr (em_envelope e) # env_to (em_envelope e), strip f \<noteq> []]
     in found \<noteq> [] \<and> (\<forall>a \<in> set found. is_synthetic_address a)) \<and>
    (\<exists>name targets t host. fo_target P = Some name \<and> fe_config E = Inr targets \<and>
       targets name = Some t \<and> extract_host (tg_url t) = Some host \<and>
       (internal_host (fe_net E) (host_key host) \<or> fo_allow_public_target P \<and> tg_public t))"
proof -
  obtain p where p: "build_plan (fa_mode A) (fa_rate A) (fa_duration A) (fa_concurrency A) (fa_warmup A)
      (fa_grace A) (fa_max_queue A) = Inr p" "fa_send A"
    "check_rate_ceiling (fa_rate A) (fa_duration A) (fo_allow_high_rate P) DEFAULT_MAX_RATE_PER_SEC
       DEFAULT_MAX_DURATION_SEC (Some (bp_concurrency p)) DEFAULT_MAX_CONCURRENCY = Inr ()"
    "barrage_execute E p P w = Some (res, w')"
    using assms by (auto simp: cmd_barrage_fire_def evaluate_send_def split: sum.splits if_splits)
  from barrage_execute_world [OF p(4) assms(2)] obtain pool resolved where
    "prepare_fire E P = Inr (pool, resolved)" by metis
  note prep = this [unfolded prepare_fire_Inr require_synthetic_spec resolve_target_spec]
  have "fa_warmup A < fa_duration A" "0 < fa_rate A"
    "bp_concurrency p = (case fa_concurrency A of None \<Rightarrow> DEFAULT_CONCURRENCY | Some n \<Rightarrow> n)"
    using p(1) by (auto simp: build_plan_def new_plan_Inr split: if_splits sum.splits)
  moreover from this p(3) have "fo_allow_high_rate P \<or> fa_rate A \<le> 50 \<and> fa_duration A \<le> 300 \<and>
       (case fa_concurrency A of None \<Rightarrow> True | Some n \<Rightarrow> n \<le> 64)"
    by (auto simp: check_rate_ceiling_def DEFAULT_MAX_RATE_PER_SEC_def DEFAULT_MAX_DURATION_SEC_def
        DEFAULT_MAX_CONCURRENCY_def split: if_splits option.splits)
  ultimately show ?thesis using p(2) prep unfolding Let_def by auto
qed

theorem fire_needs_every_guard_witness:
  "\<exists>res w'. cmd_barrage_fire sample_fire_env sample_fire_args sample_fire 100 = Some (res, w') \<and> w' \<noteq> 100 \<and>
     fa_rate sample_fire_args \<le> 50 \<and> fo_timeout sample_fire = Some 10"
proof -
  have "(case cmd_barrage_fire sample_fire_env sample_fire_args sample_fire 100 of
      Some (_, w') \<Rightarrow> w' \<noteq> 100 | None \<Rightarrow> False)" by code_simp
  then obtain res w' where run: "cmd_barrage_fire sample_fire_env sample_fire_args sample_fire 100 = Some (res, w')"
    "w' \<noteq> 100" by (auto split: option.splits)
  from fire_needs_every_guard [OF this] have "fo_allow_high_rate sample_fire \<or> fa_rate sample_fire_args \<le> 50"
    by blast
  then show ?thesis using run by (simp add: sample_fire_def)
qed



text \<open>The report accounts for the run. With one worker in open loop, a clock that does not go
  back and any client, \<open>execute\<close> returns; when it writes an artifact, the requests it reports
  are the arrivals of the plan, each completed, dropped or never dispatched, none abandoned;
  sent means completed; and the dispatch block counts the same ones.\<close>

theorem inline_fire_accounts:
  assumes T: "monotonic T now" and client: "patient now client"
    and p: "new_plan p = Inr q" "bp_mode p = MODE_OPEN"
    and E: "fe_run E = (\<lambda>hook p high. run_inline T hook p high DEFAULT_MAX_RATE_PER_SEC DEFAULT_MAX_DURATION_SEC)"
      "fe_sender E = (\<lambda>pool target timeout keepalive. fixed_sender T client (build target) pool)"
  shows "\<exists>res w'. execute_load E p P w = Some (res, w') \<and>
    (case res of Inl e \<Rightarrow> True
     | Inr r \<Rightarrow> (let rq = ld_requests (lr_summary (fr_artifact r)) in
         rq_scheduled rq = length (arrival_schedule (bp_stages p)) \<and>
         rq_scheduled rq = rq_completed rq + rq_dropped_backlog rq + rq_not_dispatched rq \<and>
         rq_abandoned rq = 0 \<and> rq_sent rq = rq_completed rq \<and>
         db_dropped_backlog (fr_dispatch r) = rq_dropped_backlog rq \<and>
         db_not_dispatched (fr_dispatch r) = rq_not_dispatched rq \<and> fr_exit r = EXIT_OK))"
proof (cases "prepare_fire E P")
  case (Inl e)
  then show ?thesis by (simp add: execute_load_def)
next
  case (Inr x)
  obtain pool resolved where x: "x = (pool, resolved)" by fastforce
  let ?hook = "fixed_sender T client (build resolved) pool"
  have "hook_patient now ?hook"
    using fixed_sender_patient [OF T client] .
  note accounts = inline_accounts [OF T this p, of "fo_allow_high_rate P" DEFAULT_MAX_RATE_PER_SEC
      DEFAULT_MAX_DURATION_SEC w]
  then obtain res w' where run: "run_inline T ?hook p (fo_allow_high_rate P) DEFAULT_MAX_RATE_PER_SEC
      DEFAULT_MAX_DURATION_SEC w = Some (res, w')" by blast
  show ?thesis
  proof (cases res)
    case (Inl e)
    then show ?thesis using Inr x run by (simp add: execute_load_def E)
  next
    case res: (Inr result)
    obtain r where r: "fire_artifact p P resolved result = Inr r"
      "ld_requests (lr_summary (fr_artifact r)) =
         count_requests (samples_from_records tr_status (\<lambda>x. Some (tr_latency_ms x)) result (bp_warmup p))"
      "fr_dispatch r = dispatch_summary result p"
      "fr_exit r = (if rr_aborted result then EXIT_FINDING else EXIT_OK)" using fire_artifact_built .
    let ?samples = "samples_from_records tr_status (\<lambda>x. Some (tr_latency_ms x)) result (bp_warmup p)"
    have ab: "rr_count result Abandoned = 0" and rec: "list_all (record_ok (frame_of p (rr_started_at result))) (rr_records result)"
      and len: "length (rr_records result) = length (arrival_schedule (bp_stages p))"
      using accounts run res by (auto simp: Let_def dest: map_eq_imp_length_eq)
    have na: "\<not> rr_aborted result" using run_inline_not_aborted [OF run [unfolded res]] .
    have "filter ls_sent ?samples = filter (\<lambda>s. ls_outcome s = Completed \<or> ls_outcome s = Abandoned) ?samples"
      using rec by (intro filter_cong refl)
        (auto simp: samples_from_records_def list_all_iff sample_sent sample_outcome)
    also have "\<dots> = filter (\<lambda>s. ls_outcome s = Completed) ?samples"
      using ab by (intro filter_cong refl) (auto simp: samples_from_records_def rr_count_def filter_empty_conv
          sample_outcome)
    finally have "length (filter ls_sent ?samples) = with_outcome Completed ?samples"
      by (simp add: with_outcome_def)
    moreover have "length ?samples = length (arrival_schedule (bp_stages p))"
      using len by (simp add: samples_from_records_def)
    ultimately show ?thesis
      using Inr x run res r na ab outcomes_partition [of ?samples]
      by (simp add: execute_load_def E Let_def count_requests_def count_samples dispatch_summary_def)
  qed
qed

theorem inline_fire_accounts_witness:
  "\<exists>r w'. execute_load sample_fire_env tiny_plan sample_fire 100 = Some (Inr r, w') \<and>
     rq_scheduled (ld_requests (lr_summary (fr_artifact r))) = 2 \<and> fr_exit r = EXIT_OK"
proof -
  let ?pool = "[sample_email\<lparr>em_from_addr := ''ann@example.com''\<rparr>]"
  have "(case prepare_fire sample_fire_env sample_fire of Inr _ \<Rightarrow> True | _ \<Rightarrow> False)" by code_simp
  then obtain pool resolved where prep: "prepare_fire sample_fire_env sample_fire = Inr (pool, resolved)"
    by (auto split: sum.splits)
  then have "pool = ?pool" by (simp add: prepare_fire_Inr sample_fire_env_def)
  moreover have "(case run_inline additive (fixed_sender additive quick_client (\<lambda>e. ()) ?pool) tiny_plan False
      DEFAULT_MAX_RATE_PER_SEC DEFAULT_MAX_DURATION_SEC 100 of Some (Inr result, _) \<Rightarrow> True | _ \<Rightarrow> False)"
    by code_simp
  ultimately obtain result w' where run: "run_inline additive (fixed_sender additive quick_client (\<lambda>e. ()) pool)
      tiny_plan False DEFAULT_MAX_RATE_PER_SEC DEFAULT_MAX_DURATION_SEC 100 = Some (Inr result, w')"
    by (auto split: option.splits sum.splits)
  obtain r where "fire_artifact tiny_plan sample_fire resolved result = Inr r" using fire_artifact_built .
  with run prep have run: "execute_load sample_fire_env tiny_plan sample_fire 100 = Some (Inr r, w')"
    by (simp add: execute_load_def) (simp add: sample_fire_env_def sample_fire_def)
  have "patient (\<lambda>t. t) (quick_client :: unit \<Rightarrow> _)" by (simp add: patient_def quick_client_def)
  moreover have "bp_mode tiny_plan = MODE_OPEN" by (simp add: tiny_plan_def sample_plan_def)
  moreover have "fe_run sample_fire_env = (\<lambda>hook p high. run_inline additive hook p high DEFAULT_MAX_RATE_PER_SEC
      DEFAULT_MAX_DURATION_SEC)" by (simp add: sample_fire_env_def)
  moreover have "fe_sender sample_fire_env = (\<lambda>pool target timeout keepalive.
      fixed_sender additive quick_client ((\<lambda>_ e. ()) target) pool)" by (simp add: sample_fire_env_def)
  moreover have "length (arrival_schedule (bp_stages tiny_plan)) = 2" by code_simp
  ultimately show ?thesis
    using inline_fire_accounts [OF monotonic_additive _ tiny_plan_accepted, of quick_client sample_fire_env
        "\<lambda>_ e. ()" sample_fire 100] run by (simp add: Let_def)
qed

end
