(* ===== verification/Json.thy ===== *)
theory Json
  imports Prelude
begin

text \<open>
  JSON values as Python's \<open>json\<close> module reads and writes them: a \<open>dict\<close> is an association list
  in insertion order with distinct keys, numbers are integers or floats (exact rationals), and
  equality is Python's, under which \<open>1 == 1.0 == True\<close> and the order of keys does not count.
  Text is ASCII; how a float is printed is a parameter.
\<close>

datatype json = JNull | JBool bool | JInt int | JNum rat | JStr string | JList "json list"
  | JObj "(string \<times> json) list"

section \<open>Reading\<close>

text \<open>\<open>data.get(key)\<close> on an object, and \<open>isinstance\<close>.\<close>

fun jget :: "json \<Rightarrow> string \<Rightarrow> json option" where
  "jget (JObj kvs) k = map_of kvs k"
| "jget _ k = None"

definition jget_or :: "json \<Rightarrow> json \<Rightarrow> string \<Rightarrow> json" where
  "jget_or d j k = (case jget j k of None \<Rightarrow> d | Some v \<Rightarrow> v)"

fun is_obj :: "json \<Rightarrow> bool" where "is_obj (JObj kvs) = True" | "is_obj _ = False"
fun is_list :: "json \<Rightarrow> bool" where "is_list (JList xs) = True" | "is_list _ = False"

text \<open>\<open>isinstance(x, int)\<close>, which a \<open>bool\<close> is too.\<close>

fun as_int :: "json \<Rightarrow> int option" where
  "as_int (JInt i) = Some i" | "as_int (JBool b) = Some (if b then 1 else 0)" | "as_int _ = None"

definition strict_int :: "json \<Rightarrow> int option" where
  "strict_int j = (case j of JInt i \<Rightarrow> Some i | _ \<Rightarrow> None)"

definition strict_num :: "json \<Rightarrow> rat option" where
  "strict_num j = (case j of JInt i \<Rightarrow> Some (of_int i) | JNum x \<Rightarrow> Some x | _ \<Rightarrow> None)"

fun truth :: "json \<Rightarrow> bool" where
  "truth JNull = False" | "truth (JBool b) = b" | "truth (JInt i) = (i \<noteq> 0)"
| "truth (JNum x) = (x \<noteq> 0)" | "truth (JStr s) = (s \<noteq> [])" | "truth (JList xs) = (xs \<noteq> [])"
| "truth (JObj kvs) = (kvs \<noteq> [])"

section \<open>Equality\<close>

fun canon :: "json \<Rightarrow> json" where
  "canon (JBool b) = JNum (if b then 1 else 0)"
| "canon (JInt i) = JNum (of_int i)"
| "canon (JList xs) = JList (map canon xs)"
| "canon (JObj kvs) = JObj (sort_key fst (map (\<lambda>(k, v). (k, canon v)) kvs))"
| "canon j = j"

definition py_eq :: "json \<Rightarrow> json \<Rightarrow> bool" where
  "py_eq a b \<longleftrightarrow> canon a = canon b"

lemma py_eq_refl [simp]: "py_eq a a" by (simp add: py_eq_def)
lemma py_eq_sym: "py_eq a b = py_eq b a" by (auto simp: py_eq_def)

section \<open>Writing\<close>

definition hex_digit :: "nat \<Rightarrow> char" where
  "hex_digit n = ''0123456789abcdef'' ! n"

definition json_escape_char :: "char \<Rightarrow> string" where
  "json_escape_char c =
     (let n = (of_char c :: nat)
      in if c = CHR 0x22 then [CHR 0x5C, CHR 0x22]
         else if c = CHR 0x5C then [CHR 0x5C, CHR 0x5C]
         else if n = 10 then [CHR 0x5C, CHR ''n'']
         else if n = 13 then [CHR 0x5C, CHR ''r'']
         else if n = 9 then [CHR 0x5C, CHR ''t'']
         else if n = 8 then [CHR 0x5C, CHR ''b'']
         else if n = 12 then [CHR 0x5C, CHR ''f'']
         else if 32 \<le> n \<and> n \<le> 126 then [c]
         else [CHR 0x5C, CHR ''u'', CHR ''0'', CHR ''0'', hex_digit (n div 16), hex_digit (n mod 16)])"

definition json_quote :: "string \<Rightarrow> string" where
  "json_quote s = CHR 0x22 # concat (map json_escape_char s) @ [CHR 0x22]"

text \<open>\<open>json.dumps\<close> with its separators and \<open>sort_keys\<close>; \<open>f\<close> prints a float.\<close>

record json_style =
  js_sort :: bool
  js_item :: string
  js_key :: string
  js_float :: "rat \<Rightarrow> string"

fun json_text :: "json_style \<Rightarrow> json \<Rightarrow> string" where
  "json_text st JNull = ''null''"
| "json_text st (JBool b) = (if b then ''true'' else ''false'')"
| "json_text st (JInt i) = str_of_int i"
| "json_text st (JNum x) = js_float st x"
| "json_text st (JStr s) = json_quote s"
| "json_text st (JList xs) = ''['' @ join (js_item st) (map (json_text st) xs) @ '']''"
| "json_text st (JObj kvs) =
     (let texts = map (\<lambda>(k, v). (k, json_text st v)) kvs;
          ordered = (if js_sort st then sort_key fst texts else texts)
      in ''{'' @ join (js_item st) (map (\<lambda>(k, t). json_quote k @ js_key st @ t) ordered) @ ''}'')"

text \<open>Compact with sorted keys, as the wire formats write; and the default style.\<close>

definition compact :: "(rat \<Rightarrow> string) \<Rightarrow> json_style" where
  "compact f = \<lparr>js_sort = True, js_item = '','', js_key = '':'', js_float = f\<rparr>"

definition spaced :: "(rat \<Rightarrow> string) \<Rightarrow> json_style" where
  "spaced f = \<lparr>js_sort = False, js_item = '', '', js_key = '': '', js_float = f\<rparr>"

text \<open>Quoting hides no character: a reader that undoes the escapes finds the string and stops at
  the closing quote.\<close>

definition hex_value :: "char \<Rightarrow> nat" where
  "hex_value c = (let n = (of_char c :: nat) in if n \<le> 57 then n - 48 else n - 87)"

fun unescape :: "string \<Rightarrow> (string \<times> string) option" where
  "unescape [] = None"
| "unescape (c # cs) =
     (if c = CHR 0x22 then Some ([], cs)
      else if c \<noteq> CHR 0x5C then map_option (\<lambda>(s, r). (c # s, r)) (unescape cs)
      else (case cs of
          [] \<Rightarrow> None
        | e # cs1 \<Rightarrow>
            if e = CHR ''u'' then (case cs1 of
                z0 # z1 # h # l # cs2 \<Rightarrow>
                  map_option (\<lambda>(s, r). (char_of (16 * hex_value h + hex_value l) # s, r)) (unescape cs2)
              | _ \<Rightarrow> None)
            else map_option (\<lambda>(s, r).
              ((if e = CHR ''n'' then CHR 0x0A else if e = CHR ''r'' then CHR 0x0D
                else if e = CHR ''t'' then CHR 0x09 else if e = CHR ''b'' then CHR 0x08
                else if e = CHR ''f'' then CHR 0x0C else e) # s, r)) (unescape cs1)))"

lemma hex_value_digit: "n < 16 \<Longrightarrow> hex_value (hex_digit n) = n"
proof -
  assume "n < 16"
  then have "n \<in> set [0..<16]" by simp
  then show ?thesis by (auto simp: upt_conv_Cons hex_digit_def hex_value_def)
qed

lemma control_codes:
  "(of_char c :: nat) = 10 \<longleftrightarrow> c = CHR 0x0A" "(of_char c :: nat) = 13 \<longleftrightarrow> c = CHR 0x0D"
  "(of_char c :: nat) = 9 \<longleftrightarrow> c = CHR 0x09" "(of_char c :: nat) = 8 \<longleftrightarrow> c = CHR 0x08"
  "(of_char c :: nat) = 12 \<longleftrightarrow> c = CHR 0x0C"
  using of_char_eq_iff [of c "CHR 0x0A", where 'a = nat] of_char_eq_iff [of c "CHR 0x0D", where 'a = nat]
    of_char_eq_iff [of c "CHR 0x09", where 'a = nat] of_char_eq_iff [of c "CHR 0x08", where 'a = nat]
    of_char_eq_iff [of c "CHR 0x0C", where 'a = nat]
  by (simp_all del: of_char_eq_iff)

lemma unescape_char:
  "unescape (json_escape_char c @ xs) = map_option (\<lambda>(s, r). (c # s, r)) (unescape xs)"
proof -
  let ?n = "of_char c :: nat"
  have n: "?n < 256" by simp
  then have "?n div 16 < 16" by (intro less_mult_imp_div_less) simp
  then have hex: "hex_value (hex_digit (?n div 16)) = ?n div 16" "hex_value (hex_digit (?n mod 16)) = ?n mod 16"
    by (simp_all add: hex_value_digit)
  have "char_of (16 * (?n div 16) + ?n mod 16) = c" by (simp only: mult_div_mod_eq) simp
  with hex show ?thesis by (simp add: json_escape_char_def Let_def control_codes)
qed

lemma unescape_quote: "unescape (concat (map json_escape_char s) @ CHR 0x22 # rest) = Some (s, rest)"
  by (induction s) (simp_all add: unescape_char)

end
