(* ===== verification/Wire.thy ===== *)
theory Wire
  imports Json Payload
begin

text \<open>
  From a message to request bytes: the form fields of \<open>blast/serialize.py\<close>, the wire formats of
  \<open>core/formats.py\<close> and the multipart encoder and request builder of \<open>core/transport.py\<close>. Text
  and bytes are both ASCII character lists, so encoding to UTF-8 is the identity. The SHA-256
  digest and the serialisation of a MIME message by the \<open>email\<close> package are parameters.
\<close>

section \<open>Form parts\<close>

datatype form_part = FormField (part_name: string) bytes
  | FormFile (part_name: string) string string bytes

abbreviation crlf :: string where "crlf \<equiv> [CHR 0x0D, CHR 0x0A]"

definition quoted :: "string \<Rightarrow> string" where
  "quoted s = CHR 0x22 # s @ [CHR 0x22]"

definition headers_text :: "string dict \<Rightarrow> string" where
  "headers_text hs = concat (map (\<lambda>(name, v). name @ '': '' @ v @ crlf) hs)"

definition compact_json :: "json \<Rightarrow> string" where
  "compact_json j = json_text (compact (\<lambda>_. [])) j"

definition envelope_json :: "email \<Rightarrow> string" where
  "envelope_json e = compact_json (JObj [(''to'', JList (map JStr (env_to (em_envelope e)))),
     (''from'', JStr (env_from_addr (em_envelope e)))])"

definition str_obj :: "string dict \<Rightarrow> json" where
  "str_obj d = JObj (map (\<lambda>(k, v). (k, JStr v)) d)"

definition charsets_json :: "email \<Rightarrow> string" where
  "charsets_json e = compact_json (str_obj (em_charsets e))"

definition numbered :: "'a list \<Rightarrow> (nat \<times> 'a) list" where
  "numbered xs = zip [1..<Suc (length xs)] xs"

definition attachment_field :: "nat \<Rightarrow> string" where
  "attachment_field i = ''attachment'' @ str_of_nat i"

definition attachment_info_json :: "email \<Rightarrow> string" where
  "attachment_info_json e = compact_json (JObj (map (\<lambda>(i, a). (attachment_field i,
     str_obj [(''filename'', at_filename a), (''type'', at_content_type a)])) (numbered (em_attachments e))))"

definition text_field :: "email \<Rightarrow> string \<Rightarrow> string \<Rightarrow> form_part" where
  "text_field e name v =
     FormField name (case map_of (em_raw_fields e) name of Some raw \<Rightarrow> raw | None \<Rightarrow> v)"

definition file_parts :: "email \<Rightarrow> form_part list" where
  "file_parts e = map (\<lambda>(i, a). FormFile (attachment_field i) (at_filename a) (at_content_type a)
     (at_content a)) (numbered (em_attachments e))"

definition extra_parts :: "email \<Rightarrow> form_part list" where
  "extra_parts e = map (\<lambda>(name, v). FormField name v) (em_extra_form_fields e)"

definition to_multipart_parts :: "email \<Rightarrow> form_part list" where
  "to_multipart_parts e =
     [text_field e ''headers'' (headers_text (em_headers e)),
      text_field e ''to'' (em_to e),
      text_field e ''from'' (em_from_addr e),
      text_field e ''subject'' (em_subject e),
      text_field e ''text'' (em_text e),
      text_field e ''html'' (em_html e),
      text_field e ''envelope'' (envelope_json e),
      text_field e ''charsets'' (charsets_json e),
      FormField ''attachments'' (str_of_nat (length (em_attachments e)))] @
     (if em_attachments e \<noteq> [] then [text_field e ''attachment-info'' (attachment_info_json e)] else []) @
     file_parts e @ extra_parts e"

section \<open>Multipart bodies\<close>

definition DEFAULT_BOUNDARY :: string where "DEFAULT_BOUNDARY = ''----testinghq-boundary-2f6a9c''"

definition part_head :: "form_part \<Rightarrow> string" where
  "part_head p =
     (case p of
        FormFile name filename ctype content \<Rightarrow>
          ''Content-Disposition: form-data; name='' @ quoted name @ ''; filename='' @ quoted filename @ crlf @
          ''Content-Type: '' @ (if ctype \<noteq> [] then ctype else ''application/octet-stream'')
      | FormField name v \<Rightarrow>
          ''Content-Disposition: form-data'' @ (if name \<noteq> [] then ''; name='' @ quoted name else []))"

fun part_content :: "form_part \<Rightarrow> bytes" where
  "part_content (FormField name v) = v"
| "part_content (FormFile name filename ctype content) = content"

definition encode_part :: "string \<Rightarrow> form_part \<Rightarrow> bytes" where
  "encode_part boundary p =
     ''--'' @ boundary @ crlf @ part_head p @ crlf @ crlf @ part_content p @ crlf"

definition encode_multipart :: "form_part list \<Rightarrow> string \<Rightarrow> bytes" where
  "encode_multipart parts boundary =
     concat (map (encode_part boundary) parts) @ ''--'' @ boundary @ ''--'' @ crlf"

section \<open>SendGrid\<close>

record wire_lib =
  wl_sha256_hex :: "string \<Rightarrow> string"
  wl_mime_bytes :: "string \<Rightarrow> (string \<times> string) list \<times> string \<times> string option \<times>
    (string \<times> string \<times> string \<times> bytes) list \<Rightarrow> bytes"

record encoded_body =
  eb_body :: bytes
  eb_content_type :: string

definition SENDGRID_SYNTHETIC :: "string dict" where
  "SENDGRID_SYNTHETIC = [(''dkim'', ''{@example.com : pass}''), (''SPF'', ''pass''),
     (''sender_ip'', ''192.0.2.1''), (''spam_score'', ''0.0''), (''spam_report'', '''')]"

definition synthetic :: "string \<Rightarrow> form_part" where
  "synthetic name = FormField name (the (map_of SENDGRID_SYNTHETIC name))"

definition content_id :: "wire_lib \<Rightarrow> nat \<Rightarrow> attachment \<Rightarrow> string option" where
  "content_id L i a =
     (if \<not> prefix ''image/'' (casefold (at_content_type a)) then None
      else Some (''ii_'' @ take 16 (wl_sha256_hex L (str_of_nat i @ '':'' @ at_filename a))))"

definition content_ids :: "wire_lib \<Rightarrow> email \<Rightarrow> string dict" where
  "content_ids L e = foldl (\<lambda>d (i, a). case content_id L i a of None \<Rightarrow> d
     | Some cid \<Rightarrow> AList.update cid (attachment_field i) d) [] (numbered (em_attachments e))"

definition attachment_info :: "wire_lib \<Rightarrow> email \<Rightarrow> json" where
  "attachment_info L e = JObj (map (\<lambda>(i, a). (attachment_field i,
     str_obj ([(''filename'', at_filename a), (''name'', at_filename a), (''type'', at_content_type a)] @
       (case content_id L i a of None \<Rightarrow> [] | Some cid \<Rightarrow> [(''content-id'', cid)]))))
     (numbered (em_attachments e)))"

definition set_default :: "string \<Rightarrow> string \<Rightarrow> string dict \<Rightarrow> string dict" where
  "set_default k v d = (if map_of d k = None then AList.update k v d else d)"

definition sendgrid_charsets :: "email \<Rightarrow> string list option \<Rightarrow> string" where
  "sendgrid_charsets e ks =
     (let charsets = set_default ''text'' ''UTF-8'' (em_charsets e)
      in compact_json (str_obj (case ks of None \<Rightarrow> charsets
           | Some ns \<Rightarrow> map (\<lambda>k. (k, case map_of charsets k of Some c \<Rightarrow> c | None \<Rightarrow> ''UTF-8'')) ns)))"

fun first_header :: "string dict \<Rightarrow> string \<Rightarrow> string option" where
  "first_header [] name = None"
| "first_header ((k, v) # hs) name =
     (if casefold k = casefold name then Some v else first_header hs name)"

definition header_or_empty :: "email \<Rightarrow> string \<Rightarrow> string" where
  "header_or_empty e name = (case first_header (em_headers e) name of Some v \<Rightarrow> v | None \<Rightarrow> [])"

text \<open>\<open>base\<close>: the serializer's parts by name, a later part of a name in place of an earlier.\<close>

definition base_parts :: "email \<Rightarrow> (string \<times> form_part) list" where
  "base_parts e = foldl (\<lambda>d p. AList.update (part_name p) p d) [] (to_multipart_parts e)"

definition base_part :: "email \<Rightarrow> string \<Rightarrow> form_part" where
  "base_part e name = the (map_of (base_parts e) name)"

definition is_file :: "form_part \<Rightarrow> bool" where
  "is_file p = (case p of FormFile name filename ctype content \<Rightarrow> True | FormField name v \<Rightarrow> False)"

definition sendgrid_parts :: "wire_lib \<Rightarrow> email \<Rightarrow> form_part list" where
  "sendgrid_parts L e =
     [base_part e ''headers'', synthetic ''dkim'',
      FormField ''content-ids'' (compact_json (str_obj (content_ids L e))),
      base_part e ''to'', FormField ''cc'' (header_or_empty e ''Cc''), base_part e ''from'',
      base_part e ''subject'', base_part e ''text'', base_part e ''html'',
      synthetic ''sender_ip'', synthetic ''spam_report'', synthetic ''spam_score'',
      base_part e ''envelope'', FormField ''charsets'' (sendgrid_charsets e None),
      synthetic ''SPF'', base_part e ''attachments''] @
     (if em_attachments e \<noteq> [] then [FormField ''attachment-info'' (compact_json (attachment_info L e))]
      else []) @
     filter is_file (to_multipart_parts e) @ extra_parts e"

definition form_body :: "string \<Rightarrow> form_part list \<Rightarrow> encoded_body" where
  "form_body boundary parts = \<lparr>eb_body = encode_multipart parts boundary,
     eb_content_type = ''multipart/form-data; boundary='' @ boundary\<rparr>"

section \<open>The other formats\<close>

definition NOT_COPIED_HEADERS :: "string list" where
  "NOT_COPIED_HEADERS = [''content-type'', ''content-transfer-encoding'', ''mime-version'',
     ''content-length'', ''to'', ''from'', ''subject'']"

text \<open>\<open>MimeFormat.message\<close>: the headers set, in order, the plain body, the HTML alternative and
  the attachments with their split content types.\<close>

definition mime_headers :: "email \<Rightarrow> (string \<times> string) list" where
  "mime_headers e = [(''To'', em_to e), (''From'', em_from_addr e), (''Subject'', em_subject e)] @
     filter (\<lambda>(name, v). casefold name \<notin> set NOT_COPIED_HEADERS) (em_headers e)"

definition split_type :: "string \<Rightarrow> string \<times> string" where
  "split_type t =
     (let main = takeWhile (\<lambda>c. c \<noteq> CHR ''/'') t; sub = drop (length main + 1) t
      in (if main = [] then ''application'' else main, if sub = [] then ''octet-stream'' else sub))"

definition mime_message_bytes :: "wire_lib \<Rightarrow> string \<Rightarrow> email \<Rightarrow> bytes" where
  "mime_message_bytes L boundary e = wl_mime_bytes L boundary
     (mime_headers e, em_text e, (if em_html e = [] then None else Some (em_html e)),
      map (\<lambda>a. case split_type (at_content_type a) of (m, s) \<Rightarrow> (m, s, at_filename a, at_content a))
        (em_attachments e))"

definition sendgrid_raw_parts :: "wire_lib \<Rightarrow> string \<Rightarrow> email \<Rightarrow> form_part list" where
  "sendgrid_raw_parts L boundary e =
     (let inner = ''mime-'' @ take 24 (wl_sha256_hex L boundary)
      in [synthetic ''dkim'', FormField ''email'' (mime_message_bytes L inner e),
          FormField ''to'' (em_to e), FormField ''from'' (em_from_addr e), synthetic ''sender_ip'',
          synthetic ''spam_report'', FormField ''envelope'' (envelope_json e),
          FormField ''subject'' (em_subject e), synthetic ''spam_score'',
          FormField ''charsets'' (sendgrid_charsets e (Some [''to'', ''from'', ''subject''])),
          synthetic ''SPF''])"

definition mailgun_parts :: "string dict option \<Rightarrow> email \<Rightarrow> form_part list" where
  "mailgun_parts signature e =
     [FormField ''recipient'' (em_to e), FormField ''sender'' (env_from_addr (em_envelope e)),
      FormField ''from'' (em_from_addr e), FormField ''subject'' (em_subject e),
      FormField ''body-plain'' (em_text e), FormField ''body-html'' (em_html e),
      FormField ''message-headers'' (json_text (spaced (\<lambda>_. []))
        (JList (map (\<lambda>(name, v). JList [JStr name, JStr v]) (em_headers e))))] @
     (if em_attachments e \<noteq> []
      then [FormField ''attachment-count'' (str_of_nat (length (em_attachments e)))] else []) @
     (case signature of None \<Rightarrow> [] | Some signed \<Rightarrow>
        map (\<lambda>k. FormField k (the (map_of signed k))) [''timestamp'', ''token'', ''signature'']) @
     map (\<lambda>(i, a). FormFile (''attachment-'' @ str_of_nat i) (at_filename a) (at_content_type a)
       (at_content a)) (numbered (em_attachments e))"

text \<open>\<open>MailgunFormat.__init__\<close> refuses signature fields that are not complete.\<close>

definition new_mailgun :: "string dict option \<Rightarrow> string list + string dict option" where
  "new_mailgun signature =
     (case signature of None \<Rightarrow> Inr None
      | Some signed \<Rightarrow>
          (let missing = filter (\<lambda>k. map_of signed k = None) [''signature'', ''timestamp'', ''token'']
           in if missing \<noteq> [] then Inl missing else Inr (Some signed)))"

definition base64_digit :: "nat \<Rightarrow> char" where
  "base64_digit n = ''ABCDEFGHIJKLMNOPQRSTUVWXYZabcdefghijklmnopqrstuvwxyz0123456789+/'' ! (n mod 64)"

fun base64 :: "bytes \<Rightarrow> string" where
  "base64 [] = []"
| "base64 [a] = (let n = (of_char a :: nat) * 16
     in [base64_digit (n div 64), base64_digit n, CHR ''='', CHR ''=''])"
| "base64 [a, b] = (let n = ((of_char a :: nat) * 256 + of_char b) * 4
     in [base64_digit (n div 4096), base64_digit (n div 64), base64_digit n, CHR ''=''])"
| "base64 (a # b # c # bs) = (let n = ((of_char a :: nat) * 256 + of_char b) * 256 + of_char c
     in [base64_digit (n div 262144), base64_digit (n div 4096), base64_digit (n div 64), base64_digit n] @
       base64 bs)"

definition postmark_document :: "email \<Rightarrow> json" where
  "postmark_document e = JObj
     [(''From'', JStr (em_from_addr e)), (''To'', JStr (em_to e)), (''Cc'', JStr []), (''Bcc'', JStr []),
      (''Subject'', JStr (em_subject e)), (''MessageID'', JStr (header_or_empty e ''Message-Id'')),
      (''Headers'', JList (map (\<lambda>(name, v). str_obj [(''Name'', name), (''Value'', v)]) (em_headers e))),
      (''HtmlBody'', JStr (em_html e)), (''TextBody'', JStr (em_text e)), (''ReplyTo'', JStr []),
      (''StrippedTextReply'', JStr []),
      (''Attachments'', JList (map (\<lambda>a. JObj [(''Name'', JStr (at_filename a)),
         (''ContentType'', JStr (at_content_type a)), (''ContentLength'', JInt (int (length (at_content a)))),
         (''Content'', JStr (base64 (at_content a)))]) (em_attachments e)))]"

section \<open>The registry\<close>

definition format_names :: "string list" where
  "format_names = [''mailgun'', ''mime'', ''postmark'', ''sendgrid'', ''sendgrid-raw'']"

definition get_format :: "wire_lib \<Rightarrow> string \<Rightarrow> string \<Rightarrow> string + (email \<Rightarrow> encoded_body)" where
  "get_format L name boundary =
     (if name = ''sendgrid'' then Inr (\<lambda>e. form_body boundary (sendgrid_parts L e))
      else if name = ''sendgrid-raw'' then Inr (\<lambda>e. form_body boundary (sendgrid_raw_parts L boundary e))
      else if name = ''mailgun'' then Inr (\<lambda>e. form_body boundary (mailgun_parts None e))
      else if name = ''postmark''
      then Inr (\<lambda>e. \<lparr>eb_body = compact_json (postmark_document e), eb_content_type = ''application/json''\<rparr>)
      else if name = ''mime''
      then Inr (\<lambda>e. \<lparr>eb_body = mime_message_bytes L boundary e, eb_content_type = ''message/rfc822''\<rparr>)
      else Inl name)"

section \<open>The request\<close>

record prepared_request =
  pr_url :: string
  pr_method :: string
  pr_headers :: "string dict"
  pr_body :: bytes
  pr_timeout :: seconds

text \<open>What a header hook returns: no \<open>dict\<close>, or one of names and values of any type.\<close>

datatype hook_reply = NotADict pyval | HookDict "(pyval \<times> pyval) list"

datatype request_error = HookNotDict pyval | HookNotStrings pyval pyval | HookReplaces string

fun add_headers :: "(pyval \<times> pyval) list \<Rightarrow> string dict \<Rightarrow> request_error + string dict" where
  "add_headers [] headers = Inr headers"
| "add_headers ((n, v) # supplied) headers =
     (case (n, v) of
        (PStr name, PStr value) \<Rightarrow>
          if map_of headers name \<noteq> None then Inl (HookReplaces name)
          else add_headers supplied (AList.update name value headers)
      | _ \<Rightarrow> Inl (HookNotStrings n v))"

definition build_request ::
  "(email \<Rightarrow> encoded_body) \<Rightarrow> (bytes \<Rightarrow> hook_reply) option \<Rightarrow> string \<Rightarrow> seconds \<Rightarrow> email \<Rightarrow>
     request_error + prepared_request"
where
  "build_request encode hook url timeout e =
     (let encoded = encode e;
          headers = [(''Content-Type'', eb_content_type encoded),
            (''Content-Length'', str_of_nat (length (eb_body encoded)))];
          added = (case hook of None \<Rightarrow> Inr headers
            | Some f \<Rightarrow> (case f (eb_body encoded) of NotADict x \<Rightarrow> Inl (HookNotDict x)
                | HookDict supplied \<Rightarrow> add_headers supplied headers))
      in case added of Inl err \<Rightarrow> Inl err
         | Inr hs \<Rightarrow> Inr \<lparr>pr_url = url, pr_method = ''POST'', pr_headers = hs,
             pr_body = eb_body encoded, pr_timeout = timeout\<rparr>)"

section \<open>Reading a form back\<close>

text \<open>A reference reader of multipart bodies: cut at every delimiter, then read the header lines and
  the content of each part.\<close>

fun cut :: "string \<Rightarrow> string \<Rightarrow> (string \<times> string) option" where
  "cut d s = (if prefix d s then Some ([], drop (length d) s)
     else case s of [] \<Rightarrow> None | c # cs \<Rightarrow> map_option (\<lambda>(a, b). (c # a, b)) (cut d cs))"

declare cut.simps [simp del]

definition delimiter :: "string \<Rightarrow> string" where
  "delimiter boundary = crlf @ ''--'' @ boundary"

definition name_at :: "string \<Rightarrow> string \<Rightarrow> (string \<times> string) option" where
  "name_at key s =
     (let lead = ''; '' @ key @ ''='' @ [CHR 0x22]
      in if prefix lead s then cut [CHR 0x22] (drop (length lead) s) else None)"

definition read_part :: "string \<Rightarrow> form_part option" where
  "read_part s =
     (case cut crlf s of
        Some (l1, rest) \<Rightarrow>
          (if \<not> prefix ''Content-Disposition: form-data'' l1 then None
           else (let params = drop 30 l1 in
             if params = [] then map_option (FormField []) (map_option snd (cut crlf rest))
             else (case name_at ''name'' params of
                None \<Rightarrow> None
              | Some (name, []) \<Rightarrow> map_option (FormField name) (map_option snd (cut crlf rest))
              | Some (name, behind) \<Rightarrow>
                  (case (name_at ''filename'' behind, cut crlf rest) of
                     (Some (filename, []), Some (l2, rest2)) \<Rightarrow>
                       map_option (FormFile name filename (drop 14 l2)) (map_option snd (cut crlf rest2))
                   | _ \<Rightarrow> None))))
      | None \<Rightarrow> None)"

text \<open>\<open>fuel\<close> bounds the parts to read; the length of the body is always enough.\<close>

fun read_parts :: "nat \<Rightarrow> string \<Rightarrow> string \<Rightarrow> form_part list option" where
  "read_parts 0 boundary s = None"
| "read_parts (Suc fuel) boundary s =
     (if s = ''--'' @ crlf then Some []
      else if \<not> prefix crlf s then None
      else (case cut (delimiter boundary) (drop 2 s) of
          None \<Rightarrow> None
        | Some (text, rest) \<Rightarrow>
            (case (read_part text, read_parts fuel boundary rest) of
               (Some p, Some ps) \<Rightarrow> Some (p # ps) | _ \<Rightarrow> None)))"

definition decode_multipart :: "string \<Rightarrow> bytes \<Rightarrow> form_part list option" where
  "decode_multipart boundary body =
     (if prefix (''--'' @ boundary) body
      then read_parts (length body) boundary (drop (length boundary + 2) body) else None)"

text \<open>What the reader relies on: a header line has no line break, a name no quote, and the
  delimiter does not occur in the part.\<close>

definition part_text :: "form_part \<Rightarrow> string" where
  "part_text p = part_head p @ crlf @ crlf @ part_content p"

definition plain_name :: "string \<Rightarrow> bool" where
  "plain_name s \<longleftrightarrow> CHR 0x0D \<notin> set s \<and> CHR 0x22 \<notin> set s"

definition wire_safe :: "string \<Rightarrow> form_part \<Rightarrow> bool" where
  "wire_safe boundary p \<longleftrightarrow> \<not> sublist (delimiter boundary) (part_text p) \<and>
     (case p of FormField name v \<Rightarrow> plain_name name
      | FormFile name filename ctype content \<Rightarrow>
          plain_name name \<and> plain_name filename \<and> CHR 0x0D \<notin> set ctype)"

fun as_read :: "form_part \<Rightarrow> form_part" where
  "as_read (FormField name v) = FormField name v"
| "as_read (FormFile name filename ctype content) =
     FormFile name filename (if ctype \<noteq> [] then ctype else ''application/octet-stream'') content"

text \<open>A delimiter whose first character does not come back is found at the end of a text without
  it.\<close>

lemma cut_at:
  assumes "d \<noteq> []" "hd d \<notin> set (tl d)" "\<not> sublist d a"
  shows "cut d (a @ d @ b) = Some (a, b)"
  using assms(3)
proof (induction a)
  case Nil
  then show ?case by (subst cut.simps) simp
next
  case (Cons c a)
  have "\<not> prefix d (c # a @ d @ b)"
  proof
    assume p: "prefix d (c # a @ d @ b)"
    show False
    proof (cases "length d \<le> length (c # a)")
      case True
      then have "prefix d (c # a)" using p
        by (metis append_Cons prefix_length_prefix prefixI)
      then show False using Cons.prems by (simp add: prefix_imp_sublist)
    next
      case False
      let ?n = "length (c # a)"
      obtain zs where z: "(c # a) @ d @ b = d @ zs" using p by (auto elim: prefixE)
      have "d ! ?n = (d @ zs) ! ?n" using False by (simp add: nth_append)
      also have "\<dots> = (d @ b) ! 0" unfolding z [symmetric] using nth_append_length_plus [of "c # a" "d @ b" 0] by simp
      also have "\<dots> = hd d" using assms(1) by (cases d) simp_all
      finally have "d ! ?n = hd d" .
      moreover have "d ! ?n \<in> set (tl d)" using False assms(1) by (cases d) auto
      ultimately show False using assms(2) by simp
    qed
  qed
  moreover have "\<not> sublist d a" using Cons.prems by (meson sublist_Cons_right)
  ultimately show ?case using Cons.IH by (subst cut.simps) simp
qed

lemma cut_line: "CHR 0x0D \<notin> set a \<Longrightarrow> cut crlf (a @ crlf @ b) = Some (a, b)"
  by (rule cut_at) (auto dest: set_mono_sublist)

lemma cut_quote:
  assumes "CHR 0x22 \<notin> set a"
  shows "cut [CHR 0x22] (a @ CHR 0x22 # b) = Some (a, b)"
proof -
  have "\<not> sublist [CHR 0x22] a" using assms set_mono_sublist by fastforce
  then show ?thesis using cut_at [of "[CHR 0x22]" a b] by simp
qed

lemma name_at_quoted: "plain_name n \<Longrightarrow> name_at key (''; '' @ key @ ''='' @ quoted n @ behind) = Some (n, behind)"
  by (simp add: name_at_def quoted_def plain_name_def cut_quote)

lemma read_part_text:
  assumes "wire_safe boundary p"
  shows "read_part (part_text p) = Some (as_read p)"
proof (cases p)
  case (FormField name v)
  let ?line = "''Content-Disposition: form-data'' @ (if name \<noteq> [] then ''; name='' @ quoted name else [])"
  have name: "plain_name name" using assms FormField by (simp add: wire_safe_def)
  then have "CHR 0x0D \<notin> set ?line" by (simp add: quoted_def plain_name_def)
  from cut_line [OF this, of "crlf @ v"] have "cut crlf (part_text p) = Some (?line, crlf @ v)"
    by (simp add: part_text_def part_head_def FormField)
  moreover have "cut crlf (crlf @ v) = Some ([], v)" using cut_line [of "[]" v] by simp
  ultimately show ?thesis using name name_at_quoted [OF name, of "''name''" "[]"] FormField
    by (simp add: read_part_def Let_def)
next
  case (FormFile name filename ctype content)
  let ?line = "''Content-Disposition: form-data; name='' @ quoted name @ ''; filename='' @ quoted filename"
  let ?type = "if ctype \<noteq> [] then ctype else ''application/octet-stream''"
  have names: "plain_name name" "plain_name filename" "CHR 0x0D \<notin> set ctype"
    using assms FormFile by (simp_all add: wire_safe_def)
  then have "CHR 0x0D \<notin> set ?line" by (simp add: quoted_def plain_name_def)
  from cut_line [OF this, of "(''Content-Type: '' @ ?type) @ crlf @ crlf @ content"]
  have l1: "cut crlf (part_text p) = Some (?line, (''Content-Type: '' @ ?type) @ crlf @ crlf @ content)"
    by (simp add: part_text_def part_head_def FormFile)
  have l2: "cut crlf ((''Content-Type: '' @ ?type) @ crlf @ crlf @ content) =
      Some (''Content-Type: '' @ ?type, crlf @ content)"
    using names(3) by (intro cut_line) simp
  have l3: "cut crlf (crlf @ content) = Some ([], content)" using cut_line [of "[]" content] by simp
  show ?thesis
    using l1 l2 l3 names name_at_quoted [OF names(1), of "''name''" "''; filename='' @ quoted filename"]
      name_at_quoted [OF names(2), of "''filename''" "[]"] FormFile
    by (simp add: read_part_def Let_def)
qed

lemma read_parts_encoded:
  assumes "list_all (wire_safe boundary) parts" "CHR 0x0D \<notin> set boundary" "length parts < fuel"
  shows "read_parts fuel boundary
      (concat (map (\<lambda>p. crlf @ part_text p @ delimiter boundary) parts) @ ''--'' @ crlf) =
    Some (map as_read parts)"
  using assms
proof (induction parts arbitrary: fuel)
  case Nil
  then show ?case by (cases fuel) simp_all
next
  case (Cons p parts)
  obtain f where f: "fuel = Suc f" "length parts < f" using Cons.prems(3) by (cases fuel) auto
  let ?rest = "concat (map (\<lambda>p. crlf @ part_text p @ delimiter boundary) parts) @ ''--'' @ crlf"
  have "\<not> sublist (delimiter boundary) (part_text p)" using Cons.prems(1) by (simp add: wire_safe_def)
  then have "cut (delimiter boundary) (part_text p @ delimiter boundary @ ?rest) = Some (part_text p, ?rest)"
    using Cons.prems(2) by (intro cut_at) (auto simp: delimiter_def)
  then show ?case using Cons f read_part_text [of boundary p] by simp
qed

section \<open>Facts about the SendGrid form\<close>

definition BASE_NAMES :: "string list" where
  "BASE_NAMES = [''headers'', ''to'', ''from'', ''subject'', ''text'', ''html'', ''envelope'', ''attachments'']"

lemma find_append: "find P (xs @ ys) = (case find P xs of None \<Rightarrow> find P ys | Some x \<Rightarrow> Some x)"
  by (induction xs) simp_all

lemma update_fresh: "map_of xs k = None \<Longrightarrow> AList.update k v xs = xs @ [(k, v)]"
  by (induction xs) (auto split: if_splits)

lemma add_headers_Inr:
  assumes "add_headers supplied headers = Inr hs" "distinct (map fst headers)"
  shows "\<exists>added. hs = headers @ added \<and> supplied = map (\<lambda>(n, v). (PStr n, PStr v)) added \<and>
    distinct (map fst hs)"
  using assms
proof (induction supplied headers rule: add_headers.induct)
  case (2 n v supplied headers)
  have "\<exists>name val. n = PStr name \<and> v = PStr val \<and> map_of headers name = None \<and>
      add_headers supplied (AList.update name val headers) = Inr hs"
    using 2(2) by (cases n; cases v) (simp_all split: if_splits)
  then obtain name val where nv: "n = PStr name" "v = PStr val" "map_of headers name = None"
    "add_headers supplied (AList.update name val headers) = Inr hs" by blast
  then have "distinct (map fst (headers @ [(name, val)]))" using 2(3) by (auto simp: map_of_eq_None_iff)
  then obtain added where "hs = (headers @ [(name, val)]) @ added" "distinct (map fst hs)"
    "supplied = map (\<lambda>(n, v). (PStr n, PStr v)) added"
    using 2(1) [OF refl nv(1,2)] nv by (auto simp: update_fresh)
  then show ?case using nv by (intro exI [of _ "(name, val) # added"]) simp
qed simp

lemma map_of_by_name:
  "map_of (foldl (\<lambda>d p. AList.update (part_name p) p d) d0 ps) n =
     (case find (\<lambda>p. part_name p = n) (rev ps) of Some p \<Rightarrow> Some p | None \<Rightarrow> map_of d0 n)"
proof (induction ps rule: rev_induct)
  case (snoc p ps)
  then show ?case by (simp add: update_conv')
qed simp

lemma base_part_last:
  "to_multipart_parts e = xs @ p # ys \<Longrightarrow> part_name p = n \<Longrightarrow> \<forall>q \<in> set ys. part_name q \<noteq> n \<Longrightarrow>
     base_part e n = p"
proof -
  assume a: "to_multipart_parts e = xs @ p # ys" "part_name p = n" "\<forall>q \<in> set ys. part_name q \<noteq> n"
  then have "find (\<lambda>p. part_name p = n) (rev ys) = None" by (simp add: find_None_iff)
  then have "find (\<lambda>p. part_name p = n) (rev (to_multipart_parts e)) = Some p"
    using a by (simp add: find_append)
  then show ?thesis by (simp add: base_part_def base_parts_def map_of_by_name)
qed

lemma attachment_field_new: "attachment_field i \<notin> set BASE_NAMES" "attachment_field i \<noteq> ''charsets''"
  "attachment_field i \<noteq> ''attachment-info''"
proof -
  have "CHR ''s'' \<notin> set (str_of_nat i)" "CHR ''-'' \<notin> set (str_of_nat i)"
    using str_of_nat_digits [of i] by (auto simp: is_digit_def)
  then have "str_of_nat i \<noteq> ''s''" "str_of_nat i \<noteq> ''-info''" by auto
  then show "attachment_field i \<notin> set BASE_NAMES" "attachment_field i \<noteq> ''charsets''"
    "attachment_field i \<noteq> ''attachment-info''"
    by (simp_all add: attachment_field_def BASE_NAMES_def)
qed

lemma file_part_names: "q \<in> set (file_parts e) \<Longrightarrow> \<exists>i. part_name q = attachment_field i"
  by (auto simp: file_parts_def)

lemma extra_part_names: "q \<in> set (extra_parts e) \<Longrightarrow> part_name q \<in> fst ` set (em_extra_form_fields e)"
  by (force simp: extra_parts_def)

lemma filter_files: "filter is_file (to_multipart_parts e) = file_parts e"
proof -
  have "filter is_file (file_parts e) = file_parts e"
    by (rule filter_True) (auto simp: file_parts_def is_file_def)
  moreover have "filter is_file (extra_parts e) = []"
    by (rule filter_False) (auto simp: extra_parts_def is_file_def)
  ultimately show ?thesis
    by (simp add: to_multipart_parts_def text_field_def is_file_def)
qed

text \<open>A message with one attachment and a second subject.\<close>

definition sample_post :: email where
  "sample_post = sample_email\<lparr>em_attachments := [\<lparr>at_filename = ''a.png'', at_content_type = ''image/png'',
     at_content = ''PNG''\<rparr>], em_extra_form_fields := [(''subject'', ''Second'')]\<rparr>"

definition sample_lib :: wire_lib where
  "sample_lib = \<lparr>wl_sha256_hex = (\<lambda>s. replicate 64 CHR ''0''), wl_mime_bytes = (\<lambda>b m. [])\<rparr>"

section \<open>Properties\<close>

text \<open>C38 (a form reads back as it was built). Whatever the parts - raw bytes, files, fields with no
  name - a reader that cuts the body at the boundary finds the same parts in the same order
  with the same names, file names and exact bytes, an empty content type having become
  \<open>application/octet-stream\<close>; provided the boundary line does not occur in a part, a header line
  has no line break and a name no quote.\<close>

theorem multipart_reads_back:
  assumes "list_all (wire_safe boundary) parts" "CHR 0x0D \<notin> set boundary"
  shows "decode_multipart boundary (encode_multipart parts boundary) = Some (map as_read parts)"
proof -
  let ?body = "concat (map (\<lambda>p. crlf @ part_text p @ delimiter boundary) parts) @ ''--'' @ crlf"
  have "concat (map (encode_part boundary) ps) @ ''--'' @ boundary @ tail =
      ''--'' @ boundary @ concat (map (\<lambda>p. crlf @ part_text p @ delimiter boundary) ps) @ tail" for ps tail
    by (induction ps) (simp_all add: encode_part_def part_text_def delimiter_def)
  then have body: "encode_multipart parts boundary = (''--'' @ boundary) @ ?body"
    by (simp add: encode_multipart_def)
  have "length parts \<le> length (concat (map (\<lambda>p. crlf @ part_text p @ delimiter boundary) parts))"
    by (induction parts) auto
  then have "length parts < length (encode_multipart parts boundary)" by (simp add: body)
  from read_parts_encoded [OF assms this] show ?thesis by (simp add: decode_multipart_def body)
qed

theorem multipart_reads_back_witness:
  "decode_multipart ''b7'' (encode_multipart [FormField ''to'' ''in@example.com'', FormField [] ''--b'',
      FormFile ''attachment1'' ''a.bin'' [] (crlf @ ''x'')] ''b7'') =
    Some [FormField ''to'' ''in@example.com'', FormField [] ''--b'',
      FormFile ''attachment1'' ''a.bin'' ''application/octet-stream'' (crlf @ ''x'')]"
proof -
  have "list_all (wire_safe ''b7'') [FormField ''to'' ''in@example.com'', FormField [] ''--b'',
      FormFile ''attachment1'' ''a.bin'' [] (crlf @ ''x'')]"
    by code_simp
  from multipart_reads_back [OF this] show ?thesis by simp
qed

text \<open>The SendGrid form. When no extra field takes a standard name, the form has SendGrid's
  documented fields in order, each once, the message's own value or its raw override in each;
  then the attachment data and the files numbered from 1, then the extra fields; and the field
  count it declares is the number of files.\<close>

theorem sendgrid_form:
  assumes "\<forall>(n, v) \<in> set (em_extra_form_fields e). n \<notin> set BASE_NAMES"
  shows "sendgrid_parts L e =
     [text_field e ''headers'' (headers_text (em_headers e)), synthetic ''dkim'',
      FormField ''content-ids'' (compact_json (str_obj (content_ids L e))),
      text_field e ''to'' (em_to e), FormField ''cc'' (header_or_empty e ''Cc''),
      text_field e ''from'' (em_from_addr e), text_field e ''subject'' (em_subject e),
      text_field e ''text'' (em_text e), text_field e ''html'' (em_html e),
      synthetic ''sender_ip'', synthetic ''spam_report'', synthetic ''spam_score'',
      text_field e ''envelope'' (envelope_json e), FormField ''charsets'' (sendgrid_charsets e None),
      synthetic ''SPF'', FormField ''attachments'' (str_of_nat (length (file_parts e)))] @
     (if em_attachments e \<noteq> [] then [FormField ''attachment-info'' (compact_json (attachment_info L e))]
      else []) @ file_parts e @ extra_parts e"
proof -
  define tail where "tail = (if em_attachments e \<noteq> []
    then [text_field e ''attachment-info'' (attachment_info_json e)] else []) @ file_parts e @ extra_parts e"
  have extra: "part_name q \<notin> set BASE_NAMES" if "q \<in> set (extra_parts e)" for q
    using extra_part_names [OF that] assms by auto
  have tail: "\<forall>q \<in> set tail. part_name q \<notin> set BASE_NAMES"
    using extra file_part_names attachment_field_new(1)
    by (fastforce simp: tail_def text_field_def BASE_NAMES_def split: if_splits)
  define base where "base = [text_field e ''headers'' (headers_text (em_headers e)), text_field e ''to'' (em_to e),
      text_field e ''from'' (em_from_addr e), text_field e ''subject'' (em_subject e),
      text_field e ''text'' (em_text e), text_field e ''html'' (em_html e),
      text_field e ''envelope'' (envelope_json e), text_field e ''charsets'' (charsets_json e),
      FormField ''attachments'' (str_of_nat (length (em_attachments e)))]"
  have parts: "to_multipart_parts e = base @ tail" by (simp add: to_multipart_parts_def tail_def base_def)
  have names: "part_name (text_field e n v) = n" for n v by (simp add: text_field_def)
  then have map_names: "map part_name base =
      [''headers'', ''to'', ''from'', ''subject'', ''text'', ''html'', ''envelope'', ''charsets'', ''attachments'']"
    by (simp add: base_def)
  then have dist: "distinct (map part_name base)" by simp
  have len: "length base = 9" by (simp add: base_def)
  have nth: "base_part e (part_name (base ! i)) = base ! i" if "i < 9" "part_name (base ! i) \<in> set BASE_NAMES" for i
  proof (rule base_part_last)
    show "to_multipart_parts e = take i base @ base ! i # (drop (Suc i) base @ tail)"
      using that len by (simp add: parts id_take_nth_drop [symmetric])
    have "part_name (base ! i) \<notin> set (map part_name (drop (Suc i) base))"
      using dist that len by (auto simp: in_set_conv_nth distinct_conv_nth)
    then show "\<forall>q \<in> set (drop (Suc i) base @ tail). part_name q \<noteq> part_name (base ! i)"
      using tail that(2) by (force intro: rev_image_eqI)
  qed simp
  have at: "base ! 0 = text_field e ''headers'' (headers_text (em_headers e))" "base ! 1 = text_field e ''to'' (em_to e)"
    "base ! 2 = text_field e ''from'' (em_from_addr e)" "base ! 3 = text_field e ''subject'' (em_subject e)"
    "base ! 4 = text_field e ''text'' (em_text e)" "base ! 5 = text_field e ''html'' (em_html e)"
    "base ! 6 = text_field e ''envelope'' (envelope_json e)"
    "base ! 8 = FormField ''attachments'' (str_of_nat (length (em_attachments e)))" by (simp_all add: base_def)
  have "length (file_parts e) = length (em_attachments e)" by (auto simp: file_parts_def numbered_def not_less_eq_eq)
  then show ?thesis
    using nth [of 0] nth [of 1] nth [of 2] nth [of 3] nth [of 4] nth [of 5] nth [of 6] nth [of 8]
    unfolding at names form_part.sel sendgrid_parts_def filter_files by (simp add: BASE_NAMES_def)
qed

theorem sendgrid_form_witness:
  "map part_name (sendgrid_parts sample_lib (sample_post\<lparr>em_extra_form_fields := [([], ''orphan'')]\<rparr>)) =
     [''headers'', ''dkim'', ''content-ids'', ''to'', ''cc'', ''from'', ''subject'', ''text'', ''html'', ''sender_ip'',
      ''spam_report'', ''spam_score'', ''envelope'', ''charsets'', ''SPF'', ''attachments'', ''attachment-info'',
      attachment_field 1, []]"
proof -
  let ?e = "sample_post\<lparr>em_extra_form_fields := [([], ''orphan'')]\<rparr>"
  have "map part_name (file_parts ?e) = [attachment_field 1]"
    by (simp add: file_parts_def numbered_def sample_post_def)
  moreover have "\<forall>(n, v) \<in> set (em_extra_form_fields ?e). n \<notin> set BASE_NAMES" by (simp add: BASE_NAMES_def)
  moreover have "map part_name (extra_parts ?e) = [[]]" by (simp add: extra_parts_def)
  moreover have "em_attachments ?e \<noteq> []" by (simp add: sample_post_def)
  moreover have "part_name (text_field e n v) = n" "part_name (synthetic n) = n" for e n v
    by (simp_all add: text_field_def synthetic_def)
  ultimately show ?thesis
    by (simp only: sendgrid_form map_append list.map form_part.sel if_True append.simps simp_thms)
qed

text \<open>C39 (the first of two subjects is lost). The catalog's message with a second \<open>subject\<close> field
  is to carry its own subject first. The serializer does that; the SendGrid format looks its
  parts up by name, so both subject fields of the request hold the second value and the
  message's own subject is in neither.\<close>

theorem second_subject_replaces_first:
  assumes "em_extra_form_fields e = [(''subject'', v)]"
  shows "filter (\<lambda>p. part_name p = ''subject'') (to_multipart_parts e) =
      [text_field e ''subject'' (em_subject e), FormField ''subject'' v] \<and>
    filter (\<lambda>p. part_name p = ''subject'') (sendgrid_parts L e) =
      [FormField ''subject'' v, FormField ''subject'' v]"
proof -
  have names: "part_name (text_field e n v) = n" for n v by (simp add: text_field_def)
  have extra: "extra_parts e = [FormField ''subject'' v]" by (simp add: extra_parts_def assms)
  have "part_name q \<noteq> ''subject''" if "q \<in> set (file_parts e)" for q
  proof -
    obtain i where "part_name q = attachment_field i" using file_part_names [OF \<open>q \<in> set (file_parts e)\<close>] by blast
    then show ?thesis using attachment_field_new(1) [of i] by (simp add: BASE_NAMES_def)
  qed
  then have files: "filter (\<lambda>p. part_name p = ''subject'') (file_parts e) = []" by (simp add: filter_empty_conv)
  have "base_part e n = p \<Longrightarrow> part_name p = n" if "n \<in> set BASE_NAMES" for n p
  proof -
    have "\<exists>q \<in> set (to_multipart_parts e). part_name q = n"
      using that by (auto simp: to_multipart_parts_def BASE_NAMES_def names)
    then obtain q where "find (\<lambda>p. part_name p = n) (rev (to_multipart_parts e)) = Some q" "part_name q = n"
      by (metis (mono_tags, lifting) find_None_iff find_Some_iff not_None_eq set_rev)
    then show "base_part e n = p \<Longrightarrow> part_name p = n"
      by (simp add: base_part_def base_parts_def map_of_by_name)
  qed
  then have base: "part_name (base_part e n) = n" if "n \<in> set BASE_NAMES" for n using that by blast
  have subject: "base_part e ''subject'' = FormField ''subject'' v"
    by (rule base_part_last [where ys = "[]"]) (simp_all add: to_multipart_parts_def extra)
  have "filter (\<lambda>p. part_name p = ''subject'') (to_multipart_parts e) =
      [text_field e ''subject'' (em_subject e), FormField ''subject'' v]"
    by (simp add: to_multipart_parts_def names files extra)
  moreover have "part_name (base_part e ''headers'') = ''headers''" "part_name (base_part e ''to'') = ''to''"
    "part_name (base_part e ''from'') = ''from''" "part_name (base_part e ''text'') = ''text''"
    "part_name (base_part e ''html'') = ''html''" "part_name (base_part e ''envelope'') = ''envelope''"
    "part_name (base_part e ''attachments'') = ''attachments''" by (simp_all add: base BASE_NAMES_def)
  then have "filter (\<lambda>p. part_name p = ''subject'') (sendgrid_parts L e) =
      [FormField ''subject'' v, FormField ''subject'' v]"
    by (simp add: sendgrid_parts_def filter_files files extra subject synthetic_def)
  ultimately show ?thesis ..
qed

theorem second_subject_replaces_first_witness:
  "filter (\<lambda>p. part_name p = ''subject'') (to_multipart_parts sample_post) =
     [FormField ''subject'' ''Printer broken'', FormField ''subject'' ''Second''] \<and>
   filter (\<lambda>p. part_name p = ''subject'') (sendgrid_parts sample_lib sample_post) =
     [FormField ''subject'' ''Second'', FormField ''subject'' ''Second'']"
  using second_subject_replaces_first [of sample_post "''Second''" sample_lib]
  by (simp add: sample_post_def sample_email_def text_field_def)

text \<open>A request describes its body. A request that is built posts exactly the bytes the format
  produced, under the format's content type and the length of those bytes; a header hook is
  handed those bytes, adds only what it returned, and can replace neither header.\<close>

theorem request_describes_body:
  assumes "build_request encode hook url timeout e = Inr r"
  shows "pr_body r = eb_body (encode e) \<and> pr_url r = url \<and> pr_timeout r = timeout \<and>
    (\<exists>added. pr_headers r = (''Content-Type'', eb_content_type (encode e)) #
        (''Content-Length'', str_of_nat (length (pr_body r))) # added \<and>
      distinct (map fst (pr_headers r)) \<and>
      (case hook of None \<Rightarrow> added = []
       | Some f \<Rightarrow> f (pr_body r) = HookDict (map (\<lambda>(n, v). (PStr n, PStr v)) added)))"
proof (cases hook)
  case None
  then show ?thesis using assms by (auto simp: build_request_def Let_def)
next
  case (Some f)
  let ?body = "eb_body (encode e)"
  let ?own = "[(''Content-Type'', eb_content_type (encode e)), (''Content-Length'', str_of_nat (length ?body))]"
  obtain supplied hs where f: "f ?body = HookDict supplied" "add_headers supplied ?own = Inr hs"
    and r: "r = \<lparr>pr_url = url, pr_method = ''POST'', pr_headers = hs, pr_body = ?body, pr_timeout = timeout\<rparr>"
    using assms Some by (auto simp: build_request_def Let_def split: hook_reply.splits sum.splits)
  obtain added where "hs = ?own @ added" "supplied = map (\<lambda>(n, v). (PStr n, PStr v)) added" "distinct (map fst hs)"
    using add_headers_Inr [OF f(2)] by auto
  then show ?thesis using f(1) r Some by simp
qed

theorem request_describes_body_witness:
  "\<exists>r. build_request (\<lambda>e. \<lparr>eb_body = ''abc'', eb_content_type = ''text/plain''\<rparr>)
      (Some (\<lambda>b. HookDict [(PStr ''X-Len'', PStr (str_of_nat (length b)))])) ''http://in.shop.test/'' 10 sample_email = Inr r \<and>
    pr_body r = ''abc'' \<and> distinct (map fst (pr_headers r))"
proof -
  let ?hook = "Some (\<lambda>b. HookDict [(PStr ''X-Len'', PStr (str_of_nat (length b)))])"
  let ?req = "build_request (\<lambda>e. \<lparr>eb_body = ''abc'', eb_content_type = ''text/plain''\<rparr>) ?hook
      ''http://in.shop.test/'' 10 sample_email"
  have "\<exists>r. ?req = Inr r" by (simp add: build_request_def Let_def)
  then obtain r where r: "?req = Inr r" by blast
  note request_describes_body [OF r]
  then have "pr_body r = ''abc''" "distinct (map fst (pr_headers r))" by auto
  then show ?thesis using r by blast
qed

end
