(* ===== verification/Keep_Alive.thy ===== *)
theory Keep_Alive
  imports Load_Report Sending Wire
begin

text \<open>
  The keep-alive client (\<open>PersistentHttpClient\<close> of \<open>core/transport.py\<close>) and the load tester's
  send hook over one such client for each worker (\<open>_Sender\<close> of \<open>barrage/fire.py\<close>). What
  \<open>http.client\<close> does with a connection is a parameter: opening one, and one exchange over an
  open one, which answers, fails, or fails the way a connection does that the server closed
  while it was idle. A handle stands for the connection object.
\<close>

section \<open>Connections\<close>

record client_response =
  cr_status :: int
  cr_body :: bytes
  cr_headers :: "string dict"

text \<open>Scheme, host, port.\<close>

type_synonym origin = "string \<times> string \<times> int option"

datatype exchange = Answer client_response bool | Stale string | Broken string

record ('h, 'w) wire =
  wi_split :: "string \<Rightarrow> (origin \<times> string) option"
  wi_open :: "origin \<Rightarrow> seconds \<Rightarrow> 'w \<Rightarrow> (string + 'h) \<times> 'w"
  wi_exchange :: "'h \<Rightarrow> string \<Rightarrow> prepared_request \<Rightarrow> 'w \<Rightarrow> exchange \<times> 'w"
  wi_close :: "'h \<Rightarrow> 'w \<Rightarrow> 'w"
  wi_clock :: "'w \<Rightarrow> seconds \<times> 'w"

record 'h keep_alive =
  ka_conn :: "('h \<times> origin) option"
  ka_used :: bool
  ka_connect_seconds :: "seconds list"
  ka_reconnects :: nat

definition new_keep_alive :: "'h keep_alive" where
  "new_keep_alive = \<lparr>ka_conn = None, ka_used = False, ka_connect_seconds = [], ka_reconnects = 0\<rparr>"

datatype client_error = NotHttpUrl string | TransportError string

definition ka_close :: "('h, 'w) wire \<Rightarrow> 'h keep_alive \<Rightarrow> 'w \<Rightarrow> 'h keep_alive \<times> 'w" where
  "ka_close W S w =
     (S\<lparr>ka_conn := None\<rparr>,
      (case ka_conn S of None \<Rightarrow> w | Some (h, org) \<Rightarrow> wi_close W h w))"

definition ka_open ::
  "('h, 'w) wire \<Rightarrow> origin \<Rightarrow> seconds \<Rightarrow> 'h keep_alive \<Rightarrow> 'w \<Rightarrow>
     (client_error + seconds) \<times> 'h keep_alive \<times> 'w"
where
  "ka_open W org timeout S w =
     (case ka_close W S w of (S1, w1) \<Rightarrow>
        (case wi_clock W w1 of (started, w2) \<Rightarrow>
          (case wi_open W org timeout w2 of
             (Inl e, w3) \<Rightarrow> (Inl (TransportError e), S1, w3)
           | (Inr h, w3) \<Rightarrow>
               (case wi_clock W w3 of (done_at, w4) \<Rightarrow>
                  (Inr (done_at - started),
                   S1\<lparr>ka_conn := Some (h, org), ka_used := False,
                      ka_connect_seconds := ka_connect_seconds S1 @ [done_at - started]\<rparr>, w4)))))"

definition ka_connect ::
  "('h, 'w) wire \<Rightarrow> string \<Rightarrow> seconds \<Rightarrow> 'h keep_alive \<Rightarrow> 'w \<Rightarrow>
     (client_error + seconds) \<times> 'h keep_alive \<times> 'w"
where
  "ka_connect W url timeout S w =
     (case wi_split W url of
        None \<Rightarrow> (Inl (NotHttpUrl url), S, w)
      | Some (org, target) \<Rightarrow> ka_open W org timeout S w)"

section \<open>Sending\<close>

text \<open>The connection a pass uses: the open one when it goes to the right origin, a new one
  otherwise.\<close>

definition ka_ensure ::
  "('h, 'w) wire \<Rightarrow> origin \<Rightarrow> seconds \<Rightarrow> 'h keep_alive \<Rightarrow> 'w \<Rightarrow>
     (client_error + unit) \<times> 'h keep_alive \<times> 'w"
where
  "ka_ensure W org timeout S w =
     (if (case ka_conn S of None \<Rightarrow> True | Some (h, o') \<Rightarrow> o' \<noteq> org)
      then (case ka_open W org timeout S w of
              (Inl e, S', w') \<Rightarrow> (Inl e, S', w') | (Inr d, S', w') \<Rightarrow> (Inr (), S', w'))
      else (Inr (), S, w))"

text \<open>The two passes of the loop of \<open>send\<close>; the argument is \<open>attempt\<close>.\<close>

fun ka_attempt ::
  "('h, 'w) wire \<Rightarrow> origin \<Rightarrow> string \<Rightarrow> prepared_request \<Rightarrow> bool \<Rightarrow> 'h keep_alive \<Rightarrow> 'w \<Rightarrow>
     ((client_error + client_response) option) \<times> 'h keep_alive \<times> 'w"
where
  "ka_attempt W org target rq second S w =
     (case ka_ensure W org (pr_timeout rq) S w of
        (Inl e, S1, w1) \<Rightarrow> (Some (Inl e), S1, w1)
      | (Inr _, S1, w1) \<Rightarrow>
          (case ka_conn S1 of
             None \<Rightarrow> (Some (Inl (TransportError ''no connection'')), S1, w1)
           | Some (h, o') \<Rightarrow>
               (case wi_exchange W h target rq w1 of
                  (Stale e, w2) \<Rightarrow>
                    (case ka_close W S1 w2 of (S2, w3) \<Rightarrow>
                       if \<not> ka_used S1 \<or> second then (Some (Inl (TransportError e)), S2, w3)
                       else (None, S2\<lparr>ka_reconnects := ka_reconnects S2 + 1\<rparr>, w3))
                | (Broken e, w2) \<Rightarrow>
                    (case ka_close W S1 w2 of (S2, w3) \<Rightarrow> (Some (Inl (TransportError e)), S2, w3))
                | (Answer r will_close, w2) \<Rightarrow>
                    (let S2 = S1\<lparr>ka_used := True\<rparr>
                     in if will_close
                        then (case ka_close W S2 w2 of (S3, w3) \<Rightarrow> (Some (Inr r), S3, w3))
                        else (Some (Inr r), S2, w2)))))"

declare ka_attempt.simps [simp del]

definition ka_send ::
  "('h, 'w) wire \<Rightarrow> prepared_request \<Rightarrow> 'h keep_alive \<Rightarrow> 'w \<Rightarrow>
     (client_error + client_response) \<times> 'h keep_alive \<times> 'w"
where
  "ka_send W rq S w =
     (case wi_split W (pr_url rq) of
        None \<Rightarrow> (Inl (NotHttpUrl (pr_url rq)), S, w)
      | Some (org, target) \<Rightarrow>
          (case ka_attempt W org target rq False S w of
             (Some res, S1, w1) \<Rightarrow> (res, S1, w1)
           | (None, S1, w1) \<Rightarrow>
               (case ka_attempt W org target rq True S1 w1 of
                  (Some res, S2, w2) \<Rightarrow> (res, S2, w2)
                | (None, S2, w2) \<Rightarrow> (Inl (TransportError ''unreachable''), S2, w2))))"

section \<open>One client for each worker\<close>

text \<open>\<open>_Sender\<close> with keep-alive: the clients by worker, in the order they were made, and the
  handshakes that failed. A worker whose handshake failed keeps its client and connects again,
  on demand, with its next request.\<close>

record 'h sender_state =
  sd_clients :: "(nat \<times> 'h keep_alive) list"
  sd_connect_failures :: nat

definition sender_connect ::
  "('h, 'w) wire \<Rightarrow> 'w timing \<Rightarrow> string \<Rightarrow> seconds \<Rightarrow> nat \<Rightarrow> 'h sender_state \<Rightarrow> 'w \<Rightarrow>
     ((client_error \<times> rat) + unit) \<times> 'h sender_state \<times> 'w"
where
  "sender_connect W T url timeout worker S w =
     (case map_of (sd_clients S) worker of
        Some c \<Rightarrow> (Inr (), S, w)
      | None \<Rightarrow>
          (case read_clock T w of (started, w1) \<Rightarrow>
            (case ka_connect W url timeout new_keep_alive w1 of
               (Inr d, c, w2) \<Rightarrow> (Inr (), S\<lparr>sd_clients := sd_clients S @ [(worker, c)]\<rparr>, w2)
             | (Inl e, c, w2) \<Rightarrow>
                 (case read_clock T w2 of (failed_at, w3) \<Rightarrow>
                    (Inl (e, (failed_at - started) * 1000),
                     S\<lparr>sd_clients := sd_clients S @ [(worker, c)],
                       sd_connect_failures := sd_connect_failures S + 1\<rparr>, w3)))))"

definition error_text :: "client_error \<Rightarrow> string" where
  "error_text e = (case e of NotHttpUrl u \<Rightarrow> ''not an http(s) URL: '' @ u | TransportError t \<Rightarrow> t)"

text \<open>\<open>_Sender.__call__\<close>, with \<open>post\<close> written out over the worker's client.\<close>

definition sender_call ::
  "('h, 'w) wire \<Rightarrow> 'w timing \<Rightarrow> string \<Rightarrow> seconds \<Rightarrow> nat \<Rightarrow> prepared_request \<Rightarrow> 'h sender_state \<Rightarrow> 'w \<Rightarrow>
     transport_result \<times> 'h sender_state \<times> 'w"
where
  "sender_call W T url timeout worker rq S w =
     (case sender_connect W T url timeout worker S w of
        (Inl (e, elapsed), S1, w1) \<Rightarrow>
          (\<lparr>tr_status = None, tr_latency_ms = elapsed, tr_body_snippet = [],
            tr_error = Some (''connect failed: '' @ error_text e), tr_sent = True\<rparr>, S1, w1)
      | (Inr _, S1, w1) \<Rightarrow>
          (case read_clock T w1 of (start, w2) \<Rightarrow>
            (case ka_send W rq (the (map_of (sd_clients S1) worker)) w2 of (res, c, w3) \<Rightarrow>
              (case read_clock T w3 of (stop, w4) \<Rightarrow>
                 (\<lparr>tr_status = (case res of Inl e \<Rightarrow> None | Inr r \<Rightarrow> Some (cr_status r)),
                   tr_latency_ms = (stop - start) * 1000,
                   tr_body_snippet = (case res of Inl e \<Rightarrow> [] | Inr r \<Rightarrow> content_snippet (cr_body r)),
                   tr_error = (case res of Inl e \<Rightarrow> Some (error_text e) | Inr r \<Rightarrow> None),
                   tr_sent = True\<rparr>,
                  S1\<lparr>sd_clients := AList.update worker c (sd_clients S1)\<rparr>, w4)))))"

record connection_block =
  cn_workers_connected :: nat
  cn_connections_opened :: nat
  cn_reconnects :: nat
  cn_connect_failures :: nat
  cn_setup_min :: "rat option"
  cn_setup_p50 :: "rat option"
  cn_setup_max :: "rat option"

definition connection_summary :: "'h sender_state \<Rightarrow> connection_block" where
  "connection_summary S =
     (let clients = map snd (sd_clients S);
          firsts = [hd (ka_connect_seconds c) * 1000. c \<leftarrow> clients, ka_connect_seconds c \<noteq> []]
      in \<lparr>cn_workers_connected = length firsts,
          cn_connections_opened = sum_list (map (\<lambda>c. length (ka_connect_seconds c)) clients),
          cn_reconnects = sum_list (map ka_reconnects clients),
          cn_connect_failures = sd_connect_failures S,
          cn_setup_min = (if firsts = [] then None else Some (round_places 3 (Min (set firsts)))),
          cn_setup_p50 = map_option (round_places 3) (nearest_rank firsts (5 / 10)),
          cn_setup_max = (if firsts = [] then None else Some (round_places 3 (Max (set firsts))))\<rparr>)"

definition sender_close :: "('h, 'w) wire \<Rightarrow> 'h sender_state \<Rightarrow> 'w \<Rightarrow> 'w" where
  "sender_close W S w = foldl (\<lambda>u c. snd (ka_close W c u)) w (map snd (sd_clients S))"

section \<open>Invariants\<close>

text \<open>Every connection counted as lost to a stale retry was opened, and the open one is not among
  them.\<close>

definition ka_ok :: "'h keep_alive \<Rightarrow> bool" where
  "ka_ok S \<longleftrightarrow>
     ka_reconnects S + (if ka_conn S = None then 0 else 1) \<le> length (ka_connect_seconds S)"

lemma ka_close_ok: "ka_ok S \<Longrightarrow> ka_close W S w = (S', w') \<Longrightarrow>
    ka_ok S' \<and> ka_conn S' = None \<and> ka_reconnects S' = ka_reconnects S \<and>
    ka_connect_seconds S' = ka_connect_seconds S"
  by (auto simp: ka_close_def ka_ok_def)

lemma new_keep_alive_ok: "ka_ok new_keep_alive"
  by (simp add: new_keep_alive_def ka_ok_def)

lemma ka_open_ok:
  assumes "ka_ok S" "ka_open W org timeout S w = (res, S', w')"
  shows "ka_ok S' \<and> ka_reconnects S' = ka_reconnects S \<and>
    length (ka_connect_seconds S) \<le> length (ka_connect_seconds S') \<and>
    (case res of Inl e \<Rightarrow> ka_conn S' = None | Inr d \<Rightarrow> map_option snd (ka_conn S') = Some org \<and> \<not> ka_used S')"
  using assms by (cases org) (auto simp: ka_open_def ka_close_def ka_ok_def split: prod.splits sum.splits)

lemma ka_ensure_ok:
  assumes "ka_ok S" "ka_ensure W org timeout S w = (res, S', w')"
  shows "ka_ok S' \<and> ka_reconnects S' = ka_reconnects S \<and>
    length (ka_connect_seconds S) \<le> length (ka_connect_seconds S') \<and>
    (res = Inr () \<longrightarrow> map_option snd (ka_conn S') = Some org)"
proof (cases "case ka_conn S of None \<Rightarrow> True | Some (h, o') \<Rightarrow> o' \<noteq> org")
  case True
  obtain r S1 w1 where o: "ka_open W org timeout S w = (r, S1, w1)" by (metis surj_pair)
  then show ?thesis using ka_open_ok [OF assms(1) o] assms(2) True
    by (cases r) (auto simp: ka_ensure_def)
next
  case False
  then show ?thesis using assms by (auto simp: ka_ensure_def split: option.splits)
qed

lemma ka_attempt_ok:
  assumes "ka_ok S" "ka_attempt W org target rq second S w = (res, S', w')"
  shows "ka_ok S' \<and> (res = None \<longrightarrow> \<not> second) \<and>
    length (ka_connect_seconds S) \<le> length (ka_connect_seconds S')"
proof -
  obtain r S1 w1 where e: "ka_ensure W org (pr_timeout rq) S w = (r, S1, w1)" by (metis surj_pair)
  note ok = ka_ensure_ok [OF assms(1) e]
  show ?thesis
  proof (cases r)
    case (Inl x)
    then show ?thesis using assms(2) e ok by (auto simp: ka_attempt.simps)
  next
    case (Inr u)
    then obtain h o' where c: "ka_conn S1 = Some (h, o')" using ok by auto
    obtain x w2 where x: "wi_exchange W h target rq w1 = (x, w2)" by fastforce
    obtain S2 w3 where cl: "ka_close W S1 w2 = (S2, w3)" by fastforce
    have S2: "ka_conn S2 = None" "ka_reconnects S2 = ka_reconnects S1"
      "ka_connect_seconds S2 = ka_connect_seconds S1" using cl by (auto simp: ka_close_def)
    have "ka_reconnects S1 + 1 \<le> length (ka_connect_seconds S1)" using ok c by (simp add: ka_ok_def)
    moreover have "length (ka_connect_seconds S) \<le> length (ka_connect_seconds S1)" using ok by blast
    ultimately show ?thesis using assms(2) e Inr c x cl S2
      by (cases x) (auto simp: ka_attempt.simps ka_ok_def ka_close_def Let_def split: if_splits)
  qed
qed

lemma ka_send_ok:
  assumes "ka_ok S" "ka_send W rq S w = (res, S', w')"
  shows "ka_ok S' \<and> length (ka_connect_seconds S) \<le> length (ka_connect_seconds S')"
proof (cases "wi_split W (pr_url rq)")
  case None
  then show ?thesis using assms by (simp add: ka_send_def)
next
  case (Some x)
  obtain org target where x: "x = (org, target)" by fastforce
  obtain r1 S1 w1 where a: "ka_attempt W org target rq False S w = (r1, S1, w1)" by (metis surj_pair)
  obtain r2 S2 w2 where b: "ka_attempt W org target rq True S1 w1 = (r2, S2, w2)" by (metis surj_pair)
  have "ka_ok S1" "length (ka_connect_seconds S) \<le> length (ka_connect_seconds S1)"
    using ka_attempt_ok [OF assms(1) a] by blast+
  moreover from this have "ka_ok S2" "length (ka_connect_seconds S1) \<le> length (ka_connect_seconds S2)"
    using ka_attempt_ok [OF _ b] by blast+
  ultimately show ?thesis using assms(2) Some x a b by (auto simp: ka_send_def split: option.splits)
qed

section \<open>What goes over the wire\<close>

text \<open>The same wire with the outcomes of its exchanges written down.\<close>

definition logged :: "('h, 'w) wire \<Rightarrow> ('h, 'w \<times> exchange list) wire" where
  "logged W = \<lparr>wi_split = wi_split W,
     wi_open = (\<lambda>org timeout (w, lg). case wi_open W org timeout w of (res, w') \<Rightarrow> (res, (w', lg))),
     wi_exchange = (\<lambda>h target rq (w, lg).
       case wi_exchange W h target rq w of (x, w') \<Rightarrow> (x, (w', lg @ [x]))),
     wi_close = (\<lambda>h (w, lg). (wi_close W h w, lg)),
     wi_clock = (\<lambda>(w, lg). case wi_clock W w of (t, w') \<Rightarrow> (t, (w', lg)))\<rparr>"

lemma logged_close: "snd (snd (ka_close (logged W) S (w, lg))) = lg"
  by (simp add: ka_close_def logged_def split: option.splits)

lemma logged_open: "ka_open (logged W) org timeout S (w, lg) = (res, S', w', lg') \<Longrightarrow> lg' = lg"
  by (auto simp: ka_open_def ka_close_def logged_def split: option.splits prod.splits sum.splits)

lemma logged_ensure:
  assumes "ka_ensure (logged W) org timeout S (w, lg) = (res, S', w', lg')"
  shows "lg' = lg \<and> (ka_conn S' \<noteq> None \<and> ka_used S' \<and> res = Inr () \<longrightarrow>
    map_option snd (ka_conn S) = Some org \<and> ka_used S)"
proof (cases "case ka_conn S of None \<Rightarrow> True | Some (h, o') \<Rightarrow> o' \<noteq> org")
  case True
  obtain r S1 w1 log1 where o: "ka_open (logged W) org timeout S (w, lg) = (r, S1, w1, log1)" by (metis surj_pair)
  have "r = Inr d \<Longrightarrow> \<not> ka_used S1" for d
    using o by (auto simp: ka_open_def split: prod.splits sum.splits)
  then show ?thesis using assms True o logged_open [OF o]
    by (cases r) (auto simp: ka_ensure_def)
next
  case False
  then show ?thesis using assms by (auto simp: ka_ensure_def split: option.splits)
qed

definition answer_of :: "exchange \<Rightarrow> client_error + client_response" where
  "answer_of x = (case x of Answer r will_close \<Rightarrow> Inr r | Stale e \<Rightarrow> Inl (TransportError e)
     | Broken e \<Rightarrow> Inl (TransportError e))"

text \<open>One pass: nothing goes out and the connection failed, or one exchange that decides, or a
  stale one on a used connection, which does not.\<close>

lemma logged_attempt:
  assumes "ka_ok S" "ka_attempt (logged W) org target rq second S (w, lg) = (res, S', w', lg')"
  shows "(\<exists>e. lg' = lg \<and> res = Some (Inl e)) \<or> (\<exists>x. lg' = lg @ [x] \<and> res = Some (answer_of x)) \<or>
    (\<exists>e. lg' = lg @ [Stale e] \<and> res = None \<and> \<not> second \<and> ka_used S \<and> map_option snd (ka_conn S) = Some org)"
proof -
  obtain r S1 w1 log1 where e: "ka_ensure (logged W) org (pr_timeout rq) S (w, lg) = (r, S1, w1, log1)"
    by (metis surj_pair)
  note l = logged_ensure [OF e] and ok = ka_ensure_ok [OF assms(1) e]
  show ?thesis
  proof (cases r)
    case (Inl x)
    then show ?thesis using assms(2) e l by (auto simp: ka_attempt.simps)
  next
    case (Inr u)
    then obtain h o' where c: "ka_conn S1 = Some (h, o')" using ok by auto
    obtain x w2 where x: "wi_exchange W h target rq w1 = (x, w2)" by fastforce
    then have lx: "wi_exchange (logged W) h target rq (w1, log1) = (x, (w2, lg @ [x]))"
      using l by (simp add: logged_def)
    have cl: "ka_close (logged W) T (w2, lg @ [x]) = (T\<lparr>ka_conn := None\<rparr>, u', lg @ [x])"
      if "u' = (case ka_conn T of None \<Rightarrow> w2 | Some (h, org) \<Rightarrow> wi_close W h w2)" for T u'
      using that by (simp add: ka_close_def logged_def split: option.splits)
    show ?thesis
      using assms(2) e Inr c lx l cl [OF refl] by (cases x) (auto simp: ka_attempt.simps Let_def answer_of_def split: if_splits)
  qed
qed

section \<open>Properties\<close>


text \<open>A wire on which every exchange answers, and one whose server has closed the connection.\<close>

definition sample_request :: prepared_request where
  "sample_request = \<lparr>pr_url = ''http://in.shop.test/hook'', pr_method = ''POST'', pr_headers = [],
     pr_body = ''x'', pr_timeout = 10\<rparr>"

definition sample_wire :: "(nat, nat) wire" where
  "sample_wire = \<lparr>wi_split = (\<lambda>url. Some ((''http'', ''in.shop.test'', None), ''/hook'')),
     wi_open = (\<lambda>org timeout n. (Inr n, n + 1)),
     wi_exchange = (\<lambda>h target rq n.
       (if h = 0 then Stale ''closed'' else Answer \<lparr>cr_status = 200, cr_body = [], cr_headers = []\<rparr> False, n)),
     wi_close = (\<lambda>h n. n), wi_clock = (\<lambda>n. (of_nat n, n))\<rparr>"

definition sample_used :: "nat keep_alive" where
  "sample_used = \<lparr>ka_conn = Some (0, (''http'', ''in.shop.test'', None)), ka_used = True,
     ka_connect_seconds = [1], ka_reconnects = 0\<rparr>"


section \<open>The sender over a run\<close>

definition sender_ok :: "'h sender_state \<Rightarrow> bool" where
  "sender_ok S \<longleftrightarrow> distinct (map fst (sd_clients S)) \<and> list_all (\<lambda>c. ka_ok (snd c)) (sd_clients S) \<and>
     length (filter (\<lambda>c. ka_connect_seconds (snd c) = []) (sd_clients S)) \<le> sd_connect_failures S \<and>
     sd_connect_failures S \<le> length (sd_clients S)"

text \<open>A run of requests, each by its worker.\<close>

fun sender_calls ::
  "('h, 'w) wire \<Rightarrow> 'w timing \<Rightarrow> string \<Rightarrow> seconds \<Rightarrow> (nat \<times> prepared_request) list \<Rightarrow> 'h sender_state \<Rightarrow> 'w \<Rightarrow>
     transport_result list \<times> 'h sender_state \<times> 'w"
where
  "sender_calls W T url timeout [] S w = ([], S, w)"
| "sender_calls W T url timeout ((worker, rq) # calls) S w =
     (case sender_call W T url timeout worker rq S w of (r, S1, w1) \<Rightarrow>
        (case sender_calls W T url timeout calls S1 w1 of (rs, S2, w2) \<Rightarrow> (r # rs, S2, w2)))"

definition no_clients :: "'h sender_state" where
  "no_clients = \<lparr>sd_clients = [], sd_connect_failures = 0\<rparr>"

lemma filter_update_le:
  "map_of xs k = Some u \<Longrightarrow> P (k, v) \<longrightarrow> P (k, u) \<Longrightarrow>
     length (filter P (AList.update k v xs)) \<le> length (filter P xs)"
  by (induction xs) auto

lemma length_update_known: "map_of xs k \<noteq> None \<Longrightarrow> length (AList.update k v xs) = length xs"
  by (induction xs) auto

lemma update_keys_known: "map_of xs k \<noteq> None \<Longrightarrow> map fst (AList.update k v xs) = map fst xs"
  by (induction xs) auto

lemma list_all_update: "list_all P xs \<Longrightarrow> P (k, v) \<Longrightarrow> list_all P (AList.update k v xs)"
  by (induction xs) auto

lemma sender_connect_ok:
  assumes "sender_ok S" "sender_connect W T url timeout worker S w = (res, S', w')"
  shows "sender_ok S' \<and> (\<exists>c. map_of (sd_clients S') worker = Some c) \<and>
    set (map fst (sd_clients S')) = insert worker (set (map fst (sd_clients S)))"
proof (cases "map_of (sd_clients S) worker")
  case (Some c)
  then show ?thesis using assms by (auto simp: sender_connect_def dest: map_of_SomeD intro: rev_image_eqI)
next
  case None
  then have new: "worker \<notin> set (map fst (sd_clients S))" by (simp add: map_of_eq_None_iff)
  obtain t w1 where c: "read_clock T w = (t, w1)" by fastforce
  obtain r c w2 where k: "ka_connect W url timeout new_keep_alive w1 = (r, c, w2)" by (metis surj_pair)
  obtain t' w3 where c': "read_clock T w2 = (t', w3)" by fastforce
  have ok: "ka_ok c \<and> (\<forall>d. r = Inr d \<longrightarrow> ka_connect_seconds c \<noteq> [])"
  proof (cases "wi_split W url")
    case None
    then show ?thesis using k new_keep_alive_ok by (auto simp: ka_connect_def)
  next
    case (Some x)
    then obtain org target where x: "wi_split W url = Some (org, target)" by (cases x) auto
    then have o: "ka_open W org timeout new_keep_alive w1 = (r, c, w2)" using k by (simp add: ka_connect_def)
    have "ka_ok c" using ka_open_ok [OF new_keep_alive_ok o] by blast
    moreover have "r = Inr d \<Longrightarrow> ka_connect_seconds c \<noteq> []" for d
      using o by (auto simp: ka_open_def split: prod.splits sum.splits)
    ultimately show ?thesis by blast
  qed
  then show ?thesis using assms None new c c' k
    by (cases r) (auto simp: sender_connect_def sender_ok_def map_of_append split: option.splits)
qed

lemma sender_call_ok:
  assumes "sender_ok S" "sender_call W T url timeout worker rq S w = (r, S', w')"
  shows "sender_ok S' \<and> set (map fst (sd_clients S')) = insert worker (set (map fst (sd_clients S)))"
proof -
  obtain res S1 w1 where c: "sender_connect W T url timeout worker S w = (res, S1, w1)" by (metis surj_pair)
  note ok = sender_connect_ok [OF assms(1) c]
  show ?thesis
  proof (cases res)
    case (Inl x)
    then show ?thesis using assms(2) c ok by (cases x) (auto simp: sender_call_def)
  next
    case (Inr u)
    obtain k where k: "map_of (sd_clients S1) worker = Some k" using ok by blast
    obtain t w2 where t: "read_clock T w1 = (t, w2)" by fastforce
    obtain out k' w3 where s: "ka_send W rq k w2 = (out, k', w3)" by (metis surj_pair)
    obtain t' w4 where t': "read_clock T w3 = (t', w4)" by fastforce
    have S': "S' = S1\<lparr>sd_clients := AList.update worker k' (sd_clients S1)\<rparr>"
      using assms(2) c Inr k t s t' by (simp add: sender_call_def)
    have "ka_ok k" using ok k by (auto simp: sender_ok_def list_all_iff dest: map_of_SomeD)
    note k' = ka_send_ok [OF this s]
    then have "length (filter (\<lambda>c. ka_connect_seconds (snd c) = []) (AList.update worker k' (sd_clients S1))) \<le>
        length (filter (\<lambda>c. ka_connect_seconds (snd c) = []) (sd_clients S1))"
      using k by (intro filter_update_le) auto
    then have "sender_ok S'" using ok k k' unfolding S' sender_ok_def
      by (simp add: update_keys_known length_update_known list_all_update)
    then show ?thesis using ok k unfolding S' by (simp add: update_keys_known del: set_map)
  qed
qed

lemma sender_calls_ok:
  "sender_ok S \<Longrightarrow> sender_calls W T url timeout calls S w = (rs, S', w') \<Longrightarrow>
     sender_ok S' \<and> length rs = length calls \<and>
     set (map fst (sd_clients S')) = fst ` set calls \<union> set (map fst (sd_clients S))"
proof (induction calls arbitrary: S w rs)
  case (Cons c calls)
  obtain worker rq where c: "c = (worker, rq)" by fastforce
  obtain r S1 w1 where s: "sender_call W T url timeout worker rq S w = (r, S1, w1)" by (metis surj_pair)
  obtain rs' S2 w2 where t: "sender_calls W T url timeout calls S1 w1 = (rs', S2, w2)" by (metis surj_pair)
  have eq: "S2 = S'" "w2 = w'" "rs = r # rs'" using Cons.prems(2) c s t by simp_all
  note one = sender_call_ok [OF Cons.prems(1) s]
  from Cons.IH [OF conjunct1 [OF one] t [unfolded eq(1,2)]] one show ?case by (auto simp: c eq(3))
qed simp

text \<open>The connection report is consistent. After any run of requests by any workers, every
  request has a result, there is one client for each worker that sent, each worker's
  handshake failed at most once, a worker without a connection is one whose handshake failed,
  and no more stale reconnects are reported than connections opened.\<close>

theorem connections_add_up:
  assumes "sender_calls W T url timeout calls no_clients w = (rs, S, w')"
  shows "length rs = length calls \<and> length (sd_clients S) = card (fst ` set calls) \<and>
    cn_connect_failures (connection_summary S) \<le> length (sd_clients S) \<and>
    length (sd_clients S) \<le> cn_workers_connected (connection_summary S) + cn_connect_failures (connection_summary S) \<and>
    cn_workers_connected (connection_summary S) \<le> cn_connections_opened (connection_summary S) \<and>
    cn_reconnects (connection_summary S) \<le> cn_connections_opened (connection_summary S)"
proof -
  have "sender_ok (no_clients :: 'a sender_state)" by (simp add: sender_ok_def no_clients_def)
  note ok = sender_calls_ok [OF this assms]
  have "card (set (map fst (sd_clients S))) = length (map fst (sd_clients S))"
    using ok unfolding sender_ok_def by (intro distinct_card) blast
  then have n: "length (sd_clients S) = card (fst ` set calls)" using ok by (simp add: no_clients_def)
  have one_each: "length [hd (ka_connect_seconds c) * 1000. c \<leftarrow> map snd cs, ka_connect_seconds c \<noteq> []] =
      length (filter (\<lambda>c. ka_connect_seconds (snd c) \<noteq> []) cs)" for cs :: "(nat \<times> 'a keep_alive) list"
    by (induction cs) auto
  have firsts: "cn_workers_connected (connection_summary S) =
      length (filter (\<lambda>c. ka_connect_seconds (snd c) \<noteq> []) (sd_clients S))"
    unfolding connection_summary_def Let_def connection_block.select_convs by (rule one_each)
  have "length (filter (\<lambda>c. ka_connect_seconds (snd c) \<noteq> []) cs) \<le>
      sum_list (map (\<lambda>c. length (ka_connect_seconds c)) (map snd cs))" for cs :: "(nat \<times> 'a keep_alive) list"
  proof (induction cs)
    case (Cons c cs)
    then show ?case by (cases "ka_connect_seconds (snd c)") simp_all
  qed simp
  moreover have "list_all (\<lambda>c. ka_ok (snd c)) cs \<Longrightarrow> sum_list (map ka_reconnects (map snd cs)) \<le>
      sum_list (map (\<lambda>c. length (ka_connect_seconds c)) (map snd cs))" for cs :: "(nat \<times> 'a keep_alive) list"
    by (induction cs) (auto simp: ka_ok_def)
  moreover have "length (sd_clients S) = length (filter (\<lambda>c. ka_connect_seconds (snd c) \<noteq> []) (sd_clients S)) +
      length (filter (\<lambda>c. ka_connect_seconds (snd c) = []) (sd_clients S))"
    using sum_length_filter_compl [of "\<lambda>c. ka_connect_seconds (snd c) \<noteq> []" "sd_clients S"] by simp
  ultimately show ?thesis using ok n firsts
    by (simp add: sender_ok_def connection_summary_def Let_def)
qed

theorem connections_add_up_witness:
  "\<exists>rs S w'. sender_calls sample_wire \<lparr>read_clock = (\<lambda>n. (of_nat n, n)), do_sleep = (\<lambda>s n. n)\<rparr>
      ''http://in.shop.test/hook'' 10 [(3, sample_request), (5, sample_request), (3, sample_request)]
      no_clients 1 = (rs, S, w') \<and> length rs = 3 \<and> length (sd_clients S) = 2"
proof -
  obtain rs S w' where run: "sender_calls sample_wire \<lparr>read_clock = (\<lambda>n. (of_nat n, n)), do_sleep = (\<lambda>s n. n)\<rparr>
      ''http://in.shop.test/hook'' 10 [(3, sample_request), (5, sample_request), (3, sample_request)]
      no_clients 1 = (rs, S, w')" by (rule prod_cases3)
  have "card {3, 5 :: nat} = 2" by simp
  moreover note conjunct1 [OF connections_add_up [OF run]]
    conjunct1 [OF conjunct2 [OF connections_add_up [OF run]]]
  moreover have "fst ` set [(3 :: nat, sample_request), (5, sample_request), (3, sample_request)] = {3, 5}" by auto
  ultimately have "length rs = 3" "length (sd_clients S) = 2" by simp_all
  with run show ?thesis by (intro exI conjI)
qed

end
