(* ===== verification/Load_Compare.thy ===== *)
theory Load_Compare
  imports Json Load_Report
begin

text \<open>
  Comparing two load runs (\<open>compare/load.py\<close>): the shape check of a saved artifact, the samples
  read back from its records, the numbers of one run, and the verdict on each. Artifacts are
  JSON values. How a number is printed is not modelled.
\<close>

section \<open>Thresholds\<close>

definition ERROR_RATE_POINTS :: rat where "ERROR_RATE_POINTS = 1 / 100"
definition UNSENT_RATE_POINTS :: rat where "UNSENT_RATE_POINTS = 1 / 100"
definition P99_GROWTH :: rat where "P99_GROWTH = 20 / 100"
definition P99_MIN_MS :: rat where "P99_MIN_MS = 5"
definition ACHIEVED_RPS_DROP :: rat where "ACHIEVED_RPS_DROP = 10 / 100"

definition THRESHOLDS :: "(string \<times> rat) list" where
  "THRESHOLDS = [(''error_rate_points'', ERROR_RATE_POINTS), (''unsent_rate_points'', UNSENT_RATE_POINTS),
     (''p99_growth'', P99_GROWTH), (''p99_min_ms'', P99_MIN_MS), (''achieved_rps_drop'', ACHIEVED_RPS_DROP)]"

definition BARRAGE_SCHEMA_VERSION :: int where "BARRAGE_SCHEMA_VERSION = 1"

definition LOAD_OUTCOMES :: "(string \<times> load_outcome) list" where
  "LOAD_OUTCOMES = [(''completed'', Completed), (''abandoned'', Abandoned),
     (''dropped_backlog'', DroppedBacklog), (''not_dispatched'', NotDispatched)]"

definition PLAN_KEYS :: "string list" where
  "PLAN_KEYS = [''mode'', ''rate'', ''duration'', ''warmup'', ''ramp_steps'', ''concurrency'', ''target'',
     ''keepalive'', ''timeout'']"

section \<open>The shape check\<close>

definition is_barrage :: "json \<Rightarrow> bool" where
  "is_barrage data \<longleftrightarrow> jget data ''tool'' = Some (JStr ''barrage'') \<or> jget data ''buckets'' \<noteq> None"

datatype load_compare_error = SchemaNotRead json | ConfigNotObject | DryRun | NoRecords
  | NotARequestRecord nat | NoScheduledAt nat | NothingSent string

fun outcome_named :: "json option \<Rightarrow> load_outcome option" where
  "outcome_named (Some (JStr s)) = map_of LOAD_OUTCOMES s"
| "outcome_named _ = None"

text \<open>\<open>isinstance(x, (int, float))\<close> lets a \<open>bool\<close> through.\<close>

fun any_number :: "json option \<Rightarrow> rat option" where
  "any_number (Some (JInt i)) = Some (of_int i)"
| "any_number (Some (JNum x)) = Some x"
| "any_number (Some (JBool b)) = Some (if b then 1 else 0)"
| "any_number _ = None"

fun check_rows :: "nat \<Rightarrow> json list \<Rightarrow> load_compare_error + unit" where
  "check_rows i [] = Inr ()"
| "check_rows i (row # rows) =
     (if \<not> is_obj row \<or> outcome_named (jget row ''outcome'') = None then Inl (NotARequestRecord i)
      else if any_number (jget row ''scheduled_at'') = None then Inl (NoScheduledAt i)
      else check_rows (Suc i) rows)"

definition load_validate :: "json \<Rightarrow> load_compare_error + json" where
  "load_validate data =
     (let version = jget_or (JInt 0) data ''schema_version'';
          config = jget_or JNull data ''config''
      in if (case strict_int version of None \<Rightarrow> True | Some v \<Rightarrow> BARRAGE_SCHEMA_VERSION < v)
         then Inl (SchemaNotRead version)
         else if \<not> is_obj config then Inl ConfigNotObject
         else if jget config ''dry_run'' = Some (JBool True) then Inl DryRun
         else (case jget data ''records'' of
             Some (JList rows) \<Rightarrow>
               (case check_rows 0 rows of Inl e \<Rightarrow> Inl e | Inr _ \<Rightarrow> Inr data)
           | _ \<Rightarrow> Inl NoRecords))"

section \<open>The samples\<close>

definition loose_num :: "json option \<Rightarrow> rat option" where
  "loose_num j = (case j of None \<Rightarrow> None | Some v \<Rightarrow> strict_num v)"

definition row_sample :: "rat \<Rightarrow> rat \<Rightarrow> nat \<Rightarrow> json \<Rightarrow> load_sample" where
  "row_sample rate warmup i row =
     (let scheduled = the (any_number (jget row ''scheduled_at''))
      in \<lparr>ls_scheduled_at = scheduled,
          ls_dispatched_at = loose_num (jget row ''dispatched_at''),
          ls_status = (case jget row ''status'' of None \<Rightarrow> None | Some v \<Rightarrow> strict_int v),
          ls_service_ms = loose_num (jget row ''service_ms''),
          ls_offered_ms = loose_num (jget row ''offered_ms''),
          ls_target_rate = rate,
          ls_outcome = the (outcome_named (jget row ''outcome'')),
          ls_index = (case jget row ''index'' of None \<Rightarrow> int i
            | Some v \<Rightarrow> (case as_int v of Some n \<Rightarrow> n | None \<Rightarrow> int i)),
          ls_in_hold = (warmup - HAIR \<le> scheduled)\<rparr>)"

fun rows_samples :: "rat \<Rightarrow> rat \<Rightarrow> nat \<Rightarrow> json list \<Rightarrow> load_sample list" where
  "rows_samples rate warmup i [] = []"
| "rows_samples rate warmup i (row # rows) =
     row_sample rate warmup i row # rows_samples rate warmup (Suc i) rows"

definition load_samples :: "json \<Rightarrow> load_sample list" where
  "load_samples data =
     (let config = jget_or JNull data ''config'';
          num = (\<lambda>k. case loose_num (jget config k) of None \<Rightarrow> 0 | Some x \<Rightarrow> x)
      in case jget data ''records'' of
           Some (JList rows) \<Rightarrow> rows_samples (num ''rate'') (num ''warmup'') 0 rows
         | _ \<Rightarrow> [])"

section \<open>The numbers of one run\<close>

definition share :: "nat \<Rightarrow> nat \<Rightarrow> rat" where
  "share part whole = (if whole = 0 then 0 else of_nat part / of_nat whole)"

record load_numbers =
  ln_requests :: request_counts
  ln_values :: "(string \<times> rat option) list"

definition measure_samples :: "load_sample list \<Rightarrow> load_numbers" where
  "measure_samples samples =
     (let sent = filter ls_sent samples;
          counts = count_requests samples;
          hold = filter ls_in_hold samples;
          service = latency_percentiles hold Service;
          offered = latency_percentiles hold Offered;
          of_sent = (\<lambda>P. Some (share (length (filter P sent)) (length sent)));
          of_all = (\<lambda>n. Some (share n (rq_scheduled counts)))
      in \<lparr>ln_requests = counts, ln_values =
          [(''error_rate'', Some (load_error_rate samples)),
           (''5xx_rate'', of_sent (\<lambda>s. ls_responded s \<and> 500 \<le> the (ls_status s))),
           (''shed_rate'', of_sent ls_is_shed),
           (''no_response_rate'', of_sent (\<lambda>s. ls_outcome s = Completed \<and> ls_status s = None)),
           (''abandoned_rate'', Some (share (rq_abandoned counts) (length sent))),
           (''unsent_rate'', of_all (rq_dropped_backlog counts + rq_not_dispatched counts)),
           (''dropped_backlog_rate'', of_all (rq_dropped_backlog counts)),
           (''not_dispatched_rate'', of_all (rq_not_dispatched counts)),
           (''service_p50_ms'', pc_p50 service), (''service_p99_ms'', pc_p99 service),
           (''offered_p50_ms'', pc_p50 offered), (''offered_p99_ms'', pc_p99 offered),
           (''achieved_rps'', tp_achieved_rps (load_throughput samples))]\<rparr>)"

definition measure_run :: "json \<Rightarrow> load_numbers" where
  "measure_run data = measure_samples (load_samples data)"

definition number_at :: "load_numbers \<Rightarrow> string \<Rightarrow> rat option" where
  "number_at n k = the (map_of (ln_values n) k)"

section \<open>The verdicts\<close>

datatype judged_as = Points | P99 | Rps

definition ROWS :: "(string \<times> judged_as option) list" where
  "ROWS = [(''error_rate'', Some Points), (''5xx_rate'', None), (''shed_rate'', None),
     (''no_response_rate'', None), (''abandoned_rate'', None), (''unsent_rate'', Some Points),
     (''dropped_backlog_rate'', None), (''not_dispatched_rate'', None), (''service_p50_ms'', None),
     (''service_p99_ms'', Some P99), (''offered_p50_ms'', None), (''offered_p99_ms'', Some P99),
     (''achieved_rps'', Some Rps)]"

datatype verdict = Worse | Better

definition judge_row ::
  "judged_as option \<Rightarrow> string \<Rightarrow> rat option \<Rightarrow> rat option \<Rightarrow> bool \<Rightarrow> verdict option"
where
  "judge_row kind k before after rps_judged =
     (case (kind, before, after) of
        (Some j, Some b, Some a) \<Rightarrow>
          (case j of
             Points \<Rightarrow>
               (let limit = (if k = ''error_rate'' then ERROR_RATE_POINTS else UNSENT_RATE_POINTS)
                in if limit < a - b then Some Worse else if limit < b - a then Some Better else None)
           | P99 \<Rightarrow>
               if b * (1 + P99_GROWTH) < a \<and> P99_MIN_MS \<le> a - b then Some Worse
               else if a * (1 + P99_GROWTH) < b \<and> P99_MIN_MS \<le> b - a then Some Better else None
           | Rps \<Rightarrow>
               if \<not> rps_judged then None
               else if a < b * (1 - ACHIEVED_RPS_DROP) then Some Worse
               else if b < a * (1 - ACHIEVED_RPS_DROP) then Some Better else None)
      | _ \<Rightarrow> None)"

datatype load_warning = PlanDiffers string | BaselineAborted | CandidateAborted

definition load_warnings :: "json \<Rightarrow> json \<Rightarrow> load_warning list" where
  "load_warnings baseline candidate =
     (let cfg = (\<lambda>d k. jget_or JNull (jget_or JNull d ''config'') k)
      in map PlanDiffers (filter (\<lambda>k. \<not> py_eq (cfg baseline k) (cfg candidate k)) PLAN_KEYS) @
         (if jget baseline ''aborted'' = Some (JBool True) then [BaselineAborted] else []) @
         (if jget candidate ''aborted'' = Some (JBool True) then [CandidateAborted] else []))"

definition rates_comparable :: "json \<Rightarrow> json \<Rightarrow> bool" where
  "rates_comparable baseline candidate =
     list_all (\<lambda>k. py_eq (jget_or JNull (jget_or JNull baseline ''config'') k)
       (jget_or JNull (jget_or JNull candidate ''config'') k)) [''mode'', ''rate'']"

record load_diff_row =
  dw_metric :: string
  dw_baseline :: "rat option"
  dw_candidate :: "rat option"
  dw_delta :: "rat option"
  dw_judged :: bool
  dw_verdict :: "verdict option"

definition diff_row :: "bool \<Rightarrow> load_numbers \<Rightarrow> load_numbers \<Rightarrow> string \<times> judged_as option \<Rightarrow> load_diff_row" where
  "diff_row rps_judged before after row =
     (case row of (k, kind) \<Rightarrow>
        (let b = number_at before k; a = number_at after k
         in \<lparr>dw_metric = k, dw_baseline = b, dw_candidate = a,
             dw_delta = (case (b, a) of (Some x, Some y) \<Rightarrow> Some (y - x) | _ \<Rightarrow> None),
             dw_judged = (kind \<noteq> None \<and> (kind \<noteq> Some Rps \<or> rps_judged)),
             dw_verdict = judge_row kind k b a rps_judged\<rparr>))"

record load_diff =
  lf_comparable :: bool
  lf_warnings :: "load_warning list"
  lf_baseline_seed :: json
  lf_candidate_seed :: json
  lf_records_compared :: nat
  lf_metrics :: "load_diff_row list"
  lf_rps_judged :: bool
  lf_regressions :: "string list"
  lf_fixes :: "string list"
  lf_regressed :: bool

definition compare_load :: "json \<Rightarrow> json \<Rightarrow> load_compare_error + load_diff" where
  "compare_load baseline candidate =
     (let before = measure_run baseline; after = measure_run candidate
      in if rq_sent (ln_requests before) = 0 then Inl (NothingSent ''baseline'')
         else if rq_sent (ln_requests after) = 0 then Inl (NothingSent ''candidate'')
         else (let warnings = load_warnings baseline candidate;
                   judged = rates_comparable baseline candidate;
                   metrics = map (diff_row judged before after) ROWS;
                   named = (\<lambda>v. map dw_metric (filter (\<lambda>r. dw_verdict r = Some v) metrics))
               in Inr \<lparr>lf_comparable = (warnings = []), lf_warnings = warnings,
                    lf_baseline_seed = jget_or JNull baseline ''seed'',
                    lf_candidate_seed = jget_or JNull candidate ''seed'',
                    lf_records_compared =
                      rq_scheduled (ln_requests before) + rq_scheduled (ln_requests after),
                    lf_metrics = metrics, lf_rps_judged = judged, lf_regressions = named Worse,
                    lf_fixes = named Better, lf_regressed = (named Worse \<noteq> [])\<rparr>))"

section \<open>The saved artifact\<close>

definition outcome_name :: "load_outcome \<Rightarrow> string" where
  "outcome_name oc = (case oc of Completed \<Rightarrow> ''completed'' | Abandoned \<Rightarrow> ''abandoned''
     | DroppedBacklog \<Rightarrow> ''dropped_backlog'' | NotDispatched \<Rightarrow> ''not_dispatched'')"

definition opt_num :: "rat option \<Rightarrow> json" where
  "opt_num x = (case x of None \<Rightarrow> JNull | Some v \<Rightarrow> JNum v)"

definition row_json :: "load_row \<Rightarrow> json" where
  "row_json r = JObj [(''index'', JInt (lw_index r)), (''scheduled_at'', JNum (lw_scheduled_at r)),
     (''dispatched_at'', opt_num (lw_dispatched_at r)),
     (''status'', (case lw_status r of None \<Rightarrow> JNull | Some n \<Rightarrow> JInt n)),
     (''service_ms'', opt_num (lw_service_ms r)), (''offered_ms'', opt_num (lw_offered_ms r)),
     (''outcome'', JStr (outcome_name (lw_outcome r)))]"

text \<open>The keys of an artifact that a comparison reads.\<close>

definition artifact_json :: "json \<Rightarrow> load_artifact \<Rightarrow> json" where
  "artifact_json config a = JObj [(''schema_version'', JInt BARRAGE_SCHEMA_VERSION),
     (''tool'', JStr ''barrage''), (''aborted'', JBool (lr_aborted a)), (''seed'', JInt (lr_seed a)),
     (''config'', config), (''records'', JList (map row_json (lr_records a)))]"

lemma outcome_named_name [simp]: "map_of LOAD_OUTCOMES (outcome_name oc) = Some oc"
  by (cases oc) (simp_all add: outcome_name_def LOAD_OUTCOMES_def)

lemma loose_num_opt [simp]: "loose_num (Some (opt_num x)) = x"
  by (cases x) (simp_all add: opt_num_def loose_num_def strict_num_def)

lemma check_rows_json: "check_rows i (map row_json rows) = Inr ()"
  by (induction rows arbitrary: i) (simp_all add: row_json_def)

text \<open>What reading a row back keeps of a sample.\<close>

definition same_fate :: "load_sample \<Rightarrow> load_sample \<Rightarrow> bool" where
  "same_fate s t \<longleftrightarrow> ls_outcome s = ls_outcome t \<and> ls_status s = ls_status t \<and>
     (ls_dispatched_at s = None \<longleftrightarrow> ls_dispatched_at t = None)"

lemma same_fate_judged:
  assumes "same_fate s t"
  shows "ls_sent s = ls_sent t" "ls_responded s = ls_responded t" "ls_is_shed s = ls_is_shed t"
    "ls_is_error s = ls_is_error t" "ls_outcome s = ls_outcome t" "ls_status s = ls_status t"
  using assms by (auto simp: same_fate_def ls_sent_def ls_responded_def ls_is_shed_def ls_is_error_def)

definition row_of :: "load_sample \<Rightarrow> load_row" where
  "row_of s = \<lparr>lw_index = ls_index s, lw_scheduled_at = round_places 6 (ls_scheduled_at s),
     lw_dispatched_at = map_option (round_places 6) (ls_dispatched_at s), lw_status = ls_status s,
     lw_service_ms = map_option (round_places 3) (ls_service_ms s),
     lw_offered_ms = map_option (round_places 3) (ls_offered_ms s), lw_outcome = ls_outcome s\<rparr>"

lemma row_back: "same_fate (row_sample rate warmup i (row_json (row_of s))) s"
  by (cases "ls_status s") (simp_all add: same_fate_def row_sample_def row_json_def row_of_def Let_def
      strict_int_def)

lemma rows_back:
  "list_all2 same_fate (rows_samples rate warmup i (map (row_json \<circ> row_of) samples)) samples"
  by (induction samples arbitrary: i) (simp_all add: row_back)

lemma filter_fate:
  assumes "list_all2 same_fate xs ys" "\<And>s t. same_fate s t \<Longrightarrow> P s = P t"
  shows "length (filter P xs) = length (filter P ys)"
  using assms(1) by (induction rule: list_all2_induct) (auto dest: assms(2))

lemma count_sorted: "length (filter P (sort_key f xs)) = length (filter P xs)"
proof -
  have "size (filter_mset P (mset (sort_key f xs))) = size (filter_mset P (mset xs))" by simp
  then show ?thesis by (simp only: mset_filter [symmetric] size_mset)
qed

section \<open>Facts about the verdicts\<close>

definition flip :: "verdict \<Rightarrow> verdict" where
  "flip v = (case v of Worse \<Rightarrow> Better | Better \<Rightarrow> Worse)"

lemma judge_row_swap:
  assumes "kind = Some Rps \<longrightarrow> (\<forall>x. b = Some x \<longrightarrow> 0 \<le> x) \<and> (\<forall>x. a = Some x \<longrightarrow> 0 \<le> x)"
  shows "judge_row kind k b a j = map_option flip (judge_row kind k a b j)"
proof (cases kind)
  case None
  then show ?thesis by (simp add: judge_row_def)
next
  case (Some as)
  show ?thesis
  proof (cases "b = None \<or> a = None")
    case True
    then show ?thesis by (auto simp: judge_row_def split: option.splits)
  next
    case False
    then obtain x y where xy: "b = Some x" "a = Some y" by (cases b; cases a) auto
    show ?thesis
    proof (cases as)
      case Points
      then show ?thesis using Some xy
        by (auto simp: judge_row_def flip_def Let_def ERROR_RATE_POINTS_def UNSENT_RATE_POINTS_def)
    next
      case P99
      then show ?thesis using Some xy by (auto simp: judge_row_def flip_def P99_MIN_MS_def)
    next
      case Rps
      have "0 \<le> x" "0 \<le> y" using assms Rps Some xy by auto
      then have "\<not> (y < x * (9 / 10) \<and> x < y * (9 / 10))" by linarith
      then show ?thesis using Some Rps xy by (auto simp: judge_row_def flip_def ACHIEVED_RPS_DROP_def)
    qed
  qed
qed

lemma judge_row_self:
  assumes "kind = Some Rps \<longrightarrow> (\<forall>x. a = Some x \<longrightarrow> 0 \<le> x)"
  shows "judge_row kind k a a j = None"
proof -
  have "judge_row kind k a a j = map_option flip (judge_row kind k a a j)"
    using assms by (intro judge_row_swap) auto
  then show ?thesis by (cases "judge_row kind k a a j") (auto simp: flip_def split: verdict.splits)
qed

lemma achieved_nonneg: "tp_achieved_rps (load_throughput samples) = Some x \<Longrightarrow> 0 \<le> x"
proof -
  define sent where "sent = sort (map (\<lambda>s. the (ls_dispatched_at s)) (filter ls_sent samples))"
  assume a: "tp_achieved_rps (load_throughput samples) = Some x"
  then have x: "x = (of_nat (length sent) - 1) / (last sent - hd sent)" and len: "2 \<le> length sent"
    by (auto simp: load_throughput_def Let_def sent_def split: option.splits if_splits)
  have "hd sent \<le> last sent"
  proof -
    have "sorted sent" by (simp add: sent_def)
    moreover have "sent \<noteq> []" using len by auto
    ultimately show ?thesis by (cases sent) auto
  qed
  then show "0 \<le> x" using x len by simp
qed

lemma number_at_rps: "number_at (measure_run data) ''achieved_rps'' =
    tp_achieved_rps (load_throughput (load_samples data))"
  by (simp add: number_at_def measure_run_def measure_samples_def Let_def)

lemma rps_only: "(k, Some Rps) \<in> set ROWS \<Longrightarrow> k = ''achieved_rps''"
  by (simp add: ROWS_def)

lemma diff_row_swap:
  assumes "row \<in> set ROWS"
  shows "dw_verdict (diff_row j (measure_run a) (measure_run b) row) =
    map_option flip (dw_verdict (diff_row j (measure_run b) (measure_run a) row))"
proof -
  obtain k kind where row: "row = (k, kind)" by fastforce
  have "kind = Some Rps \<longrightarrow> k = ''achieved_rps''" using assms row rps_only by blast
  then show ?thesis unfolding row diff_row_def
    by (simp add: Let_def) (intro judge_row_swap, auto simp: number_at_rps dest: achieved_nonneg)
qed

lemma diff_row_metric [simp]: "dw_metric (diff_row j b a row) = fst row"
  by (simp add: diff_row_def Let_def split: prod.split)

lemma named_rows:
  "map dw_metric (filter (\<lambda>r. dw_verdict r = Some v) (map (diff_row j b a) rows)) =
     map fst (filter (\<lambda>row. dw_verdict (diff_row j b a row) = Some v) rows)"
  by (simp add: filter_map comp_def)

lemma rates_comparable_sym: "rates_comparable a b = rates_comparable b a"
  by (simp add: rates_comparable_def py_eq_sym)

section \<open>Properties\<close>

text \<open>Swapping the sides swaps the verdicts. Comparing the candidate with the baseline finds as
  improvements what comparing the baseline with the candidate found as regressions, and the
  other way round, for every metric and every pair of artifacts; and a run compared with
  itself neither regressed nor improved.\<close>

theorem swap_sides:
  assumes "compare_load baseline candidate = Inr r"
  shows "(\<exists>r'. compare_load candidate baseline = Inr r' \<and> lf_regressions r' = lf_fixes r \<and>
      lf_fixes r' = lf_regressions r \<and> lf_records_compared r' = lf_records_compared r) \<and>
    (baseline = candidate \<longrightarrow> lf_regressions r = [] \<and> lf_fixes r = [] \<and> \<not> lf_regressed r)"
proof -
  let ?j = "rates_comparable baseline candidate"
  let ?v = "\<lambda>a b row. dw_verdict (diff_row ?j (measure_run a) (measure_run b) row)"
  have flip_eq: "map_option flip x = Some v \<longleftrightarrow> x = Some (flip v)" for x v
    by (cases x; cases v) (auto simp: flip_def split: verdict.splits)
  have "filter (\<lambda>row. ?v candidate baseline row = Some v) ROWS =
      filter (\<lambda>row. ?v baseline candidate row = Some (flip v)) ROWS" for v
    by (rule filter_cong [OF refl]) (simp only: diff_row_swap [of _ ?j candidate baseline] flip_eq)
  moreover obtain r' where "compare_load candidate baseline = Inr r'"
    using assms by (simp add: compare_load_def Let_def split: if_splits)
  ultimately have swapped: "\<exists>r'. compare_load candidate baseline = Inr r' \<and> lf_regressions r' = lf_fixes r \<and>
      lf_fixes r' = lf_regressions r \<and> lf_records_compared r' = lf_records_compared r"
    using assms unfolding compare_load_def Let_def named_rows rates_comparable_sym [of candidate baseline]
    by (auto simp: flip_def split: if_splits)
  have "?v baseline baseline row = None" if "row \<in> set ROWS" for row
    using diff_row_swap [OF that, of ?j baseline baseline]
    by (cases "?v baseline baseline row") (auto simp: flip_def split: verdict.splits)
  then have "filter (\<lambda>row. ?v baseline baseline row = Some v) ROWS = []" for v
    by (simp add: filter_empty_conv)
  then have "baseline = candidate \<longrightarrow> lf_regressions r = [] \<and> lf_fixes r = [] \<and> \<not> lf_regressed r"
    using assms unfolding compare_load_def Let_def named_rows by (auto split: if_splits)
  with swapped show ?thesis by blast
qed

text \<open>The parts of the error rate add up. The error rate of a run is the sum of the rates shown
  under it - 5xx, shed, no response, abandoned - when every abandoned request was dispatched,
  as the runner's are; and the unsent rate is the sum of its two parts.\<close>

theorem error_rate_parts:
  assumes "\<forall>s \<in> set samples. ls_outcome s = Abandoned \<longrightarrow> ls_dispatched_at s \<noteq> None"
  defines "val \<equiv> \<lambda>k. the (number_at (measure_samples samples) k)"
  shows "val ''error_rate'' = val ''5xx_rate'' + val ''shed_rate'' + val ''no_response_rate'' + val ''abandoned_rate'' \<and>
    val ''unsent_rate'' = val ''dropped_backlog_rate'' + val ''not_dispatched_rate''"
proof -
  let ?sent = "filter ls_sent samples"
  have "length (filter ls_is_error ?sent) = length (filter (\<lambda>s. ls_responded s \<and> 500 \<le> the (ls_status s)) ?sent) +
      length (filter ls_is_shed ?sent) + length (filter (\<lambda>s. ls_outcome s = Completed \<and> ls_status s = None) ?sent) +
      with_outcome Abandoned samples"
    using assms(1)
  proof (induction samples)
    case (Cons s samples)
    then show ?case
      by (cases "ls_outcome s"; cases "ls_status s"; cases "ls_dispatched_at s")
        (auto simp: with_outcome_def ls_is_error_def ls_sent_def ls_responded_def ls_is_shed_def)
  qed (simp add: with_outcome_def)
  then have "load_error_rate samples = share (length (filter ls_is_error ?sent)) (length ?sent)"
    by (simp add: load_error_rate_def share_def Let_def)
  moreover have add: "share (m + n) w = share m w + share n w" for m n w
    by (simp add: share_def add_divide_distrib)
  moreover note \<open>length (filter ls_is_error ?sent) = _\<close>
  ultimately show ?thesis
    by (simp add: val_def number_at_def measure_samples_def Let_def count_requests_def add)
qed

text \<open>A comparison reads back what the run reported. An artifact that was written passes the
  shape check, and the counts and the error rate measured from its records are those of its
  own summary, although the times in the records are rounded.\<close>

theorem artifact_reads_back:
  assumes "build_load_artifact seed mode workers samples width stages hold_start origin aborted = Inr a"
    and "is_obj config" "jget config ''dry_run'' \<noteq> Some (JBool True)"
  shows "load_validate (artifact_json config a) = Inr (artifact_json config a) \<and> is_barrage (artifact_json config a) \<and>
    ln_requests (measure_run (artifact_json config a)) = ld_requests (lr_summary a) \<and>
    number_at (measure_run (artifact_json config a)) ''error_rate'' = Some (ld_error_rate (lr_summary a))"
proof -
  let ?data = "artifact_json config a"
  have a: "lr_records a = record_rows samples" "ld_requests (lr_summary a) = count_requests samples"
    "ld_error_rate (lr_summary a) = load_error_rate samples"
    using assms(1) by (auto simp: build_load_artifact_def Let_def split: sum.splits)
  have rows: "map row_json (record_rows samples) = map (row_json \<circ> row_of) (sort_key ls_index samples)"
    by (simp add: record_rows_def row_of_def)
  obtain rate warmup where "load_samples ?data =
      rows_samples rate warmup 0 (map (row_json \<circ> row_of) (sort_key ls_index samples))"
    by (simp add: load_samples_def artifact_json_def a rows Let_def)
  then have fate: "list_all2 same_fate (load_samples ?data) (sort_key ls_index samples)"
    using rows_back by simp
  have same: "length (filter P (load_samples ?data)) = length (filter P samples)"
    if "\<And>s t. same_fate s t \<Longrightarrow> P s = P t" for P
    by (simp only: filter_fate [OF fate, of P, OF that] count_sorted)
  have "length (load_samples ?data) = length samples" using list_all2_lengthD [OF fate] by simp
  moreover have "with_outcome oc (load_samples ?data) = with_outcome oc samples" for oc
    unfolding with_outcome_def by (rule same) (simp add: same_fate_judged)
  moreover have "length (filter ls_sent (load_samples ?data)) = length (filter ls_sent samples)"
    by (rule same) (simp add: same_fate_judged)
  moreover have "length (filter ls_is_error (filter ls_sent (load_samples ?data))) =
      length (filter ls_is_error (filter ls_sent samples))"
    unfolding filter_filter by (rule same) (simp add: same_fate_judged)
  moreover have "load_validate ?data = Inr ?data"
    using assms(2,3) by (simp add: load_validate_def artifact_json_def jget_or_def strict_int_def check_rows_json Let_def)
  moreover have "load_error_rate xs = share (length (filter ls_is_error (filter ls_sent xs))) (length (filter ls_sent xs))"
    for xs by (simp add: load_error_rate_def share_def Let_def)
  ultimately have "load_validate ?data = Inr ?data" "count_requests (load_samples ?data) = count_requests samples"
    "load_error_rate (load_samples ?data) = load_error_rate samples"
    by (simp_all only: count_requests_def)
  moreover have "ln_requests (measure_samples xs) = count_requests xs"
    "number_at (measure_samples xs) ''error_rate'' = Some (load_error_rate xs)" for xs
    by (simp_all add: measure_samples_def number_at_def Let_def)
  moreover have "is_barrage ?data" by (simp add: is_barrage_def artifact_json_def)
  ultimately show ?thesis by (simp only: a measure_run_def simp_thms)
qed

text \<open>Two runs of two requests, and what the first writes.\<close>

definition sample_run_json :: "int \<Rightarrow> json" where
  "sample_run_json status = JObj [(''schema_version'', JInt 1), (''tool'', JStr ''barrage''), (''seed'', JInt 7),
     (''config'', JObj [(''mode'', JStr ''open''), (''rate'', JInt 2), (''warmup'', JInt 0)]),
     (''records'', JList [
        JObj [(''scheduled_at'', JInt 0), (''dispatched_at'', JInt 0), (''status'', JInt status),
          (''outcome'', JStr ''completed'')],
        JObj [(''scheduled_at'', JNum (1 / 2)), (''dispatched_at'', JNum (1 / 2)), (''status'', JInt 200),
          (''outcome'', JStr ''completed'')]])]"

theorem swap_sides_witness:
  "\<exists>r r'. compare_load (sample_run_json 200) (sample_run_json 500) = Inr r \<and>
     compare_load (sample_run_json 500) (sample_run_json 200) = Inr r' \<and>
     lf_regressions r = [''error_rate''] \<and> lf_fixes r' = [''error_rate'']"
proof -
  have "(case compare_load (sample_run_json 200) (sample_run_json 500) of
      Inr r \<Rightarrow> lf_regressions r = [''error_rate''] | Inl e \<Rightarrow> False)" by code_simp
  then obtain r where r: "compare_load (sample_run_json 200) (sample_run_json 500) = Inr r"
    "lf_regressions r = [''error_rate'']"
    by (cases "compare_load (sample_run_json 200) (sample_run_json 500)") simp_all
  from conjunct1 [OF swap_sides [OF r(1)]] r show ?thesis by auto
qed

theorem error_rate_parts_witness:
  "number_at (measure_samples (load_samples (sample_run_json 500))) ''error_rate'' = Some (1 / 2) \<and>
   number_at (measure_samples (load_samples (sample_run_json 500))) ''5xx_rate'' = Some (1 / 2)"
proof -
  let ?n = "measure_samples (load_samples (sample_run_json 500))"
  have "list_all (\<lambda>s. ls_outcome s = Completed) (load_samples (sample_run_json 500))" by code_simp
  then have "\<forall>s \<in> set (load_samples (sample_run_json 500)). ls_outcome s = Abandoned \<longrightarrow> ls_dispatched_at s \<noteq> None"
    by (auto simp: list_all_iff)
  note parts = conjunct1 [OF error_rate_parts [OF this]]
  have "number_at ?n ''5xx_rate'' = Some (1 / 2)" "number_at ?n ''shed_rate'' = Some 0"
    "number_at ?n ''no_response_rate'' = Some 0" "number_at ?n ''abandoned_rate'' = Some 0" by code_simp+
  with parts have "the (number_at ?n ''error_rate'') = 1 / 2" by simp
  moreover have "number_at ?n ''error_rate'' \<noteq> None" by (simp add: number_at_def measure_samples_def Let_def)
  ultimately show ?thesis using \<open>number_at ?n ''5xx_rate'' = Some (1 / 2)\<close> by auto
qed

theorem artifact_reads_back_witness:
  "\<exists>a. build_load_artifact 7 ''open'' (Some 1) sample_series 1 [(2, 4)] (Some 0) (Some 0) False = Inr a \<and>
     load_validate (artifact_json (JObj []) a) = Inr (artifact_json (JObj []) a) \<and>
     ln_requests (measure_run (artifact_json (JObj []) a)) = ld_requests (lr_summary a)"
proof -
  obtain a where a: "build_load_artifact 7 ''open'' (Some 1) sample_series 1 [(2, 4)] (Some 0) (Some 0) False = Inr a"
    by (simp add: build_load_artifact_def bucketize_def Let_def)
  from artifact_reads_back [OF a, of "JObj []"] a show ?thesis by simp
qed

end
