(* ===== verification/Compare.thy ===== *)
theory Compare
  imports Load_Compare Blast_Report Run
begin

text \<open>
  Comparing two runs (\<open>compare/runs.py\<close>): what an artifact must be to be compared, the
  alignment of its records by id, the movement of each aligned record between outcomes, and
  the exit code. The shape check works on the JSON value; the records themselves are read
  with the types the blast tool writes them with. Reading the files and the rendering are
  not modelled.
\<close>

section \<open>The shape check\<close>

datatype compare_error = NotReadable | OtherTool string | DifferentTools string string
  | NotAnObject | MissingKey string | RecordsNotList | BadConfig | NewerSchemaVersion json | DryRunArtifact
  | NothingAligned nat nat | LoadRefused load_compare_error

definition REQUIRED_KEYS :: "string list" where
  "REQUIRED_KEYS = [''seed'', ''config'', ''summary'', ''records'']"

definition validate_artifact :: "json \<Rightarrow> compare_error + json" where
  "validate_artifact data =
     (if \<not> is_obj data then Inl NotAnObject
      else case find (\<lambda>k. jget data k = None) REQUIRED_KEYS of
        Some k \<Rightarrow> Inl (MissingKey k)
      | None \<Rightarrow>
          (let config = jget_or JNull data ''config''; version = jget_or (JInt 0) data ''schema_version''
           in if \<not> is_list (jget_or JNull data ''records'') then Inl RecordsNotList
              else if \<not> is_obj config \<or> jget config ''count'' = None \<or> jget config ''seed'' = None
              then Inl BadConfig
              else if (case as_int version of None \<Rightarrow> True | Some v \<Rightarrow> int SCHEMA_VERSION < v)
              then Inl (NewerSchemaVersion version)
              else if jget config ''dry_run'' = Some (JBool True) then Inl DryRunArtifact
              else Inr data))"

definition tool_key :: "json \<Rightarrow> json" where
  "tool_key data =
     (let config = (case jget data ''config'' of Some c \<Rightarrow> if is_obj c then c else JObj [] | None \<Rightarrow> JObj []);
          tool = jget_or JNull data ''tool''
      in if truth tool then tool else jget_or JNull config ''tool'')"

definition kind_of :: "json \<Rightarrow> string" where
  "kind_of data =
     (if is_obj data \<and> is_barrage data then ''barrage''
      else if \<not> is_obj data then ''blast''
      else (case tool_key data of JStr s \<Rightarrow> if s \<noteq> [] then s else ''blast'' | _ \<Rightarrow> ''blast''))"

section \<open>The records\<close>

record loaded =
  lo_id :: json
  lo_record :: run_record

definition str_at :: "json \<Rightarrow> string \<Rightarrow> string" where
  "str_at j k = (case jget j k of Some (JStr s) \<Rightarrow> s | _ \<Rightarrow> [])"

definition opt_str_at :: "json \<Rightarrow> string \<Rightarrow> string option" where
  "opt_str_at j k = (case jget j k of Some (JStr s) \<Rightarrow> Some s | _ \<Rightarrow> None)"

definition read_response :: "json \<Rightarrow> response" where
  "read_response j = \<lparr>rs_status = (case jget j ''status'' of None \<Rightarrow> None | Some v \<Rightarrow> strict_int v),
     rs_latency_ms = (case loose_num (jget j ''latency_ms'') of None \<Rightarrow> 0 | Some x \<Rightarrow> x),
     rs_body_snippet = str_at j ''body_snippet'', rs_error = opt_str_at j ''error'',
     rs_error_kind = opt_str_at j ''error_kind'',
     rs_body_failure = (case jget j ''body_failure'' of Some (JBool b) \<Rightarrow> Some b | _ \<Rightarrow> None)\<rparr>"

definition read_record :: "json \<Rightarrow> loaded" where
  "read_record j = \<lparr>lo_id = jget_or JNull j ''id'',
     lo_record = \<lparr>rd_id = (case jget j ''id'' of Some (JStr s) \<Rightarrow> s
           | Some (JInt i) \<Rightarrow> str_of_int i | _ \<Rightarrow> ''None''), rd_category = str_at j ''category'',
       rd_payload_sha256 = str_at j ''payload_sha256'',
       rd_intended = \<lparr>in_from = [], in_subject = [], in_body_core = [], in_attachments = 0\<rparr>,
       rd_response = (case jget j ''response'' of Some r \<Rightarrow> if truth r then Some (read_response r) else None
         | None \<Rightarrow> None),
       rd_assertion = (case jget j ''assertion'' of
           Some a \<Rightarrow> if truth a
             then Some \<lparr>ma_passed = (jget a ''passed'' \<noteq> Some (JBool False)), ma_mismatches = []\<rparr> else None
         | None \<Rightarrow> None),
       rd_case = opt_str_at j ''case''\<rparr>\<rparr>"

type_synonym counts_of = "(string \<times> int) list"

definition read_counts :: "json option \<Rightarrow> counts_of" where
  "read_counts j = (case j of
     Some (JObj kvs) \<Rightarrow> map (\<lambda>(k, v). (k, case as_int v of Some n \<Rightarrow> n | None \<Rightarrow> 0)) kvs | _ \<Rightarrow> [])"

record side =
  sd_seed :: json
  sd_config :: json
  sd_by_status_class :: counts_of
  sd_by_category :: counts_of
  sd_flags :: nat
  sd_records :: "loaded list"

definition read_side :: "json \<Rightarrow> side" where
  "read_side data =
     (let summary = jget_or JNull data ''summary''
      in \<lparr>sd_seed = jget_or JNull data ''seed'', sd_config = jget_or JNull data ''config'',
          sd_by_status_class = read_counts (jget summary ''by_status_class''),
          sd_by_category = read_counts (jget summary ''by_category''),
          sd_flags = (case jget summary ''flags'' of Some (JList fs) \<Rightarrow> length fs | _ \<Rightarrow> 0),
          sd_records = (case jget data ''records'' of Some (JList rs) \<Rightarrow> map read_record rs | _ \<Rightarrow> [])\<rparr>)"

section \<open>Alignment\<close>

datatype record_key = ById string | ByIndex nat

definition record_key :: "loaded \<Rightarrow> nat \<Rightarrow> record_key" where
  "record_key r i = (case lo_id r of JStr s \<Rightarrow> if s \<noteq> [] then ById s else ByIndex i | _ \<Rightarrow> ByIndex i)"

fun is_index :: "record_key \<Rightarrow> bool" where "is_index (ByIndex i) = True" | "is_index (ById s) = False"

definition align :: "loaded list \<Rightarrow> (record_key \<times> loaded) list \<times> bool" where
  "align records =
     (let keyed = map (\<lambda>(i, r). (record_key r i, r)) (zip [0..<length records] records)
      in (foldl (\<lambda>d (k, r). AList.update k r d) [] keyed, list_ex (\<lambda>(k, r). is_index k) keyed))"

section \<open>Totals and warnings\<close>

definition count_at :: "counts_of \<Rightarrow> string \<Rightarrow> int" where
  "count_at d k = (case map_of d k of Some n \<Rightarrow> n | None \<Rightarrow> 0)"

text \<open>A schema 0 artifact counted \<open>timeout\<close>.\<close>

definition status_counts :: "counts_of \<Rightarrow> counts_of" where
  "status_counts d =
     (if map_of d ''timeout'' \<noteq> None \<and> map_of d ''no_response'' = None
      then AList.update ''no_response'' (count_at d ''timeout'') (filter (\<lambda>(k, n). k \<noteq> ''timeout'') d)
      else d)"

record total_row =
  to_key :: string
  to_baseline :: int
  to_candidate :: int
  to_delta :: int

definition delta_rows :: "counts_of \<Rightarrow> counts_of \<Rightarrow> string list \<Rightarrow> total_row list" where
  "delta_rows b c ks = map (\<lambda>k. \<lparr>to_key = k, to_baseline = count_at b k, to_candidate = count_at c k,
     to_delta = count_at c k - count_at b k\<rparr>) ks"

datatype compare_warning = SeedsDiffer | ConfigDiffers string | CorporaDiffer nat nat | ByPosition

definition comparable :: "side \<Rightarrow> side \<Rightarrow> compare_warning list" where
  "comparable b c =
     (if py_eq (sd_seed b) (sd_seed c) then [] else [SeedsDiffer]) @
     map ConfigDiffers (filter (\<lambda>k.
        \<not> py_eq (jget_or (if k = ''attachments'' then JStr ''none'' else JNull) (sd_config b) k)
          (jget_or (if k = ''attachments'' then JStr ''none'' else JNull) (sd_config c) k))
       [''count'', ''mix'', ''attachments'', ''target''])"

section \<open>The comparison\<close>

datatype movement = Unchanged | Regression | Fix | Changed

definition movement :: "record_outcome \<Rightarrow> record_outcome \<Rightarrow> movement" where
  "movement before after =
     (if before = after then Unchanged else if before = AllOk then Regression
      else if after = AllOk then Fix else Changed)"

record diff_entry =
  de_id :: json
  de_category :: string
  de_from :: record_outcome
  de_to :: record_outcome
  de_status_from :: string
  de_status_to :: string
  de_flag :: "string option"

definition saved_status_class :: "loaded \<Rightarrow> string" where
  "saved_status_class r = status_class_name (rs_status (response_of (lo_record r)))"

definition moved :: "loaded \<Rightarrow> loaded \<Rightarrow> movement" where
  "moved b c = movement (classify_record (lo_record b)) (classify_record (lo_record c))"

definition diff_entry :: "record_key \<Rightarrow> loaded \<Rightarrow> loaded \<Rightarrow> diff_entry" where
  "diff_entry k b c = \<lparr>
     de_id = (if truth (lo_id c) then lo_id c
       else JStr (''index '' @ (case k of ByIndex i \<Rightarrow> str_of_nat i | ById s \<Rightarrow> s))),
     de_category = rd_category (lo_record c),
     de_from = classify_record (lo_record b), de_to = classify_record (lo_record c),
     de_status_from = saved_status_class b, de_status_to = saved_status_class c,
     de_flag = (case moved b c of Regression \<Rightarrow> flag_for_record (lo_record c)
       | Fix \<Rightarrow> flag_for_record (lo_record b) | _ \<Rightarrow> None)\<rparr>"

definition MAX_LISTED :: nat where "MAX_LISTED = 25"

record diff_section =
  ds_count :: nat
  ds_records :: "diff_entry list"
  ds_truncated :: bool

definition listed :: "diff_entry list \<Rightarrow> diff_section" where
  "listed es = \<lparr>ds_count = length es, ds_records = take MAX_LISTED es, ds_truncated = (MAX_LISTED < length es)\<rparr>"

record run_diff =
  rf_comparable :: bool
  rf_warnings :: "compare_warning list"
  rf_by_index :: bool
  rf_baseline_seed :: json
  rf_candidate_seed :: json
  rf_records_compared :: nat
  rf_unchanged :: nat
  rf_regressions :: diff_section
  rf_fixes :: diff_section
  rf_changes :: diff_section
  rf_totals :: "total_row list"
  rf_flags_baseline :: nat
  rf_flags_candidate :: nat
  rf_regressed :: bool

definition shared_keys :: "(record_key \<times> loaded) list \<Rightarrow> (record_key \<times> loaded) list \<Rightarrow> record_key list" where
  "shared_keys b c = filter (\<lambda>k. map_of c k \<noteq> None) (map fst b)"

definition entries ::
  "movement \<Rightarrow> (record_key \<times> loaded) list \<Rightarrow> (record_key \<times> loaded) list \<Rightarrow> diff_entry list"
where
  "entries m b c = map (\<lambda>k. diff_entry k (the (map_of b k)) (the (map_of c k)))
     (filter (\<lambda>k. moved (the (map_of b k)) (the (map_of c k)) = m) (shared_keys b c))"

definition compare_sides :: "side \<Rightarrow> side \<Rightarrow> compare_error + run_diff" where
  "compare_sides baseline candidate =
     (case (align (sd_records baseline), align (sd_records candidate)) of
        ((b, b_positional), (c, c_positional)) \<Rightarrow>
          (let only_b = filter (\<lambda>k. map_of c k = None) (map fst b);
               only_c = filter (\<lambda>k. map_of b k = None) (map fst c);
               shared = shared_keys b c;
               positional = (b_positional \<or> c_positional);
               warnings = comparable baseline candidate @
                 (if only_b \<noteq> [] \<or> only_c \<noteq> [] then [CorporaDiffer (length only_b) (length only_c)] else []) @
                 (if positional then [ByPosition] else []);
               regressions = entries Regression b c
           in if shared = [] then Inl (NothingAligned (length b) (length c))
              else Inr \<lparr>rf_comparable = (warnings = []), rf_warnings = warnings, rf_by_index = positional,
                rf_baseline_seed = sd_seed baseline, rf_candidate_seed = sd_seed candidate,
                rf_records_compared = length shared, rf_unchanged = length (entries Unchanged b c),
                rf_regressions = listed regressions, rf_fixes = listed (entries Fix b c),
                rf_changes = listed (entries Changed b c),
                rf_totals = delta_rows (status_counts (sd_by_status_class baseline))
                    (status_counts (sd_by_status_class candidate)) STATUS_CLASSES @
                  delta_rows (sd_by_category baseline) (sd_by_category candidate) CATEGORIES,
                rf_flags_baseline = sd_flags baseline, rf_flags_candidate = sd_flags candidate,
                rf_regressed = (regressions \<noteq> [])\<rparr>))"

section \<open>Two files\<close>

datatype any_diff = BlastDiff run_diff | BarrageDiff load_diff

definition any_regressed :: "any_diff \<Rightarrow> bool" where
  "any_regressed d = (case d of BlastDiff r \<Rightarrow> rf_regressed r | BarrageDiff r \<Rightarrow> lf_regressed r)"

text \<open>\<open>compare_paths\<close> after both files were read.\<close>

definition compare_artifacts :: "json \<Rightarrow> json \<Rightarrow> compare_error + any_diff" where
  "compare_artifacts baseline candidate =
     (let bk = kind_of baseline; ck = kind_of candidate
      in if bk \<notin> {''blast'', ''barrage''} then Inl (OtherTool bk)
         else if ck \<notin> {''blast'', ''barrage''} then Inl (OtherTool ck)
         else if bk \<noteq> ck then Inl (DifferentTools bk ck)
         else if bk = ''blast'' then
           (case validate_artifact baseline of Inl e \<Rightarrow> Inl e
            | Inr b \<Rightarrow> (case validate_artifact candidate of Inl e \<Rightarrow> Inl e
              | Inr c \<Rightarrow> (case compare_sides (read_side b) (read_side c) of
                  Inl e \<Rightarrow> Inl e | Inr d \<Rightarrow> Inr (BlastDiff d))))
         else
           (case load_validate baseline of Inl e \<Rightarrow> Inl (LoadRefused e)
            | Inr b \<Rightarrow> (case load_validate candidate of Inl e \<Rightarrow> Inl (LoadRefused e)
              | Inr c \<Rightarrow> (case compare_load b c of
                  Inl e \<Rightarrow> Inl (LoadRefused e) | Inr d \<Rightarrow> Inr (BarrageDiff d)))))"

definition EXIT_NO_REGRESSION :: nat where "EXIT_NO_REGRESSION = EXIT_OK"
definition EXIT_REGRESSION :: nat where "EXIT_REGRESSION = EXIT_FINDING"
definition EXIT_USAGE :: nat where "EXIT_USAGE = EXIT_REFUSED"

definition record_exit_code :: "any_diff \<Rightarrow> bool \<Rightarrow> nat" where
  "record_exit_code d fail_on_regression =
     (if fail_on_regression \<and> any_regressed d then EXIT_REGRESSION else EXIT_NO_REGRESSION)"

text \<open>\<open>_cmd_compare\<close>; the files are what \<open>read_artifact\<close> returned.\<close>

definition cmd_compare :: "json option \<Rightarrow> json option \<Rightarrow> bool \<Rightarrow> nat" where
  "cmd_compare baseline candidate fail_on_regression =
     (case (baseline, candidate) of
        (Some b, Some c) \<Rightarrow> (case compare_artifacts b c of
            Inl e \<Rightarrow> EXIT_USAGE | Inr d \<Rightarrow> record_exit_code d fail_on_regression)
      | _ \<Rightarrow> EXIT_USAGE)"

section \<open>Facts about the alignment\<close>

lemma align_distinct: "distinct (map fst (fst (align records)))"
proof -
  have "distinct (map fst (foldl (\<lambda>d (k, r). AList.update k r d) d kvs))" if "distinct (map fst d)"
    for d :: "(record_key \<times> loaded) list" and kvs
    using that by (induction kvs arbitrary: d) (auto simp: distinct_update)
  then show ?thesis by (simp add: align_def Let_def)
qed

lemma shared_keys_distinct: "distinct (map fst b) \<Longrightarrow> distinct (shared_keys b c)"
  by (simp add: shared_keys_def)

lemma shared_keys_swap:
  assumes "distinct (map fst b)" "distinct (map fst c)"
  shows "mset (shared_keys c b) = mset (shared_keys b c)"
proof -
  have "set (shared_keys c b) = set (shared_keys b c)"
    by (auto simp: shared_keys_def map_of_eq_None_iff)
  then show ?thesis using assms shared_keys_distinct
    by (simp add: set_eq_iff_mset_eq_distinct)
qed

lemma length_filter_mset: "mset xs = mset ys \<Longrightarrow> length (filter P xs) = length (filter P ys)"
  by (metis mset_filter size_mset)

definition turned :: "movement \<Rightarrow> movement" where
  "turned m = (case m of Regression \<Rightarrow> Fix | Fix \<Rightarrow> Regression | _ \<Rightarrow> m)"

lemma moved_swap: "moved c b = turned (moved b c)"
  by (auto simp: moved_def movement_def turned_def)

lemma turned_eq: "turned x = m \<longleftrightarrow> x = turned m"
  by (auto simp: turned_def split: movement.splits)

lemma entries_swap:
  assumes "distinct (map fst b)" "distinct (map fst c)"
  shows "length (entries m c b) = length (entries (turned m) b c)"
proof -
  have "moved (the (map_of c k)) (the (map_of b k)) = m \<longleftrightarrow> moved (the (map_of b k)) (the (map_of c k)) = turned m" for k
    by (metis moved_swap turned_eq)
  then show ?thesis unfolding entries_def length_map
    by (simp only: length_filter_mset [OF shared_keys_swap [OF assms]])
qed

lemma entries_partition:
  "length (shared_keys b c) = length (entries Unchanged b c) + length (entries Regression b c) +
     length (entries Fix b c) + length (entries Changed b c)"
proof -
  have "length ks = length (filter (\<lambda>k. f k = Unchanged) ks) + length (filter (\<lambda>k. f k = Regression) ks) +
      length (filter (\<lambda>k. f k = Fix) ks) + length (filter (\<lambda>k. f k = Changed) ks)"
    for f :: "record_key \<Rightarrow> movement" and ks
  proof (induction ks)
    case (Cons k ks)
    then show ?case by (cases "f k") simp_all
  qed simp
  then show ?thesis by (simp add: entries_def)
qed

lemma entries_outcomes:
  "e \<in> set (entries m b c) \<Longrightarrow> movement (de_from e) (de_to e) = m"
  by (auto simp: entries_def diff_entry_def moved_def)

lemma movement_Regression: "movement x y = Regression \<longleftrightarrow> x = AllOk \<and> y \<noteq> AllOk"
  "movement x y = Fix \<longleftrightarrow> x \<noteq> AllOk \<and> y = AllOk"
  "movement x y = Changed \<longleftrightarrow> x \<noteq> AllOk \<and> y \<noteq> AllOk \<and> x \<noteq> y"
  by (auto simp: movement_def)

abbreviation keyed :: "side \<Rightarrow> (record_key \<times> loaded) list" where
  "keyed s \<equiv> fst (align (sd_records s))"

lemma compare_sides_defined:
  "(\<exists>d. compare_sides baseline candidate = Inr d) \<longleftrightarrow> shared_keys (keyed baseline) (keyed candidate) \<noteq> []"
  by (cases "align (sd_records baseline)"; cases "align (sd_records candidate)")
    (simp add: compare_sides_def Let_def)

lemma compare_sides_Inr:
  assumes "compare_sides baseline candidate = Inr d"
  shows "rf_records_compared d = length (shared_keys (keyed baseline) (keyed candidate))"
    "rf_unchanged d = length (entries Unchanged (keyed baseline) (keyed candidate))"
    "rf_regressions d = listed (entries Regression (keyed baseline) (keyed candidate))"
    "rf_fixes d = listed (entries Fix (keyed baseline) (keyed candidate))"
    "rf_changes d = listed (entries Changed (keyed baseline) (keyed candidate))"
    "rf_regressed d = (entries Regression (keyed baseline) (keyed candidate) \<noteq> [])"
  using assms
  by (cases "align (sd_records baseline)"; cases "align (sd_records candidate)";
      auto simp: compare_sides_def Let_def split: if_splits)+

section \<open>Properties\<close>

text \<open>Every aligned record moved one way. The records compared are the unchanged ones, the
  regressions, the fixes and the changes, counted exactly however many are listed; a listed
  regression was ok and no longer is, a listed fix the reverse, a listed change failed both
  times and differently; and the run regressed when there is a regression.\<close>

theorem movements_partition:
  assumes "compare_sides baseline candidate = Inr d"
  shows "rf_records_compared d = rf_unchanged d + ds_count (rf_regressions d) + ds_count (rf_fixes d) +
      ds_count (rf_changes d) \<and> 0 < rf_records_compared d \<and>
    (\<forall>e \<in> set (ds_records (rf_regressions d)). de_from e = AllOk \<and> de_to e \<noteq> AllOk) \<and>
    (\<forall>e \<in> set (ds_records (rf_fixes d)). de_from e \<noteq> AllOk \<and> de_to e = AllOk) \<and>
    (\<forall>e \<in> set (ds_records (rf_changes d)). de_from e \<noteq> AllOk \<and> de_to e \<noteq> AllOk \<and> de_from e \<noteq> de_to e) \<and>
    rf_regressed d = (0 < ds_count (rf_regressions d))"
proof -
  let ?b = "keyed baseline" and ?c = "keyed candidate"
  note d = compare_sides_Inr [OF assms]
  have ne: "shared_keys ?b ?c \<noteq> []" using compare_sides_defined assms by blast
  have "movement (de_from e) (de_to e) = m" if "e \<in> set (take MAX_LISTED (entries m ?b ?c))" for e m
    using entries_outcomes in_set_takeD [OF that] by blast
  note mv = this
  have "\<forall>e \<in> set (take MAX_LISTED (entries Regression ?b ?c)). de_from e = AllOk \<and> de_to e \<noteq> AllOk"
    "\<forall>e \<in> set (take MAX_LISTED (entries Fix ?b ?c)). de_from e \<noteq> AllOk \<and> de_to e = AllOk"
    "\<forall>e \<in> set (take MAX_LISTED (entries Changed ?b ?c)). de_from e \<noteq> AllOk \<and> de_to e \<noteq> AllOk \<and> de_from e \<noteq> de_to e"
    using mv [THEN movement_Regression(1) [THEN iffD1]] mv [THEN movement_Regression(2) [THEN iffD1]]
      mv [THEN movement_Regression(3) [THEN iffD1]] by blast+
  moreover have "0 < length (shared_keys ?b ?c)" using ne by simp
  ultimately show ?thesis
    unfolding d listed_def diff_section.simps using entries_partition [of ?b ?c] by simp
qed

text \<open>Swapping the runs swaps regressions and fixes. Comparing in the other direction aligns
  the same records and turns every regression into a fix and every fix into a regression;
  changes stay changes. A run compared with itself has neither.\<close>

theorem swap_runs:
  assumes "compare_sides baseline candidate = Inr d"
  shows "\<exists>d'. compare_sides candidate baseline = Inr d' \<and> rf_records_compared d' = rf_records_compared d \<and>
    rf_unchanged d' = rf_unchanged d \<and> ds_count (rf_regressions d') = ds_count (rf_fixes d) \<and>
    ds_count (rf_fixes d') = ds_count (rf_regressions d) \<and> ds_count (rf_changes d') = ds_count (rf_changes d) \<and>
    (baseline = candidate \<longrightarrow> rf_unchanged d = rf_records_compared d \<and> \<not> rf_regressed d)"
proof -
  let ?b = "keyed baseline" and ?c = "keyed candidate"
  note d = compare_sides_Inr [OF assms]
  have perm: "mset (shared_keys ?c ?b) = mset (shared_keys ?b ?c)"
    by (rule shared_keys_swap) (rule align_distinct)+
  then have len: "length (shared_keys ?c ?b) = length (shared_keys ?b ?c)" by (rule mset_eq_length)
  then have "shared_keys ?c ?b \<noteq> []" using compare_sides_defined assms by (metis length_0_conv)
  then obtain d' where d': "compare_sides candidate baseline = Inr d'" using compare_sides_defined by blast
  note e = compare_sides_Inr [OF d']
  have sw: "length (entries m ?c ?b) = length (entries (turned m) ?b ?c)" for m
    by (rule entries_swap) (rule align_distinct)+
  have "moved x x = Unchanged" for x by (simp add: moved_def movement_def)
  then have "baseline = candidate \<longrightarrow> entries Unchanged ?b ?c = map (\<lambda>k. diff_entry k (the (map_of ?b k)) (the (map_of ?c k)))
      (shared_keys ?b ?c) \<and> entries Regression ?b ?c = []"
    by (simp add: entries_def)
  then show ?thesis using d d' e len sw [of Unchanged] sw [of Regression] sw [of Fix] sw [of Changed]
    by (auto simp: listed_def turned_def)
qed

text \<open>A verdict needs two real runs of one tool. \<open>compare\<close> exits with anything but a refusal
  only for two readable artifacts of the same tool, blast or barrage, neither of them a dry
  run; without \<open>--fail-on-regression\<close> it then exits 0, with it 3 exactly when the comparison
  found a regression.\<close>

theorem verdict_needs_real_runs:
  assumes "cmd_compare baseline candidate fail_on_regression \<noteq> EXIT_USAGE"
  shows "\<exists>b c d. baseline = Some b \<and> candidate = Some c \<and> kind_of b = kind_of c \<and>
    kind_of b \<in> {''blast'', ''barrage''} \<and>
    list_all (\<lambda>a. jget (jget_or JNull a ''config'') ''dry_run'' \<noteq> Some (JBool True) \<and>
      is_list (jget_or JNull a ''records'')) [b, c] \<and>
    compare_artifacts b c = Inr d \<and>
    cmd_compare baseline candidate fail_on_regression =
      (if fail_on_regression \<and> any_regressed d then EXIT_FINDING else EXIT_OK)"
proof -
  obtain b c d where bc: "baseline = Some b" "candidate = Some c" and d: "compare_artifacts b c = Inr d"
    using assms by (auto simp: cmd_compare_def split: option.splits sum.splits)
  have blast: "jget (jget_or JNull a ''config'') ''dry_run'' \<noteq> Some (JBool True) \<and> is_list (jget_or JNull a ''records'')"
    if "validate_artifact a = Inr a'" for a a'
    using that by (auto simp: validate_artifact_def Let_def split: option.splits if_splits)
  have barrage: "jget (jget_or JNull a ''config'') ''dry_run'' \<noteq> Some (JBool True) \<and> is_list (jget_or JNull a ''records'')"
    if "load_validate a = Inr a'" for a a'
    using that by (auto simp: load_validate_def jget_or_def Let_def split: option.splits if_splits json.splits sum.splits)
  have "kind_of b = kind_of c" "kind_of b \<in> {''blast'', ''barrage''}"
    "list_all (\<lambda>a. (\<exists>a'. validate_artifact a = Inr a') \<or> (\<exists>a'. load_validate a = Inr a')) [b, c]"
    using d by (auto simp: compare_artifacts_def Let_def split: if_splits sum.splits)
  moreover have "list_all (\<lambda>a. jget (jget_or JNull a ''config'') ''dry_run'' \<noteq> Some (JBool True) \<and>
      is_list (jget_or JNull a ''records'')) [b, c]"
    using calculation(3) blast barrage unfolding list_all_iff by blast
  ultimately show ?thesis using bc d
    by (auto simp: cmd_compare_def record_exit_code_def EXIT_REGRESSION_def EXIT_NO_REGRESSION_def)
qed

text \<open>Two small runs: a record that broke, one that was mended, one unchanged.\<close>

definition sample_saved :: "string \<Rightarrow> json \<Rightarrow> json" where
  "sample_saved rid code = JObj [(''id'', JStr rid), (''category'', JStr ''messy-but-valid''),
     (''response'', JObj [(''status'', code)])]"

definition sample_blast :: "json list \<Rightarrow> json" where
  "sample_blast records = JObj [(''tool'', JStr ''blast''), (''seed'', JInt 7),
     (''config'', JObj [(''seed'', JInt 7), (''count'', JInt 3)]), (''summary'', JObj []),
     (''records'', JList records)]"

definition sample_before :: json where
  "sample_before = sample_blast [sample_saved ''a'' (JInt 200), sample_saved ''b'' (JInt 500), sample_saved ''c'' JNull]"

definition sample_after :: json where
  "sample_after = sample_blast [sample_saved ''c'' JNull, sample_saved ''b'' (JInt 202), sample_saved ''a'' (JInt 503)]"

theorem movements_partition_witness:
  "\<exists>d. compare_sides (read_side sample_before) (read_side sample_after) = Inr d \<and>
     rf_records_compared d = 3 \<and> rf_unchanged d = 1 \<and> ds_count (rf_regressions d) + ds_count (rf_fixes d) = 2 \<and>
     ds_count (rf_changes d) = 0"
proof -
  have "(case compare_sides (read_side sample_before) (read_side sample_after) of
      Inr d \<Rightarrow> rf_records_compared d = 3 \<and> rf_unchanged d = 1 \<and> ds_count (rf_changes d) = 0 | Inl e \<Rightarrow> False)"
    by code_simp
  then obtain d where d: "compare_sides (read_side sample_before) (read_side sample_after) = Inr d"
    "rf_records_compared d = 3" "rf_unchanged d = 1" "ds_count (rf_changes d) = 0"
    by (cases "compare_sides (read_side sample_before) (read_side sample_after)") simp_all
  from conjunct1 [OF movements_partition [OF d(1)]] d show ?thesis by simp
qed

theorem swap_runs_witness:
  "\<exists>d d'. compare_sides (read_side sample_before) (read_side sample_after) = Inr d \<and>
     compare_sides (read_side sample_after) (read_side sample_before) = Inr d' \<and>
     ds_count (rf_regressions d') = ds_count (rf_fixes d) \<and> ds_count (rf_fixes d) = 1"
proof -
  have "(case compare_sides (read_side sample_before) (read_side sample_after) of
      Inr d \<Rightarrow> ds_count (rf_fixes d) = 1 | Inl e \<Rightarrow> False)" by code_simp
  then obtain d where d: "compare_sides (read_side sample_before) (read_side sample_after) = Inr d"
    "ds_count (rf_fixes d) = 1"
    by (cases "compare_sides (read_side sample_before) (read_side sample_after)") simp_all
  from swap_runs [OF d(1)] d show ?thesis by auto
qed

theorem verdict_needs_real_runs_witness:
  "cmd_compare (Some sample_before) (Some sample_after) True = EXIT_FINDING \<and>
   (\<exists>d. compare_artifacts sample_before sample_after = Inr d \<and> any_regressed d)"
proof -
  have x: "cmd_compare (Some sample_before) (Some sample_after) True = EXIT_FINDING" by code_simp
  moreover have "EXIT_FINDING \<noteq> EXIT_USAGE" by (simp add: EXIT_USAGE_def exit_codes)
  ultimately show ?thesis
    using verdict_needs_real_runs [of "Some sample_before" "Some sample_after" True]
    by (auto simp: exit_codes split: if_splits)
qed

end
