(* ===== verification/Steady_Families.thy ===== *)
theory Steady_Families
  imports Messages Sending
begin

text \<open>What \<open>steady\<close> sends (\<open>pipeline/steady.py\<close>): the reviewed fixture, the senders, the five
  meaning-preserving transforms, the families of variants they make, and the tagged payloads.

  A generator \<open>random.Random(key)\<close> is a parameter: a key gives a function from the number of the
  draw and a bound to the value drawn. \<open>randrange(a)\<close> is a draw below \<open>a\<close>, \<open>choice\<close> the
  element at a draw below the length.\<close>

section \<open>The fixture\<close>

record intent =
  it_id :: string
  it_category_hint :: string
  it_note :: string
  it_variants :: "string dict"
  it_subjects :: "string list dict"

definition body_for :: "intent \<Rightarrow> string \<Rightarrow> string option" where
  "body_for i language = map_of (it_variants i) language"

definition subjects_for :: "intent \<Rightarrow> string \<Rightarrow> string list" where
  "subjects_for i language =
     (case map_of (it_subjects i) language of
        Some (s # ss) \<Rightarrow> s # ss
      | _ \<Rightarrow> (case map_of (it_subjects i) ''en'' of Some ss \<Rightarrow> ss | None \<Rightarrow> []))"

record fixture =
  fx_intents :: "intent list"
  fx_closings :: "string list dict"

text \<open>The parsed file, key by key; \<open>None\<close> is a key that is not there. A file that does not have
  the documented types raises a \<open>TypeError\<close> in the code and is left out.\<close>

record raw_intent =
  ri_id :: "string option"
  ri_category_hint :: "string option"
  ri_note :: "string option"
  ri_variants :: "string dict option"
  ri_subjects :: "string list dict option"

record raw_fixture =
  rx_intents :: "raw_intent list option"
  rx_closings :: "string list dict option"

datatype fixture_error = MissingKey string | NoSubject string "string list" | NoIntents

definition load_intent :: "raw_intent \<Rightarrow> fixture_error + intent" where
  "load_intent r =
     (case (ri_id r, ri_variants r) of
        (None, _) \<Rightarrow> Inl (MissingKey ''id'')
      | (_, None) \<Rightarrow> Inl (MissingKey ''variants'')
      | (Some i, Some vs) \<Rightarrow>
          (let intent = \<lparr>it_id = i, it_category_hint = (case ri_category_hint r of Some h \<Rightarrow> h | None \<Rightarrow> []),
                 it_note = (case ri_note r of Some n \<Rightarrow> n | None \<Rightarrow> []), it_variants = vs,
                 it_subjects = (case ri_subjects r of Some ss \<Rightarrow> ss | None \<Rightarrow> [])\<rparr>;
               missing = filter (\<lambda>lang. subjects_for intent lang = []) (map fst vs)
           in if missing \<noteq> [] then Inl (NoSubject i missing) else Inr intent))"

fun load_each :: "raw_intent list \<Rightarrow> fixture_error + intent list" where
  "load_each [] = Inr []"
| "load_each (r # rs) =
     (case load_intent r of
        Inl e \<Rightarrow> Inl e
      | Inr i \<Rightarrow> (case load_each rs of Inl e \<Rightarrow> Inl e | Inr is \<Rightarrow> Inr (i # is)))"

definition load_fixture :: "raw_fixture \<Rightarrow> fixture_error + fixture" where
  "load_fixture raw =
     (case rx_intents raw of
        None \<Rightarrow> Inl (MissingKey ''intents'')
      | Some rs \<Rightarrow>
          (case load_each rs of
             Inl e \<Rightarrow> Inl e
           | Inr is \<Rightarrow>
               if is = [] then Inl NoIntents
               else Inr \<lparr>fx_intents = is,
                 fx_closings = (case rx_closings raw of Some cs \<Rightarrow> cs | None \<Rightarrow> [])\<rparr>))"

section \<open>Senders\<close>

definition pad_to :: "nat \<Rightarrow> nat \<Rightarrow> string" where
  "pad_to k n = replicate (k - length (str_of_nat n)) CHR ''0'' @ str_of_nat n"

definition SENDER_NAMES :: "string list" where
  "SENDER_NAMES =
     [''Ayesha Khan'', ''Bilal Ahmed'', ''Hira Siddiqui'', ''Omar Farooq'', ''Sara Malik'',
      ''Usman Tariq'', ''Zainab Raza'', ''Daniel Hughes'', ''Maryam Qureshi'', ''Imran Sheikh'']"

record sender =
  sd_name :: string
  sd_address :: string
  sd_alternate :: string
  sd_phone :: string

definition display :: "sender \<Rightarrow> string" where
  "display s = sd_name s @ '' <'' @ sd_address s @ ''>''"

definition alternate_display :: "sender \<Rightarrow> string" where
  "alternate_display s = sd_name s @ '' <'' @ sd_alternate s @ ''>''"

definition sender_for :: "nat \<Rightarrow> sender" where
  "sender_for index =
     (let name = SENDER_NAMES ! (index mod length SENDER_NAMES);
          local = replace_char CHR '' '' CHR ''.'' (map lower_char name)
      in \<lparr>sd_name = name, sd_address = local @ ''@example.com'', sd_alternate = local @ ''@example.net'',
          sd_phone = ''+1 555 01'' @ pad_to 2 (index mod 100)\<rparr>)"

section \<open>Transforms\<close>

type_synonym rng = "nat \<Rightarrow> nat \<Rightarrow> nat"

record transform_context =
  tc_language :: string
  tc_closings :: "string list"
  tc_sender :: sender

definition GREETING_SWAPS :: "(string \<times> string) list" where
  "GREETING_SWAPS =
     [(''Hello,'', ''Hi,''), (''Hi,'', ''Hello,''), (''Dear team,'', ''Hello,''), (''Hello team,'', ''Hi,''),
      (''Good morning,'', ''Hello,''), (''Good afternoon,'', ''Hi,'')]"

definition SIGNOFF_SWAPS :: "(string \<times> string) list" where
  "SIGNOFF_SWAPS =
     [(''Kind regards,'', ''Best regards,''), (''Best regards,'', ''Regards,''), (''Regards,'', ''Thanks,''),
      (''Many thanks,'', ''Thanks,'')]"

abbreviation (input) LF :: string where "LF \<equiv> [CHR 0x0A]"

definition with_text :: "email \<Rightarrow> string \<Rightarrow> email" where
  "with_text e t = e\<lparr>em_text := t, em_html := ''<html><body>'' @ t @ ''</body></html>''\<rparr>"

text \<open>\<open>_date\<close>: 1 September 2025 was a Monday; the days drawn are below 30 and the minutes, counted
  from 9:00, below 600, so the date stays in that September and the time in that day.\<close>

definition DAY_NAMES :: "string list" where
  "DAY_NAMES = [''Mon'', ''Tue'', ''Wed'', ''Thu'', ''Fri'', ''Sat'', ''Sun'']"

definition date_text :: "rng \<Rightarrow> string" where
  "date_text rng =
     (let days = rng 0 30; minutes = rng 1 600
      in DAY_NAMES ! (days mod 7) @ '', '' @ pad_to 2 (Suc days) @ '' Sep 2025 at '' @
         pad_to 2 (9 + minutes div 60) @ '':'' @ pad_to 2 (minutes mod 60))"

definition transform_signature :: "email \<Rightarrow> rng \<Rightarrow> transform_context \<Rightarrow> email option" where
  "transform_signature e rng c =
     Some (with_text e (rstrip_chars LF (em_text e) @ LF @ LF @ ''--'' @ LF @ sd_name (tc_sender c) @ LF @
       sd_phone (tc_sender c) @ LF))"

definition transform_forward :: "email \<Rightarrow> rng \<Rightarrow> transform_context \<Rightarrow> email option" where
  "transform_forward e rng c =
     (let block = ''---------- Forwarded message ---------'' @ LF @ ''From: '' @ em_from_addr e @ LF @
            ''Date: '' @ date_text rng @ LF @ ''Subject: '' @ em_subject e @ LF @ ''To: '' @ em_to e @ LF @ LF;
          outer = alternate_display (tc_sender c);
          subject = ''Fwd: '' @ em_subject e
      in Some ((with_text e (block @ em_text e))\<lparr>em_from_addr := outer, em_subject := subject,
           em_envelope := \<lparr>env_to = env_to (em_envelope e), env_from_addr = sd_alternate (tc_sender c)\<rparr>,
           em_ground_truth := (em_ground_truth e)\<lparr>gt_from_addr := outer, gt_subject := subject\<rparr>\<rparr>))"

definition transform_quoted_history :: "email \<Rightarrow> rng \<Rightarrow> transform_context \<Rightarrow> email option" where
  "transform_quoted_history e rng c =
     (let header = ''On '' @ date_text rng @ '', '' @ em_from_addr e @ '' wrote:'';
          lines = (case splitlines (em_text e) of [] \<Rightarrow> [[]] | ls \<Rightarrow> ls);
          quoted = join LF (map (\<lambda>line. ''> '' @ line) lines)
      in Some (with_text e (rstrip (em_text e) @ LF @ LF @ header @ LF @ quoted @ LF)))"

text \<open>The loop that fills lines up to the width: the lines so far, then the current one.\<close>

fun fill_lines :: "nat \<Rightarrow> string list \<Rightarrow> string \<Rightarrow> string list \<Rightarrow> string list" where
  "fill_lines width wrapped current [] = (if current \<noteq> [] then wrapped @ [current] else wrapped)"
| "fill_lines width wrapped current (word # words) =
     (let candidate = strip (current @ '' '' @ word)
      in if width < length candidate \<and> current \<noteq> []
         then fill_lines width (wrapped @ [current]) word words
         else fill_lines width wrapped candidate words)"

text \<open>\<open>re.compile(r"[ \t]{2,}").sub(" ", s)\<close>.\<close>

definition is_blank :: "char \<Rightarrow> bool" where
  "is_blank c \<longleftrightarrow> c = CHR '' '' \<or> c = CHR 0x09"

fun squeeze_runs :: "string \<Rightarrow> string" where
  "squeeze_runs [] = []"
| "squeeze_runs [c] = [c]"
| "squeeze_runs (c # d # cs) =
     (if is_blank c \<and> is_blank d then squeeze_runs (CHR '' '' # cs) else c # squeeze_runs (d # cs))"

definition WIDTHS :: "nat list" where "WIDTHS = [48, 60, 72]"

definition one_line :: "string \<Rightarrow> string" where
  "one_line s = join '' '' (map strip (filter (\<lambda>line. strip line \<noteq> []) (splitlines s)))"

definition transform_reflow_whitespace :: "email \<Rightarrow> rng \<Rightarrow> transform_context \<Rightarrow> email option" where
  "transform_reflow_whitespace e rng c =
     (let joined = one_line (em_text e)
      in if length joined < 40 then None
         else (let wrapped = fill_lines (WIDTHS ! rng 0 (length WIDTHS)) [] [] (split_ws joined)
           in if length wrapped < 2 then None
              else (let t = squeeze_runs (join LF wrapped) @ LF
                in if t = em_text e then None else Some (with_text e t))))"

fun swap_first :: "string \<Rightarrow> (string \<times> string) list \<Rightarrow> string option" where
  "swap_first t [] = None"
| "swap_first t ((original, replacement) # swaps) =
     (if prefix original t then Some (replacement @ drop (length original) t) else swap_first t swaps)"

text \<open>\<open>s.rfind(sub)\<close>.\<close>

fun rfind_sub :: "string \<Rightarrow> string \<Rightarrow> nat option" where
  "rfind_sub sub [] = (if sub = [] then Some 0 else None)"
| "rfind_sub sub (c # cs) =
     (case rfind_sub sub cs of
        Some i \<Rightarrow> Some (Suc i)
      | None \<Rightarrow> if prefix sub (c # cs) then Some 0 else None)"

fun swap_last :: "string \<Rightarrow> (string \<times> string) list \<Rightarrow> string option" where
  "swap_last t [] = None"
| "swap_last t ((original, replacement) # swaps) =
     (case rfind_sub (LF @ original) t of
        Some i \<Rightarrow> Some (take i t @ LF @ replacement @ drop (i + Suc (length original)) t)
      | None \<Rightarrow> swap_last t swaps)"

definition transform_reword_greeting :: "email \<Rightarrow> rng \<Rightarrow> transform_context \<Rightarrow> email option" where
  "transform_reword_greeting e rng c =
     (let english = (tc_language c = ''en'');
          first = (if english then swap_first (em_text e) GREETING_SWAPS else None);
          swapped = (if first = None \<and> english then swap_last (em_text e) SIGNOFF_SWAPS else first);
          reworded = (case swapped of
              Some t \<Rightarrow> Some t
            | None \<Rightarrow> if tc_closings c = [] then None
                else Some (rstrip_chars LF (em_text e) @ LF @ LF @
                  tc_closings c ! rng 0 (length (tc_closings c)) @ LF))
      in case reworded of
           None \<Rightarrow> None
         | Some t \<Rightarrow> if t = em_text e then None else Some (with_text e t))"

definition TRANSFORMS :: "(string \<times> (email \<Rightarrow> rng \<Rightarrow> transform_context \<Rightarrow> email option)) list" where
  "TRANSFORMS =
     [(''add-signature'', transform_signature), (''wrap-forward'', transform_forward),
      (''add-quoted-history'', transform_quoted_history),
      (''reflow-whitespace'', transform_reflow_whitespace),
      (''reword-greeting'', transform_reword_greeting)]"

definition TRANSFORM_NAMES :: "string list" where "TRANSFORM_NAMES = sort (map fst TRANSFORMS)"

definition TRANSFORM_BASELINE :: string where "TRANSFORM_BASELINE = ''baseline''"

section \<open>Families\<close>

datatype read_state = Labelled | ReadNull | NotVisible | ReadNoRecord | NotSent

datatype read_detail = NoDetail | CouldNotSee string | WasNull string | NothingCameBack

record variant =
  vt_intent_id :: string
  vt_language :: string
  vt_transform :: string
  vt_email :: email
  vt_label :: "string option"
  vt_read_state :: read_state
  vt_read_detail :: read_detail

definition new_variant :: "string \<Rightarrow> string \<Rightarrow> string \<Rightarrow> email \<Rightarrow> variant" where
  "new_variant intent_id language name e =
     \<lparr>vt_intent_id = intent_id, vt_language = language, vt_transform = name, vt_email = e,
      vt_label = None, vt_read_state = NotSent, vt_read_detail = NoDetail\<rparr>"

record family =
  fm_intent_id :: string
  fm_category_hint :: string
  fm_variants :: "variant list"

definition STEADY_MAILBOX :: string where "STEADY_MAILBOX = ''intake@example.com''"

text \<open>\<open>_email_for\<close>. A checked fixture has a subject for every language with a body
  (\<open>loaded_subjects\<close> below), so the index is in range.\<close>

definition email_for :: "intent \<Rightarrow> string \<Rightarrow> sender \<Rightarrow> nat \<Rightarrow> email" where
  "email_for i language s subject_index =
     (let body = (case body_for i language of Some b \<Rightarrow> b | None \<Rightarrow> []);
          subjects = subjects_for i language;
          subject = subjects ! (subject_index mod length subjects)
      in \<lparr>em_to = STEADY_MAILBOX, em_from_addr = display s, em_subject = subject, em_text = body @ LF,
          em_html = ''<html><body>'' @ body @ ''</body></html>'',
          em_envelope = \<lparr>env_to = [STEADY_MAILBOX], env_from_addr = sd_address s\<rparr>,
          em_ground_truth = \<lparr>gt_from_addr = display s, gt_subject = subject, gt_body_core = body\<rparr>,
          em_headers = [], em_charsets = [], em_attachments = [], em_raw_fields = [],
          em_extra_form_fields = []\<rparr>)"

text \<open>The key of a generator: the subject draw of an intent, or one transform of one baseline.\<close>

datatype rng_key = SubjectKey int string | TransformKey int string string string

definition languages_of :: "intent list \<Rightarrow> string list" where
  "languages_of is = sort (nub (concat (map (map fst \<circ> it_variants) is)))"

definition variants_of ::
  "(rng_key \<Rightarrow> rng) \<Rightarrow> int \<Rightarrow> string list \<Rightarrow> bool \<Rightarrow> string list dict \<Rightarrow> intent \<Rightarrow> sender \<Rightarrow> nat \<Rightarrow> string \<Rightarrow>
     variant list"
where
  "variants_of R seed wanted include_baseline closings i s subject_index language =
     (if body_for i language = None \<or> body_for i language = Some [] then []
      else (let base = email_for i language s subject_index;
                context = \<lparr>tc_language = language, tc_closings =
                  (case map_of closings language of Some cs \<Rightarrow> cs | None \<Rightarrow> []), tc_sender = s\<rparr>
            in (if include_baseline then [new_variant (it_id i) language TRANSFORM_BASELINE base] else []) @
               List.map_filter (\<lambda>name. map_option (new_variant (it_id i) language name)
                   (the (map_of TRANSFORMS name) base (R (TransformKey seed (it_id i) language name)) context))
                 wanted))"

definition family_of ::
  "(rng_key \<Rightarrow> rng) \<Rightarrow> int \<Rightarrow> string list \<Rightarrow> bool \<Rightarrow> string list dict \<Rightarrow> string list \<Rightarrow> nat \<Rightarrow> intent \<Rightarrow> family"
where
  "family_of R seed wanted include_baseline closings languages index i =
     \<lparr>fm_intent_id = it_id i, fm_category_hint = it_category_hint i,
      fm_variants = concat (map (variants_of R seed wanted include_baseline closings i (sender_for index)
        (R (SubjectKey seed (it_id i)) 0 1000)) languages)\<rparr>"

definition build_families ::
  "(rng_key \<Rightarrow> rng) \<Rightarrow> int \<Rightarrow> intent list \<Rightarrow> string list option \<Rightarrow> bool \<Rightarrow> string list dict \<Rightarrow>
     string list + family list"
where
  "build_families R seed chosen transforms include_baseline closings =
     (let wanted = (case transforms of Some ts \<Rightarrow> ts | None \<Rightarrow> TRANSFORM_NAMES);
          unknown = filter (\<lambda>name. name \<notin> set TRANSFORM_NAMES) wanted
      in if unknown \<noteq> [] then Inl unknown
         else Inr (filter (\<lambda>f. fm_variants f \<noteq> [])
           (map (\<lambda>(index, i). family_of R seed wanted include_baseline closings (languages_of chosen) index i)
             (enumerate 0 chosen))))"

datatype families_error = BadFixture fixture_error | UnknownTransforms "string list"

definition load_families ::
  "(rng_key \<Rightarrow> rng) \<Rightarrow> raw_fixture \<Rightarrow> int \<Rightarrow> nat \<Rightarrow> string list option \<Rightarrow> families_error + family list"
where
  "load_families R raw seed n transforms =
     (case load_fixture raw of
        Inl e \<Rightarrow> Inl (BadFixture e)
      | Inr fx \<Rightarrow>
          (case build_families R seed (take n (fx_intents fx)) transforms True (fx_closings fx) of
             Inl names \<Rightarrow> Inl (UnknownTransforms names)
           | Inr fs \<Rightarrow> Inr fs))"

section \<open>The payloads\<close>

text \<open>The variants in sending order, with the numbers of their family and position.\<close>

definition numbered_variants :: "family list \<Rightarrow> (nat \<times> nat \<times> variant) list" where
  "numbered_variants fs =
     concat (map (\<lambda>(index, f). map (\<lambda>(position, v). (index, position, v)) (enumerate 0 (fm_variants f)))
       (enumerate 0 fs))"

definition tagged_item :: "string \<Rightarrow> int \<Rightarrow> nat \<Rightarrow> string \<Rightarrow> email \<Rightarrow> tag_error + item" where
  "tagged_item tag_prefix seed n record_id source =
     (case make_tag tag_prefix seed (int n) of
        Inl e \<Rightarrow> Inl e
      | Inr tag \<Rightarrow>
          (case stamp source tag no_pins of
             Inl e \<Rightarrow> Inl e
           | Inr e \<Rightarrow> Inr (e, tag, record_id, probe_for e tag record_id [])))"

fun tagged_items :: "string \<Rightarrow> int \<Rightarrow> (nat \<times> string \<times> email) list \<Rightarrow> tag_error + item list" where
  "tagged_items p seed [] = Inr []"
| "tagged_items p seed ((n, record_id, source) # rest) =
     (case tagged_item p seed n record_id source of
        Inl e \<Rightarrow> Inl e
      | Inr x \<Rightarrow> (case tagged_items p seed rest of Inl e \<Rightarrow> Inl e | Inr xs \<Rightarrow> Inr (x # xs)))"

definition steady_items :: "family list \<Rightarrow> string \<Rightarrow> int \<Rightarrow> tag_error + item list" where
  "steady_items fs tag_prefix seed =
     tagged_items tag_prefix seed
       (map (\<lambda>(counter, index, position, v).
           (counter, ''steady-'' @ pad_to 3 index @ ''-'' @ pad_to 3 position, vt_email v))
         (enumerate 0 (numbered_variants fs)))"

definition repeat_items :: "family list \<Rightarrow> nat \<Rightarrow> string \<Rightarrow> int \<Rightarrow> tag_error + item list" where
  "repeat_items fs repeats tag_prefix seed =
     tagged_items (tag_prefix @ ''-repeat'') seed
       (concat (map (\<lambda>(index, f). case fm_variants f of
            [] \<Rightarrow> []
          | v # _ \<Rightarrow> map (\<lambda>attempt. (index * repeats + attempt,
              ''steady-repeat-'' @ pad_to 3 index @ ''-'' @ pad_to 3 attempt, vt_email v)) [0..<repeats])
         (enumerate 0 fs)))"

definition constant_label_risk :: "family list \<Rightarrow> string \<Rightarrow> string option" where
  "constant_label_risk fs label_field =
     (if label_field \<noteq> ''route'' then None
      else (case nub (List.map_filter (\<lambda>v. case env_to (em_envelope (vt_email v)) of [] \<Rightarrow> None | r # _ \<Rightarrow> Some r)
              (concat (map fm_variants fs))) of
          [r] \<Rightarrow> if 2 \<le> length fs then Some r else None
        | _ \<Rightarrow> None))"

section \<open>The words of a text\<close>

lemma split_ws_space: "is_space c \<Longrightarrow> split_ws (a @ c # b) = split_ws a @ split_ws b"
proof (induction a)
  case (Cons d a)
  show ?case
  proof (cases "a \<noteq> [] \<and> \<not> is_space (hd a)")
    case True
    then have "split_ws a \<noteq> []" by (simp add: split_ws_hd_ne)
    with True Cons show ?thesis by (simp add: hd_append)
  next
    case False
    with Cons show ?thesis by (cases a) auto
  qed
qed simp

lemma split_ws_spaces:
  "\<forall>c \<in> set a. is_space c \<Longrightarrow> split_ws (a @ s) = split_ws s"
  "\<forall>c \<in> set a. is_space c \<Longrightarrow> split_ws (s @ a) = split_ws s"
proof -
  show "split_ws (a @ s) = split_ws s" if "\<forall>c \<in> set a. is_space c"
    using that by (induction a) auto
  show "split_ws (s @ a) = split_ws s" if "\<forall>c \<in> set a. is_space c"
    using that by (cases a) (simp_all add: split_ws_space split_ws_Nil_iff)
qed

lemma LF_space [simp]: "is_space CHR 0x0A" "is_space CHR 0x09"
  by (simp_all add: is_space_def)

lemma split_ws_strip: "split_ws (strip s) = split_ws s"
proof -
  obtain a b where ab: "s = a @ strip s @ b" "\<forall>c \<in> set a. is_space c" "\<forall>c \<in> set b. is_space c"
    using strip_eq_append by blast
  then have "split_ws s = split_ws (a @ strip s @ b)" by simp
  also have "\<dots> = split_ws (strip s)" using ab(2,3) by (simp only: split_ws_spaces)
  finally show ?thesis ..
qed

lemma rstrip_parts:
  "s = rstrip s @ rev (takeWhile is_space (rev s))"
  "s = rstrip_chars cs s @ rev (takeWhile (\<lambda>c. c \<in> set cs) (rev s))"
  by (simp_all add: rstrip_def rstrip_chars_def flip: rev_append)

lemma split_ws_rstrip: "split_ws (rstrip s) = split_ws s"
proof -
  have "split_ws s = split_ws (rstrip s @ rev (takeWhile is_space (rev s)))"
    by (rule arg_cong [OF rstrip_parts(1)])
  also have "\<dots> = split_ws (rstrip s)" by (rule split_ws_spaces(2)) (auto dest: set_takeWhileD)
  finally show ?thesis ..
qed

lemma split_ws_rstrip_chars:
  assumes "\<forall>c \<in> set cs. is_space c"
  shows "split_ws (rstrip_chars cs s) = split_ws s"
proof -
  have "split_ws s = split_ws (rstrip_chars cs s @ rev (takeWhile (\<lambda>c. c \<in> set cs) (rev s)))"
    by (rule arg_cong [OF rstrip_parts(2)])
  also have "\<dots> = split_ws (rstrip_chars cs s)"
    using assms by (intro split_ws_spaces(2)) (auto dest: set_takeWhileD)
  finally show ?thesis ..
qed

lemma split_ws_join_LF: "split_ws (join LF ls) = concat (map split_ws ls)"
  by (induction ls rule: induct_list012) (simp_all add: split_ws_space)

lemma split_ws_join_space: "split_ws (join '' '' ls) = concat (map split_ws ls)"
  by (induction ls rule: induct_list012) (simp_all add: split_ws_space)

lemma eol_space: "is_eol c \<Longrightarrow> is_space c"
  by (auto simp: is_eol_def is_space_def)

lemma split_ws_split_lines: "concat (map split_ws (split_lines_from acc s)) = split_ws (rev acc @ s)"
  by (induction acc s rule: split_lines_from.induct) (auto simp: split_ws_space eol_space)

lemma split_ws_one_line: "split_ws (one_line s) = split_ws s"
proof -
  have "concat (map split_ws (filter (\<lambda>line. strip line \<noteq> []) ls)) = concat (map split_ws ls)" for ls
  proof (induction ls)
    case (Cons l ls)
    have "strip l = [] \<Longrightarrow> split_ws l = []" using split_ws_strip [of l] by simp
    with Cons show ?case by simp
  qed simp
  then show ?thesis
    using split_ws_split_lines [of "[]" s]
    by (simp add: one_line_def split_ws_join_space splitlines_def comp_def split_ws_strip)
qed

lemma squeeze_hd: "s \<noteq> [] \<Longrightarrow> squeeze_runs s \<noteq> [] \<and> is_space (hd (squeeze_runs s)) = is_space (hd s)"
  by (induction s rule: squeeze_runs.induct) (auto simp: is_blank_def)

lemma split_ws_squeeze: "split_ws (squeeze_runs s) = split_ws s"
proof (induction s rule: squeeze_runs.induct)
  case (3 c d cs)
  show ?case
  proof (cases "is_blank c \<and> is_blank d")
    case True
    then have "is_space c" "is_space d" by (auto simp: is_blank_def)
    with True 3(1) [OF True] show ?thesis by simp
  next
    case False
    then have sq: "squeeze_runs (c # d # cs) = c # squeeze_runs (d # cs)" by (auto simp: is_blank_def)
    obtain x xs where x: "squeeze_runs (d # cs) = x # xs" "is_space x = is_space d"
      using squeeze_hd [of "d # cs"] by (cases "squeeze_runs (d # cs)") auto
    have "split_ws (x # xs) = split_ws (d # cs)" using 3(2) [OF False] x(1) by simp
    then show ?thesis unfolding sq x(1) using x(2)
      by (simp only: split_ws.simps(2) [of c] list.sel list.distinct simp_thms)
  qed
qed simp_all

section \<open>What a transform keeps\<close>

lemma fill_lines_words:
  "\<forall>w \<in> set words. w \<noteq> [] \<and> (\<forall>c \<in> set w. \<not> is_space c) \<Longrightarrow>
   concat (map split_ws (fill_lines width wrapped current words)) =
     concat (map split_ws wrapped) @ split_ws current @ words"
proof (induction words arbitrary: wrapped current)
  case (Cons w ws)
  then have "split_ws w = [w]" by (simp add: split_ws_word_end)
  moreover have "split_ws (strip (current @ CHR '' '' # w)) = split_ws current @ split_ws w"
    by (simp add: split_ws_strip split_ws_append_space)
  ultimately show ?case using Cons by (simp add: Let_def)
qed simp

lemma fill_lines_width:
  assumes "\<forall>w \<in> set words. w \<noteq> [] \<and> (\<forall>c \<in> set w. \<not> is_space c)"
    "length current \<le> width \<or> (\<forall>c \<in> set current. \<not> is_space c)"
    "\<forall>l \<in> set wrapped. length l \<le> width \<or> (\<forall>c \<in> set l. \<not> is_space c)"
    "l \<in> set (fill_lines width wrapped current words)"
  shows "length l \<le> width \<or> (\<forall>c \<in> set l. \<not> is_space c)"
  using assms
proof (induction words arbitrary: wrapped current)
  case Nil
  then show ?case by (auto split: if_splits)
next
  case (Cons w ws)
  let ?c = "strip (current @ CHR '' '' # w)"
  have w: "\<forall>c \<in> set w. \<not> is_space c" using Cons.prems(1) by simp
  show ?case
  proof (cases "width < length ?c \<and> current \<noteq> []")
    case True
    with Cons.prems show ?thesis by (intro Cons.IH [of w "wrapped @ [current]"]) (auto simp: Let_def)
  next
    case False
    have "?c = w" if "current = []"
      using that strip_no_space [OF w] by (simp add: strip_def lstrip_def)
    then have "length ?c \<le> width \<or> (\<forall>c \<in> set ?c. \<not> is_space c)" using False w by auto
    with False Cons.prems show ?thesis by (intro Cons.IH [of ?c wrapped]) (auto simp: Let_def)
  qed
qed

lemma reflow_words:
  assumes "transform_reflow_whitespace e rng c = Some e'"
  shows "split_ws (em_text e') = split_ws (em_text e)" "em_text e' \<noteq> em_text e"
proof -
  let ?words = "split_ws (one_line (em_text e))"
  let ?ls = "fill_lines (WIDTHS ! rng 0 (length WIDTHS)) [] [] ?words"
  have e': "em_text e' = squeeze_runs (join LF ?ls) @ LF" "em_text e' \<noteq> em_text e"
    using assms by (auto simp: transform_reflow_whitespace_def Let_def with_text_def split: if_splits)
  have "split_ws (em_text e') = concat (map split_ws ?ls)"
    unfolding e'(1) by (simp add: split_ws_space split_ws_squeeze split_ws_join_LF)
  also have "\<dots> = split_ws (em_text e)"
    using fill_lines_words [of ?words _ "[]" "[]"] split_ws_words by (simp add: split_ws_one_line)
  finally show "split_ws (em_text e') = split_ws (em_text e)" .
  show "em_text e' \<noteq> em_text e" by (rule e'(2))
qed

lemma split_ws_LF: "split_ws (a @ CHR 0x0A # b) = split_ws a @ split_ws b"
  by (simp add: split_ws_space)

lemma word_there: "c \<in> set s \<Longrightarrow> \<not> is_space c \<Longrightarrow> split_ws s \<noteq> []"
  by (auto simp: split_ws_Nil_iff)

lemma signature_words:
  assumes "transform_signature e rng c = Some e'"
  shows "\<exists>b. split_ws (em_text e') = split_ws (em_text e) @ b \<and> b \<noteq> []"
proof -
  let ?b = "''--'' @ LF @ sd_name (tc_sender c) @ LF @ sd_phone (tc_sender c) @ LF"
  have "em_text e' = rstrip_chars LF (em_text e) @ CHR 0x0A # CHR 0x0A # ?b"
    using assms by (auto simp: transform_signature_def with_text_def)
  then have "split_ws (em_text e') = split_ws (em_text e) @ split_ws (CHR 0x0A # ?b)"
    by (simp only: split_ws_LF split_ws_rstrip_chars [of LF] LF_space list.set ball_simps simp_thms)
  moreover have "split_ws (CHR 0x0A # ?b) \<noteq> []" by (rule word_there [of "CHR ''-''"]) simp_all
  ultimately show ?thesis by blast
qed

lemma forward_words:
  assumes "transform_forward e rng c = Some e'"
  shows "\<exists>a. split_ws (em_text e') = a @ split_ws (em_text e) \<and> a \<noteq> []"
proof -
  obtain a where a: "em_text e' = (''-'' @ a) @ CHR 0x0A # em_text e"
    using assms by (auto simp: transform_forward_def with_text_def Let_def)
  then have "split_ws (em_text e') = split_ws (''-'' @ a) @ split_ws (em_text e)"
    by (simp only: split_ws_LF)
  moreover have "split_ws (''-'' @ a) \<noteq> []" by (rule word_there [of "CHR ''-''"]) simp_all
  ultimately show ?thesis by blast
qed

lemma quoted_words:
  assumes "transform_quoted_history e rng c = Some e'"
  shows "\<exists>b. split_ws (em_text e') = split_ws (em_text e) @ b \<and> b \<noteq> []"
proof -
  obtain b where b: "em_text e' = rstrip (em_text e) @ CHR 0x0A # CHR 0x0A # ''On'' @ b"
    using assms by (auto simp: transform_quoted_history_def with_text_def Let_def)
  then have "split_ws (em_text e') = split_ws (em_text e) @ split_ws (CHR 0x0A # ''On'' @ b)"
    by (simp only: split_ws_LF split_ws_rstrip)
  moreover have "split_ws (CHR 0x0A # ''On'' @ b) \<noteq> []"
    by (rule word_there [of "CHR ''O''"]) (simp_all add: is_space_def)
  ultimately show ?thesis by blast
qed

lemma reword_words:
  assumes "transform_reword_greeting e rng c = Some e'"
  shows "em_text e' \<noteq> em_text e"
    "tc_language c \<noteq> ''en'' \<Longrightarrow> \<exists>b. split_ws (em_text e') = split_ws (em_text e) @ b"
proof -
  show "em_text e' \<noteq> em_text e"
    using assms by (auto simp: transform_reword_greeting_def Let_def with_text_def split: option.splits if_splits)
  assume "tc_language c \<noteq> ''en''"
  then obtain b where "em_text e' = rstrip_chars LF (em_text e) @ CHR 0x0A # CHR 0x0A # b"
    using assms by (auto simp: transform_reword_greeting_def Let_def with_text_def split: if_splits)
  then have "split_ws (em_text e') = split_ws (em_text e) @ split_ws (CHR 0x0A # b)"
    by (simp only: split_ws_LF split_ws_rstrip_chars [of LF] LF_space list.set ball_simps simp_thms)
  then show "\<exists>b. split_ws (em_text e') = split_ws (em_text e) @ b" by blast
qed

lemma TRANSFORMS_cases:
  assumes "map_of TRANSFORMS name = Some f"
  obtains "name = ''add-signature''" "f = transform_signature" | "name = ''wrap-forward''" "f = transform_forward"
  | "name = ''add-quoted-history''" "f = transform_quoted_history"
  | "name = ''reflow-whitespace''" "f = transform_reflow_whitespace"
  | "name = ''reword-greeting''" "f = transform_reword_greeting"
  using assms unfolding TRANSFORMS_def by (simp split: if_splits)

lemma transform_keeps:
  assumes "map_of TRANSFORMS name = Some f" "f e rng c = Some e'"
  shows "em_text e' \<noteq> em_text e \<and> env_to (em_envelope e') = env_to (em_envelope e) \<and>
    gt_body_core (em_ground_truth e') = gt_body_core (em_ground_truth e) \<and>
    (name = ''reword-greeting'' \<and> tc_language c = ''en'' \<or>
     sublist (split_ws (em_text e)) (split_ws (em_text e')))"
  using assms(1)
proof (cases rule: TRANSFORMS_cases)
  case 1
  then obtain b where "split_ws (em_text e') = split_ws (em_text e) @ b" "b \<noteq> []"
    using signature_words assms(2) by blast
  moreover from this have "em_text e' \<noteq> em_text e" by auto
  ultimately show ?thesis using 1 assms(2) by (auto simp: transform_signature_def with_text_def)
next
  case 2
  then obtain a where "split_ws (em_text e') = a @ split_ws (em_text e)" "a \<noteq> []"
    using forward_words assms(2) by blast
  moreover from this have "em_text e' \<noteq> em_text e" by auto
  ultimately show ?thesis using 2 assms(2) by (auto simp: transform_forward_def with_text_def Let_def)
next
  case 3
  then obtain b where "split_ws (em_text e') = split_ws (em_text e) @ b" "b \<noteq> []"
    using quoted_words assms(2) by blast
  moreover from this have "em_text e' \<noteq> em_text e" by auto
  ultimately show ?thesis using 3 assms(2) by (auto simp: transform_quoted_history_def with_text_def Let_def)
next
  case 4
  then have "split_ws (em_text e') = split_ws (em_text e)" "em_text e' \<noteq> em_text e"
    using reflow_words assms(2) by blast+
  then show ?thesis using 4 assms(2)
    by (auto simp: transform_reflow_whitespace_def with_text_def Let_def split: if_splits)
next
  case 5
  then have "em_text e' \<noteq> em_text e" "tc_language c \<noteq> ''en'' \<Longrightarrow> sublist (split_ws (em_text e)) (split_ws (em_text e'))"
    using reword_words assms(2) by (blast, metis sublist_append_rightI)
  then show ?thesis using 5 assms(2)
    by (auto simp: transform_reword_greeting_def with_text_def Let_def split: if_splits option.splits)
qed

section \<open>Every variant carries its intent\<close>

lemma variants_of_keep:
  assumes "v \<in> set (variants_of R seed wanted ib closings i s k language)" "set wanted \<subseteq> set TRANSFORM_NAMES"
  shows "\<exists>body. body_for i language = Some body \<and> vt_language v = language \<and>
    env_to (em_envelope (vt_email v)) = [STEADY_MAILBOX] \<and> gt_body_core (em_ground_truth (vt_email v)) = body \<and>
    (vt_transform v = TRANSFORM_BASELINE \<and> em_text (vt_email v) = body @ LF \<or>
     vt_transform v \<in> set TRANSFORM_NAMES \<and> em_text (vt_email v) \<noteq> body @ LF \<and>
     (vt_transform v = ''reword-greeting'' \<and> vt_language v = ''en'' \<or>
      sublist (split_ws body) (split_ws (em_text (vt_email v)))))"
proof -
  obtain body where body: "body_for i language = Some body"
    using assms(1) by (auto simp: variants_of_def split: if_splits)
  let ?base = "email_for i language s k"
  have base: "em_text ?base = body @ LF" "env_to (em_envelope ?base) = [STEADY_MAILBOX]"
    "gt_body_core (em_ground_truth ?base) = body"
    using body by (simp_all add: email_for_def Let_def)
  have core: "split_ws (body @ LF) = split_ws body" by (simp add: split_ws_LF)
  consider "v = new_variant (it_id i) language TRANSFORM_BASELINE ?base"
    | name c rng e where "name \<in> set wanted" "the (map_of TRANSFORMS name) ?base rng c = Some e"
      "tc_language c = language" "v = new_variant (it_id i) language name e"
    using assms(1) by (fastforce simp: variants_of_def map_filter_def Let_def split: if_splits)
  then show ?thesis
  proof cases
    case 1
    then show ?thesis using body base by (simp add: new_variant_def)
  next
    case 2
    then have "name \<in> set (map fst TRANSFORMS)" using assms(2) by (auto simp: TRANSFORM_NAMES_def)
    then obtain f where f: "map_of TRANSFORMS name = Some f" by (metis map_of_eq_None_iff not_None_eq list.set_map)
    then have "f ?base rng c = Some e" using 2 by simp
    with transform_keeps [of name f ?base rng c e] f
    have "em_text e \<noteq> em_text ?base \<and> env_to (em_envelope e) = env_to (em_envelope ?base) \<and>
      gt_body_core (em_ground_truth e) = gt_body_core (em_ground_truth ?base) \<and>
      (name = ''reword-greeting'' \<and> tc_language c = ''en'' \<or>
       sublist (split_ws (em_text ?base)) (split_ws (em_text e)))" by blast
    moreover have "name \<in> set TRANSFORM_NAMES" using 2 assms(2) by blast
    ultimately show ?thesis using body base core 2(3,4) by (simp add: new_variant_def)
  qed
qed

lemma family_variants_keep:
  assumes "build_families R seed chosen transforms include_baseline closings = Inr fs"
    "f \<in> set fs" "v \<in> set (fm_variants f)"
  shows "\<exists>i body. i \<in> set chosen \<and> fm_intent_id f = it_id i \<and> body_for i (vt_language v) = Some body \<and>
    env_to (em_envelope (vt_email v)) = [STEADY_MAILBOX] \<and> gt_body_core (em_ground_truth (vt_email v)) = body \<and>
    (vt_transform v = TRANSFORM_BASELINE \<and> em_text (vt_email v) = body @ LF \<or>
     vt_transform v \<in> set TRANSFORM_NAMES \<and> em_text (vt_email v) \<noteq> body @ LF \<and>
     (vt_transform v = ''reword-greeting'' \<and> vt_language v = ''en'' \<or>
      sublist (split_ws body) (split_ws (em_text (vt_email v)))))"
proof -
  let ?wanted = "case transforms of Some ts \<Rightarrow> ts | None \<Rightarrow> TRANSFORM_NAMES"
  have wanted: "set ?wanted \<subseteq> set TRANSFORM_NAMES"
    using assms(1) by (auto simp: build_families_def Let_def filter_empty_conv split: if_splits)
  let ?family = "\<lambda>(index, i). family_of R seed ?wanted include_baseline closings (languages_of chosen) index i"
  have "fs = filter (\<lambda>f. fm_variants f \<noteq> []) (map ?family (enumerate 0 chosen))"
    using assms(1) by (simp add: build_families_def Let_def split: if_splits)
  then have "f \<in> ?family ` set (enumerate 0 chosen)" using assms(2) by simp
  then obtain p where p: "p \<in> set (enumerate 0 chosen)" "f = ?family p" by (rule imageE)
  obtain index i where "p = (index, i)" by (cases p)
  with p have i: "i \<in> set chosen"
    "f = family_of R seed ?wanted include_baseline closings (languages_of chosen) index i"
    by (auto simp: enumerate_eq_zip dest: set_zip_rightD)
  then obtain language where "v \<in> set (variants_of R seed ?wanted include_baseline closings i (sender_for index)
      (R (SubjectKey seed (it_id i)) 0 1000) language)"
    using assms(3) by (auto simp: family_of_def)
  note variants_of_keep [OF this wanted]
  moreover have "fm_intent_id f = it_id i" by (simp add: i(2) family_of_def)
  ultimately show ?thesis using i(1) by metis
qed


section \<open>Every payload has its own tag\<close>

lemma tagged_items_Inr:
  "tagged_items p seed xs = Inr ys \<Longrightarrow>
   list_all2 (\<lambda>(n, record_id, source) (e, tag, rid, pr). make_tag p seed (int n) = Inr tag \<and>
      stamp source tag no_pins = Inr e \<and> rid = record_id) xs ys"
  by (induction p seed xs arbitrary: ys rule: tagged_items.induct)
    (auto simp: tagged_item_def split: sum.splits)

lemma make_tag_index: "make_tag p seed (int m) = Inr t \<Longrightarrow> make_tag p seed (int n) = Inr t \<Longrightarrow> m = n"
  by (auto simp: make_tag_Inr tail_text_def)

lemma list_all2_partner: "list_all2 P xs ys \<Longrightarrow> y \<in> set ys \<Longrightarrow> \<exists>x. x \<in> set xs \<and> P x y"
  by (induction rule: list_all2_induct) auto

lemma tagged_items_distinct:
  assumes "tagged_items p seed xs = Inr ys" "distinct (map fst xs)"
  shows "distinct (map (fst \<circ> snd) ys)"
  using tagged_items_Inr [OF assms(1)] assms(2)
proof (induction rule: list_all2_induct)
  case (Cons x xs y ys)
  have "fst (snd y) \<noteq> fst (snd z)" if "z \<in> set ys" for z
  proof -
    note z = that
    obtain w where "w \<in> set xs" "make_tag p seed (int (fst w)) = Inr (fst (snd z))"
      using list_all2_partner [OF Cons.hyps(2) z] by (fastforce simp: split_beta)
    moreover have "fst w \<noteq> fst x" using Cons.prems \<open>w \<in> set xs\<close> by (metis distinct.simps(2) image_eqI list.set_map list.simps(9))
    ultimately show ?thesis using make_tag_index [of p seed "fst w" _ "fst x"] Cons.hyps(1)
      by (auto simp: split_beta)
  qed
  then show ?case using Cons by auto
qed simp

lemma tagged_items_made:
  "tagged_items p seed xs = Inr ys \<Longrightarrow> y \<in> set ys \<Longrightarrow> \<exists>n. make_tag p seed (int n) = Inr (fst (snd y))"
  by (drule tagged_items_Inr) (fastforce simp: list_all2_conv_all_nth in_set_conv_nth split_beta)

lemma make_tag_repeat:
  assumes "make_tag p seed m = Inr t"
  shows "make_tag (p @ ''-repeat'') seed n \<noteq> Inr t"
proof -
  have "hd (str_of_nat k) \<noteq> CHR ''r''" for k
  proof -
    have "is_digit (hd (str_of_nat k))" using str_of_nat_digits [of k] hd_in_set by fastforce
    then show ?thesis by (auto simp: is_digit_def)
  qed
  then have "str_of_nat k @ x \<noteq> CHR ''r'' # y" for k x y
    using str_of_nat_ne [of k] by (metis hd_append2 list.sel(1))
  then show ?thesis using assms by (auto simp: make_tag_Inr tail_text_def)
qed

lemma repeat_numbers:
  "distinct (map fst (concat (map (\<lambda>(index, f). case fm_variants f of [] \<Rightarrow> []
       | v # _ \<Rightarrow> map (\<lambda>attempt. (index * repeats + attempt, rid index attempt, vt_email v)) [0..<repeats])
     (enumerate k fs)))) \<and>
   (\<forall>x \<in> set (concat (map (\<lambda>(index, f). case fm_variants f of [] \<Rightarrow> []
       | v # _ \<Rightarrow> map (\<lambda>attempt. (index * repeats + attempt, rid index attempt, vt_email v)) [0..<repeats])
     (enumerate k fs))). k * repeats \<le> fst x)"
proof (induction fs arbitrary: k)
  case (Cons f fs)
  note IH = Cons.IH [of "Suc k"]
  show ?case
  proof (cases "fm_variants f")
    case Nil
    with IH show ?thesis by force
  next
    case (Cons v vs)
    have "distinct (map (\<lambda>attempt. k * repeats + attempt) [0..<repeats])" by (simp add: distinct_map inj_on_def)
    with Cons IH show ?thesis by (fastforce simp: comp_def)
  qed
qed simp

text \<open>Every payload has its own tag. The variants are sent in family order, one stamped payload
  each, and no two payloads of a run, repeats included, share a tag, so a label read under a tag
  is the label of that payload.\<close>

theorem payload_tags_distinct:
  assumes "steady_items fs tag_prefix seed = Inr xs" "repeat_items fs repeats tag_prefix seed = Inr ys"
  shows "distinct (map (fst \<circ> snd) (xs @ ys)) \<and>
    list_all2 (\<lambda>v x. stamp (vt_email v) (fst (snd x)) no_pins = Inr (fst x)) (concat (map fm_variants fs)) xs"
proof -
  have one: "map (\<lambda>(index, position, v). v) (map (Pair k) (enumerate n vs)) = vs" for k n and vs :: "variant list"
    by (simp add: comp_def split_beta)
  have variants: "map (\<lambda>(index, position, v). v) (concat (map (\<lambda>(index, f).
      map (\<lambda>(position, v). (index, position, v)) (enumerate 0 (fm_variants f))) (enumerate k fs))) =
      concat (map fm_variants fs)" for k
    by (induction fs arbitrary: k) (simp_all add: one del: map_map)
  have "distinct (map (fst \<circ> snd) xs)"
    using assms(1) unfolding steady_items_def
    by (rule tagged_items_distinct) (simp add: comp_def split_beta enumerate_eq_zip)
  moreover have "distinct (map (fst \<circ> snd) ys)"
    using assms(2) unfolding repeat_items_def
    by (rule tagged_items_distinct) (rule repeat_numbers [THEN conjunct1])
  moreover have "fst (snd x) \<noteq> fst (snd y)" if "x \<in> set xs" "y \<in> set ys" for x y
    using tagged_items_made [OF assms(1) [unfolded steady_items_def] that(1)]
      tagged_items_made [OF assms(2) [unfolded repeat_items_def] that(2)] make_tag_repeat by metis
  moreover have "list_all2 (\<lambda>v x. stamp (vt_email v) (fst (snd x)) no_pins = Inr (fst x))
      (map (\<lambda>(index, position, v). v) (map snd (enumerate 0 (numbered_variants fs)))) xs"
    using tagged_items_Inr [OF assms(1) [unfolded steady_items_def]]
    by (simp add: list_all2_conv_all_nth split_beta nth_enumerate_eq)
  ultimately show ?thesis using variants [of 0] by (auto simp: numbered_variants_def)
qed

section \<open>A concrete fixture\<close>

definition sample_raw :: raw_fixture where
  "sample_raw = \<lparr>rx_intents = Some
     [\<lparr>ri_id = Some ''refund'', ri_category_hint = Some ''billing'', ri_note = None,
       ri_variants = Some [(''en'', ''Refund me'')], ri_subjects = Some [(''en'', [''Charged twice''])]\<rparr>,
      \<lparr>ri_id = Some ''login'', ri_category_hint = None, ri_note = None,
       ri_variants = Some [(''en'', ''No login'')], ri_subjects = Some [(''en'', [''Locked out''])]\<rparr>],
     rx_closings = Some [(''en'', [''Thanks,''])]\<rparr>"

definition sample_intent :: intent where
  "sample_intent = \<lparr>it_id = ''refund'', it_category_hint = ''billing'', it_note = [],
     it_variants = [(''en'', ''Refund me'')], it_subjects = [(''en'', [''Charged twice''])]\<rparr>"

definition sample_rngs :: "rng_key \<Rightarrow> rng" where "sample_rngs key k bound = 0"

definition sample_families :: "family list" where
  "sample_families =
     (case build_families sample_rngs 0 [sample_intent] (Some [''add-signature'', ''reword-greeting'']) True [] of
        Inr fs \<Rightarrow> fs | Inl _ \<Rightarrow> [])"

lemma sample_families_built:
  "build_families sample_rngs 0 [sample_intent] (Some [''add-signature'', ''reword-greeting'']) True [] =
     Inr sample_families"
proof -
  have "case build_families sample_rngs 0 [sample_intent] (Some [''add-signature'', ''reword-greeting'']) True [] of
      Inr _ \<Rightarrow> True | Inl _ \<Rightarrow> False" by code_simp
  then show ?thesis unfolding sample_families_def
    by (cases "build_families sample_rngs 0 [sample_intent] (Some [''add-signature'', ''reword-greeting'']) True []")
      simp_all
qed


theorem payload_tags_distinct_witness:
  "\<exists>xs ys. steady_items sample_families ''hq'' 0 = Inr xs \<and> repeat_items sample_families 2 ''hq'' 0 = Inr ys \<and>
     length (xs @ ys) = 4 \<and> distinct (map (fst \<circ> snd) (xs @ ys))"
proof -
  have x: "case steady_items sample_families ''hq'' 0 of Inl _ \<Rightarrow> False | Inr xs \<Rightarrow> length xs = 2"
    and y: "case repeat_items sample_families 2 ''hq'' 0 of Inl _ \<Rightarrow> False | Inr ys \<Rightarrow> length ys = 2"
    by code_simp+
  obtain xs where xs: "steady_items sample_families ''hq'' 0 = Inr xs" "length xs = 2"
    using x by (cases "steady_items sample_families ''hq'' 0") simp_all
  obtain ys where ys: "repeat_items sample_families 2 ''hq'' 0 = Inr ys" "length ys = 2"
    using y by (cases "repeat_items sample_families 2 ''hq'' 0") simp_all
  show ?thesis using payload_tags_distinct [OF xs(1) ys(1)] xs ys by auto
qed

end
