(* ===== verification/Steady.thy ===== *)
theory Steady
  imports Steady_Families Run Json Py_Repr
begin

text \<open>\<open>steady\<close> (\<open>pipeline/steady.py\<close>): how far the label a classifier gives moves within a family
  of rewrites of one message. Majority dissent, pairwise flips, repeats, breakdowns, the gate,
  reading the labels back and the run. The numbers are exact rationals where the code has
  floats; the config block, printing and the artifact of an interrupted run are left out.\<close>

section \<open>The maths\<close>

definition total_pairs :: "nat \<Rightarrow> nat" where
  "total_pairs n = n * (n - 1) div 2"

definition known_labels :: "string option list \<Rightarrow> string list" where
  "known_labels ls = List.map_filter id ls"

definition flipped_pairs :: "string option list \<Rightarrow> int" where
  "flipped_pairs ls =
     (let known = known_labels ls
      in if length known < 2 then 0
         else int (total_pairs (length known)) - sum_list (map (\<lambda>(l, n). int (total_pairs n)) (tally known)))"

text \<open>\<open>min\<close> by the key (minus the count, the label).\<close>

fun best_label :: "string \<times> nat \<Rightarrow> (string \<times> nat) list \<Rightarrow> string \<times> nat" where
  "best_label b [] = b"
| "best_label (bl, bn) ((l, n) # rest) =
     best_label (if bn < n \<or> n = bn \<and> l < bl then (l, n) else (bl, bn)) rest"

definition majority_label :: "string option list \<Rightarrow> string option" where
  "majority_label ls =
     (case tally (known_labels ls) of [] \<Rightarrow> None | b # rest \<Rightarrow> Some (fst (best_label b rest)))"

record pair_counts =
  pc_same :: nat
  pc_same_flips :: nat
  pc_cross :: nat
  pc_cross_flips :: nat

definition no_pairs :: pair_counts where
  "no_pairs = \<lparr>pc_same = 0, pc_same_flips = 0, pc_cross = 0, pc_cross_flips = 0\<rparr>"

definition add_pairs :: "pair_counts \<Rightarrow> pair_counts \<Rightarrow> pair_counts" where
  "add_pairs a b = \<lparr>pc_same = pc_same a + pc_same b, pc_same_flips = pc_same_flips a + pc_same_flips b,
     pc_cross = pc_cross a + pc_cross b, pc_cross_flips = pc_cross_flips a + pc_cross_flips b\<rparr>"

fun pairs_with :: "variant \<Rightarrow> variant list \<Rightarrow> pair_counts \<Rightarrow> pair_counts" where
  "pairs_with left [] c = c"
| "pairs_with left (right # rest) c =
     (let flip = of_bool (vt_label left \<noteq> vt_label right)
      in pairs_with left rest
        (if vt_language left = vt_language right
         then c\<lparr>pc_same := pc_same c + 1, pc_same_flips := pc_same_flips c + flip\<rparr>
         else c\<lparr>pc_cross := pc_cross c + 1, pc_cross_flips := pc_cross_flips c + flip\<rparr>))"

fun split_pairs :: "variant list \<Rightarrow> pair_counts \<Rightarrow> pair_counts" where
  "split_pairs [] c = c"
| "split_pairs (left # rest) c = split_pairs rest (pairs_with left rest c)"

definition family_pair_split :: "family \<Rightarrow> pair_counts" where
  "family_pair_split f = split_pairs (filter (\<lambda>v. vt_label v \<noteq> None) (fm_variants f)) no_pairs"

record family_result =
  fr_intent_id :: string
  fr_category_hint :: string
  fr_variants :: nat
  fr_labelled :: nat
  fr_majority :: "string option"
  fr_dissenters :: "(string \<times> string \<times> string) list"
  fr_pairs :: nat
  fr_flips :: int

definition fr_consistent :: "family_result \<Rightarrow> bool" where
  "fr_consistent r \<longleftrightarrow> fr_dissenters r = []"

definition fully_labelled :: "family_result \<Rightarrow> bool" where
  "fully_labelled r \<longleftrightarrow> fr_labelled r = fr_variants r"

definition fr_dissent_rate :: "family_result \<Rightarrow> rat option" where
  "fr_dissent_rate r =
     (if fr_labelled r = 0 then None else Some (of_nat (length (fr_dissenters r)) / of_nat (fr_labelled r)))"

definition judge_family :: "family \<Rightarrow> family_result" where
  "judge_family f =
     (let ls = map vt_label (fm_variants f);
          majority = majority_label ls;
          labelled = length (filter (\<lambda>l. l \<noteq> None) ls)
      in \<lparr>fr_intent_id = fm_intent_id f, fr_category_hint = fm_category_hint f,
          fr_variants = length (fm_variants f), fr_labelled = labelled, fr_majority = majority,
          fr_dissenters = map (\<lambda>v. (vt_transform v, vt_language v, the (vt_label v)))
            (filter (\<lambda>v. vt_label v \<noteq> None \<and> vt_label v \<noteq> majority) (fm_variants f)),
          fr_pairs = total_pairs labelled, fr_flips = flipped_pairs ls\<rparr>)"

definition judge_families :: "family list \<Rightarrow> family_result list" where
  "judge_families fs = map judge_family fs"

definition rate_of :: "rat \<Rightarrow> rat \<Rightarrow> rat option" where
  "rate_of numerator denominator = (if denominator = 0 then None else Some (numerator / denominator))"

section \<open>The report\<close>

record stability_report =
  sy_families :: "family list"
  sy_repeats :: nat
  sy_repeat_labels :: "string option list dict"
  sy_label_field :: string

definition sy_results :: "stability_report \<Rightarrow> family_result list" where
  "sy_results r = judge_families (sy_families r)"

definition labelled_variants :: "stability_report \<Rightarrow> nat" where
  "labelled_variants r = sum_list (map fr_labelled (sy_results r))"

definition dissenters :: "stability_report \<Rightarrow> nat" where
  "dissenters r = sum_list (map (length \<circ> fr_dissenters) (sy_results r))"

definition dissent_rate :: "stability_report \<Rightarrow> rat option" where
  "dissent_rate r = rate_of (of_nat (dissenters r)) (of_nat (labelled_variants r))"

definition sy_pairs :: "stability_report \<Rightarrow> nat" where
  "sy_pairs r = sum_list (map fr_pairs (sy_results r))"

definition sy_flips :: "stability_report \<Rightarrow> int" where
  "sy_flips r = sum_list (map fr_flips (sy_results r))"

definition flip_rate :: "stability_report \<Rightarrow> rat option" where
  "flip_rate r = rate_of (of_int (sy_flips r)) (of_nat (sy_pairs r))"

definition pair_split :: "stability_report \<Rightarrow> pair_counts" where
  "pair_split r = foldl (\<lambda>c f. add_pairs c (family_pair_split f)) no_pairs (sy_families r)"

definition inconsistent_families :: "stability_report \<Rightarrow> family_result list" where
  "inconsistent_families r = filter (\<lambda>x. \<not> fr_consistent x) (sy_results r)"

definition unlabelled_families :: "stability_report \<Rightarrow> family_result list" where
  "unlabelled_families r = filter (\<lambda>x. \<not> fully_labelled x) (sy_results r)"

definition all_variants :: "stability_report \<Rightarrow> variant list" where
  "all_variants r = concat (map fm_variants (sy_families r))"

definition read_states :: "stability_report \<Rightarrow> (read_state \<times> nat) list" where
  "read_states r =
     (let states = map vt_read_state (all_variants r)
      in map (\<lambda>s. (s, count_list states s))
        ([Labelled, ReadNull, NotVisible, ReadNoRecord] @ (if NotSent \<in> set states then [NotSent] else [])))"

definition constant_label :: "stability_report \<Rightarrow> string option" where
  "constant_label r =
     (case nub (known_labels (map vt_label (all_variants r))) of
        [l] \<Rightarrow> if 2 \<le> length (filter (\<lambda>x. fr_labelled x \<noteq> 0) (sy_results r)) then Some l else None
      | _ \<Rightarrow> None)"

text \<open>The numbers of the sentence \<open>sample_size\<close>: families, the distinct family sizes, labelled variants.\<close>

definition sample_size :: "stability_report \<Rightarrow> nat \<times> nat list \<times> nat" where
  "sample_size r =
     (length (sy_families r), sort (nub (map (length \<circ> fm_variants) (sy_families r))), labelled_variants r)"

definition repeat_by_family :: "stability_report \<Rightarrow> rat option dict" where
  "repeat_by_family r =
     map (\<lambda>(intent_id, ls).
       (let known = known_labels ls
        in (intent_id, if sy_repeats r < 2 \<or> length known < sy_repeats r then None
             else Some (1 - of_nat (Max (set (map snd (tally known)))) / of_nat (sy_repeats r)))))
       (sy_repeat_labels r)"

definition repeat_instability :: "stability_report \<Rightarrow> rat option" where
  "repeat_instability r =
     (let values = map snd (repeat_by_family r)
      in if sy_repeats r < 2 \<or> values = [] \<or> None \<in> set values then None
         else Some (sum_list (map the values) / of_nat (length values)))"

record bucket_of =
  sb_variants :: nat
  sb_dissenters :: nat
  sb_rate :: "rat option"

text \<open>Each labelled variant beside its family's majority, then the bucket of one key.\<close>

definition judged_variants :: "stability_report \<Rightarrow> (variant \<times> string option) list" where
  "judged_variants r = concat (map (\<lambda>(f, x). map (\<lambda>v. (v, fr_majority x)) (fm_variants f))
     (zip (sy_families r) (sy_results r)))"

definition bucket_of_key :: "(variant \<Rightarrow> string) \<Rightarrow> stability_report \<Rightarrow> string \<Rightarrow> bucket_of" where
  "bucket_of_key key r k =
     (let members = filter (\<lambda>(v, m). key v = k \<and> vt_label v \<noteq> None) (judged_variants r);
          n = length members;
          d = length (filter (\<lambda>(v, m). vt_label v \<noteq> m) members)
      in \<lparr>sb_variants = n, sb_dissenters = d, sb_rate = rate_of (of_nat d) (of_nat n)\<rparr>)"

definition breakdown :: "(variant \<Rightarrow> string) \<Rightarrow> stability_report \<Rightarrow> (string \<times> bucket_of) list" where
  "breakdown key r =
     sort_key (\<lambda>(k, b). - (case sb_rate b of Some q \<Rightarrow> q | None \<Rightarrow> 0))
       (map (\<lambda>k. (k, bucket_of_key key r k)) (sort (nub (map (key \<circ> fst) (judged_variants r)))))"

definition by_transform :: "stability_report \<Rightarrow> (string \<times> bucket_of) list" where
  "by_transform r = breakdown vt_transform r"

definition by_language :: "stability_report \<Rightarrow> (string \<times> bucket_of) list" where
  "by_language r = breakdown vt_language r"

section \<open>Verdict and gate\<close>

definition verdict_for :: "stability_report \<Rightarrow> string" where
  "verdict_for r =
     (let verdict = (case dissent_rate r of
            None \<Rightarrow> ''NOTHING MEASURED''
          | Some rate \<Rightarrow> if rate = 0 then ''STABLE'' else if rate \<le> 5 / 100 then ''MOSTLY STABLE'' else ''UNSTABLE'')
      in case constant_label r of
           None \<Rightarrow> verdict
         | Some l \<Rightarrow> verdict @ '' (WARNING: every family read the one label '' @ repr_str l @ '')'')"

datatype gate_reason =
    NothingMeasured string
  | PartlyMeasured nat nat string
  | DissentOver rat rat
  | FlipsOver rat rat
  | WithinGate rat rat
  | AllLookups404
  | NotJudged "unsettled_reason option"

definition DEFAULT_MAX_DISSENT_RATE :: rat where "DEFAULT_MAX_DISSENT_RATE = 10 / 100"

definition gate :: "stability_report \<Rightarrow> rat \<Rightarrow> rat option \<Rightarrow> bool \<times> gate_reason" where
  "gate r max_dissent max_flip =
     (case dissent_rate r of
        None \<Rightarrow> (True, NothingMeasured (sy_label_field r))
      | Some rate \<Rightarrow>
          if unlabelled_families r \<noteq> []
          then (True, PartlyMeasured (length (unlabelled_families r)) (length (sy_results r)) (sy_label_field r))
          else if max_dissent < rate then (True, DissentOver rate max_dissent)
          else (case (max_flip, flip_rate r) of
              (Some m, Some q) \<Rightarrow> if m < q then (True, FlipsOver q m) else (False, WithinGate rate max_dissent)
            | _ \<Rightarrow> (False, WithinGate rate max_dissent)))"

section \<open>Reading the labels\<close>

definition LABEL_FIELD :: string where "LABEL_FIELD = ''route''"
definition LABEL_FIELDS :: "string list" where "LABEL_FIELDS = [''category'', ''route'', ''priority'']"

record label_read =
  lr_label :: "string option"
  lr_state :: read_state
  lr_detail :: read_detail

definition read_label :: "readback list \<Rightarrow> string \<Rightarrow> label_read" where
  "read_label readbacks label_field =
     (case readbacks of
        [] \<Rightarrow> \<lparr>lr_label = None, lr_state = ReadNoRecord, lr_detail = NothingCameBack\<rparr>
      | r # _ \<Rightarrow>
          if \<not> has r label_field
          then \<lparr>lr_label = None, lr_state = NotVisible, lr_detail = CouldNotSee label_field\<rparr>
          else (case value_of r label_field of
              Some (PStr s) \<Rightarrow> \<lparr>lr_label = Some s, lr_state = Labelled, lr_detail = NoDetail\<rparr>
            | _ \<Rightarrow> \<lparr>lr_label = None, lr_state = ReadNull, lr_detail = WasNull label_field\<rparr>))"

definition with_label :: "label_read \<Rightarrow> variant \<Rightarrow> variant" where
  "with_label x v = v\<lparr>vt_label := lr_label x, vt_read_state := lr_state x, vt_read_detail := lr_detail x\<rparr>"

fun read_labels :: "family list \<Rightarrow> string list \<Rightarrow> (string \<Rightarrow> readback list) \<Rightarrow> string \<Rightarrow> family list" where
  "read_labels [] tags readbacks label_field = []"
| "read_labels (f # fs) tags readbacks label_field =
     (let n = length (fm_variants f)
      in f\<lparr>fm_variants := map2 (\<lambda>v tag. with_label (read_label (readbacks tag) label_field) v)
           (fm_variants f) (take n tags)\<rparr> # read_labels fs (drop n tags) readbacks label_field)"

fun repeat_labels_from ::
  "family list \<Rightarrow> string list \<Rightarrow> nat \<Rightarrow> (string \<Rightarrow> readback list) \<Rightarrow> string \<Rightarrow>
     string option list dict \<Rightarrow> string option list dict"
where
  "repeat_labels_from [] tags repeats readbacks label_field out = out"
| "repeat_labels_from (f # fs) tags repeats readbacks label_field out =
     (if fm_variants f = [] then repeat_labels_from fs tags repeats readbacks label_field out
      else repeat_labels_from fs (drop repeats tags) repeats readbacks label_field
        (AList.update (fm_intent_id f)
          (map (\<lambda>tag. lr_label (read_label (readbacks tag) label_field)) (take repeats tags)) out))"

definition repeat_labels ::
  "family list \<Rightarrow> string list \<Rightarrow> nat \<Rightarrow> (string \<Rightarrow> readback list) \<Rightarrow> string \<Rightarrow> string option list dict"
where
  "repeat_labels fs tags repeats readbacks label_field =
     (if tags = [] then [] else repeat_labels_from fs tags repeats readbacks label_field [])"

section \<open>The run\<close>

record steady_params =
  yp_seed :: int
  yp_count :: int
  yp_target :: "string option"
  yp_readback :: rate_source
  yp_tag_prefix :: string
  yp_label_field :: "string option"
  yp_transforms :: "string list option"
  yp_repeats :: int
  yp_max_dissent_rate :: rat
  yp_max_flip_rate :: "rat option"
  yp_rate :: rat
  yp_quiet_window :: seconds
  yp_max_wait :: "seconds option"
  yp_poll_interval :: seconds
  yp_allow_public :: bool

record steady_gate =
  sg_failed :: bool
  sg_judged :: bool
  sg_reason :: gate_reason

record steady_artifact =
  ya_report :: stability_report
  ya_verdict :: string
  ya_verdict_source :: verdict_source
  ya_headline :: "headline option"
  ya_gate :: steady_gate
  ya_sent :: nat
  ya_unsettled :: bool

definition steady_field :: "steady_params \<Rightarrow> string" where
  "steady_field P = (if truthy (yp_label_field P) then the (yp_label_field P) else LABEL_FIELD)"

definition steady_judge ::
  "steady_params \<Rightarrow> family list \<Rightarrow> string list \<Rightarrow> string list \<Rightarrow> nat \<Rightarrow> outcome \<Rightarrow> nat \<times> steady_artifact"
where
  "steady_judge P fs tags repeated_tags nsent out =
     (let labelled = read_labels fs tags (held out) (steady_field P);
          report = \<lparr>sy_families = labelled,
            sy_repeats = (if repeated_tags \<noteq> [] then nat (yp_repeats P) else 0),
            sy_repeat_labels = repeat_labels fs repeated_tags (nat (yp_repeats P)) (held out) (steady_field P),
            sy_label_field = steady_field P\<rparr>;
          measured = gate report (yp_max_dissent_rate P) (yp_max_flip_rate P);
          final = (if ro_failed out then (True, AllLookups404)
            else if ro_unsettled out then (True, NotJudged (ro_reason out)) else measured);
          v = readback_verdict (verdict_for report) (Some out)
      in (if fst final then EXIT_MISMATCH else EXIT_OK,
          \<lparr>ya_report = report, ya_verdict = fst v, ya_verdict_source = snd v, ya_headline = ro_headline out,
           ya_gate = \<lparr>sg_failed = fst final, sg_judged = (\<not> (ro_failed out \<or> ro_unsettled out)),
             sg_reason = snd final\<rparr>,
           ya_sent = nsent, ya_unsettled = ro_unsettled out\<rparr>))"

datatype steady_refusal =
    BadLabelField string
  | NegativeGate
  | BadRepeats int
  | BadCount int
  | UnreadableFixture
  | ConstantLabel string
  | GuardRefused

text \<open>The checks of \<open>execute\<close> before any payload is built, and the families they let through.\<close>

definition steady_checks ::
  "(rng_key \<Rightarrow> rng) \<Rightarrow> raw_fixture option \<Rightarrow> steady_params \<Rightarrow> steady_refusal + family list"
where
  "steady_checks R raw P =
     (if steady_field P \<notin> set LABEL_FIELDS then Inl (BadLabelField (steady_field P))
      else if yp_max_dissent_rate P < 0 \<or> (case yp_max_flip_rate P of Some m \<Rightarrow> m < 0 | None \<Rightarrow> False)
      then Inl NegativeGate
      else if yp_repeats P < 1 then Inl (BadRepeats (yp_repeats P))
      else if yp_count P < 1 then Inl (BadCount (yp_count P))
      else (case raw of
          None \<Rightarrow> Inl UnreadableFixture
        | Some x \<Rightarrow>
            (case load_families R x (yp_seed P) (nat (yp_count P)) (yp_transforms P) of
               Inl e \<Rightarrow> Inl UnreadableFixture
             | Inr fs \<Rightarrow>
                 (case (if yp_label_field P = None then constant_label_risk fs (steady_field P) else None) of
                    Some l \<Rightarrow> Inl (ConstantLabel l)
                  | None \<Rightarrow> Inr fs))))"

definition steady_execute ::
  "('w, 'q) env \<Rightarrow> (rng_key \<Rightarrow> rng) \<Rightarrow> raw_fixture option \<Rightarrow> steady_params \<Rightarrow> 'w \<Rightarrow>
     ((tag_error + nat \<times> steady_artifact option) \<times> 'w) option"
where
  "steady_execute E R raw P w =
     (case steady_checks R raw P of
        Inl e \<Rightarrow> Some (Inr (EXIT_REFUSED, None), w)
      | Inr fs \<Rightarrow>
      (case steady_items fs (yp_tag_prefix P) (yp_seed P) of
        Inl e \<Rightarrow> Some (Inl e, w)
      | Inr items \<Rightarrow>
      (case (if 1 < yp_repeats P then repeat_items fs (nat (yp_repeats P)) (yp_tag_prefix P) (yp_seed P)
             else Inr []) of
        Inl e \<Rightarrow> Some (Inl e, w)
      | Inr repeated \<Rightarrow>
      (let payloads = items @ repeated in
      case require_synthetic (en_net E) (map fst payloads) of
        Inl e \<Rightarrow> Some (Inr (EXIT_REFUSED, None), w)
      | Inr _ \<Rightarrow>
      (case resolve_target (en_net E) (yp_target P) (en_config E) (yp_allow_public P) [] of
        Inl e \<Rightarrow> Some (Inr (EXIT_REFUSED, None), w)
      | Inr target \<Rightarrow>
      (case en_prepare E w of
        (Inl e, w1) \<Rightarrow> Some (Inr (EXIT_REFUSED, None), w1)
      | (Inr b, w1) \<Rightarrow>
      (let ps = readback_poll_settings (length payloads) (Some (yp_readback P)) (yp_quiet_window P)
                  (yp_max_wait P) (yp_poll_interval P);
           A = \<lparr>pa_timing = en_timing E, pa_source = bt_source b, pa_repr = en_repr E,
                pa_quiet_window = yp_quiet_window P, pa_max_wait = ps_max_wait ps,
                pa_poll_interval = yp_poll_interval P\<rparr> in
      case send_all (en_timing E) (en_client E (rt_url target)) (en_build E (rt_format_name target))
             payloads (yp_rate P) w1 of
        None \<Rightarrow> None
      | Some (Inl e, w2) \<Rightarrow> Some (Inr (EXIT_REFUSED, None), bt_close b w2)
      | Some (Inr sent, w2) \<Rightarrow>
      (case read_back_all A (map (\<lambda>(e, t, r, p). p) payloads) w2 of
        None \<Rightarrow> None
      | Some (Inl e, w3) \<Rightarrow> Some (Inr (EXIT_REFUSED, None), bt_close b w3)
      | Some (Inr out, w3) \<Rightarrow>
          (case steady_judge P fs (map (fst \<circ> snd) items) (map (fst \<circ> snd) repeated) (length sent) out of
             (code, artifact) \<Rightarrow> Some (Inr (code, Some artifact), bt_close b w3))))))))))"

section \<open>Facts about pairs\<close>

lemma total_pairs_Suc: "total_pairs (Suc n) = total_pairs n + n"
proof -
  have "Suc n * n = n * (n - 1) + 2 * n" by (cases n) simp_all
  then show ?thesis by (simp add: total_pairs_def)
qed

lemma total_pairs_0 [simp]: "total_pairs 0 = 0" "total_pairs (Suc 0) = 0"
  by (simp_all add: total_pairs_def)

text \<open>The pairs that differ, one element at a time.\<close>

fun differing :: "'a list \<Rightarrow> nat" where
  "differing [] = 0"
| "differing (x # xs) = length (filter (\<lambda>y. y \<noteq> x) xs) + differing xs"

lemma length_filter_ne: "length (filter (\<lambda>y. y \<noteq> x) xs) + count_list xs x = length xs"
  by (induction xs) auto

lemma equal_pairs_Cons:
  "(\<Sum>l \<in> set (x # xs). total_pairs (count_list (x # xs) l)) =
   (\<Sum>l \<in> set xs. total_pairs (count_list xs l)) + count_list xs x"
proof -
  let ?A = "insert x (set xs)"
  have "(\<Sum>l \<in> ?A. total_pairs (count_list (x # xs) l)) =
      total_pairs (Suc (count_list xs x)) + (\<Sum>l \<in> set xs - {x}. total_pairs (count_list xs l))"
    by (simp add: sum.insert_remove) (rule sum.cong, auto)
  moreover have "(\<Sum>l \<in> set xs. total_pairs (count_list xs l)) =
      total_pairs (count_list xs x) + (\<Sum>l \<in> set xs - {x}. total_pairs (count_list xs l))"
    by (cases "x \<in> set xs") (simp_all add: sum.remove count_list_0_iff)
  ultimately show ?thesis by (simp add: total_pairs_Suc)
qed

lemma differing_complement:
  "differing xs + (\<Sum>l \<in> set xs. total_pairs (count_list xs l)) = total_pairs (length xs)"
proof (induction xs)
  case (Cons x xs)
  then show ?case using length_filter_ne [of x xs]
    by (simp only: equal_pairs_Cons differing.simps list.size total_pairs_Suc add_0_right add_Suc_right)
qed simp

lemma flipped_pairs_differing: "flipped_pairs ls = int (differing (known_labels ls))"
proof -
  let ?k = "known_labels ls"
  have t: "sum_list (map (\<lambda>(l, n). int (total_pairs n)) (tally ?k)) =
      int (\<Sum>l \<in> set ?k. total_pairs (count_list ?k l))"
    by (simp add: tally_def comp_def sum_list_distinct_conv_sum_set)
  show ?thesis
  proof (cases "length ?k < 2")
    case True
    then consider "?k = []" | x where "?k = [x]" by (cases ?k; cases "tl ?k") auto
    then show ?thesis by cases (simp_all add: flipped_pairs_def)
  next
    case False
    have "int (differing ?k) + int (\<Sum>l \<in> set ?k. total_pairs (count_list ?k l)) = int (total_pairs (length ?k))"
      using differing_complement [of ?k] by (metis of_nat_add)
    with False show ?thesis unfolding flipped_pairs_def Let_def t by simp
  qed
qed

definition differing_at :: "string option list \<Rightarrow> (nat \<times> nat) set" where
  "differing_at ls = {(i, j). i < j \<and> j < length ls \<and> ls ! i \<noteq> None \<and> ls ! j \<noteq> None \<and> ls ! i \<noteq> ls ! j}"

lemma differing_at_Cons:
  "differing_at (x # ls) = (\<lambda>j. (0, Suc j)) ` {j. j < length ls \<and> x \<noteq> None \<and> ls ! j \<noteq> None \<and> ls ! j \<noteq> x} \<union>
     map_prod Suc Suc ` differing_at ls"
proof (intro equalityI subsetI)
  fix p
  assume p: "p \<in> differing_at (x # ls)"
  obtain i j where ij: "p = (i, Suc j)" using p by (cases p; cases "snd p") (auto simp: differing_at_def)
  show "p \<in> (\<lambda>j. (0, Suc j)) ` {j. j < length ls \<and> x \<noteq> None \<and> ls ! j \<noteq> None \<and> ls ! j \<noteq> x} \<union>
     map_prod Suc Suc ` differing_at ls"
    using p ij by (cases i) (force simp: differing_at_def image_iff map_prod_def)+
qed (auto simp: differing_at_def)

lemma known_labels_simps [simp]:
  "known_labels [] = []" "known_labels (None # ls) = known_labels ls"
  "known_labels (Some l # ls) = l # known_labels ls"
  by (simp_all add: known_labels_def map_filter_simps)

lemma known_labels_induct [case_names Nil None Some]:
  "P [] \<Longrightarrow> (\<And>ls. P ls \<Longrightarrow> P (None # ls)) \<Longrightarrow> (\<And>l ls. P ls \<Longrightarrow> P (Some l # ls)) \<Longrightarrow> P ls"
  by (induction ls) (auto, metis not_None_eq)

lemma length_filter_known:
  "length (filter (\<lambda>y. y \<noteq> l) (known_labels ls)) = card {j. j < length ls \<and> ls ! j \<noteq> None \<and> ls ! j \<noteq> Some l}"
proof -
  have "length (filter (\<lambda>y. y \<noteq> l) (known_labels ls)) = length (filter (\<lambda>y. y \<noteq> None \<and> y \<noteq> Some l) ls)"
    by (induction ls rule: known_labels_induct) auto
  then show ?thesis by (simp add: length_filter_conv_card)
qed

lemma card_differing_at: "card (differing_at ls) = differing (known_labels ls)"
proof (induction ls)
  case (Cons x ls)
  have fin: "finite (differing_at ls)"
    by (rule finite_subset [of _ "{..<length ls} \<times> {..<length ls}"]) (auto simp: differing_at_def)
  let ?row = "{j. j < length ls \<and> x \<noteq> None \<and> ls ! j \<noteq> None \<and> ls ! j \<noteq> x}"
  have "card (differing_at (x # ls)) = card ((\<lambda>j. (0::nat, Suc j)) ` ?row) + card (map_prod Suc Suc ` differing_at ls)"
    unfolding differing_at_Cons using fin by (intro card_Un_disjoint) auto
  also have "card ((\<lambda>j. (0::nat, Suc j)) ` ?row) = card ?row" by (rule card_image) (simp add: inj_on_def)
  also have "card (map_prod Suc Suc ` differing_at ls) = card (differing_at ls)"
    by (rule card_image) (auto simp: inj_on_def map_prod_def)
  finally show ?case using Cons.IH by (cases x) (simp_all add: length_filter_known)
qed (simp add: differing_at_def)

lemma pairs_with_counts:
  "pc_same (pairs_with v vs c) + pc_cross (pairs_with v vs c) = pc_same c + pc_cross c + length vs \<and>
   pc_same_flips (pairs_with v vs c) + pc_cross_flips (pairs_with v vs c) =
     pc_same_flips c + pc_cross_flips c + length (filter (\<lambda>u. vt_label u \<noteq> vt_label v) vs)"
  by (induction v vs c rule: pairs_with.induct) (auto simp: Let_def)

lemma split_pairs_counts:
  "pc_same (split_pairs vs c) + pc_cross (split_pairs vs c) = pc_same c + pc_cross c + total_pairs (length vs) \<and>
   pc_same_flips (split_pairs vs c) + pc_cross_flips (split_pairs vs c) =
     pc_same_flips c + pc_cross_flips c + differing (map vt_label vs)"
proof (induction vs c rule: split_pairs.induct)
  case (2 v vs c)
  then show ?case using pairs_with_counts [of v vs c]
    by (simp add: total_pairs_Suc filter_map comp_def)
qed simp

lemma differing_map_inj: "inj_on f (set xs) \<Longrightarrow> differing (map f xs) = differing xs"
proof (induction xs)
  case (Cons x xs)
  have "filter (\<lambda>y. f y \<noteq> f x) xs = filter (\<lambda>y. y \<noteq> x) xs"
    using Cons.prems by (intro filter_cong) (auto simp: inj_on_def)
  with Cons show ?case by (simp add: filter_map comp_def)
qed simp

lemma known_labels_map: "map Some (known_labels ls) = filter (\<lambda>l. l \<noteq> None) ls"
  by (induction ls rule: known_labels_induct) auto

lemma length_known: "length (known_labels ls) = length (filter (\<lambda>l. l \<noteq> None) ls)"
  by (metis known_labels_map length_map)

text \<open>C16 (flips are the pairs that differ). The number of flips, computed from the counts, is the
  number of pairs of labelled positions with different labels; and the split of a family's pairs
  by language loses no pair and no flip.\<close>

theorem flips_are_the_differing_pairs:
  "flipped_pairs ls = int (card {(i, j). i < j \<and> j < length ls \<and> ls ! i \<noteq> None \<and> ls ! j \<noteq> None \<and> ls ! i \<noteq> ls ! j}) \<and>
   pc_same (family_pair_split f) + pc_cross (family_pair_split f) = fr_pairs (judge_family f) \<and>
   int (pc_same_flips (family_pair_split f) + pc_cross_flips (family_pair_split f)) = fr_flips (judge_family f)"
proof -
  let ?vs = "filter (\<lambda>v. vt_label v \<noteq> None) (fm_variants f)" and ?ls = "map vt_label (fm_variants f)"
  have vs: "map vt_label ?vs = map Some (known_labels ?ls)" by (simp add: known_labels_map filter_map comp_def)
  then have "differing (map vt_label ?vs) = differing (known_labels ?ls)" by (simp add: differing_map_inj)
  moreover have "length ?vs = length (filter (\<lambda>l. l \<noteq> None) ?ls)" by (simp add: filter_map comp_def)
  ultimately show ?thesis
    using split_pairs_counts [of ?vs no_pairs] card_differing_at [of ls]
    by (simp add: flipped_pairs_differing differing_at_def judge_family_def Let_def family_pair_split_def no_pairs_def)
qed

section \<open>Facts about the majority\<close>

lemma beats_trans:
  fixes x y z :: "string \<times> nat"
  assumes "snd x < snd y \<or> snd x = snd y \<and> fst y \<le> fst x" "snd y < snd z \<or> snd y = snd z \<and> fst z \<le> fst y"
  shows "snd x < snd z \<or> snd x = snd z \<and> fst z \<le> fst x"
  using assms by (elim disjE conjE) (auto intro: order.trans)

lemma best_label_best:
  "best_label b rest \<in> set (b # rest) \<and>
   (\<forall>x \<in> set (b # rest). snd x < snd (best_label b rest) \<or>
      snd x = snd (best_label b rest) \<and> fst (best_label b rest) \<le> fst x)"
proof (induction b rest rule: best_label.induct)
  case (2 bl bn l n rest)
  let ?next = "if bn < n \<or> n = bn \<and> l < bl then (l, n) else (bl, bn)"
  let ?r = "best_label ?next rest"
  have r: "best_label (bl, bn) ((l, n) # rest) = ?r" by simp
  have IH: "?r \<in> set (?next # rest)" "\<forall>x \<in> set (?next # rest). snd x < snd ?r \<or> snd x = snd ?r \<and> fst ?r \<le> fst x"
    using 2 by blast+
  have "snd x < snd ?r \<or> snd x = snd ?r \<and> fst ?r \<le> fst x" if "x = (l, n) \<or> x = (bl, bn)" for x
  proof -
    have "snd x < snd ?next \<or> snd x = snd ?next \<and> fst ?next \<le> fst x" using that by auto
    moreover have "snd ?next < snd ?r \<or> snd ?next = snd ?r \<and> fst ?r \<le> fst ?next" using IH(2) by simp
    ultimately show ?thesis by (rule beats_trans)
  qed
  note two = this
  have "?r \<in> set ((bl, bn) # (l, n) # rest)"
    using IH(1) by (cases "bn < n \<or> n = bn \<and> l < bl") (simp_all only: if_True if_False list.set insert_iff, blast+)
  moreover have "snd x < snd ?r \<or> snd x = snd ?r \<and> fst ?r \<le> fst x" if "x \<in> set ((bl, bn) # (l, n) # rest)" for x
    using that two [of x] IH(2) by (metis insert_iff list.set(2))
  ultimately show ?case unfolding r by blast
qed simp

lemma count_known: "count_list (known_labels ls) l = count_list ls (Some l)"
  by (induction ls rule: known_labels_induct) auto

lemma set_known: "l \<in> set (known_labels ls) \<longleftrightarrow> Some l \<in> set ls"
  by (induction ls rule: known_labels_induct) auto

lemma majority_label_Some:
  assumes "majority_label ls = Some m"
  shows "Some m \<in> set ls"
    "\<And>l. l = m \<or> count_list ls (Some l) < count_list ls (Some m) \<or>
      count_list ls (Some l) = count_list ls (Some m) \<and> m < l"
proof -
  let ?k = "known_labels ls"
  obtain b rest where b: "tally ?k = b # rest" "m = fst (best_label b rest)"
    using assms by (auto simp: majority_label_def split: list.splits)
  have t: "x \<in> set (b # rest) \<longleftrightarrow> fst x \<in> set ?k \<and> snd x = count_list ?k (fst x)" for x
    unfolding b(1) [symmetric] by (cases x) (auto simp: tally_def)
  note best = best_label_best [of b rest]
  have m: "m \<in> set ?k" "snd (best_label b rest) = count_list ?k m" using best t b(2) by blast+
  then show "Some m \<in> set ls" by (simp add: set_known)
  fix l
  show "l = m \<or> count_list ls (Some l) < count_list ls (Some m) \<or>
      count_list ls (Some l) = count_list ls (Some m) \<and> m < l"
  proof (cases "l \<in> set ?k")
    case True
    then have "(l, count_list ?k l) \<in> set (b # rest)" using t by simp
    with best have "count_list ?k l < count_list ?k m \<or> count_list ?k l = count_list ?k m \<and> m \<le> l"
      using m(2) b(2) by fastforce
    then show ?thesis unfolding count_known by (metis order.order_iff_strict)
  next
    case False
    have "0 < count_list ?k m" using m(1) by (simp add: count_list_0_iff neq0_conv [symmetric] del: neq0_conv)
    then show ?thesis using False by (simp add: count_list_0_iff flip: count_known)
  qed
qed

lemma majority_label_None: "majority_label ls = None \<longleftrightarrow> known_labels ls = []"
  by (auto simp: majority_label_def tally_def nub_def split: list.splits)

lemma differing_0: "differing xs = 0 \<longleftrightarrow> (\<forall>x \<in> set xs. \<forall>y \<in> set xs. x = y)"
  by (induction xs) (auto simp: filter_empty_conv)

lemma dissenters_filter:
  "length (filter (\<lambda>v. vt_label v \<noteq> None \<and> vt_label v \<noteq> Some m) vs) + count_list (map vt_label vs) (Some m) =
   length (filter (\<lambda>l. l \<noteq> None) (map vt_label vs))"
  by (induction vs) auto

lemma no_dissent_iff:
  "fr_dissenters (judge_family f) = [] \<longleftrightarrow> fr_flips (judge_family f) = 0"
proof (cases "majority_label (map vt_label (fm_variants f))")
  case None
  then have "known_labels (map vt_label (fm_variants f)) = []" by (simp only: majority_label_None)
  moreover from this have "\<forall>v \<in> set (fm_variants f). vt_label v = None"
    using set_known [of _ "map vt_label (fm_variants f)"] by (metis (no_types) empty_iff image_eqI list.set(1) list.set_map not_None_eq)
  ultimately show ?thesis by (simp add: judge_family_def Let_def flipped_pairs_differing filter_empty_conv)
next
  case (Some m)
  let ?ls = "map vt_label (fm_variants f)"
  have m: "m \<in> set (known_labels ?ls)" using majority_label_Some(1) [OF Some] by (simp add: set_known)
  have "fr_dissenters (judge_family f) = [] \<longleftrightarrow> (\<forall>l. Some l \<in> set ?ls \<longrightarrow> l = m)"
  proof -
    have "fr_dissenters (judge_family f) = [] \<longleftrightarrow>
        (\<forall>v \<in> set (fm_variants f). vt_label v = None \<or> vt_label v = Some m)"
      using Some by (auto simp: judge_family_def Let_def filter_empty_conv)
    also have "\<dots> \<longleftrightarrow> (\<forall>l. Some l \<in> vt_label ` set (fm_variants f) \<longrightarrow> l = m)"
      by (metis (no_types, lifting) image_iff not_None_eq option.inject)
    finally show ?thesis by simp
  qed
  also have "\<dots> \<longleftrightarrow> (\<forall>x \<in> set (known_labels ?ls). \<forall>y \<in> set (known_labels ?ls). x = y)"
    using m unfolding set_known [symmetric] by blast
  finally show ?thesis by (simp add: judge_family_def Let_def flipped_pairs_differing differing_0)
qed


section \<open>Facts about the breakdowns\<close>

lemma sum_over_keys:
  fixes key :: "'a \<Rightarrow> string"
  shows "(\<Sum>k \<leftarrow> sort (nub (map key xs)). length (filter (\<lambda>x. key x = k \<and> P x) xs)) = length (filter P xs)"
proof -
  have "(\<Sum>k \<leftarrow> sort (nub (map key xs)). length (filter (\<lambda>x. key x = k \<and> P x) xs)) =
      (\<Sum>k \<in> key ` set xs. length (filter (\<lambda>x. key x = k \<and> P x) xs))"
    by (subst sum_list_distinct_conv_sum_set) simp_all
  also have "\<dots> = length (filter P xs)"
  proof -
    have "(\<Sum>k \<in> A. length (filter (\<lambda>x. key x = k \<and> P x) xs)) = length (filter P xs)"
      if "finite A" "key ` set xs \<subseteq> A" for A
      using that(2)
    proof (induction xs)
      case (Cons x xs)
      have "(\<Sum>k \<in> A. length (filter (\<lambda>y. key y = k \<and> P y) (x # xs))) =
          (\<Sum>k \<in> A. length (filter (\<lambda>y. key y = k \<and> P y) xs)) + (\<Sum>k \<in> A. if key x = k then of_bool (P x) else 0)"
        unfolding sum.distrib [symmetric] by (rule sum.cong) auto
      with Cons that(1) show ?case by simp
    qed simp
    from this [of "key ` set xs"] show ?thesis by simp
  qed
  finally show ?thesis .
qed

lemma sum_list_sort_key: "sum_list (map f (sort_key g xs)) = sum_list (map (f :: 'a \<Rightarrow> nat) xs)"
  by (metis mset_map mset_sort sum_mset_sum_list)

lemma judged_variants_labelled:
  "length (filter (\<lambda>(v, m). vt_label v \<noteq> None) (judged_variants r)) = labelled_variants r"
  "length (filter (\<lambda>(v, m). vt_label v \<noteq> None \<and> vt_label v \<noteq> m) (judged_variants r)) = dissenters r"
proof -
  let ?row = "\<lambda>f. map (\<lambda>v. (v, fr_majority (judge_family f))) (fm_variants f)"
  have j: "judged_variants r = concat (map ?row (sy_families r))"
    by (simp add: judged_variants_def sy_results_def judge_families_def zip_map2 comp_def zip_same_conv_map)
  have "length (filter (\<lambda>(v, m). vt_label v \<noteq> None) (?row f)) = fr_labelled (judge_family f)" for f
    by (simp add: judge_family_def Let_def filter_map comp_def)
  moreover have "length (filter (\<lambda>(v, m). vt_label v \<noteq> None \<and> vt_label v \<noteq> m) (?row f)) =
      length (fr_dissenters (judge_family f))" for f
    by (simp add: judge_family_def Let_def filter_map comp_def)
  ultimately show "length (filter (\<lambda>(v, m). vt_label v \<noteq> None) (judged_variants r)) = labelled_variants r"
    "length (filter (\<lambda>(v, m). vt_label v \<noteq> None \<and> vt_label v \<noteq> m) (judged_variants r)) = dissenters r"
    unfolding j by (simp_all add: filter_concat length_concat comp_def labelled_variants_def dissenters_def
        sy_results_def judge_families_def)
qed

lemma breakdown_sums:
  "(\<Sum>(k, b) \<leftarrow> breakdown key r. sb_variants b) = labelled_variants r \<and>
   (\<Sum>(k, b) \<leftarrow> breakdown key r. sb_dissenters b) = dissenters r"
proof -
  let ?vs = "judged_variants r" and ?ks = "sort (nub (map (key \<circ> fst) (judged_variants r)))"
  have f: "(\<lambda>(v, m). key v = k \<and> vt_label v \<noteq> None) = (\<lambda>x. (key \<circ> fst) x = k \<and> (\<lambda>(v, m). vt_label v \<noteq> None) x)"
    "(\<lambda>x. (case x of (v, m) \<Rightarrow> key v = k \<and> vt_label v \<noteq> None) \<and> (case x of (v, m) \<Rightarrow> vt_label v \<noteq> m)) =
      (\<lambda>x. (key \<circ> fst) x = k \<and> (\<lambda>(v, m). vt_label v \<noteq> None \<and> vt_label v \<noteq> m) x)" for k
    by (auto simp: fun_eq_iff)
  have "(\<Sum>(k, b) \<leftarrow> breakdown key r. g b) = (\<Sum>k \<leftarrow> ?ks. g (bucket_of_key key r k))" for g :: "bucket_of \<Rightarrow> nat"
    unfolding breakdown_def by (subst sum_list_sort_key) (simp only: map_map comp_def split_beta fst_conv snd_conv)
  moreover have "sb_variants (bucket_of_key key r k) =
      length (filter (\<lambda>x. (key \<circ> fst) x = k \<and> (\<lambda>(v, m). vt_label v \<noteq> None) x) ?vs)" for k
    by (simp only: bucket_of_key_def Let_def bucket_of.simps f(1))
  moreover have "sb_dissenters (bucket_of_key key r k) =
      length (filter (\<lambda>x. (key \<circ> fst) x = k \<and> (\<lambda>(v, m). vt_label v \<noteq> None \<and> vt_label v \<noteq> m) x) ?vs)" for k
    by (simp only: bucket_of_key_def Let_def bucket_of.simps filter_filter f(2))
  ultimately show ?thesis by (simp only: sum_over_keys judged_variants_labelled)
qed

text \<open>No breakdown loses a variant. Broken down by transform or by language, every labelled
  variant is in one bucket and every dissenter is counted in the bucket it is in.\<close>

theorem breakdowns_add_up:
  "(\<Sum>(k, b) \<leftarrow> by_transform r. sb_variants b) = labelled_variants r \<and>
   (\<Sum>(k, b) \<leftarrow> by_transform r. sb_dissenters b) = dissenters r \<and>
   (\<Sum>(k, b) \<leftarrow> by_language r. sb_variants b) = labelled_variants r \<and>
   (\<Sum>(k, b) \<leftarrow> by_language r. sb_dissenters b) = dissenters r"
  unfolding by_transform_def by_language_def using breakdown_sums by blast

section \<open>Facts about the gate\<close>

lemma judged_label [simp]: "vt_label (with_label x v) = lr_label x"
  by (simp add: with_label_def)

lemma read_labels_variants:
  "length tags = length (concat (map fm_variants fs)) \<Longrightarrow>
   concat (map fm_variants (read_labels fs tags readbacks field)) =
     map2 (\<lambda>v tag. with_label (read_label (readbacks tag) field) v) (concat (map fm_variants fs)) tags"
proof (induction fs tags readbacks field rule: read_labels.induct)
  case (2 f fs tags readbacks field)
  let ?n = "length (fm_variants f)"
  have "tags = take ?n tags @ drop ?n tags" by simp
  moreover have "length (take ?n tags) = ?n" using 2(2) by simp
  ultimately have "zip (fm_variants f @ concat (map fm_variants fs)) tags =
      zip (fm_variants f) (take ?n tags) @ zip (concat (map fm_variants fs)) (drop ?n tags)"
    by (metis zip_append)
  then show ?case using 2 by (simp add: Let_def)
qed simp

lemma fully_labelled_iff: "fully_labelled (judge_family f) \<longleftrightarrow> (\<forall>v \<in> set (fm_variants f). vt_label v \<noteq> None)"
proof -
  have "fr_labelled (judge_family f) = length (filter (\<lambda>v. vt_label v \<noteq> None) (fm_variants f))"
    "fr_variants (judge_family f) = length (fm_variants f)"
    by (simp_all add: judge_family_def Let_def filter_map comp_def)
  moreover have "length (filter P xs) = length xs \<longleftrightarrow> (\<forall>x \<in> set xs. P x)" for P :: "variant \<Rightarrow> bool" and xs
    by (metis filter_True length_filter_less less_irrefl)
  ultimately show ?thesis by (simp add: fully_labelled_def)
qed

lemma no_unlabelled_iff: "unlabelled_families r = [] \<longleftrightarrow> (\<forall>v \<in> set (all_variants r). vt_label v \<noteq> None)"
  by (auto simp: unlabelled_families_def sy_results_def judge_families_def filter_empty_conv fully_labelled_iff
      all_variants_def)

lemma labelled_variants_all:
  assumes "unlabelled_families r = []"
  shows "labelled_variants r = length (all_variants r)"
proof -
  have "fr_labelled (judge_family f) = length (fm_variants f)" if "f \<in> set (sy_families r)" for f
    using assms that
    by (force simp: unlabelled_families_def sy_results_def judge_families_def filter_empty_conv fully_labelled_def
        judge_family_def Let_def)
  then have "map (\<lambda>f. fr_labelled (judge_family f)) (sy_families r) = map (\<lambda>f. length (fm_variants f)) (sy_families r)"
    by simp
  then show ?thesis
    by (simp only: labelled_variants_def sy_results_def judge_families_def map_map comp_def all_variants_def length_concat)
qed

lemma gate_open:
  "\<not> fst (gate r md mf) \<longleftrightarrow> 0 < labelled_variants r \<and> unlabelled_families r = [] \<and>
     of_nat (dissenters r) \<le> md * of_nat (labelled_variants r) \<and>
     (case (mf, flip_rate r) of (Some m, Some q) \<Rightarrow> q \<le> m | _ \<Rightarrow> True)"
proof (cases "labelled_variants r = 0")
  case True
  then show ?thesis by (simp add: gate_def dissent_rate_def rate_of_def)
next
  case False
  then have "dissent_rate r = Some (of_nat (dissenters r) / of_nat (labelled_variants r))"
    by (simp add: dissent_rate_def rate_of_def)
  moreover have "md < of_nat (dissenters r) / of_nat (labelled_variants r) \<longleftrightarrow>
      \<not> of_nat (dissenters r) \<le> md * of_nat (labelled_variants r)"
    using False by (simp add: pos_less_divide_eq not_le)
  ultimately show ?thesis using False by (auto simp: gate_def split: option.splits)
qed

text \<open>C15 (when the gate opens). A run that got as far as judging exits 0 or 3. It exits 0 exactly
  when the readback settled and was not all 404, at least one variant was sent, a label was read
  for every one of them, and neither the share of dissenters nor, where asked for, the share of
  flipped pairs is over its limit.\<close>

theorem gate_opens_iff:
  assumes "length tags = length (concat (map fm_variants fs))"
    "steady_judge P fs tags repeated n out = (code, a)"
  shows "code \<in> {EXIT_OK, EXIT_MISMATCH} \<and> (code = EXIT_OK \<longleftrightarrow>
    ro_stable out \<and> \<not> ro_all_404 out \<and> tags \<noteq> [] \<and>
    (\<forall>t \<in> set tags. lr_label (read_label (held out t) (steady_field P)) \<noteq> None) \<and>
    of_nat (dissenters (ya_report a)) \<le> yp_max_dissent_rate P * of_nat (length tags) \<and>
    (case (yp_max_flip_rate P, flip_rate (ya_report a)) of (Some m, Some q) \<Rightarrow> q \<le> m | _ \<Rightarrow> True))"
proof -
  let ?r = "ya_report a"
  have vs: "all_variants ?r = map2 (\<lambda>v tag. with_label (read_label (held out tag) (steady_field P)) v)
      (concat (map fm_variants fs)) tags"
    using assms read_labels_variants [OF assms(1)] by (auto simp: steady_judge_def Let_def all_variants_def)
  then have len: "length (all_variants ?r) = length tags" using assms(1) by simp
  have "map vt_label (all_variants ?r) = map (\<lambda>t. lr_label (read_label (held out t) (steady_field P))) tags"
  proof -
    have "map g (map snd (zip (concat (map fm_variants fs)) tags)) = map g tags" for g :: "string \<Rightarrow> string option"
      using assms(1) by (simp only: map_snd_zip)
    then show ?thesis unfolding vs by (simp add: comp_def split_beta)
  qed
  then have "(\<forall>v \<in> set (all_variants ?r). vt_label v \<noteq> None) \<longleftrightarrow>
      (\<forall>t \<in> set tags. lr_label (read_label (held out t) (steady_field P)) \<noteq> None)"
    by (metis (no_types, lifting) image_iff list.set_map)
  then have un: "unlabelled_families ?r = [] \<longleftrightarrow>
      (\<forall>t \<in> set tags. lr_label (read_label (held out t) (steady_field P)) \<noteq> None)"
    by (simp only: no_unlabelled_iff)
  have code: "code = (if \<not> ro_all_404 out \<and> ro_stable out \<and>
      \<not> fst (gate ?r (yp_max_dissent_rate P) (yp_max_flip_rate P)) then EXIT_OK else EXIT_MISMATCH)"
    using assms(2) by (auto simp: steady_judge_def Let_def)
  show ?thesis
  proof (cases "unlabelled_families ?r = []")
    case True
    then have "labelled_variants ?r = length tags" using labelled_variants_all len by metis
    with True un show ?thesis unfolding code gate_open by (auto simp: exit_codes)
  next
    case False
    with un show ?thesis unfolding code gate_open by (auto simp: exit_codes)
  qed
qed

section \<open>The default label field\<close>

lemma nub_single: "set xs = {a} \<Longrightarrow> nub xs = [a]"
proof -
  assume "set xs = {a}"
  then have "set (nub xs) = {a}" "distinct (nub xs)" by simp_all
  then have "length (nub xs) = 1" by (metis distinct_card card.empty card_insert_disjoint empty_iff finite.emptyI One_nat_def)
  then show ?thesis using \<open>set (nub xs) = {a}\<close> by (cases "nub xs") simp_all
qed

lemma loaded_recipients:
  assumes "load_families R raw seed n transforms = Inr fs" "f \<in> set fs"
  shows "fm_variants f \<noteq> []" "v \<in> set (fm_variants f) \<Longrightarrow> env_to (em_envelope (vt_email v)) = [STEADY_MAILBOX]"
proof -
  obtain fx :: fixture where "build_families R seed (take n (fx_intents fx)) transforms True (fx_closings fx) = Inr fs"
    using assms(1) by (auto simp: load_families_def split: sum.splits)
  note b = this
  show "fm_variants f \<noteq> []" using b assms(2) by (auto simp: build_families_def Let_def split: if_splits)
  show "env_to (em_envelope (vt_email v)) = [STEADY_MAILBOX]" if "v \<in> set (fm_variants f)"
    using family_variants_keep [OF b assms(2) that] by blast
qed

text \<open>No run on a label that cannot move. When no label field is named and the fixture gives two
  or more families, the run is refused before anything is built or sent: the default field reads
  the recipient, and every family goes to one mailbox.\<close>

theorem default_field_is_refused:
  assumes "yp_label_field P = None"
    "load_families R raw (yp_seed P) (nat (yp_count P)) (yp_transforms P) = Inr fs" "2 \<le> length fs"
  shows "steady_execute E R (Some raw) P w = Some (Inr (EXIT_REFUSED, None), w)"
proof -
  have field: "steady_field P = ''route''" using assms(1) by (simp add: steady_field_def LABEL_FIELD_def)
  let ?vs = "concat (map fm_variants fs)"
  have one: "env_to (em_envelope (vt_email v)) = [STEADY_MAILBOX]" if "v \<in> set ?vs" for v
    using that loaded_recipients(2) [OF assms(2)] by auto
  have ne: "?vs \<noteq> []"
  proof -
    obtain f where "f \<in> set fs" using assms(3) by (cases fs) auto
    then show ?thesis using loaded_recipients(1) [OF assms(2)] by auto
  qed
  have mf: "List.map_filter (\<lambda>v. case env_to (em_envelope (vt_email v)) of [] \<Rightarrow> None | r # _ \<Rightarrow> Some r) vs =
      map (\<lambda>v. STEADY_MAILBOX) vs" if "\<forall>v \<in> set vs. env_to (em_envelope (vt_email v)) = [STEADY_MAILBOX]" for vs
    using that by (induction vs) (simp_all add: map_filter_simps)
  have "List.map_filter (\<lambda>v. case env_to (em_envelope (vt_email v)) of [] \<Rightarrow> None | r # _ \<Rightarrow> Some r) ?vs =
      map (\<lambda>v. STEADY_MAILBOX) ?vs" using one by (intro mf) blast
  moreover have "set (map (\<lambda>v. STEADY_MAILBOX) ?vs) = {STEADY_MAILBOX}"
    unfolding set_map using ne by (metis image_constant_conv set_empty)
  ultimately have "set (List.map_filter (\<lambda>v. case env_to (em_envelope (vt_email v)) of [] \<Rightarrow> None | r # _ \<Rightarrow> Some r) ?vs) =
      {STEADY_MAILBOX}" by (simp only:)
  then have "constant_label_risk fs ''route'' = Some STEADY_MAILBOX"
    unfolding constant_label_risk_def using assms(3) by (simp add: nub_single)
  then have "\<exists>e. steady_checks R (Some raw) P = Inl e"
    using assms(1,2) field by (auto simp: steady_checks_def)
  then show ?thesis by (auto simp: steady_execute_def)
qed

section \<open>Concrete runs\<close>

definition sample_steady :: "string option \<Rightarrow> steady_params" where
  "sample_steady field = \<lparr>yp_seed = 0, yp_count = 2, yp_target = None,
     yp_readback = \<lparr>rs_spec = False, rs_kind = None, rs_rate = NoRate\<rparr>, yp_tag_prefix = ''hq'',
     yp_label_field = field, yp_transforms = Some [], yp_repeats = 1, yp_max_dissent_rate = 1 / 10,
     yp_max_flip_rate = None, yp_rate = 5, yp_quiet_window = 10, yp_max_wait = None, yp_poll_interval = 2,
     yp_allow_public = False\<rparr>"

definition sample_variants :: "string option list \<Rightarrow> family" where
  "sample_variants ls = \<lparr>fm_intent_id = ''refund'', fm_category_hint = ''billing'', fm_variants =
     map (\<lambda>l. (new_variant ''refund'' ''en'' ''baseline'' sample_email)\<lparr>vt_label := l\<rparr>) ls\<rparr>"

definition sample_seen :: "outcome" where
  "sample_seen = \<lparr>ro_readbacks = [(''hq-0-0000'', [sample_record\<lparr>rb_category := Some ''billing''\<rparr>])],
     ro_elapsed = 6, ro_polls = 3, ro_stable = True, ro_missing = [], ro_budget_exhausted = False,
     ro_partial = [], ro_all_404 = False, ro_detail = None, ro_complete_polls = 3, ro_cause = None,
     ro_reason = None, ro_advice = None\<rparr>"


theorem gate_opens_iff_witness:
  "\<exists>a. steady_judge (sample_steady (Some ''category'')) [sample_variants [None]] [''hq-0-0000''] [] 1 sample_seen =
     (EXIT_OK, a)"
proof -
  obtain code a where j: "steady_judge (sample_steady (Some ''category'')) [sample_variants [None]] [''hq-0-0000''] [] 1
      sample_seen = (code, a)" by (cases "steady_judge (sample_steady (Some ''category'')) [sample_variants [None]]
      [''hq-0-0000''] [] 1 sample_seen")
  have "dissenters (ya_report (snd (steady_judge (sample_steady (Some ''category'')) [sample_variants [None]]
      [''hq-0-0000''] [] 1 sample_seen))) = 0" by code_simp
  then have d: "dissenters (ya_report a) = 0" using j by simp
  have "lr_label (read_label (held sample_seen ''hq-0-0000'') (steady_field (sample_steady (Some ''category'')))) \<noteq> None"
    by code_simp
  then have "code = EXIT_OK"
    using gate_opens_iff [OF _ j] d by (simp add: sample_variants_def sample_steady_def sample_seen_def)
  with j show ?thesis by blast
qed

theorem default_field_is_refused_witness:
  "\<forall>E :: (nat, nat) env. steady_execute E sample_rngs (Some sample_raw) (sample_steady None) 0 =
     Some (Inr (EXIT_REFUSED, None), 0)"
proof
  fix E :: "(nat, nat) env"
  let ?P = "sample_steady None"
  have "case load_families sample_rngs sample_raw (yp_seed ?P) (nat (yp_count ?P)) (yp_transforms ?P) of
      Inr fs \<Rightarrow> length fs = 2 | Inl _ \<Rightarrow> False" by code_simp
  then obtain fs where fs: "load_families sample_rngs sample_raw (yp_seed ?P) (nat (yp_count ?P)) (yp_transforms ?P) = Inr fs"
      "length fs = 2"
    by (cases "load_families sample_rngs sample_raw (yp_seed ?P) (nat (yp_count ?P)) (yp_transforms ?P)") simp_all
  show "steady_execute E sample_rngs (Some sample_raw) ?P 0 = Some (Inr (EXIT_REFUSED, None), 0)"
    by (rule default_field_is_refused [OF _ fs(1)]) (simp_all add: sample_steady_def fs(2))
qed

end
