(* ===== verification/Sig_Codec.thy ===== *)
theory Sig_Codec
  imports Prelude Wire
begin

text \<open>The byte formats \<open>sigcheck\<close> reads and writes (\<open>pipeline/sigcheck.py\<close>): big-endian
  integers and base64 of the standard library, DER, and the private keys it accepts. A byte is a
  character, a byte string a list of them.

  \<open>base64.b64decode(text, validate=True)\<close> is the strict reading: digits of the alphabet, then the
  padding the length asks for, and nothing else.\<close>

section \<open>Integers as bytes\<close>

definition from_bytes :: "bytes \<Rightarrow> nat" where
  "from_bytes bs = foldl (\<lambda>a c. 256 * a + of_char c) 0 bs"

fun to_bytes :: "nat \<Rightarrow> nat \<Rightarrow> bytes" where
  "to_bytes 0 n = []"
| "to_bytes (Suc k) n = to_bytes k (n div 256) @ [char_of (n mod 256)]"

text \<open>\<open>(n.bit_length() + 7) // 8\<close>.\<close>

fun byte_len :: "nat \<Rightarrow> nat" where
  "byte_len n = (if n = 0 then 0 else Suc (byte_len (n div 256)))"

lemmas [simp del] = byte_len.simps

section \<open>Base64\<close>

definition BASE64_ALPHABET :: string where
  "BASE64_ALPHABET = ''ABCDEFGHIJKLMNOPQRSTUVWXYZabcdefghijklmnopqrstuvwxyz0123456789+/''"

definition base64_value :: "char \<Rightarrow> nat option" where
  "base64_value c = map_of (zip BASE64_ALPHABET [0..<64]) c"

definition four_digits :: "char \<Rightarrow> char \<Rightarrow> char \<Rightarrow> char \<Rightarrow> nat option" where
  "four_digits x y z w =
     (case (base64_value x, base64_value y, base64_value z, base64_value w) of
        (Some a, Some b, Some c, Some d) \<Rightarrow> Some (((a * 64 + b) * 64 + c) * 64 + d)
      | _ \<Rightarrow> None)"

fun unbase64 :: "string \<Rightarrow> bytes option" where
  "unbase64 [] = Some []"
| "unbase64 (x # y # z # w # rest) =
     (if rest = [] \<and> z = CHR ''='' \<and> w = CHR ''=''
      then map_option (\<lambda>n. take 1 (to_bytes 3 n)) (four_digits x y CHR ''A'' CHR ''A'')
      else if rest = [] \<and> w = CHR ''='' then map_option (\<lambda>n. take 2 (to_bytes 3 n)) (four_digits x y z CHR ''A'')
      else (case (four_digits x y z w, unbase64 rest) of
          (Some n, Some bs) \<Rightarrow> Some (to_bytes 3 n @ bs)
        | _ \<Rightarrow> None))"
| "unbase64 _ = None"

section \<open>DER\<close>

datatype sig_error =
    UnsupportedLength
  | TruncatedDer
  | NotASequence
  | NotAPair
  | NotBase64
  | WrongPemLabel string
  | BadPublicKey
  | OffCurve
  | KeyNotSequence
  | WrongAlgorithm
  | WrongCurve
  | UnrecognisedKey
  | KeyOutOfRange
  | NotUserPassword
  | UnknownScheme string
  | NoInverse
  | NoPoint

definition der_len :: "nat \<Rightarrow> bytes" where
  "der_len n =
     (if n < 128 then [char_of n]
      else (let raw = to_bytes (byte_len n) n in char_of (128 + length raw) # raw))"

definition der_int :: "nat \<Rightarrow> bytes" where
  "der_int v =
     (let raw = to_bytes (max 1 (byte_len v)) v;
          padded = (if 128 \<le> (of_char (hd raw) :: nat) then CHR 0x00 # raw else raw)
      in CHR 0x02 # der_len (length padded) @ padded)"

definition take_value :: "nat \<Rightarrow> bytes \<Rightarrow> nat \<Rightarrow> nat \<Rightarrow> sig_error + nat \<times> bytes \<times> nat" where
  "take_value tag data offset len =
     (let v = take len (drop offset data)
      in if length v \<noteq> len then Inl TruncatedDer else Inr (tag, v, offset + len))"

definition der_read :: "bytes \<Rightarrow> nat \<Rightarrow> sig_error + nat \<times> bytes \<times> nat" where
  "der_read data offset =
     (if length data \<le> offset + 1 then Inl TruncatedDer
      else (let tag = of_char (data ! offset); len = of_char (data ! (offset + 1)); body = offset + 2
        in if 128 \<le> len
           then (let n = len - 128
             in if n = 0 \<or> 4 < n then Inl UnsupportedLength
                else take_value tag data (body + n) (from_bytes (take n (drop body data))))
           else take_value tag data body len))"

text \<open>A length whose own bytes are missing is read as a shorter one: this value ends past its data.\<close>

lemma truncated_length_is_read: "der_read [CHR 0x02, CHR 0x84] 0 = Inr (2, [], 6)"
  by code_simp

lemma take_value_Inr:
  "take_value tag data offset len = Inr (t, v, next) \<longleftrightarrow>
     t = tag \<and> v = take len (drop offset data) \<and> length v = len \<and> next = offset + len"
  by (auto simp: take_value_def Let_def)

lemma der_read_progress:
  assumes "der_read data offset = Inr (tag, v, next)"
  shows "offset < next \<and> length v < length data - offset"
proof -
  obtain k len where k: "take_value (of_char (data ! offset)) data k len = Inr (tag, v, next)" "offset + 2 \<le> k"
    using assms by (auto simp: der_read_def Let_def split: if_splits)
  have "offset + 1 < length data" using assms by (auto simp: der_read_def split: if_splits)
  moreover have "length v = len" "v = take len (drop k data)" "next = k + len"
    using k(1) unfolding take_value_Inr by blast+
  ultimately show ?thesis using k(2) by auto
qed

function der_children_from :: "bytes \<Rightarrow> nat \<Rightarrow> sig_error + (nat \<times> bytes) list" where
  "der_children_from data offset =
     (if offset < length data
      then (case der_read data offset of
          Inl e \<Rightarrow> Inl e
        | Inr (tag, v, next) \<Rightarrow>
            (case der_children_from data next of Inl e \<Rightarrow> Inl e | Inr out \<Rightarrow> Inr ((tag, v) # out)))
      else Inr [])"
  by auto
termination
  by (relation "measure (\<lambda>(data, offset). length data - offset)") (auto dest: der_read_progress)

lemmas [simp del] = der_children_from.simps

definition der_children :: "bytes \<Rightarrow> sig_error + (nat \<times> bytes) list" where
  "der_children data = der_children_from data 0"

definition der_signature :: "nat \<Rightarrow> nat \<Rightarrow> bytes" where
  "der_signature r s = (let body = der_int r @ der_int s in CHR 0x30 # der_len (length body) @ body)"

definition parse_der_signature :: "bytes \<Rightarrow> sig_error + nat \<times> nat" where
  "parse_der_signature data =
     (case der_read data 0 of
        Inl e \<Rightarrow> Inl e
      | Inr (tag, v, next) \<Rightarrow>
          if tag \<noteq> 48 \<or> next \<noteq> length data then Inl NotASequence
          else (case der_children v of
              Inl e \<Rightarrow> Inl e
            | Inr cs \<Rightarrow>
                if length cs \<noteq> 2 \<or> list_ex (\<lambda>(t, x). t \<noteq> 2) cs then Inl NotAPair
                else Inr (from_bytes (snd (cs ! 0)), from_bytes (snd (cs ! 1)))))"

section \<open>PEM\<close>

text \<open>\<open>s.replace(a, b)\<close> for a nonempty \<open>a\<close>: every occurrence, from the left, or the first only.\<close>

function replace_all :: "string \<Rightarrow> string \<Rightarrow> string \<Rightarrow> string" where
  "replace_all a b [] = []"
| "replace_all a b (c # cs) =
     (if a \<noteq> [] \<and> prefix a (c # cs) then b @ replace_all a b (drop (length a) (c # cs)) else c # replace_all a b cs)"
  by pat_completeness auto
termination
  by (relation "measure (\<lambda>(a, b, s). length s)") (auto simp: neq_Nil_conv)

definition replace_first :: "string \<Rightarrow> string \<Rightarrow> string \<Rightarrow> string" where
  "replace_first a b s =
     (case find_sub a s of None \<Rightarrow> s | Some i \<Rightarrow> take i s @ b @ drop (i + length a) s)"

definition PEM_DASHES :: string where "PEM_DASHES = ''-----''"

definition pem_body :: "string \<Rightarrow> string list \<Rightarrow> sig_error + string" where
  "pem_body t allowed =
     (if prefix (PEM_DASHES @ ''BEGIN'') t
      then (let lines = splitlines t; label = replace_first ''BEGIN '' [] (strip_chars ''- '' (hd lines))
        in if label \<notin> set allowed then Inl (WrongPemLabel label)
           else Inr (concat (filter (\<lambda>line. \<not> prefix PEM_DASHES line) (tl lines))))
      else Inr t)"

definition pem_or_base64 :: "string \<Rightarrow> string list \<Rightarrow> sig_error + bytes" where
  "pem_or_base64 t allowed =
     (case pem_body (strip (replace_all [CHR 0x5C, CHR ''n''] [CHR 0x0A] t)) allowed of
        Inl e \<Rightarrow> Inl e
      | Inr body \<Rightarrow> (case unbase64 (concat (split_ws body)) of None \<Rightarrow> Inl NotBase64 | Some der \<Rightarrow> Inr der))"

section \<open>Private keys\<close>

definition OID_EC_PUBLIC_KEY :: bytes where
  "OID_EC_PUBLIC_KEY = map char_of [0x2a, 0x86, 0x48, 0xce, 0x3d, 0x02, 0x01 :: nat]"

definition OID_P256 :: bytes where
  "OID_P256 = map char_of [0x2a, 0x86, 0x48, 0xce, 0x3d, 0x03, 0x01, 0x07 :: nat]"

lemma der_children_shorter:
  "der_children_from data offset = Inr cs \<Longrightarrow> (t, v) \<in> set cs \<Longrightarrow> length v < length data"
proof (induction data offset arbitrary: cs rule: der_children_from.induct)
  case (1 data offset)
  then show ?case
    by (subst (asm) (2) der_children_from.simps)
      (fastforce split: if_splits sum.splits prod.splits dest: der_read_progress)
qed

text \<open>The parameters of a SEC1 key: a first object identifier that is not P-256 is refused.\<close>

fun sec1_curve :: "(nat \<times> bytes) list \<Rightarrow> sig_error + unit" where
  "sec1_curve [] = Inr ()"
| "sec1_curve ((t, v) # rest) =
     (if t = 0xA0
      then (case der_children v of
          Inl e \<Rightarrow> Inl e
        | Inr oid \<Rightarrow> if oid \<noteq> [] \<and> snd (hd oid) \<noteq> OID_P256 then Inl WrongCurve else sec1_curve rest)
      else sec1_curve rest)"

function private_from_der :: "bytes \<Rightarrow> sig_error + nat" where
  "private_from_der der =
     (case der_read der 0 of
        Inl e \<Rightarrow> Inl e
      | Inr (tag, body, next) \<Rightarrow>
          if tag \<noteq> 0x30 then Inl KeyNotSequence
          else (case der_children body of
              Inl e \<Rightarrow> Inl e
            | Inr children \<Rightarrow>
                if 3 \<le> length children \<and> fst (children ! 1) = 0x30
                then (case der_children (snd (children ! 1)) of
                    Inl e \<Rightarrow> Inl e
                  | Inr parts \<Rightarrow>
                      (let algorithm = map snd (filter (\<lambda>(t, v). t = 6) parts)
                       in if OID_EC_PUBLIC_KEY \<notin> set algorithm \<or> OID_P256 \<notin> set algorithm
                          then Inl WrongAlgorithm
                          else private_from_der (snd (children ! 2))))
                else if 2 \<le> length children \<and> fst (children ! 0) = 2 \<and> fst (children ! 1) = 4
                then (case sec1_curve (drop 2 children) of
                    Inl e \<Rightarrow> Inl e
                  | Inr _ \<Rightarrow> Inr (from_bytes (snd (children ! 1))))
                else Inl UnrecognisedKey))"
  by auto
termination
proof (relation "measure length")
  fix der :: bytes and p :: "nat \<times> bytes \<times> nat" and tag q body "next" children parts algorithm
  assume a: "der_read der 0 = Inr p" "(tag, q) = p" "(body, next) = q"
    "der_children body = Inr children" "3 \<le> length children \<and> fst (children ! 1) = 0x30"
  have "children ! 2 \<in> set children" using a(5) by (intro nth_mem) simp
  then have "length (snd (children ! 2)) < length body"
    using a(4) der_children_shorter [of body 0 children "fst (children ! 2)" "snd (children ! 2)"]
    by (simp add: der_children_def)
  moreover have "length body < length der" using a(1-3) der_read_progress [of der 0 tag body "next"] by auto
  ultimately show "(snd (children ! 2), der) \<in> measure length" by simp
qed simp

lemmas [simp del] = private_from_der.simps

definition hex_digits :: string where "hex_digits = ''0123456789abcdefABCDEF''"

definition hex_char_value :: "char \<Rightarrow> nat" where
  "hex_char_value c =
     (let n = (of_char c :: nat) in if n \<le> 57 then n - 48 else if n \<le> 70 then n - 55 else n - 87)"

definition hex_number :: "string \<Rightarrow> nat" where
  "hex_number s = foldl (\<lambda>a c. 16 * a + hex_char_value c) 0 s"

section \<open>What is written is read\<close>

lemma from_bytes_snoc: "from_bytes (bs @ [c]) = 256 * from_bytes bs + of_char c"
  by (simp add: from_bytes_def)

lemma length_to_bytes [simp]: "length (to_bytes k n) = k"
  by (induction k arbitrary: n) simp_all

lemma from_to_bytes: "n < 256 ^ k \<Longrightarrow> from_bytes (to_bytes k n) = n"
proof (induction k arbitrary: n)
  case (Suc k)
  then have "n div 256 < 256 ^ k" by (simp add: less_mult_imp_div_less mult.commute)
  with Suc.IH show ?case by (simp add: from_bytes_snoc)
qed (simp add: from_bytes_def)

lemma byte_len_bound: "n < 256 ^ byte_len n"
proof (induction n rule: byte_len.induct)
  case (1 n)
  show ?case
  proof (cases "n = 0")
    case False
    with 1 have "n div 256 < 256 ^ byte_len (n div 256)" by simp
    then have "n < 256 * 256 ^ byte_len (n div 256)" by (simp add: div_less_iff_less_mult mult.commute)
    with False show ?thesis by (simp add: byte_len.simps [of n])
  qed simp
qed

lemma byte_len_le: "n < 256 ^ k \<Longrightarrow> byte_len n \<le> k"
proof (induction k arbitrary: n)
  case (Suc k)
  then have "n div 256 < 256 ^ k" by (simp add: less_mult_imp_div_less mult.commute)
  with Suc.IH [of "n div 256"] show ?case by (simp add: byte_len.simps [of n])
qed (simp add: byte_len.simps)

lemma byte_len_pos: "0 < n \<Longrightarrow> 0 < byte_len n"
  by (simp add: byte_len.simps [of n])

lemma from_bytes_zero: "from_bytes (CHR 0x00 # bs) = from_bytes bs"
  by (simp add: from_bytes_def)

lemma drop_append_length: "k = length xs \<Longrightarrow> drop k (xs @ ys) = ys"
  by simp

text \<open>One tag, length and value, wherever it stands.\<close>

lemma der_read_encoded:
  assumes "length v < 256 ^ 4"
  shows "der_read (pre @ (tag # der_len (length v) @ v) @ post) (length pre) =
    Inr (of_char tag, v, length pre + length (tag # der_len (length v) @ v))"
proof (cases "length v < 128")
  case True
  then have l: "der_len (length v) = [char_of (length v)]" by (simp add: der_len_def)
  have "drop (length pre + 2) (pre @ (tag # char_of (length v) # v) @ post) = v @ post" by simp
  with True show ?thesis
    by (simp add: l der_read_def Let_def nth_append take_value_def)
next
  case False
  let ?n = "byte_len (length v)" and ?raw = "to_bytes (byte_len (length v)) (length v)"
  have "0 < length v" using False by linarith
  then have n: "0 < ?n" "?n \<le> 4" using byte_len_pos byte_len_le [OF assms] by blast+
  have l: "der_len (length v) = char_of (128 + ?n) # ?raw" using False by (simp add: der_len_def)
  have c: "(of_char (char_of (128 + ?n) :: char) :: nat) = 128 + ?n" using n by simp
  have "from_bytes ?raw = length v" by (rule from_to_bytes) (rule byte_len_bound)
  moreover have "take ?n (drop (length pre + 2) (pre @ (tag # (char_of (128 + ?n) # ?raw) @ v) @ post)) = ?raw" by simp
  moreover have "drop (length pre + 2 + ?n) (pre @ (tag # (char_of (128 + ?n) # ?raw) @ v) @ post) = v @ post" by simp
  ultimately show ?thesis using n c
    by (simp add: l der_read_def Let_def nth_append take_value_def add.commute add.left_commute del: of_char_of)
qed

lemma of_char_less [simp]: "(of_char c :: nat) < 256"
  by (cases c) (simp add: of_char_def)

lemma der_int_form: "\<exists>v. der_int n = CHR 0x02 # der_len (length v) @ v \<and> from_bytes v = n"
proof -
  let ?raw = "to_bytes (max 1 (byte_len n)) n"
  have "n < 256 ^ max 1 (byte_len n)"
    using byte_len_bound [of n] by (rule order.strict_trans2) (simp add: power_increasing)
  then have "from_bytes ?raw = n" by (rule from_to_bytes)
  moreover let ?v = "if 128 \<le> (of_char (hd ?raw) :: nat) then CHR 0x00 # ?raw else ?raw"
  have "der_int n = CHR 0x02 # der_len (length ?v) @ ?v" by (simp add: der_int_def Let_def)
  moreover have "from_bytes ?v = from_bytes ?raw" by (simp add: from_bytes_zero)
  ultimately show ?thesis by metis
qed

lemma der_children_one:
  assumes "length v < 256 ^ 4" "der_children_from (pre @ (tag # der_len (length v) @ v) @ post)
      (length pre + length (tag # der_len (length v) @ v)) = Inr cs"
  shows "der_children_from (pre @ (tag # der_len (length v) @ v) @ post) (length pre) = Inr ((of_char tag, v) # cs)"
  using assms by (subst der_children_from.simps) (simp add: der_read_encoded del: append.simps append_assoc)

lemma der_signature_reads_back:
  assumes "length (der_int r @ der_int s) < 256 ^ 4"
  shows "parse_der_signature (der_signature r s) = Inr (r, s)"
proof -
  obtain v where v: "der_int r = CHR 0x02 # der_len (length v) @ v" "from_bytes v = r" using der_int_form by blast
  obtain w where w: "der_int s = CHR 0x02 # der_len (length w) @ w" "from_bytes w = s" using der_int_form by blast
  let ?body = "der_int r @ der_int s"
  have "length v < 256 ^ 4" "length w < 256 ^ 4" using assms by (simp_all add: v(1) w(1))
  have "der_children_from ?body (length ?body) = Inr []" by (simp add: der_children_from.simps)
  then have "der_children_from (der_int r @ der_int s @ []) (length (der_int r)) = Inr [(2, w)]"
    unfolding w(1) using der_children_one [OF \<open>length w < 256 ^ 4\<close>, of "der_int r" "CHR 0x02" "[]" "[]"]
    by (simp del: append.simps)
  then have c: "der_children ?body = Inr [(2, v), (2, w)]"
    unfolding v(1) der_children_def
    using der_children_one [OF \<open>length v < 256 ^ 4\<close>, of "[]" "CHR 0x02" "der_int s" "[(2, w)]"] by simp
  have "der_read (CHR 0x30 # der_len (length ?body) @ ?body) 0 =
      Inr (48, ?body, length (CHR 0x30 # der_len (length ?body) @ ?body))"
    using der_read_encoded [OF assms, of "[]" "CHR 0x30" "[]"] by simp
  then have "der_read (der_signature r s) 0 = Inr (48, ?body, length (der_signature r s))"
    by (simp add: der_signature_def Let_def)
  then show ?thesis using c v(2) w(2) by (simp add: parse_der_signature_def)
qed

lemma base64_digit_alphabet: "base64_digit n = BASE64_ALPHABET ! (n mod 64)"
  by (simp add: base64_digit_def BASE64_ALPHABET_def)

lemma list_all_upt: "list_all P [0..<n] \<Longrightarrow> k < n \<Longrightarrow> P k"
  by (simp add: list_all_iff)

lemma base64_value_digit [simp]: "base64_value (base64_digit n) = Some (n mod 64)"
proof -
  have "list_all (\<lambda>k. base64_value (BASE64_ALPHABET ! k) = Some k) [0..<64]" by code_simp
  from list_all_upt [OF this, of "n mod 64"] show ?thesis by (simp add: base64_digit_alphabet)
qed

lemma base64_digit_ne [simp]: "base64_digit n \<noteq> CHR ''=''"
proof
  assume "base64_digit n = CHR ''=''"
  moreover have "base64_value CHR ''='' = None" by code_simp
  ultimately show False using base64_value_digit [of n] by simp
qed

lemma base64_value_A [simp]: "base64_value CHR ''A'' = Some 0"
  by code_simp

lemma four_digits_back:
  assumes "n < 16777216"
  shows "four_digits (base64_digit (n div 262144)) (base64_digit (n div 4096)) (base64_digit (n div 64)) (base64_digit n) =
    Some n"
proof -
  have "n div 4096 = n div 64 div 64" "n div 262144 = n div 64 div 64 div 64" by (simp_all add: div_mult2_eq [symmetric])
  moreover have "n div 64 div 64 div 64 < 64" using assms by (simp add: div_mult2_eq [symmetric] div_less_iff_less_mult)
  ultimately have "((n div 262144 mod 64 * 64 + n div 4096 mod 64) * 64 + n div 64 mod 64) * 64 + n mod 64 = n"
    by (metis div_mod_decomp mod_less)
  then show ?thesis by (simp only: four_digits_def base64_value_digit prod.case option.case)
qed

lemma to_bytes_three:
  assumes "a < 256" "b < 256" "c < 256"
  shows "to_bytes 3 ((a * 256 + b) * 256 + c) = [char_of a, char_of b, char_of c]"
proof -
  have d: "(x * 256 + y) div 256 = x" "(x * 256 + y) mod 256 = y" if "y < 256" for x y :: nat
    using that by simp_all
  have "a mod 256 = a" using assms by simp
  then show ?thesis
    using d [OF assms(3), of "a * 256 + b"] d [OF assms(2), of a] by (simp only: numeral_3_eq_3 to_bytes.simps append.simps)
qed

lemma padded_digits:
  "n < 4096 \<Longrightarrow> four_digits (base64_digit (n div 64)) (base64_digit n) CHR ''A'' CHR ''A'' = Some (n * 4096)"
  "n < 262144 \<Longrightarrow> four_digits (base64_digit (n div 4096)) (base64_digit (n div 64)) (base64_digit n) CHR ''A'' =
     Some (n * 64)"
proof -
  assume "n < 4096"
  then have "n div 64 mod 64 * 64 + n mod 64 = n" by (metis div_mod_decomp mod_less less_mult_imp_div_less numeral_times_numeral semiring_norm(13,15,11))
  then show "four_digits (base64_digit (n div 64)) (base64_digit n) CHR ''A'' CHR ''A'' = Some (n * 4096)"
    by (simp only: four_digits_def base64_value_digit base64_value_A prod.case option.case) simp
next
  assume n: "n < 262144"
  have e: "n div 4096 = n div 64 div 64" by (simp add: div_mult2_eq [symmetric])
  have "n div 64 div 64 < 64" using n by (simp add: div_mult2_eq [symmetric] div_less_iff_less_mult)
  then have "(n div 4096 mod 64 * 64 + n div 64 mod 64) * 64 + n mod 64 = n"
    unfolding e by (metis div_mod_decomp mod_less)
  then show "four_digits (base64_digit (n div 4096)) (base64_digit (n div 64)) (base64_digit n) CHR ''A'' = Some (n * 64)"
    by (simp only: four_digits_def base64_value_digit base64_value_A prod.case option.case add_0_right)
qed

lemma unbase64_base64: "unbase64 (base64 bs) = Some bs"
proof (induction bs rule: base64.induct)
  case (2 a)
  let ?n = "(of_char a :: nat) * 16"
  have "?n < 4096" using of_char_less [of a] by linarith
  note padded_digits(1) [OF this]
  moreover have "?n * 4096 = (of_char a * 256 + 0) * 256 + 0" by simp
  ultimately show ?case using to_bytes_three [of "of_char a" 0 0] by simp
next
  case (3 a b)
  let ?n = "((of_char a :: nat) * 256 + of_char b) * 4"
  have "(of_char a :: nat) \<le> 255" "(of_char b :: nat) \<le> 255" using of_char_less [of a] of_char_less [of b] by linarith+
  then have "?n < 262144" by simp
  note padded_digits(2) [OF this]
  moreover have "?n * 64 = (of_char a * 256 + of_char b) * 256 + 0" by simp
  ultimately show ?case using to_bytes_three [of "of_char a" "of_char b" 0] by (simp add: Let_def mult.commute [of _ 256])
next
  case (4 a b c bs)
  let ?n = "((of_char a :: nat) * 256 + of_char b) * 256 + of_char c"
  have "(of_char a :: nat) \<le> 255" "(of_char b :: nat) \<le> 255" "(of_char c :: nat) \<le> 255"
    using of_char_less [of a] of_char_less [of b] of_char_less [of c] by linarith+
  then have "?n < 16777216" by simp
  note four_digits_back [OF this]
  moreover have "to_bytes 3 ?n = [a, b, c]" using to_bytes_three [of "of_char a" "of_char b" "of_char c"] by simp
  ultimately show ?case using 4 by (simp add: Let_def)
qed simp

lemma base64_plain: "c \<in> set (base64 bs) \<Longrightarrow> c \<notin> {CHR 0x5C, CHR ''-''} \<and> \<not> is_space c"
proof (induction bs rule: base64.induct)
  have "list_all (\<lambda>c. c \<noteq> CHR 0x5C \<and> c \<noteq> CHR ''-'' \<and> \<not> is_space c) BASE64_ALPHABET" by code_simp
  then have d: "base64_digit n \<noteq> CHR 0x5C" "base64_digit n \<noteq> CHR ''-''" "\<not> is_space (base64_digit n)" for n
    by (simp_all add: base64_digit_alphabet list_all_length BASE64_ALPHABET_def [THEN arg_cong, of length])
  have e: "\<not> is_space CHR ''=''" by (simp add: is_space_def)
  {
    case (2 a)
    then show ?case using d e by auto
  next
    case (3 a b)
    then show ?case using d e by (auto simp: Let_def)
  next
    case (4 a b c bs)
    then show ?case using d e by (auto simp: Let_def)
  }
qed simp

lemma replace_all_none: "CHR 0x5C \<notin> set s \<Longrightarrow> replace_all (CHR 0x5C # a) b s = s"
  by (induction s) auto

lemma pem_or_base64_text: "pem_or_base64 (base64 bs) allowed = Inr bs"
proof -
  let ?t = "base64 bs"
  have plain: "\<forall>c \<in> set ?t. \<not> is_space c" "CHR 0x5C \<notin> set ?t" "CHR ''-'' \<notin> set ?t" using base64_plain by blast+
  have "strip (replace_all [CHR 0x5C, CHR ''n''] [CHR 0x0A] ?t) = ?t"
    using strip_no_space [OF plain(1)] by (simp only: replace_all_none [OF plain(2)])
  moreover have "pem_body ?t allowed = Inr ?t"
    using plain(3) by (auto simp: pem_body_def PEM_DASHES_def prefix_def)
  moreover have "concat (split_ws ?t) = ?t"
    using plain(1) by (cases "?t = []") (simp_all add: split_ws_word_end)
  ultimately show ?thesis by (simp add: pem_or_base64_def unbase64_base64)
qed

end
