(* ===== verification/Sig_Curve.thy ===== *)
theory Sig_Curve
  imports Sig_Codec
begin

text \<open>ECDSA on NIST P-256 as \<open>pipeline/sigcheck.py\<close> implements it: affine points, double and
  add, RFC 6979 nonces, signing, verifying, and the two text forms of a key.

  HMAC and SHA-256 are functions of the standard library and parameters here. \<open>pow(a, -1, n)\<close> is
  the inverse the extended Euclidean algorithm finds; it raises when there is none, which is the
  value \<open>None\<close>. The nonce loop may in principle not end and is a partial function on options.\<close>

section \<open>The curve\<close>

definition P256_P :: int where
  "P256_P = 0xFFFFFFFF00000001000000000000000000000000FFFFFFFFFFFFFFFFFFFFFFFF"

definition P256_A :: int where "P256_A = P256_P - 3"

definition P256_B :: int where
  "P256_B = 0x5AC635D8AA3A93E7B3EBBD55769886BC651D06B0CC53B0F63BCE3C3E27D2604B"

definition P256_N :: int where
  "P256_N = 0xFFFFFFFF00000000FFFFFFFFFFFFFFFFBCE6FAADA7179E84F3B9CAC2FC632551"

type_synonym point = "(int \<times> int) option"

definition P256_G :: "int \<times> int" where
  "P256_G = (0x6B17D1F2E12C4247F8BCE6E563A440F277037D812DEB33A0F4A13945D898C296,
     0x4FE342E2FE1A7F9B8EE7EB4A7C0F9E162BCE33576B315ECECBB6406837BF51F5)"

definition on_curve :: "point \<Rightarrow> bool" where
  "on_curve p =
     (case p of
        None \<Rightarrow> False
      | Some (x, y) \<Rightarrow> 0 \<le> x \<and> x < P256_P \<and> 0 \<le> y \<and> y < P256_P \<and>
          (y * y - (x * x * x + P256_A * x + P256_B)) mod P256_P = 0)"

definition inverse_mod :: "int \<Rightarrow> int \<Rightarrow> int option" where
  "inverse_mod a n =
     (let k = nat (a mod n)
      in if gcd k (nat n) \<noteq> 1 then None else Some (fst (bezw k (nat n)) mod n))"

text \<open>\<open>_add\<close>; the outer \<open>None\<close> is the exception of \<open>pow\<close>.\<close>

definition sum_with_slope :: "int \<Rightarrow> int \<Rightarrow> int \<Rightarrow> int \<Rightarrow> point" where
  "sum_with_slope slope x1 y1 x2 =
     (let x3 = (slope * slope - x1 - x2) mod P256_P in Some (x3, (slope * (x1 - x3) - y1) mod P256_P))"

definition add_points :: "point \<Rightarrow> point \<Rightarrow> point option" where
  "add_points p1 p2 =
     (case (p1, p2) of
        (None, _) \<Rightarrow> Some p2
      | (_, None) \<Rightarrow> Some p1
      | (Some (x1, y1), Some (x2, y2)) \<Rightarrow>
          if x1 = x2
          then (if (y1 + y2) mod P256_P = 0 then Some None
            else map_option (\<lambda>i. sum_with_slope ((3 * x1 * x1 + P256_A) * i mod P256_P) x1 y1 x2)
              (inverse_mod (2 * y1) P256_P))
          else map_option (\<lambda>i. sum_with_slope ((y2 - y1) * i mod P256_P) x1 y1 x2)
            (inverse_mod (x2 - x1) P256_P))"

function mul_from :: "nat \<Rightarrow> point \<Rightarrow> point \<Rightarrow> point option" where
  "mul_from k result addend =
     (if k = 0 then Some result
      else (case (if odd k then add_points result addend else Some result) of
          None \<Rightarrow> None
        | Some r \<Rightarrow> (case add_points addend addend of None \<Rightarrow> None | Some a \<Rightarrow> mul_from (k div 2) r a)))"
  by auto
termination by (relation "measure (\<lambda>(k, r, a). k)") auto

lemmas [simp del] = mul_from.simps

definition mul_point :: "nat \<Rightarrow> point \<Rightarrow> point option" where
  "mul_point k p = mul_from k None p"

definition p256_public_key :: "nat \<Rightarrow> sig_error + int \<times> int" where
  "p256_public_key private =
     (if \<not> (1 \<le> private \<and> int private < P256_N) then Inl KeyOutOfRange
      else (case mul_point private (Some P256_G) of
          None \<Rightarrow> Inl NoInverse
        | Some None \<Rightarrow> Inl NoPoint
        | Some (Some p) \<Rightarrow> Inr p))"

section \<open>Signing\<close>

record crypto =
  cr_sha256 :: "bytes \<Rightarrow> bytes"
  cr_hmac :: "bytes \<Rightarrow> bytes \<Rightarrow> bytes"

record nonce_state =
  ns_k :: bytes
  ns_v :: bytes

definition nonce_start :: "crypto \<Rightarrow> nat \<Rightarrow> bytes \<Rightarrow> nonce_state" where
  "nonce_start C private digest =
     (let x = to_bytes 32 private;
          h1 = to_bytes 32 (from_bytes digest mod nat P256_N);
          v0 = replicate 32 CHR 0x01;
          k1 = cr_hmac C (replicate 32 CHR 0x00) (v0 @ [CHR 0x00] @ x @ h1);
          v1 = cr_hmac C k1 v0;
          k2 = cr_hmac C k1 (v1 @ [CHR 0x01] @ x @ h1);
          v2 = cr_hmac C k2 v1
      in \<lparr>ns_k = k2, ns_v = v2\<rparr>)"

text \<open>One turn of the loop: the candidate, and the state for the next.\<close>

definition nonce_turn :: "crypto \<Rightarrow> nonce_state \<Rightarrow> nat \<times> nonce_state" where
  "nonce_turn C S =
     (let v = cr_hmac C (ns_k S) (ns_v S); k = cr_hmac C (ns_k S) (v @ [CHR 0x00])
      in (from_bytes v, \<lparr>ns_k = k, ns_v = cr_hmac C k v\<rparr>))"

definition sign_with :: "nat \<Rightarrow> nat \<Rightarrow> nat \<Rightarrow> sig_error + (nat \<times> nat) option" where
  "sign_with private e nonce =
     (case mul_point nonce (Some P256_G) of
        None \<Rightarrow> Inl NoInverse
      | Some None \<Rightarrow> Inl NoPoint
      | Some (Some (px, py)) \<Rightarrow>
          (let r = nat (px mod P256_N)
           in if r = 0 then Inr None
              else (case inverse_mod (int nonce) P256_N of
                  None \<Rightarrow> Inl NoInverse
                | Some i \<Rightarrow>
                    (let s = nat (i * (int e + int r * int private) mod P256_N)
                     in Inr (if s \<noteq> 0 then Some (r, s) else None)))))"

partial_function (option) sign_loop :: "crypto \<Rightarrow> nat \<Rightarrow> nat \<Rightarrow> nonce_state \<Rightarrow> (sig_error + nat \<times> nat) option" where
  "sign_loop C private e S =
     (case nonce_turn C S of (nonce, S') \<Rightarrow>
        if 1 \<le> nonce \<and> int nonce < P256_N
        then (case sign_with private e nonce of
            Inl err \<Rightarrow> Some (Inl err)
          | Inr (Some rs) \<Rightarrow> Some (Inr rs)
          | Inr None \<Rightarrow> sign_loop C private e S')
        else sign_loop C private e S')"

definition p256_sign_digest :: "crypto \<Rightarrow> nat \<Rightarrow> bytes \<Rightarrow> (sig_error + nat \<times> nat) option" where
  "p256_sign_digest C private digest =
     sign_loop C private (from_bytes digest mod nat P256_N) (nonce_start C private digest)"

definition p256_verify_digest :: "int \<times> int \<Rightarrow> bytes \<Rightarrow> nat \<Rightarrow> nat \<Rightarrow> sig_error + bool" where
  "p256_verify_digest public digest r s =
     (if \<not> (1 \<le> r \<and> int r < P256_N \<and> 1 \<le> s \<and> int s < P256_N) \<or> \<not> on_curve (Some public) then Inr False
      else (let e = int (from_bytes digest mod nat P256_N)
        in case inverse_mod (int s) P256_N of
             None \<Rightarrow> Inl NoInverse
           | Some w \<Rightarrow>
               (case (mul_point (nat (e * w mod P256_N)) (Some P256_G),
                      mul_point (nat (int r * w mod P256_N)) (Some public)) of
                  (Some a, Some b) \<Rightarrow>
                    (case add_points a b of
                       None \<Rightarrow> Inl NoInverse
                     | Some None \<Rightarrow> Inr False
                     | Some (Some (x, y)) \<Rightarrow> Inr (x mod P256_N = int r))
                | _ \<Rightarrow> Inl NoInverse)))"

section \<open>Keys as text\<close>

definition SPKI_PREFIX :: bytes where
  "SPKI_PREFIX = map char_of [0x30, 0x59, 0x30, 0x13, 0x06, 0x07, 0x2a, 0x86, 0x48, 0xce, 0x3d, 0x02, 0x01,
     0x06, 0x08, 0x2a, 0x86, 0x48, 0xce, 0x3d, 0x03, 0x01, 0x07, 0x03, 0x42, 0x00 :: nat]"

definition spki_der :: "int \<times> int \<Rightarrow> bytes" where
  "spki_der public = SPKI_PREFIX @ [CHR 0x04] @ to_bytes 32 (nat (fst public)) @ to_bytes 32 (nat (snd public))"

definition parse_public_key :: "string \<Rightarrow> sig_error + int \<times> int" where
  "parse_public_key t =
     (case pem_or_base64 t [''PUBLIC KEY''] of
        Inl e \<Rightarrow> Inl e
      | Inr der \<Rightarrow>
          if \<not> prefix SPKI_PREFIX der \<or> length der \<noteq> length SPKI_PREFIX + 65 \<or>
             der ! length SPKI_PREFIX \<noteq> CHR 0x04
          then Inl BadPublicKey
          else (let point_bytes = drop (length SPKI_PREFIX + 1) der;
                    point = (int (from_bytes (take 32 point_bytes)), int (from_bytes (drop 32 point_bytes)))
            in if on_curve (Some point) then Inr point else Inl OffCurve))"

definition parse_private_key :: "string \<Rightarrow> sig_error + nat" where
  "parse_private_key t =
     (let stripped = strip t;
          v = (if length stripped = 64 \<and> list_all (\<lambda>c. c \<in> set hex_digits) stripped
            then Inr (hex_number stripped)
            else (case pem_or_base64 stripped [''EC PRIVATE KEY'', ''PRIVATE KEY''] of
                Inl e \<Rightarrow> Inl e
              | Inr der \<Rightarrow> private_from_der der))
      in case v of
           Inl e \<Rightarrow> Inl e
         | Inr k \<Rightarrow> if \<not> (1 \<le> k \<and> int k < P256_N) then Inl KeyOutOfRange else Inr k)"

section \<open>Points stay on the curve\<close>

lemma inverse_mod_works:
  assumes "inverse_mod a n = Some i" "0 < n"
  shows "\<exists>k. a * i = 1 + k * n"
proof -
  let ?k = "nat (a mod n)" and ?b = "bezw (nat (a mod n)) (nat n)"
  have g: "gcd ?k (nat n) = 1" "i = fst ?b mod n"
    using assms(1) by (auto simp: inverse_mod_def Let_def split: if_splits)
  have "fst ?b * int ?k + snd ?b * int (nat n) = int (gcd ?k (nat n))" by (rule bezw_aux [symmetric])
  then have "fst ?b * (a mod n) + snd ?b * n = 1" using g(1) assms(2) by simp
  then have "(fst ?b * (a mod n) + snd ?b * n) mod n = 1 mod n" by simp
  then have "(a * i) mod n = 1 mod n" unfolding g(2) by (simp add: mod_simps mult.commute)
  then have "n dvd a * i - 1" by (simp add: mod_eq_dvd_iff)
  then show ?thesis by (metis add.commute diff_add_cancel dvdE mult.commute)
qed

lemma on_curve_Some:
  "on_curve (Some (x, y)) \<longleftrightarrow> 0 \<le> x \<and> x < P256_P \<and> 0 \<le> y \<and> y < P256_P \<and>
     P256_P dvd y * y - (x * x * x + P256_A * x + P256_B)"
  by (simp add: on_curve_def dvd_eq_mod_eq_0)

text \<open>The line through two points meets the cubic in a third one; the identities hold for all
  integers, whatever the slope.\<close>

lemma chord_identity:
  fixes x1 x2 y1 l a b x3 :: int
  assumes "x3 = l * l - x1 - x2"
  shows "(x2 - x1) * (x3 * x3 * x3 + a * x3 + b - (l * (x3 - x1) + y1) * (l * (x3 - x1) + y1)) =
    (x2 - x1) * (x1 * x1 * x1 + a * x1 + b - y1 * y1) + (x3 - x1) *
      ((x2 * x2 * x2 + a * x2 + b - (l * (x2 - x1) + y1) * (l * (x2 - x1) + y1)) - (x1 * x1 * x1 + a * x1 + b - y1 * y1))"
  unfolding assms by algebra

lemma tangent_identity:
  fixes x1 y1 l a b x3 :: int
  assumes "x3 = l * l - x1 - x1"
  shows "x3 * x3 * x3 + a * x3 + b - (l * (x3 - x1) + y1) * (l * (x3 - x1) + y1) =
    (x1 * x1 * x1 + a * x1 + b - y1 * y1) + (x3 - x1) * (3 * x1 * x1 + a - 2 * l * y1)"
  unfolding assms by algebra

lemma dvd_unit_cancel:
  fixes p d g :: int
  assumes "p dvd d * g" "d * i = 1 + k * p"
  shows "p dvd g"
proof -
  have "p dvd i * (d * g)" using assms(1) by simp
  moreover have "i * (d * g) = g + p * (k * g)" using assms(2) by algebra
  ultimately show ?thesis by (metis dvd_add_left_iff dvd_triv_left)
qed

lemma mod_apart: "(p :: int) dvd x mod p - x"
  by (metis dvd_minus_mod dvd_diff_commute)

lemma curve_shift:
  fixes x y X Y a b p :: int
  assumes "p dvd x - X" "p dvd y - Y" "p dvd Y * Y - (X * X * X + a * X + b)"
  shows "p dvd y * y - (x * x * x + a * x + b)"
proof -
  have "y * y - (x * x * x + a * x + b) =
      (Y * Y - (X * X * X + a * X + b)) + ((y - Y) * (y + Y) - (x - X) * (x * x + x * X + X * X + a))" by algebra
  then show ?thesis using assms by (metis dvd_add dvd_diff dvd_mult2)
qed

lemma slope_on_curve:
  assumes g: "P256_P dvd X * X * X + P256_A * X + P256_B - (l * (X - x1) + y1) * (l * (X - x1) + y1)"
    and X: "X = l * l - x1 - x2"
  shows "on_curve (sum_with_slope l x1 y1 x2)"
proof -
  let ?P = "P256_P" and ?x = "X mod P256_P" and ?y = "(l * (x1 - X mod P256_P) - y1) mod P256_P"
  have P: "0 < ?P" by (simp add: P256_P_def)
  have x: "?P dvd ?x - X" by (rule mod_apart)
  have "?y - (l * (x1 - X) - y1) = (?y - (l * (x1 - ?x) - y1)) - l * (?x - X)" by algebra
  then have y: "?P dvd ?y - (l * (x1 - X) - y1)" using mod_apart x by (metis dvd_diff dvd_mult)
  have "(l * (x1 - X) - y1) * (l * (x1 - X) - y1) - (X * X * X + P256_A * X + P256_B) =
      - (X * X * X + P256_A * X + P256_B - (l * (X - x1) + y1) * (l * (X - x1) + y1))" by algebra
  then have "?P dvd (l * (x1 - X) - y1) * (l * (x1 - X) - y1) - (X * X * X + P256_A * X + P256_B)"
    using g by (metis dvd_minus_iff)
  note curve_shift [OF x y this]
  then show ?thesis using P unfolding X by (simp add: sum_with_slope_def Let_def on_curve_Some)
qed

lemma slope_mod: "P256_P dvd ((c * i) mod P256_P) * d - c" if "d * i = 1 + k * P256_P"
proof -
  have "((c * i) mod P256_P) * d - c = ((c * i) mod P256_P - c * i) * d + P256_P * (c * k)" using that by algebra
  then show ?thesis using mod_apart by (metis dvd_add dvd_mult2 dvd_triv_left)
qed

lemma chord_on_curve:
  assumes "on_curve (Some (x1, y1))" "on_curve (Some (x2, y2))" "inverse_mod (x2 - x1) P256_P = Some i"
  shows "on_curve (sum_with_slope ((y2 - y1) * i mod P256_P) x1 y1 x2)"
proof -
  let ?l = "(y2 - y1) * i mod P256_P" and ?P = "P256_P"
  let ?X = "?l * ?l - x1 - x2" and ?f = "\<lambda>x. x * x * x + P256_A * x + P256_B"
  obtain k where k: "(x2 - x1) * i = 1 + k * ?P"
    using inverse_mod_works [OF assms(3)] by (auto simp: P256_P_def)
  have l: "?P dvd ?l * (x2 - x1) - (y2 - y1)" using slope_mod [OF k] .
  have e1: "?P dvd ?f x1 - y1 * y1" "?P dvd ?f x2 - y2 * y2"
    using assms(1,2) by (simp_all add: on_curve_Some dvd_diff_commute)
  have "?f x2 - (?l * (x2 - x1) + y1) * (?l * (x2 - x1) + y1) =
      (?f x2 - y2 * y2) - (?l * (x2 - x1) - (y2 - y1)) * (?l * (x2 - x1) + y1 + y2)" by algebra
  then have e2: "?P dvd ?f x2 - (?l * (x2 - x1) + y1) * (?l * (x2 - x1) + y1)"
    using e1(2) l by (metis dvd_diff dvd_mult2)
  have "?P dvd (x2 - x1) * (?f ?X - (?l * (?X - x1) + y1) * (?l * (?X - x1) + y1))"
    unfolding chord_identity [OF refl] using e1(1) e2 by (metis dvd_add dvd_diff dvd_mult)
  then have "?P dvd ?f ?X - (?l * (?X - x1) + y1) * (?l * (?X - x1) + y1)" using k by (rule dvd_unit_cancel)
  then show ?thesis by (rule slope_on_curve) (rule refl)
qed

lemma tangent_on_curve:
  assumes "on_curve (Some (x1, y1))" "inverse_mod (2 * y1) P256_P = Some i"
  shows "on_curve (sum_with_slope ((3 * x1 * x1 + P256_A) * i mod P256_P) x1 y1 x1)"
proof -
  let ?l = "(3 * x1 * x1 + P256_A) * i mod P256_P" and ?P = "P256_P"
  let ?X = "?l * ?l - x1 - x1" and ?f = "\<lambda>x. x * x * x + P256_A * x + P256_B"
  obtain k where k: "(2 * y1) * i = 1 + k * ?P"
    using inverse_mod_works [OF assms(2)] by (auto simp: P256_P_def)
  have "?P dvd ?l * (2 * y1) - (3 * x1 * x1 + P256_A)" using slope_mod [OF k] .
  moreover have "3 * x1 * x1 + P256_A - 2 * ?l * y1 = - (?l * (2 * y1) - (3 * x1 * x1 + P256_A))" by algebra
  ultimately have l: "?P dvd 3 * x1 * x1 + P256_A - 2 * ?l * y1" by (metis dvd_minus_iff)
  have "?P dvd ?f x1 - y1 * y1" using assms(1) by (simp add: on_curve_Some dvd_diff_commute)
  then have "?P dvd ?f ?X - (?l * (?X - x1) + y1) * (?l * (?X - x1) + y1)"
    unfolding tangent_identity [OF refl] using l by (metis dvd_add dvd_mult)
  then show ?thesis by (rule slope_on_curve) (rule refl)
qed

definition curve_or_none :: "point \<Rightarrow> bool" where
  "curve_or_none p \<longleftrightarrow> p = None \<or> on_curve p"

lemma add_points_closed:
  assumes "curve_or_none p" "curve_or_none q" "add_points p q = Some r"
  shows "curve_or_none r"
proof (cases p; cases q)
  fix a b assume ab: "p = Some a" "q = Some b"
  obtain x1 y1 x2 y2 where xy: "a = (x1, y1)" "b = (x2, y2)" by (cases a; cases b)
  show ?thesis
    using assms ab xy chord_on_curve [of x1 y1 x2 y2] tangent_on_curve [of x1 y1]
    by (auto simp: curve_or_none_def add_points_def split: if_splits)
qed (use assms in \<open>auto simp: add_points_def\<close>)

lemma mul_from_closed:
  "curve_or_none r \<Longrightarrow> curve_or_none a \<Longrightarrow> mul_from k r a = Some q \<Longrightarrow> curve_or_none q"
proof (induction k r a rule: mul_from.induct)
  case (1 k r a)
  show ?case
  proof (cases "k = 0")
    case False
    obtain r' where r': "(if odd k then add_points r a else Some r) = Some r'"
      using 1(4) False by (auto simp: mul_from.simps [of k] split: option.splits)
    obtain a' where a': "add_points a a = Some a'"
      using 1(4) False r' by (auto simp: mul_from.simps [of k] split: option.splits)
    have "mul_from (k div 2) r' a' = Some q" using 1(4) False r' a' by (simp add: mul_from.simps [of k])
    moreover have "curve_or_none r'" using r' 1(2,3) add_points_closed [of r a r'] by (cases "odd k") simp_all
    moreover have "curve_or_none a'" using a' 1(3) add_points_closed by blast
    ultimately show ?thesis using 1(1) [OF False r' a'] by blast
  qed (use 1 in \<open>simp add: mul_from.simps [of 0]\<close>)
qed

lemma generator_on_curve: "on_curve (Some P256_G)"
proof -
  have "snd P256_G * snd P256_G - (fst P256_G * fst P256_G * fst P256_G + P256_A * fst P256_G + P256_B) =
      P256_P * (- 0x12bdd1ad23dfc833dccf5f6141d6bb4a1f365dc1430b0e600b52dd851938d2d6fe48d89a1028327df66c2a7b9edc3e46cdec89e6af942f1b022b7fe93b37c6ee)"
    by (simp add: P256_G_def P256_A_def P256_P_def P256_B_def)
  then have "P256_P dvd snd P256_G * snd P256_G -
      (fst P256_G * fst P256_G * fst P256_G + P256_A * fst P256_G + P256_B)" by (simp only: dvd_triv_left)
  then have "on_curve (Some (fst P256_G, snd P256_G))"
    unfolding on_curve_Some by (simp add: P256_G_def P256_P_def)
  then show ?thesis by simp
qed

lemma public_key_on_curve: "p256_public_key k = Inr p \<Longrightarrow> on_curve (Some p)"
  using mul_from_closed [of None "Some P256_G" k "Some p"] generator_on_curve
  by (auto simp: p256_public_key_def mul_point_def curve_or_none_def split: if_splits option.splits)

section \<open>Keys read back\<close>

lemma P256_P_bytes: "nat P256_P < 256 ^ 32"
  by (simp add: P256_P_def)

lemma spki_reads_back:
  assumes "on_curve (Some p)"
  shows "parse_public_key (base64 (spki_der p)) = Inr p"
proof -
  obtain x y where p: "p = (x, y)" by (cases p)
  have xy: "0 \<le> x" "x < P256_P" "0 \<le> y" "y < P256_P" using assms by (simp_all add: p on_curve_Some)
  then have "nat x < 256 ^ 32" "nat y < 256 ^ 32" using P256_P_bytes by linarith+
  then have b: "from_bytes (to_bytes 32 (nat x)) = nat x" "from_bytes (to_bytes 32 (nat y)) = nat y"
    by (simp_all only: from_to_bytes)
  have d: "drop (length SPKI_PREFIX + 1) (spki_der p) = to_bytes 32 (nat x) @ to_bytes 32 (nat y)"
    by (simp add: spki_der_def p)
  have "prefix SPKI_PREFIX (spki_der p)" "length (spki_der p) = length SPKI_PREFIX + 65"
    "spki_der p ! length SPKI_PREFIX = CHR 0x04"
    by (simp_all add: spki_der_def nth_append)
  then have "parse_public_key (base64 (spki_der p)) =
      (let point_bytes = to_bytes 32 (nat x) @ to_bytes 32 (nat y);
           point = (int (from_bytes (take 32 point_bytes)), int (from_bytes (drop 32 point_bytes)))
       in if on_curve (Some point) then Inr point else Inl OffCurve)"
    unfolding parse_public_key_def pem_or_base64_text d by (simp only: sum.case simp_thms if_False d)
  then show ?thesis using assms xy b by (simp add: p)
qed

text \<open>C21 (the key that is printed is the key that is used). Every public key computed for a private
  key is a point of the curve, and its base64 SubjectPublicKeyInfo, the text a user configures the
  endpoint with, parses back to that very point; a signature written in DER parses back to its
  two numbers. Nothing the tool prints is refused by its own reader.\<close>

theorem printed_key_reads_back:
  assumes "p256_public_key private = Inr p" "r < 256 ^ 32" "s < 256 ^ 32"
  shows "on_curve (Some p) \<and> parse_public_key (base64 (spki_der p)) = Inr p \<and>
    parse_der_signature (der_signature r s) = Inr (r, s)"
proof -
  have len: "length (der_int n) \<le> 36" if "n < 256 ^ 32" for n
  proof -
    have "byte_len n \<le> 32" using byte_len_le [OF that] .
    then have "length (der_int n) \<le> 3 + max 1 (byte_len n)"
      by (simp add: der_int_def Let_def der_len_def le_SucI)
    with \<open>byte_len n \<le> 32\<close> show ?thesis by simp
  qed
  have "length (der_int r @ der_int s) \<le> 72" using len [OF assms(2)] len [OF assms(3)] by simp
  then have "length (der_int r @ der_int s) < 256 ^ 4" by (rule order.strict_trans1) simp
  then show ?thesis
    using public_key_on_curve [OF assms(1)] spki_reads_back der_signature_reads_back by blast
qed

lemma inverse_mod_exists:
  assumes "a * u = 1 + q * n" "0 < n"
  shows "inverse_mod a n \<noteq> None"
proof -
  have "gcd (a mod n) n = gcd a n" by (metis gcd.commute gcd_red_int)
  moreover have "gcd a n dvd a * u - q * n" by simp
  ultimately have "gcd (a mod n) n dvd 1" using assms(1) by simp
  then have "gcd (int (nat (a mod n))) (int (nat n)) = 1" using assms(2) by simp
  then have "gcd (nat (a mod n)) (nat n) = 1" by (simp only: gcd_int_int_eq)
  then show ?thesis by (simp add: inverse_mod_def Let_def)
qed

lemma generator_key: "p256_public_key 1 = Inr P256_G"
proof -
  have y: "2 * snd P256_G * 0x7d13d1ed160030c54147c66b2e0d48cf7fe33dfb45a6dd82dded53bae22ea01a =
      1 + 0x4e104e12f3a38fc09aea0baf29696d6f7bd7bd47a01a49f9d3ccd9ab7ea51a3d * P256_P"
    by (simp add: P256_G_def P256_P_def)
  then have inv: "inverse_mod (2 * snd P256_G) P256_P \<noteq> None"
    by (rule inverse_mod_exists) (simp add: P256_P_def)
  obtain gx gy where g: "P256_G = (gx, gy)" by (cases P256_G)
  have "\<exists>a. add_points (Some P256_G) (Some P256_G) = Some a" using inv by (auto simp: add_points_def g)
  then obtain a where a: "add_points (Some P256_G) (Some P256_G) = Some a" ..
  have "mul_from 0 r b = Some r" for r b by (simp add: mul_from.simps [of 0])
  moreover have "add_points None (Some P256_G) = Some (Some P256_G)" by (simp add: add_points_def)
  ultimately have "mul_from 1 None (Some P256_G) = Some (Some P256_G)"
    using a by (simp add: mul_from.simps [of "Suc 0"])
  then show ?thesis by (simp add: p256_public_key_def mul_point_def P256_N_def)
qed

theorem printed_key_reads_back_witness:
  "parse_public_key (base64 (spki_der P256_G)) = Inr P256_G \<and> parse_der_signature (der_signature 7 9) = Inr (7, 9)"
  using printed_key_reads_back [OF generator_key, of 7 9] by simp

end
