(* ===== verification/Sigcheck.thy ===== *)
theory Sigcheck
  imports Sig_Curve Run
begin

text \<open>\<open>sigcheck\<close> (\<open>pipeline/sigcheck.py\<close>, \<open>resolve_env_secret\<close> of \<open>pipeline/toolconfig.py\<close>): the three
  schemes, the six variants and what a correct endpoint does with each, judging the answers, the
  settings and the run. HMAC and SHA-256 are the parameters of \<open>crypto\<close>; a wire format the
  target is configured with is a parameter; the message id of a run is an argument. Printing,
  the config block of the artifact and Ctrl-C are left out.\<close>

section \<open>Schemes\<close>

datatype scheme = MailgunScheme | SendgridScheme | PostmarkBasicScheme

datatype secret = TextSecret string | KeySecret nat

fun scheme_name :: "scheme \<Rightarrow> string" where
  "scheme_name MailgunScheme = ''mailgun''"
| "scheme_name SendgridScheme = ''sendgrid''"
| "scheme_name PostmarkBasicScheme = ''postmark-basic''"

definition has_timestamp :: "scheme \<Rightarrow> bool" where "has_timestamp s \<longleftrightarrow> s \<noteq> PostmarkBasicScheme"
definition signs_body :: "scheme \<Rightarrow> bool" where "signs_body s \<longleftrightarrow> s = SendgridScheme"

definition SCHEMES :: "scheme list" where "SCHEMES = [MailgunScheme, SendgridScheme, PostmarkBasicScheme]"

definition known_schemes :: "string list" where "known_schemes = sort (map scheme_name SCHEMES)"

definition get_scheme :: "string \<Rightarrow> sig_error + scheme" where
  "get_scheme name =
     (case find (\<lambda>s. scheme_name s = name) SCHEMES of None \<Rightarrow> Inl (UnknownScheme name) | Some s \<Rightarrow> Inr s)"

fun scheme_formats :: "scheme \<Rightarrow> string list" where
  "scheme_formats MailgunScheme = [''mailgun'']"
| "scheme_formats SendgridScheme = [''sendgrid'', ''sendgrid-raw'']"
| "scheme_formats PostmarkBasicScheme = [''postmark'']"

record signed =
  sn_headers :: "string dict"
  sn_fields :: "string dict"

definition unsigned :: signed where "unsigned = \<lparr>sn_headers = [], sn_fields = []\<rparr>"

definition hexdigest :: "bytes \<Rightarrow> string" where
  "hexdigest bs = concat (map (\<lambda>c. [hex_digit (of_char c div 16), hex_digit (of_char c mod 16)]) bs)"

definition mailgun_token :: "crypto \<Rightarrow> int \<Rightarrow> string \<Rightarrow> string" where
  "mailgun_token C timestamp nonce =
     take 50 (hexdigest (cr_sha256 C (''testinghq-mailgun-'' @ str_of_int timestamp @ ''-'' @ nonce)))"

definition mailgun_signature :: "crypto \<Rightarrow> string \<Rightarrow> string \<Rightarrow> string \<Rightarrow> string" where
  "mailgun_signature C signing_key timestamp token = hexdigest (cr_hmac C signing_key (timestamp @ token))"

definition MAILGUN_FIELDS :: "string list" where "MAILGUN_FIELDS = [''timestamp'', ''token'', ''signature'']"
definition SENDGRID_SIGNATURE_HEADER :: string where
  "SENDGRID_SIGNATURE_HEADER = ''X-Twilio-Email-Event-Webhook-Signature''"
definition SENDGRID_TIMESTAMP_HEADER :: string where
  "SENDGRID_TIMESTAMP_HEADER = ''X-Twilio-Email-Event-Webhook-Timestamp''"

text \<open>\<open>_key\<close>; a mailgun or postmark secret is always text.\<close>

definition sendgrid_key :: "secret \<Rightarrow> sig_error + nat" where
  "sendgrid_key s = (case s of KeySecret k \<Rightarrow> Inr k | TextSecret t \<Rightarrow> parse_private_key t)"

definition secret_text :: "secret \<Rightarrow> string" where
  "secret_text s = (case s of TextSecret t \<Rightarrow> t | KeySecret k \<Rightarrow> str_of_nat k)"

definition wrong_user :: "string \<Rightarrow> string" where "wrong_user s = takeWhile (\<lambda>c. c \<noteq> CHR '':'') s"

definition wrong_secret :: "crypto \<Rightarrow> scheme \<Rightarrow> secret \<Rightarrow> sig_error + secret" where
  "wrong_secret C scheme s =
     (case scheme of
        MailgunScheme \<Rightarrow> Inr (TextSecret ''testinghq-not-the-signing-key'')
      | SendgridScheme \<Rightarrow>
          (let other = from_bytes (cr_sha256 C ''testinghq-sigcheck-wrong-key'') mod nat P256_N
           in case sendgrid_key s of
                Inl e \<Rightarrow> Inl e
              | Inr k \<Rightarrow> Inr (KeySecret (if other \<noteq> k then other else other + 1)))
      | PostmarkBasicScheme \<Rightarrow> Inr (TextSecret (wrong_user (secret_text s) @ '':testinghq-not-the-password'')))"

definition postmark_header :: "string \<Rightarrow> sig_error + string" where
  "postmark_header s = (if CHR '':'' \<notin> set s then Inl NotUserPassword else Inr (''Basic '' @ base64 s))"

text \<open>\<open>sign\<close>; \<open>None\<close> is a signing loop that does not end.\<close>

definition sign :: "crypto \<Rightarrow> scheme \<Rightarrow> bytes \<Rightarrow> secret \<Rightarrow> int \<Rightarrow> string \<Rightarrow> (sig_error + signed) option" where
  "sign C scheme body s timestamp nonce =
     (case scheme of
        MailgunScheme \<Rightarrow>
          (let token = mailgun_token C timestamp nonce
           in Some (Inr \<lparr>sn_headers = [], sn_fields =
             [(''timestamp'', str_of_int timestamp), (''token'', token),
              (''signature'', mailgun_signature C (secret_text s) (str_of_int timestamp) token)]\<rparr>))
      | SendgridScheme \<Rightarrow>
          (case sendgrid_key s of
             Inl e \<Rightarrow> Some (Inl e)
           | Inr k \<Rightarrow>
               (case p256_sign_digest C k (cr_sha256 C (str_of_int timestamp @ body)) of
                  None \<Rightarrow> None
                | Some (Inl e) \<Rightarrow> Some (Inl e)
                | Some (Inr (r, x)) \<Rightarrow> Some (Inr \<lparr>sn_headers =
                    [(SENDGRID_SIGNATURE_HEADER, base64 (der_signature r x)),
                     (SENDGRID_TIMESTAMP_HEADER, str_of_int timestamp)], sn_fields = []\<rparr>)))
      | PostmarkBasicScheme \<Rightarrow>
          (case postmark_header (secret_text s) of
             Inl e \<Rightarrow> Some (Inl e)
           | Inr h \<Rightarrow> Some (Inr \<lparr>sn_headers = [(''Authorization'', h)], sn_fields = []\<rparr>)))"

definition verify_signed :: "crypto \<Rightarrow> scheme \<Rightarrow> bytes \<Rightarrow> secret \<Rightarrow> signed \<Rightarrow> sig_error + bool" where
  "verify_signed C scheme body s g =
     (case scheme of
        MailgunScheme \<Rightarrow>
          (case (map_of (sn_fields g) ''timestamp'', map_of (sn_fields g) ''token'', map_of (sn_fields g) ''signature'') of
             (Some t, Some token, Some sig) \<Rightarrow> Inr (mailgun_signature C (secret_text s) t token = sig)
           | _ \<Rightarrow> Inr False)
      | SendgridScheme \<Rightarrow>
          (case (map_of (sn_headers g) SENDGRID_SIGNATURE_HEADER, map_of (sn_headers g) SENDGRID_TIMESTAMP_HEADER) of
             (Some raw, Some t) \<Rightarrow>
               (case unbase64 raw of
                  None \<Rightarrow> Inr False
                | Some der \<Rightarrow>
                    (case parse_der_signature der of
                       Inl e \<Rightarrow> Inr False
                     | Inr (r, x) \<Rightarrow>
                         (case sendgrid_key s of
                            Inl e \<Rightarrow> Inl e
                          | Inr k \<Rightarrow>
                              (case p256_public_key k of
                                 Inl e \<Rightarrow> Inl e
                               | Inr public \<Rightarrow> p256_verify_digest public (cr_sha256 C (t @ body)) r x))))
           | _ \<Rightarrow> Inr False)
      | PostmarkBasicScheme \<Rightarrow>
          (case map_of (sn_headers g) ''Authorization'' of
             None \<Rightarrow> Inr False
           | Some presented \<Rightarrow>
               (case postmark_header (secret_text s) of Inl e \<Rightarrow> Inl e | Inr h \<Rightarrow> Inr (presented = h))))"

section \<open>The plan\<close>

datatype sig_variant = Valid | WrongSecret | Unsigned | Stale | Tampered | Replayed
datatype expectation = Accept | Reject | Info | NotApplicable

definition VARIANTS :: "sig_variant list" where
  "VARIANTS = [Valid, WrongSecret, Unsigned, Stale, Tampered, Replayed]"

fun variant_name :: "sig_variant \<Rightarrow> string" where
  "variant_name Valid = ''valid''"
| "variant_name WrongSecret = ''wrong-secret''"
| "variant_name Unsigned = ''unsigned''"
| "variant_name Stale = ''stale-timestamp''"
| "variant_name Tampered = ''tampered-body''"
| "variant_name Replayed = ''replayed-token''"

datatype plan_reason =
    SignedNow | DifferentSecret | NoAuthentication | OldOptional int | OldOutside int rat | NoTimestamp string
  | OtherBody | BodyNotCovered string | TokenAgain | SentAgain | NothingToReplay string

record planned =
  pl_variant :: sig_variant
  pl_expect :: expectation
  pl_reason :: plan_reason
  pl_payload :: "email option"
  pl_signed :: signed
  pl_fixed :: "string dict option"

definition sample_payload :: "bool \<Rightarrow> string \<Rightarrow> email" where
  "sample_payload tampered message_id =
     (let from = ''sigcheck@example.com''; to = ''intake@example.com'';
          subject = (if tampered then ''Order 1042: please refund to a new account''
            else ''Order 1042: question about delivery'');
          body = ''Hello, could you tell me when order 1042 will arrive? Thank you.''
      in \<lparr>em_to = to, em_from_addr = from, em_subject = subject, em_text = body @ [CHR 0x0A],
          em_html = ''<html><body><p>'' @ body @ ''</p></body></html>'',
          em_envelope = \<lparr>env_to = [to], env_from_addr = from\<rparr>,
          em_ground_truth = \<lparr>gt_from_addr = from, gt_subject = subject, gt_body_core = body\<rparr>,
          em_headers = [(''Message-ID'', message_id), (''Subject'', subject)], em_charsets = [],
          em_attachments = [], em_raw_fields = [], em_extra_form_fields = []\<rparr>)"

text \<open>\<open>int(x)\<close> of a float.\<close>

definition truncate_rat :: "rat \<Rightarrow> int" where
  "truncate_rat x = (if 0 \<le> x then \<lfloor>x\<rfloor> else - \<lfloor>- x\<rfloor>)"

definition signed_for ::
  "crypto \<Rightarrow> scheme \<Rightarrow> (email \<Rightarrow> signed \<Rightarrow> bytes) \<Rightarrow> email \<Rightarrow> secret \<Rightarrow> int \<Rightarrow> sig_variant \<Rightarrow> (sig_error + signed) option"
where
  "signed_for C scheme encode payload key timestamp v =
     sign C scheme (if signs_body scheme then encode payload unsigned else []) key timestamp (variant_name v)"

definition and_then :: "(sig_error + 'a) option \<Rightarrow> ('a \<Rightarrow> (sig_error + 'b) option) \<Rightarrow> (sig_error + 'b) option" where
  "and_then x f = (case x of None \<Rightarrow> None | Some (Inl e) \<Rightarrow> Some (Inl e) | Some (Inr a) \<Rightarrow> f a)"

definition stale_time :: "int \<Rightarrow> rat \<Rightarrow> int" where
  "stale_time now window = now - truncate_rat window - 60"

definition stale_item :: "scheme \<Rightarrow> int \<Rightarrow> rat \<Rightarrow> email \<Rightarrow> signed \<Rightarrow> planned" where
  "stale_item scheme now window original g =
     (let age = now - stale_time now window
      in if scheme = MailgunScheme
         then \<lparr>pl_variant = Stale, pl_expect = Info, pl_reason = OldOptional age, pl_payload = Some original,
           pl_signed = g, pl_fixed = None\<rparr>
         else \<lparr>pl_variant = Stale, pl_expect = Reject, pl_reason = OldOutside age window,
           pl_payload = Some original, pl_signed = g, pl_fixed = None\<rparr>)"

definition replay_item :: "scheme \<Rightarrow> email \<Rightarrow> signed \<Rightarrow> planned" where
  "replay_item scheme original valid =
     (if scheme = MailgunScheme
      then \<lparr>pl_variant = Replayed, pl_expect = Reject, pl_reason = TokenAgain, pl_payload = Some original,
        pl_signed = valid, pl_fixed = None\<rparr>
      else if has_timestamp scheme
      then \<lparr>pl_variant = Replayed, pl_expect = Info, pl_reason = SentAgain, pl_payload = Some original,
        pl_signed = valid, pl_fixed = None\<rparr>
      else \<lparr>pl_variant = Replayed, pl_expect = NotApplicable, pl_reason = NothingToReplay (scheme_name scheme),
        pl_payload = None, pl_signed = unsigned, pl_fixed = None\<rparr>)"

definition plan_variants ::
  "crypto \<Rightarrow> scheme \<Rightarrow> secret \<Rightarrow> int \<Rightarrow> rat \<Rightarrow> (email \<Rightarrow> signed \<Rightarrow> bytes) \<Rightarrow> string \<Rightarrow>
     (sig_error + planned list) option"
where
  "plan_variants C scheme s now window encode message_id =
     (let original = sample_payload False message_id; tampered = sample_payload True message_id;
          signed' = signed_for C scheme encode
      in and_then (signed' original s now Valid) (\<lambda>valid.
         and_then (case wrong_secret C scheme s of Inl e \<Rightarrow> Some (Inl e)
             | Inr other \<Rightarrow> signed' original other now WrongSecret) (\<lambda>wrong.
         and_then (if has_timestamp scheme
             then and_then (signed' original s (stale_time now window) Stale)
               (\<lambda>g. Some (Inr (stale_item scheme now window original g)))
             else Some (Inr \<lparr>pl_variant = Stale, pl_expect = NotApplicable,
               pl_reason = NoTimestamp (scheme_name scheme), pl_payload = None, pl_signed = unsigned,
               pl_fixed = None\<rparr>)) (\<lambda>stale.
         and_then (if signs_body scheme
             then Some (Inr \<lparr>pl_variant = Tampered, pl_expect = Reject, pl_reason = OtherBody,
               pl_payload = Some tampered, pl_signed = unsigned, pl_fixed = Some (sn_headers valid)\<rparr>)
             else and_then (signed' tampered s now Tampered)
               (\<lambda>g. Some (Inr \<lparr>pl_variant = Tampered, pl_expect = Info,
                 pl_reason = BodyNotCovered (scheme_name scheme), pl_payload = Some tampered, pl_signed = g,
                 pl_fixed = None\<rparr>))) (\<lambda>tamper.
         Some (Inr
           [\<lparr>pl_variant = Valid, pl_expect = Accept, pl_reason = SignedNow, pl_payload = Some original,
              pl_signed = valid, pl_fixed = None\<rparr>,
            \<lparr>pl_variant = WrongSecret, pl_expect = Reject, pl_reason = DifferentSecret,
              pl_payload = Some original, pl_signed = wrong, pl_fixed = None\<rparr>,
            \<lparr>pl_variant = Unsigned, pl_expect = Reject, pl_reason = NoAuthentication,
              pl_payload = Some original, pl_signed = unsigned, pl_fixed = None\<rparr>,
            stale, tamper, replay_item scheme original valid]))))))"

section \<open>Judging\<close>

datatype sig_verdict = SigOk | SigFinding | SigInfo | SigNA

datatype sig_detail =
    NotSentBecause plan_reason | NoResponse "string option" | Crashed int | WasAccepted int | WasRefused int
  | ValidRefused int | NotEnforced int

record sig_outcome =
  vo_variant :: sig_variant
  vo_expect :: expectation
  vo_status :: "int option"
  vo_error :: "string option"
  vo_verdict :: sig_verdict
  vo_detail :: sig_detail

definition is_accepted :: "int \<Rightarrow> bool" where "is_accepted answered \<longleftrightarrow> 200 \<le> answered \<and> answered < 300"
definition is_refused :: "int \<Rightarrow> bool" where "is_refused answered \<longleftrightarrow> 400 \<le> answered \<and> answered < 500"

definition vo_accepted :: "sig_outcome \<Rightarrow> bool option" where
  "vo_accepted out = map_option is_accepted (vo_status out)"

definition judge_answer :: "planned \<Rightarrow> int option \<Rightarrow> string option \<Rightarrow> sig_outcome" where
  "judge_answer p answered error =
     (let result = \<lambda>(v, d). \<lparr>vo_variant = pl_variant p, vo_expect = pl_expect p, vo_status = answered,
            vo_error = error, vo_verdict = v, vo_detail = d\<rparr>
      in if pl_expect p = NotApplicable then result (SigNA, NotSentBecause (pl_reason p))
         else (case answered of
             None \<Rightarrow> result (SigFinding, NoResponse error)
           | Some code \<Rightarrow>
               if \<not> is_accepted code \<and> \<not> is_refused code then result (SigFinding, Crashed code)
               else if pl_expect p = Info
               then result (SigInfo, if is_accepted code then WasAccepted code else WasRefused code)
               else if pl_expect p = Accept
               then (if is_accepted code then result (SigOk, WasAccepted code) else result (SigFinding, ValidRefused code))
               else if is_refused code then result (SigOk, WasRefused code)
               else result (SigFinding, NotEnforced code)))"

datatype sig_note = FollowsGuidance | RefusesEverything

definition notes_for :: "sig_outcome list \<Rightarrow> scheme \<Rightarrow> sig_note list" where
  "notes_for outs scheme =
     (let by = map_of (rev (map (\<lambda>x. (vo_variant x, x)) outs))
      in (case (by Stale, by Replayed) of
            (Some stale, Some replay) \<Rightarrow>
              if scheme = MailgunScheme \<and> vo_accepted stale = Some True \<and> vo_accepted replay = Some False
              then [FollowsGuidance] else []
          | _ \<Rightarrow> []) @
         (case by Valid of Some x \<Rightarrow> if vo_verdict x = SigFinding then [RefusesEverything] else [] | None \<Rightarrow> []))"

record sig_artifact =
  xa_verdict :: string
  xa_findings :: nat
  xa_informational :: nat
  xa_sent :: nat
  xa_variants :: nat
  xa_notes :: "sig_note list"
  xa_outcomes :: "sig_outcome list"

definition build_sig_artifact :: "sig_outcome list \<Rightarrow> sig_note list \<Rightarrow> bool \<Rightarrow> sig_artifact" where
  "build_sig_artifact outs notes aborted =
     (let findings = length (filter (\<lambda>x. vo_verdict x = SigFinding) outs)
      in \<lparr>xa_verdict = (if findings = 0 \<and> \<not> aborted then ''ENFORCED'' else ''GAPS''), xa_findings = findings,
          xa_informational = length (filter (\<lambda>x. vo_verdict x = SigInfo) outs),
          xa_sent = length (filter (\<lambda>x. vo_verdict x \<noteq> SigNA) outs), xa_variants = length outs,
          xa_notes = notes, xa_outcomes = outs\<rparr>)"

section \<open>Settings\<close>

datatype settings_error =
    BadSchemeKey json | SecretNotEnv | BadWindowKey json | NoScheme | BadScheme sig_error | BadWindow rat
  | NoSecret | EnvRefused | EnvNoName | EnvNotSet string

text \<open>The \<open>[sigcheck]\<close> table as the TOML reader gives it.\<close>

definition load_sigcheck_section :: "json dict \<Rightarrow> settings_error + json dict" where
  "load_sigcheck_section section =
     (let scheme = map_of section ''scheme''; secret = map_of section ''secret'';
          window = map_of section ''timestamp_window_seconds''
      in if (case scheme of None \<Rightarrow> False | Some (JStr s) \<Rightarrow> s \<notin> set known_schemes | Some _ \<Rightarrow> True)
         then Inl (BadSchemeKey (the scheme))
         else if (case secret of None \<Rightarrow> False | Some (JStr s) \<Rightarrow> \<not> prefix ''env:'' s | Some _ \<Rightarrow> True)
         then Inl SecretNotEnv
         else if (case window of None \<Rightarrow> False
             | Some w \<Rightarrow> (case strict_num w of None \<Rightarrow> True | Some x \<Rightarrow> x \<le> 0))
         then Inl (BadWindowKey (the window))
         else Inr section)"

record settings =
  se_scheme :: scheme
  se_secret_ref :: "string option"
  se_window :: rat

definition DEFAULT_WINDOW :: rat where "DEFAULT_WINDOW = 300"

definition text_at :: "json dict \<Rightarrow> string \<Rightarrow> string option" where
  "text_at section k = (case map_of section k of Some (JStr s) \<Rightarrow> Some s | _ \<Rightarrow> None)"

definition effective_settings ::
  "json dict \<Rightarrow> string option \<Rightarrow> string option \<Rightarrow> rat option \<Rightarrow> settings_error + settings"
where
  "effective_settings section scheme secret window =
     (let chosen = (if truthy scheme then scheme else text_at section ''scheme'')
      in if \<not> truthy chosen then Inl NoScheme
         else (case get_scheme (the chosen) of
             Inl e \<Rightarrow> Inl (BadScheme e)
           | Inr s \<Rightarrow>
               (let span = (case window of Some w \<Rightarrow> w
                     | None \<Rightarrow> (case map_of section ''timestamp_window_seconds'' of
                         Some w \<Rightarrow> the (strict_num w) | None \<Rightarrow> DEFAULT_WINDOW))
                in if span \<le> 0 then Inl (BadWindow span)
                   else Inr \<lparr>se_scheme = s,
                     se_secret_ref = (if truthy secret then secret else text_at section ''secret''),
                     se_window = span\<rparr>)))"

definition resolve_env_secret :: "string \<Rightarrow> string dict \<Rightarrow> settings_error + string" where
  "resolve_env_secret v environ =
     (if \<not> prefix ''env:'' v then Inl EnvRefused
      else (let name = strip (drop 4 v)
        in if name = [] then Inl EnvNoName
           else (case map_of environ name of None \<Rightarrow> Inl (EnvNotSet name) | Some x \<Rightarrow> Inr x)))"

definition resolve_secret :: "settings \<Rightarrow> string dict \<Rightarrow> settings_error + string" where
  "resolve_secret S environ =
     (if \<not> truthy (se_secret_ref S) then Inl NoSecret else resolve_env_secret (the (se_secret_ref S)) environ)"

text \<open>The plan a dry run shows: with no secret, the placeholder.\<close>

fun placeholder_secret :: "scheme \<Rightarrow> secret" where
  "placeholder_secret SendgridScheme = KeySecret 1"
| "placeholder_secret PostmarkBasicScheme = TextSecret ''dry-run:dry-run''"
| "placeholder_secret MailgunScheme = TextSecret ''dry-run''"

definition DRY_RUN_NOW :: int where "DRY_RUN_NOW = 1700000000"
definition SAMPLE_MESSAGE_ID :: string where "SAMPLE_MESSAGE_ID = ''<sigcheck-1042@hq.example.test>''"

definition preview_plan :: "crypto \<Rightarrow> settings \<Rightarrow> secret option \<Rightarrow> (sig_error + planned list) option" where
  "preview_plan C S secret =
     plan_variants C (se_scheme S) (case secret of Some s \<Rightarrow> s | None \<Rightarrow> placeholder_secret (se_scheme S))
       DRY_RUN_NOW (se_window S) (\<lambda>_ _. []) SAMPLE_MESSAGE_ID"

definition format_mismatch :: "scheme \<Rightarrow> string \<Rightarrow> bool" where
  "format_mismatch scheme format_name \<longleftrightarrow> format_name \<notin> set (scheme_formats scheme)"

section \<open>The run\<close>

text \<open>\<open>_encoder\<close>: mailgun carries its signature in form fields of its own format.\<close>

definition wire_format_for :: "(string \<Rightarrow> email \<Rightarrow> encoded_body) \<Rightarrow> scheme \<Rightarrow> string \<Rightarrow> signed \<Rightarrow> email \<Rightarrow> encoded_body" where
  "wire_format_for F scheme format_name g e =
     (if scheme = MailgunScheme
      then form_body DEFAULT_BOUNDARY (mailgun_parts (if sn_fields g = [] then None else Some (sn_fields g)) e)
      else F format_name e)"

definition extra_headers :: "planned \<Rightarrow> string dict" where
  "extra_headers p = (case pl_fixed p of Some h \<Rightarrow> h | None \<Rightarrow> sn_headers (pl_signed p))"

definition send_planned ::
  "('w, prepared_request) env \<Rightarrow> (string \<Rightarrow> email \<Rightarrow> encoded_body) \<Rightarrow> scheme \<Rightarrow> resolved_target \<Rightarrow>
     planned \<Rightarrow> 'w \<Rightarrow> (request_error + int option \<times> string option) \<times> 'w"
where
  "send_planned E F scheme target p w =
     (let fixed = extra_headers p;
          hook = (if fixed = [] then None
            else Some (\<lambda>body. HookDict (map (\<lambda>(k, v). (PStr k, PStr v)) fixed)));
          payload = the (pl_payload p)
      in case build_request (wire_format_for F scheme (rt_format_name target) (pl_signed p)) hook (rt_url target)
             10 payload of
           Inl e \<Rightarrow> (Inl e, w)
         | Inr request \<Rightarrow>
             (case post (en_timing E) (en_client E (rt_url target)) (\<lambda>_. request) payload w of
                (r, w') \<Rightarrow> (Inr (tr_status r, tr_error r), w')))"

text \<open>The loop of \<open>execute\<close>, over any way of sending one planned request.\<close>

fun sig_outcomes ::
  "(planned \<Rightarrow> 'w \<Rightarrow> (request_error + int option \<times> string option) \<times> 'w) \<Rightarrow> planned list \<Rightarrow> 'w \<Rightarrow>
     (request_error + sig_outcome list) \<times> 'w"
where
  "sig_outcomes send [] w = (Inr [], w)"
| "sig_outcomes send (p # ps) w =
     (case (if pl_expect p = NotApplicable then (Inr (None, None), w) else send p w) of
        (Inl e, w') \<Rightarrow> (Inl e, w')
      | (Inr (answered, error), w') \<Rightarrow>
          (case sig_outcomes send ps w' of
             (Inl e, w'') \<Rightarrow> (Inl e, w'')
           | (Inr outs, w'') \<Rightarrow> (Inr (judge_answer p answered error # outs), w'')))"

definition sig_finish :: "sig_outcome list \<Rightarrow> scheme \<Rightarrow> nat \<times> sig_artifact" where
  "sig_finish outs scheme =
     (let a = build_sig_artifact outs (notes_for outs scheme) False
      in (if xa_findings a \<noteq> 0 then EXIT_FINDING else EXIT_OK, a))"

record sig_params =
  sp_scheme :: string
  sp_secret :: secret
  sp_target :: "string option"
  sp_window :: rat
  sp_allow_public :: bool
  sp_message_id :: string

definition sig_prepare ::
  "('w, prepared_request) env \<Rightarrow> crypto \<Rightarrow> (string \<Rightarrow> email \<Rightarrow> encoded_body) \<Rightarrow> ('w \<Rightarrow> seconds \<times> 'w) \<Rightarrow>
     sig_params \<Rightarrow> 'w \<Rightarrow> ((unit + scheme \<times> resolved_target \<times> planned list) \<times> 'w) option"
where
  "sig_prepare E C F clock P w =
     (case get_scheme (sp_scheme P) of
        Inl e \<Rightarrow> Some (Inl (), w)
      | Inr scheme \<Rightarrow>
      (case resolve_target (en_net E) (sp_target P) (en_config E) (sp_allow_public P) [] of
        Inl e \<Rightarrow> Some (Inl (), w)
      | Inr target \<Rightarrow>
      if format_mismatch scheme (rt_format_name target) then Some (Inl (), w)
      else (let sample = sample_payload False SAMPLE_MESSAGE_ID in
      case require_synthetic_content (en_net E) [PStr (em_to sample), PStr (em_from_addr sample)] of
        Inl e \<Rightarrow> Some (Inl (), w)
      | Inr _ \<Rightarrow>
      if scheme = SendgridScheme \<and> (case sendgrid_key (sp_secret P) of Inl e \<Rightarrow> True | Inr k \<Rightarrow> False)
      then Some (Inl (), w)
      else (case clock w of (now, w1) \<Rightarrow>
        (case plan_variants C scheme (sp_secret P) (truncate_rat now) (sp_window P)
               (\<lambda>e g. eb_body (wire_format_for F scheme (rt_format_name target) g e)) (sp_message_id P) of
           None \<Rightarrow> None
         | Some (Inl e) \<Rightarrow> Some (Inl (), w1)
         | Some (Inr ps) \<Rightarrow> Some (Inr (scheme, target, ps), w1))))))"

definition sig_execute ::
  "('w, prepared_request) env \<Rightarrow> crypto \<Rightarrow> (string \<Rightarrow> email \<Rightarrow> encoded_body) \<Rightarrow> ('w \<Rightarrow> seconds \<times> 'w) \<Rightarrow>
     sig_params \<Rightarrow> 'w \<Rightarrow> ((request_error + nat \<times> sig_artifact option) \<times> 'w) option"
where
  "sig_execute E C F clock P w =
     (case sig_prepare E C F clock P w of
        None \<Rightarrow> None
      | Some (Inl _, w1) \<Rightarrow> Some (Inr (EXIT_REFUSED, None), w1)
      | Some (Inr (scheme, target, ps), w1) \<Rightarrow>
          (case sig_outcomes (send_planned E F scheme target) ps w1 of
             (Inl e, w2) \<Rightarrow> Some (Inl e, w2)
           | (Inr outs, w2) \<Rightarrow>
               (case sig_finish outs scheme of (code, a) \<Rightarrow> Some (Inr (code, Some a), w2))))"

section \<open>What a plan holds\<close>

lemma and_then_Inr: "and_then x f = Some (Inr b) \<longleftrightarrow> (\<exists>a. x = Some (Inr a) \<and> f a = Some (Inr b))"
  by (auto simp: and_then_def split: option.splits sum.splits)

text \<open>What the fourth and the fifth variant are, from the two signatures of their schemes.\<close>

definition plain_item :: "sig_variant \<Rightarrow> expectation \<Rightarrow> plan_reason \<Rightarrow> email \<Rightarrow> signed \<Rightarrow> planned" where
  "plain_item v x r e g = \<lparr>pl_variant = v, pl_expect = x, pl_reason = r, pl_payload = Some e, pl_signed = g,
     pl_fixed = None\<rparr>"

lemma plan_form:
  assumes "plan_variants C scheme s now window encode mid = Some (Inr ps)"
  obtains valid other wrong stale tamper where
    "ps = [plain_item Valid Accept SignedNow (sample_payload False mid) valid,
       plain_item WrongSecret Reject DifferentSecret (sample_payload False mid) wrong,
       plain_item Unsigned Reject NoAuthentication (sample_payload False mid) unsigned, stale, tamper,
       replay_item scheme (sample_payload False mid) valid]"
    "signed_for C scheme encode (sample_payload False mid) s now Valid = Some (Inr valid)"
    "wrong_secret C scheme s = Inr other"
    "signed_for C scheme encode (sample_payload False mid) other now WrongSecret = Some (Inr wrong)"
    "if has_timestamp scheme
     then \<exists>g. signed_for C scheme encode (sample_payload False mid) s (stale_time now window) Stale = Some (Inr g) \<and>
       stale = stale_item scheme now window (sample_payload False mid) g
     else pl_variant stale = Stale \<and> pl_expect stale = NotApplicable"
    "pl_variant tamper = Tampered" "pl_payload tamper = Some (sample_payload True mid)"
    "if signs_body scheme
     then pl_expect tamper = Reject \<and> pl_fixed tamper = Some (sn_headers valid)
     else pl_expect tamper = Info \<and> pl_fixed tamper = None \<and>
       signed_for C scheme encode (sample_payload True mid) s now Tampered = Some (Inr (pl_signed tamper))"
proof -
  let ?o = "sample_payload False mid" and ?t = "sample_payload True mid"
  let ?na = "\<lparr>pl_variant = Stale, pl_expect = NotApplicable, pl_reason = NoTimestamp (scheme_name scheme),
    pl_payload = None, pl_signed = unsigned, pl_fixed = None\<rparr>"
  have "\<exists>valid wrong stale tamper. signed_for C scheme encode ?o s now Valid = Some (Inr valid) \<and>
    (case wrong_secret C scheme s of Inl e \<Rightarrow> Some (Inl e)
       | Inr other \<Rightarrow> signed_for C scheme encode ?o other now WrongSecret) = Some (Inr wrong) \<and>
    (if has_timestamp scheme
     then and_then (signed_for C scheme encode ?o s (stale_time now window) Stale)
       (\<lambda>g. Some (Inr (stale_item scheme now window ?o g)))
     else Some (Inr ?na)) = Some (Inr stale) \<and>
    (if signs_body scheme
     then Some (Inr \<lparr>pl_variant = Tampered, pl_expect = Reject, pl_reason = OtherBody, pl_payload = Some ?t,
       pl_signed = unsigned, pl_fixed = Some (sn_headers valid)\<rparr>)
     else and_then (signed_for C scheme encode ?t s now Tampered)
       (\<lambda>g. Some (Inr \<lparr>pl_variant = Tampered, pl_expect = Info, pl_reason = BodyNotCovered (scheme_name scheme),
         pl_payload = Some ?t, pl_signed = g, pl_fixed = None\<rparr>))) = Some (Inr tamper) \<and>
    ps = [plain_item Valid Accept SignedNow ?o valid, plain_item WrongSecret Reject DifferentSecret ?o wrong,
       plain_item Unsigned Reject NoAuthentication ?o unsigned, stale, tamper, replay_item scheme ?o valid]"
    using assms unfolding plan_variants_def Let_def plain_item_def
    by (subst (asm) and_then_Inr, elim exE conjE, subst (asm) (2) and_then_Inr, elim exE conjE,
      subst (asm) (3) and_then_Inr, elim exE conjE) (auto simp: and_then_Inr)
  then obtain valid wrong stale tamper where x: "signed_for C scheme encode ?o s now Valid = Some (Inr valid)"
    "(case wrong_secret C scheme s of Inl e \<Rightarrow> Some (Inl e)
       | Inr other \<Rightarrow> signed_for C scheme encode ?o other now WrongSecret) = Some (Inr wrong)"
    "(if has_timestamp scheme
     then and_then (signed_for C scheme encode ?o s (stale_time now window) Stale)
       (\<lambda>g. Some (Inr (stale_item scheme now window ?o g)))
     else Some (Inr ?na)) = Some (Inr stale)"
    "(if signs_body scheme
     then Some (Inr \<lparr>pl_variant = Tampered, pl_expect = Reject, pl_reason = OtherBody, pl_payload = Some ?t,
       pl_signed = unsigned, pl_fixed = Some (sn_headers valid)\<rparr>)
     else and_then (signed_for C scheme encode ?t s now Tampered)
       (\<lambda>g. Some (Inr \<lparr>pl_variant = Tampered, pl_expect = Info, pl_reason = BodyNotCovered (scheme_name scheme),
         pl_payload = Some ?t, pl_signed = g, pl_fixed = None\<rparr>))) = Some (Inr tamper)"
    "ps = [plain_item Valid Accept SignedNow ?o valid, plain_item WrongSecret Reject DifferentSecret ?o wrong,
       plain_item Unsigned Reject NoAuthentication ?o unsigned, stale, tamper, replay_item scheme ?o valid]"
    by blast
  obtain other where o: "wrong_secret C scheme s = Inr other"
    "signed_for C scheme encode ?o other now WrongSecret = Some (Inr wrong)"
    using x(2) by (cases "wrong_secret C scheme s") simp_all
  show thesis
  proof (rule that [OF x(5,1) o])
    show "if has_timestamp scheme
     then \<exists>g. signed_for C scheme encode ?o s (stale_time now window) Stale = Some (Inr g) \<and>
       stale = stale_item scheme now window ?o g
     else pl_variant stale = Stale \<and> pl_expect stale = NotApplicable"
      using x(3) by (auto simp: and_then_Inr)
    show "pl_variant tamper = Tampered" "pl_payload tamper = Some ?t"
      using x(4) by (auto simp: and_then_Inr split: if_splits)
    show "if signs_body scheme
     then pl_expect tamper = Reject \<and> pl_fixed tamper = Some (sn_headers valid)
     else pl_expect tamper = Info \<and> pl_fixed tamper = None \<and>
       signed_for C scheme encode ?t s now Tampered = Some (Inr (pl_signed tamper))"
      using x(4) by (auto simp: and_then_Inr)
  qed
qed

lemma window_truncated: "window - 1 < of_int (truncate_rat window)"
  by (cases "0 \<le> window") (simp_all add: truncate_rat_def, linarith+)

lemma stale_is_outside: "window < of_int (now - stale_time now window)"
  using window_truncated [of window] by (simp add: stale_time_def)

text \<open>What is sent, and what is expected. A plan holds the six variants in order with the
  expectation of its scheme; the request of the stale variant is signed with a time further back
  than the window, the replayed request is the valid one again, and the tampered one carries
  another message.\<close>

theorem plan_is_complete:
  assumes "plan_variants C scheme s now window encode mid = Some (Inr ps)"
  shows "map pl_variant ps = VARIANTS \<and>
    map pl_expect ps = (case scheme of
        MailgunScheme \<Rightarrow> [Accept, Reject, Reject, Info, Info, Reject]
      | SendgridScheme \<Rightarrow> [Accept, Reject, Reject, Reject, Reject, Info]
      | PostmarkBasicScheme \<Rightarrow> [Accept, Reject, Reject, NotApplicable, Info, NotApplicable]) \<and>
    window < of_int (now - stale_time now window) \<and>
    (has_timestamp scheme \<longrightarrow>
       signed_for C scheme encode (sample_payload False mid) s (stale_time now window) Stale =
         Some (Inr (pl_signed (ps ! 3))) \<and>
       pl_payload (ps ! 5) = pl_payload (ps ! 0) \<and> extra_headers (ps ! 5) = extra_headers (ps ! 0) \<and>
       pl_signed (ps ! 5) = pl_signed (ps ! 0)) \<and>
    em_subject (the (pl_payload (ps ! 4))) \<noteq> em_subject (the (pl_payload (ps ! 0)))"
proof -
  obtain valid other wrong stale tamper where f:
    "ps = [plain_item Valid Accept SignedNow (sample_payload False mid) valid,
       plain_item WrongSecret Reject DifferentSecret (sample_payload False mid) wrong,
       plain_item Unsigned Reject NoAuthentication (sample_payload False mid) unsigned, stale, tamper,
       replay_item scheme (sample_payload False mid) valid]"
    "if has_timestamp scheme
     then \<exists>g. signed_for C scheme encode (sample_payload False mid) s (stale_time now window) Stale = Some (Inr g) \<and>
       stale = stale_item scheme now window (sample_payload False mid) g
     else pl_variant stale = Stale \<and> pl_expect stale = NotApplicable"
    "pl_variant tamper = Tampered" "pl_payload tamper = Some (sample_payload True mid)"
    "if signs_body scheme
     then pl_expect tamper = Reject \<and> pl_fixed tamper = Some (sn_headers valid)
     else pl_expect tamper = Info \<and> pl_fixed tamper = None \<and>
       signed_for C scheme encode (sample_payload True mid) s now Tampered = Some (Inr (pl_signed tamper))"
    by (rule plan_form [OF assms])
  have subjects: "em_subject (sample_payload True mid) \<noteq> em_subject (sample_payload False mid)"
    by (simp add: sample_payload_def Let_def)
  show ?thesis
    using f stale_is_outside subjects
    by (cases scheme)
      (auto simp: plain_item_def replay_item_def stale_item_def Let_def has_timestamp_def signs_body_def VARIANTS_def
        extra_headers_def)
qed

section \<open>What the verdict means\<close>

definition answered_well :: "sig_outcome \<Rightarrow> bool" where
  "answered_well x \<longleftrightarrow>
     (case vo_status x of
        None \<Rightarrow> vo_expect x = NotApplicable
      | Some code \<Rightarrow>
          (case vo_expect x of
             Accept \<Rightarrow> is_accepted code
           | Reject \<Rightarrow> is_refused code
           | Info \<Rightarrow> is_accepted code \<or> is_refused code
           | NotApplicable \<Rightarrow> True))"

lemma judge_answer_fields:
  "vo_variant (judge_answer p a e) = pl_variant p" "vo_expect (judge_answer p a e) = pl_expect p"
  "vo_status (judge_answer p a e) = a"
  by (auto simp: judge_answer_def Let_def split: option.splits)

lemma judge_answer_verdict: "vo_verdict (judge_answer p a e) \<noteq> SigFinding \<longleftrightarrow> answered_well (judge_answer p a e)"
  by (cases "pl_expect p")
    (auto simp: answered_well_def judge_answer_fields judge_answer_def Let_def is_accepted_def is_refused_def
      split: option.splits)

lemma sig_outcomes_judged:
  "sig_outcomes send ps w = (Inr outs, w') \<Longrightarrow>
   list_all2 (\<lambda>p x. \<exists>a e. x = judge_answer p a e \<and> (pl_expect p = NotApplicable \<longrightarrow> a = None)) ps outs"
  by (induction send ps w arbitrary: outs w' rule: sig_outcomes.induct)
    (auto split: prod.splits sum.splits if_splits)

lemma sig_finish_code:
  assumes "\<forall>x \<in> set outs. \<exists>p a e. x = judge_answer p a e" "sig_finish outs scheme = (code, a)"
  shows "code \<in> {EXIT_OK, EXIT_FINDING}" "code = EXIT_OK \<longleftrightarrow> xa_verdict a = ''ENFORCED''"
    "code = EXIT_OK \<longleftrightarrow> (\<forall>x \<in> set outs. answered_well x)"
proof -
  have a: "a = build_sig_artifact outs (notes_for outs scheme) False"
    "code = (if xa_findings a \<noteq> 0 then EXIT_FINDING else EXIT_OK)"
    using assms(2) by (auto simp: sig_finish_def Let_def)
  have "xa_findings a = 0 \<longleftrightarrow> (\<forall>x \<in> set outs. vo_verdict x \<noteq> SigFinding)"
    by (simp add: a(1) build_sig_artifact_def Let_def filter_empty_conv)
  also have "\<dots> \<longleftrightarrow> (\<forall>x \<in> set outs. answered_well x)" using assms(1) judge_answer_verdict by metis
  finally have f: "xa_findings a = 0 \<longleftrightarrow> (\<forall>x \<in> set outs. answered_well x)" .
  show "code \<in> {EXIT_OK, EXIT_FINDING}" by (simp add: a(2))
  show "code = EXIT_OK \<longleftrightarrow> (\<forall>x \<in> set outs. answered_well x)" using f by (simp add: a(2) exit_codes)
  have "xa_verdict a = ''ENFORCED'' \<longleftrightarrow> xa_findings a = 0" by (simp add: a(1) build_sig_artifact_def Let_def)
  then show "code = EXIT_OK \<longleftrightarrow> xa_verdict a = ''ENFORCED''" by (simp add: a(2) exit_codes)
qed

text \<open>C19 (enforced means enforced). A run that was judged exits 0 or 3, and 0 exactly with the verdict
  ENFORCED, which it has exactly when the valid request was accepted, every request a correct
  endpoint refuses was refused with a 4xx, and every other request that was sent was answered
  with a 2xx or a 4xx; each request of the plan has one outcome.\<close>

theorem enforced_iff:
  assumes "sig_outcomes send ps w = (Inr outs, w')" "sig_finish outs scheme = (code, a)"
  shows "code \<in> {EXIT_OK, EXIT_FINDING} \<and> (code = EXIT_OK \<longleftrightarrow> xa_verdict a = ''ENFORCED'') \<and>
    map vo_variant outs = map pl_variant ps \<and> map vo_expect outs = map pl_expect ps \<and>
    (code = EXIT_OK \<longleftrightarrow> (\<forall>x \<in> set outs.
       case vo_status x of
         None \<Rightarrow> vo_expect x = NotApplicable
       | Some n \<Rightarrow>
           (case vo_expect x of
              Accept \<Rightarrow> 200 \<le> n \<and> n < 300
            | Reject \<Rightarrow> 400 \<le> n \<and> n < 500
            | Info \<Rightarrow> 200 \<le> n \<and> n < 300 \<or> 400 \<le> n \<and> n < 500
            | NotApplicable \<Rightarrow> True)))"
proof -
  note j = sig_outcomes_judged [OF assms(1)]
  have "\<forall>x \<in> set outs. \<exists>p a e. x = judge_answer p a e"
    using j by (fastforce simp: list_all2_conv_all_nth in_set_conv_nth)
  note c = sig_finish_code [OF this assms(2)]
  have "map vo_variant outs = map pl_variant ps" "map vo_expect outs = map pl_expect ps"
    using j by (induction rule: list_all2_induct) (auto simp: judge_answer_fields)
  then show ?thesis using c unfolding answered_well_def is_accepted_def is_refused_def by blast
qed

section \<open>A correct endpoint is not accused\<close>

text \<open>An endpoint that verifies what authenticates a request and refuses a token it has seen.\<close>

definition token_of :: "planned \<Rightarrow> string option" where
  "token_of p = map_of (sn_fields (pl_signed p)) ''token''"

definition checking_endpoint ::
  "crypto \<Rightarrow> scheme \<Rightarrow> secret \<Rightarrow> planned \<Rightarrow> string list \<Rightarrow>
     (request_error + int option \<times> string option) \<times> string list"
where
  "checking_endpoint C scheme s p seen =
     (let fresh = (case token_of p of None \<Rightarrow> True | Some t \<Rightarrow> t \<notin> set seen)
      in if verify_signed C scheme [] s (pl_signed p) = Inr True \<and> fresh
         then (Inr (Some 200, None), (case token_of p of None \<Rightarrow> seen | Some t \<Rightarrow> t # seen))
         else (Inr (Some 403, None), seen))"

definition open_endpoint :: "planned \<Rightarrow> 'w \<Rightarrow> (request_error + int option \<times> string option) \<times> 'w" where
  "open_endpoint p w = (Inr (Some 200, None), w)"

lemma sign_verifies:
  assumes "\<not> signs_body scheme" "sign C scheme [] s t nonce = Some (Inr g)"
  shows "verify_signed C scheme [] s g = Inr True"
  using assms by (cases scheme)
    (auto simp: sign_def verify_signed_def signs_body_def Let_def split: sum.splits)

lemma unsigned_refused: "\<not> signs_body scheme \<Longrightarrow> verify_signed C scheme [] s unsigned = Inr False"
  by (cases scheme) (simp_all add: verify_signed_def unsigned_def signs_body_def)

text \<open>A request the endpoint may not let through, when the tokens \<open>T\<close> were seen.\<close>

definition refusable :: "crypto \<Rightarrow> scheme \<Rightarrow> secret \<Rightarrow> string set \<Rightarrow> planned \<Rightarrow> bool" where
  "refusable C scheme s T p \<longleftrightarrow>
     pl_expect p = Reject \<and>
       (verify_signed C scheme [] s (pl_signed p) \<noteq> Inr True \<or> (\<exists>t \<in> T. token_of p = Some t))"

lemma is_code: "is_accepted 200" "is_refused 403" "\<not> is_refused 200" "\<not> is_accepted 403"
  by (simp_all add: is_accepted_def is_refused_def)

lemma outcomes_of_judged:
  assumes "sig_outcomes send ps w = (Inr outs, w')" shows "\<forall>x \<in> set outs. \<exists>p a e. x = judge_answer p a e"
  using sig_outcomes_judged [OF assms] by (fastforce simp: list_all2_conv_all_nth in_set_conv_nth)

lemma checking_turn:
  assumes "pl_expect p = Info \<or> refusable C scheme s T p" "T \<subseteq> set seen"
  obtains a seen' where "checking_endpoint C scheme s p seen = (Inr (a, None), seen')" "T \<subseteq> set seen'"
    "answered_well (judge_answer p a None)"
proof (cases "verify_signed C scheme [] s (pl_signed p) = Inr True \<and>
    (case token_of p of None \<Rightarrow> True | Some t \<Rightarrow> t \<notin> set seen)")
  case True
  then have "pl_expect p = Info" using assms by (auto simp: refusable_def)
  with True assms(2) show thesis
    by (intro that [of "Some 200" "case token_of p of None \<Rightarrow> seen | Some t \<Rightarrow> t # seen"])
      (auto simp: checking_endpoint_def answered_well_def judge_answer_fields is_code split: option.splits)
next
  case False
  then show thesis using assms
    by (intro that [of "Some 403" seen])
      (auto simp: checking_endpoint_def answered_well_def judge_answer_fields is_code refusable_def)
qed

lemma checking_tail:
  assumes "\<forall>p \<in> set ps. pl_expect p = NotApplicable \<or> pl_expect p = Info \<or> refusable C scheme s T p"
    "T \<subseteq> set seen"
  shows "\<exists>outs seen'. sig_outcomes (checking_endpoint C scheme s) ps seen = (Inr outs, seen') \<and>
    (\<forall>x \<in> set outs. answered_well x)"
  using assms
proof (induction ps arbitrary: seen)
  case (Cons p ps)
  show ?case
  proof (cases "pl_expect p = NotApplicable")
    case True
    have "answered_well (judge_answer p None None)" using True by (simp add: answered_well_def judge_answer_fields)
    then show ?thesis using Cons.IH [OF _ Cons.prems(2)] Cons.prems(1) True by fastforce
  next
    case False
    then have "pl_expect p = Info \<or> refusable C scheme s T p" using Cons.prems(1) by auto
    then obtain a seen' where t: "checking_endpoint C scheme s p seen = (Inr (a, None), seen')" "T \<subseteq> set seen'"
      "answered_well (judge_answer p a None)" using Cons.prems(2) by (rule checking_turn)
    obtain outs seen'' where "sig_outcomes (checking_endpoint C scheme s) ps seen' = (Inr outs, seen'')"
      "\<forall>x \<in> set outs. answered_well x" using Cons.IH [OF _ t(2)] Cons.prems(1) by auto
    then show ?thesis using t(1,3) False by simp
  qed
qed simp

lemma rest_of_the_plan:
  assumes "\<not> signs_body scheme" "plan_variants C scheme s now window encode mid = Some (Inr ps)"
    "verify_signed C scheme [] s (pl_signed (ps ! 1)) = Inr False"
  obtains p rest where "ps = p # rest" "pl_expect p = Accept" "verify_signed C scheme [] s (pl_signed p) = Inr True"
    "\<forall>q \<in> set rest. pl_expect q = NotApplicable \<or> pl_expect q = Info \<or>
       refusable C scheme s (set_option (token_of p)) q"
    "pl_expect (rest ! 1) = Reject" "1 < length rest"
proof -
  obtain valid other wrong stale tamper where f:
    "ps = [plain_item Valid Accept SignedNow (sample_payload False mid) valid,
       plain_item WrongSecret Reject DifferentSecret (sample_payload False mid) wrong,
       plain_item Unsigned Reject NoAuthentication (sample_payload False mid) unsigned, stale, tamper,
       replay_item scheme (sample_payload False mid) valid]"
    "signed_for C scheme encode (sample_payload False mid) s now Valid = Some (Inr valid)"
    "if has_timestamp scheme
     then \<exists>g. signed_for C scheme encode (sample_payload False mid) s (stale_time now window) Stale = Some (Inr g) \<and>
       stale = stale_item scheme now window (sample_payload False mid) g
     else pl_variant stale = Stale \<and> pl_expect stale = NotApplicable"
    "if signs_body scheme
     then pl_expect tamper = Reject \<and> pl_fixed tamper = Some (sn_headers valid)
     else pl_expect tamper = Info \<and> pl_fixed tamper = None \<and>
       signed_for C scheme encode (sample_payload True mid) s now Tampered = Some (Inr (pl_signed tamper))"
    by (rule plan_form [OF assms(2)])
  let ?p = "plain_item Valid Accept SignedNow (sample_payload False mid) valid"
  have g: "sign C scheme [] s now ''valid'' = Some (Inr valid)" using f(2) assms(1) by (simp add: signed_for_def)
  have v: "verify_signed C scheme [] s (pl_signed ?p) = Inr True"
    using sign_verifies [OF assms(1) g] by (simp add: plain_item_def)
  have st: "pl_expect stale = NotApplicable \<or> pl_expect stale = Info"
    using f(3) assms(1)
    by (cases scheme) (auto simp: has_timestamp_def signs_body_def stale_item_def Let_def)
  have ta: "pl_expect tamper = Info" using f(4) assms(1) by simp
  have w: "refusable C scheme s T (plain_item WrongSecret Reject DifferentSecret (sample_payload False mid) wrong)"
    for T using assms(3) f(1) by (simp add: refusable_def plain_item_def)
  have u: "refusable C scheme s T (plain_item Unsigned Reject NoAuthentication (sample_payload False mid) unsigned)"
    for T using unsigned_refused [OF assms(1)] by (simp add: refusable_def plain_item_def)
  have r: "pl_expect (replay_item scheme (sample_payload False mid) valid) = NotApplicable \<or>
    refusable C scheme s (set_option (token_of ?p)) (replay_item scheme (sample_payload False mid) valid)"
    using g assms(1)
    by (cases scheme) (auto simp: replay_item_def refusable_def token_of_def plain_item_def sign_def Let_def
      has_timestamp_def signs_body_def)
  show thesis
    by (rule that [OF f(1) _ v]) (use st ta w u r in \<open>auto simp: plain_item_def\<close>)
qed

lemma open_outcomes:
  "sig_outcomes open_endpoint ps w =
     (Inr (map (\<lambda>p. judge_answer p (if pl_expect p = NotApplicable then None else Some 200) None) ps), w)"
  by (induction ps) (simp_all add: open_endpoint_def)

text \<open>C20 (a correct endpoint is not accused, an open one is). For the two schemes that do not sign
  the body, an endpoint that accepts a request exactly when what it carries verifies and its token
  was not seen before passes the whole plan, whatever the digests are, unless the other secret
  happens to sign alike; one that accepts everything is reported.\<close>

theorem correct_endpoint_is_enforced:
  assumes "\<not> signs_body scheme" "plan_variants C scheme s now window encode mid = Some (Inr ps)"
    "verify_signed C scheme [] s (pl_signed (ps ! 1)) = Inr False"
  shows "\<exists>outs seen open_outs.
    sig_outcomes (checking_endpoint C scheme s) ps [] = (Inr outs, seen) \<and>
    fst (sig_finish outs scheme) = EXIT_OK \<and>
    sig_outcomes open_endpoint ps () = (Inr open_outs, ()) \<and>
    fst (sig_finish open_outs scheme) = EXIT_FINDING"
proof -
  obtain p rest where r: "ps = p # rest" "pl_expect p = Accept"
    "verify_signed C scheme [] s (pl_signed p) = Inr True"
    "\<forall>q \<in> set rest. pl_expect q = NotApplicable \<or> pl_expect q = Info \<or>
       refusable C scheme s (set_option (token_of p)) q"
    "pl_expect (rest ! 1) = Reject" "1 < length rest"
    by (rule rest_of_the_plan [OF assms])
  obtain a seen where turn: "checking_endpoint C scheme s p [] = (Inr (a, None), seen)"
    "set_option (token_of p) \<subseteq> set seen" "a = Some 200"
    using r(3) by (cases "token_of p") (simp_all add: checking_endpoint_def)
  obtain outs seen' where tail: "sig_outcomes (checking_endpoint C scheme s) rest seen = (Inr outs, seen')"
    "\<forall>x \<in> set outs. answered_well x" using checking_tail [OF r(4) turn(2)] by blast
  have run: "sig_outcomes (checking_endpoint C scheme s) ps [] =
      (Inr (judge_answer p a None # outs), seen')" using turn(1) tail(1) r(1,2) by simp
  have "answered_well (judge_answer p a None)"
    using r(2) turn(3) by (simp add: answered_well_def judge_answer_fields is_code)
  then have ok: "fst (sig_finish (judge_answer p a None # outs) scheme) = EXIT_OK"
    using tail(2) sig_finish_code(3) [OF outcomes_of_judged [OF run] prod.collapse [symmetric]] by simp
  obtain opens where o: "sig_outcomes open_endpoint ps () = (Inr opens, ())"
    "opens = map (\<lambda>p. judge_answer p (if pl_expect p = NotApplicable then None else Some 200) None) ps"
    by (rule that [OF open_outcomes refl])
  have "rest ! 1 \<in> set ps" using r(1,6) by (simp add: nth_mem)
  then have "judge_answer (rest ! 1) (if pl_expect (rest ! 1) = NotApplicable then None else Some 200) None \<in> set opens"
    unfolding o(2) set_map by (rule imageI)
  then have m: "judge_answer (rest ! 1) (Some 200) None \<in> set opens"
    unfolding r(5) by (simp only: expectation.distinct if_False)
  have "\<not> answered_well (judge_answer (rest ! 1) (Some 200) None)"
    using r(5) by (simp add: answered_well_def judge_answer_fields is_code)
  then have "fst (sig_finish opens scheme) = EXIT_FINDING"
    using m sig_finish_code(1,3) [OF outcomes_of_judged [OF o(1)] prod.collapse [symmetric]] by blast
  with run ok o(1) show ?thesis by blast
qed

section \<open>The theorems at concrete inputs\<close>

text \<open>Digests a reader can follow: the keyed hash is the first byte of the key.\<close>

definition sample_crypto :: crypto where
  "sample_crypto = \<lparr>cr_sha256 = id, cr_hmac = (\<lambda>k m. take 1 k)\<rparr>"

definition sample_mailgun :: "planned list" where
  "sample_mailgun = (case plan_variants sample_crypto MailgunScheme (TextSecret ''k'') 1000 300 (\<lambda>_ _. []) ''<m>'' of
     Some (Inr ps) \<Rightarrow> ps | _ \<Rightarrow> [])"

lemma sample_planned:
  "plan_variants sample_crypto MailgunScheme (TextSecret ''k'') 1000 300 (\<lambda>_ _. []) ''<m>'' = Some (Inr sample_mailgun)"
  by (simp add: sample_mailgun_def plan_variants_def and_then_def signed_for_def sign_def wrong_secret_def
    has_timestamp_def signs_body_def Let_def)

lemma plan_is_complete_witness:
  "map pl_expect sample_mailgun = [Accept, Reject, Reject, Info, Info, Reject] \<and>
   stale_time 1000 300 = 640 \<and> pl_signed (sample_mailgun ! 5) = pl_signed (sample_mailgun ! 0)"
proof -
  have "stale_time 1000 300 = 640" by (simp add: stale_time_def truncate_rat_def)
  then show ?thesis using plan_is_complete [OF sample_planned] by (simp add: has_timestamp_def)
qed

lemma enforced_iff_witness:
  "fst (sig_finish [judge_answer (sample_mailgun ! 2) (Some 200) None] MailgunScheme) = EXIT_FINDING"
proof -
  have x: "pl_expect (sample_mailgun ! 2) = Reject"
    by (simp add: sample_mailgun_def plan_variants_def and_then_def signed_for_def sign_def wrong_secret_def
      has_timestamp_def signs_body_def Let_def)
  then have s: "sig_outcomes open_endpoint [sample_mailgun ! 2] () =
      (Inr [judge_answer (sample_mailgun ! 2) (Some 200) None], ())"
    unfolding open_outcomes by simp
  show ?thesis
    using enforced_iff [OF s prod.collapse [symmetric], of MailgunScheme] x by (auto simp: judge_answer_fields)
qed

lemma correct_endpoint_is_enforced_witness:
  "\<exists>outs seen. sig_outcomes (checking_endpoint sample_crypto MailgunScheme (TextSecret ''k'')) sample_mailgun [] =
     (Inr outs, seen) \<and> fst (sig_finish outs MailgunScheme) = EXIT_OK"
proof -
  have "verify_signed sample_crypto MailgunScheme [] (TextSecret ''k'') (pl_signed (sample_mailgun ! 1)) = Inr False"
    by (simp add: sample_mailgun_def plan_variants_def and_then_def signed_for_def sign_def wrong_secret_def
      has_timestamp_def signs_body_def Let_def verify_signed_def mailgun_signature_def hexdigest_def
      secret_text_def sample_crypto_def hex_digit_def)
  from correct_endpoint_is_enforced [OF _ sample_planned this] show ?thesis
    by (auto simp: signs_body_def)
qed

end
