(* ===== verification/Adapter_Fields.thy ===== *)
theory Adapter_Fields
  imports Readback Json Py_Repr
begin

text \<open>Reading a record out of a JSON object (\<open>pipeline/adapters.py\<close>): dotted paths with list
  indices and one wildcard, JSON pointers, what a value becomes as a field of a readback, and
  \<open>readback_from_json\<close>. How a float is printed is the argument \<open>fl\<close>.\<close>

section \<open>Paths\<close>

definition DEFAULT_FIELD_MAP :: "(string \<times> string) list" where
  "DEFAULT_FIELD_MAP = [(''ticket_id'', ''id''), (''from_addr'', ''from''), (''subject'', ''subject''),
     (''body'', ''body''), (''attachment_names'', ''attachments''), (''route'', ''route''),
     (''message_id'', ''message_id''), (''in_reply_to'', ''in_reply_to''), (''references'', ''references''),
     (''tag'', ''tag''), (''category'', ''category''), (''priority'', ''priority'')]"

definition LIST_FIELDS :: "string list" where "LIST_FIELDS = [''attachment_names'', ''references'']"
definition ADDRESS_KEYS :: "string list" where "ADDRESS_KEYS = [''email'', ''address'', ''addr'']"

text \<open>A value, nothing there, or the \<open>ValueError\<close> of \<open>int\<close> on a segment such as \<open>--1\<close>.\<close>

datatype dug = Dug json | Absent | BadIndex string

definition index_of :: "string \<Rightarrow> int option" where
  "index_of part =
     (case part of
        CHR ''-'' # ds \<Rightarrow> if isdigit ds then Some (- int (nat_of_str ds)) else None
      | _ \<Rightarrow> if isdigit part then Some (int (nat_of_str part)) else None)"

fun path_step :: "json \<Rightarrow> string \<Rightarrow> dug" where
  "path_step (JObj kvs) part = (case map_of kvs part of None \<Rightarrow> Absent | Some v \<Rightarrow> Dug v)"
| "path_step (JList xs) part =
     (if \<not> isdigit (dropWhile (\<lambda>c. c = CHR ''-'') part) then Absent
      else (case index_of part of
          None \<Rightarrow> BadIndex part
        | Some i \<Rightarrow>
            if \<not> (- int (length xs) \<le> i \<and> i < int (length xs)) then Absent
            else Dug (xs ! nat (if i < 0 then i + int (length xs) else i))))"
| "path_step _ part = Absent"

lemma two_dashes_are_no_index: "path_step (JList [JNull]) ''--1'' = BadIndex ''--1''"
  by code_simp

fun elements_of :: "json \<Rightarrow> json list option" where
  "elements_of (JObj kvs) = Some (map snd kvs)"
| "elements_of (JList xs) = Some xs"
| "elements_of _ = None"

text \<open>What the wildcard keeps of its elements.\<close>

fun keep_found :: "dug list \<Rightarrow> string + json list" where
  "keep_found [] = Inr []"
| "keep_found (BadIndex p # ds) = Inl p"
| "keep_found (Absent # ds) = keep_found ds"
| "keep_found (Dug v # ds) = (case keep_found ds of Inl p \<Rightarrow> Inl p | Inr vs \<Rightarrow> Inr (v # vs))"

fun dig_parts :: "string list \<Rightarrow> json \<Rightarrow> dug" where
  "dig_parts [] current = Dug current"
| "dig_parts (part # rest) current =
     (if part = ''*'' then
        (case elements_of current of
           None \<Rightarrow> Absent
         | Some elements \<Rightarrow>
             if rest = [] \<or> rest = [[]] then Dug (JList elements)
             else (case keep_found (map (dig_parts rest) elements) of
                 Inl p \<Rightarrow> BadIndex p
               | Inr kept \<Rightarrow> if elements \<noteq> [] \<and> kept = [] then Absent else Dug (JList kept)))
      else (case path_step current part of Dug v \<Rightarrow> dig_parts rest v | d \<Rightarrow> d))"

definition dig :: "json \<Rightarrow> string \<Rightarrow> dug" where
  "dig data path = dig_parts (split_on CHR ''.'' path) data"

text \<open>\<open>raw.replace("~1", "/").replace("~0", "~")\<close>.\<close>

fun replace_pair :: "char \<Rightarrow> char \<Rightarrow> char \<Rightarrow> string \<Rightarrow> string" where
  "replace_pair a b c (x # y # s) =
     (if x = a \<and> y = b then c # replace_pair a b c s else x # replace_pair a b c (y # s))"
| "replace_pair a b c s = s"

fun pointer_parts :: "string list \<Rightarrow> json \<Rightarrow> dug" where
  "pointer_parts [] current = Dug current"
| "pointer_parts (raw # rest) current =
     (case path_step current
          (replace_pair CHR ''~'' CHR ''0'' CHR ''~'' (replace_pair CHR ''~'' CHR ''1'' CHR ''/'' raw)) of
        Dug v \<Rightarrow> pointer_parts rest v | d \<Rightarrow> d)"

definition json_pointer :: "json \<Rightarrow> string \<Rightarrow> dug" where
  "json_pointer data pointer =
     (case pointer of
        CHR ''/'' # p \<Rightarrow> pointer_parts (split_on CHR ''/'' p) data
      | _ \<Rightarrow> dig data pointer)"

section \<open>Values\<close>

fun json_type :: "json \<Rightarrow> string" where
  "json_type JNull = ''NoneType''" | "json_type (JBool b) = ''bool''" | "json_type (JInt i) = ''int''"
| "json_type (JNum x) = ''float''" | "json_type (JStr s) = ''str''" | "json_type (JList xs) = ''list''"
| "json_type (JObj kvs) = ''dict''"

definition sorted_keys :: "(string \<times> json) list \<Rightarrow> string list" where
  "sorted_keys kvs = sort (map fst kvs)"

fun shape_of :: "(rat \<Rightarrow> string) \<Rightarrow> json \<Rightarrow> string" where
  "shape_of fl (JObj kvs) = ''an object with keys '' @ repr_list (take 6 (sorted_keys kvs))"
| "shape_of fl (JList []) = ''an empty list''"
| "shape_of fl (JList (JObj kvs # xs)) = ''a list of objects with keys '' @ repr_list (take 6 (sorted_keys kvs))"
| "shape_of fl (JList (x # xs)) = ''a list of '' @ json_type x"
| "shape_of fl (JBool b) = ''a boolean''"
| "shape_of fl (JInt i) = ''a number ('' @ str_of_int i @ '')''"
| "shape_of fl (JNum x) = ''a number ('' @ fl x @ '')''"
| "shape_of fl j = json_type j"

definition address_from_object :: "(string \<times> json) list \<Rightarrow> string option" where
  "address_from_object kvs =
     (let lowered = map_of (rev (map (\<lambda>(k, v). (casefold k, v)) kvs));
          candidate = (\<lambda>k. case lowered k of Some (JStr s) \<Rightarrow> if strip s \<noteq> [] then Some s else None | _ \<Rightarrow> None)
      in case find (\<lambda>k. candidate k \<noteq> None) ADDRESS_KEYS of None \<Rightarrow> None | Some k \<Rightarrow> candidate k)"

text \<open>What \<open>_coerce\<close> returns: a readable value, or the note of an unreadable one.\<close>

datatype coerced = CNull | CText string | CNames "string list" | Unreadable string

fun json_strings :: "json list \<Rightarrow> string list option" where
  "json_strings [] = Some []"
| "json_strings (JStr s # xs) = map_option (Cons s) (json_strings xs)"
| "json_strings (x # xs) = None"

definition name_key :: "string list \<Rightarrow> string" where
  "name_key ks =
     (case find (\<lambda>k. casefold k \<in> {''name'', ''filename'', ''file_name''}) ks of
        Some k \<Rightarrow> k | None \<Rightarrow> if ks = [] then ''name'' else hd ks)"

definition list_hint :: "string \<Rightarrow> string \<Rightarrow> json \<Rightarrow> string" where
  "list_hint name path v =
     (case v of
        JList (JObj kvs # xs) \<Rightarrow>
          ''; map '' @ name @ '' = '' @ [CHR 0x22] @ path @ ''.*.'' @ name_key (sorted_keys kvs) @ [CHR 0x22] @
            '' to read one key from each''
      | JInt i \<Rightarrow> ''; a count is not a list of names''
      | JNum x \<Rightarrow> ''; a count is not a list of names''
      | _ \<Rightarrow> [])"

definition coerce_list :: "(rat \<Rightarrow> string) \<Rightarrow> string \<Rightarrow> string \<Rightarrow> json \<Rightarrow> coerced" where
  "coerce_list fl name path v =
     (let refused = Unreadable (path @ '' is '' @ shape_of fl v @ '', not a list of strings'' @ list_hint name path v)
      in case v of
           JStr s \<Rightarrow> CText s
         | JList xs \<Rightarrow> (case json_strings xs of Some ss \<Rightarrow> CNames ss | None \<Rightarrow> refused)
         | _ \<Rightarrow> refused)"

definition coerce_value :: "(rat \<Rightarrow> string) \<Rightarrow> string \<Rightarrow> string \<Rightarrow> json \<Rightarrow> coerced" where
  "coerce_value fl name path v =
     (if v = JNull then CNull
      else if name \<in> set LIST_FIELDS then coerce_list fl name path v
      else (case v of
          JStr s \<Rightarrow> CText s
        | JInt i \<Rightarrow> CText (str_of_int i)
        | JNum x \<Rightarrow> CText (fl x)
        | JBool b \<Rightarrow> CText (if b then ''True'' else ''False'')
        | JObj kvs \<Rightarrow>
            if name = ''from_addr'' then (case address_from_object kvs of
                Some a \<Rightarrow> CText a
              | None \<Rightarrow> Unreadable (path @ '' is '' @ shape_of fl v @
                  '' with no email or address key; map from_addr to the key that holds the address''))
            else Unreadable (path @ '' is '' @ shape_of fl v @ '', not a single value'')
        | JList [JStr s] \<Rightarrow> CText s
        | _ \<Rightarrow> Unreadable (path @ '' is '' @ shape_of fl v @ '', not a single value'')))"

section \<open>A record\<close>

datatype adapter_error =
    NotAnObject string
  | NoIdentifier string "string list"
  | BadPathIndex string
  | RecordRefused readback_error
  | NotJson string
  | NotUtf8
  | NotJsonDocument string
  | ItemsNotAList string string
  | ListElsewhere string "string list"
  | BadStatus string int
  | GaveUp nat string
  | RetryTooLate seconds string
  | OutOfBudget string
  | OtherHost string
  | BadReadbackUrl string
  | UrlRefused string
  | CannotList bool
  | RefusedCredentials int
  | ListUrl404 string
  | NoUrl
  | NoPath
  | UnknownKind string
  | SinkIsDirectory
  | NoSinkDirectory
  | SinkUnreadable
  | BadSinkLine nat
  | SinkLineNotObject nat string
  | SpecRefused string

record gathered =
  ga_id :: "json option"
  ga_values :: "(string \<times> coerced) list"
  ga_notes :: "(string \<times> string) list"

text \<open>The loop over the field map. The identifier is kept as it was found.\<close>

fun gather :: "(rat \<Rightarrow> string) \<Rightarrow> json \<Rightarrow> (string \<times> string) list \<Rightarrow> adapter_error + gathered" where
  "gather fl data [] = Inr \<lparr>ga_id = None, ga_values = [], ga_notes = []\<rparr>"
| "gather fl data ((name, path) # fm) =
     (case dig data path of
        BadIndex p \<Rightarrow> Inl (BadPathIndex p)
      | Absent \<Rightarrow> gather fl data fm
      | Dug found \<Rightarrow>
          (case gather fl data fm of
             Inl e \<Rightarrow> Inl e
           | Inr g \<Rightarrow>
               if name = ''ticket_id'' then Inr (g\<lparr>ga_id := Some found\<rparr>)
               else (case coerce_value fl name path found of
                   Unreadable note \<Rightarrow> Inr (g\<lparr>ga_notes := (name, note) # ga_notes g\<rparr>)
                 | c \<Rightarrow> Inr (g\<lparr>ga_values := (name, c) # ga_values g\<rparr>))))"

text \<open>The identifier as \<open>str\<close> prints it; \<open>None\<close> where it cannot serve as one.\<close>

fun identifier_of :: "(rat \<Rightarrow> string) \<Rightarrow> json option \<Rightarrow> string option" where
  "identifier_of fl (Some (JStr s)) = (if s = [] then None else Some s)"
| "identifier_of fl (Some (JInt i)) = Some (str_of_int i)"
| "identifier_of fl (Some (JNum x)) = Some (fl x)"
| "identifier_of fl _ = None"

definition text_value :: "(string \<times> coerced) list \<Rightarrow> string \<Rightarrow> string option" where
  "text_value vs name = (case map_of vs name of Some (CText s) \<Rightarrow> Some s | _ \<Rightarrow> None)"

fun list_value :: "coerced option \<Rightarrow> pyval" where
  "list_value (Some (CText s)) = PStr s"
| "list_value (Some (CNames ss)) = PSeq (map PStr ss)"
| "list_value _ = PNone"

text \<open>\<open>references\<close> as one string is split into words first.\<close>

fun references_value :: "coerced option \<Rightarrow> pyval" where
  "references_value (Some (CText s)) = PSeq (map PStr (split_ws s))"
| "references_value c = list_value c"

definition make_readback ::
  "string \<Rightarrow> string option \<Rightarrow> (string \<times> coerced) list \<Rightarrow> string list \<Rightarrow> (string \<times> string) list \<Rightarrow>
     adapter_error + readback"
where
  "make_readback ticket_id tag vs present notes =
     (case normalize_attachment_names (list_value (map_of vs ''attachment_names'')) of
        Inl e \<Rightarrow> Inl (RecordRefused e)
      | Inr names \<Rightarrow>
          (case normalize_message_ids (references_value (map_of vs ''references'')) of
             Inl e \<Rightarrow> Inl (RecordRefused e)
           | Inr refs \<Rightarrow>
               (case check_readback \<lparr>rb_exists = True, rb_ticket_id = Some ticket_id,
                    rb_from_addr = text_value vs ''from_addr'', rb_subject = text_value vs ''subject'',
                    rb_body = text_value vs ''body'', rb_attachment_names = names,
                    rb_route = text_value vs ''route'', rb_message_id = text_value vs ''message_id'',
                    rb_in_reply_to = text_value vs ''in_reply_to'', rb_references = refs, rb_tag = tag,
                    rb_category = text_value vs ''category'', rb_priority = text_value vs ''priority'',
                    rb_fields = present, rb_field_notes = notes\<rparr> of
                  Inl e \<Rightarrow> Inl (RecordRefused e) | Inr r \<Rightarrow> Inr r)))"

definition readback_from_json ::
  "(rat \<Rightarrow> string) \<Rightarrow> (string \<times> string) list \<Rightarrow> json \<Rightarrow> adapter_error + readback"
where
  "readback_from_json fl field_map data =
     (case data of
        JObj kvs \<Rightarrow>
          (case gather fl data field_map of
             Inl e \<Rightarrow> Inl e
           | Inr g \<Rightarrow>
               (case identifier_of fl (ga_id g) of
                  None \<Rightarrow> Inl (NoIdentifier
                    (case map_of field_map ''ticket_id'' of Some p \<Rightarrow> p | None \<Rightarrow> ''id'')
                    (take 8 (sorted_keys kvs)))
                | Some t \<Rightarrow> make_readback t (text_value (ga_values g) ''tag'') (ga_values g)
                    (''ticket_id'' # map fst (ga_values g)) (ga_notes g)))
      | _ \<Rightarrow> Inl (NotAnObject (json_type data)))"

section \<open>A readback says what the response carried\<close>

fun readable :: "coerced \<Rightarrow> bool" where
  "readable (Unreadable note) = False" | "readable _ = True"

text \<open>What one field of the map contributes.\<close>

definition seen_as :: "(rat \<Rightarrow> string) \<Rightarrow> json \<Rightarrow> string \<Rightarrow> string \<Rightarrow> coerced option" where
  "seen_as fl data name path =
     (if name = ''ticket_id'' then None
      else (case dig data path of
          Dug v \<Rightarrow> (let c = coerce_value fl name path v in if readable c then Some c else None)
        | _ \<Rightarrow> None))"

lemma gather_Cons:
  assumes "gather fl data ((name, path) # fm) = Inr g"
  obtains h where "gather fl data fm = Inr h"
    "ga_values g = (case seen_as fl data name path of None \<Rightarrow> ga_values h | Some c \<Rightarrow> (name, c) # ga_values h)"
proof (cases "dig data path")
  case (Dug v)
  then obtain h where h: "gather fl data fm = Inr h" using assms by (auto split: sum.splits)
  then show thesis
    using assms Dug by (intro that [OF h])
      (cases "coerce_value fl name path v"; auto simp: seen_as_def Let_def split: if_splits)+
qed (use assms that in \<open>auto simp: seen_as_def\<close>)

lemma gather_values:
  assumes "gather fl data fm = Inr g" "distinct (map fst fm)"
  shows "map_of (ga_values g) n = (case map_of fm n of None \<Rightarrow> None | Some p \<Rightarrow> seen_as fl data n p)"
  using assms
proof (induction fm arbitrary: g)
  case (Cons np fm)
  obtain name path where np: "np = (name, path)" by (cases np)
  obtain h where h: "gather fl data fm = Inr h"
    "ga_values g = (case seen_as fl data name path of None \<Rightarrow> ga_values h | Some c \<Rightarrow> (name, c) # ga_values h)"
    using Cons.prems(1) unfolding np by (rule gather_Cons)
  have "map_of fm name = None" using Cons.prems(2) np by (auto simp: map_of_eq_None_iff)
  then show ?case using h(2) Cons.IH [OF h(1)] Cons.prems(2) np by (auto split: option.splits)
qed simp

lemma gather_fields:
  assumes "gather fl data fm = Inr g" "distinct (map fst fm)"
  shows "n \<in> set (map fst (ga_values g)) \<longleftrightarrow> (\<exists>p c. map_of fm n = Some p \<and> seen_as fl data n p = Some c)"
proof -
  have "n \<in> set (map fst (ga_values g)) \<longleftrightarrow> map_of (ga_values g) n \<noteq> None" by (simp add: map_of_eq_None_iff)
  then show ?thesis by (auto simp: gather_values [OF assms] split: option.splits)
qed

lemma make_readback_parts:
  assumes "make_readback t tag vs present notes = Inr r"
  shows "rb_exists r" "rb_ticket_id r = Some t" "t \<noteq> []" "rb_fields r = present" "rb_field_notes r = notes"
    "rb_tag r = tag" "rb_subject r = text_value vs ''subject''" "rb_body r = text_value vs ''body''"
    "rb_from_addr r = text_value vs ''from_addr''" "rb_route r = text_value vs ''route''"
    "rb_message_id r = text_value vs ''message_id''" "rb_in_reply_to r = text_value vs ''in_reply_to''"
    "rb_category r = text_value vs ''category''" "rb_priority r = text_value vs ''priority''"
  using assms by (auto simp: make_readback_def check_readback_def Let_def split: sum.splits if_splits)

definition SCALAR_FIELDS :: "string list" where
  "SCALAR_FIELDS = [''from_addr'', ''subject'', ''body'', ''route'', ''message_id'', ''in_reply_to'', ''tag'',
     ''category'', ''priority'']"



end
