(* ===== verification/Adapter_Config.thy ===== *)
theory Adapter_Config
  imports Adapter_Fields Payload "HOL-Library.Sublist"
begin

text \<open>The \<open>[readback]\<close> table (\<open>pipeline/adapters.py\<close>): parsing it with all its refusals, header
  values taken from the environment, the field map over the default one, and the table a
  custom adapter is handed. A table is given as a JSON value; \<open>R\<close> is what \<open>str\<close> makes of a value
  that is no string.\<close>

section \<open>The record\<close>

definition DEFAULT_HTTP_TAG_PARAM :: string where "DEFAULT_HTTP_TAG_PARAM = ''tag''"
definition DEFAULT_HTTP_TIMEOUT :: rat where "DEFAULT_HTTP_TIMEOUT = 10"
definition DEFAULT_ITEMS_KEY :: string where "DEFAULT_ITEMS_KEY = ''items''"
definition DEFAULT_METHOD :: string where "DEFAULT_METHOD = ''GET''"
definition HTTP_METHODS :: "string list" where "HTTP_METHODS = [''GET'', ''POST'']"
definition DEFAULT_RETRY_MAX :: int where "DEFAULT_RETRY_MAX = 5"
definition DEFAULT_RETRY_BASE_SECONDS :: rat where "DEFAULT_RETRY_BASE_SECONDS = 1 / 2"
definition DEFAULT_READBACK_RATE :: rat where "DEFAULT_READBACK_RATE = 4"
definition DEFAULT_MAX_PAGES :: int where "DEFAULT_MAX_PAGES = 10"
definition TAG_PLACEHOLDER :: string where "TAG_PLACEHOLDER = ''{tag}''"
definition ENV_PREFIX :: string where "ENV_PREFIX = ''env:''"

text \<open>A field of \<open>fields\<close> is a path, or \<open>None\<close> for \<open>false\<close>. What the table may hold of any type is
  kept as it is.\<close>

record readback_config =
  rc_kind :: string
  rc_url :: json
  rc_path :: json
  rc_tag_param :: string
  rc_items_key :: string
  rc_timeout :: rat
  rc_field_overrides :: "(string \<times> string option) list"
  rc_spec :: json
  rc_allow_public :: bool
  rc_list_path :: json
  rc_enumerate :: bool
  rc_headers :: "(string \<times> string) list"
  rc_query :: "string option"
  rc_method :: string
  rc_body :: "string option"
  rc_page_param :: "string option"
  rc_page_size_param :: "string option"
  rc_next_path :: "string option"
  rc_max_pages :: int
  rc_retry_max :: int
  rc_retry_base :: rat
  rc_rate :: rat
  rc_config_dir :: "string option"
  rc_table :: "(string \<times> json) list"

definition default_config :: "string \<Rightarrow> readback_config" where
  "default_config kind = \<lparr>rc_kind = kind, rc_url = JNull, rc_path = JNull, rc_tag_param = DEFAULT_HTTP_TAG_PARAM,
     rc_items_key = DEFAULT_ITEMS_KEY, rc_timeout = DEFAULT_HTTP_TIMEOUT, rc_field_overrides = [],
     rc_spec = JNull, rc_allow_public = False, rc_list_path = JNull, rc_enumerate = True, rc_headers = [],
     rc_query = None, rc_method = DEFAULT_METHOD, rc_body = None, rc_page_param = None,
     rc_page_size_param = None, rc_next_path = None, rc_max_pages = DEFAULT_MAX_PAGES,
     rc_retry_max = DEFAULT_RETRY_MAX, rc_retry_base = DEFAULT_RETRY_BASE_SECONDS,
     rc_rate = DEFAULT_READBACK_RATE, rc_config_dir = None, rc_table = []\<rparr>"

definition field_map_of :: "readback_config \<Rightarrow> (string \<times> string) list" where
  "field_map_of c =
     (let merged = map (\<lambda>(n, p). (n, case map_of (rc_field_overrides c) n of Some q \<Rightarrow> q | None \<Rightarrow> Some p))
            DEFAULT_FIELD_MAP @
          filter (\<lambda>(n, q). n \<notin> set (map fst DEFAULT_FIELD_MAP)) (rc_field_overrides c)
      in List.map_filter (\<lambda>(n, q). map_option (Pair n) q) merged)"

definition unmapped_fields :: "readback_config \<Rightarrow> string list" where
  "unmapped_fields c = sort (map fst (filter (\<lambda>(n, q). q = None) (rc_field_overrides c)))"

definition header_names :: "readback_config \<Rightarrow> string list" where
  "header_names c = sort (map fst (rc_headers c))"

definition opt_json :: "string option \<Rightarrow> json" where
  "opt_json s = (case s of None \<Rightarrow> JNull | Some t \<Rightarrow> JStr t)"

definition config_json :: "readback_config \<Rightarrow> (string \<times> json) list" where
  "config_json c =
     [(''kind'', JStr (rc_kind c)), (''url'', rc_url c), (''path'', rc_path c),
      (''tag_param'', JStr (rc_tag_param c)), (''items_key'', JStr (rc_items_key c)),
      (''timeout'', JNum (rc_timeout c)),
      (''field_map'', JObj (map (\<lambda>(n, p). (n, JStr p)) (field_map_of c))),
      (''unmapped_fields'', JList (map JStr (unmapped_fields c))), (''spec'', rc_spec c),
      (''list_path'', rc_list_path c), (''enumerate'', JBool (rc_enumerate c)),
      (''headers'', JList (map JStr (header_names c))), (''query'', opt_json (rc_query c)),
      (''method'', JStr (rc_method c)), (''body'', opt_json (rc_body c)),
      (''page_param'', opt_json (rc_page_param c)), (''page_size_param'', opt_json (rc_page_size_param c)),
      (''next_path'', opt_json (rc_next_path c)), (''max_pages'', JInt (rc_max_pages c)),
      (''retry_max'', JInt (rc_retry_max c)), (''retry_base_seconds'', JNum (rc_retry_base c)),
      (''rate'', JNum (rc_rate c))]"

text \<open>\<open>dict.update\<close>.\<close>

definition updated :: "(string \<times> json) list \<Rightarrow> (string \<times> json) list \<Rightarrow> (string \<times> json) list" where
  "updated table new =
     map (\<lambda>(k, v). (k, case map_of new k of Some w \<Rightarrow> w | None \<Rightarrow> v)) table @
       filter (\<lambda>(k, v). k \<notin> set (map fst table)) new"

definition adapter_table :: "readback_config \<Rightarrow> (string \<times> json) list" where
  "adapter_table c = updated (rc_table c) (config_json c)"

section \<open>Parsing\<close>

datatype config_error =
    NotATable string string
  | HeaderNotString string string
  | LiteralHeader string
  | HeaderNoName string
  | HeaderNotSet string string
  | EmptySegment string string
  | TwoWildcards string string
  | WildcardIdentifier string
  | UnknownField string
  | IdentifierUnmapped
  | PathNotString string string
  | NotAString string
  | NotANumber string string
  | TooSmall string rat
  | NotAnInteger string string
  | NotConfigured
  | NoKind
  | EnumerateNotBool string
  | BadMethod
  | QueryWithoutTag string
  | BodyWithoutPost
  | BodyWithoutTag
  | PageSizeWithoutPage
  | TwoPaginations
  | PublicNotBool

fun resolve_headers :: "string dict \<Rightarrow> (string \<times> json) list \<Rightarrow> config_error + (string \<times> string) list" where
  "resolve_headers environ [] = Inr []"
| "resolve_headers environ ((name, v) # rest) =
     (case v of
        JStr s \<Rightarrow>
          if \<not> prefix ENV_PREFIX s then Inl (LiteralHeader name)
          else (let variable = strip (drop (length ENV_PREFIX) s)
            in if variable = [] then Inl (HeaderNoName name)
               else (case map_of environ variable of
                   None \<Rightarrow> Inl (HeaderNotSet name variable)
                 | Some x \<Rightarrow> (case resolve_headers environ rest of Inl e \<Rightarrow> Inl e | Inr hs \<Rightarrow> Inr ((name, x) # hs))))
      | _ \<Rightarrow> Inl (HeaderNotString name (json_type v)))"

definition resolve_header_values :: "string dict \<Rightarrow> json \<Rightarrow> config_error + (string \<times> string) list" where
  "resolve_header_values environ raw =
     (case raw of JNull \<Rightarrow> Inr [] | JObj kvs \<Rightarrow> resolve_headers environ kvs
      | _ \<Rightarrow> Inl (NotATable ''headers'' (json_type raw)))"

definition check_field_path :: "string \<Rightarrow> string \<Rightarrow> config_error option" where
  "check_field_path name path =
     (let segments = split_on CHR ''.'' path; wildcards = length (filter (\<lambda>s. s = ''*'') segments)
      in if path = [] \<or> [] \<in> set segments then Some (EmptySegment name path)
         else if 1 < wildcards then Some (TwoWildcards name path)
         else if wildcards \<noteq> 0 \<and> name = ''ticket_id'' then Some (WildcardIdentifier path)
         else None)"

fun str_table :: "(string \<times> json) list \<Rightarrow> config_error + (string \<times> string option) list" where
  "str_table [] = Inr []"
| "str_table ((k, item) # rest) =
     (let more' = (\<lambda>x. case str_table rest of Inl e \<Rightarrow> Inl e | Inr t \<Rightarrow> Inr ((k, x) # t))
      in if k \<notin> set CHECKABLE_FIELDS \<and> k \<notin> set (map fst DEFAULT_FIELD_MAP) then Inl (UnknownField k)
         else (case item of
             JBool False \<Rightarrow> if k = ''ticket_id'' then Inl IdentifierUnmapped else more' None
           | JStr path \<Rightarrow> (case check_field_path k path of Some e \<Rightarrow> Inl e | None \<Rightarrow> more' (Some path))
           | _ \<Rightarrow> Inl (PathNotString k (json_type item))))"

definition as_str_table :: "json \<Rightarrow> config_error + (string \<times> string option) list" where
  "as_str_table v =
     (case v of JNull \<Rightarrow> Inr [] | JObj kvs \<Rightarrow> str_table kvs | _ \<Rightarrow> Inl (NotATable ''fields'' (json_type v)))"

definition entry_or :: "json \<Rightarrow> (string \<times> json) list \<Rightarrow> string \<Rightarrow> json" where
  "entry_or d raw k = (case map_of raw k of Some v \<Rightarrow> v | None \<Rightarrow> d)"

definition optional_str :: "(string \<times> json) list \<Rightarrow> string \<Rightarrow> config_error + string option" where
  "optional_str raw k =
     (case entry_or JNull raw k of
        JNull \<Rightarrow> Inr None
      | JStr s \<Rightarrow> if s = [] then Inl (NotAString k) else Inr (Some s)
      | _ \<Rightarrow> Inl (NotAString k))"

definition number_at_least :: "(string \<times> json) list \<Rightarrow> string \<Rightarrow> rat \<Rightarrow> rat \<Rightarrow> config_error + rat" where
  "number_at_least raw k d minimum =
     (let v = entry_or (JNum d) raw k
      in case strict_num v of
           None \<Rightarrow> Inl (NotANumber k (json_type v))
         | Some x \<Rightarrow> if x < minimum then Inl (TooSmall k x) else Inr x)"

definition integer_at_least :: "(string \<times> json) list \<Rightarrow> string \<Rightarrow> int \<Rightarrow> int \<Rightarrow> config_error + int" where
  "integer_at_least raw k d minimum =
     (let v = entry_or (JInt d) raw k
      in case strict_int v of
           None \<Rightarrow> Inl (NotAnInteger k (json_type v))
         | Some x \<Rightarrow> if x < minimum then Inl (TooSmall k (of_int x)) else Inr x)"

definition upper_char :: "char \<Rightarrow> char" where
  "upper_char c = (if 97 \<le> (of_char c :: nat) \<and> (of_char c :: nat) \<le> 122 then char_of (of_char c - 32 :: nat) else c)"

definition text_or :: "(json \<Rightarrow> string) \<Rightarrow> json \<Rightarrow> string" where
  "text_or R v = (case v of JStr s \<Rightarrow> s | _ \<Rightarrow> R v)"

definition bool_at :: "config_error \<Rightarrow> json \<Rightarrow> config_error + bool" where
  "bool_at e v = (case v of JBool b \<Rightarrow> Inr b | _ \<Rightarrow> Inl e)"

definition method_at :: "json \<Rightarrow> config_error + string" where
  "method_at v =
     (case v of
        JStr m \<Rightarrow> if map upper_char m \<in> set HTTP_METHODS then Inr (map upper_char m) else Inl BadMethod
      | _ \<Rightarrow> Inl BadMethod)"

text \<open>The templates and the paging keys, checked together.\<close>

definition check_templates ::
  "string \<Rightarrow> string option \<Rightarrow> string option \<Rightarrow> config_error option" where
  "check_templates verb query body =
     (if (case query of None \<Rightarrow> False | Some q \<Rightarrow> \<not> sublist TAG_PLACEHOLDER q) then Some (QueryWithoutTag (the query))
      else (case body of
          None \<Rightarrow> None
        | Some b \<Rightarrow> if verb \<noteq> ''POST'' then Some BodyWithoutPost
            else if \<not> sublist TAG_PLACEHOLDER b then Some BodyWithoutTag else None))"

definition check_paging :: "string option \<Rightarrow> string option \<Rightarrow> string option \<Rightarrow> config_error option" where
  "check_paging page_param page_size_param next_path =
     (if page_size_param \<noteq> None \<and> page_param = None then Some PageSizeWithoutPage
      else if next_path \<noteq> None \<and> page_param \<noteq> None then Some TwoPaginations else None)"

definition bind_sum :: "('e + 'a) \<Rightarrow> ('a \<Rightarrow> 'e + 'b) \<Rightarrow> 'e + 'b" where
  "bind_sum x f = (case x of Inl e \<Rightarrow> Inl e | Inr a \<Rightarrow> f a)"

definition check_none :: "'e option \<Rightarrow> ('e + 'b) \<Rightarrow> 'e + 'b" where
  "check_none x y = (case x of Some e \<Rightarrow> Inl e | None \<Rightarrow> y)"

definition parse_table ::
  "(json \<Rightarrow> string) \<Rightarrow> string dict \<Rightarrow> (string \<times> json) list \<Rightarrow> config_error + readback_config"
where
  "parse_table R environ raw =
     (case entry_or JNull raw ''kind'' of
        JStr kind \<Rightarrow>
          if kind = [] then Inl NoKind
          else (let spec0 = entry_or JNull raw ''spec'';
                    spec = (if spec0 = JNull \<and> CHR '':'' \<in> set kind then JStr kind else spec0)
            in bind_sum (number_at_least raw ''timeout'' DEFAULT_HTTP_TIMEOUT 0) (\<lambda>timeout.
               bind_sum (let v = entry_or (JBool True) raw ''enumerate'' in bool_at (EnumerateNotBool (json_type v)) v) (\<lambda>enum.
               bind_sum (method_at (entry_or (JStr DEFAULT_METHOD) raw ''method'')) (\<lambda>verb.
               bind_sum (optional_str raw ''query'') (\<lambda>query.
               check_none (check_templates verb query None) (
               bind_sum (optional_str raw ''body'') (\<lambda>body.
               check_none (check_templates verb query body) (
               bind_sum (optional_str raw ''page_param'') (\<lambda>page_param.
               bind_sum (optional_str raw ''page_size_param'') (\<lambda>page_size_param.
               bind_sum (optional_str raw ''next_path'') (\<lambda>next_path.
               check_none (check_paging page_param page_size_param next_path) (
               bind_sum (bool_at PublicNotBool (entry_or (JBool False) raw ''allow_public_hosts'')) (\<lambda>public.
               bind_sum (as_str_table (entry_or JNull raw ''fields'')) (\<lambda>overrides.
               bind_sum (resolve_header_values environ (entry_or JNull raw ''headers'')) (\<lambda>headers.
               bind_sum (integer_at_least raw ''max_pages'' DEFAULT_MAX_PAGES 1) (\<lambda>max_pages.
               bind_sum (integer_at_least raw ''retry_max'' DEFAULT_RETRY_MAX 0) (\<lambda>retry_max.
               bind_sum (number_at_least raw ''retry_base_seconds'' DEFAULT_RETRY_BASE_SECONDS 0) (\<lambda>retry_base.
               Inr \<lparr>rc_kind = kind, rc_url = entry_or JNull raw ''url'', rc_path = entry_or JNull raw ''path'',
                 rc_tag_param = text_or R (entry_or (JStr DEFAULT_HTTP_TAG_PARAM) raw ''tag_param''),
                 rc_items_key = text_or R (entry_or (JStr DEFAULT_ITEMS_KEY) raw ''items_key''),
                 rc_timeout = timeout, rc_field_overrides = overrides, rc_spec = spec, rc_allow_public = public,
                 rc_list_path = entry_or JNull raw ''list_path'', rc_enumerate = enum, rc_headers = headers,
                 rc_query = query, rc_method = verb, rc_body = body, rc_page_param = page_param,
                 rc_page_size_param = page_size_param, rc_next_path = next_path, rc_max_pages = max_pages,
                 rc_retry_max = retry_max, rc_retry_base = retry_base, rc_rate = DEFAULT_READBACK_RATE,
                 rc_config_dir = None, rc_table = raw\<rparr>))))))))))))))))))
      | _ \<Rightarrow> Inl NoKind)"

definition parse_readback_config ::
  "(json \<Rightarrow> string) \<Rightarrow> string dict \<Rightarrow> json \<Rightarrow> config_error + readback_config"
where
  "parse_readback_config R environ raw =
     (case raw of
        JStr kind \<Rightarrow> Inr ((default_config kind)\<lparr>
          rc_spec := (if CHR '':'' \<in> set kind then JStr kind else JNull), rc_table := [(''kind'', JStr kind)]\<rparr>)
      | JNull \<Rightarrow> Inl NotConfigured
      | JObj kvs \<Rightarrow> parse_table R environ kvs
      | _ \<Rightarrow> Inl (NotATable ''readback'' (json_type raw)))"

section \<open>What an accepted table is\<close>

lemma bind_sum_Inr: "bind_sum x f = Inr b \<longleftrightarrow> (\<exists>a. x = Inr a \<and> f a = Inr b)"
  by (auto simp: bind_sum_def split: sum.splits)

lemma check_none_Inr: "check_none x y = Inr b \<longleftrightarrow> x = None \<and> y = Inr b"
  by (auto simp: check_none_def split: option.splits)

lemma parse_table_parts:
  assumes "parse_table R environ raw = Inr c"
  obtains kind spec hs overrides query verb body where
    "c = \<lparr>rc_kind = kind, rc_url = entry_or JNull raw ''url'', rc_path = entry_or JNull raw ''path'',
       rc_tag_param = text_or R (entry_or (JStr DEFAULT_HTTP_TAG_PARAM) raw ''tag_param''),
       rc_items_key = text_or R (entry_or (JStr DEFAULT_ITEMS_KEY) raw ''items_key''),
       rc_timeout = projr (number_at_least raw ''timeout'' DEFAULT_HTTP_TIMEOUT 0),
       rc_field_overrides = overrides, rc_spec = spec,
       rc_allow_public = projr (bool_at PublicNotBool (entry_or (JBool False) raw ''allow_public_hosts'')),
       rc_list_path = entry_or JNull raw ''list_path'',
       rc_enumerate = projr (bool_at NoKind (entry_or (JBool True) raw ''enumerate'')), rc_headers = hs,
       rc_query = query, rc_method = verb, rc_body = body,
       rc_page_param = projr (optional_str raw ''page_param''),
       rc_page_size_param = projr (optional_str raw ''page_size_param''),
       rc_next_path = projr (optional_str raw ''next_path''),
       rc_max_pages = projr (integer_at_least raw ''max_pages'' DEFAULT_MAX_PAGES 1),
       rc_retry_max = projr (integer_at_least raw ''retry_max'' DEFAULT_RETRY_MAX 0),
       rc_retry_base = projr (number_at_least raw ''retry_base_seconds'' DEFAULT_RETRY_BASE_SECONDS 0),
       rc_rate = DEFAULT_READBACK_RATE, rc_config_dir = None, rc_table = raw\<rparr>"
    "entry_or JNull raw ''kind'' = JStr kind"
    "spec = (if entry_or JNull raw ''spec'' = JNull \<and> CHR '':'' \<in> set kind then JStr kind
       else entry_or JNull raw ''spec'')"
    "resolve_header_values environ (entry_or JNull raw ''headers'') = Inr hs"
    "as_str_table (entry_or JNull raw ''fields'') = Inr overrides"
    "optional_str raw ''query'' = Inr query" "optional_str raw ''body'' = Inr body"
    "method_at (entry_or (JStr DEFAULT_METHOD) raw ''method'') = Inr verb"
    "check_templates verb query body = None"
    "check_paging (rc_page_param c) (rc_page_size_param c) (rc_next_path c) = None"
    "\<exists>x. number_at_least raw ''timeout'' DEFAULT_HTTP_TIMEOUT 0 = Inr x"
    "\<exists>x. integer_at_least raw ''max_pages'' DEFAULT_MAX_PAGES 1 = Inr x"
    "\<exists>x. integer_at_least raw ''retry_max'' DEFAULT_RETRY_MAX 0 = Inr x"
    "\<exists>x. number_at_least raw ''retry_base_seconds'' DEFAULT_RETRY_BASE_SECONDS 0 = Inr x"
proof -
  obtain kind where k: "entry_or JNull raw ''kind'' = JStr kind" "kind \<noteq> []"
    using assms by (auto simp: parse_table_def split: json.splits if_splits)
  have e: "bool_at x v = Inr b \<Longrightarrow> bool_at y v = Inr b" for x y v b
    by (auto simp: bool_at_def split: json.splits)
  let ?spec = "if entry_or JNull raw ''spec'' = JNull \<and> CHR '':'' \<in> set kind then JStr kind
    else entry_or JNull raw ''spec''"
  obtain timeout enum verb query body page_param page_size_param next_path public overrides hs max_pages retry_max
      retry_base where x:
    "number_at_least raw ''timeout'' DEFAULT_HTTP_TIMEOUT 0 = Inr timeout"
    "bool_at (EnumerateNotBool (json_type (entry_or (JBool True) raw ''enumerate'')))
       (entry_or (JBool True) raw ''enumerate'') = Inr enum"
    "method_at (entry_or (JStr DEFAULT_METHOD) raw ''method'') = Inr verb"
    "optional_str raw ''query'' = Inr query" "optional_str raw ''body'' = Inr body"
    "check_templates verb query body = None"
    "optional_str raw ''page_param'' = Inr page_param" "optional_str raw ''page_size_param'' = Inr page_size_param"
    "optional_str raw ''next_path'' = Inr next_path"
    "check_paging page_param page_size_param next_path = None"
    "bool_at PublicNotBool (entry_or (JBool False) raw ''allow_public_hosts'') = Inr public"
    "as_str_table (entry_or JNull raw ''fields'') = Inr overrides"
    "resolve_header_values environ (entry_or JNull raw ''headers'') = Inr hs"
    "integer_at_least raw ''max_pages'' DEFAULT_MAX_PAGES 1 = Inr max_pages"
    "integer_at_least raw ''retry_max'' DEFAULT_RETRY_MAX 0 = Inr retry_max"
    "number_at_least raw ''retry_base_seconds'' DEFAULT_RETRY_BASE_SECONDS 0 = Inr retry_base"
    "c = \<lparr>rc_kind = kind, rc_url = entry_or JNull raw ''url'', rc_path = entry_or JNull raw ''path'',
       rc_tag_param = text_or R (entry_or (JStr DEFAULT_HTTP_TAG_PARAM) raw ''tag_param''),
       rc_items_key = text_or R (entry_or (JStr DEFAULT_ITEMS_KEY) raw ''items_key''),
       rc_timeout = timeout, rc_field_overrides = overrides, rc_spec = ?spec, rc_allow_public = public,
       rc_list_path = entry_or JNull raw ''list_path'', rc_enumerate = enum, rc_headers = hs,
       rc_query = query, rc_method = verb, rc_body = body, rc_page_param = page_param,
       rc_page_size_param = page_size_param, rc_next_path = next_path, rc_max_pages = max_pages,
       rc_retry_max = retry_max, rc_retry_base = retry_base, rc_rate = DEFAULT_READBACK_RATE,
       rc_config_dir = None, rc_table = raw\<rparr>"
    using assms unfolding parse_table_def k(1) json.case if_not_P [OF k(2)] Let_def bind_sum_Inr check_none_Inr
    by (elim exE conjE, simp only: sum.inject)
  show thesis
    by (rule that [of kind overrides ?spec hs query verb body])
      (simp_all only: x k(1) e [OF x(2)] sum.sel readback_config.select_convs refl sum.inject ex_simps simp_thms)
qed

lemma str_table_entries:
  "str_table kvs = Inr t \<Longrightarrow> (k, q) \<in> set t \<Longrightarrow>
     (k \<in> set CHECKABLE_FIELDS \<or> k \<in> set (map fst DEFAULT_FIELD_MAP)) \<and>
     (case q of None \<Rightarrow> k \<noteq> ''ticket_id'' | Some p \<Rightarrow> check_field_path k p = None)"
proof (induction kvs arbitrary: t)
  case (Cons kv kvs)
  obtain k' item where kv: "kv = (k', item)" by (cases kv)
  obtain t' x where t: "str_table kvs = Inr t'" "t = (k', x) # t'"
    "k' \<in> set CHECKABLE_FIELDS \<or> k' \<in> set (map fst DEFAULT_FIELD_MAP)"
    "case x of None \<Rightarrow> k' \<noteq> ''ticket_id'' | Some p \<Rightarrow> check_field_path k' p = None"
    using Cons.prems(1) unfolding kv
    by (auto simp: Let_def split: if_splits json.splits bool.splits option.splits sum.splits)
  show ?case
  proof (cases "(k, q) = (k', x)")
    case True
    then show ?thesis using t(3,4) by (auto split: option.splits)
  next
    case False
    then show ?thesis using Cons.IH [OF t(1)] Cons.prems(2) t(2) by auto
  qed
qed simp

lemma known_names: "set CHECKABLE_FIELDS \<subseteq> set (map fst DEFAULT_FIELD_MAP)"
  by (simp add: CHECKABLE_FIELDS_def DEFAULT_FIELD_MAP_def)

lemma default_names: "distinct (map fst DEFAULT_FIELD_MAP)"
  by (simp add: DEFAULT_FIELD_MAP_def)

lemma map_filter_names:
  assumes "distinct (map fst xs)"
  shows "distinct (map fst (List.map_filter (\<lambda>(n, q). map_option (Pair n) q) xs))"
    "map_of (List.map_filter (\<lambda>(n, q). map_option (Pair n) q) xs) k = (case map_of xs k of Some q \<Rightarrow> q | None \<Rightarrow> None)"
proof -
  have sub: "set (map fst (List.map_filter (\<lambda>(n, q). map_option (Pair n) q) ys)) \<subseteq> set (map fst ys)" for ys :: "('a \<times> 'b option) list"
    by (induction ys) (auto simp: List.map_filter_simps split: option.splits)
  have none: "k \<notin> set (map fst ys) \<Longrightarrow> map_of (List.map_filter (\<lambda>(n, q). map_option (Pair n) q) ys) k = None"
    for ys :: "('a \<times> 'b option) list" and k using sub [of ys] by (auto simp: map_of_eq_None_iff)
  show "distinct (map fst (List.map_filter (\<lambda>(n, q). map_option (Pair n) q) xs))"
    using assms
  proof (induction xs)
    case (Cons a xs)
    then show ?case using sub [of xs] by (cases a; cases "snd a") (auto simp: List.map_filter_simps)
  qed (simp add: List.map_filter_simps)
  show "map_of (List.map_filter (\<lambda>(n, q). map_option (Pair n) q) xs) k = (case map_of xs k of Some q \<Rightarrow> q | None \<Rightarrow> None)"
    using assms
  proof (induction xs)
    case (Cons a xs)
    then show ?case using none [of k xs] by (cases a; cases "snd a") (auto simp: List.map_filter_simps)
  qed (simp add: List.map_filter_simps)
qed

lemma map_of_map_pairs: "map_of (map (\<lambda>(n, p). (n, f n p)) xs) k = map_option (f k) (map_of xs k)"
  by (induction xs) auto

lemma overlaid:
  assumes "as_str_table v = Inr (rc_field_overrides c)"
  shows "distinct (map fst (field_map_of c))"
    "map_of (field_map_of c) k = (case map_of DEFAULT_FIELD_MAP k of None \<Rightarrow> None
       | Some p \<Rightarrow> (case map_of (rc_field_overrides c) k of Some q \<Rightarrow> q | None \<Rightarrow> Some p))"
proof -
  have "fst x \<in> set (map fst DEFAULT_FIELD_MAP)" if "x \<in> set (rc_field_overrides c)" for x
    using assms that str_table_entries [of _ "rc_field_overrides c" "fst x" "snd x"] known_names
    by (auto simp: as_str_table_def split: json.splits)
  then have none: "filter (\<lambda>(n, q). n \<notin> set (map fst DEFAULT_FIELD_MAP)) (rc_field_overrides c) = []"
    by (auto simp: filter_empty_conv)
  define m where "m = map (\<lambda>(n, p). (n, case map_of (rc_field_overrides c) n of Some q \<Rightarrow> q | None \<Rightarrow> Some p)) DEFAULT_FIELD_MAP"
  have eq: "field_map_of c = List.map_filter (\<lambda>(n, q). map_option (Pair n) q) m"
    unfolding field_map_of_def Let_def none by (simp add: m_def)
  have names: "map fst m = map fst DEFAULT_FIELD_MAP" by (simp add: m_def comp_def case_prod_beta)
  have at: "map_of m k = (case map_of DEFAULT_FIELD_MAP k of None \<Rightarrow> None
      | Some p \<Rightarrow> Some (case map_of (rc_field_overrides c) k of Some q \<Rightarrow> q | None \<Rightarrow> Some p))" for k
    unfolding m_def map_of_map_pairs by (cases "map_of DEFAULT_FIELD_MAP k") simp_all
  show "distinct (map fst (field_map_of c))" unfolding eq by (rule map_filter_names) (simp add: names default_names)
  show "map_of (field_map_of c) k = (case map_of DEFAULT_FIELD_MAP k of None \<Rightarrow> None
       | Some p \<Rightarrow> (case map_of (rc_field_overrides c) k of Some q \<Rightarrow> q | None \<Rightarrow> Some p))"
    unfolding eq map_filter_names(2) [of m k, unfolded names, OF default_names] at
    by (simp split: option.splits)
qed

text \<open>C28 (an accepted table can be used). When a \<open>[readback]\<close> table is accepted, its verb is one the
  adapter speaks, every template asks for the tag it is filled with, a body is only there to be
  posted, at most one way of paging is set, the bounds are not negative, each field has one path
  and the identifier has a path with one value.\<close>

theorem accepted_table_is_well_formed:
  assumes "parse_readback_config R environ (JObj raw) = Inr c"
  shows "rc_method c \<in> set HTTP_METHODS \<and>
    (\<forall>q. rc_query c = Some q \<longrightarrow> sublist TAG_PLACEHOLDER q) \<and>
    (\<forall>b. rc_body c = Some b \<longrightarrow> rc_method c = ''POST'' \<and> sublist TAG_PLACEHOLDER b) \<and>
    \<not> (rc_next_path c \<noteq> None \<and> rc_page_param c \<noteq> None) \<and>
    (rc_page_size_param c \<noteq> None \<longrightarrow> rc_page_param c \<noteq> None) \<and>
    1 \<le> rc_max_pages c \<and> 0 \<le> rc_retry_max c \<and> 0 \<le> rc_timeout c \<and> 0 \<le> rc_retry_base c \<and>
    distinct (map fst (field_map_of c)) \<and>
    (\<exists>p. map_of (field_map_of c) ''ticket_id'' = Some p \<and> p \<noteq> [] \<and> ''*'' \<notin> set (split_on CHR ''.'' p))"
proof -
  have "parse_table R environ raw = Inr c" using assms by (simp add: parse_readback_config_def)
  then obtain kind spec hs overrides query verb body where f:
    "c = \<lparr>rc_kind = kind, rc_url = entry_or JNull raw ''url'', rc_path = entry_or JNull raw ''path'',
       rc_tag_param = text_or R (entry_or (JStr DEFAULT_HTTP_TAG_PARAM) raw ''tag_param''),
       rc_items_key = text_or R (entry_or (JStr DEFAULT_ITEMS_KEY) raw ''items_key''),
       rc_timeout = projr (number_at_least raw ''timeout'' DEFAULT_HTTP_TIMEOUT 0),
       rc_field_overrides = overrides, rc_spec = spec,
       rc_allow_public = projr (bool_at PublicNotBool (entry_or (JBool False) raw ''allow_public_hosts'')),
       rc_list_path = entry_or JNull raw ''list_path'',
       rc_enumerate = projr (bool_at NoKind (entry_or (JBool True) raw ''enumerate'')), rc_headers = hs,
       rc_query = query, rc_method = verb, rc_body = body,
       rc_page_param = projr (optional_str raw ''page_param''),
       rc_page_size_param = projr (optional_str raw ''page_size_param''),
       rc_next_path = projr (optional_str raw ''next_path''),
       rc_max_pages = projr (integer_at_least raw ''max_pages'' DEFAULT_MAX_PAGES 1),
       rc_retry_max = projr (integer_at_least raw ''retry_max'' DEFAULT_RETRY_MAX 0),
       rc_retry_base = projr (number_at_least raw ''retry_base_seconds'' DEFAULT_RETRY_BASE_SECONDS 0),
       rc_rate = DEFAULT_READBACK_RATE, rc_config_dir = None, rc_table = raw\<rparr>"
    "as_str_table (entry_or JNull raw ''fields'') = Inr overrides"
    "method_at (entry_or (JStr DEFAULT_METHOD) raw ''method'') = Inr verb"
    "check_templates verb query body = None"
    "check_paging (rc_page_param c) (rc_page_size_param c) (rc_next_path c) = None"
    "\<exists>x. number_at_least raw ''timeout'' DEFAULT_HTTP_TIMEOUT 0 = Inr x"
    "\<exists>x. integer_at_least raw ''max_pages'' DEFAULT_MAX_PAGES 1 = Inr x"
    "\<exists>x. integer_at_least raw ''retry_max'' DEFAULT_RETRY_MAX 0 = Inr x"
    "\<exists>x. number_at_least raw ''retry_base_seconds'' DEFAULT_RETRY_BASE_SECONDS 0 = Inr x"
    by (rule parse_table_parts)
  have ov: "as_str_table (entry_or JNull raw ''fields'') = Inr (rc_field_overrides c)" using f(1,2) by simp
  have num: "number_at_least raw k d m = Inr x \<Longrightarrow> m \<le> x" for k d m x
    by (auto simp: number_at_least_def Let_def split: option.splits if_splits)
  have int: "integer_at_least raw k d m = Inr x \<Longrightarrow> m \<le> x" for k d m x
    by (auto simp: integer_at_least_def Let_def split: option.splits if_splits)
  have bounds: "1 \<le> rc_max_pages c" "0 \<le> rc_retry_max c" "0 \<le> rc_timeout c" "0 \<le> rc_retry_base c"
    using f(6-9) num int by (auto simp: f(1))
  have verb: "rc_method c \<in> set HTTP_METHODS"
    using f(3) by (auto simp: f(1) method_at_def split: json.splits if_splits)
  have templates: "\<forall>q. rc_query c = Some q \<longrightarrow> sublist TAG_PLACEHOLDER q"
    "\<forall>b. rc_body c = Some b \<longrightarrow> rc_method c = ''POST'' \<and> sublist TAG_PLACEHOLDER b"
    using f(4) by (auto simp: f(1) check_templates_def split: option.splits if_splits)
  have paging: "\<not> (rc_next_path c \<noteq> None \<and> rc_page_param c \<noteq> None)"
    "rc_page_size_param c \<noteq> None \<longrightarrow> rc_page_param c \<noteq> None"
    using f(5) by (auto simp: check_paging_def split: if_splits)
  have id: "\<exists>p. map_of (field_map_of c) ''ticket_id'' = Some p \<and> p \<noteq> [] \<and> ''*'' \<notin> set (split_on CHR ''.'' p)"
  proof (cases "map_of (rc_field_overrides c) ''ticket_id''")
    case None
    have "map_of DEFAULT_FIELD_MAP ''ticket_id'' = Some ''id''" "''*'' \<notin> set (split_on CHR ''.'' ''id'')" by code_simp+
    then show ?thesis by (simp add: overlaid(2) [OF ov] None)
  next
    case (Some q)
    note entry = map_of_SomeD [OF Some]
    then obtain kvs where "str_table kvs = Inr (rc_field_overrides c)"
      using ov by (auto simp: as_str_table_def split: json.splits)
    note e = str_table_entries [OF this entry]
    then obtain p where q: "q = Some p" "check_field_path ''ticket_id'' p = None" by (cases q) simp_all
    have "map_of DEFAULT_FIELD_MAP ''ticket_id'' = Some ''id''" by code_simp
    then show ?thesis using Some q
      by (auto simp: overlaid(2) [OF ov] check_field_path_def Let_def filter_empty_conv split: if_splits)
  qed
  show ?thesis using verb templates paging bounds id overlaid(1) [OF ov] by blast
qed

section \<open>Secrets\<close>

lemma resolved_headers:
  "resolve_headers environ kvs = Inr hs \<Longrightarrow>
   list_all2 (\<lambda>(n, v) (m, x). m = n \<and> (\<exists>s. v = JStr (ENV_PREFIX @ s) \<and> map_of environ (strip s) = Some x)) kvs hs"
proof (induction kvs arbitrary: hs)
  case (Cons kv kvs)
  obtain name v where kv: "kv = (name, v)" by (cases kv)
  obtain s x hs' where s: "v = JStr s" "prefix ENV_PREFIX s" "map_of environ (strip (drop (length ENV_PREFIX) s)) = Some x"
    "resolve_headers environ kvs = Inr hs'" "hs = (name, x) # hs'"
    using Cons.prems unfolding kv
    by (auto simp: Let_def split: json.splits if_splits option.splits sum.splits)
  then show ?case using Cons.IH [OF s(4)] kv by (auto simp: prefix_def)
qed simp

lemma header_names_fixed:
  assumes "resolve_header_values environ v = Inr hs" "resolve_header_values environ' v = Inr hs'"
  shows "map fst hs = map fst hs'"
proof -
  have "map fst hs = map fst kvs" if "resolve_headers e kvs = Inr hs" for e kvs hs
    using resolved_headers [OF that] by (induction rule: list_all2_induct) auto
  then show ?thesis using assms by (cases v) (auto simp: resolve_header_values_def)
qed

text \<open>C27 (no secret leaves through the configuration). The table a custom adapter is handed and the
  record of a run do not depend on the values the environment gives the headers; each value the
  adapter sends comes from the variable the table names, and a literal one is refused.\<close>

theorem secrets_stay_out:
  assumes "parse_readback_config R environ (JObj raw) = Inr c" "parse_readback_config R environ' (JObj raw) = Inr c'"
  shows "adapter_table c = adapter_table c' \<and> config_json c = config_json c' \<and>
    (\<forall>(n, x) \<in> set (rc_headers c). \<exists>kvs s. entry_or JNull raw ''headers'' = JObj kvs \<and>
       (n, JStr (''env:'' @ s)) \<in> set kvs \<and> map_of environ (strip s) = Some x)"
proof -
  have p: "parse_table R environ raw = Inr c" "parse_table R environ' raw = Inr c'"
    using assms by (simp_all add: parse_readback_config_def)
  obtain hs where hs: "resolve_header_values environ (entry_or JNull raw ''headers'') = Inr hs" "rc_headers c = hs"
    using p(1) by (rule parse_table_parts) (erule that, simp)
  obtain hs' where hs': "resolve_header_values environ' (entry_or JNull raw ''headers'') = Inr hs'" "rc_headers c' = hs'"
    using p(2) by (rule parse_table_parts) (erule that, simp)
  have same: "c' = c\<lparr>rc_headers := hs'\<rparr>"
    by (rule parse_table_parts [OF p(1)], rule parse_table_parts [OF p(2)]) (use hs' in simp)
  have names: "header_names c = header_names c'"
    using header_names_fixed [OF hs(1) hs'(1)] hs(2) hs'(2) by (simp add: header_names_def)
  then have json: "config_json c = config_json c'"
    unfolding config_json_def by (simp add: same field_map_of_def unmapped_fields_def)
  then have table: "adapter_table c = adapter_table c'" by (simp add: adapter_table_def same)
  have "\<exists>kvs s. entry_or JNull raw ''headers'' = JObj kvs \<and> (n, JStr (''env:'' @ s)) \<in> set kvs \<and>
      map_of environ (strip s) = Some x" if "(n, x) \<in> set hs" for n x
  proof -
    note z = that
    obtain kvs where k: "entry_or JNull raw ''headers'' = JObj kvs" "resolve_headers environ kvs = Inr hs"
      using hs(1) z by (auto simp: resolve_header_values_def split: json.splits)
    from resolved_headers [OF k(2)] z show ?thesis
      unfolding k(1) by (fastforce simp: list_all2_conv_all_nth in_set_conv_nth ENV_PREFIX_def)
  qed
  then show ?thesis using table json hs(2) by auto
qed

section \<open>The theorems at a concrete table\<close>

definition sample_table :: "(string \<times> json) list" where
  "sample_table = [(''kind'', JStr ''http''), (''url'', JStr ''http://localhost/t''), (''method'', JStr ''post''),
     (''body'', JStr ''{tag}''), (''headers'', JObj [(''Authorization'', JStr ''env:TOKEN'')])]"

definition sample_config :: "string \<Rightarrow> readback_config" where
  "sample_config s = projr (parse_readback_config (\<lambda>v. []) [(''TOKEN'', s)] (JObj sample_table))"

lemma sample_accepted:
  "parse_readback_config (\<lambda>v. []) [(''TOKEN'', ''x'')] (JObj sample_table) = Inr (sample_config ''x'')"
  "parse_readback_config (\<lambda>v. []) [(''TOKEN'', ''y'')] (JObj sample_table) = Inr (sample_config ''y'')"
proof -
  have "\<not> isl (parse_readback_config (\<lambda>v. []) [(''TOKEN'', ''x'')] (JObj sample_table))"
    "\<not> isl (parse_readback_config (\<lambda>v. []) [(''TOKEN'', ''y'')] (JObj sample_table))" by code_simp+
  then show "parse_readback_config (\<lambda>v. []) [(''TOKEN'', ''x'')] (JObj sample_table) = Inr (sample_config ''x'')"
    "parse_readback_config (\<lambda>v. []) [(''TOKEN'', ''y'')] (JObj sample_table) = Inr (sample_config ''y'')"
    by (simp_all add: sample_config_def)
qed

theorem accepted_table_is_well_formed_witness:
  "rc_method (sample_config ''x'') \<in> set HTTP_METHODS \<and> 1 \<le> rc_max_pages (sample_config ''x'')"
  using accepted_table_is_well_formed [OF sample_accepted(1)] by blast

theorem secrets_stay_out_witness: "adapter_table (sample_config ''x'') = adapter_table (sample_config ''y'')"
  using secrets_stay_out [OF sample_accepted] by blast

end
