(* ===== verification/Http_Adapter.thy ===== *)
theory Http_Adapter
  imports Adapter_Config Keep_Alive Guardrails Poll
begin

text \<open>The http readback adapter (\<open>HttpJsonAdapter\<close> of \<open>pipeline/adapters.py\<close>): its urls and guards,
  pacing, retries, pages, lookups, listing and preflight. Outside are the record \<open>web\<close>: \<open>urllib.parse\<close>,
  reading JSON and UTF-8, HTTP dates, the random part of a backoff, the wall clock and the HTTP
  client, which answers or raises \<open>OSError\<close> or \<open>HTTPException\<close>. The clock the adapter is bound to is
  the argument \<open>T\<close>. Sentences are constructors of \<open>adapter_error\<close>.\<close>

section \<open>Outside\<close>

record urls =
  ul_split :: "string \<Rightarrow> string \<times> string \<times> string \<times> string \<times> string"
  ul_unsplit :: "string \<times> string \<times> string \<times> string \<times> string \<Rightarrow> string"
  ul_parse_qsl :: "string \<Rightarrow> (string \<times> string) list"
  ul_encode :: "(string \<times> string) list \<Rightarrow> string"
  ul_join :: "string \<Rightarrow> string \<Rightarrow> string"

record 'w web =
  wb_urls :: urls
  wb_net :: netlib
  wb_loads :: "string \<Rightarrow> json option"
  wb_utf8 :: "bytes \<Rightarrow> string option"
  wb_float :: "rat \<Rightarrow> string"
  wb_http_date :: "string \<Rightarrow> rat option"
  wb_uniform :: "rat \<Rightarrow> 'w \<Rightarrow> rat \<times> 'w"
  wb_wall :: "'w \<Rightarrow> rat \<times> 'w"
  wb_send :: "prepared_request \<Rightarrow> 'w \<Rightarrow> (string + client_response) \<times> 'w"

definition MAX_BACKOFF_SECONDS :: rat where "MAX_BACKOFF_SECONDS = 30"
definition MAX_RETRY_AFTER :: rat where "MAX_RETRY_AFTER = 300"
definition DEFAULT_PAGE_SIZE :: nat where "DEFAULT_PAGE_SIZE = 100"
definition PREFLIGHT_TAG :: string where "PREFLIGHT_TAG = ''testinghq-preflight-probe''"

section \<open>Urls\<close>

definition require_readback_target :: "netlib \<Rightarrow> bool \<Rightarrow> string \<Rightarrow> adapter_error + string" where
  "require_readback_target N allow_public_hosts url =
     (if \<not> (prefix ''http://'' url \<or> prefix ''https://'' url) then Inl (BadReadbackUrl url)
      else (case require_configured_target N url [url] allow_public_hosts of
          Inl e \<Rightarrow> Inl (UrlRefused url) | Inr _ \<Rightarrow> Inr url))"

definition with_params :: "urls \<Rightarrow> string \<Rightarrow> (string \<times> string) list \<Rightarrow> string list \<Rightarrow> string" where
  "with_params U url params dropped =
     (case ul_split U url of (scheme, netloc, path, query, fragment) \<Rightarrow>
        (let replaced = map fst params @ dropped;
             kept = filter (\<lambda>(k, v). k \<notin> set replaced) (ul_parse_qsl U query)
         in ul_unsplit U (scheme, netloc, path, ul_encode U (kept @ params), fragment)))"

definition origin_of :: "urls \<Rightarrow> string \<Rightarrow> string \<times> string" where
  "origin_of U url = (case ul_split U url of (scheme, netloc, path, query, fragment) \<Rightarrow> (casefold scheme, casefold netloc))"

section \<open>The adapter\<close>

record http_adapter =
  ha_url :: string
  ha_tag_param :: string
  ha_items_key :: string
  ha_timeout :: rat
  ha_field_map :: "(string \<times> string) list"
  ha_allow_public :: bool
  ha_headers :: "string dict"
  ha_list_path :: "string option"
  ha_enumerate :: bool
  ha_query :: "string option"
  ha_method :: string
  ha_body :: "string option"
  ha_page_param :: "string option"
  ha_page_size_param :: "string option"
  ha_next_path :: "string option"
  ha_max_pages :: nat
  ha_retry_max :: nat
  ha_retry_base :: rat
  ha_rate :: "rat option"
  ha_list_url :: string

definition ha_can_enumerate :: "http_adapter \<Rightarrow> bool" where
  "ha_can_enumerate A \<longleftrightarrow> ha_enumerate A \<and> (ha_method A = ''GET'' \<or> ha_list_path A \<noteq> None)"

definition build_list_url :: "urls \<Rightarrow> netlib \<Rightarrow> http_adapter \<Rightarrow> adapter_error + string" where
  "build_list_url U N A =
     (if truthy (ha_list_path A)
      then (let p = the (ha_list_path A);
                target = (if prefix ''http://'' p \<or> prefix ''https://'' p then p else ul_join U (ha_url A) p)
            in require_readback_target N (ha_allow_public A) target)
      else Inr (with_params U (ha_url A) [] [ha_tag_param A]))"

text \<open>The part of \<open>__init__\<close> that can refuse; the attributes come as a record without a list url.\<close>

definition new_http_adapter :: "urls \<Rightarrow> netlib \<Rightarrow> http_adapter \<Rightarrow> adapter_error + http_adapter" where
  "new_http_adapter U N A0 =
     (if ha_url A0 = [] then Inl NoUrl
      else (case require_readback_target N (ha_allow_public A0) (ha_url A0) of
          Inl e \<Rightarrow> Inl e
        | Inr u \<Rightarrow>
            (let A = A0\<lparr>ha_field_map := (if ha_field_map A0 = [] then DEFAULT_FIELD_MAP else ha_field_map A0),
                   ha_method := map upper_char (if ha_method A0 = [] then DEFAULT_METHOD else ha_method A0),
                   ha_max_pages := max 1 (ha_max_pages A0),
                   ha_rate := (case ha_rate A0 of Some q \<Rightarrow> if 0 < q then Some q else None | None \<Rightarrow> None)\<rparr>
             in case build_list_url U N A of Inl e \<Rightarrow> Inl e | Inr l \<Rightarrow> Inr (A\<lparr>ha_list_url := l\<rparr>))))"

record http_state =
  hs_deadline :: "seconds option"
  hs_next_slot :: "seconds option"
  hs_requests :: nat
  hs_retries :: nat

definition new_http_state :: http_state where
  "new_http_state = \<lparr>hs_deadline = None, hs_next_slot = None, hs_requests = 0, hs_retries = 0\<rparr>"

text \<open>\<open>bind_clock\<close>; \<open>same\<close> says whether the clock is the one the adapter had.\<close>

definition ha_bind :: "bool \<Rightarrow> seconds option \<Rightarrow> http_state \<Rightarrow> http_state" where
  "ha_bind same deadline S =
     (if same then S else S\<lparr>hs_next_slot := None\<rparr>)\<lparr>hs_deadline := deadline\<rparr>"

section \<open>Time\<close>

definition ha_remaining :: "'w timing \<Rightarrow> http_state \<Rightarrow> 'w \<Rightarrow> seconds option \<times> 'w" where
  "ha_remaining T S w =
     (case hs_deadline S of
        None \<Rightarrow> (None, w)
      | Some d \<Rightarrow> (case read_clock T w of (t, w1) \<Rightarrow> (Some (d - t), w1)))"

text \<open>\<open>self._next_slot or now\<close>: a slot of 0 counts as none.\<close>

definition slot_or :: "seconds option \<Rightarrow> seconds \<Rightarrow> seconds" where
  "slot_or slot now = (case slot of Some s \<Rightarrow> if s \<noteq> 0 then s else now | None \<Rightarrow> now)"

definition take_slot :: "rat \<Rightarrow> seconds \<Rightarrow> http_state \<Rightarrow> http_state" where
  "take_slot rate now S = S\<lparr>hs_next_slot := Some (max now (slot_or (hs_next_slot S) now) + 1 / rate)\<rparr>"

definition ha_pace ::
  "'w timing \<Rightarrow> http_adapter \<Rightarrow> string \<Rightarrow> http_state \<Rightarrow> 'w \<Rightarrow> (adapter_error + unit) \<times> http_state \<times> 'w"
where
  "ha_pace T A context S w =
     (case ha_rate A of
        None \<Rightarrow> (Inr (), S, w)
      | Some rate \<Rightarrow>
          (case read_clock T w of (now, w1) \<Rightarrow>
             if (case hs_next_slot S of Some slot \<Rightarrow> now < slot | None \<Rightarrow> False)
             then (let wait = the (hs_next_slot S) - now
               in case ha_remaining T S w1 of (left, w2) \<Rightarrow>
                 if (case left of Some l \<Rightarrow> l \<le> wait | None \<Rightarrow> False) then (Inl (OutOfBudget context), S, w2)
                 else (case read_clock T (do_sleep T wait w2) of (now2, w3) \<Rightarrow> (Inr (), take_slot rate now2 S, w3)))
             else (Inr (), take_slot rate now S, w1)))"

definition ha_backoff ::
  "'w web \<Rightarrow> http_adapter \<Rightarrow> nat \<Rightarrow> seconds option \<Rightarrow> 'w \<Rightarrow> seconds \<times> 'w"
where
  "ha_backoff W A attempt retry_after w =
     (let span = min (ha_retry_base A * 2 ^ attempt) MAX_BACKOFF_SECONDS
      in case wb_uniform W (span / 2) w of (x, w1) \<Rightarrow>
           (let delay = span / 2 + x
            in (case retry_after of Some s \<Rightarrow> max delay s | None \<Rightarrow> delay, w1)))"

definition retry_after_seconds :: "'w web \<Rightarrow> client_response \<Rightarrow> 'w \<Rightarrow> seconds option \<times> 'w" where
  "retry_after_seconds W r w =
     (case find (\<lambda>(k, v). casefold k = ''retry-after'') (cr_headers r) of
        None \<Rightarrow> (None, w)
      | Some (k, v) \<Rightarrow>
          (let t = strip v
           in if t = [] then (None, w)
              else if isdigit t then (Some (of_nat (nat_of_str t)), w)
              else (case wb_http_date W t of
                  None \<Rightarrow> (None, w)
                | Some at_time \<Rightarrow> (case wb_wall W w of (now, w1) \<Rightarrow> (Some (max 0 (at_time - now)), w1)))))"

section \<open>One request, with retries\<close>

definition request_headers :: "http_adapter \<Rightarrow> bytes \<Rightarrow> string dict" where
  "request_headers A body =
     (if body \<noteq> [] \<and> \<not> list_ex (\<lambda>(k, v). casefold k = ''content-type'') (ha_headers A)
      then ha_headers A @ [(''Content-Type'', ''application/json'')] else ha_headers A)"

text \<open>One pass of the loop up to the answer: a refusal, the answer that is returned, or a failure
  that may be tried again with what the server asked for.\<close>

datatype tried = Refused adapter_error | Answered client_response | Failed string "seconds option"

definition ha_try ::
  "'w timing \<Rightarrow> 'w web \<Rightarrow> http_adapter \<Rightarrow> string \<Rightarrow> string \<Rightarrow> bytes \<Rightarrow> string \<Rightarrow> http_state \<Rightarrow> 'w \<Rightarrow>
     tried \<times> http_state \<times> 'w"
where
  "ha_try T W A url method body context S w =
     (case ha_remaining T S w of (left, w1) \<Rightarrow>
        if (case left of Some l \<Rightarrow> l \<le> 0 | None \<Rightarrow> False) then (Refused (OutOfBudget context), S, w1)
        else (case ha_pace T A context S w1 of
            (Inl e, S1, w2) \<Rightarrow> (Refused e, S1, w2)
          | (Inr _, S1, w2) \<Rightarrow>
              (case ha_remaining T S1 w2 of (left, w3) \<Rightarrow>
                (let timeout = (case left of Some l \<Rightarrow> max (5 / 100) (min (ha_timeout A) l) | None \<Rightarrow> ha_timeout A);
                     request = \<lparr>pr_url = url, pr_method = method, pr_headers = request_headers A body,
                       pr_body = body, pr_timeout = timeout\<rparr>;
                     S2 = S1\<lparr>hs_requests := hs_requests S1 + 1\<rparr>
                 in case wb_send W request w3 of
                      (Inl failure, w4) \<Rightarrow> (Failed failure None, S2, w4)
                    | (Inr r, w4) \<Rightarrow>
                        if cr_status r = 429 \<or> (500 \<le> cr_status r \<and> cr_status r \<le> 599)
                        then (case retry_after_seconds W r w4 of (after, w5) \<Rightarrow> (Failed (cr_body r) after, S2, w5))
                        else (Answered r, S2, w4)))))"

text \<open>Between two passes: the wait, or the refusal to wait.\<close>

definition ha_wait ::
  "'w timing \<Rightarrow> 'w web \<Rightarrow> http_adapter \<Rightarrow> string \<Rightarrow> nat \<Rightarrow> string \<Rightarrow> seconds option \<Rightarrow> http_state \<Rightarrow> 'w \<Rightarrow>
     (adapter_error + unit) \<times> http_state \<times> 'w"
where
  "ha_wait T W A context attempt failure after S w =
     (if ha_retry_max A \<le> attempt then (Inl (GaveUp (attempt + 1) failure), S, w)
      else if (case after of Some s \<Rightarrow> MAX_RETRY_AFTER < s | None \<Rightarrow> False)
      then (Inl (RetryTooLate (the after) failure), S, w)
      else (case ha_backoff W A attempt after w of (delay, w1) \<Rightarrow>
        (case ha_remaining T S w1 of (left, w2) \<Rightarrow>
          if (case left of Some l \<Rightarrow> l \<le> delay | None \<Rightarrow> False) then (Inl (OutOfBudget context), S, w2)
          else (Inr (), S\<lparr>hs_retries := hs_retries S + 1\<rparr>, do_sleep T delay w2))))"

function ha_request ::
  "'w timing \<Rightarrow> 'w web \<Rightarrow> http_adapter \<Rightarrow> string \<Rightarrow> string \<Rightarrow> bytes \<Rightarrow> string \<Rightarrow> nat \<Rightarrow> http_state \<Rightarrow> 'w \<Rightarrow>
     (adapter_error + client_response) \<times> http_state \<times> 'w"
where
  "ha_request T W A url method body context attempt S w =
     (case ha_try T W A url method body context S w of
        (Refused e, S1, w1) \<Rightarrow> (Inl e, S1, w1)
      | (Answered r, S1, w1) \<Rightarrow> (Inr r, S1, w1)
      | (Failed failure after, S1, w1) \<Rightarrow>
          (case ha_wait T W A context attempt failure after S1 w1 of
             (Inl e, S2, w2) \<Rightarrow> (Inl e, S2, w2)
           | (Inr _, S2, w2) \<Rightarrow> ha_request T W A url method body context (attempt + 1) S2 w2))"
  by pat_completeness auto

lemma ha_wait_again: "(Inr u, S2, w2) = ha_wait T W A context attempt failure after S1 w1 \<Longrightarrow> attempt < ha_retry_max A"
  by (auto simp: ha_wait_def split: if_splits)

termination ha_request
  by (relation "measure (\<lambda>(T, W, A, url, method, body, context, attempt, S, w). ha_retry_max A - attempt)")
    (auto dest: ha_wait_again)

declare ha_request.simps [simp del]

section \<open>Lookups and pages\<close>

function fill_tag :: "string \<Rightarrow> string \<Rightarrow> string" where
  "fill_tag tag [] = []"
| "fill_tag tag (c # cs) =
     (if prefix TAG_PLACEHOLDER (c # cs) then tag @ fill_tag tag (drop 4 cs) else c # fill_tag tag cs)"
  by pat_completeness auto

termination fill_tag
  by (relation "measure (\<lambda>(tag, s). length s)") auto

definition ha_lookup :: "'w web \<Rightarrow> http_adapter \<Rightarrow> string \<Rightarrow> string \<times> string \<times> bytes" where
  "ha_lookup W A tag =
     (let v = (if truthy (ha_query A) then fill_tag tag (the (ha_query A)) else tag);
          asked = with_params (wb_urls W) (ha_url A) [(ha_tag_param A, v)] []
      in if ha_method A = ''POST''
         then (if truthy (ha_query A) then asked else ha_url A, ''POST'',
           fill_tag (butlast (tl (json_quote tag))) (case ha_body A of Some b \<Rightarrow> b | None \<Rightarrow> []))
         else (asked, ''GET'', []))"

definition ha_decode :: "'w web \<Rightarrow> client_response \<Rightarrow> string \<Rightarrow> adapter_error + json" where
  "ha_decode W r context =
     (case (if cr_body r = [] then Some [] else wb_utf8 W (cr_body r)) of
        None \<Rightarrow> Inl NotUtf8
      | Some t \<Rightarrow>
          if strip t = [] then Inr JNull
          else (case wb_loads W t of None \<Rightarrow> Inl (NotJsonDocument context) | Some j \<Rightarrow> Inr j))"

definition is_record_list :: "json \<Rightarrow> bool" where
  "is_record_list j = (case j of JList xs \<Rightarrow> list_all is_obj xs | _ \<Rightarrow> False)"

definition ha_records :: "'w web \<Rightarrow> http_adapter \<Rightarrow> json \<Rightarrow> adapter_error + json list" where
  "ha_records W A payload =
     (case payload of
        JNull \<Rightarrow> Inr []
      | JList xs \<Rightarrow> Inr xs
      | JObj kvs \<Rightarrow>
          (case dig payload (ha_items_key A) of
             BadIndex p \<Rightarrow> Inl (BadPathIndex p)
           | Dug (JList xs) \<Rightarrow> Inr xs
           | Dug JNull \<Rightarrow> Inr []
           | Dug v \<Rightarrow> Inl (ItemsNotAList (ha_items_key A) (shape_of (wb_float W) v))
           | Absent \<Rightarrow>
               (case dig payload (case map_of (ha_field_map A) ''ticket_id'' of Some p \<Rightarrow> p | None \<Rightarrow> ''id'') of
                  BadIndex p \<Rightarrow> Inl (BadPathIndex p)
                | Dug v \<Rightarrow> Inr [payload]
                | Absent \<Rightarrow>
                    (let lists = sort (map fst (filter (\<lambda>(k, v). is_record_list v) kvs))
                     in if lists \<noteq> [] then Inl (ListElsewhere (ha_items_key A) lists) else Inr [payload])))
      | _ \<Rightarrow> Inl (NotJson (json_type payload)))"

definition ha_follow :: "'w web \<Rightarrow> http_adapter \<Rightarrow> string \<Rightarrow> string \<Rightarrow> adapter_error + string" where
  "ha_follow W A current pointed =
     (let target = ul_join (wb_urls W) current pointed; org = origin_of (wb_urls W)
      in if org target \<noteq> org (ha_url A) \<and> org target \<noteq> org (ha_list_url A) then Inl (OtherHost target)
         else require_readback_target (wb_net W) (ha_allow_public A) target)"

text \<open>The url of a page; the page number is one more than the pages read so far.\<close>

definition ha_page_url :: "'w web \<Rightarrow> http_adapter \<Rightarrow> nat \<Rightarrow> string \<Rightarrow> string" where
  "ha_page_url W A pages current =
     (if truthy (ha_page_param A)
      then with_params (wb_urls W) current ((the (ha_page_param A), str_of_nat (pages + 1)) #
        (if truthy (ha_page_size_param A) then [(the (ha_page_size_param A), str_of_nat DEFAULT_PAGE_SIZE)] else [])) []
      else current)"

definition ha_next_url ::
  "'w web \<Rightarrow> http_adapter \<Rightarrow> string \<Rightarrow> json \<Rightarrow> json list \<Rightarrow> nat \<Rightarrow> adapter_error + string option"
where
  "ha_next_url W A current payload records biggest =
     (if truthy (ha_next_path A) \<and> (is_obj payload \<or> is_list payload)
      then (case json_pointer payload (the (ha_next_path A)) of
          BadIndex p \<Rightarrow> Inl (BadPathIndex p)
        | Dug (JStr s) \<Rightarrow>
            if strip s = [] then Inr None
            else (case ha_follow W A current (strip s) of Inl e \<Rightarrow> Inl e | Inr u \<Rightarrow> Inr (Some u))
        | _ \<Rightarrow> Inr None)
      else if truthy (ha_page_param A) \<and> records \<noteq> []
      then Inr (if (if truthy (ha_page_size_param A) then DEFAULT_PAGE_SIZE \<le> length records
                    else biggest \<le> length records) then Some current else None)
      else Inr None)"

text \<open>What a response that came is worth: the page ends the listing, or gives records and maybe a
  next url.\<close>

definition ha_page ::
  "'w web \<Rightarrow> http_adapter \<Rightarrow> string \<Rightarrow> bool \<Rightarrow> nat \<Rightarrow> string \<Rightarrow> nat \<Rightarrow> client_response \<Rightarrow>
     adapter_error + (json list \<times> string option)"
where
  "ha_page W A context lookup pages current biggest r =
     (if cr_status r = 404 \<and> (lookup \<or> 0 < pages) then Inr ([], None)
      else if \<not> (200 \<le> cr_status r \<and> cr_status r < 300) then Inl (BadStatus context (cr_status r))
      else (case ha_decode W r context of
          Inl e \<Rightarrow> Inl e
        | Inr payload \<Rightarrow>
            (case ha_records W A payload of
               Inl e \<Rightarrow> Inl e
             | Inr records \<Rightarrow>
                 (case ha_next_url W A current payload records biggest of
                    Inl e \<Rightarrow> Inl e | Inr next_url \<Rightarrow> Inr (records, next_url)))))"

text \<open>The loop of \<open>_collect\<close>: the records, whether it was cut short, and the first status.\<close>

function ha_pages ::
  "'w timing \<Rightarrow> 'w web \<Rightarrow> http_adapter \<Rightarrow> string \<Rightarrow> bytes \<Rightarrow> string \<Rightarrow> bool \<Rightarrow> nat \<Rightarrow> string \<Rightarrow> nat \<Rightarrow> int option \<Rightarrow>
     json list \<Rightarrow> http_state \<Rightarrow> 'w \<Rightarrow> (adapter_error + json list \<times> bool \<times> int option) \<times> http_state \<times> 'w"
where
  "ha_pages T W A method body context lookup pages current biggest status raw S w =
     (case ha_request T W A (ha_page_url W A pages current) method body context 0 S w of
        (Inl e, S1, w1) \<Rightarrow> (Inl e, S1, w1)
      | (Inr r, S1, w1) \<Rightarrow>
          (let first = (case status of None \<Rightarrow> Some (cr_status r) | Some x \<Rightarrow> Some x)
           in case ha_page W A context lookup pages current biggest r of
                Inl e \<Rightarrow> (Inl e, S1, w1)
              | Inr (records, None) \<Rightarrow> (Inr (raw @ records, False, first), S1, w1)
              | Inr (records, Some next_url) \<Rightarrow>
                  if ha_max_pages A \<le> pages + 1 then (Inr (raw @ records, True, first), S1, w1)
                  else ha_pages T W A method body context lookup (pages + 1) next_url
                    (max biggest (length records)) first (raw @ records) S1 w1))"
  by pat_completeness auto

termination ha_pages
  by (relation "measure (\<lambda>(T, W, A, method, body, context, lookup, pages, current, biggest, status, raw, S, w).
      ha_max_pages A - pages)") auto

declare ha_pages.simps [simp del]

fun all_readbacks :: "(rat \<Rightarrow> string) \<Rightarrow> (string \<times> string) list \<Rightarrow> json list \<Rightarrow> adapter_error + readback list" where
  "all_readbacks fl fm [] = Inr []"
| "all_readbacks fl fm (j # js) =
     (case readback_from_json fl fm j of
        Inl e \<Rightarrow> Inl e
      | Inr r \<Rightarrow> (case all_readbacks fl fm js of Inl e \<Rightarrow> Inl e | Inr rs \<Rightarrow> Inr (r # rs)))"

definition ha_collect ::
  "'w timing \<Rightarrow> 'w web \<Rightarrow> http_adapter \<Rightarrow> string \<Rightarrow> string \<Rightarrow> bytes \<Rightarrow> string \<Rightarrow> bool \<Rightarrow> http_state \<Rightarrow> 'w \<Rightarrow>
     (adapter_error + fetch_result) \<times> http_state \<times> 'w"
where
  "ha_collect T W A url method body context lookup S w =
     (case ha_pages T W A method body context lookup 0 url 0 None [] S w of
        (Inl e, S1, w1) \<Rightarrow> (Inl e, S1, w1)
      | (Inr (raw, stopped, status), S1, w1) \<Rightarrow>
          (case all_readbacks (wb_float W) (ha_field_map A) raw of
             Inl e \<Rightarrow> (Inl e, S1, w1)
           | Inr rs \<Rightarrow> (Inr \<lparr>fr_items = rs, fr_partial = stopped, fr_status = status\<rparr>, S1, w1)))"

section \<open>The adapter contract\<close>

definition ha_fetch ::
  "'w timing \<Rightarrow> 'w web \<Rightarrow> http_adapter \<Rightarrow> string \<Rightarrow> http_state \<Rightarrow> 'w \<Rightarrow> (adapter_error + fetch_result) \<times> http_state \<times> 'w"
where
  "ha_fetch T W A tag S w =
     (case ha_lookup W A tag of (url, method, body) \<Rightarrow> ha_collect T W A url method body (''tag '' @ repr_str tag) True S w)"

definition ha_list_all ::
  "'w timing \<Rightarrow> 'w web \<Rightarrow> http_adapter \<Rightarrow> http_state \<Rightarrow> 'w \<Rightarrow> (adapter_error + fetch_result) \<times> http_state \<times> 'w"
where
  "ha_list_all T W A S w =
     (if \<not> ha_can_enumerate A then (Inl (CannotList (ha_enumerate A)), S, w)
      else ha_collect T W A (ha_list_url A) ''GET'' [] ''the full record list'' False S w)"

text \<open>The checks of \<open>preflight\<close>, one after the other.\<close>

definition ha_probe_ok ::
  "'w web \<Rightarrow> http_adapter \<Rightarrow> string \<Rightarrow> string \<Rightarrow> bool \<Rightarrow> client_response \<Rightarrow> adapter_error + unit"
where
  "ha_probe_ok W A url what lookup r =
     (if cr_status r = 401 \<or> cr_status r = 403 then Inl (RefusedCredentials (cr_status r))
      else if cr_status r = 404 then (if lookup then Inr () else Inl (ListUrl404 url))
      else if \<not> (200 \<le> cr_status r \<and> cr_status r < 300) then Inl (BadStatus what (cr_status r))
      else (case ha_decode W r what of
          Inl e \<Rightarrow> Inl e
        | Inr payload \<Rightarrow>
            (case ha_records W A payload of
               Inl e \<Rightarrow> Inl e
             | Inr records \<Rightarrow>
                 (case all_readbacks (wb_float W) (ha_field_map A) (take 5 records) of Inl e \<Rightarrow> Inl e | Inr _ \<Rightarrow> Inr ()))))"

fun ha_checks ::
  "'w timing \<Rightarrow> 'w web \<Rightarrow> http_adapter \<Rightarrow> ((string \<times> string \<times> bytes) \<times> string \<times> bool) list \<Rightarrow> http_state \<Rightarrow> 'w \<Rightarrow>
     (adapter_error + unit) \<times> http_state \<times> 'w"
where
  "ha_checks T W A [] S w = (Inr (), S, w)"
| "ha_checks T W A (((url, method, body), what, lookup) # checks) S w =
     (case ha_request T W A url method body what 0 S w of
        (Inl e, S1, w1) \<Rightarrow> (Inl e, S1, w1)
      | (Inr r, S1, w1) \<Rightarrow>
          (case ha_probe_ok W A url what lookup r of
             Inl e \<Rightarrow> (Inl e, S1, w1) | Inr _ \<Rightarrow> ha_checks T W A checks S1 w1))"

definition ha_preflight ::
  "'w timing \<Rightarrow> 'w web \<Rightarrow> http_adapter \<Rightarrow> http_state \<Rightarrow> 'w \<Rightarrow> (adapter_error + unit) \<times> http_state \<times> 'w"
where
  "ha_preflight T W A S w =
     ha_checks T W A ((ha_lookup W A PREFLIGHT_TAG, ''a preflight lookup'', True) #
       (if ha_can_enumerate A then [((ha_list_url A, ''GET'', []), ''the list url'', False)] else [])) S w"

end
