(* ===== verification/Http_Limits.thy ===== *)
theory Http_Limits
  imports Http_Adapter
begin

text \<open>What the http adapter keeps to while it runs: the hosts it was configured with, its rate, the
  deadline and a bound on requests; and that an answer rests on responses that said so. The
  requests of a run are read off a world that records them (\<open>log_web\<close>).\<close>

section \<open>A world that records the requests\<close>

type_synonym 'w logged = "'w \<times> (prepared_request \<times> seconds) list"

definition log_timing :: "'w timing \<Rightarrow> 'w logged timing" where
  "log_timing T = \<lparr>read_clock = (\<lambda>(w, l). case read_clock T w of (t, w') \<Rightarrow> (t, w', l)),
     do_sleep = (\<lambda>s (w, l). (do_sleep T s w, l))\<rparr>"

definition log_web :: "('w \<Rightarrow> seconds) \<Rightarrow> 'w web \<Rightarrow> 'w logged web" where
  "log_web now W = \<lparr>wb_urls = wb_urls W, wb_net = wb_net W, wb_loads = wb_loads W, wb_utf8 = wb_utf8 W,
     wb_float = wb_float W, wb_http_date = wb_http_date W,
     wb_uniform = (\<lambda>h (w, l). case wb_uniform W h w of (x, w') \<Rightarrow> (x, w', l)),
     wb_wall = (\<lambda>(w, l). case wb_wall W w of (x, w') \<Rightarrow> (x, w', l)),
     wb_send = (\<lambda>rq (w, l). case wb_send W rq w of (r, w') \<Rightarrow> (r, w', l @ [(rq, now w)]))\<rparr>"

lemma log_web_simps [simp]:
  "wb_urls (log_web now W) = wb_urls W" "wb_net (log_web now W) = wb_net W"
  "wb_uniform (log_web now W) h (w, l) = (case wb_uniform W h w of (x, w') \<Rightarrow> (x, w', l))"
  "wb_wall (log_web now W) (w, l) = (case wb_wall W w of (x, w') \<Rightarrow> (x, w', l))"
  "wb_send (log_web now W) rq (w, l) = (case wb_send W rq w of (r, w') \<Rightarrow> (r, w', l @ [(rq, now w)]))"
  "wb_http_date (log_web now W) = wb_http_date W"
  "read_clock (log_timing T) (w, l) = (case read_clock T w of (t, w') \<Rightarrow> (t, w', l))"
  "do_sleep (log_timing T) s (w, l) = (do_sleep T s w, l)"
  by (simp_all add: log_web_def log_timing_def)

section \<open>What every run keeps\<close>

text \<open>The interface between one pass of the request loop and everything built on it: an invariant of
  the adapter's state and the world that a pass over an allowed url and a wait between passes keep.\<close>

locale http_keeps =
  fixes T :: "'w timing" and W :: "'w web" and A :: http_adapter
    and Inv :: "http_state \<Rightarrow> 'w \<Rightarrow> bool" and ok :: "string \<Rightarrow> bool"
  assumes try_keeps: "ok url \<Longrightarrow> Inv S w \<Longrightarrow> ha_try T W A url m b c S w = (r, S1, w1) \<Longrightarrow> Inv S1 w1"
    and wait_keeps: "Inv S w \<Longrightarrow> ha_wait T W A c n f a S w = (q, S1, w1) \<Longrightarrow> Inv S1 w1"
    and ok_page: "ok u \<Longrightarrow> ok (ha_page_url W A k u)"
    and ok_follow: "ha_follow W A u p = Inr v \<Longrightarrow> ok v"
    and ok_lookup: "ok (fst (ha_lookup W A tag))"
    and ok_list: "ok (ha_list_url A)"
begin

lemma request_keeps:
  assumes "ok url"
  shows "Inv S w \<Longrightarrow> ha_request T W A url m b c n S w = (r, S1, w1) \<Longrightarrow> Inv S1 w1"
proof (induction "ha_retry_max A - n" arbitrary: n S w rule: less_induct)
  case less
  obtain t S2 w2 where t: "ha_try T W A url m b c S w = (t, S2, w2)" by (metis prod_cases3)
  note k = try_keeps [OF assms less.prems(1) t]
  show ?case
  proof (cases t)
    case (Failed failure after)
    obtain q S3 w3 where q: "ha_wait T W A c n failure after S2 w2 = (q, S3, w3)" by (metis prod_cases3)
    note k3 = wait_keeps [OF k q]
    show ?thesis
    proof (cases q)
      case (Inl e)
      then show ?thesis using less.prems(2) k3 by (simp add: ha_request.simps t Failed q)
    next
      case (Inr u)
      then have "n < ha_retry_max A" using ha_wait_again q by metis
      then have "ha_retry_max A - (n + 1) < ha_retry_max A - n" by simp
      then show ?thesis
        using less.hyps [OF _ k3] less.prems(2) Inr by (simp add: ha_request.simps [of _ _ _ _ _ _ _ n] t Failed q)
    qed
  qed (use less.prems(2) k in \<open>simp_all add: ha_request.simps t\<close>)
qed

lemma next_ok:
  assumes "ha_page W A c lookup k u biggest r = Inr (records, Some v)" "ok u" shows "ok v"
  using assms ok_follow
  by (auto simp: ha_page_def ha_next_url_def split: if_splits sum.splits dug.splits json.splits)

lemma pages_keeps:
  "ok u \<Longrightarrow> Inv S w \<Longrightarrow> ha_pages T W A m b c lookup k u biggest status raw S w = (r, S1, w1) \<Longrightarrow> Inv S1 w1"
proof (induction "ha_max_pages A - k" arbitrary: k u biggest status raw S w rule: less_induct)
  case less
  obtain q S2 w2 where q: "ha_request T W A (ha_page_url W A k u) m b c 0 S w = (q, S2, w2)" by (metis prod_cases3)
  note k2 = request_keeps [OF ok_page [OF less.prems(1)] less.prems(2) q]
  show ?case
  proof (cases q)
    case (Inl e)
    then show ?thesis using less.prems(3) k2 by (simp add: ha_pages.simps q)
  next
    case (Inr resp)
    show ?thesis
    proof (cases "ha_page W A c lookup k u biggest resp")
      case (Inl e)
      then show ?thesis using less.prems(3) k2 Inr by (simp add: ha_pages.simps q Let_def)
    next
      case (Inr rn)
      obtain records nx where rn: "rn = (records, nx)" by (cases rn)
      show ?thesis
      proof (cases "nx = None \<or> ha_max_pages A \<le> k + 1")
        case True
        then show ?thesis using less.prems(3) k2 \<open>q = Inr resp\<close> Inr rn
          by (cases nx) (auto simp: ha_pages.simps [of _ _ _ _ _ _ _ k] q Let_def)
      next
        case False
        then obtain v where v: "nx = Some v" by auto
        note okv = next_ok [OF Inr [unfolded rn v] less.prems(1)]
        have "ha_max_pages A - (k + 1) < ha_max_pages A - k" using False by (simp, arith)
        then show ?thesis
          using less.hyps [OF _ okv k2] less.prems(3) \<open>q = Inr resp\<close> Inr rn v False
          by (simp add: ha_pages.simps [of _ _ _ _ _ _ _ k] q Let_def)
      qed
    qed
  qed
qed

lemma collect_keeps:
  assumes "ok u" "Inv S w" "ha_collect T W A u m b c lookup S w = (r, S1, w1)" shows "Inv S1 w1"
proof -
  obtain q S2 w2 where q: "ha_pages T W A m b c lookup 0 u 0 None [] S w = (q, S2, w2)" by (metis prod_cases3)
  show ?thesis using assms(3) pages_keeps [OF assms(1,2) q]
    by (auto simp: ha_collect_def q split: sum.splits prod.splits)
qed

lemma fetch_keeps:
  assumes "Inv S w" "ha_fetch T W A tag S w = (r, S1, w1)" shows "Inv S1 w1"
proof -
  obtain url m b where l: "ha_lookup W A tag = (url, m, b)" by (metis prod_cases3)
  then have "ok url" using ok_lookup [of tag] by simp
  then show ?thesis using collect_keeps [OF _ assms(1)] assms(2) by (simp add: ha_fetch_def l)
qed

lemma list_all_keeps: "Inv S w \<Longrightarrow> ha_list_all T W A S w = (r, S1, w1) \<Longrightarrow> Inv S1 w1"
  using collect_keeps [OF ok_list] by (auto simp: ha_list_all_def split: if_splits)

lemma checks_keep:
  "\<forall>x \<in> set xs. ok (fst (fst x)) \<Longrightarrow> Inv S w \<Longrightarrow> ha_checks T W A xs S w = (r, S1, w1) \<Longrightarrow> Inv S1 w1"
proof (induction xs arbitrary: S w)
  case (Cons x xs)
  obtain url m b what lookup where x: "x = ((url, m, b), what, lookup)" by (metis prod_cases3)
  obtain q S2 w2 where q: "ha_request T W A url m b what 0 S w = (q, S2, w2)" by (metis prod_cases3)
  have k2: "Inv S2 w2" using request_keeps [OF _ Cons.prems(2) q] Cons.prems(1) x by simp
  show ?case using Cons.prems(1,3) Cons.IH [OF _ k2] k2
    by (auto simp: x q split: sum.splits)
qed simp

lemma preflight_keeps: "Inv S w \<Longrightarrow> ha_preflight T W A S w = (r, S1, w1) \<Longrightarrow> Inv S1 w1"
  unfolding ha_preflight_def by (rule checks_keep) (auto simp: ok_lookup ok_list)

end

section \<open>Only configured hosts\<close>

text \<open>\<open>urlunsplit\<close> of the parts of a url with another query has the scheme and the host of the url.\<close>

definition keeps_origin :: "urls \<Rightarrow> bool" where
  "keeps_origin U \<longleftrightarrow> (\<forall>u q. case ul_split U u of (s, n, p, q0, f) \<Rightarrow>
     fst (ul_split U (ul_unsplit U (s, n, p, q, f))) = s \<and> fst (snd (ul_split U (ul_unsplit U (s, n, p, q, f)))) = n)"

lemma origin_with_params: "keeps_origin U \<Longrightarrow> origin_of U (with_params U u ps ds) = origin_of U u"
proof -
  assume k: "keeps_origin U"
  obtain s n p q f where u: "ul_split U u = (s, n, p, q, f)" by (metis prod_cases5)
  define q' where "q' = ul_encode U (filter (\<lambda>(k, v). k \<notin> set (map fst ps @ ds)) (ul_parse_qsl U q) @ ps)"
  have "case ul_split U u of (s, n, p, q0, f) \<Rightarrow> fst (ul_split U (ul_unsplit U (s, n, p, q', f))) = s \<and>
      fst (snd (ul_split U (ul_unsplit U (s, n, p, q', f)))) = n"
    by (rule spec [OF spec [OF k [unfolded keeps_origin_def], of u], of q'])
  then show ?thesis
    unfolding origin_of_def with_params_def Let_def u prod.case q'_def [symmetric] by (simp add: u case_prod_beta)
qed

definition home :: "urls \<Rightarrow> http_adapter \<Rightarrow> string \<Rightarrow> bool" where
  "home U A u \<longleftrightarrow> origin_of U u = origin_of U (ha_url A) \<or> origin_of U u = origin_of U (ha_list_url A)"

text \<open>What each request of a run has.\<close>

definition sent_home :: "urls \<Rightarrow> http_adapter \<Rightarrow> prepared_request \<Rightarrow> bool" where
  "sent_home U A rq \<longleftrightarrow> home U A (pr_url rq) \<and>
     (pr_headers rq = ha_headers A \<or> pr_headers rq = ha_headers A @ [(''Content-Type'', ''application/json'')])"

lemma pace_log:
  assumes "ha_pace (log_timing T) A c S (w, l) = (r, S1, (w1, l1))" shows "l1 = l"
  using assms
  by (auto simp: ha_pace_def ha_remaining_def Let_def split: option.splits prod.splits if_splits)

lemma remaining_log: "ha_remaining (log_timing T) S (w, l) = (r, (w1, l1)) \<Longrightarrow> l1 = l"
  by (auto simp: ha_remaining_def split: option.splits prod.splits)

lemma retry_after_log: "retry_after_seconds (log_web now W) r (w, l) = (x, (w1, l1)) \<Longrightarrow> l1 = l"
  by (auto simp: retry_after_seconds_def Let_def split: option.splits prod.splits if_splits)

text \<open>A pass either sends nothing or paces and sends one request to its url.\<close>

lemma try_log:
  assumes "ha_try (log_timing T) (log_web now W) A url m b c S (w, l) = (r, S1, (w1, l1))"
  obtains "l1 = l" | rq w0 where "l1 = l @ [(rq, now w0)]" "pr_url rq = url" "pr_headers rq = request_headers A b"
proof -
  obtain left wa la where a: "ha_remaining (log_timing T) S (w, l) = (left, (wa, la))" by (metis surj_pair)
  note la = remaining_log [OF a]
  note a = a [unfolded la]
  show thesis
  proof (cases "case left of Some l \<Rightarrow> l \<le> 0 | None \<Rightarrow> False")
    case True
    then show thesis using assms that(1) by (simp add: ha_try_def a)
  next
    case False
    obtain p Sb wb lb where p: "ha_pace (log_timing T) A c S (wa, l) = (p, Sb, (wb, lb))" by (metis surj_pair)
    note lb = pace_log [OF p]
    note p = p [unfolded lb]
    show thesis
    proof (cases p)
      case (Inl e)
      then show thesis using assms that(1) False by (simp add: ha_try_def a p)
    next
      case (Inr u)
      obtain left2 wc lc where c: "ha_remaining (log_timing T) Sb (wb, l) = (left2, (wc, lc))" by (metis surj_pair)
      note lc = remaining_log [OF c]
      note c = c [unfolded lc]
      define rq where "rq = \<lparr>pr_url = url, pr_method = m, pr_headers = request_headers A b, pr_body = b,
        pr_timeout = (case left2 of Some l \<Rightarrow> max (5 / 100) (min (ha_timeout A) l) | None \<Rightarrow> ha_timeout A)\<rparr>"
      obtain q wd where q: "wb_send W rq wc = (q, wd)" by (metis surj_pair)
      have "l1 = l @ [(rq, now wc)]"
        using assms False Inr retry_after_log [of now W]
        by (auto simp: ha_try_def a p c Let_def rq_def [symmetric] q split: sum.splits if_splits prod.splits)
      then show thesis by (rule that(2)) (simp_all add: rq_def)
    qed
  qed
qed

lemma wait_log:
  assumes "ha_wait (log_timing T) (log_web now W) A c n f a S (w, l) = (r, S1, (w1, l1))" shows "l1 = l"
  using assms
  by (auto simp: ha_wait_def ha_backoff_def ha_remaining_def Let_def split: option.splits prod.splits if_splits)

lemma page_home:
  assumes "keeps_origin (wb_urls W)" "home (wb_urls W) A u" shows "home (wb_urls W) A (ha_page_url (log_web now W) A k u)"
  using assms origin_with_params [OF assms(1)] by (auto simp: home_def ha_page_url_def)

lemma lookup_home:
  assumes "keeps_origin (wb_urls W)" shows "home (wb_urls W) A (fst (ha_lookup (log_web now W) A tag))"
  using origin_with_params [OF assms] by (auto simp: home_def ha_lookup_def Let_def)

interpretation at_home: http_keeps "log_timing T" "log_web now W" A
  "\<lambda>S w. keeps_origin (wb_urls W) \<longrightarrow> (\<forall>(rq, t) \<in> set (snd w). sent_home (wb_urls W) A rq)"
  "\<lambda>u. keeps_origin (wb_urls W) \<longrightarrow> home (wb_urls W) A u" for T now W A
proof
  fix url S w m b c r S1 w1
  assume u: "keeps_origin (wb_urls W) \<longrightarrow> home (wb_urls W) A url"
    and i: "keeps_origin (wb_urls W) \<longrightarrow> (\<forall>(rq, t) \<in> set (snd w). sent_home (wb_urls W) A rq)"
    and t: "ha_try (log_timing T) (log_web now W) A url m b c S w = (r, S1, w1)"
  have "ha_try (log_timing T) (log_web now W) A url m b c S (fst w, snd w) = (r, S1, (fst w1, snd w1))" using t by simp
  then show "keeps_origin (wb_urls W) \<longrightarrow> (\<forall>(rq, t) \<in> set (snd w1). sent_home (wb_urls W) A rq)"
    by (rule try_log) (use i u in \<open>auto simp: sent_home_def request_headers_def\<close>)
next
  fix S w c n f a q S1 w1
  assume i: "keeps_origin (wb_urls W) \<longrightarrow> (\<forall>(rq, t) \<in> set (snd w). sent_home (wb_urls W) A rq)"
    and t: "ha_wait (log_timing T) (log_web now W) A c n f a S w = (q, S1, w1)"
  have "ha_wait (log_timing T) (log_web now W) A c n f a S (fst w, snd w) = (q, S1, (fst w1, snd w1))" using t by simp
  from wait_log [OF this] i show "keeps_origin (wb_urls W) \<longrightarrow> (\<forall>(rq, t) \<in> set (snd w1). sent_home (wb_urls W) A rq)"
    by simp
next
  fix u k assume "keeps_origin (wb_urls W) \<longrightarrow> home (wb_urls W) A u"
  then show "keeps_origin (wb_urls W) \<longrightarrow> home (wb_urls W) A (ha_page_url (log_web now W) A k u)"
    using page_home by blast
next
  fix u p v assume "ha_follow (log_web now W) A u p = Inr v"
  then show "keeps_origin (wb_urls W) \<longrightarrow> home (wb_urls W) A v"
    by (auto simp: ha_follow_def Let_def home_def require_readback_target_def split: if_splits sum.splits)
next
  fix tag show "keeps_origin (wb_urls W) \<longrightarrow> home (wb_urls W) A (fst (ha_lookup (log_web now W) A tag))"
    using lookup_home by blast
next
  show "keeps_origin (wb_urls W) \<longrightarrow> home (wb_urls W) A (ha_list_url A)" by (simp add: home_def)
qed

text \<open>Both urls of an adapter that was built have the origin of a url that passed the guard.\<close>

lemma built_guarded:
  assumes "new_http_adapter U N A0 = Inr A" "keeps_origin U" "home U A u"
  shows "\<exists>g. origin_of U u = origin_of U g \<and> require_readback_target N (ha_allow_public A0) g = Inr g"
proof -
  define B where "B = A0\<lparr>ha_field_map := (if ha_field_map A0 = [] then DEFAULT_FIELD_MAP else ha_field_map A0),
     ha_method := map upper_char (if ha_method A0 = [] then DEFAULT_METHOD else ha_method A0),
     ha_max_pages := max 1 (ha_max_pages A0),
     ha_rate := (case ha_rate A0 of Some q \<Rightarrow> if 0 < q then Some q else None | None \<Rightarrow> None)\<rparr>"
  have g: "require_readback_target N p x = Inr y \<Longrightarrow> y = x" for p x y
    by (auto simp: require_readback_target_def split: if_splits sum.splits)
  have ne: "ha_url A0 \<noteq> []" using assms(1) by (cases "ha_url A0 = []") (simp_all add: new_http_adapter_def)
  obtain x where r: "require_readback_target N (ha_allow_public A0) (ha_url A0) = Inr x"
    using assms(1) ne by (cases "require_readback_target N (ha_allow_public A0) (ha_url A0)") (simp_all add: new_http_adapter_def)
  have "(case build_list_url U N B of Inl e \<Rightarrow> Inl e | Inr l \<Rightarrow> Inr (B\<lparr>ha_list_url := l\<rparr>)) = Inr A"
    using assms(1) unfolding new_http_adapter_def if_not_P [OF ne] r sum.case Let_def B_def [symmetric] .
  then obtain l where l: "require_readback_target N (ha_allow_public A0) (ha_url A0) = Inr (ha_url A0)"
    "build_list_url U N B = Inr l" "A = B\<lparr>ha_list_url := l\<rparr>"
    using r g [OF r] by (auto split: sum.splits)
  have urls: "ha_url A = ha_url A0" "ha_list_url A = l" "ha_url B = ha_url A0" "ha_allow_public B = ha_allow_public A0"
    by (simp_all add: l(3) B_def)
  have "origin_of U l = origin_of U (ha_url A0) \<or> require_readback_target N (ha_allow_public A0) l = Inr l"
    using l(2) g origin_with_params [OF assms(2)] by (auto simp: build_list_url_def Let_def urls split: if_splits)
  then show ?thesis using assms(3) l(1) by (auto simp: home_def urls)
qed


section \<open>The rate, the deadline and the number of requests\<close>

text \<open>A clock that takes no time to read and a sleep that lasts as long as asked.\<close>

definition exact :: "'w timing \<Rightarrow> ('w \<Rightarrow> seconds) \<Rightarrow> bool" where
  "exact T now \<longleftrightarrow> (\<forall>w. read_clock T w = (now w, w)) \<and> (\<forall>s w. 0 \<le> s \<longrightarrow> now (do_sleep T s w) = now w + s)"

lemma exact_additive: "exact additive (\<lambda>t. t)"
  by (simp add: exact_def additive_def)

lemma pace_exact:
  assumes T: "exact T now" and q: "ha_rate A = Some q"
    and p: "ha_pace (log_timing T) A c S (w, l) = (r, S1, (w1, l1))"
    and d: "\<forall>d. hs_deadline S = Some d \<longrightarrow> now w < d"
  shows "l1 = l" "r = Inl e \<Longrightarrow> S1 = S"
    "r = Inr u \<Longrightarrow> S1 = S\<lparr>hs_next_slot := Some (now w1 + 1 / q)\<rparr>"
    "r = Inr u \<Longrightarrow> hs_next_slot S = Some s \<Longrightarrow> s \<le> now w1"
    "r = Inr u \<Longrightarrow> hs_deadline S = Some dl \<Longrightarrow> now w1 < dl"
proof -
  have clock: "read_clock T w = (now w, w)" for w using T by (simp add: exact_def)
  have sleep: "0 \<le> s \<Longrightarrow> now (do_sleep T s w) = now w + s" for s w using T by (simp add: exact_def)
  let ?waits = "case hs_next_slot S of Some slot \<Rightarrow> now w < slot | None \<Rightarrow> False"
  have all: "l1 = l \<and> (\<forall>e. r = Inl e \<longrightarrow> S1 = S) \<and> (\<forall>u. r = Inr u \<longrightarrow>
      S1 = S\<lparr>hs_next_slot := Some (now w1 + 1 / q)\<rparr> \<and> (\<forall>s. hs_next_slot S = Some s \<longrightarrow> s \<le> now w1) \<and>
      (\<forall>dl. hs_deadline S = Some dl \<longrightarrow> now w1 < dl))"
  proof (cases ?waits)
    case True
    then obtain s where s: "hs_next_slot S = Some s" "now w < s" by (auto split: option.splits)
    then have asleep: "now (do_sleep T (s - now w) w) = s" by (simp add: sleep)
    show ?thesis
    proof (cases "\<exists>dl. hs_deadline S = Some dl \<and> dl - now w \<le> s - now w")
      case True
      then show ?thesis using p s by (auto simp: ha_pace_def q clock ha_remaining_def)
    next
      case False
      then have "ha_pace (log_timing T) A c S (w, l) =
          (Inr (), take_slot q s S, (do_sleep T (s - now w) w, l))"
        using s asleep by (auto simp: ha_pace_def q clock ha_remaining_def split: option.splits)
      then show ?thesis
        using p s asleep False by (auto simp: take_slot_def slot_or_def)
    qed
  next
    case False
    then have "ha_pace (log_timing T) A c S (w, l) = (Inr (), take_slot q (now w) S, (w, l))"
      by (simp add: ha_pace_def q clock)
    then show ?thesis using p False d by (auto simp: take_slot_def slot_or_def split: option.splits)
  qed
  then show "l1 = l" by blast
  from all show "r = Inl e \<Longrightarrow> S1 = S" by blast
  from all show "r = Inr u \<Longrightarrow> S1 = S\<lparr>hs_next_slot := Some (now w1 + 1 / q)\<rparr>" by blast
  from all show "r = Inr u \<Longrightarrow> hs_next_slot S = Some s \<Longrightarrow> s \<le> now w1" by blast
  from all show "r = Inr u \<Longrightarrow> hs_deadline S = Some dl \<Longrightarrow> now w1 < dl" by blast
qed

text \<open>What is known of a log that began empty at the state \<open>S0\<close>.\<close>

definition paced :: "rat \<Rightarrow> http_state \<Rightarrow> http_state \<Rightarrow> (prepared_request \<times> seconds) list \<Rightarrow> bool" where
  "paced q S0 S l \<longleftrightarrow>
     hs_deadline S = hs_deadline S0 \<and> hs_requests S = hs_requests S0 + length l \<and>
     successively (\<lambda>s t. s + 1 / q \<le> t) (map snd l) \<and>
     (\<forall>(rq, t) \<in> set l. (\<forall>d. hs_deadline S0 = Some d \<longrightarrow> t < d) \<and> (\<forall>s. hs_next_slot S0 = Some s \<longrightarrow> s \<le> t)) \<and>
     (if l = [] then hs_next_slot S = hs_next_slot S0
      else \<exists>s. hs_next_slot S = Some s \<and> snd (last l) + 1 / q \<le> s)"

lemma paced_send:
  assumes "paced q S0 S l" "0 < q" "\<forall>s. hs_next_slot S = Some s \<longrightarrow> s \<le> t" "\<forall>d. hs_deadline S = Some d \<longrightarrow> t < d"
  shows "paced q S0 (S\<lparr>hs_next_slot := Some (t + 1 / q), hs_requests := hs_requests S + 1\<rparr>) (l @ [(rq, t)])"
proof (cases "l = []")
  case True
  then show ?thesis using assms by (auto simp: paced_def)
next
  case False
  obtain s where s: "hs_next_slot S = Some s" "snd (last l) + 1 / q \<le> s" using assms(1) False by (auto simp: paced_def)
  then have late: "snd (last l) + 1 / q \<le> t" using assms(3) by force
  have lower: "s0 \<le> t" if "hs_next_slot S0 = Some s0" for s0
  proof -
    have "last l \<in> set l" using False by simp
    then have "s0 \<le> snd (last l)" using assms(1) that by (auto simp: paced_def split: prod.splits) (metis prod.collapse)
    moreover have "0 < 1 / q" using assms(2) by simp
    ultimately show ?thesis using late by linarith
  qed
  have "successively (\<lambda>s t. s + 1 / q \<le> t) (map snd l @ [t])"
    using assms(1) False late by (auto simp: paced_def successively_append_iff last_map)
  then show ?thesis using assms(1,4) False lower by (auto simp: paced_def)
qed

lemma try_paced:
  assumes T: "exact T now" and q: "ha_rate A = Some q" "0 < q" and i: "paced q S0 S l"
    and t: "ha_try (log_timing T) (log_web now W) A url m b c S (w, l) = (r, S1, (w1, l1))"
  shows "paced q S0 S1 l1"
proof -
  have clock: "read_clock T w = (now w, w)" for w using T by (simp add: exact_def)
  have rem: "ha_remaining (log_timing T) S (w, l) = (map_option (\<lambda>d. d - now w) (hs_deadline S), (w, l))" for S w l
    by (simp add: ha_remaining_def clock split: option.splits)
  show ?thesis
  proof (cases "\<exists>d. hs_deadline S = Some d \<and> d - now w \<le> 0")
    case True
    then show ?thesis using t i by (auto simp: ha_try_def rem)
  next
    case False
    then have early: "\<forall>d. hs_deadline S = Some d \<longrightarrow> now w < d" by (auto simp: not_le)
    obtain left where first: "ha_remaining (log_timing T) S (w, l) = (left, (w, l))"
      and go: "(case left of Some x \<Rightarrow> x \<le> 0 | None \<Rightarrow> False) = False"
      using False by (auto simp: rem split: option.splits)
    obtain p Sb wb lb where p: "ha_pace (log_timing T) A c S (w, l) = (p, Sb, (wb, lb))" by (metis surj_pair)
    note e = pace_exact [OF T q(1) p early]
    note p = p [unfolded e(1)]
    show ?thesis
    proof (cases p)
      case (Inl err)
      then show ?thesis using t i e(2) by (simp add: ha_try_def first go p)
    next
      case (Inr u)
      obtain left2 where second: "ha_remaining (log_timing T) Sb (wb, l) = (left2, (wb, l))" by (simp add: rem)
      define rq where "rq = \<lparr>pr_url = url, pr_method = m, pr_headers = request_headers A b, pr_body = b,
        pr_timeout = (case left2 of Some l \<Rightarrow> max (5 / 100) (min (ha_timeout A) l) | None \<Rightarrow> ha_timeout A)\<rparr>"
      have "S1 = Sb\<lparr>hs_requests := hs_requests Sb + 1\<rparr>" "l1 = l @ [(rq, now wb)]"
        using t Inr retry_after_log [of now W]
        by (auto simp: ha_try_def first go p second Let_def rq_def [symmetric] split: sum.splits if_splits prod.splits)
      moreover have "Sb = S\<lparr>hs_next_slot := Some (now wb + 1 / q)\<rparr>" using e(3) Inr by simp
      ultimately have "S1 = S\<lparr>hs_next_slot := Some (now wb + 1 / q), hs_requests := hs_requests S + 1\<rparr>"
        "l1 = l @ [(rq, now wb)]" by simp_all
      then show ?thesis using paced_send [OF i q(2), of "now wb" rq] e(4,5) Inr by simp
    qed
  qed
qed

lemma wait_state:
  assumes "ha_wait T W A c n f a S w = (q, S1, w1)" shows "S1 = S \<or> S1 = S\<lparr>hs_retries := hs_retries S + 1\<rparr>"
  using assms by (auto simp: ha_wait_def split: if_splits prod.splits)

interpretation on_time: http_keeps "log_timing T" "log_web now W" A
  "\<lambda>S w. exact T now \<and> ha_rate A = Some q \<and> 0 < q \<longrightarrow> paced q S0 S (snd w)" "\<lambda>u. True" for T now W A q S0
proof
  fix url S w m b c r S1 w1
  assume i: "exact T now \<and> ha_rate A = Some q \<and> 0 < q \<longrightarrow> paced q S0 S (snd w)"
    and t: "ha_try (log_timing T) (log_web now W) A url m b c S w = (r, S1, w1)"
  have "ha_try (log_timing T) (log_web now W) A url m b c S (fst w, snd w) = (r, S1, (fst w1, snd w1))" using t by simp
  then show "exact T now \<and> ha_rate A = Some q \<and> 0 < q \<longrightarrow> paced q S0 S1 (snd w1)"
    using i try_paced [of T now A q S0 S "snd w" W url m b c "fst w" r S1 "fst w1" "snd w1"] by blast
next
  fix S w c n f a r S1 w1
  assume i: "exact T now \<and> ha_rate A = Some q \<and> 0 < q \<longrightarrow> paced q S0 S (snd w)"
    and t: "ha_wait (log_timing T) (log_web now W) A c n f a S w = (r, S1, w1)"
  have "ha_wait (log_timing T) (log_web now W) A c n f a S (fst w, snd w) = (r, S1, (fst w1, snd w1))" using t by simp
  from wait_log [OF this] wait_state [OF t] i
  show "exact T now \<and> ha_rate A = Some q \<and> 0 < q \<longrightarrow> paced q S0 S1 (snd w1)" by (auto simp: paced_def)
qed simp_all

lemma pace_count: "ha_pace T A c S w = (r, S1, w1) \<Longrightarrow> hs_requests S1 = hs_requests S"
  by (auto simp: ha_pace_def Let_def take_slot_def split: option.splits prod.splits if_splits)

lemma try_count: "ha_try T W A url m b c S w = (r, S1, w1) \<Longrightarrow> hs_requests S1 \<le> hs_requests S + 1"
  by (auto simp: ha_try_def Let_def dest!: pace_count split: prod.splits sum.splits if_splits)

lemma request_count:
  "ha_request T W A url m b c n S w = (r, S1, w1) \<Longrightarrow> n \<le> ha_retry_max A \<Longrightarrow>
     hs_requests S1 \<le> hs_requests S + (ha_retry_max A + 1 - n)"
proof (induction "ha_retry_max A - n" arbitrary: n S w rule: less_induct)
  case less
  obtain t S2 w2 where t: "ha_try T W A url m b c S w = (t, S2, w2)" by (metis prod_cases3)
  note c2 = try_count [OF t]
  show ?case
  proof (cases t)
    case (Failed failure after)
    obtain q S3 w3 where q: "ha_wait T W A c n failure after S2 w2 = (q, S3, w3)" by (metis prod_cases3)
    have c3: "hs_requests S3 = hs_requests S2" using wait_state [OF q] by auto
    show ?thesis
    proof (cases q)
      case (Inl e)
      then show ?thesis using less.prems c2 c3 by (simp add: ha_request.simps t Failed q)
    next
      case (Inr u)
      then have n: "n < ha_retry_max A" using ha_wait_again q by metis
      then have "ha_retry_max A - (n + 1) < ha_retry_max A - n" by simp
      then have "hs_requests S1 \<le> hs_requests S3 + (ha_retry_max A + 1 - (n + 1))"
        using less.hyps [of "n + 1"] less.prems(1) Inr n by (simp add: ha_request.simps [of _ _ _ _ _ _ _ n] t Failed q)
      then show ?thesis using c2 c3 n by simp
    qed
  qed (use less.prems c2 in \<open>simp_all add: ha_request.simps t\<close>)
qed

lemma pages_count:
  "ha_pages T W A m b c lookup k u biggest status raw S w = (r, S1, w1) \<Longrightarrow> k < max 1 (ha_max_pages A) \<Longrightarrow>
     hs_requests S1 \<le> hs_requests S + (max 1 (ha_max_pages A) - k) * (ha_retry_max A + 1)"
proof (induction "ha_max_pages A - k" arbitrary: k u biggest status raw S w rule: less_induct)
  case less
  let ?M = "max 1 (ha_max_pages A)" and ?R = "ha_retry_max A + 1"
  obtain q S2 w2 where q: "ha_request T W A (ha_page_url W A k u) m b c 0 S w = (q, S2, w2)" by (metis prod_cases3)
  have c2: "hs_requests S2 \<le> hs_requests S + ?R" using request_count [OF q] by simp
  have "1 \<le> ?M - k" using less.prems(2) by simp
  from mult_le_mono1 [OF this, of ?R] have one: "?R \<le> (?M - k) * ?R" by (simp only: mult_1)
  show ?case
  proof (cases "\<exists>resp records v. q = Inr resp \<and> ha_page W A c lookup k u biggest resp = Inr (records, Some v) \<and>
      \<not> ha_max_pages A \<le> k + 1")
    case True
    then obtain resp records v where x: "q = Inr resp" "ha_page W A c lookup k u biggest resp = Inr (records, Some v)"
      "\<not> ha_max_pages A \<le> k + 1" by blast
    have "ha_max_pages A - (k + 1) < ha_max_pages A - k" "k + 1 < ?M" using x(3) by auto
    from less.hyps [OF this(1) _ this(2)]
    have "hs_requests S1 \<le> hs_requests S2 + (?M - (k + 1)) * ?R"
      using less.prems(1) x by (simp add: ha_pages.simps [of _ _ _ _ _ _ _ k] q Let_def)
    moreover have "(?M - k) * ?R = (?M - (k + 1)) * ?R + ?R"
    proof -
      have d: "?M - k = (?M - (k + 1)) + 1" using less.prems(2) by simp
      show ?thesis by (subst d) (simp only: add_mult_distrib mult_1)
    qed
    ultimately show ?thesis using c2 by linarith
  next
    case False
    have "S1 = S2"
    proof (cases q)
      case (Inl e)
      then show ?thesis using less.prems(1) by (simp add: ha_pages.simps q)
    next
      case (Inr resp)
      show ?thesis
      proof (cases "ha_page W A c lookup k u biggest resp")
        case (Inl e)
        then show ?thesis using less.prems(1) \<open>q = Inr resp\<close> by (simp add: ha_pages.simps q Let_def)
      next
        case (Inr rn)
        then show ?thesis using less.prems(1) \<open>q = Inr resp\<close> False
          by (cases rn; cases "snd rn") (auto simp: ha_pages.simps [of _ _ _ _ _ _ _ k] q Let_def)
      qed
    qed
    then show ?thesis using le_trans [OF c2 add_left_mono [OF one]] by (simp only:)
  qed
qed

lemma collect_count:
  "ha_collect T W A u m b c lookup S w = (r, S1, w1) \<Longrightarrow>
     hs_requests S1 \<le> hs_requests S + max 1 (ha_max_pages A) * (ha_retry_max A + 1)"
  by (auto simp: ha_collect_def dest!: pages_count split: prod.splits sum.splits)

text \<open>C23 (the rate, the deadline and the number of requests). With an exact clock, the requests of one
  lookup - pages and retries included - are at least \<open>1 / rate\<close> apart, also from the last request
  before, none is sent at or after the deadline, the next one has to wait for its slot, and there
  are at most \<open>max_pages * (retry_max + 1)\<close>.\<close>

theorem lookup_keeps_rate_and_deadline:
  assumes "exact T now" "ha_rate A = Some q" "0 < q"
    "ha_fetch (log_timing T) (log_web now W) A tag S (w, []) = (r, S', (w', l))"
  shows "successively (\<lambda>s t. s + 1 / q \<le> t) (map snd l) \<and>
    (\<forall>(rq, t) \<in> set l. (\<forall>d. hs_deadline S = Some d \<longrightarrow> t < d) \<and> (\<forall>s. hs_next_slot S = Some s \<longrightarrow> s \<le> t)) \<and>
    (l \<noteq> [] \<longrightarrow> (\<exists>s. hs_next_slot S' = Some s \<and> snd (last l) + 1 / q \<le> s)) \<and>
    length l \<le> max 1 (ha_max_pages A) * (ha_retry_max A + 1)"
proof -
  have "paced q S S' l"
    using on_time.fetch_keeps [OF _ assms(4), of q S] assms(1-3) by (simp add: paced_def)
  moreover have "hs_requests S' \<le> hs_requests S + max 1 (ha_max_pages A) * (ha_retry_max A + 1)"
    using assms(4) collect_count by (auto simp: ha_fetch_def split: prod.splits)
  ultimately show ?thesis unfolding paced_def by auto
qed

section \<open>An answer rests on responses that said so\<close>

lemma pages_status:
  "ha_pages T W A m b c lookup k u biggest status raw S w = (Inr (js, stopped, st), S1, w1) \<Longrightarrow>
   (case status of None \<Rightarrow> k = 0 \<and> raw = [] | Some x \<Rightarrow> 200 \<le> x \<and> x < 300) \<Longrightarrow>
   \<exists>x. st = Some x \<and> (200 \<le> x \<and> x < 300 \<or> x = 404 \<and> lookup \<and> js = [] \<and> \<not> stopped)"
proof (induction "ha_max_pages A - k" arbitrary: k u biggest status raw S w rule: less_induct)
  case less
  obtain q S2 w2 where q: "ha_request T W A (ha_page_url W A k u) m b c 0 S w = (q, S2, w2)" by (metis prod_cases3)
  obtain resp where resp: "q = Inr resp" using less.prems(1) by (cases q) (simp_all add: ha_pages.simps q)
  obtain records nx where page: "ha_page W A c lookup k u biggest resp = Inr (records, nx)"
    using less.prems(1) resp
    by (cases "ha_page W A c lookup k u biggest resp") (auto simp: ha_pages.simps [of _ _ _ _ _ _ _ k] q Let_def)
  have st: "200 \<le> cr_status resp \<and> cr_status resp < 300 \<or> cr_status resp = 404 \<and> (lookup \<or> 0 < k) \<and> records = [] \<and> nx = None"
    using page by (auto simp: ha_page_def split: if_splits)
  let ?first = "case status of None \<Rightarrow> Some (cr_status resp) | Some x \<Rightarrow> Some x"
  show ?case
  proof (cases "nx = None \<or> ha_max_pages A \<le> k + 1")
    case True
    then have "st = ?first" "js = raw @ records" "stopped = (nx \<noteq> None)"
      using less.prems(1) resp page by (cases nx; auto simp: ha_pages.simps [of _ _ _ _ _ _ _ k] q Let_def)+
    then show ?thesis using less.prems(2) st by (auto split: option.splits)
  next
    case False
    then obtain v where v: "nx = Some v" by auto
    have fine: "200 \<le> cr_status resp \<and> cr_status resp < 300" using st v by auto
    have r: "ha_pages T W A m b c lookup (k + 1) v (max biggest (length records)) ?first (raw @ records) S2 w2 =
        (Inr (js, stopped, st), S1, w1)"
      using less.prems(1) resp page v False by (simp add: ha_pages.simps [of _ _ _ _ _ _ _ k] q Let_def)
    have "ha_max_pages A - (k + 1) < ha_max_pages A - k" using False by (simp, arith)
    from less.hyps [OF this r] show ?thesis using less.prems(2) fine by (auto split: option.splits)
  qed
qed


section \<open>The theorems at a concrete server\<close>

text \<open>A server that always answers with an empty list, on a clock that is the time.\<close>

definition sample_urls :: urls where
  "sample_urls = \<lparr>ul_split = (\<lambda>u. (''http'', ''localhost'', u, [], [])), ul_unsplit = (\<lambda>(s, n, p, q, f). p),
     ul_parse_qsl = (\<lambda>q. []), ul_encode = (\<lambda>ps. []), ul_join = (\<lambda>u v. v)\<rparr>"

definition sample_net :: netlib where
  "sample_net = \<lparr>lib_ip_address = (\<lambda>h. None), lib_addresses = (\<lambda>fs. []), lib_resolve = (\<lambda>h. [])\<rparr>"

definition sample_web :: "seconds web" where
  "sample_web = \<lparr>wb_urls = sample_urls, wb_net = sample_net, wb_loads = (\<lambda>t. Some (JList [])), wb_utf8 = Some,
     wb_float = (\<lambda>x. []), wb_http_date = (\<lambda>d. None), wb_uniform = (\<lambda>h w. (0, w)), wb_wall = (\<lambda>w. (w, w)),
     wb_send = (\<lambda>rq w. (Inr \<lparr>cr_status = 200, cr_body = ''[]'', cr_headers = []\<rparr>, w + 1))\<rparr>"

definition sample_adapter :: http_adapter where
  "sample_adapter = \<lparr>ha_url = ''http://localhost/t'', ha_tag_param = ''tag'', ha_items_key = ''items'', ha_timeout = 10,
     ha_field_map = DEFAULT_FIELD_MAP, ha_allow_public = False, ha_headers = [(''Authorization'', ''x'')],
     ha_list_path = None, ha_enumerate = True, ha_query = None, ha_method = ''GET'', ha_body = None,
     ha_page_param = None, ha_page_size_param = None, ha_next_path = None, ha_max_pages = 10, ha_retry_max = 5,
     ha_retry_base = 1 / 2, ha_rate = Some 4, ha_list_url = ''http://localhost/t''\<rparr>"

lemma sample_keeps_origin: "keeps_origin (wb_urls sample_web)"
  by (simp add: keeps_origin_def sample_web_def sample_urls_def)

lemma sample_built: "new_http_adapter (wb_urls sample_web) (wb_net sample_web) sample_adapter = Inr sample_adapter"
  by code_simp

lemma sample_fetch:
  "ha_fetch (log_timing additive) (log_web (\<lambda>t. t) sample_web) sample_adapter ''hq-1-0000'' new_http_state (0, []) =
     (Inr \<lparr>fr_items = [], fr_partial = False, fr_status = Some 200\<rparr>,
      \<lparr>hs_deadline = None, hs_next_slot = Some (1 / 4), hs_requests = 1, hs_retries = 0\<rparr>,
      (1, [(\<lparr>pr_url = ''http://localhost/t'', pr_method = ''GET'', pr_headers = [(''Authorization'', ''x'')],
         pr_body = [], pr_timeout = 10\<rparr>, 0)]))"
  by code_simp


theorem lookup_keeps_rate_and_deadline_witness:
  "\<exists>rq. snd (snd (snd (ha_fetch (log_timing additive) (log_web (\<lambda>t. t) sample_web) sample_adapter ''hq-1-0000''
       new_http_state (0, [])))) = [(rq, 0)] \<and>
     length [(rq, 0 :: rat)] \<le> max 1 (ha_max_pages sample_adapter) * (ha_retry_max sample_adapter + 1)"
proof -
  have "ha_rate sample_adapter = Some 4" by (simp add: sample_adapter_def)
  from lookup_keeps_rate_and_deadline [OF exact_additive this _ sample_fetch] show ?thesis
    by (simp add: sample_fetch)
qed


end
