(* ===== verification/Mailbox.thy ===== *)
theory Mailbox
  imports Adapter_Fields Messages
begin

text \<open>The mailbox readback adapter (\<open>MailboxAdapter\<close> of \<open>pipeline/adapters.py\<close>): an append-only JSON
  Lines file that is read a piece at a time. What is on disk at the moment of a refresh is the
  record \<open>sink\<close>; \<open>loads\<close> reads a JSON text, \<open>R\<close> is \<open>str\<close> of a value that is no string. Text is
  ASCII, so decoding is the identity. Reading the file grown so far in pieces is shown to give what
  reading it at once gives.\<close>

section \<open>State\<close>

record sink =
  sk_id :: "nat \<times> nat"
  sk_mtime :: int
  sk_content :: bytes

type_synonym line_record = "(string \<times> json) list"

record mailbox =
  mb_offset :: nat
  mb_line_no :: nat
  mb_identity :: "(nat \<times> nat) option"
  mb_mtime :: "int option"
  mb_records :: "(string option \<times> line_record) list"
  mb_by_tag :: "(string \<times> line_record list) list"
  mb_warned :: bool
  mb_open_line :: bool
  mb_warnings :: "nat list"

record json_text_lib =
  jt_loads :: "string \<Rightarrow> json option"
  jt_str :: "json \<Rightarrow> string"
  jt_float :: "rat \<Rightarrow> string"

definition MAILBOX_WARN_LINES :: nat where "MAILBOX_WARN_LINES = 50000"

definition MAILBOX_FIELD_MAP :: "(string \<times> string) list" where
  "MAILBOX_FIELD_MAP = [(''from_addr'', ''from''), (''subject'', ''subject''), (''body'', ''body''),
     (''attachment_names'', ''attachments''), (''route'', ''route''), (''message_id'', ''message_id''),
     (''in_reply_to'', ''in_reply_to''), (''references'', ''references''), (''category'', ''category''),
     (''priority'', ''priority'')]"

definition mailbox_fields :: "(string \<times> string) list option \<Rightarrow> (string \<times> string) list" where
  "mailbox_fields given =
     filter (\<lambda>(n, p). n \<noteq> ''ticket_id'' \<and> n \<noteq> ''tag'') (case given of Some m \<Rightarrow> m | None \<Rightarrow> MAILBOX_FIELD_MAP)"

definition new_mailbox :: mailbox where
  "new_mailbox = \<lparr>mb_offset = 0, mb_line_no = 0, mb_identity = None, mb_mtime = None, mb_records = [],
     mb_by_tag = [], mb_warned = False, mb_open_line = False, mb_warnings = []\<rparr>"

definition mb_reset :: "mailbox \<Rightarrow> mailbox" where
  "mb_reset m = new_mailbox\<lparr>mb_warnings := mb_warnings m\<rparr>"

section \<open>The tag of a line\<close>

definition str_of :: "json_text_lib \<Rightarrow> json \<Rightarrow> string" where
  "str_of L v = (case v of JStr s \<Rightarrow> s | _ \<Rightarrow> jt_str L v)"

definition text_entry :: "line_record \<Rightarrow> string \<Rightarrow> string option" where
  "text_entry r k = (case map_of r k of Some (JStr s) \<Rightarrow> Some s | _ \<Rightarrow> None)"

definition header_text :: "json_text_lib \<Rightarrow> line_record \<Rightarrow> string option" where
  "header_text L r =
     (case map_of r ''headers'' of
        Some (JObj kvs) \<Rightarrow> Some (concat (map (\<lambda>(k, v). k @ '': '' @ str_of L v @ [CHR 0x0A]) kvs))
      | Some (JStr s) \<Rightarrow> Some s
      | _ \<Rightarrow> None)"

definition tag_of_line :: "json_text_lib \<Rightarrow> line_record \<Rightarrow> string option" where
  "tag_of_line L r =
     (case text_entry r ''tag'' of
        Some t \<Rightarrow> if strip t \<noteq> [] then Some (strip t)
          else harvest_tag [text_entry r ''body'', text_entry r ''html'', header_text L r]
      | None \<Rightarrow> harvest_tag [text_entry r ''body'', text_entry r ''html'', header_text L r])"

section \<open>Reading what was appended\<close>

fun add_under :: "string \<Rightarrow> 'a \<Rightarrow> (string \<times> 'a list) list \<Rightarrow> (string \<times> 'a list) list" where
  "add_under t r [] = [(t, [r])]"
| "add_under t r ((k, rs) # d) = (if k = t then (k, rs @ [r]) # d else (k, rs) # add_under t r d)"

definition index_record :: "string option \<times> 'a \<Rightarrow> (string \<times> 'a list) list \<Rightarrow> (string \<times> 'a list) list" where
  "index_record x d = (case fst x of Some t \<Rightarrow> if t \<noteq> [] then add_under t (snd x) d else d | None \<Rightarrow> d)"

definition add_line :: "json_text_lib \<Rightarrow> nat \<Rightarrow> bool \<Rightarrow> line_record \<Rightarrow> mailbox \<Rightarrow> mailbox" where
  "add_line L used is_open r m =
     m\<lparr>mb_line_no := mb_line_no m + 1, mb_offset := mb_offset m + used, mb_open_line := is_open,
       mb_records := mb_records m @ [(tag_of_line L r, r)],
       mb_by_tag := index_record (tag_of_line L r, r) (mb_by_tag m)\<rparr>"

text \<open>The loop over the lines of a chunk; the last one has no newline. \<open>first\<close> is \<open>position == 0\<close>.\<close>

fun consume_lines :: "json_text_lib \<Rightarrow> bool \<Rightarrow> bytes list \<Rightarrow> mailbox \<Rightarrow> adapter_error option \<times> mailbox" where
  "consume_lines L first [] m = (None, m)"
| "consume_lines L first [line] m =
     (if strip line = [] then (None, m)
      else (case jt_loads L (strip line) of
          None \<Rightarrow> (None, m)
        | Some (JObj r) \<Rightarrow> (None, add_line L (length line) True r m)
        | Some j \<Rightarrow> (Some (SinkLineNotObject (mb_line_no m + 1) (json_type j)), m)))"
| "consume_lines L first (line # next # rest) m =
     (if strip line = []
      then consume_lines L False (next # rest)
        (m\<lparr>mb_offset := mb_offset m + length line + 1,
           mb_line_no := (if mb_open_line m \<and> first then mb_line_no m else mb_line_no m + 1),
           mb_open_line := False\<rparr>)
      else (case jt_loads L (strip line) of
          None \<Rightarrow> (Some (BadSinkLine (mb_line_no m + 1)), m)
        | Some (JObj r) \<Rightarrow> consume_lines L False (next # rest) (add_line L (length line + 1) False r m)
        | Some j \<Rightarrow> (Some (SinkLineNotObject (mb_line_no m + 1) (json_type j)), m)))"

definition warn_large :: "mailbox \<Rightarrow> mailbox" where
  "warn_large m =
     (if MAILBOX_WARN_LINES < mb_line_no m \<and> \<not> mb_warned m
      then m\<lparr>mb_warned := True, mb_warnings := mb_warnings m @ [mb_line_no m]\<rparr> else m)"

definition consume :: "json_text_lib \<Rightarrow> bytes \<Rightarrow> mailbox \<Rightarrow> adapter_error option \<times> mailbox" where
  "consume L chunk m =
     (case consume_lines L True (split_on CHR 0x0A chunk) m of
        (Some e, m') \<Rightarrow> (Some e, m') | (None, m') \<Rightarrow> (None, warn_large m'))"

definition refresh :: "json_text_lib \<Rightarrow> sink option \<Rightarrow> mailbox \<Rightarrow> adapter_error option \<times> mailbox" where
  "refresh L file m =
     (case file of
        None \<Rightarrow> (None, if mb_offset m \<noteq> 0 then mb_reset m else m)
      | Some s \<Rightarrow>
          (let len = length (sk_content s);
               replaced = (mb_identity m \<noteq> None \<and> mb_identity m \<noteq> Some (sk_id s));
               shrank = len < mb_offset m;
               rewritten = (len = mb_offset m \<and> mb_mtime m \<noteq> None \<and> mb_mtime m \<noteq> Some (sk_mtime s) \<and> 0 < mb_offset m);
               m1 = (if replaced \<or> shrank \<or> rewritten then mb_reset m else m)
                 \<lparr>mb_identity := Some (sk_id s), mb_mtime := Some (sk_mtime s)\<rparr>
           in if len = mb_offset m1 then (None, m1) else consume L (drop (mb_offset m1) (sk_content s)) m1))"

section \<open>The adapter contract\<close>

fun first_truthy :: "line_record \<Rightarrow> string list \<Rightarrow> json option" where
  "first_truthy r [] = None"
| "first_truthy r (k # ks) =
     (case map_of r k of Some v \<Rightarrow> if truth v then Some v else first_truthy r ks | None \<Rightarrow> first_truthy r ks)"

definition to_readback ::
  "json_text_lib \<Rightarrow> (string \<times> string) list \<Rightarrow> string \<Rightarrow> line_record \<Rightarrow> string \<Rightarrow> adapter_error + readback"
where
  "to_readback L field_map stem r tag =
     (case gather (jt_float L) (JObj r) field_map of
        Inl e \<Rightarrow> Inl e
      | Inr g \<Rightarrow>
          make_readback
            (case first_truthy r [''id'', ''message_id'', ''delivery_id''] of
               Some v \<Rightarrow> str_of L v | None \<Rightarrow> tag @ ''@'' @ stem)
            (Some tag) (ga_values g) (map fst (ga_values g)) (ga_notes g))"

fun to_readbacks ::
  "json_text_lib \<Rightarrow> (string \<times> string) list \<Rightarrow> string \<Rightarrow> (string \<times> line_record) list \<Rightarrow> adapter_error + readback list"
where
  "to_readbacks L fm stem [] = Inr []"
| "to_readbacks L fm stem ((tag, r) # rs) =
     (case to_readback L fm stem r tag of
        Inl e \<Rightarrow> Inl e
      | Inr x \<Rightarrow> (case to_readbacks L fm stem rs of Inl e \<Rightarrow> Inl e | Inr xs \<Rightarrow> Inr (x # xs)))"

definition mb_answer ::
  "adapter_error option \<times> mailbox \<Rightarrow> (mailbox \<Rightarrow> adapter_error + readback list) \<Rightarrow>
     (adapter_error + fetch_result) \<times> mailbox"
where
  "mb_answer x f =
     (case x of
        (Some e, m) \<Rightarrow> (Inl e, m)
      | (None, m) \<Rightarrow> (case f m of Inl e \<Rightarrow> (Inl e, m) | Inr rs \<Rightarrow> (Inr (plain_result rs), m)))"

definition found_under :: "mailbox \<Rightarrow> string \<Rightarrow> line_record list" where
  "found_under m tag = (case map_of (mb_by_tag m) tag of Some rs \<Rightarrow> rs | None \<Rightarrow> [])"

definition mb_fetch ::
  "json_text_lib \<Rightarrow> (string \<times> string) list \<Rightarrow> string \<Rightarrow> string \<Rightarrow> sink option \<Rightarrow> mailbox \<Rightarrow>
     (adapter_error + fetch_result) \<times> mailbox"
where
  "mb_fetch L fm stem tag file m =
     mb_answer (refresh L file m) (\<lambda>m'. to_readbacks L fm stem (map (Pair tag) (found_under m' tag)))"

definition mb_list_all ::
  "json_text_lib \<Rightarrow> (string \<times> string) list \<Rightarrow> string \<Rightarrow> sink option \<Rightarrow> mailbox \<Rightarrow>
     (adapter_error + fetch_result) \<times> mailbox"
where
  "mb_list_all L fm stem file m =
     mb_answer (refresh L file m) (\<lambda>m'. to_readbacks L fm stem
       (map (\<lambda>(t, r). (case t of Some t' \<Rightarrow> t' | None \<Rightarrow> [], r)) (mb_records m')))"

text \<open>What \<open>preflight\<close> asks of the file system.\<close>

record path_facts =
  pf_is_dir :: bool
  pf_parent_is_dir :: bool
  pf_exists :: bool
  pf_readable :: bool

definition mb_preflight :: "path_facts \<Rightarrow> adapter_error + unit" where
  "mb_preflight P =
     (if pf_is_dir P then Inl SinkIsDirectory
      else if \<not> pf_parent_is_dir P then Inl NoSinkDirectory
      else if pf_exists P \<and> \<not> pf_readable P then Inl SinkUnreadable
      else Inr ())"

section \<open>Reading in pieces is reading at once\<close>

definition line_rec :: "json_text_lib \<Rightarrow> bytes \<Rightarrow> (string option \<times> line_record) option" where
  "line_rec L l = (if strip l = [] then None
     else (case jt_loads L (strip l) of Some (JObj r) \<Rightarrow> Some (tag_of_line L r, r) | _ \<Rightarrow> None))"

abbreviation LF :: char where "LF \<equiv> CHR 0x0A"

definition records_of :: "json_text_lib \<Rightarrow> bytes \<Rightarrow> (string option \<times> line_record) list" where
  "records_of L content = List.map_filter (line_rec L) (split_on LF content)"

text \<open>A line that may stand in a sink, and a content that is the beginning of a sink of such lines.\<close>

definition good_line :: "json_text_lib \<Rightarrow> bytes \<Rightarrow> bool" where
  "good_line L l \<longleftrightarrow> strip l = [] \<or> (\<exists>r. jt_loads L (strip l) = Some (JObj r))"

definition sound :: "json_text_lib \<Rightarrow> bytes \<Rightarrow> bool" where
  "sound L c \<longleftrightarrow> (\<exists>d. \<forall>l \<in> set (split_on LF (c @ d)). good_line L l)"

text \<open>What is used of \<open>json.loads\<close>: before the end of an object text only white space can be missing.\<close>

definition objects_are_whole :: "json_text_lib \<Rightarrow> bool" where
  "objects_are_whole L \<longleftrightarrow> (\<forall>a b r. jt_loads L (strip (a @ b)) = Some (JObj r) \<longrightarrow>
     strip a \<noteq> [] \<longrightarrow> jt_loads L (strip a) = None \<or> strip b = [])"

lemma strip_Nil_iff: "strip s = [] \<longleftrightarrow> (\<forall>c \<in> set s. is_space c)"
proof
  assume "strip s = []"
  then show "\<forall>c \<in> set s. is_space c" using strip_eq_append [of s] by auto
next
  assume "\<forall>c \<in> set s. is_space c"
  then show "strip s = []" using strip_eq_append [of s] tight_strip_result [of s]
    by (auto simp: strip_def lstrip_def rstrip_def dest: set_dropWhileD)
qed

lemma strip_blank_tail:
  assumes "strip b = []" shows "strip (a @ b) = strip a"
proof (cases "strip a = []")
  case True
  then have "strip (a @ b) = []" using assms unfolding strip_Nil_iff by auto
  then show ?thesis using True by simp
next
  case False
  then obtain c where "c \<in> set a" "\<not> is_space c" by (auto simp: strip_Nil_iff)
  then have "lstrip (a @ b) = lstrip a @ b" by (simp add: lstrip_def dropWhile_append1)
  moreover have "rstrip (x @ b) = rstrip x" for x
  proof -
    have "dropWhile is_space (rev b @ rev x) = dropWhile is_space (rev x)"
      by (rule dropWhile_append2) (use assms in \<open>simp add: strip_Nil_iff\<close>)
    then show ?thesis by (simp add: rstrip_def)
  qed
  ultimately show ?thesis by (simp add: strip_def)
qed

lemma good_prefix:
  assumes "objects_are_whole L" "good_line L (a @ b)"
  shows "strip a = [] \<or> jt_loads L (strip a) = None \<or> (\<exists>r. jt_loads L (strip a) = Some (JObj r)) \<and> strip b = []"
proof (cases "strip (a @ b) = []")
  case True
  then show ?thesis by (simp add: strip_Nil_iff)
next
  case False
  then obtain r where "jt_loads L (strip (a @ b)) = Some (JObj r)" using assms(2) by (auto simp: good_line_def)
  then show ?thesis using assms(1) strip_blank_tail [of b a] unfolding objects_are_whole_def by metis
qed

text \<open>What consuming lines does, when every line that ended is good.\<close>

definition index_all :: "(string option \<times> 'a) list \<Rightarrow> (string \<times> 'a list) list \<Rightarrow> (string \<times> 'a list) list" where
  "index_all rs d = fold index_record rs d"

lemma map_filter_append: "List.map_filter f (xs @ ys) = List.map_filter f xs @ List.map_filter f ys"
  by (simp add: List.map_filter_def)

lemma consume_good:
  assumes "\<forall>l \<in> set ls. good_line L l"
    "strip z = [] \<or> jt_loads L (strip z) = None \<or> (\<exists>r. jt_loads L (strip z) = Some (JObj r))"
  shows "\<exists>m'. consume_lines L first (ls @ [z]) m = (None, m') \<and>
    mb_records m' = mb_records m @ List.map_filter (line_rec L) (ls @ [z]) \<and>
    mb_by_tag m' = index_all (List.map_filter (line_rec L) (ls @ [z])) (mb_by_tag m) \<and>
    mb_offset m' = mb_offset m + sum_list (map (\<lambda>l. length l + 1) ls) + (if line_rec L z = None then 0 else length z) \<and>
    mb_open_line m' = (line_rec L z \<noteq> None \<or> ls = [] \<and> mb_open_line m) \<and>
    mb_identity m' = mb_identity m \<and> mb_mtime m' = mb_mtime m"
  using assms(1)
proof (induction ls arbitrary: first m)
  case Nil
  show ?case using assms(2)
    by (cases "strip z = []")
      (auto simp: line_rec_def List.map_filter_simps add_line_def index_all_def)
next
  case (Cons l ls)
  obtain n rest where n: "ls @ [z] = n # rest" by (cases "ls @ [z]") auto
  show ?case
  proof (cases "strip l = []")
    case True
    define m1 where "m1 = m\<lparr>mb_offset := mb_offset m + length l + 1,
           mb_line_no := (if mb_open_line m \<and> first then mb_line_no m else mb_line_no m + 1),
           mb_open_line := False\<rparr>"
    have "consume_lines L first ((l # ls) @ [z]) m = consume_lines L False (ls @ [z]) m1"
      using True by (simp add: n m1_def)
    then show ?thesis using Cons.IH [of False m1] Cons.prems True
      by (auto simp: List.map_filter_simps line_rec_def m1_def)
  next
    case False
    then obtain r where r: "jt_loads L (strip l) = Some (JObj r)" using Cons.prems by (auto simp: good_line_def)
    define m1 where "m1 = add_line L (length l + 1) False r m"
    have "consume_lines L first ((l # ls) @ [z]) m = consume_lines L False (ls @ [z]) m1"
      using False r by (simp add: n m1_def)
    moreover have "line_rec L l = Some (tag_of_line L r, r)" using False r by (simp add: line_rec_def)
    ultimately show ?thesis using Cons.IH [of False m1] Cons.prems
      by (auto simp: List.map_filter_simps m1_def add_line_def index_all_def)
  qed
qed

text \<open>Splitting a content that grew.\<close>

definition ends_line :: "bytes \<Rightarrow> bool" where
  "ends_line p \<longleftrightarrow> p = [] \<or> last p = LF"

lemma split_after_line:
  assumes "ends_line p" shows "split_on LF (p @ x) = butlast (split_on LF p) @ split_on LF x"
proof (cases "p = []")
  case False
  then have p: "p = butlast p @ [LF]" using assms by (metis append_butlast_last_id ends_line_def)
  have "split_on LF (butlast p @ LF # x) = split_on LF (butlast p) @ split_on LF x"
    "split_on LF (butlast p @ LF # []) = split_on LF (butlast p) @ [[]]"
    by (subst split_on_append, simp)+
  with p show ?thesis by (metis append.assoc append_Cons append_Nil butlast_snoc)
qed simp

lemma split_join:
  "split_on LF (x @ d) = butlast (split_on LF x) @ (last (split_on LF x) @ hd (split_on LF d)) # tl (split_on LF d)"
proof (induction x)
  case Nil
  have "split_on LF d = hd (split_on LF d) # tl (split_on LF d)" by simp
  then show ?case by simp
next
  case (Cons c x)
  show ?case
  proof (cases "c = LF")
    case True
    then show ?thesis using Cons by simp
  next
    case False
    obtain y ys where y: "split_on LF x = y # ys" by (cases "split_on LF x") auto
    show ?thesis
    proof (cases ys)
      case Nil
      then show ?thesis using Cons y False by simp
    next
      case (Cons z zs)
      then show ?thesis using \<open>split_on LF (x @ d) = _\<close> y False by simp
    qed
  qed
qed

lemma records_after_line:
  assumes "ends_line p" shows "records_of L (p @ x) = records_of L p @ records_of L x"
proof -
  have "line_rec L [] = None" by (simp add: line_rec_def strip_Nil_iff)
  moreover have "records_of L p = List.map_filter (line_rec L) (butlast (split_on LF p) @ [[]])"
    using split_after_line [OF assms, of "[]"] by (simp add: records_of_def)
  ultimately show ?thesis
    by (simp add: records_of_def split_after_line [OF assms] map_filter_append List.map_filter_simps)
qed

lemma split_shape:
  assumes "split_on LF x = ls @ [z]"
  shows "x = concat (map (\<lambda>l. l @ [LF]) ls) @ z" "LF \<notin> set z"
    "length x = sum_list (map (\<lambda>l. length l + 1) ls) + length z"
proof -
  have "join [LF] (ls @ [z]) = concat (map (\<lambda>l. l @ [LF]) ls) @ z" for ls
  proof (induction ls)
    case (Cons l ls)
    obtain n rest where "ls @ [z] = n # rest" by (cases "ls @ [z]") auto
    then show ?case using Cons by simp
  qed simp
  then show x: "x = concat (map (\<lambda>l. l @ [LF]) ls) @ z" using join_split_on [of LF x] assms by simp
  show "LF \<notin> set z" using split_on_pieces [of z LF x] assms by simp
  have "length (concat (map (\<lambda>l. l @ [LF]) ls)) = sum_list (map (\<lambda>l. length l + 1) ls)"
    by (induction ls) simp_all
  then show "length x = sum_list (map (\<lambda>l. length l + 1) ls) + length z" by (metis x length_append)
qed

text \<open>A mailbox that has read all that can be read of a content: \<open>p\<close> was consumed, \<open>r\<close> is left.\<close>

definition in_sync :: "json_text_lib \<Rightarrow> mailbox \<Rightarrow> bytes \<Rightarrow> bool" where
  "in_sync L m c \<longleftrightarrow> mb_records m = records_of L c \<and> mb_by_tag m = index_all (mb_records m) [] \<and>
     (\<exists>p r. c = p @ r \<and> mb_offset m = length p \<and> LF \<notin> set r \<and>
       (if mb_open_line m then (\<exists>p0 l. p = p0 @ l \<and> ends_line p0 \<and> LF \<notin> set l \<and> line_rec L l \<noteq> None) \<and> strip r = []
        else ends_line p \<and> line_rec L r = None))"

lemma in_sync_new: "mb_records m = [] \<Longrightarrow> mb_by_tag m = [] \<Longrightarrow> mb_offset m = 0 \<Longrightarrow> \<not> mb_open_line m \<Longrightarrow> in_sync L m []"
  by (auto simp: in_sync_def ends_line_def records_of_def List.map_filter_simps line_rec_def strip_Nil_iff index_all_def)

lemma line_rec_good: "good_line L l \<longleftrightarrow> strip l = [] \<or> line_rec L l \<noteq> None"
  by (auto simp: good_line_def line_rec_def split: option.splits json.splits)

lemma line_rec_tail: "strip b = [] \<Longrightarrow> line_rec L (a @ b) = line_rec L a"
  by (simp add: line_rec_def strip_blank_tail)

text \<open>The lines of what is new, and the records they add.\<close>

lemma new_lines:
  assumes w: "objects_are_whole L" and y: "in_sync L m c" and s: "sound L (c @ e)"
    and x: "split_on LF (drop (mb_offset m) (c @ e)) = ls @ [z]"
  shows "\<forall>l \<in> set ls. good_line L l"
    "strip z = [] \<or> jt_loads L (strip z) = None \<or> (\<exists>r. jt_loads L (strip z) = Some (JObj r))"
    "records_of L (c @ e) = mb_records m @ List.map_filter (line_rec L) (ls @ [z])"
    "mb_open_line m \<Longrightarrow> ls = [] \<Longrightarrow> strip z = []"
proof -
  obtain p r where pr: "c = p @ r" "mb_offset m = length p" "LF \<notin> set r" "mb_records m = records_of L c"
    and st: "if mb_open_line m then (\<exists>p0 l. p = p0 @ l \<and> ends_line p0 \<and> LF \<notin> set l \<and> line_rec L l \<noteq> None) \<and> strip r = []
        else ends_line p \<and> line_rec L r = None"
    using y unfolding in_sync_def by blast
  let ?x = "r @ e"
  have x': "split_on LF ?x = ls @ [z]" using x by (simp add: pr(1,2))
  obtain d where d: "\<forall>l \<in> set (split_on LF ((p @ ?x) @ d)). good_line L l" using s by (auto simp: sound_def pr(1))
  define h t where "h = hd (split_on LF d)" and "t = tl (split_on LF d)"
  have xd: "split_on LF (?x @ d) = ls @ (z @ h) # t" using split_join [of ?x d] by (simp add: x' h_def t_def)
  have all: "(\<forall>l \<in> set ls. good_line L l) \<and>
    (strip z = [] \<or> jt_loads L (strip z) = None \<or> (\<exists>r. jt_loads L (strip z) = Some (JObj r))) \<and>
    records_of L (c @ e) = mb_records m @ List.map_filter (line_rec L) (ls @ [z]) \<and>
    (mb_open_line m \<longrightarrow> ls = [] \<longrightarrow> strip z = [])"
  proof (cases "mb_open_line m")
    case False
    then have p: "ends_line p" "line_rec L r = None" using st by auto
    have "\<forall>l \<in> set (ls @ (z @ h) # t). good_line L l"
      using d split_after_line [OF p(1), of "?x @ d"] xd by simp
    then have "\<forall>l \<in> set ls. good_line L l" "good_line L (z @ h)" by auto
    moreover have "records_of L (c @ e) = records_of L p @ List.map_filter (line_rec L) (ls @ [z])"
      using records_after_line [OF p(1), of L ?x] by (simp add: pr(1) records_of_def x')
    moreover have "records_of L c = records_of L p"
      using records_after_line [OF p(1), of L r] p(2) split_on_free [OF pr(3)]
      by (simp add: pr(1) records_of_def List.map_filter_simps)
    ultimately show ?thesis using good_prefix [OF w] pr(4) False by auto
  next
    case True
    then obtain p0 l where l: "p = p0 @ l" "ends_line p0" "LF \<notin> set l" "line_rec L l \<noteq> None" "strip r = []"
      using st by auto
    have lx: "split_on LF (l @ v) = (l @ hd (split_on LF v)) # tl (split_on LF v)" for v
      using split_join [of l v] split_on_free [OF l(3)] by simp
    have good: "\<forall>q \<in> set ((l @ hd (ls @ (z @ h) # t)) # tl (ls @ (z @ h) # t)). good_line L q"
      using d split_after_line [OF l(2), of "l @ ?x @ d"] lx [of "?x @ d"] xd by (simp add: l(1))
    have blank: "strip b = []" if "good_line L (l @ b)" for b
      using good_prefix [OF w that] l(4) by (auto simp: line_rec_def split: if_splits)
    obtain rl where rl: "line_rec L l = Some rl" using l(4) by auto
    have c: "records_of L c = records_of L p0 @ [rl]"
      using records_after_line [OF l(2), of L "l @ r"] split_on_free [of LF "l @ r"] l(3) pr(3) line_rec_tail [OF l(5)] rl
      by (simp add: pr(1) l(1) records_of_def List.map_filter_simps)
    have ce: "records_of L (c @ e) = records_of L p0 @ List.map_filter (line_rec L) ((l @ hd (ls @ [z])) # tl (ls @ [z]))"
      using records_after_line [OF l(2), of L "l @ ?x"] by (simp add: pr(1) l(1) records_of_def lx x')
    show ?thesis
    proof (cases ls)
      case Nil
      then have "strip (z @ h) = []" using good blank by simp
      then have z: "strip z = []" by (simp add: strip_Nil_iff)
      then show ?thesis using Nil c ce pr(4) rl line_rec_tail [OF z]
        by (simp add: List.map_filter_simps) (simp add: line_rec_def)
    next
      case (Cons l1 ls')
      then have l1: "strip l1 = []" using good blank by simp
      have rest: "\<forall>l \<in> set ls'. good_line L l" "good_line L (z @ h)" using good Cons by auto
      then show ?thesis using Cons c ce pr(4) rl line_rec_tail [OF l1] l1 good_prefix [OF w rest(2)]
        by (auto simp: List.map_filter_simps good_line_def) (simp_all add: line_rec_def)
    qed
  qed
  then show "\<forall>l \<in> set ls. good_line L l"
    "strip z = [] \<or> jt_loads L (strip z) = None \<or> (\<exists>r. jt_loads L (strip z) = Some (JObj r))"
    "records_of L (c @ e) = mb_records m @ List.map_filter (line_rec L) (ls @ [z])"
    "mb_open_line m \<Longrightarrow> ls = [] \<Longrightarrow> strip z = []" by blast+
qed

lemma consume_in_sync:
  assumes w: "objects_are_whole L" and y: "in_sync L m c" and s: "sound L (c @ e)"
  obtains m' where "consume L (drop (mb_offset m) (c @ e)) m = (None, m')" "in_sync L m' (c @ e)"
    "mb_identity m' = mb_identity m"
proof -
  obtain ls z where x: "split_on LF (drop (mb_offset m) (c @ e)) = ls @ [z]"
    by (metis append_butlast_last_id split_on_ne)
  note n = new_lines [OF w y s x]
  obtain m1 where m1: "consume_lines L True (ls @ [z]) m = (None, m1)"
    "mb_records m1 = mb_records m @ List.map_filter (line_rec L) (ls @ [z])"
    "mb_by_tag m1 = index_all (List.map_filter (line_rec L) (ls @ [z])) (mb_by_tag m)"
    "mb_offset m1 = mb_offset m + sum_list (map (\<lambda>l. length l + 1) ls) + (if line_rec L z = None then 0 else length z)"
    "mb_open_line m1 = (line_rec L z \<noteq> None \<or> ls = [] \<and> mb_open_line m)" "mb_identity m1 = mb_identity m"
    using consume_good [OF n(1,2), of True m] by blast
  obtain p r where pr: "c = p @ r" "mb_offset m = length p" "LF \<notin> set r" "mb_by_tag m = index_all (mb_records m) []"
    and st: "if mb_open_line m then (\<exists>p0 l. p = p0 @ l \<and> ends_line p0 \<and> LF \<notin> set l \<and> line_rec L l \<noteq> None) \<and> strip r = []
        else ends_line p \<and> line_rec L r = None"
    using y unfolding in_sync_def by blast
  let ?ls = "concat (map (\<lambda>l. l @ [LF]) ls)"
  have "split_on LF (r @ e) = ls @ [z]" using x by (simp add: pr(1,2))
  note shape = split_shape [OF this]
  have ce: "c @ e = p @ ?ls @ z" using shape(1) by (simp add: pr(1))
  have len: "length ?ls = sum_list (map (\<lambda>l. length l + 1) ls)" using shape(1,3) by (metis add_right_cancel length_append)
  have ended: "ends_line (p @ ?ls)" if "ls \<noteq> [] \<or> \<not> mb_open_line m"
  proof (cases "ls = []")
    case True
    then show ?thesis using that st by simp
  next
    case False
    then obtain ks k where "ls = ks @ [k]" by (cases ls rule: rev_cases) auto
    then show ?thesis by (simp add: ends_line_def)
  qed
  have "in_sync L m1 (c @ e)"
  proof (cases "line_rec L z = None")
    case True
    have state: "if mb_open_line m1
        then (\<exists>p0 l. p @ ?ls = p0 @ l \<and> ends_line p0 \<and> LF \<notin> set l \<and> line_rec L l \<noteq> None) \<and> strip z = []
        else ends_line (p @ ?ls) \<and> line_rec L z = None"
    proof (cases "ls = [] \<and> mb_open_line m")
      case True
      then show ?thesis using st n(4) m1(5) by simp
    next
      case False
      then show ?thesis using ended m1(5) \<open>line_rec L z = None\<close> by auto
    qed
    show ?thesis unfolding in_sync_def
    proof (intro conjI exI)
      show "mb_records m1 = records_of L (c @ e)" using m1(2) n(3) by simp
      show "mb_by_tag m1 = index_all (mb_records m1) []" by (simp add: m1(2,3) pr(4) index_all_def)
      show "c @ e = (p @ ?ls) @ z" using ce by simp
      show "mb_offset m1 = length (p @ ?ls)" using m1(4) True len pr(2) by simp
      show "LF \<notin> set z" by (rule shape(2))
    qed (rule state)
  next
    case False
    have "ls \<noteq> [] \<or> \<not> mb_open_line m" using n(4) False by (auto simp: line_rec_def)
    then have "\<exists>p0 l. p @ ?ls @ z = p0 @ l \<and> ends_line p0 \<and> LF \<notin> set l \<and> line_rec L l \<noteq> None"
      using ended shape(2) False by (intro exI [of _ "p @ ?ls"] exI [of _ z]) simp
    then have state: "if mb_open_line m1
        then (\<exists>p0 l. p @ ?ls @ z = p0 @ l \<and> ends_line p0 \<and> LF \<notin> set l \<and> line_rec L l \<noteq> None) \<and> strip [] = []
        else ends_line (p @ ?ls @ z) \<and> line_rec L [] = None"
      using m1(5) False by (simp add: strip_Nil_iff)
    show ?thesis unfolding in_sync_def
    proof (intro conjI exI)
      show "mb_records m1 = records_of L (c @ e)" using m1(2) n(3) by simp
      show "mb_by_tag m1 = index_all (mb_records m1) []" by (simp add: m1(2,3) pr(4) index_all_def)
      show "c @ e = (p @ ?ls @ z) @ []" using ce by simp
      show "mb_offset m1 = length (p @ ?ls @ z)" using m1(4) False len pr(2) by simp
      show "LF \<notin> set []" by simp
    qed (rule state)
  qed
  moreover have "in_sync L (warn_large m1) (c @ e) = in_sync L m1 (c @ e)"
    "mb_identity (warn_large m1) = mb_identity m1" by (simp_all add: warn_large_def in_sync_def)
  moreover have "consume L (drop (mb_offset m) (c @ e)) m = (None, warn_large m1)"
    unfolding consume_def x m1(1) by simp
  ultimately show thesis using that m1(6) by metis
qed

text \<open>One refresh on a file that was replaced, or that grew and was not changed.\<close>

definition follows :: "sink \<Rightarrow> sink \<Rightarrow> bool" where
  "follows s s' \<longleftrightarrow> sk_id s \<noteq> sk_id s' \<or> prefix (sk_content s) (sk_content s')"

lemma refresh_in_sync:
  assumes w: "objects_are_whole L" and s: "sound L (sk_content s')"
    and y: "in_sync L m c" "mb_identity m = None \<and> c = [] \<or> (\<exists>i. mb_identity m = Some i \<and> (i \<noteq> sk_id s' \<or> prefix c (sk_content s')))"
  obtains m' where "refresh L (Some s') m = (None, m')" "in_sync L m' (sk_content s')" "mb_identity m' = Some (sk_id s')"
proof -
  let ?again = "mb_identity m \<noteq> None \<and> mb_identity m \<noteq> Some (sk_id s') \<or> length (sk_content s') < mb_offset m \<or>
    length (sk_content s') = mb_offset m \<and> mb_mtime m \<noteq> None \<and> mb_mtime m \<noteq> Some (sk_mtime s') \<and> 0 < mb_offset m"
  define m1 where "m1 = (if ?again then mb_reset m else m)\<lparr>mb_identity := Some (sk_id s'), mb_mtime := Some (sk_mtime s')\<rparr>"
  have run: "refresh L (Some s') m = (if length (sk_content s') = mb_offset m1 then (None, m1)
      else consume L (drop (mb_offset m1) (sk_content s')) m1)"
    by (simp add: refresh_def Let_def m1_def)
  have id: "mb_identity m1 = Some (sk_id s')" by (simp add: m1_def)
  obtain c1 e where c1: "in_sync L m1 c1" "sk_content s' = c1 @ e"
  proof (cases ?again)
    case True
    have "in_sync L m1 []" using True by (intro in_sync_new) (simp_all add: m1_def mb_reset_def new_mailbox_def)
    then show thesis by (rule that) simp
  next
    case False
    then have "mb_identity m = None \<and> c = [] \<or> prefix c (sk_content s')" using y(2) by auto
    then obtain e where "sk_content s' = c @ e" by (auto simp: prefix_def)
    moreover have "m1 = m\<lparr>mb_identity := Some (sk_id s'), mb_mtime := Some (sk_mtime s')\<rparr>"
      unfolding m1_def if_not_P [OF False] ..
    then have "in_sync L m1 c" using y(1) by (simp add: in_sync_def)
    ultimately show thesis by (rule that [rotated])
  qed
  show thesis
  proof (cases "length (sk_content s') = mb_offset m1")
    case True
    have "e = []" using c1 True by (auto simp: in_sync_def)
    then show thesis using that [of m1] run True c1 id by simp
  next
    case False
    obtain m' where "consume L (drop (mb_offset m1) (c1 @ e)) m1 = (None, m')" "in_sync L m' (c1 @ e)"
      "mb_identity m' = mb_identity m1"
      using w c1(1) s [unfolded c1(2)] by (rule consume_in_sync)
    then show thesis using that run False c1(2) id by simp
  qed
qed

fun refresh_all :: "json_text_lib \<Rightarrow> sink list \<Rightarrow> mailbox \<Rightarrow> adapter_error option \<times> mailbox" where
  "refresh_all L [] m = (None, m)"
| "refresh_all L (s # ss) m =
     (case refresh L (Some s) m of (Some e, m') \<Rightarrow> (Some e, m') | (None, m') \<Rightarrow> refresh_all L ss m')"

lemma refresh_all_in_sync:
  assumes "objects_are_whole L"
  shows "successively follows (s0 # ss) \<Longrightarrow> \<forall>s \<in> set ss. sound L (sk_content s) \<Longrightarrow> in_sync L m (sk_content s0) \<Longrightarrow>
    mb_identity m = Some (sk_id s0) \<Longrightarrow>
    \<exists>m'. refresh_all L ss m = (None, m') \<and> in_sync L m' (sk_content (last (s0 # ss)))"
proof (induction ss arbitrary: s0 m)
  case (Cons s ss)
  obtain m1 where m1: "refresh L (Some s) m = (None, m1)" "in_sync L m1 (sk_content s)" "mb_identity m1 = Some (sk_id s)"
    by (rule refresh_in_sync [OF assms, of s m "sk_content s0"]) (use Cons.prems in \<open>auto simp: follows_def\<close>)
  show ?case using Cons.IH [OF _ _ m1(2,3)] Cons.prems(1,2) m1(1) by simp
qed simp

lemma found_index_all:
  assumes "t \<noteq> []"
  shows "(case map_of (index_all rs d) t of Some q \<Rightarrow> q | None \<Rightarrow> []) =
    (case map_of d t of Some q \<Rightarrow> q | None \<Rightarrow> []) @ map snd (filter (\<lambda>x. fst x = Some t) rs)"
proof (induction rs arbitrary: d)
  case (Cons x rs)
  have add: "map_of (add_under k r d) t = (if k = t then Some ((case map_of d t of Some q \<Rightarrow> q | None \<Rightarrow> []) @ [r]) else map_of d t)"
    for k r by (induction d) auto
  show ?case using Cons [of "index_record x d"] assms
    by (cases x; cases "fst x") (auto simp: index_all_def index_record_def add)
qed (simp add: index_all_def)

text \<open>C25 (reading in pieces is reading at once). A sink that is only appended to, or replaced, and
  whose lines are objects or blank, is read without error however the writes and the reads
  interleave - in the middle of a line included; what the adapter then holds is one record for each
  line of the file as it is now, and a lookup finds exactly those with its tag.\<close>

theorem mailbox_reads_in_pieces:
  assumes "objects_are_whole L" "successively follows (ss @ [s])" "\<forall>x \<in> set (ss @ [s]). sound L (sk_content x)"
  shows "\<exists>m. refresh_all L (ss @ [s]) new_mailbox = (None, m) \<and> mb_records m = records_of L (sk_content s) \<and>
    (\<forall>tag. tag \<noteq> [] \<longrightarrow> found_under m tag = map snd (filter (\<lambda>x. fst x = Some tag) (records_of L (sk_content s)))) \<and>
    (\<exists>m1. refresh L (Some s) new_mailbox = (None, m1) \<and> mb_records m1 = mb_records m \<and> mb_by_tag m1 = mb_by_tag m)"
proof -
  have new: "in_sync L new_mailbox []" by (rule in_sync_new) (simp_all add: new_mailbox_def)
  have fresh: "\<exists>m1. refresh L (Some x) new_mailbox = (None, m1) \<and> in_sync L m1 (sk_content x) \<and> mb_identity m1 = Some (sk_id x)"
    if "sound L (sk_content x)" for x
    by (rule refresh_in_sync [OF assms(1) that new]) (auto simp: new_mailbox_def)
  obtain a rest where a: "ss @ [s] = a # rest" by (cases "ss @ [s]") auto
  obtain m1 where m1: "refresh L (Some a) new_mailbox = (None, m1)" "in_sync L m1 (sk_content a)" "mb_identity m1 = Some (sk_id a)"
    using fresh [of a] assms(3) a by auto
  have "\<exists>m'. refresh_all L rest m1 = (None, m') \<and> in_sync L m' (sk_content (last (a # rest)))"
    using refresh_all_in_sync [OF assms(1) _ _ m1(2,3)] assms(2,3) a by simp
  then obtain m where m: "refresh_all L (ss @ [s]) new_mailbox = (None, m)" "in_sync L m (sk_content s)"
    using m1(1) a by (metis (no_types, lifting) last_snoc old.prod.case option.simps(4) refresh_all.simps(2))
  obtain mf where mf: "refresh L (Some s) new_mailbox = (None, mf)" "in_sync L mf (sk_content s)"
    using fresh [of s] assms(3) by auto
  have r: "mb_records m = records_of L (sk_content s)" "mb_by_tag m = index_all (mb_records m) []"
    "mb_records mf = records_of L (sk_content s)" "mb_by_tag mf = index_all (mb_records mf) []"
    using m(2) mf(2) by (auto simp: in_sync_def)
  have "found_under m tag = map snd (filter (\<lambda>x. fst x = Some tag) (records_of L (sk_content s)))" if "tag \<noteq> []" for tag
    using found_index_all [OF that, of "mb_records m" "[]"] by (simp add: found_under_def r)
  then show ?thesis using m(1) mf(1) r by auto
qed

section \<open>The theorem at a concrete sink\<close>

text \<open>A reader that knows one object, and a file of two lines written in three pieces.\<close>

definition sample_json :: json_text_lib where
  "sample_json = \<lparr>jt_loads = (\<lambda>t. if t = ''{}'' then Some (JObj []) else None), jt_str = (\<lambda>v. []), jt_float = (\<lambda>x. [])\<rparr>"

lemma sample_whole: "objects_are_whole sample_json"
proof -
  have "strip a \<noteq> ''{}'' \<or> strip b = []" if e: "strip (a @ b) = ''{}''" and a: "strip a \<noteq> []" for a b
  proof (rule ccontr)
    assume n: "\<not> (strip a \<noteq> ''{}'' \<or> strip b = [])"
    obtain x where x: "x \<in> set a" "\<not> is_space x" using a by (auto simp: strip_Nil_iff)
    obtain y where y: "y \<in> set b" "\<not> is_space y" using n by (auto simp: strip_Nil_iff)
    have "strip (a @ b) = rstrip (lstrip a @ b)" using x by (simp add: strip_def lstrip_def dropWhile_append1)
    also have "\<dots> = lstrip a @ rstrip b" using y by (simp add: rstrip_def dropWhile_append1)
    finally have two: "lstrip a @ rstrip b = ''{}''" using e by simp
    have "rstrip b \<noteq> []" using y by (auto simp: rstrip_def)
    then have "length (lstrip a) < 2" using arg_cong [OF two, of length] by (cases "rstrip b") auto
    moreover have "length (strip a) \<le> length (lstrip a)"
      by (simp add: strip_def rstrip_def) (metis length_dropWhile_le length_rev)
    ultimately show False using n by simp
  qed
  then show ?thesis by (auto simp: objects_are_whole_def sample_json_def)
qed

definition sample_sink :: "bytes \<Rightarrow> sink" where
  "sample_sink c = \<lparr>sk_id = (1, 1), sk_mtime = int (length c), sk_content = c\<rparr>"

theorem mailbox_reads_in_pieces_witness:
  "\<exists>m. refresh_all sample_json [sample_sink ''{'', sample_sink (''{}'' @ [LF])] new_mailbox = (None, m) \<and>
     mb_records m = [(None, [])]"
proof -
  let ?c = "''{}'' @ [LF]"
  have f: "successively follows ([sample_sink ''{''] @ [sample_sink ?c])"
    by (simp add: follows_def sample_sink_def)
  have "\<forall>l \<in> set (split_on LF (''{'' @ ''}'')). good_line sample_json l"
    "\<forall>l \<in> set (split_on LF (?c @ [])). good_line sample_json l"
    by (simp_all add: good_line_def sample_json_def strip_def lstrip_def rstrip_def is_space_def)
  then have "sound sample_json ''{''" "sound sample_json ?c" unfolding sound_def by blast+
  then have "\<forall>x \<in> set ([sample_sink ''{''] @ [sample_sink ?c]). sound sample_json (sk_content x)"
    by (simp add: sample_sink_def)
  from mailbox_reads_in_pieces [OF sample_whole f this]
  obtain m where "refresh_all sample_json [sample_sink ''{'', sample_sink ?c] new_mailbox = (None, m)"
    "mb_records m = records_of sample_json ?c" by (auto simp: sample_sink_def)
  moreover have "records_of sample_json ?c = [(None, [])]" by code_simp
  ultimately show ?thesis by auto
qed

end
