(* ===== verification/Adapter_Build.thy ===== *)
theory Adapter_Build
  imports Http_Limits Mailbox Run
begin

text \<open>Building whatever \<open>--readback\<close> points at (\<open>build_adapter\<close> and the spec loader of
  \<open>pipeline/adapters.py\<close>, \<open>prepare_readback\<close> of \<open>pipeline/common.py\<close>), and the adapters as the poll
  and the tools see them. An import is the argument \<open>im\<close>; what it gives is a \<open>pyobj\<close>, of which the
  loader looks at the kind, the required positional parameters and the result of a call.\<close>

section \<open>Import paths\<close>

text \<open>A class or a callable is called with the table or with nothing (\<open>None\<close>); a call raises or gives
  an object. A callable also stands for the adapter that wraps it as a fetch function.\<close>

datatype 'a pyobj =
    WithFetch 'a
  | PyClass "string list" "(string \<times> json) list option \<Rightarrow> string + 'a pyobj"
  | PyCallable "string list" 'a "(string \<times> json) list option \<Rightarrow> string + 'a pyobj"
  | PyOther string

datatype spec_error =
    NotModuleAttribute string
  | CannotImport string
  | NoAttribute string
  | TooManyInitArguments nat
  | TooManyArguments "string list"
  | FactoryRaised string
  | NoFetchMethod
  | NotCallable string
  | FactoryReturned string

datatype spec_kind = FactoryNoArgs | FactoryWithConfig | FetchFunction

definition CONFIG_PARAM :: string where "CONFIG_PARAM = ''config''"

definition classify_spec_target :: "string list \<Rightarrow> spec_error + spec_kind" where
  "classify_spec_target required =
     (case required of
        [] \<Rightarrow> Inr FactoryNoArgs
      | [p] \<Rightarrow> Inr (if p = CONFIG_PARAM then FactoryWithConfig else FetchFunction)
      | _ \<Rightarrow> Inl (TooManyArguments required))"

datatype 'a import_result = ImportFailed string | AttributeMissing | Imported 'a

definition import_target :: "(string \<Rightarrow> string \<Rightarrow> 'a import_result) \<Rightarrow> string \<Rightarrow> spec_error + 'a" where
  "import_target im spec =
     (let module = takeWhile (\<lambda>c. c \<noteq> CHR '':'') spec; attribute = drop (length module + 1) spec
      in if CHR '':'' \<notin> set spec \<or> module = [] \<or> attribute = [] then Inl (NotModuleAttribute spec)
         else (case im module attribute of
             ImportFailed e \<Rightarrow> Inl (CannotImport e) | AttributeMissing \<Rightarrow> Inl (NoAttribute attribute) | Imported t \<Rightarrow> Inr t))"

definition call_factory ::
  "((string \<times> json) list option \<Rightarrow> string + 'a pyobj) \<Rightarrow> (string \<times> json) list option \<Rightarrow> spec_error + 'a pyobj" where
  "call_factory f arg = (case f arg of Inl e \<Rightarrow> Inl (FactoryRaised e) | Inr x \<Rightarrow> Inr x)"

definition instantiate_class ::
  "string list \<Rightarrow> ((string \<times> json) list option \<Rightarrow> string + 'a pyobj) \<Rightarrow> readback_config \<Rightarrow> spec_error + 'a pyobj"
where
  "instantiate_class required f config =
     (if 1 < length required then Inl (TooManyInitArguments (length required))
      else if required \<noteq> [] then call_factory f (Some (adapter_table config))
      else call_factory f None)"

text \<open>What a factory returned: a class is instantiated, then an object with \<open>fetch\<close> is used, a callable
  wrapped, anything else refused.\<close>

definition settle_result :: "readback_config \<Rightarrow> 'a pyobj \<Rightarrow> spec_error + 'a" where
  "settle_result config result =
     (case (case result of PyClass required f \<Rightarrow> instantiate_class required f config | x \<Rightarrow> Inr x) of
        Inl e \<Rightarrow> Inl e
      | Inr (WithFetch a) \<Rightarrow> Inr a
      | Inr (PyCallable required wrapped f) \<Rightarrow> Inr wrapped
      | Inr (PyClass required f) \<Rightarrow> Inl (FactoryReturned ''type'')
      | Inr (PyOther t) \<Rightarrow> Inl (FactoryReturned t))"

definition build_from_spec ::
  "(string \<Rightarrow> string \<Rightarrow> 'a pyobj import_result) \<Rightarrow> readback_config \<Rightarrow> string \<Rightarrow> spec_error + 'a"
where
  "build_from_spec im config spec =
     (case import_target im spec of
        Inl e \<Rightarrow> Inl e
      | Inr (PyClass required f) \<Rightarrow>
          (case instantiate_class required f config of
             Inl e \<Rightarrow> Inl e
           | Inr (WithFetch a) \<Rightarrow> Inr a
           | Inr _ \<Rightarrow> Inl NoFetchMethod)
      | Inr (WithFetch a) \<Rightarrow> Inr a
      | Inr (PyOther t) \<Rightarrow> Inl (NotCallable t)
      | Inr (PyCallable required wrapped f) \<Rightarrow>
          (case classify_spec_target required of
             Inl e \<Rightarrow> Inl e
           | Inr FetchFunction \<Rightarrow> Inr wrapped
           | Inr FactoryNoArgs \<Rightarrow>
               (case call_factory f None of Inl e \<Rightarrow> Inl e | Inr x \<Rightarrow> settle_result config x)
           | Inr FactoryWithConfig \<Rightarrow>
               (case call_factory f (Some (adapter_table config)) of
                  Inl e \<Rightarrow> Inl e | Inr x \<Rightarrow> settle_result config x)))"

section \<open>Building\<close>

definition BUILTIN_KINDS :: "string list" where "BUILTIN_KINDS = [''http'', ''mailbox'']"

datatype 'a readback_adapter =
    HttpAdapter http_adapter
  | MailboxFile string "(string \<times> string) list"
  | CustomAdapter 'a

datatype build_error = HttpRefused adapter_error | SpecFailed spec_error | BadConfig config_error | NotText string

definition json_opt_text :: "json \<Rightarrow> string option" where
  "json_opt_text j = (case j of JStr s \<Rightarrow> Some s | _ \<Rightarrow> None)"

text \<open>The attributes \<open>HttpJsonAdapter\<close> is built with.\<close>

definition http_attributes :: "readback_config \<Rightarrow> string \<Rightarrow> http_adapter" where
  "http_attributes c url = \<lparr>ha_url = url, ha_tag_param = rc_tag_param c, ha_items_key = rc_items_key c,
     ha_timeout = rc_timeout c, ha_field_map = field_map_of c, ha_allow_public = rc_allow_public c,
     ha_headers = rc_headers c, ha_list_path = json_opt_text (rc_list_path c), ha_enumerate = rc_enumerate c,
     ha_query = rc_query c, ha_method = rc_method c, ha_body = rc_body c, ha_page_param = rc_page_param c,
     ha_page_size_param = rc_page_size_param c, ha_next_path = rc_next_path c, ha_max_pages = nat (rc_max_pages c),
     ha_retry_max = nat (rc_retry_max c), ha_retry_base = rc_retry_base c, ha_rate = Some (rc_rate c),
     ha_list_url = []\<rparr>"

definition mailbox_map :: "readback_config \<Rightarrow> (string \<times> string) list" where
  "mailbox_map c =
     List.map_filter (\<lambda>(n, q). map_option (Pair n) q)
       (map (\<lambda>(n, p). (n, case map_of (rc_field_overrides c) n of Some q \<Rightarrow> q | None \<Rightarrow> Some p)) MAILBOX_FIELD_MAP @
        filter (\<lambda>(n, q). n \<notin> set (map fst MAILBOX_FIELD_MAP)) (rc_field_overrides c))"

text \<open>A relative mailbox path is taken from the directory of the config file; \<open>join_dir\<close> is the \<open>/\<close> of
  \<open>pathlib\<close>.\<close>

definition mailbox_path :: "(string \<Rightarrow> string \<Rightarrow> string) \<Rightarrow> string option \<Rightarrow> string \<Rightarrow> string" where
  "mailbox_path join_dir config_dir path =
     (if truthy config_dir \<and> \<not> prefix ''/'' path then join_dir (the config_dir) path else path)"

definition build_adapter ::
  "urls \<Rightarrow> netlib \<Rightarrow> (string \<Rightarrow> string \<Rightarrow> string) \<Rightarrow> (string \<Rightarrow> string \<Rightarrow> 'a pyobj import_result) \<Rightarrow>
     readback_config \<Rightarrow> string option \<Rightarrow> build_error + 'a readback_adapter"
where
  "build_adapter U N join_dir im c config_dir =
     (if truth (rc_spec c)
      then (case rc_spec c of
          JStr spec \<Rightarrow> (case build_from_spec im c spec of Inl e \<Rightarrow> Inl (SpecFailed e) | Inr a \<Rightarrow> Inr (CustomAdapter a))
        | _ \<Rightarrow> Inl (NotText ''spec''))
      else if rc_kind c = ''http''
      then (if \<not> truth (rc_url c) then Inl (HttpRefused NoUrl)
        else (case rc_url c of
            JStr url \<Rightarrow>
              if truth (rc_list_path c) \<and> json_opt_text (rc_list_path c) = None then Inl (NotText ''list_path'')
              else (case new_http_adapter U N (http_attributes c url) of
                  Inl e \<Rightarrow> Inl (HttpRefused e) | Inr A \<Rightarrow> Inr (HttpAdapter A))
          | _ \<Rightarrow> Inl (NotText ''url'')))
      else if rc_kind c = ''mailbox''
      then (if \<not> truth (rc_path c) then Inl (HttpRefused NoPath)
        else (case rc_path c of
            JStr path \<Rightarrow>
              Inr (MailboxFile (mailbox_path join_dir
                (case config_dir of Some d \<Rightarrow> Some d | None \<Rightarrow> rc_config_dir c) path)
                (mailbox_fields (Some (mailbox_map c))))
          | _ \<Rightarrow> Inl (NotText ''path'')))
      else Inl (HttpRefused (UnknownKind (rc_kind c))))"

text \<open>\<open>prepare_readback\<close> for a table: the adapter is built, then its preflight runs. The preflight of the
  http adapter and of the mailbox are the code's; that of a custom adapter is an argument.\<close>

definition prepare_readback ::
  "'w timing \<Rightarrow> 'w web \<Rightarrow> (string \<Rightarrow> string \<Rightarrow> string) \<Rightarrow> (string \<Rightarrow> string \<Rightarrow> 'a pyobj import_result) \<Rightarrow>
     (string \<Rightarrow> path_facts) \<Rightarrow> ('a \<Rightarrow> adapter_error + unit) \<Rightarrow> (json \<Rightarrow> string) \<Rightarrow> string dict \<Rightarrow> json \<Rightarrow>
     string option \<Rightarrow> bool \<Rightarrow> 'w \<Rightarrow> (build_error + 'a readback_adapter \<times> http_state) \<times> 'w"
where
  "prepare_readback T W join_dir im facts custom R environ raw config_dir preflight w =
     (case parse_readback_config R environ raw of
        Inl e \<Rightarrow> (Inl (BadConfig e), w)
      | Inr c \<Rightarrow>
          (case build_adapter (wb_urls W) (wb_net W) join_dir im c config_dir of
             Inl e \<Rightarrow> (Inl e, w)
           | Inr a \<Rightarrow>
               if \<not> preflight then (Inr (a, new_http_state), w)
               else (case a of
                   HttpAdapter A \<Rightarrow>
                     (case ha_preflight T W A new_http_state w of
                        (Inl e, S, w1) \<Rightarrow> (Inl (HttpRefused e), w1) | (Inr _, S, w1) \<Rightarrow> (Inr (a, S), w1))
                 | MailboxFile path fm \<Rightarrow>
                     (case mb_preflight (facts path) of
                        Inl e \<Rightarrow> (Inl (HttpRefused e), w) | Inr _ \<Rightarrow> (Inr (a, new_http_state), w))
                 | CustomAdapter x \<Rightarrow>
                     (case custom x of Inl e \<Rightarrow> (Inl (HttpRefused e), w) | Inr _ \<Rightarrow> (Inr (a, new_http_state), w)))))"

section \<open>As the poll sees them\<close>

definition rate_source_of :: "readback_config \<Rightarrow> rate_source" where
  "rate_source_of c = \<lparr>rs_spec = truth (rc_spec c), rs_kind = Some (rc_kind c), rs_rate = NumRate (rc_rate c)\<rparr>"

definition with_state :: "'w timing \<Rightarrow> ('w \<times> 's) timing" where
  "with_state T = \<lparr>read_clock = (\<lambda>(w, s). case read_clock T w of (t, w') \<Rightarrow> (t, w', s)),
     do_sleep = (\<lambda>d (w, s). (do_sleep T d w, s))\<rparr>"

definition as_answer :: "(adapter_error \<Rightarrow> string) \<Rightarrow> adapter_error + fetch_result \<Rightarrow> fetch_answer" where
  "as_answer say x =
     (case x of
        Inr fr \<Rightarrow> fetch_answer.Answer fr
      | Inl (OutOfBudget context) \<Rightarrow> Exhausted context
      | Inl e \<Rightarrow> LookupFailed (AdapterFailure (say e)))"

definition http_source ::
  "'w timing \<Rightarrow> 'w web \<Rightarrow> http_adapter \<Rightarrow> bool \<Rightarrow> (adapter_error \<Rightarrow> string) \<Rightarrow> rate_source \<Rightarrow> ('w \<times> http_state) source"
where
  "http_source T W A same say rs = \<lparr>
     src_bind = (\<lambda>d (w, S). (w, ha_bind same d S)),
     src_fetch = (\<lambda>p (w, S). case ha_fetch T W A (pr_tag p) S w of (x, S', w') \<Rightarrow> (as_answer say x, w', S')),
     src_rate = Some rs\<rparr>"

definition http_built ::
  "'w timing \<Rightarrow> 'w web \<Rightarrow> http_adapter \<Rightarrow> bool \<Rightarrow> (adapter_error \<Rightarrow> string) \<Rightarrow> rate_source \<Rightarrow> ('w \<times> http_state) built"
where
  "http_built T W A same say rs = \<lparr>bt_source = http_source T W A same say rs, bt_enumerate_records = ha_enumerate A,
     bt_can_enumerate = CanDeclared (ha_can_enumerate A),
     bt_list_all = Some (\<lambda>(w, S). case ha_list_all T W A S w of
       (Inl e, S', w') \<Rightarrow> (Inl (say e), w', S') | (Inr fr, S', w') \<Rightarrow> (Inr fr, w', S')),
     bt_close = id\<rparr>"

text \<open>A mailbox: the file as it is when a lookup looks.\<close>

definition mailbox_source ::
  "('w \<Rightarrow> sink option \<times> 'w) \<Rightarrow> json_text_lib \<Rightarrow> (string \<times> string) list \<Rightarrow> string \<Rightarrow> (adapter_error \<Rightarrow> string) \<Rightarrow>
     rate_source \<Rightarrow> ('w \<times> mailbox) source"
where
  "mailbox_source look L fm stem say rs = \<lparr>
     src_bind = (\<lambda>d x. x),
     src_fetch = (\<lambda>p (w, m). case look w of (file, w') \<Rightarrow>
       (case mb_fetch L fm stem (pr_tag p) file m of (x, m') \<Rightarrow> (as_answer say x, w', m'))),
     src_rate = Some rs\<rparr>"

definition mailbox_built ::
  "('w \<Rightarrow> sink option \<times> 'w) \<Rightarrow> json_text_lib \<Rightarrow> (string \<times> string) list \<Rightarrow> string \<Rightarrow> (adapter_error \<Rightarrow> string) \<Rightarrow>
     rate_source \<Rightarrow> ('w \<times> mailbox) built"
where
  "mailbox_built look L fm stem say rs = \<lparr>bt_source = mailbox_source look L fm stem say rs, bt_enumerate_records = True,
     bt_can_enumerate = CanDeclared True,
     bt_list_all = Some (\<lambda>(w, m). case look w of (file, w') \<Rightarrow>
       (case mb_list_all L fm stem file m of
          (Inl e, m') \<Rightarrow> (Inl (say e), w', m') | (Inr fr, m') \<Rightarrow> (Inr fr, w', m'))),
     bt_close = id\<rparr>"

section \<open>A poll over http ends\<close>

text \<open>A client, a backoff and a wall clock that return and do not turn the clock back.\<close>

definition forward :: "'w web \<Rightarrow> ('w \<Rightarrow> seconds) \<Rightarrow> bool" where
  "forward W now \<longleftrightarrow> (\<forall>rq w. now w \<le> now (snd (wb_send W rq w))) \<and>
     (\<forall>h w. now w \<le> now (snd (wb_uniform W h w)) \<and> (0 \<le> h \<longrightarrow> 0 \<le> fst (wb_uniform W h w))) \<and>
     (\<forall>w. now w \<le> now (snd (wb_wall W w)))"

lemma forward_steps:
  assumes "forward W now"
  shows "wb_send W rq w = (r, w1) \<Longrightarrow> now w \<le> now w1" "wb_uniform W h w = (x, w2) \<Longrightarrow> now w \<le> now w2"
    "wb_uniform W h w = (x, w2) \<Longrightarrow> 0 \<le> h \<Longrightarrow> 0 \<le> x" "wb_wall W w = (t, w3) \<Longrightarrow> now w \<le> now w3"
  using assms unfolding forward_def by (metis fst_conv snd_conv)+

lemma remaining_forward:
  assumes "monotonic T now" "ha_remaining T S w = (left, w1)" shows "now w \<le> now w1"
  using assms(2) monotonic_clock [OF assms(1), of w]
  by (fastforce simp: ha_remaining_def split: option.splits prod.splits)

lemma pace_forward:
  assumes "monotonic T now" "ha_pace T A c S w = (r, S1, w1)" shows "now w \<le> now w1"
proof (cases "ha_rate A")
  case None
  then show ?thesis using assms(2) by (simp add: ha_pace_def)
next
  case (Some q)
  obtain t w0 where t: "read_clock T w = (t, w0)" by fastforce
  note c = monotonic_clock [OF assms(1) t]
  show ?thesis
  proof (cases "case hs_next_slot S of Some slot \<Rightarrow> t < slot | None \<Rightarrow> False")
    case False
    then show ?thesis using assms(2) c by (auto simp: ha_pace_def Some t)
  next
    case True
    then obtain s where s: "hs_next_slot S = Some s" "t < s" by (auto split: option.splits)
    obtain left w2 where l: "ha_remaining T S w0 = (left, w2)" by fastforce
    note f = remaining_forward [OF assms(1) l]
    obtain t3 w3 where r: "read_clock T (do_sleep T (s - t) w2) = (t3, w3)" by fastforce
    have "now w2 + (s - t) \<le> now (do_sleep T (s - t) w2)" using s by (intro monotonic_sleep [OF assms(1)]) simp
    then have "now w2 \<le> now w3" using monotonic_clock [OF assms(1) r] s(2) by linarith
    moreover have "w1 = w2 \<or> w1 = w3"
      using assms(2) s by (cases "case left of Some l \<Rightarrow> l \<le> s - t | None \<Rightarrow> False")
        (simp_all add: ha_pace_def Some t l r Let_def)
    ultimately show ?thesis using c f by auto
  qed
qed

lemma try_forward:
  assumes "monotonic T now" "forward W now" "ha_try T W A url m b c S w = (r, S1, w1)" shows "now w \<le> now w1"
proof -
  obtain left wa where a: "ha_remaining T S w = (left, wa)" by fastforce
  obtain p Sb wb where p: "ha_pace T A c S wa = (p, Sb, wb)" by (metis prod_cases3)
  obtain left2 wc where l: "ha_remaining T Sb wb = (left2, wc)" by fastforce
  have before: "now w \<le> now wa" "now wa \<le> now wb" "now wb \<le> now wc"
    using remaining_forward [OF assms(1) a] pace_forward [OF assms(1) p] remaining_forward [OF assms(1) l] by auto
  define rq where "rq = \<lparr>pr_url = url, pr_method = m, pr_headers = request_headers A b, pr_body = b,
    pr_timeout = (case left2 of Some l \<Rightarrow> max (5 / 100) (min (ha_timeout A) l) | None \<Rightarrow> ha_timeout A)\<rparr>"
  obtain q wd where q: "wb_send W rq wc = (q, wd)" by fastforce
  note sent = forward_steps(1) [OF assms(2) q]
  have wall: "now wd \<le> now we" if "retry_after_seconds W x wd = (y, we)" for x y we
    using that forward_steps(4) [OF assms(2), of wd]
    by (auto simp: retry_after_seconds_def Let_def split: option.splits prod.splits if_splits)
  show ?thesis
    using assms(3) before sent wall
    by (auto simp: ha_try_def a p l Let_def rq_def [symmetric] q split: if_splits sum.splits prod.splits) force+
qed

lemma wait_forward:
  assumes T: "monotonic T now" "forward W now" "0 \<le> ha_retry_base A"
    and w: "ha_wait T W A c n f a S w = (r, S1, w1)" shows "now w \<le> now w1"
proof -
  obtain d w2 where d: "ha_backoff W A n a w = (d, w2)" by fastforce
  let ?span = "min (ha_retry_base A * 2 ^ n) MAX_BACKOFF_SECONDS"
  have span: "0 \<le> ?span" using T(3) by (simp add: MAX_BACKOFF_SECONDS_def)
  obtain x where x: "wb_uniform W (?span / 2) w = (x, w2)" "?span / 2 + x \<le> d"
    using d by (auto simp: ha_backoff_def Let_def split: prod.splits option.splits)
  have pos: "0 \<le> d" "now w \<le> now w2" using forward_steps(2,3) [OF T(2) x(1)] span x(2) by auto
  obtain left w3 where l: "ha_remaining T S w2 = (left, w3)" by fastforce
  note f = remaining_forward [OF T(1) l]
  have "now w3 + d \<le> now (do_sleep T d w3)" by (rule monotonic_sleep [OF T(1) pos(1)])
  then show ?thesis using w pos f by (auto simp: ha_wait_def d l split: if_splits)
qed

interpretation goes_on: http_keeps T W A
  "\<lambda>S w. monotonic T now \<and> forward W now \<and> 0 \<le> ha_retry_base A \<longrightarrow> t0 \<le> now w" "\<lambda>u. True" for T W A now t0
proof
  fix url S w m b c r S1 w1
  assume "monotonic T now \<and> forward W now \<and> 0 \<le> ha_retry_base A \<longrightarrow> t0 \<le> now w" "ha_try T W A url m b c S w = (r, S1, w1)"
  then show "monotonic T now \<and> forward W now \<and> 0 \<le> ha_retry_base A \<longrightarrow> t0 \<le> now w1"
    using try_forward by (metis order_trans)
next
  fix S w c n f a q S1 w1
  assume "monotonic T now \<and> forward W now \<and> 0 \<le> ha_retry_base A \<longrightarrow> t0 \<le> now w" "ha_wait T W A c n f a S w = (q, S1, w1)"
  then show "monotonic T now \<and> forward W now \<and> 0 \<le> ha_retry_base A \<longrightarrow> t0 \<le> now w1"
    using wait_forward by (metis order_trans)
qed simp_all

lemma http_source_patient:
  assumes "monotonic T now" "forward W now" "0 \<le> ha_retry_base A"
  shows "source_patient (now \<circ> fst) (http_source T W A same say rs)"
proof -
  have "now w \<le> now w'" if "ha_fetch T W A tag S w = (x, S', w')" for tag S w x S' w'
    using goes_on.fetch_keeps [OF _ that, of now "now w"] assms by simp
  then show ?thesis by (auto simp: source_patient_def http_source_def split: prod.splits)
qed

lemma with_state_monotonic: "monotonic T now \<Longrightarrow> monotonic (with_state T) (now \<circ> fst)"
  unfolding monotonic_def with_state_def by (auto simp: case_prod_beta)

definition http_poll ::
  "'w timing \<Rightarrow> 'w web \<Rightarrow> http_adapter \<Rightarrow> bool \<Rightarrow> (adapter_error \<Rightarrow> string) \<Rightarrow> rate_source \<Rightarrow> (readback \<Rightarrow> string) \<Rightarrow>
     seconds \<Rightarrow> seconds \<Rightarrow> seconds \<Rightarrow> ('w \<times> http_state) poll_args"
where
  "http_poll T W A same say rs rp quiet max_w interval = \<lparr>pa_timing = with_state T, pa_source = http_source T W A same say rs,
     pa_repr = rp, pa_quiet_window = quiet, pa_max_wait = max_w, pa_poll_interval = interval\<rparr>"

text \<open>C26 (a poll over http ends). What the poll asks of an adapter holds of the http adapter, whatever
  the server does - failing, asking for long waits or paging without end: with valid settings
  the readback of any number of tags comes back with an outcome or with the adapter's error.\<close>

theorem poll_over_http_ends:
  assumes "monotonic T now" "forward W now" "0 \<le> ha_retry_base A" "0 \<le> quiet" "0 \<le> max_w" "0 < interval"
  shows "\<exists>r w'. read_back_all (http_poll T W A same say rs rp quiet max_w interval) probes w = Some (r, w') \<and>
    ((\<exists>e. r = Inl (LookupError e)) \<or> (\<exists>out. r = Inr out))"
proof -
  let ?A = "http_poll T W A same say rs rp quiet max_w interval"
  have "monotonic (pa_timing ?A) (now \<circ> fst)" "source_patient (now \<circ> fst) (pa_source ?A)"
    using with_state_monotonic [OF assms(1)] http_source_patient [OF assms(1-3)] by (simp_all add: http_poll_def)
  from read_back_all_returns [OF this, of probes w] assms(4-6) show ?thesis
    by (auto simp: http_poll_def)
qed

theorem poll_over_http_ends_witness:
  "\<exists>r w'. read_back_all (http_poll additive sample_web sample_adapter True (\<lambda>e. []) \<lparr>rs_spec = False, rs_kind = None, rs_rate = NoRate\<rparr>
       (\<lambda>r. []) 1 20 (1 / 2)) [sample_probe ''a''] (0, new_http_state) = Some (r, w')"
proof -
  have "forward sample_web (\<lambda>t. t)" by (simp add: forward_def sample_web_def)
  moreover have "0 \<le> ha_retry_base sample_adapter" by (simp add: sample_adapter_def)
  ultimately show ?thesis
    using poll_over_http_ends [OF monotonic_additive, of sample_web sample_adapter 1 20 "1 / 2" True "\<lambda>e. []"
      "\<lparr>rs_spec = False, rs_kind = None, rs_rate = NoRate\<rparr>" "\<lambda>r. []" "[sample_probe ''a'']" "(0, new_http_state)"] by force
qed

end
