(* ===== verification/Spec2Isabelle.thy ===== *)
theory Spec2Isabelle
  imports Blast_Report Redeliver Loop Load_Fire Keep_Alive Compare Steady Sigcheck Adapter_Build
begin

text \<open>
  TestingHQ (\<open>src/testinghq\<close>) tests a system that turns inbound email into tickets: it sends
  synthetic, tagged messages at a webhook, reads back what the system stored, and says what
  was lost, duplicated or mangled; it also load-tests the webhook and compares two runs. This
  library models those tools and everything they rest on, from the Python source, as executable definitions of HOL, and proves what a
  verdict or an exit code of them means.

  THE PARTS AND THEIR THEORIES, in import order. Definitions keep the names of the source;
  a suffix or a prefix is added only where HOL has the name.

  \<^item> \<open>Prelude\<close>: the string operations of Python the package uses (\<open>strip\<close>, \<open>split\<close>,
    \<open>splitlines\<close>, \<open>rsplit\<close>, white space collapsing, decimal rendering) and the values a
    parameter annotated \<open>Any\<close> may hold (\<open>pyval\<close>), with the lemmas the components share.
  \<^item> \<open>Readback\<close> (\<open>pipeline/readback.py\<close>): probes, readbacks and their validation, the adapter
    seam (\<open>FunctionAdapter\<close>, \<open>MultiAdapter\<close>) and the normalisers the checks compare by. The
    locale \<open>normaliser\<close> states what a check needs of a normaliser - a stored comparison value
    is its own comparison value - and is interpreted on texts, routes, attachment names and
    message ids.
  \<^item> \<open>Payload\<close> (\<open>blast/payload.py\<close>): a generated message with its ground truth, and
    \<open>with_changes\<close>, which keeps the header block in step.
  \<^item> \<open>Expectations\<close> (\<open>pipeline/expectations.py\<close>): the six checks with their three-valued
    result, the verdict over the records of one message, the two threading checks, and the
    matcher that grades saved records.
  \<^item> \<open>Messages\<close> (\<open>pipeline/messages.py\<close>): making, stamping, splitting and finding tags.
  \<^item> \<open>Rate_Limit\<close> (\<open>core/ratelimit.py\<close>): the token bucket. A call with the lock held is one
    atomic step at the moment of its clock reading; the locale \<open>rate_gate\<close> bounds what any
    interleaving of such steps grants, and is interpreted on all calls and on those that
    never wait.
  \<^item> \<open>Guardrails\<close> (\<open>core/guardrails.py\<close>, \<open>core/targets.py\<close>, \<open>require_synthetic\<close> of
    \<open>pipeline/common.py\<close>): which addresses are synthetic, which hosts are internal, and when a
    configured name resolves to a target.
  \<^item> \<open>Sending\<close> (\<open>post\<close> of \<open>core/transport.py\<close>, \<open>send_all\<close> of \<open>pipeline/common.py\<close>): one
    request, and the paced loop over all of them.
  \<^item> \<open>Poll\<close> (\<open>read_back_all\<close> and the time budget of \<open>pipeline/common.py\<close>): the poll until
    quiet. Its loop variables are the record \<open>poll\<close>; \<open>polled\<close> is the step relation the
    specification is stated over, whose reachable observations the outcome is judged by.
  \<^item> \<open>Run\<close> (\<open>core/exit_codes.py\<close> and what \<open>execute\<close> of \<open>pipeline/verify.py\<close> and
    \<open>pipeline/ledger.py\<close> share): guards, adapter, sends, poll, in that order.
  \<^item> \<open>Verify\<close> (\<open>pipeline/verify.py\<close>): grading, summary, artifact, exit code, and the re-check
    of a saved run. The locale \<open>exit_gate\<close> is the contract of a tool's judgement; its other
    interpretation is in \<open>Ledger\<close>.
  \<^item> \<open>Ledger\<close> (\<open>pipeline/ledger.py\<close>): exactly-once accounting, the classes of stray records
    and the ledger's verdict and exit code.
  \<^item> \<open>Redelivery_Plan\<close> (\<open>pipeline/redeliver.py\<close>): deliveries, scenarios, who replies to whom,
    and the four builders.
  \<^item> \<open>Redeliver\<close> (\<open>pipeline/redeliver.py\<close>): sending a plan with its waits, judging content,
    duplicates and threads, attributing strays to scenarios, verdict and run. It interprets
    \<open>exit_gate\<close> a third time.
  \<^item> \<open>Machine_Mail\<close> (\<open>pipeline/loop.py\<close>): the machine-generated corpus and the marker of each
    message, the ordinary message and the bait.
  \<^item> \<open>Loop\<close> (\<open>pipeline/loop.py\<close>): what was done with each message, what is new in the
    outbound sink and what it answers, the headline and the run over two adapters.
  \<^item> \<open>Blast_Report\<close> (\<open>core/report.py\<close>): the outcome and flag of a blast record, the summary and
    verdict of a run, and the grading of a sent payload.
  \<^item> \<open>Load_Report\<close> (\<open>barrage/report.py\<close>): samples, percentiles, the time series, the knee,
    the concurrency limit and the artifact of a load run.
  \<^item> \<open>Load_Run\<close> (\<open>barrage/runner.py\<close>): plan, ramp, arrivals, the life of one request, the
    pacer of the closed loop. The worker threads are the step relation \<open>run_step\<close>: what one
    thread does with the lock held is one step, and the theorems hold for every interleaving.
  \<^item> \<open>Load_Serial\<close> (\<open>SerialExecutor\<close> of \<open>barrage/executor.py\<close>, the open loop and \<open>run\<close> of the
    runner): a run with one worker from start to report; its states are states of \<open>run_step\<close>.
  \<^item> \<open>Load_Fire\<close> (\<open>barrage/fire.py\<close>, \<open>barrage/payloads.py\<close>, \<open>cli/barrage.py\<close>): the guards, the
    payload pool, the artifact and its config, replay, and the two commands.
  \<^item> \<open>Json\<close>: the values and the writer of the standard \<open>json\<close> module, with \<open>==\<close> and truth.
  \<^item> \<open>Wire\<close> (\<open>blast/serialize.py\<close>, \<open>core/formats.py\<close>, \<open>encode_multipart\<close> and \<open>build_request\<close>
    of \<open>core/transport.py\<close>): the form parts of a message, the bodies of the wire formats and
    the request around them; beside the encoder stands a reader of multipart bodies.
  \<^item> \<open>Keep_Alive\<close> (\<open>PersistentHttpClient\<close> of \<open>core/transport.py\<close>, \<open>_Sender\<close> of
    \<open>barrage/fire.py\<close>): one connection per worker, its one retry and its counts.
  \<^item> \<open>Load_Compare\<close> (\<open>compare/load.py\<close>), \<open>Compare\<close> (\<open>compare/runs.py\<close>, \<open>_cmd_compare\<close>): two
    runs of one tool, record by record or by their load numbers.
  \<^item> \<open>Steady_Families\<close> (\<open>pipeline/steady.py\<close>): the intents, the five transforms that keep a
    message's meaning, families of variants and their stamped payloads. \<open>Steady\<close>: the labels read
    back, dissent, flips, breakdowns, verdict, gate and run.
  \<^item> \<open>Sig_Codec\<close> (\<open>pipeline/sigcheck.py\<close>): DER, base64, PEM and private keys. \<open>Sig_Curve\<close>: the
    curve P-256, signing and verifying. \<open>Sigcheck\<close>: the schemes, the six variants of a signed
    request, what a correct endpoint answers to each, and the run.
  \<^item> \<open>Py_Repr\<close>: how Python prints a string in a sentence, and \<open>split\<close> at a character.
  \<^item> \<open>Adapter_Fields\<close> (\<open>pipeline/adapters.py\<close>): paths into a JSON value and the readback a record
    becomes. \<open>Adapter_Config\<close>: the \<open>[readback]\<close> table. \<open>Http_Adapter\<close>: the http adapter; its locale
    \<open>http_keeps\<close> (in \<open>Http_Limits\<close>) says what an invariant must survive - one pass of the request
    loop and one wait - to hold of every lookup, listing and preflight, and is interpreted on the
    hosts the requests go to, on their times, and on the clock. \<open>Mailbox\<close>: the append-only file.
    \<open>Adapter_Build\<close>: any of them from a table or an import path, as the poll sees them.

  STATE AND INTERACTION. \<open>fire\<close> (in \<open>Run\<close>) is the run of a tool: it stamps a corpus
  (\<open>Messages\<close>), asks the guards (\<open>Guardrails\<close>), builds the adapter, sends (\<open>Sending\<close>, paced by
  \<open>Rate_Limit\<close>) and polls (\<open>Poll\<close>). Everything the code takes from outside threads one world
  through: the clock and \<open>sleep\<close> (\<open>timing\<close>), the HTTP client, the adapter's \<open>fetch\<close>,
  \<open>list_all\<close>, \<open>bind_clock\<close> and \<open>close\<close>. They are arguments, gathered in \<open>timing\<close>, \<open>source\<close>,
  \<open>built\<close> and \<open>env\<close>; so are a wire format, a payload digest, the clean corpus of a seed, the random draws of \<open>steady\<close>, SHA-256 and HMAC,
  \<open>urllib.parse\<close>, \<open>json.loads\<close>,
  \<open>getaddresses\<close>, \<open>html.unescape\<close>, \<open>ipaddress\<close>, the resolver, \<open>repr\<close> and the configuration
  file as loaded. What a theorem needs of them is a named hypothesis: \<open>monotonic\<close> (a clock
  does not go back and a sleep lasts as long as asked), \<open>patient\<close> and \<open>source_patient\<close> (a
  client or an adapter returns and does not turn the clock back), \<open>well_behaved\<close> (these of a
  whole environment). Each is shown to hold for a concrete environment in a witness.

  WHAT THE THEOREMS SHOW. Exit codes: \<open>verify\<close> and \<open>ledger\<close> exit 0 exactly when every message
  has one live, correct record and the store was seen to be still, and exit 3 on every loss,
  duplicate and unsettled poll. Polling: settled means a run of identical complete polls that
  covers the quiet window. Accounting: the lists of the ledger and the counts of the two
  summaries add up, and the stray classes are a partition. Identity: a tag reads back, two
  tags collide only at the dash, a tag is claimed only by the family that minted it. Safety:
  nothing is sent past a guard, no interleaving exceeds the rate, a re-check sends nothing.
  Checks: nothing unseen is passed, no faithful record fails, two graders agree. Termination:
  the bucket's wait, the poll, the runs and the pacer come back. Reporting: a run is CLEAN
  exactly when no record is flagged. Load: a plan that is accepted is well formed, every
  arrival is accounted for once whatever the interleaving, a record does not change after the
  run was closed, the percentile is the value of its rank, the expected counts of the time
  series add up to the planned area, the knee is the start of the first long enough bad run,
  a replayed artifact gives the plan it was written with. Wire: a form reads back part by
  part, the headers describe the body, a retried request was not answered before. Comparison:
  every aligned record moved one way, swapping the runs swaps regressions and fixes. Steady:
  the transforms keep every word, flips are the pairs that differ, the gate opens exactly when
  every label was read and the dissent is within its limit. Sigcheck: the exit code says
  whether every variant was answered as it should be, a correct endpoint is not accused, a
  printed key reads back. Adapters: no request leaves the configured hosts, whatever the pages
  say, or the rate and the deadline; an answer rests on responses that said so; a file read in
  pieces reads as at once; no header value reaches an artifact; a poll over http ends.

  BOUNDS AND FUEL. There is no fuel. The loops that may run for ever, \<open>acquire_loop\<close>,
  \<open>poll_loop\<close> and \<open>pacer_take\<close>, are partial functions on options whose value \<open>None\<close> is not returning; that
  they return is proved. \<open>sign_loop\<close> is one as well; its end depends on the digest and is not claimed. Every other recursion is structural or has its measure. Floats are
  exact rationals, so rounding is not modelled; text is ASCII, where NFKC is the identity and
  \<open>casefold\<close> is the ASCII lower case. Integers are unbounded, as in Python.

  NOT MODELLED. Sentences for people are constructors of \<open>detail\<close> and its like with the values
  they interpolate, and the \<open>format_\<close> functions and printing are left out. Ctrl-C is left out
  (the records of the artifact it leaves are in \<open>Run\<close>). The check a newer \<open>urlsplit\<close> makes of
  a bracketed host, and recorded match modes that are not of the type the tools write, are
  left out. The queue of \<open>PoolExecutor\<close> is not modelled beyond the interleavings it allows.
  The configuration file and its schema, the corpus
  generators (which draw from Python's \<open>random\<close>), the HTML
  and text reports and the argument parsers are not part of this library yet.
\<close>

end
